(* ===== verification/Router_Prelude.thy ===== *)
theory Router_Prelude
  imports Main "HOL-Library.Word" "HOL-Library.Char_ord" "HOL-Library.List_Lexorder"
    "HOL-Library.Product_Lexorder"
begin

text \<open>
  Shared vocabulary of the development.

  \<^item> Rust strings are UTF-8 byte sequences: a \<^typ>\<open>string\<close> of the model is the list of its
    bytes, \<open>length\<close> is \<open>str::len\<close>, and the prefix, search and split functions work on
    bytes as the standard library's do. \<open>trim\<close> removes every white space character of
    Unicode, written as its UTF-8 bytes.
  \<^item> \<open>u16\<close>, \<open>u32\<close>, \<open>u64\<close> and \<open>usize\<close> values that only meet saturating or checked
    operations are natural numbers with the bound written out; bytes and words that are
    masked and shifted are \<^typ>\<open>8 word\<close>, \<^typ>\<open>32 word\<close> and \<^typ>\<open>64 word\<close>.
  \<^item> \<open>BTreeMap\<close> is an association list in ascending key order (\<open>bt_insert\<close>,
    \<open>bt_remove\<close>, \<^const>\<open>map_of\<close>); \<open>min_by_key\<close> and \<open>max_by_key\<close> are the
    iterator methods with their tie breaking (first minimum, last maximum).
\<close>

named_theorems str_simps \<open>unfolding of the string vocabulary\<close>
named_theorems map_simps \<open>lookups in ordered association lists\<close>

section \<open>Options\<close>

definition opt_default :: "'a \<Rightarrow> 'a option \<Rightarrow> 'a" where
  "opt_default d x = (case x of None \<Rightarrow> d | Some v \<Rightarrow> v)"

definition opt_or :: "'a option \<Rightarrow> 'a option \<Rightarrow> 'a option" where
  "opt_or a b = (case a of None \<Rightarrow> b | Some v \<Rightarrow> Some v)"

lemma opt_default_simps [simp]: "opt_default d None = d" "opt_default d (Some v) = v"
  by (simp_all add: opt_default_def)

lemma opt_or_simps [simp]: "opt_or None b = b" "opt_or (Some v) b = Some v"
  by (simp_all add: opt_or_def)

text \<open>The first result of \<open>find_map\<close>.\<close>

fun find_map :: "('a \<Rightarrow> 'b option) \<Rightarrow> 'a list \<Rightarrow> 'b option" where
  "find_map f [] = None"
| "find_map f (x # xs) = (case f x of None \<Rightarrow> find_map f xs | Some y \<Rightarrow> Some y)"

lemma find_map_Some: "find_map f xs = Some y \<Longrightarrow> \<exists>x \<in> set xs. f x = Some y"
  by (induction xs) (auto split: option.splits)

section \<open>Bounded naturals\<close>

definition u16_max :: nat where "u16_max = 2 ^ 16 - 1"
definition u32_max :: nat where "u32_max = 2 ^ 32 - 1"
definition u64_max :: nat where "u64_max = 2 ^ 64 - 1"

definition sat_add32 :: "nat \<Rightarrow> nat \<Rightarrow> nat" where
  "sat_add32 a b = min (a + b) u32_max"

text \<open>The sum of two \<open>u64\<close> values as a release build computes it.\<close>

definition wadd64 :: "nat \<Rightarrow> nat \<Rightarrow> nat" where
  "wadd64 a b = (a + b) mod 2 ^ 64"

definition sat_add64 :: "nat \<Rightarrow> nat \<Rightarrow> nat" where
  "sat_add64 a b = min (a + b) u64_max"

definition sat_mul64 :: "nat \<Rightarrow> nat \<Rightarrow> nat" where
  "sat_mul64 a b = min (a * b) u64_max"

lemma sat_add32_le [simp]: "sat_add32 a b \<le> u32_max"
  by (simp add: sat_add32_def)

lemma sat_add64_le [simp]: "sat_add64 a b \<le> u64_max"
  by (simp add: sat_add64_def)

lemma sat_add64_ge: "a \<le> u64_max \<Longrightarrow> a \<le> sat_add64 a b"
  by (simp add: sat_add64_def)

lemma sat_add32_exact: "a + b \<le> u32_max \<Longrightarrow> sat_add32 a b = a + b"
  by (simp add: sat_add32_def)

lemma sat_add64_exact: "a + b \<le> u64_max \<Longrightarrow> sat_add64 a b = a + b"
  by (simp add: sat_add64_def)

lemma sat_add64_mono: "a \<le> a' \<Longrightarrow> sat_add64 a b \<le> sat_add64 a' b"
  by (simp add: sat_add64_def)

section \<open>Updates of one element\<close>

text \<open>\<open>iter_mut().find(..)\<close> followed by a change of the found record: the first match only.\<close>

fun update_first :: "('a \<Rightarrow> bool) \<Rightarrow> ('a \<Rightarrow> 'a) \<Rightarrow> 'a list \<Rightarrow> 'a list" where
  "update_first P f [] = []"
| "update_first P f (x # xs) = (if P x then f x # xs else x # update_first P f xs)"

lemma update_first_ids:
  "(\<And>x. P x \<Longrightarrow> g (f x) = g x) \<Longrightarrow> map g (update_first P f xs) = map g xs"
  by (induction xs) auto

lemma length_update_first [simp]: "length (update_first P f xs) = length xs"
  by (induction xs) auto

lemma set_update_first_subset:
  "set (update_first P f xs) \<subseteq> set xs \<union> f ` {x \<in> set xs. P x}"
  by (induction xs) auto

text \<open>With one match the update is a map; distinct keys give that.\<close>

lemma update_first_distinct:
  "distinct (map g xs) \<Longrightarrow>
   update_first (\<lambda>x. g x = k) f xs = map (\<lambda>x. if g x = k then f x else x) xs"
proof (induction xs)
  case (Cons x xs)
  have "map (\<lambda>x. if g x = k then f x else x) xs = xs" if "g x = k"
  proof -
    have "\<forall>y \<in> set xs. g y \<noteq> k" using Cons.prems that by (metis distinct.simps(2) image_eqI list.simps(9) set_map)
    then show ?thesis by (simp add: map_idI)
  qed
  then show ?case using Cons by auto
qed simp

lemma update_first_keeps_other: "x \<in> set xs \<Longrightarrow> \<not> P x \<Longrightarrow> x \<in> set (update_first P f xs)"
  by (induction xs) auto

section \<open>Strings\<close>

subsection \<open>Prefixes, suffixes and search\<close>

definition starts_with :: "string \<Rightarrow> string \<Rightarrow> bool" where
  "starts_with s p \<longleftrightarrow> take (length p) s = p"

definition ends_with :: "string \<Rightarrow> string \<Rightarrow> bool" where
  "ends_with s p \<longleftrightarrow> starts_with (rev s) (rev p)"

definition strip_prefix :: "string \<Rightarrow> string \<Rightarrow> string option" where
  "strip_prefix s p = (if starts_with s p then Some (drop (length p) s) else None)"

definition strip_suffix :: "string \<Rightarrow> string \<Rightarrow> string option" where
  "strip_suffix s p = (if ends_with s p then Some (take (length s - length p) s) else None)"

fun str_contains :: "string \<Rightarrow> string \<Rightarrow> bool" where
  "str_contains [] n \<longleftrightarrow> n = []"
| "str_contains (c # cs) n \<longleftrightarrow> starts_with (c # cs) n \<or> str_contains cs n"

lemma starts_with_Nil [simp]: "starts_with s []"
  by (simp add: starts_with_def)

lemma starts_with_append [simp]: "starts_with (p @ s) p"
  by (simp add: starts_with_def)

lemma starts_with_iff: "starts_with s p \<longleftrightarrow> (\<exists>t. s = p @ t)"
  unfolding starts_with_def by (metis append_take_drop_id append_eq_conv_conj)

lemma starts_with_trans: "starts_with s (p @ q) \<Longrightarrow> starts_with s p"
  by (auto simp: starts_with_iff)

lemma strip_prefix_Some: "strip_prefix s p = Some t \<longleftrightarrow> s = p @ t"
  unfolding strip_prefix_def starts_with_def
  by (metis append_take_drop_id append_eq_conv_conj option.inject option.distinct(1))

lemma strip_prefix_None: "strip_prefix s p = None \<longleftrightarrow> \<not> starts_with s p"
  by (simp add: strip_prefix_def)

lemma strip_prefix_append [simp]: "strip_prefix (p @ t) p = Some t"
  by (simp add: strip_prefix_Some)

lemma str_contains_Nil [simp]: "str_contains s []"
  by (cases s) auto

lemma str_contains_iff: "str_contains s n \<longleftrightarrow> (\<exists>a b. s = a @ n @ b)"
proof (induction s)
  case Nil
  then show ?case by auto
next
  case (Cons c cs)
  show ?case
  proof
    assume "str_contains (c # cs) n"
    then show "\<exists>a b. c # cs = a @ n @ b"
      using Cons.IH by (auto simp: starts_with_iff intro: exI [of _ "[]"]) (metis append_Cons)
  next
    assume "\<exists>a b. c # cs = a @ n @ b"
    then obtain a b where ab: "c # cs = a @ n @ b" by blast
    show "str_contains (c # cs) n"
    proof (cases a)
      case Nil
      with ab have "starts_with (c # cs) n" unfolding starts_with_iff by auto
      then show ?thesis by simp
    next
      case (Cons x a')
      with ab have "cs = a' @ n @ b" by simp
      then show ?thesis using Cons.IH by auto
    qed
  qed
qed

subsection \<open>Splitting and joining\<close>

fun split_char :: "char \<Rightarrow> string \<Rightarrow> string list" where
  "split_char c [] = [[]]"
| "split_char c (x # xs) =
     (if x = c then [] # split_char c xs
      else (case split_char c xs of [] \<Rightarrow> [[x]] | p # ps \<Rightarrow> (x # p) # ps))"

fun split_once :: "char \<Rightarrow> string \<Rightarrow> (string \<times> string) option" where
  "split_once c [] = None"
| "split_once c (x # xs) =
     (if x = c then Some ([], xs)
      else map_option (\<lambda>(a, b). (x # a, b)) (split_once c xs))"

fun join_with :: "string \<Rightarrow> string list \<Rightarrow> string" where
  "join_with sep [] = []"
| "join_with sep [p] = p"
| "join_with sep (p # q # ps) = p @ sep @ join_with sep (q # ps)"

lemma split_char_not_Nil [simp]: "split_char c s \<noteq> []"
  by (cases s) (auto split: list.splits)

lemma split_char_no_sep: "c \<notin> set s \<Longrightarrow> split_char c s = [s]"
  by (induction s) auto

lemma split_char_append:
  "c \<notin> set a \<Longrightarrow> split_char c (a @ c # b) = a # split_char c b"
  by (induction a) (auto split: list.splits)

lemma split_char_pieces: "p \<in> set (split_char c s) \<Longrightarrow> c \<notin> set p"
proof (induction s arbitrary: p)
  case (Cons x xs)
  then show ?case
    by (cases "split_char c xs") (auto split: if_splits)
qed auto

lemma join_split_char: "join_with [c] (split_char c s) = s"
proof (induction s)
  case Nil
  then show ?case by simp
next
  case (Cons x xs)
  then show ?case
    by (cases "split_char c xs" rule: list.exhaust; cases "tl (split_char c xs)")
       (auto split: list.splits)
qed

lemma split_once_Some: "split_once c s = Some (a, b) \<longleftrightarrow> s = a @ c # b \<and> c \<notin> set a"
proof (induction s arbitrary: a)
  case (Cons x xs)
  then show ?case by (cases a) auto
qed auto

lemma split_once_None: "split_once c s = None \<longleftrightarrow> c \<notin> set s"
  by (induction s) auto


subsection \<open>White space and case\<close>

text \<open>
  The white space characters of \<open>char::is_whitespace\<close>, as UTF-8: the ASCII ones, U+0085,
  U+00A0, U+1680, U+2000 to U+200A, U+2028, U+2029, U+202F, U+205F and U+3000.
\<close>

definition white_seqs :: "string list" where
  "white_seqs =
     [[CHR 0x20], [CHR 0x09], [CHR 0x0A], [CHR 0x0B], [CHR 0x0C], [CHR 0x0D],
      [CHR 0xC2, CHR 0x85], [CHR 0xC2, CHR 0xA0], [CHR 0xE1, CHR 0x9A, CHR 0x80],
      [CHR 0xE2, CHR 0x80, CHR 0x80], [CHR 0xE2, CHR 0x80, CHR 0x81],
      [CHR 0xE2, CHR 0x80, CHR 0x82], [CHR 0xE2, CHR 0x80, CHR 0x83],
      [CHR 0xE2, CHR 0x80, CHR 0x84], [CHR 0xE2, CHR 0x80, CHR 0x85],
      [CHR 0xE2, CHR 0x80, CHR 0x86], [CHR 0xE2, CHR 0x80, CHR 0x87],
      [CHR 0xE2, CHR 0x80, CHR 0x88], [CHR 0xE2, CHR 0x80, CHR 0x89],
      [CHR 0xE2, CHR 0x80, CHR 0x8A], [CHR 0xE2, CHR 0x80, CHR 0xA8],
      [CHR 0xE2, CHR 0x80, CHR 0xA9], [CHR 0xE2, CHR 0x80, CHR 0xAF],
      [CHR 0xE2, CHR 0x81, CHR 0x9F], [CHR 0xE3, CHR 0x80, CHR 0x80]]"

text \<open>The length of the white space character at the front, 0 when there is none.\<close>

definition white_len :: "string list \<Rightarrow> string \<Rightarrow> nat" where
  "white_len ws s = (case find (starts_with s) ws of None \<Rightarrow> 0 | Some w \<Rightarrow> length w)"

function strip_white :: "string list \<Rightarrow> string \<Rightarrow> string" where
  "strip_white ws s =
     (if s \<noteq> [] \<and> white_len ws s > 0 then strip_white ws (drop (white_len ws s) s) else s)"
  by pat_completeness auto
termination
  by (relation "measure (\<lambda>(ws, s). length s)") auto

declare strip_white.simps [simp del]

definition trim_start :: "string \<Rightarrow> string" where
  "trim_start s = strip_white white_seqs s"

definition trim_end :: "string \<Rightarrow> string" where
  "trim_end s = rev (strip_white (map rev white_seqs) (rev s))"

definition trim :: "string \<Rightarrow> string" where
  "trim s = trim_end (trim_start s)"

lemma strip_white_Nil [simp]: "strip_white ws [] = []"
  by (subst strip_white.simps) simp

lemma strip_white_suffix: "\<exists>p. s = p @ strip_white ws s"
proof (induction ws s rule: strip_white.induct)
  case (1 ws s)
  show ?case
  proof (cases "s \<noteq> [] \<and> white_len ws s > 0")
    case True
    with 1 obtain p where "drop (white_len ws s) s = p @ strip_white ws (drop (white_len ws s) s)"
      by blast
    then have "s = (take (white_len ws s) s @ p) @ strip_white ws (drop (white_len ws s) s)"
      by (metis append_assoc append_take_drop_id)
    moreover have "strip_white ws s = strip_white ws (drop (white_len ws s) s)"
      by (subst strip_white.simps) (simp add: True)
    ultimately show ?thesis by metis
  next
    case False
    then have "strip_white ws s = s" by (subst strip_white.simps) auto
    then show ?thesis by simp
  qed
qed

lemma length_strip_white: "length (strip_white ws s) \<le> length s"
  using strip_white_suffix [of s ws] by (metis length_append le_add2)

lemma length_trim_le: "length (trim s) \<le> length s"
proof -
  have "length (trim s) \<le> length (trim_start s)"
    unfolding trim_def trim_end_def
    using length_strip_white [of "map rev white_seqs" "rev (trim_start s)"] by simp
  also have "\<dots> \<le> length s"
    unfolding trim_start_def by (rule length_strip_white)
  finally show ?thesis .
qed

lemma set_strip_white: "set (strip_white ws s) \<subseteq> set s"
  using strip_white_suffix [of s ws] by (metis set_append Un_upper2)

lemma set_trim: "set (trim s) \<subseteq> set s"
  unfolding trim_def trim_end_def trim_start_def
  using set_strip_white [of "map rev white_seqs" "rev (strip_white white_seqs s)"]
    set_strip_white [of white_seqs s]
  by auto

definition ascii_lower_char :: "char \<Rightarrow> char" where
  "ascii_lower_char c =
     (let n = of_char c :: nat in if 65 \<le> n \<and> n \<le> 90 then char_of (n + 32) else c)"

definition ascii_lower :: "string \<Rightarrow> string" where
  "ascii_lower s = map ascii_lower_char s"

text \<open>
  \<open>str::to_lowercase\<close>, as far as an ASCII needle can see it: ASCII letters, and the two
  non-ASCII characters whose lower case contains an ASCII letter (U+212A KELVIN SIGN gives
  \<open>k\<close>, U+0130 gives \<open>i\<close> and a combining dot). Every other character beyond ASCII lowers to
  bytes beyond ASCII, which no ASCII needle matches, so it is left as it is.
\<close>

fun lower_ascii_view :: "string \<Rightarrow> string" where
  "lower_ascii_view (a # b # c # s) =
     (if a = CHR 0xE2 \<and> b = CHR 0x84 \<and> c = CHR 0xAA then CHR ''k'' # lower_ascii_view s
      else if a = CHR 0xC4 \<and> b = CHR 0xB0
      then CHR ''i'' # CHR 0xCC # CHR 0x87 # lower_ascii_view (c # s)
      else ascii_lower_char a # lower_ascii_view (b # c # s))"
| "lower_ascii_view [a, b] =
     (if a = CHR 0xC4 \<and> b = CHR 0xB0 then [CHR ''i'', CHR 0xCC, CHR 0x87]
      else [ascii_lower_char a, ascii_lower_char b])"
| "lower_ascii_view [a] = [ascii_lower_char a]"
| "lower_ascii_view [] = []"

lemma lower_ascii_view_Nil [simp]: "lower_ascii_view s = [] \<longleftrightarrow> s = []"
  by (cases s rule: lower_ascii_view.cases) auto

subsection \<open>Lines\<close>

text \<open>
  \<open>str::lines\<close>: pieces ended by a line feed, each without a carriage return before it; a
  last piece without a line feed is kept as it is, and dropped when empty.
\<close>

definition nl :: char where "nl = CHR 0x0A"
definition cr :: char where "cr = CHR 0x0D"

definition strip_cr :: "string \<Rightarrow> string" where
  "strip_cr s = (if s \<noteq> [] \<and> last s = cr then butlast s else s)"

definition str_lines :: "string \<Rightarrow> string list" where
  "str_lines s =
     (let ps = split_char nl s; l = last ps
      in map strip_cr (butlast ps) @ (if l = [] then [] else [l]))"

lemma str_lines_Nil [simp]: "str_lines [] = []"
  by (simp add: str_lines_def)

lemma str_lines_cons:
  "nl \<notin> set a \<Longrightarrow> str_lines (a @ nl # s) = strip_cr a # str_lines s"
  by (simp add: str_lines_def split_char_append Let_def)

lemma str_lines_no_nl: "l \<in> set (str_lines s) \<Longrightarrow> nl \<notin> set l"
proof -
  assume l: "l \<in> set (str_lines s)"
  let ?ps = "split_char nl s"
  have pieces: "\<And>p. p \<in> set ?ps \<Longrightarrow> nl \<notin> set p"
    by (rule split_char_pieces)
  from l consider (a) p where "p \<in> set (butlast ?ps)" "l = strip_cr p" | (b) "l = last ?ps"
    by (auto simp: str_lines_def Let_def split: if_splits)
  then show ?thesis
  proof cases
    case a
    then have "nl \<notin> set p" using pieces in_set_butlastD by metis
    with a show ?thesis by (auto simp: strip_cr_def dest: in_set_butlastD)
  next
    case b
    then show ?thesis using pieces [of "last ?ps"] by simp
  qed
qed

subsection \<open>Replacing\<close>

text \<open>What follows the first match of a needle.\<close>

fun after_first :: "string \<Rightarrow> string \<Rightarrow> string option" where
  "after_first n [] = (if n = [] then Some [] else None)"
| "after_first n (c # cs) = (case strip_prefix (c # cs) n of Some r \<Rightarrow> Some r | None \<Rightarrow> after_first n cs)"

text \<open>\<open>str::replace\<close>: from the left, without overlap, for a needle that is not empty.\<close>

function str_replace :: "string \<Rightarrow> string \<Rightarrow> string \<Rightarrow> string" where
  "str_replace needle r s =
     (if s = [] then []
      else if needle \<noteq> [] \<and> starts_with s needle
      then r @ str_replace needle r (drop (length needle) s)
      else hd s # str_replace needle r (tl s))"
  by auto

termination
  by (relation "measure (\<lambda>(n, r, s). length s)") auto

declare str_replace.simps [simp del]

subsection \<open>Decimal numbers\<close>

fun show_nat :: "nat \<Rightarrow> string" where
  "show_nat n =
     (if n < 10 then [char_of (48 + n)] else show_nat (n div 10) @ [char_of (48 + n mod 10)])"

declare show_nat.simps [simp del]

definition is_digit :: "char \<Rightarrow> bool" where
  "is_digit c \<longleftrightarrow> 48 \<le> (of_char c :: nat) \<and> (of_char c :: nat) \<le> 57"

definition digit_val :: "char \<Rightarrow> nat" where
  "digit_val c = of_char c - 48"

definition digits_val :: "string \<Rightarrow> nat" where
  "digits_val s = foldl (\<lambda>acc c. acc * 10 + digit_val c) 0 s"

text \<open>\<open>str::parse\<close> for an unsigned integer: an optional plus sign, then at least one digit.\<close>

definition parse_unsigned :: "nat \<Rightarrow> string \<Rightarrow> nat option" where
  "parse_unsigned bound s =
     (let ds = (case s of [] \<Rightarrow> [] | c # cs \<Rightarrow> if c = CHR ''+'' then cs else s)
      in if ds \<noteq> [] \<and> list_all is_digit ds \<and> digits_val ds \<le> bound
         then Some (digits_val ds) else None)"

definition parse_u64 :: "string \<Rightarrow> nat option" where
  "parse_u64 = parse_unsigned u64_max"

lemma of_char_digit: "n < 10 \<Longrightarrow> (of_char (char_of (48 + n) :: char) :: nat) = 48 + n"
  by (simp add: of_char_of)

lemma show_nat_digits: "c \<in> set (show_nat n) \<Longrightarrow> is_digit c"
proof (induction n rule: show_nat.induct)
  case (1 n)
  then show ?case
    by (subst (asm) (2) show_nat.simps)
       (auto simp: is_digit_def of_char_of split: if_splits)
qed

lemma show_nat_not_Nil [simp]: "show_nat n \<noteq> []"
  by (subst show_nat.simps) simp

lemma digits_val_snoc: "digits_val (s @ [c]) = digits_val s * 10 + digit_val c"
  by (simp add: digits_val_def)

lemma digits_val_show_nat: "digits_val (show_nat n) = n"
proof (induction n rule: show_nat.induct)
  case (1 n)
  show ?case
  proof (cases "n < 10")
    case True
    then show ?thesis
      by (subst show_nat.simps) (simp add: digits_val_def digit_val_def of_char_of)
  next
    case False
    then have "digits_val (show_nat n) = digits_val (show_nat (n div 10)) * 10 + n mod 10"
      by (subst show_nat.simps) (simp add: digits_val_snoc digit_val_def of_char_of)
    also have "\<dots> = n" using 1 False by simp
    finally show ?thesis .
  qed
qed

lemma show_nat_hd: "hd (show_nat n) \<noteq> CHR ''+''"
proof -
  have "is_digit (hd (show_nat n))"
    by (rule show_nat_digits [of _ n]) simp
  then show ?thesis by (auto simp: is_digit_def)
qed

lemma parse_show_nat: "n \<le> bound \<Longrightarrow> parse_unsigned bound (show_nat n) = Some n"
proof -
  assume n: "n \<le> bound"
  obtain c cs where s: "show_nat n = c # cs"
    by (cases "show_nat n") auto
  then have "c \<noteq> CHR ''+''" using show_nat_hd [of n] by simp
  moreover have "list_all is_digit (show_nat n)"
    by (auto simp: list_all_iff intro: show_nat_digits)
  moreover have "digits_val (c # cs) = n" using digits_val_show_nat [of n] s by simp
  ultimately show ?thesis using n s by (simp add: parse_unsigned_def)
qed

lemma parse_unsigned_bound: "parse_unsigned bound s = Some n \<Longrightarrow> n \<le> bound"
  by (auto simp: parse_unsigned_def Let_def split: if_splits)

lemma white_len_no_match:
  assumes "\<And>w. w \<in> set ws \<Longrightarrow> w \<noteq> [] \<and> hd w \<noteq> c"
  shows "white_len ws (c # s) = 0"
proof -
  have "\<not> starts_with (c # s) w" if "w \<in> set ws" for w
    using assms [OF that] by (cases w) (auto simp: starts_with_def)
  then have "find (starts_with (c # s)) ws = None"
    by (simp add: find_None_iff)
  then show ?thesis by (simp add: white_len_def)
qed

lemma white_heads_not_digit:
  "list_all (\<lambda>w. w \<noteq> [] \<and> \<not> is_digit (hd w) \<and> \<not> is_digit (last w)) white_seqs"
  by code_simp

lemma white_len_digit: "is_digit c \<Longrightarrow> white_len white_seqs (c # s) = 0"
  using white_heads_not_digit by (intro white_len_no_match) (auto simp: list_all_iff)

lemma white_len_rev_digit: "is_digit c \<Longrightarrow> white_len (map rev white_seqs) (c # s) = 0"
  using white_heads_not_digit
  by (intro white_len_no_match) (auto simp: list_all_iff hd_rev)

lemma trim_digits: "list_all is_digit s \<Longrightarrow> trim s = s"
proof -
  assume d: "list_all is_digit s"
  have "trim_start s = s"
    unfolding trim_start_def using d
    by (subst strip_white.simps) (cases s, auto simp: white_len_digit)
  moreover have "strip_white (map rev white_seqs) (rev s) = rev s"
    using d by (subst strip_white.simps) (cases s rule: rev_cases, auto simp: white_len_rev_digit)
  ultimately show ?thesis by (simp add: trim_def trim_end_def)
qed

section \<open>Characters of several bytes\<close>

text \<open>\<open>chars().take(n)\<close> on UTF-8: a byte 10xxxxxx continues the character before it.\<close>

definition byte :: "char \<Rightarrow> nat" where "byte c = of_char c"

definition is_continuation :: "char \<Rightarrow> bool" where
  "is_continuation c \<longleftrightarrow> 0x80 \<le> byte c \<and> byte c < 0xC0"

fun take_chars :: "nat \<Rightarrow> string \<Rightarrow> string" where
  "take_chars n [] = []"
| "take_chars n (c # s) =
     (if is_continuation c then c # take_chars n s
      else (case n of 0 \<Rightarrow> [] | Suc m \<Rightarrow> c # take_chars m s))"

section \<open>Ordered maps and iterator minima\<close>

fun bt_insert :: "'k::linorder \<Rightarrow> 'v \<Rightarrow> ('k \<times> 'v) list \<Rightarrow> ('k \<times> 'v) list" where
  "bt_insert k v [] = [(k, v)]"
| "bt_insert k v ((k', v') # m) =
     (if k < k' then (k, v) # (k', v') # m
      else if k = k' then (k, v) # m
      else (k', v') # bt_insert k v m)"

definition bt_remove :: "'k \<Rightarrow> ('k \<times> 'v) list \<Rightarrow> ('k \<times> 'v) list" where
  "bt_remove k m = filter (\<lambda>e. fst e \<noteq> k) m"

definition bt_ok :: "('k::linorder \<times> 'v) list \<Rightarrow> bool" where
  "bt_ok m \<longleftrightarrow> sorted_wrt (<) (map fst m)"

lemma map_of_bt_insert [map_simps]: "map_of (bt_insert k v m) = (map_of m)(k \<mapsto> v)"
  by (induction m) (auto simp: fun_eq_iff)

lemma map_of_bt_remove [map_simps]: "map_of (bt_remove k m) = (map_of m)(k := None)"
  by (induction m) (auto simp: bt_remove_def fun_eq_iff)

lemma bt_insert_keys: "set (map fst (bt_insert k v m)) = insert k (set (map fst m))"
  by (induction k v m rule: bt_insert.induct) (auto simp del: set_map)

lemma set_bt_insert: "set (bt_insert k v m) \<subseteq> insert (k, v) (set m)"
  by (induction m) (auto split: if_splits)

lemma bt_ok_Nil [simp]: "bt_ok []"
  by (simp add: bt_ok_def)

lemma bt_ok_Cons: "bt_ok ((k, v) # m) \<longleftrightarrow> bt_ok m \<and> (\<forall>e \<in> set m. k < fst e)"
  by (auto simp: bt_ok_def)

lemma bt_ok_insert [simp]: "bt_ok m \<Longrightarrow> bt_ok (bt_insert k v m)"
proof (induction m)
  case (Cons e m)
  obtain k' v' where e: "e = (k', v')" by (cases e)
  have "\<forall>x \<in> set (bt_insert k v m). k' < fst x" if "k' < k"
    using Cons.prems that set_bt_insert [of k v m] unfolding e bt_ok_Cons by fastforce
  then show ?case
    using Cons unfolding e by (auto simp: bt_ok_Cons dest: less_trans)
qed (simp add: bt_ok_def)

lemma bt_ok_filter [simp]: "bt_ok m \<Longrightarrow> bt_ok (filter P m)"
  by (induction m) (auto simp: bt_ok_def)

lemma bt_ok_remove [simp]: "bt_ok m \<Longrightarrow> bt_ok (bt_remove k m)"
  by (simp add: bt_remove_def)

lemma bt_ok_distinct: "bt_ok m \<Longrightarrow> distinct (map fst m)"
  unfolding bt_ok_def by (induction "map fst m" arbitrary: m) (auto simp: strict_sorted_iff)

lemma length_bt_insert:
  "length (bt_insert k v m) \<le> Suc (length m)"
  by (induction m) auto

lemma length_bt_insert_present:
  "bt_ok m \<Longrightarrow> map_of m k \<noteq> None \<Longrightarrow> length (bt_insert k v m) = length m"
proof (induction m)
  case (Cons e m)
  obtain k' v' where e: "e = (k', v')" by (cases e)
  have "k < k' \<Longrightarrow> map_of m k = None"
    using Cons.prems(1) unfolding e bt_ok_Cons map_of_eq_None_iff
    by (auto dest: less_trans)
  then show ?case using Cons unfolding e by (auto simp: bt_ok_Cons split: if_splits)
qed simp

lemma map_of_fold_remove: "map_of (fold bt_remove ks m) k = (if k \<in> set ks then None else map_of m k)"
  by (induction ks arbitrary: m) (auto simp: map_simps)

lemma bt_insert_twice: "bt_insert k v (bt_insert k w m) = bt_insert k v m"
  by (induction m) auto

lemma set_fold_bt_insert: "set (fold (\<lambda>(k, v). bt_insert k v) kvs m) \<subseteq> set kvs \<union> set m"
proof (induction kvs arbitrary: m)
  case (Cons e kvs)
  obtain k v where e: "e = (k, v)" by (cases e)
  have "set (fold (\<lambda>(k, v). bt_insert k v) kvs (bt_insert k v m)) \<subseteq> set kvs \<union> set (bt_insert k v m)" by (rule Cons.IH)
  also have "\<dots> \<subseteq> set kvs \<union> insert (k, v) (set m)" using set_bt_insert [of k v m] by blast
  finally show ?case by (auto simp: e)
qed simp

text \<open>A fold keeps what its step keeps.\<close>

lemma fold_keeps: "(\<And>x acc. x \<in> set xs \<Longrightarrow> P acc \<Longrightarrow> P (f x acc)) \<Longrightarrow> P acc \<Longrightarrow> P (fold f xs acc)"
  by (induction xs arbitrary: acc) auto

lemma bt_insert_nonempty [simp]: "bt_insert k v m \<noteq> []"
  by (cases m) (auto split: prod.splits if_splits)

lemma bt_insert_same: "bt_ok m \<Longrightarrow> map_of m k = Some v \<Longrightarrow> bt_insert k v m = m"
proof (induction m)
  case (Cons e m)
  obtain k' v' where e: "e = (k', v')" by (cases e)
  have "k' < k" if "k \<noteq> k'" using Cons.prems that map_of_SomeD [of m k v] by (auto simp: e bt_ok_Cons)
  then show ?case using Cons by (auto simp: e bt_ok_Cons)
qed simp

fun min_by_key :: "('a \<Rightarrow> 'k::linorder) \<Rightarrow> 'a list \<Rightarrow> 'a option" where
  "min_by_key f [] = None"
| "min_by_key f (x # xs) =
     (case min_by_key f xs of None \<Rightarrow> Some x | Some y \<Rightarrow> if f x \<le> f y then Some x else Some y)"

fun max_by_key :: "('a \<Rightarrow> 'k::linorder) \<Rightarrow> 'a list \<Rightarrow> 'a option" where
  "max_by_key f [] = None"
| "max_by_key f (x # xs) =
     (case max_by_key f xs of None \<Rightarrow> Some x | Some y \<Rightarrow> if f y < f x then Some x else Some y)"

lemma min_by_key_None [simp]: "min_by_key f xs = None \<longleftrightarrow> xs = []"
  by (cases xs) (auto split: option.splits)

lemma max_by_key_None [simp]: "max_by_key f xs = None \<longleftrightarrow> xs = []"
  by (cases xs) (auto split: option.splits)

lemma min_by_key_Some: "xs \<noteq> [] \<Longrightarrow> \<exists>x. min_by_key f xs = Some x"
  using min_by_key_None [of f xs] by (cases "min_by_key f xs") auto

lemma max_by_key_Some: "xs \<noteq> [] \<Longrightarrow> \<exists>x. max_by_key f xs = Some x"
  using max_by_key_None [of f xs] by (cases "max_by_key f xs") auto

lemma min_by_key_in: "min_by_key f xs = Some x \<Longrightarrow> x \<in> set xs"
  by (induction xs arbitrary: x) (auto split: option.splits if_splits)

lemma max_by_key_in: "max_by_key f xs = Some x \<Longrightarrow> x \<in> set xs"
  by (induction xs arbitrary: x) (auto split: option.splits if_splits)

lemma min_by_key_least: "min_by_key f xs = Some x \<Longrightarrow> y \<in> set xs \<Longrightarrow> f x \<le> f y"
proof (induction xs arbitrary: x)
  case (Cons a xs)
  show ?case
  proof (cases "min_by_key f xs")
    case None
    with Cons.prems show ?thesis by simp
  next
    case (Some z)
    with Cons.prems Cons.IH [OF Some] show ?thesis by (auto split: if_splits)
  qed
qed simp

lemma max_by_key_greatest: "max_by_key f xs = Some x \<Longrightarrow> y \<in> set xs \<Longrightarrow> f y \<le> f x"
proof (induction xs arbitrary: x)
  case (Cons a xs)
  show ?case
  proof (cases "max_by_key f xs")
    case None
    with Cons.prems show ?thesis by simp
  next
    case (Some z)
    with Cons.prems Cons.IH [OF Some] show ?thesis by (auto split: if_splits)
  qed
qed simp

lemma min_by_key_map: "min_by_key f (map g xs) = map_option g (min_by_key (\<lambda>x. f (g x)) xs)"
  by (induction xs) (auto split: option.splits)

lemma max_by_key_map: "max_by_key f (map g xs) = map_option g (max_by_key (\<lambda>x. f (g x)) xs)"
  by (induction xs) (auto split: option.splits)

lemma min_by_key_cong:
  "(\<And>x. x \<in> set xs \<Longrightarrow> f x = g x) \<Longrightarrow> min_by_key f xs = min_by_key g xs"
proof (induction xs)
  case (Cons x xs)
  then have "min_by_key f xs = min_by_key g xs" by simp
  moreover have "f y = g y" if "min_by_key g xs = Some y" for y
    using Cons.prems min_by_key_in [OF that] by simp
  ultimately show ?case using Cons.prems by (auto split: option.split)
qed simp

lemma max_by_key_cong:
  "(\<And>x. x \<in> set xs \<Longrightarrow> f x = g x) \<Longrightarrow> max_by_key f xs = max_by_key g xs"
proof (induction xs)
  case (Cons x xs)
  then have "max_by_key f xs = max_by_key g xs" by simp
  moreover have "f y = g y" if "max_by_key g xs = Some y" for y
    using Cons.prems max_by_key_in [OF that] by simp
  ultimately show ?case using Cons.prems by (auto split: option.split)
qed simp

lemma find_map: "find P (map g xs) = map_option g (find (\<lambda>x. P (g x)) xs)"
  by (induction xs) auto

lemma find_in_set: "find P xs = Some x \<Longrightarrow> x \<in> set xs \<and> P x"
  by (induction xs) (auto split: if_splits)

lemma find_cong': "(\<And>x. x \<in> set xs \<Longrightarrow> P x = Q x) \<Longrightarrow> find P xs = find Q xs"
  by (induction xs) auto

end
