(* ===== verification/Combo.thy ===== *)
theory Combo
  imports Router_Prelude "HOL-Library.Multiset"
begin

text \<open>
  Combos of \<open>services/runtime-actix/src/combo.rs\<close>: the strategies, the rotation cursor kept for every
  combo and the order in which a request tries its models.
\<close>

section \<open>Strategies\<close>

datatype combo_strategy =
    CFallback | CRoundRobin | CFusion | CWeighted | CP2c | CCostOptimized | CQuotaShare | CAuto
  | CCapacity

definition strategy_from_settings :: "string option \<Rightarrow> combo_strategy" where
  "strategy_from_settings raw =
     (case raw of
        None \<Rightarrow> CFallback
      | Some s \<Rightarrow>
          if s = ''round-robin'' then CRoundRobin
          else if s = ''fusion'' then CFusion
          else if s = ''weighted'' then CWeighted
          else if s = ''p2c'' \<or> s = ''least-used'' then CP2c
          else if s = ''cost-optimized'' \<or> s = ''cost_optimized'' \<or> s = ''cheap'' then CCostOptimized
          else if s = ''quota-share'' \<or> s = ''quota_share'' then CQuotaShare
          else if s = ''auto'' then CAuto
          else if s = ''capacity'' then CCapacity
          else CFallback)"

fun strategy_str :: "combo_strategy \<Rightarrow> string" where
  "strategy_str CFallback = ''fallback''"
| "strategy_str CRoundRobin = ''round-robin''"
| "strategy_str CFusion = ''fusion''"
| "strategy_str CWeighted = ''weighted''"
| "strategy_str CP2c = ''p2c''"
| "strategy_str CCostOptimized = ''cost-optimized''"
| "strategy_str CQuotaShare = ''quota-share''"
| "strategy_str CAuto = ''auto''"
| "strategy_str CCapacity = ''capacity''"

lemma strategy_round_trip [simp]: "strategy_from_settings (Some (strategy_str s)) = s"
  by (cases s) (simp_all add: strategy_from_settings_def)

section \<open>Rotation\<close>

record rotation =
  ro_index :: nat
  ro_consecutive :: nat
  ro_models :: "string list"

definition rotation_default :: rotation where
  "rotation_default = \<lparr>ro_index = 0, ro_consecutive = 0, ro_models = []\<rparr>"

type_synonym cursors = "string \<rightharpoonup> rotation"

definition current_rotation :: "string \<Rightarrow> string list \<Rightarrow> cursors \<Rightarrow> rotation" where
  "current_rotation combo models cs =
     (case cs combo of
        Some r \<Rightarrow> if ro_models r = models then r else rotation_default
      | None \<Rightarrow> rotation_default)"

definition take_index :: "string \<Rightarrow> string list \<Rightarrow> nat \<Rightarrow> cursors \<Rightarrow> nat \<times> cursors" where
  "take_index combo models sticky_limit cs =
     (let model_count = length models
      in if model_count = 0 then (0, cs)
         else
           (let current = current_rotation combo models cs;
                index = ro_index current mod model_count;
                next_count = sat_add32 (ro_consecutive current) 1;
                updated =
                  (if next_count \<ge> max sticky_limit 1
                   then \<lparr>ro_index = (index + 1) mod model_count, ro_consecutive = 0, ro_models = models\<rparr>
                   else \<lparr>ro_index = index, ro_consecutive = next_count, ro_models = models\<rparr>)
            in (index, cs(combo \<mapsto> updated))))"

text \<open>\<open>get(index..)\<close> and \<open>get(..index)\<close> are absent beyond the end.\<close>

definition rotate_from :: "'a list \<Rightarrow> nat \<Rightarrow> 'a list" where
  "rotate_from models index =
     (if index \<le> length models then drop index models @ take index models else [])"

definition ordered_models ::
    "string list \<Rightarrow> string \<Rightarrow> combo_strategy \<Rightarrow> nat \<Rightarrow> cursors \<Rightarrow> string list \<times> cursors" where
  "ordered_models models combo strategy sticky_limit cs =
     (if length models \<le> 1 \<or> strategy \<noteq> CRoundRobin then (models, cs)
      else (let (index, cs') = take_index combo models sticky_limit cs
            in (rotate_from models index, cs')))"

lemma take_index_less: "models \<noteq> [] \<Longrightarrow> fst (take_index combo models l cs) < length models"
  by (simp add: take_index_def Let_def)

lemma rotate_from_mset: "i \<le> length xs \<Longrightarrow> mset (rotate_from xs i) = mset xs"
  by (simp add: rotate_from_def) (metis add.commute append_take_drop_id mset_append)

lemma rotate_from_hd: "i < length xs \<Longrightarrow> hd (rotate_from xs i) = xs ! i"
  by (simp add: rotate_from_def hd_drop_conv_nth hd_append)

lemma combo_order_aux:
  "case ordered_models models combo strategy limit cs of
     (ordered, cs') \<Rightarrow> mset ordered = mset models
       \<and> (ordered = models \<and> cs' = cs \<or> strategy = CRoundRobin)
       \<and> (other \<noteq> combo \<longrightarrow> cs' other = cs other)"
proof (cases "length models \<le> 1 \<or> strategy \<noteq> CRoundRobin")
  case True
  then show ?thesis by (auto simp: ordered_models_def)
next
  case False
  obtain i cs' where i: "take_index combo models limit cs = (i, cs')"
    by (cases "take_index combo models limit cs")
  have "models \<noteq> []" using False by auto
  then have "i < length models" using take_index_less [of models combo limit cs] i by simp
  moreover have "other \<noteq> combo \<Longrightarrow> cs' other = cs other"
    using i by (auto simp: take_index_def Let_def split: if_splits)
  ultimately show ?thesis
    using False i by (simp add: ordered_models_def rotate_from_mset)
qed

lemma ordered_models_mset: "mset (fst (ordered_models models combo strategy limit cs)) = mset models"
  using combo_order_aux [where models = models and combo = combo and strategy = strategy
      and limit = limit and cs = cs]
  by (simp add: split_beta)

text \<open>Ordering a combo never loses or repeats a model: the models to try are the configured ones,
  rotated by some offset under round robin and in the configured order otherwise, and no other combo's
  cursor moves.\<close>

theorem combo_order_complete:
  "case ordered_models models combo strategy limit cs of
     (ordered, cs') \<Rightarrow> mset ordered = mset models
       \<and> (ordered = models \<and> cs' = cs \<or> strategy = CRoundRobin)
       \<and> (other \<noteq> combo \<longrightarrow> cs' other = cs other)"
  by (rule combo_order_aux)

theorem combo_order_complete_witness:
  "fst (ordered_models [''a'', ''b'', ''c''] ''fast'' CRoundRobin 1
      (snd (ordered_models [''a'', ''b'', ''c''] ''fast'' CRoundRobin 1 Map.empty)))
     = [''b'', ''c'', ''a'']
   \<and> snd (ordered_models [''a'', ''b'', ''c''] ''fast'' CRoundRobin 1 Map.empty) ''slow'' = None"
proof
  show "fst (ordered_models [''a'', ''b'', ''c''] ''fast'' CRoundRobin 1
      (snd (ordered_models [''a'', ''b'', ''c''] ''fast'' CRoundRobin 1 Map.empty)))
     = [''b'', ''c'', ''a'']"
    by (simp add: ordered_models_def take_index_def current_rotation_def rotation_default_def
        rotate_from_def Let_def sat_add32_def u32_max_def)
  show "snd (ordered_models [''a'', ''b'', ''c''] ''fast'' CRoundRobin 1 Map.empty) ''slow'' = None"
    using combo_order_complete [where models = "[''a'', ''b'', ''c'']" and combo = "''fast''"
        and strategy = CRoundRobin and limit = 1 and cs = Map.empty and other = "''slow''"]
    by (auto simp: split_beta)
qed

text \<open>The cursor of one combo after \<open>n\<close> requests from a fresh start.\<close>

fun cursors_after :: "string \<Rightarrow> string list \<Rightarrow> nat \<Rightarrow> nat \<Rightarrow> cursors \<Rightarrow> cursors" where
  "cursors_after combo models limit 0 cs = cs"
| "cursors_after combo models limit (Suc n) cs =
     snd (take_index combo models limit (cursors_after combo models limit n cs))"

lemma cursor_closed_form:
  assumes "models \<noteq> []" "current_rotation combo models cs = rotation_default" "limit \<le> u32_max"
  defines "l \<equiv> max limit 1"
  shows "ro_index (current_rotation combo models (cursors_after combo models limit n cs)) mod length models
           = (n div l) mod length models
       \<and> ro_consecutive (current_rotation combo models (cursors_after combo models limit n cs)) = n mod l"
proof (induction n)
  case 0
  then show ?case using assms(2) by (simp add: rotation_default_def)
next
  case (Suc n)
  let ?cs = "cursors_after combo models limit n cs"
  let ?r = "current_rotation combo models ?cs"
  have lpos: "0 < l" by (simp add: l_def)
  have c: "ro_consecutive ?r = n mod l" and i: "ro_index ?r mod length models = (n div l) mod length models"
    using Suc by auto
  have l1: "1 \<le> u32_max" by (simp add: u32_max_def)
  have sat: "sat_add32 (n mod l) 1 = n mod l + 1"
  proof -
    have "n mod l + 1 \<le> l" using mod_less_divisor [OF lpos, of n] by simp
    also have "\<dots> \<le> u32_max" using assms(3) l1 by (simp add: l_def)
    finally show ?thesis by (rule sat_add32_exact)
  qed
  have lim: "limit \<le> Suc (n mod l) \<longleftrightarrow> l \<le> Suc (n mod l)" by (simp add: l_def)
  have cur: "current_rotation combo models (snd (take_index combo models limit ?cs)) =
      (if l \<le> n mod l + 1
       then \<lparr>ro_index = ((n div l) mod length models + 1) mod length models, ro_consecutive = 0,
             ro_models = models\<rparr>
       else \<lparr>ro_index = (n div l) mod length models, ro_consecutive = n mod l + 1,
             ro_models = models\<rparr>)"
    using assms(1) lim
    by (simp add: take_index_def Let_def c i sat [simplified]
        current_rotation_def [where cs = "_(combo \<mapsto> _)"])
  show ?case
  proof (cases "l \<le> n mod l + 1")
    case True
    then have "n mod l + 1 = l" using mod_less_divisor [OF lpos, of n] by linarith
    then have "Suc n mod l = 0" "Suc n div l = n div l + 1"
      using lpos by (simp_all add: mod_Suc div_Suc)
    then show ?thesis using True cur by (simp add: mod_simps)
  next
    case False
    then have "Suc n mod l = n mod l + 1" "Suc n div l = n div l"
      by (simp_all add: mod_Suc div_Suc)
    then show ?thesis using False cur by simp
  qed
qed

text \<open>The rotation schedule: from a fresh cursor, or one kept for another model list, the request
  number \<open>n\<close> of a combo starts from model \<open>n div limit\<close> modulo the number of models, so every model
  serves \<open>limit\<close> consecutive requests before the next one does.\<close>

theorem rotation_schedule:
  assumes "models \<noteq> []" "limit \<le> u32_max"
    and "case cs combo of None \<Rightarrow> True | Some r \<Rightarrow> ro_models r \<noteq> models"
  shows "fst (take_index combo models limit (cursors_after combo models limit n cs)) =
     (n div max limit 1) mod length models"
proof -
  have "current_rotation combo models cs = rotation_default"
    using assms(3) by (simp add: current_rotation_def split: option.splits)
  from cursor_closed_form [OF assms(1) this assms(2), of n] assms(1) show ?thesis
    by (simp add: take_index_def Let_def)
qed

theorem rotation_schedule_witness:
  "fst (take_index ''fast'' [''a'', ''b''] 3 (cursors_after ''fast'' [''a'', ''b''] 3 4 Map.empty)) = 1"
  using rotation_schedule [of "[''a'', ''b'']" 3 Map.empty "''fast''" 4]
  by (simp add: u32_max_def)

end
