(* ===== verification/Json_Value.thy ===== *)
theory Json_Value
  imports Router_Prelude
begin

text \<open>
  \<open>serde_json::Value\<close>. The workspace builds serde_json without \<open>preserve_order\<close>, so an
  object is a \<open>BTreeMap\<close>: an association list in ascending key order. A number is an unsigned or
  negative 64-bit integer or a float, kept as mantissa and binary exponent. Parsing and rendering JSON
  text are serde_json's, code outside the repository: they are parameters of the definitions that
  use them, named \<open>parse_json\<close> and \<open>render_json\<close>.
\<close>

datatype jnumber = PosInt nat | NegInt int | Flt int int

datatype json =
    JNull
  | JBool bool
  | JNum jnumber
  | JStr string
  | JArr "json list"
  | JObj "(string \<times> json) list"

type_synonym jmap = "(string \<times> json) list"

fun as_str :: "json \<Rightarrow> string option" where
  "as_str (JStr s) = Some s"
| "as_str _ = None"

fun as_u64 :: "json \<Rightarrow> nat option" where
  "as_u64 (JNum (PosInt n)) = Some n"
| "as_u64 _ = None"

fun as_i64 :: "json \<Rightarrow> int option" where
  "as_i64 (JNum (PosInt n)) = (if n < 2 ^ 63 then Some (int n) else None)"
| "as_i64 (JNum (NegInt i)) = Some i"
| "as_i64 _ = None"

fun as_bool :: "json \<Rightarrow> bool option" where
  "as_bool (JBool b) = Some b"
| "as_bool _ = None"

fun is_object :: "json \<Rightarrow> bool" where
  "is_object (JObj _) \<longleftrightarrow> True"
| "is_object _ \<longleftrightarrow> False"

fun as_array :: "json \<Rightarrow> json list option" where
  "as_array (JArr xs) = Some xs"
| "as_array _ = None"

fun as_object :: "json \<Rightarrow> (string \<times> json) list option" where
  "as_object (JObj m) = Some m"
| "as_object _ = None"

text \<open>\<open>Value::get\<close> with a string index: the member of an object, absent on any other value.\<close>

fun jget :: "json \<Rightarrow> string \<Rightarrow> json option" where
  "jget (JObj m) k = map_of m k"
| "jget _ k = None"

definition jint :: "int \<Rightarrow> json" where
  "jint i = JNum (if i < 0 then NegInt i else PosInt (nat i))"

text \<open>A string member, and the text of a content: a string, or the texts of the text parts of an array
  (\<open>crates/translate/src/schema.rs\<close>).\<close>

definition get_str :: "json \<Rightarrow> string \<Rightarrow> string option" where
  "get_str v k = Option.bind (jget v k) as_str"

definition texts_of :: "json list \<Rightarrow> string list" where
  "texts_of parts =
     filter (\<lambda>t. t \<noteq> []) (List.map_filter (\<lambda>p. get_str p ''text'') (filter (\<lambda>p. get_str p ''type'' = Some ''text'') parts))"

definition extract_text_content :: "json option \<Rightarrow> string \<Rightarrow> string" where
  "extract_text_content content separator =
     (case content of
        Some (JStr text) \<Rightarrow> text
      | Some (JArr parts) \<Rightarrow> join_with separator (texts_of parts)
      | _ \<Rightarrow> [])"

definition get_list :: "json \<Rightarrow> string \<Rightarrow> json list" where
  "get_list v k = opt_default [] (Option.bind (jget v k) as_array)"

text \<open>The \<open>json!\<close> macro on an object literal: the members are inserted in turn.\<close>

definition jobj :: "(string \<times> json) list \<Rightarrow> json" where
  "jobj kvs = JObj (fold (\<lambda>(k, v). bt_insert k v) kvs [])"

lemma map_of_fold_bt_insert [map_simps]:
  "map_of (fold (\<lambda>(k, v). bt_insert k v) kvs m) k =
     (case map_of (rev kvs) k of None \<Rightarrow> map_of m k | Some v \<Rightarrow> Some v)"
proof (induction kvs arbitrary: m)
  case (Cons e kvs)
  then show ?case
    by (cases e) (auto simp: map_simps map_add_def split: option.splits)
qed simp

lemma jget_jobj: "jget (jobj kvs) k = map_of (rev kvs) k"
  by (simp add: jobj_def map_simps split: option.splits)

lemma jget_Some_obj: "jget v k = Some w \<Longrightarrow> \<exists>m. v = JObj m \<and> map_of m k = Some w"
  by (cases v) auto

text \<open>A member of an object written once.\<close>

lemma jget_jobj_once:
  "(k, v) \<in> set kvs \<Longrightarrow> (\<And>v'. (k, v') \<in> set kvs \<Longrightarrow> v' = v) \<Longrightarrow> jget (jobj kvs) k = Some v"
proof -
  assume v: "(k, v) \<in> set kvs" and only: "\<And>v'. (k, v') \<in> set kvs \<Longrightarrow> v' = v"
  from v have "map_of (rev kvs) k \<noteq> None" by (simp add: map_of_eq_None_iff rev_map [symmetric]) force
  then obtain v' where "map_of (rev kvs) k = Some v'" by blast
  moreover from this have "(k, v') \<in> set kvs" by (auto dest: map_of_SomeD)
  ultimately show ?thesis using only by (simp add: jget_jobj)
qed

end
