(* ===== verification/Fusion.thy ===== *)
theory Fusion
  imports Json_Value
begin

text \<open>
  Fusion combos (\<open>services/runtime-actix/src/fusion.rs\<close> and \<open>collect_panel\<close> of
  \<open>src/pipeline.rs\<close>): the tuning and its quorum, the request each panel model gets, how their answers are
  collected against the two timers, and the judge's request. \<open>render_json\<close> is
  \<open>Value::to_string\<close>.
\<close>

section \<open>Tuning\<close>

record fusion_tuning =
  ft_min_panel :: nat
  ft_straggler_grace_ms :: nat
  ft_panel_hard_timeout_ms :: nat

definition default_tuning :: fusion_tuning where
  "default_tuning = \<lparr>ft_min_panel = 2, ft_straggler_grace_ms = 8000,
     ft_panel_hard_timeout_ms = 90000\<rparr>"

definition positive_or :: "nat \<Rightarrow> nat option \<Rightarrow> nat" where
  "positive_or d v = (case v of None \<Rightarrow> d | Some n \<Rightarrow> if n > 0 then n else d)"

definition tuning_from_override :: "nat option \<Rightarrow> nat option \<Rightarrow> nat option \<Rightarrow> fusion_tuning" where
  "tuning_from_override min_panel grace hard = \<lparr>
     ft_min_panel = positive_or (ft_min_panel default_tuning) min_panel,
     ft_straggler_grace_ms = positive_or (ft_straggler_grace_ms default_tuning) grace,
     ft_panel_hard_timeout_ms = positive_or (ft_panel_hard_timeout_ms default_tuning) hard\<rparr>"

definition quorum :: "fusion_tuning \<Rightarrow> nat \<Rightarrow> nat" where
  "quorum t panel_size =
     (let least = (if ft_min_panel t < 2 then 2 else ft_min_panel t)
      in if least > panel_size then panel_size else least)"

lemma quorum_bounds: "quorum t n \<le> n" "2 \<le> n \<Longrightarrow> 2 \<le> quorum t n"
  by (auto simp: quorum_def Let_def)

lemma positive_or_pos: "0 < d \<Longrightarrow> 0 < positive_or d v"
  by (simp add: positive_or_def split: option.split)

lemma tuning_positive: "0 < ft_straggler_grace_ms (tuning_from_override a b c)"
  "0 < ft_panel_hard_timeout_ms (tuning_from_override a b c)"
  by (simp_all add: tuning_from_override_def default_tuning_def positive_or_pos)

section \<open>The panel's request\<close>

definition TOOL_CALL_PREFIX :: string where "TOOL_CALL_PREFIX = ''[Called tools: ''"
definition TOOL_RESULT_PREFIX :: string where "TOOL_RESULT_PREFIX = ''[Tool result: ''"

definition content_as_text :: "(json \<Rightarrow> string) \<Rightarrow> json option \<Rightarrow> string" where
  "content_as_text render_json content =
     (case content of
        None \<Rightarrow> []
      | Some (JStr text) \<Rightarrow> text
      | Some value \<Rightarrow>
          (let extracted = extract_text_content (Some value) [nl]
           in if extracted = [] \<and> value \<noteq> JNull then render_json value else extracted))"

definition join_with_newline :: "string \<Rightarrow> string \<Rightarrow> string" where
  "join_with_newline base addition = (if base = [] then addition else base @ [nl] @ addition)"

definition tool_call_name :: "json \<Rightarrow> string" where
  "tool_call_name call =
     (case Option.bind
         (case Option.bind (jget call ''function'') (\<lambda>f. jget f ''name'') of
            None \<Rightarrow> jget call ''name'' | Some n \<Rightarrow> Some n) as_str of
        None \<Rightarrow> ''tool'' | Some s \<Rightarrow> s)"

definition is_tool_block :: "json \<Rightarrow> bool" where
  "is_tool_block block \<longleftrightarrow>
     get_str block ''type'' = Some ''tool_use'' \<or> get_str block ''type'' = Some ''tool_result''"

text \<open>The three lists \<open>flatten_blocks\<close> collects: texts, tool names, tool results.\<close>

definition add_block ::
    "(json \<Rightarrow> string) \<Rightarrow> string list \<times> string list \<times> string list \<Rightarrow> json
     \<Rightarrow> string list \<times> string list \<times> string list" where
  "add_block render_json acc block =
     (let (texts, names, results) = acc; kind = get_str block ''type'' in
      if kind = Some ''text'' then
        (case get_str block ''text'' of
           Some text \<Rightarrow> if text \<noteq> [] then (texts @ [text], names, results) else acc
         | None \<Rightarrow> acc)
      else if kind = Some ''tool_use'' then
        (texts, names @ [case get_str block ''name'' of Some n \<Rightarrow> n | None \<Rightarrow> ''tool''], results)
      else if kind = Some ''tool_result'' then
        (texts, names, results @ [content_as_text render_json (jget block ''content'')])
      else acc)"

definition flatten_blocks ::
    "(json \<Rightarrow> string) \<Rightarrow> (string \<times> json) list \<Rightarrow> json list \<Rightarrow> json" where
  "flatten_blocks render_json obj blocks =
     (let (texts, names, results) = foldl (add_block render_json) ([], [], []) blocks;
          c0 = join_with [nl] texts;
          c1 = (if names \<noteq> []
                then join_with_newline c0 (TOOL_CALL_PREFIX @ join_with '', '' names @ '']'') else c0);
          c2 = (if results \<noteq> []
                then join_with_newline c1 (TOOL_RESULT_PREFIX @ join_with [nl] results @ '']'') else c1)
      in JObj (bt_insert ''content'' (JStr c2) obj))"

definition flatten_message :: "(json \<Rightarrow> string) \<Rightarrow> json \<Rightarrow> json" where
  "flatten_message render_json message =
     (case message of
        JObj obj \<Rightarrow>
          (let role = (case Option.bind (map_of obj ''role'') as_str of Some r \<Rightarrow> r | None \<Rightarrow> []);
               calls = Option.bind (map_of obj ''tool_calls'') as_array;
               blocks = Option.bind (map_of obj ''content'') as_array
           in if role = ''tool'' \<or> role = ''function'' then
                jobj [(''role'', JStr ''assistant''),
                      (''content'', JStr (TOOL_RESULT_PREFIX
                         @ content_as_text render_json (map_of obj ''content'') @ '']''))]
              else if role = ''assistant'' \<and> calls \<noteq> None then
                JObj (bt_insert ''content''
                  (JStr (join_with_newline (content_as_text render_json (map_of obj ''content''))
                    (TOOL_CALL_PREFIX @ join_with '', '' (map tool_call_name (the calls)) @ '']'')))
                  (bt_remove ''tool_calls'' obj))
              else (case blocks of
                      Some bs \<Rightarrow> if list_ex is_tool_block bs then flatten_blocks render_json obj bs
                                 else message
                    | None \<Rightarrow> message))
      | _ \<Rightarrow> message)"

definition flatten_tool_history :: "(json \<Rightarrow> string) \<Rightarrow> json list \<Rightarrow> json list" where
  "flatten_tool_history render_json messages = map (flatten_message render_json) messages"

definition flatten_key ::
    "(json \<Rightarrow> string) \<Rightarrow> string \<Rightarrow> (string \<times> json) list \<Rightarrow> (string \<times> json) list" where
  "flatten_key render_json key obj =
     (case Option.bind (map_of obj key) as_array of
        Some messages \<Rightarrow> bt_insert key (JArr (flatten_tool_history render_json messages)) obj
      | None \<Rightarrow> obj)"

definition panel_body :: "(json \<Rightarrow> string) \<Rightarrow> json \<Rightarrow> json" where
  "panel_body render_json body =
     (case body of
        JObj obj \<Rightarrow>
          (let o1 = bt_remove ''stream_options'' (bt_remove ''tool_choice'' (bt_remove ''tools'' obj));
               o2 = bt_insert ''stream'' (JBool False) o1
           in JObj (flatten_key render_json ''input'' (flatten_key render_json ''messages'' o2)))
      | _ \<Rightarrow> body)"

section \<open>Reading a panel answer\<close>

definition blank :: "string \<Rightarrow> bool" where
  "blank s \<longleftrightarrow> trim s = []"

definition first_of :: "json \<Rightarrow> string \<Rightarrow> json option" where
  "first_of v k = Option.bind (Option.bind (jget v k) as_array)
     (\<lambda>xs. case xs of [] \<Rightarrow> None | x # _ \<Rightarrow> Some x)"

definition openai_text :: "(json \<Rightarrow> string) \<Rightarrow> json \<Rightarrow> string option" where
  "openai_text render_json choice =
     (let message = (case jget choice ''message'' of None \<Rightarrow> jget choice ''delta'' | Some m \<Rightarrow> Some m);
          text = content_as_text render_json (Option.bind message (\<lambda>m. jget m ''content''))
      in if \<not> blank text then Some text
         else (case get_str choice ''text'' of
                 Some t \<Rightarrow> if \<not> blank t then Some t else None
               | None \<Rightarrow> None))"

definition gemini_text :: "json \<Rightarrow> string option" where
  "gemini_text body =
     (case Option.bind (Option.bind (Option.bind (first_of body ''candidates'')
              (\<lambda>c. jget c ''content'')) (\<lambda>c. jget c ''parts'')) as_array of
        Some parts \<Rightarrow>
          (let text = concat (List.map_filter (\<lambda>p. get_str p ''text'') parts)
           in if \<not> blank text then Some text else None)
      | None \<Rightarrow> None)"

definition responses_text :: "json \<Rightarrow> string option" where
  "responses_text body =
     (case Option.bind (jget body ''output'') as_array of
        Some output \<Rightarrow>
          (let blocks = concat (List.map_filter (\<lambda>i. Option.bind (jget i ''content'') as_array) output);
               text = concat (List.map_filter (\<lambda>b. get_str b ''text'') blocks)
           in if \<not> blank text then Some text else None)
      | None \<Rightarrow> None)"

definition extract_panel_text :: "(json \<Rightarrow> string) \<Rightarrow> json \<Rightarrow> string" where
  "extract_panel_text render_json body =
     (if as_object body = None then []
      else case Option.bind (first_of body ''choices'') (openai_text render_json) of
        Some t \<Rightarrow> t
      | None \<Rightarrow>
          (let claude = extract_text_content (jget body ''content'') [nl]
           in if \<not> blank claude then claude
              else case gemini_text body of
                     Some t \<Rightarrow> t
                   | None \<Rightarrow> (case responses_text body of Some t \<Rightarrow> t | None \<Rightarrow> [])))"

section \<open>The judge\<close>

record panel_answer =
  pa_model :: string
  pa_text :: string

definition em_dash :: string where "em_dash = [CHR 0xE2, CHR 0x80, CHR 0x94]"

definition judge_lines :: "nat \<Rightarrow> string \<Rightarrow> string list" where
  "judge_lines n panel =
     [''You are the JUDGE in a model-fusion panel. '' @ show_nat n @ '' expert models independently answered the user's most recent request. Their responses are below, anonymized by source.'',
      [],
      ''Do NOT mention that multiple models were used, and do NOT refer to the sources. Produce ONE authoritative final answer addressed directly to the user.'',
      [],
      ''First, internally analyze the panel along these dimensions: consensus (points most sources agree on '' @ em_dash @ '' treat as higher-confidence), contradictions (where they disagree '' @ em_dash @ '' resolve with your own judgment), partial coverage, unique insights only one source surfaced, and blind spots every source missed. Then write the best possible final answer grounded in that analysis '' @ em_dash @ '' more complete and correct than any single response, with no filler.'',
      [],
      ''=== PANEL RESPONSES ==='',
      panel,
      ''=== END PANEL RESPONSES ==='',
      [],
      ''Now write the final answer to the user's original request.'']"

definition judge_prompt :: "panel_answer list \<Rightarrow> string" where
  "judge_prompt answers =
     (let panel = join_with [nl, nl]
            (map (\<lambda>(i, a). ''[Source '' @ show_nat (i + 1) @ '']'' @ [nl] @ pa_text a)
              (enumerate 0 answers))
      in join_with [nl] (judge_lines (length answers) panel))"

definition user_turn :: "string \<Rightarrow> json" where
  "user_turn text = jobj [(''role'', JStr ''user''), (''content'', JStr text)]"

definition append_user_turn :: "json \<Rightarrow> string \<Rightarrow> json" where
  "append_user_turn body text =
     (case body of
        JObj obj \<Rightarrow>
          (case Option.bind (map_of obj ''messages'') as_array of
             Some ms \<Rightarrow> JObj (bt_insert ''messages'' (JArr (ms @ [user_turn text])) obj)
           | None \<Rightarrow>
          (case Option.bind (map_of obj ''input'') as_array of
             Some ms \<Rightarrow> JObj (bt_insert ''input'' (JArr (ms @ [user_turn text])) obj)
           | None \<Rightarrow>
          (case Option.bind (map_of obj ''contents'') as_array of
             Some ms \<Rightarrow> JObj (bt_insert ''contents''
               (JArr (ms @ [jobj [(''role'', JStr ''user''),
                                  (''parts'', JArr [jobj [(''text'', JStr text)]])]])) obj)
           | None \<Rightarrow> JObj (bt_insert ''messages'' (JArr [user_turn text]) obj))))
      | _ \<Rightarrow> jobj [(''messages'', JArr [user_turn text])])"

definition judge_body :: "json \<Rightarrow> panel_answer list \<Rightarrow> json" where
  "judge_body body answers = append_user_turn body (judge_prompt answers)"

section \<open>Collecting the panel\<close>

text \<open>
  The reports of the panel in the order they arrive, each with its arrival time in milliseconds after
  the start. The timers win ties (\<open>biased\<close>); the grace timer is armed by the answer that reaches the
  quorum.
\<close>

type_synonym report = "nat \<times> string \<times> string option"

fun usable :: "report \<Rightarrow> bool" where
  "usable (t, model, text) = (case text of None \<Rightarrow> False | Some s \<Rightarrow> \<not> blank s)"

fun answer_of :: "report \<Rightarrow> panel_answer" where
  "answer_of (t, model, text) = \<lparr>pa_model = model, pa_text = (case text of None \<Rightarrow> [] | Some s \<Rightarrow> s)\<rparr>"

fun collect_loop ::
    "nat \<Rightarrow> nat \<Rightarrow> nat \<Rightarrow> nat option \<Rightarrow> report list \<Rightarrow> panel_answer list \<Rightarrow> panel_answer list" where
  "collect_loop q grace hard armed [] answers = answers"
| "collect_loop q grace hard armed (r # reports) answers =
     (if hard \<le> fst r then answers
      else if (case armed of None \<Rightarrow> False | Some d \<Rightarrow> d \<le> fst r) then answers
      else if usable r then
        (let answers' = answers @ [answer_of r];
             armed' = (if length answers' \<ge> q \<and> armed = None then Some (fst r + grace) else armed)
         in collect_loop q grace hard armed' reports answers')
      else collect_loop q grace hard armed reports answers)"

definition collect_panel :: "nat \<Rightarrow> fusion_tuning \<Rightarrow> report list \<Rightarrow> panel_answer list" where
  "collect_panel q tuning reports =
     collect_loop q (ft_straggler_grace_ms tuning) (ft_panel_hard_timeout_ms tuning) None reports []"

text \<open>When the collection closes: at the hard timeout, or a grace after the quorum.\<close>

definition cutoff :: "nat \<Rightarrow> nat \<Rightarrow> nat \<Rightarrow> report list \<Rightarrow> nat" where
  "cutoff q grace hard reports =
     (let good = filter usable reports
      in if q \<le> length good then min hard (fst (good ! (q - 1)) + grace) else hard)"

lemma collect_armed:
  "sorted (map fst reports) \<Longrightarrow>
   collect_loop q grace hard (Some d) reports answers =
     answers @ map answer_of (filter (\<lambda>r. usable r \<and> fst r < min hard d) reports)"
proof (induction reports arbitrary: answers)
  case (Cons r reports)
  show ?case
  proof (cases "fst r < min hard d")
    case True
    then show ?thesis using Cons by simp
  next
    case False
    then have "filter (\<lambda>x. usable x \<and> fst x < min hard d) (r # reports) = []"
      using Cons.prems by (force simp: filter_empty_conv)
    then show ?thesis using False by auto
  qed
qed simp

lemma cutoff_Cons_skip:
  "\<not> usable r \<Longrightarrow> cutoff q g h (r # rs) = cutoff q g h rs"
  by (simp add: cutoff_def)

lemma cutoff_Cons_count:
  "usable r \<Longrightarrow> 2 \<le> q \<Longrightarrow> cutoff q g h (r # rs) = cutoff (q - 1) g h rs"
  by (auto simp: cutoff_def Let_def nth_Cons')

lemma cutoff_le_hard: "cutoff q g h rs \<le> h"
  by (simp add: cutoff_def Let_def)

lemma collect_unarmed:
  "sorted (map fst reports) \<Longrightarrow> length answers < q \<Longrightarrow> 0 < grace \<Longrightarrow>
   collect_loop q grace hard None reports answers =
     answers @ map answer_of
       (filter (\<lambda>r. usable r \<and> fst r < cutoff (q - length answers) grace hard reports) reports)"
proof (induction reports arbitrary: answers)
  case (Cons r reports)
  let ?k = "q - length answers"
  have k: "1 \<le> ?k" using Cons.prems(2) by simp
  have late: "fst r \<le> fst x" if "x \<in> set reports" for x using Cons.prems(1) that by simp
  have late': "fst r \<le> fst x" if "x \<in> set (r # reports)" for x
    using that late [of x] unfolding set_ConsD by (cases "x = r") simp_all
  show ?case
  proof (cases "hard \<le> fst r")
    case True
    then have "\<not> fst x < cutoff ?k grace hard (r # reports)" if "x \<in> set (r # reports)" for x
      using late cutoff_le_hard [of ?k grace hard "r # reports"] that by fastforce
    then have "filter (\<lambda>x. usable x \<and> fst x < cutoff ?k grace hard (r # reports)) (r # reports) = []"
      by (simp add: filter_empty_conv)
    then show ?thesis using True by simp
  next
    case early: False
    show ?thesis
    proof (cases "usable r")
      case False
      then show ?thesis using Cons early by (simp add: cutoff_Cons_skip)
    next
      case use: True
      show ?thesis
      proof (cases "?k = 1")
        case True
        then have "cutoff ?k grace hard (r # reports) = min hard (fst r + grace)"
          using use by (simp add: cutoff_def Let_def)
        moreover have "fst r < min hard (fst r + grace)" using early Cons.prems(3) by simp
        moreover have "q = Suc (length answers)" using True Cons.prems(2) by simp
        ultimately show ?thesis
          using True use early Cons.prems(1)
          by (simp add: collect_armed del: min_less_iff_conj)
      next
        case False
        then have q: "2 \<le> ?k" "\<not> q \<le> Suc (length answers)" using k by simp_all
        have step: "cutoff ?k grace hard (r # reports) = cutoff (?k - 1) grace hard reports"
          by (rule cutoff_Cons_count [OF use q(1)])
        have "fst r < cutoff ?k grace hard (r # reports)"
        proof (cases "?k \<le> length (filter usable (r # reports))")
          case True
          then have "filter usable (r # reports) ! (?k - 1) \<in> set (filter usable (r # reports))"
            using k by (intro nth_mem) linarith
          then have "filter usable (r # reports) ! (?k - 1) \<in> set (r # reports)"
            using filter_is_subset [of usable "r # reports"] by blast
          then have "fst r \<le> fst (filter usable (r # reports) ! (?k - 1))"
            by (rule late')
          then show ?thesis
            using True early Cons.prems(3) by (simp add: cutoff_def Let_def del: filter.simps)
        qed (use early in \<open>simp add: cutoff_def Let_def del: filter.simps\<close>)
        then show ?thesis
          using Cons.IH [of "answers @ [answer_of r]"] Cons.prems use early q step
          by simp
      qed
    qed
  qed
qed simp

section \<open>Properties\<close>

text \<open>A fusion panel is collected up to one cutoff: with at least one model and a tuning that comes
  from an override, the answers kept are exactly the usable ones that arrive before the hard timeout
  and before the grace window that starts with the quorum's last answer. A quorum never exceeds the
  panel, and is at least two for a panel of two or more.\<close>

theorem panel_cutoff:
  fixes min_panel grace_ms hard_ms :: "nat option"
  assumes "0 < n" "sorted (map fst reports)"
  defines "tuning \<equiv> tuning_from_override min_panel grace_ms hard_ms"
  shows "collect_panel (quorum tuning n) tuning reports =
      map answer_of (filter (\<lambda>r. usable r \<and>
        fst r < cutoff (quorum tuning n) (ft_straggler_grace_ms tuning)
                  (ft_panel_hard_timeout_ms tuning) reports) reports)
    \<and> quorum tuning n \<le> n \<and> (2 \<le> n \<longrightarrow> 2 \<le> quorum tuning n)"
proof -
  have "0 < quorum tuning n" using assms(1) by (auto simp: quorum_def Let_def)
  with collect_unarmed [OF assms(2), where answers = "[]"] tuning_positive show ?thesis
    using quorum_bounds by (simp add: collect_panel_def tuning_def)
qed

definition sample_reports :: "report list" where
  "sample_reports = [(10, ''a'', Some ''A''), (20, ''b'', Some '' ''), (30, ''c'', Some ''C''),
     (60, ''d'', Some ''D''), (99, ''e'', Some ''E'')]"

theorem panel_cutoff_witness:
  "map pa_model (collect_panel (quorum (tuning_from_override None (Some 50) None) 5)
     (tuning_from_override None (Some 50) None) sample_reports) = [''a'', ''c'', ''d'']"
proof -
  have u: "\<not> blank ''A''" "\<not> blank ''C''" "\<not> blank ''D''" "\<not> blank ''E''" "blank '' ''"
    unfolding blank_def trim_def trim_end_def trim_start_def
    by (simp_all add: strip_white.simps white_len_def white_seqs_def starts_with_def)
  have "(0::nat) < 5" "sorted (map fst sample_reports)" by (simp_all add: sample_reports_def)
  from panel_cutoff [OF this, of None "Some 50" None] show ?thesis
    using u by (simp add: sample_reports_def tuning_from_override_def default_tuning_def
        positive_or_def quorum_def cutoff_def)
qed

text \<open>A message with a structured tool turn: a tool role, an assistant's calls, or a Claude tool block.\<close>

definition tool_turn :: "json \<Rightarrow> bool" where
  "tool_turn m \<longleftrightarrow>
     get_str m ''role'' = Some ''tool'' \<or> get_str m ''role'' = Some ''function''
     \<or> (get_str m ''role'' = Some ''assistant'' \<and> Option.bind (jget m ''tool_calls'') as_array \<noteq> None)
     \<or> (case Option.bind (jget m ''content'') as_array of
          Some bs \<Rightarrow> list_ex is_tool_block bs | None \<Rightarrow> False)"

lemma flatten_blocks_no_tools:
  assumes "\<not> (role = ''tool'' \<or> role = ''function'')"
    "\<not> (role = ''assistant'' \<and> Option.bind (map_of obj ''tool_calls'') as_array \<noteq> None)"
    "role = (case Option.bind (map_of obj ''role'') as_str of Some r \<Rightarrow> r | None \<Rightarrow> [])"
  shows "\<not> tool_turn (flatten_blocks render_json obj bs)"
  using assms
  by (auto simp: tool_turn_def flatten_blocks_def get_str_def map_simps Let_def split_beta)

lemma flatten_message_no_tools: "\<not> tool_turn (flatten_message render_json m)"
proof (cases m)
  case (JObj obj)
  let ?role = "case Option.bind (map_of obj ''role'') as_str of Some r \<Rightarrow> r | None \<Rightarrow> []"
  show ?thesis
  proof (cases "?role = ''tool'' \<or> ?role = ''function''")
    case True
    then show ?thesis
      by (auto simp: JObj flatten_message_def Let_def tool_turn_def get_str_def jget_jobj)
  next
    case no_tool: False
    show ?thesis
    proof (cases "?role = ''assistant'' \<and> Option.bind (map_of obj ''tool_calls'') as_array \<noteq> None")
      case True
      then show ?thesis
        by (auto simp: JObj flatten_message_def Let_def tool_turn_def get_str_def map_simps
            split: option.splits)
    next
      case False
      have eq: "flatten_message render_json (JObj obj) =
          (case Option.bind (map_of obj ''content'') as_array of
             Some bs \<Rightarrow> if list_ex is_tool_block bs then flatten_blocks render_json obj bs else JObj obj
           | None \<Rightarrow> JObj obj)"
        unfolding flatten_message_def Let_def json.case if_not_P [OF no_tool] if_not_P [OF False] ..
      have role: "get_str (JObj obj) ''role'' \<noteq> Some ''tool''"
        "get_str (JObj obj) ''role'' \<noteq> Some ''function''"
        "\<not> (get_str (JObj obj) ''role'' = Some ''assistant''
            \<and> Option.bind (jget (JObj obj) ''tool_calls'') as_array \<noteq> None)"
        using no_tool False by (auto simp: get_str_def)
      show ?thesis
      proof (cases "Option.bind (map_of obj ''content'') as_array")
        case None
        then show ?thesis unfolding JObj eq tool_turn_def using role by simp
      next
        case (Some bs)
        show ?thesis
        proof (cases "list_ex is_tool_block bs")
          case True
          with Some show ?thesis
            unfolding JObj eq using flatten_blocks_no_tools [OF no_tool False refl] by simp
        next
          case no_block: False
          then have "flatten_message render_json (JObj obj) = JObj obj" unfolding eq Some by simp
          then show ?thesis unfolding JObj tool_turn_def using role Some no_block by simp
        qed
      qed
    qed
  qed
qed (simp_all add: flatten_message_def tool_turn_def get_str_def)

text \<open>The request a panel model gets asks for prose only: it is not streaming, it offers no tools,
  and none of its \<open>messages\<close> is a structured tool turn, whatever the shape of the client's history.\<close>

theorem panel_body_is_prose:
  fixes render_json :: "json \<Rightarrow> string"
  assumes "body = JObj obj"
  defines "p \<equiv> panel_body render_json body"
  shows "jget p ''stream'' = Some (JBool False)
    \<and> jget p ''tools'' = None \<and> jget p ''tool_choice'' = None \<and> jget p ''stream_options'' = None
    \<and> (\<forall>ms. Option.bind (jget body ''messages'') as_array = Some ms \<longrightarrow>
          jget p ''messages'' = Some (JArr (map (flatten_message render_json) ms))
          \<and> list_all (\<lambda>m. \<not> tool_turn m) (map (flatten_message render_json) ms))"
  using assms
  by (simp add: panel_body_def flatten_key_def flatten_tool_history_def map_simps Let_def
      list_all_iff flatten_message_no_tools split: option.split)

theorem panel_body_is_prose_witness:
  "jget (panel_body (\<lambda>_. []) (JObj [(''tools'', JArr [])])) ''tools'' = None"
  using panel_body_is_prose [OF refl, of "\<lambda>_. []"] by blast

text \<open>The tool turns of a Responses API history are not flattened: an item of \<open>input\<close> that is a
  function call or its output has no role and no content blocks, so it reaches the panel as it is, although
  the tools it refers to were removed from the request.\<close>

theorem responses_tool_items_kept:
  assumes "map_of item ''role'' = None" "map_of item ''content'' = None"
    and "Option.bind (jget (JObj obj) ''input'') as_array = Some ms" "JObj item \<in> set ms"
  shows "\<exists>ms'. jget (panel_body render_json (JObj obj)) ''input'' = Some (JArr ms') \<and> JObj item \<in> set ms'"
proof -
  have kept: "flatten_message render_json (JObj item) = JObj item"
    using assms(1,2) by (simp add: flatten_message_def)
  have "jget (panel_body render_json (JObj obj)) ''input'' =
      Some (JArr (map (flatten_message render_json) ms))"
    using assms(3)
    by (simp add: panel_body_def flatten_key_def flatten_tool_history_def map_simps Let_def
        split: option.split)
  moreover have "JObj item \<in> set (map (flatten_message render_json) ms)"
    using assms(4) kept by (metis imageI set_map)
  ultimately show ?thesis by blast
qed

theorem responses_tool_items_kept_witness:
  "\<exists>ms'. jget (panel_body (\<lambda>_. []) (JObj [(''input'', JArr [JObj [(''type'', JStr ''function_call'')]])]))
       ''input'' = Some (JArr ms') \<and> JObj [(''type'', JStr ''function_call'')] \<in> set ms'"
  by (rule responses_tool_items_kept [where ms = "[JObj [(''type'', JStr ''function_call'')]]"])
     simp_all

end
