(* ===== verification/Connection_Store.thy ===== *)
theory Connection_Store
  imports Json_Value
begin

text \<open>
  The routing state of \<open>services/state-actix/src/store.rs\<close>: provider connections with their
  cooldown locks and round-robin bookkeeping, combos and proxy pools, and the operations on them.
  Every operation is a function from the snapshot to a result and the new snapshot, which is the
  closure the code hands to \<open>write_snapshot\<close>; locking and persistence are in
  \<open>Persistence\<close>. The clock is an argument: \<open>now_ms\<close> is \<open>now_millis()\<close>, and \<open>now\<close> the string
  of \<open>timestamp()\<close>.
\<close>

named_theorems store_simps \<open>unfolding of the store's operations\<close>

section \<open>Timestamps\<close>

definition millis_to_iso :: "nat \<Rightarrow> string" where
  "millis_to_iso millis = ''unix-ms:'' @ show_nat millis"

definition iso_to_millis :: "string \<Rightarrow> nat option" where
  "iso_to_millis value =
     parse_u64 (trim (case strip_prefix value ''unix-ms:'' of Some t \<Rightarrow> t | None \<Rightarrow> value))"

lemma iso_to_millis_to_iso: "n \<le> u64_max \<Longrightarrow> iso_to_millis (millis_to_iso n) = Some n"
proof -
  assume n: "n \<le> u64_max"
  have "trim (show_nat n) = show_nat n"
    by (rule trim_digits) (auto simp: list_all_iff intro: show_nat_digits)
  then show ?thesis
    using parse_show_nat [OF n]
    by (simp only: iso_to_millis_def millis_to_iso_def strip_prefix_append parse_u64_def option.case)
qed

section \<open>State\<close>

record connection =
  cn_id :: string
  cn_provider :: string
  cn_auth_type :: string
  cn_name :: string
  cn_priority :: nat
  cn_is_active :: bool
  cn_created_at :: string
  cn_updated_at :: string
  cn_email :: "string option"
  cn_global_priority :: "nat option"
  cn_default_model :: "string option"
  cn_test_status :: "string option"
  cn_last_error :: "string option"
  cn_last_error_at :: "string option"
  cn_provider_specific_data :: "(string \<times> json) list option"
  cn_api_key :: "string option"
  cn_access_token :: "string option"
  cn_refresh_token :: "string option"
  cn_expires_at :: "string option"
  cn_last_used_at :: "string option"
  cn_consecutive_use_count :: nat
  cn_backoff_level :: nat
  cn_error_code :: "nat option"
  cn_model_locks :: "(string \<times> string) list"

record combo =
  cb_id :: string
  cb_name :: string
  cb_kind :: "string option"
  cb_models :: "string list"
  cb_created_at :: string
  cb_updated_at :: string

record proxy_pool =
  pp_id :: string
  pp_name :: string
  pp_proxy_url :: string
  pp_no_proxy :: string
  pp_proxy_type :: string
  pp_is_active :: bool
  pp_strict_proxy :: bool
  pp_test_status :: string
  pp_last_tested_at :: "string option"
  pp_last_error :: "string option"
  pp_created_at :: string
  pp_updated_at :: string

record custom_model =
  cm_provider_alias :: string
  cm_id :: string
  cm_model_type :: "string option"
  cm_name :: "string option"
  cm_created_at :: string

text \<open>The part of the snapshot the modelled operations read and write.\<close>

record snapshot =
  sn_connections :: "connection list"
  sn_combos :: "combo list"
  sn_proxy_pools :: "proxy_pool list"
  sn_disabled_models :: "(string \<times> string list) list"
  sn_custom_models :: "custom_model list"
  sn_model_aliases :: "(string \<times> string) list"

definition MODEL_LOCK_ALL :: string where "MODEL_LOCK_ALL = ''__all''"

section \<open>Cooldown locks\<close>

definition lock_active :: "nat \<Rightarrow> string \<Rightarrow> bool" where
  "lock_active now_ms expiry =
     (case iso_to_millis expiry of Some e \<Rightarrow> now_ms < e | None \<Rightarrow> False)"

definition is_locked :: "connection \<Rightarrow> string option \<Rightarrow> nat \<Rightarrow> bool" where
  "is_locked c model now_ms =
     (let expiry = opt_or (Option.bind model (map_of (cn_model_locks c)))
                          (map_of (cn_model_locks c) MODEL_LOCK_ALL)
      in case expiry of
           None \<Rightarrow> False
         | Some e \<Rightarrow> (case iso_to_millis e of Some t \<Rightarrow> now_ms < t | None \<Rightarrow> False))"

definition earliest_lock_ms :: "connection \<Rightarrow> nat \<Rightarrow> nat option" where
  "earliest_lock_ms c now_ms =
     min_by_key (\<lambda>e. e)
       (filter (\<lambda>e. now_ms < e)
         (List.map_filter (\<lambda>(_, expiry). iso_to_millis expiry) (cn_model_locks c)))"

lemma is_locked_alt:
  "is_locked c model now =
     (case opt_or (Option.bind model (map_of (cn_model_locks c)))
             (map_of (cn_model_locks c) MODEL_LOCK_ALL) of
        None \<Rightarrow> False | Some e \<Rightarrow> lock_active now e)"
  by (simp add: is_locked_def lock_active_def Let_def split: option.splits)

lemma locked_has_earliest:
  assumes "is_locked c model now"
  shows "\<exists>t. earliest_lock_ms c now = Some t \<and> now < t"
proof -
  from assms obtain e t where e: "e \<in> snd ` set (cn_model_locks c)"
    "iso_to_millis e = Some t" "now < t"
    by (auto simp: is_locked_def Let_def opt_or_def split: option.splits
        Option.bind_splits dest!: map_of_SomeD) (metis snd_conv image_eqI)+
  let ?es = "filter (\<lambda>e. now < e)
    (List.map_filter (\<lambda>(_, expiry). iso_to_millis expiry) (cn_model_locks c))"
  from e have "t \<in> set ?es"
    by (force simp: List.map_filter_def)
  then have "?es \<noteq> []" by (metis list.distinct(1) list.set_cases)
  then obtain m where m: "earliest_lock_ms c now = Some m"
    unfolding earliest_lock_ms_def by (metis min_by_key_None not_None_eq)
  then have "m \<in> set ?es" unfolding earliest_lock_ms_def by (rule min_by_key_in)
  with m show ?thesis by auto
qed

section \<open>Selecting a connection\<close>

datatype fallback_strategy = FillFirst | RoundRobin

record select_request =
  rq_provider :: string
  rq_model :: "string option"
  rq_exclude :: "string list"
  rq_preferred :: "string option"
  rq_strategy :: fallback_strategy
  rq_sticky_limit :: nat

datatype connection_selection =
    Selected connection
  | NoCredentials
  | AllRateLimited nat "string option" "nat option"
  | Exhausted

text \<open>\<open>Vec::get\<close>.\<close>

definition at :: "'a list \<Rightarrow> nat \<Rightarrow> 'a option" where
  "at xs i = (if i < length xs then Some (xs ! i) else None)"

definition matching_indices :: "connection list \<Rightarrow> string \<Rightarrow> nat list" where
  "matching_indices cs provider =
     filter (\<lambda>i. cn_provider (cs ! i) = provider \<and> cn_is_active (cs ! i)) [0..<length cs]"

definition available_indices :: "connection list \<Rightarrow> select_request \<Rightarrow> nat \<Rightarrow> nat list" where
  "available_indices cs rq now_ms =
     filter (\<lambda>i. case at cs i of
                   None \<Rightarrow> False
                 | Some c \<Rightarrow> cn_id c \<notin> set (rq_exclude rq) \<and> \<not> is_locked c (rq_model rq) now_ms)
       (matching_indices cs (rq_provider rq))"

text \<open>The most recent account, while it has been used fewer than \<open>sticky_limit\<close> times.\<close>

definition rr_stay :: "connection list \<Rightarrow> nat list \<Rightarrow> nat \<Rightarrow> nat option" where
  "rr_stay cs available sticky_limit =
     (let used = filter (\<lambda>i. case at cs i of None \<Rightarrow> False | Some c \<Rightarrow> cn_last_used_at c \<noteq> None)
                   available;
          most_recent = max_by_key
            (\<lambda>i. opt_default [] (Option.bind (at cs i) cn_last_used_at)) used
      in case most_recent of
           None \<Rightarrow> None
         | Some i \<Rightarrow>
             (case at cs i of
                None \<Rightarrow> None
              | Some c \<Rightarrow> if cn_consecutive_use_count c < sticky_limit then Some i else None))"

text \<open>Least recently used first; never used accounts sort before used ones.\<close>

definition rr_key :: "connection list \<Rightarrow> nat \<Rightarrow> bool \<times> string \<times> nat" where
  "rr_key cs i =
     (case at cs i of
        None \<Rightarrow> (True, [], u32_max)
      | Some c \<Rightarrow> (cn_last_used_at c \<noteq> None, opt_default [] (cn_last_used_at c), cn_priority c))"

definition pick_round_robin ::
    "connection list \<Rightarrow> nat list \<Rightarrow> nat \<Rightarrow> string \<Rightarrow> nat \<times> connection list" where
  "pick_round_robin cs available sticky_limit now =
     (let stay = rr_stay cs available sticky_limit;
          chosen = (case stay of
                      Some i \<Rightarrow> i
                    | None \<Rightarrow> opt_default 0 (min_by_key (rr_key cs) available));
          cs' = (case at cs chosen of
                   None \<Rightarrow> cs
                 | Some c \<Rightarrow> cs[chosen := c\<lparr>
                     cn_consecutive_use_count :=
                       (if stay \<noteq> None then sat_add32 (cn_consecutive_use_count c) 1 else 1),
                     cn_last_used_at := Some now\<rparr>])
      in (chosen, cs'))"

definition select_connection ::
    "nat \<Rightarrow> string \<Rightarrow> select_request \<Rightarrow> snapshot \<Rightarrow> connection_selection \<times> snapshot" where
  "select_connection now_ms now rq sn =
     (let cs = sn_connections sn;
          matching = matching_indices cs (rq_provider rq)
      in if matching = [] then (NoCredentials, sn)
         else
           (let available = available_indices cs rq now_ms
            in if available = [] then
                 (let locked = filter (\<lambda>c. is_locked c (rq_model rq) now_ms)
                                 (List.map_filter (at cs) matching);
                      earliest = min_by_key (\<lambda>e. e)
                        (List.map_filter (\<lambda>c. earliest_lock_ms c now_ms) locked)
                  in case earliest of
                       None \<Rightarrow> (Exhausted, sn)
                     | Some retry_at_ms \<Rightarrow>
                         (let last = (case locked of [] \<Rightarrow> None | c # _ \<Rightarrow> Some c)
                          in (AllRateLimited retry_at_ms (Option.bind last cn_last_error)
                                (Option.bind last cn_error_code), sn)))
               else
                 (let pinned = Option.bind (rq_preferred rq)
                        (\<lambda>wanted. find (\<lambda>i. case at cs i of
                                              None \<Rightarrow> False | Some c \<Rightarrow> cn_id c = wanted) available);
                      (chosen, cs') =
                        (case pinned of
                           Some i \<Rightarrow> (i, cs)
                         | None \<Rightarrow>
                             (if rq_strategy rq = RoundRobin
                              then pick_round_robin cs available (rq_sticky_limit rq) now
                              else (opt_default 0
                                      (min_by_key
                                        (\<lambda>i. case at cs i of None \<Rightarrow> u32_max | Some c \<Rightarrow> cn_priority c)
                                        available), cs)));
                      sn' = sn\<lparr>sn_connections := cs'\<rparr>
                  in case at cs' chosen of
                       None \<Rightarrow> (NoCredentials, sn')
                     | Some c \<Rightarrow> (Selected c, sn'))))"


subsection \<open>What a selection promises\<close>

text \<open>A connection a request may use: active, of the provider, not tried yet, not cooling down.\<close>

definition matches :: "select_request \<Rightarrow> connection \<Rightarrow> bool" where
  "matches rq c \<longleftrightarrow> cn_provider c = rq_provider rq \<and> cn_is_active c"

definition eligible :: "select_request \<Rightarrow> nat \<Rightarrow> connection \<Rightarrow> bool" where
  "eligible rq now_ms c \<longleftrightarrow>
     matches rq c \<and> cn_id c \<notin> set (rq_exclude rq) \<and> \<not> is_locked c (rq_model rq) now_ms"

text \<open>The fields a selection may write.\<close>

definition same_but_rotation :: "connection \<Rightarrow> connection \<Rightarrow> bool" where
  "same_but_rotation c c' \<longleftrightarrow>
     c' = c\<lparr>cn_consecutive_use_count := cn_consecutive_use_count c',
            cn_last_used_at := cn_last_used_at c'\<rparr>"

lemma same_but_rotation_refl [simp]: "same_but_rotation c c"
  by (simp add: same_but_rotation_def)

lemma same_but_rotation_fields:
  assumes "same_but_rotation c c'"
  shows "cn_id c' = cn_id c" "cn_provider c' = cn_provider c" "cn_is_active c' = cn_is_active c"
    "cn_priority c' = cn_priority c" "cn_model_locks c' = cn_model_locks c"
    "cn_last_error c' = cn_last_error c" "cn_error_code c' = cn_error_code c"
    "cn_api_key c' = cn_api_key c" "cn_access_token c' = cn_access_token c"
    "cn_refresh_token c' = cn_refresh_token c" "cn_backoff_level c' = cn_backoff_level c"
  by (subst assms [unfolded same_but_rotation_def], simp)+

lemma at_Some: "at xs i = Some x \<longleftrightarrow> i < length xs \<and> xs ! i = x"
  by (auto simp: at_def)

lemma at_nth [simp]: "i < length xs \<Longrightarrow> at xs i = Some (xs ! i)"
  by (simp add: at_def)

lemma matching_indices_iff:
  "i \<in> set (matching_indices cs (rq_provider rq)) \<longleftrightarrow> i < length cs \<and> matches rq (cs ! i)"
  by (auto simp: matching_indices_def matches_def)

lemma available_indices_iff:
  "i \<in> set (available_indices cs rq now) \<longleftrightarrow> i < length cs \<and> eligible rq now (cs ! i)"
  by (auto simp: available_indices_def matching_indices_iff eligible_def at_def split: if_splits)

lemma available_Nil: "available_indices cs rq now = [] \<longleftrightarrow> (\<forall>c \<in> set cs. \<not> eligible rq now c)"
proof -
  have "available_indices cs rq now = [] \<longleftrightarrow> (\<forall>i. i \<notin> set (available_indices cs rq now))"
    by (metis list.set_intros(1) neq_Nil_conv empty_iff list.set(1))
  then show ?thesis unfolding available_indices_iff by (metis in_set_conv_nth)
qed

lemma matching_Nil: "matching_indices cs (rq_provider rq) = [] \<longleftrightarrow> (\<forall>c \<in> set cs. \<not> matches rq c)"
proof -
  have "matching_indices cs (rq_provider rq) = [] \<longleftrightarrow>
      (\<forall>i. i \<notin> set (matching_indices cs (rq_provider rq)))"
    by (metis list.set_intros(1) neq_Nil_conv empty_iff list.set(1))
  then show ?thesis unfolding matching_indices_iff by (metis in_set_conv_nth)
qed

text \<open>The rotation picks an available index and rewrites only the fields of that connection.\<close>

lemma pick_round_robin_in:
  assumes "available \<noteq> []" "\<forall>i \<in> set available. i < length cs"
    "pick_round_robin cs available limit now = (chosen, cs')"
  shows "chosen \<in> set available"
    and "\<exists>n. cs' = cs[chosen := (cs ! chosen)\<lparr>cn_consecutive_use_count := n,
                                  cn_last_used_at := Some now\<rparr>]"
proof -
  obtain l where l: "min_by_key (rr_key cs) available = Some l"
    using min_by_key_Some [OF assms(1)] by blast
  have stay: "i \<in> set available" if "rr_stay cs available limit = Some i" for i
    using that max_by_key_in unfolding rr_stay_def Let_def
    by (force split: option.splits if_splits)
  show in_av: "chosen \<in> set available"
  proof (cases "rr_stay cs available limit")
    case None
    then have "chosen = l" using assms(3) by (simp add: pick_round_robin_def Let_def l)
    then show ?thesis using min_by_key_in [OF l] by simp
  next
    case (Some i)
    then have "chosen = i" using assms(3) by (simp add: pick_round_robin_def Let_def)
    then show ?thesis using stay [OF Some] by simp
  qed
  then have lt: "chosen < length cs" using assms(2) by blast
  have "cs' = (case at cs chosen of None \<Rightarrow> cs
       | Some c \<Rightarrow> cs[chosen := c\<lparr>cn_consecutive_use_count :=
             (if rr_stay cs available limit \<noteq> None then sat_add32 (cn_consecutive_use_count c) 1 else 1),
           cn_last_used_at := Some now\<rparr>])"
    using assms(3) unfolding pick_round_robin_def Let_def by blast
  then show "\<exists>n. cs' = cs[chosen := (cs ! chosen)\<lparr>cn_consecutive_use_count := n,
                                  cn_last_used_at := Some now\<rparr>]"
    using lt by auto
qed

lemma select_no_credentials:
  "select_connection now_ms now rq sn = (NoCredentials, sn) \<and>
   fst (select_connection now_ms now rq sn) = NoCredentials"
  if "\<forall>c \<in> set (sn_connections sn). \<not> matches rq c"
  using that by (simp add: select_connection_def matching_Nil)

lemma select_Selected:
  assumes elig: "\<exists>c \<in> set (sn_connections sn). eligible rq now_ms c"
  obtains c sn' i where
    "select_connection now_ms now rq sn = (Selected c, sn')"
    "i < length (sn_connections sn)" "eligible rq now_ms (sn_connections sn ! i)"
    "same_but_rotation (sn_connections sn ! i) c"
    "sn' = sn\<lparr>sn_connections := (sn_connections sn)[i := c]\<rparr>"
proof -
  let ?cs = "sn_connections sn"
  let ?av = "available_indices ?cs rq now_ms"
  have av: "?av \<noteq> []" using elig by (simp add: available_Nil)
  have m: "matching_indices ?cs (rq_provider rq) \<noteq> []"
    using elig by (auto simp: matching_Nil eligible_def)
  have lt: "\<forall>i \<in> set ?av. i < length ?cs" by (simp add: available_indices_iff)
  let ?pin = "Option.bind (rq_preferred rq)
    (\<lambda>wanted. find (\<lambda>i. case at ?cs i of None \<Rightarrow> False | Some c \<Rightarrow> cn_id c = wanted) ?av)"
  let ?fill = "opt_default 0 (min_by_key
    (\<lambda>i. case at ?cs i of None \<Rightarrow> u32_max | Some c \<Rightarrow> cn_priority c) ?av)"
  define chosen cs' where "chosen = fst (case ?pin of Some i \<Rightarrow> (i, ?cs) | None \<Rightarrow>
      if rq_strategy rq = RoundRobin then pick_round_robin ?cs ?av (rq_sticky_limit rq) now
      else (?fill, ?cs))" and
    "cs' = snd (case ?pin of Some i \<Rightarrow> (i, ?cs) | None \<Rightarrow>
      if rq_strategy rq = RoundRobin then pick_round_robin ?cs ?av (rq_sticky_limit rq) now
      else (?fill, ?cs))"
  have fill: "?fill \<in> set ?av"
    by (metis (no_types, lifting) av min_by_key_None min_by_key_in not_None_eq opt_default_simps(2))
  have pin: "i \<in> set ?av" if "?pin = Some i" for i
    using that by (auto split: Option.bind_splits simp: find_Some_iff)
  have "chosen \<in> set ?av \<and> (\<exists>n l. cs' = ?cs[chosen := (?cs ! chosen)\<lparr>cn_consecutive_use_count := n,
                                  cn_last_used_at := l\<rparr>])"
  proof (cases ?pin)
    case (Some i)
    then have "chosen = i" "cs' = ?cs" by (simp_all add: chosen_def cs'_def)
    moreover have "?cs = ?cs[i := (?cs ! i)\<lparr>cn_consecutive_use_count := cn_consecutive_use_count (?cs ! i),
                                  cn_last_used_at := cn_last_used_at (?cs ! i)\<rparr>]" by simp
    ultimately show ?thesis using pin [OF Some] by metis
  next
    case None
    show ?thesis
    proof (cases "rq_strategy rq = RoundRobin")
      case True
      with None have "pick_round_robin ?cs ?av (rq_sticky_limit rq) now = (chosen, cs')"
        by (simp add: chosen_def cs'_def)
      from pick_round_robin_in [OF av lt this] show ?thesis by metis
    next
      case False
      with None have "chosen = ?fill" "cs' = ?cs" by (simp_all add: chosen_def cs'_def)
      moreover have "?cs = ?cs[?fill := (?cs ! ?fill)\<lparr>
          cn_consecutive_use_count := cn_consecutive_use_count (?cs ! ?fill),
          cn_last_used_at := cn_last_used_at (?cs ! ?fill)\<rparr>]" by simp
      ultimately show ?thesis using fill by metis
    qed
  qed
  then obtain n l where ch: "chosen \<in> set ?av" and
    cs': "cs' = ?cs[chosen := (?cs ! chosen)\<lparr>cn_consecutive_use_count := n, cn_last_used_at := l\<rparr>]"
    by blast
  let ?c = "(?cs ! chosen)\<lparr>cn_consecutive_use_count := n, cn_last_used_at := l\<rparr>"
  have clt: "chosen < length ?cs" using ch lt by blast
  then have at': "at cs' chosen = Some ?c" by (simp add: cs')
  have "select_connection now_ms now rq sn = (Selected ?c, sn\<lparr>sn_connections := cs'\<rparr>)"
    using m av at' unfolding chosen_def cs'_def
    by (simp add: select_connection_def Let_def case_prod_beta)
  moreover have "same_but_rotation (?cs ! chosen) ?c"
    by (simp add: same_but_rotation_def)
  ultimately show thesis using that clt ch cs' by (simp add: available_indices_iff)
qed

lemma select_cases:
  "(\<exists>c \<in> set (sn_connections sn). eligible rq now_ms c) \<or>
   (\<exists>c \<in> set (sn_connections sn). matches rq c) \<and>
   (\<forall>c \<in> set (sn_connections sn). \<not> eligible rq now_ms c) \<or>
   (\<forall>c \<in> set (sn_connections sn). \<not> matches rq c)"
  by (auto simp: eligible_def)


section \<open>Cooldowns\<close>

record mark_request =
  mk_connection_id :: string
  mk_model :: "string option"
  mk_status :: nat
  mk_reason :: string
  mk_cooldown_ms :: nat
  mk_backoff_level :: "nat option"

definition mark_one :: "nat \<Rightarrow> mark_request \<Rightarrow> connection \<Rightarrow> connection" where
  "mark_one now_ms u c =
     (let lock_key = opt_default MODEL_LOCK_ALL (mk_model u);
          c1 = c\<lparr>cn_model_locks :=
                   bt_insert lock_key (millis_to_iso (sat_add64 now_ms (mk_cooldown_ms u)))
                     (cn_model_locks c),
                 cn_test_status := Some ''unavailable'',
                 cn_last_error := Some (take_chars 100 (mk_reason u)),
                 cn_error_code := Some (mk_status u),
                 cn_last_error_at := Some (millis_to_iso now_ms)\<rparr>
      in case mk_backoff_level u of None \<Rightarrow> c1 | Some level \<Rightarrow> c1\<lparr>cn_backoff_level := level\<rparr>)"

definition mark_connection_unavailable ::
    "nat \<Rightarrow> mark_request \<Rightarrow> snapshot \<Rightarrow> bool \<times> snapshot" where
  "mark_connection_unavailable now_ms u sn =
     (if \<exists>c \<in> set (sn_connections sn). cn_id c = mk_connection_id u
      then (True, sn\<lparr>sn_connections :=
              update_first (\<lambda>c. cn_id c = mk_connection_id u) (mark_one now_ms u)
                (sn_connections sn)\<rparr>)
      else (False, sn))"

definition keep_lock :: "nat \<Rightarrow> string option \<Rightarrow> string \<times> string \<Rightarrow> bool" where
  "keep_lock now_ms model = (\<lambda>(key, expiry).
     if model = Some key \<or> key = MODEL_LOCK_ALL then False
     else lock_active now_ms expiry)"

definition clear_one :: "nat \<Rightarrow> string option \<Rightarrow> connection \<Rightarrow> connection" where
  "clear_one now_ms model c =
     (let kept = filter (keep_lock now_ms model) (cn_model_locks c);
          c1 = c\<lparr>cn_model_locks := kept\<rparr>
      in if kept = []
         then c1\<lparr>cn_test_status := Some ''active'', cn_last_error := None,
                 cn_last_error_at := None, cn_error_code := None, cn_backoff_level := 0\<rparr>
         else c1)"

definition clear_connection_error ::
    "nat \<Rightarrow> string \<Rightarrow> string option \<Rightarrow> snapshot \<Rightarrow> bool \<times> snapshot" where
  "clear_connection_error now_ms connection_id model sn =
     (if \<exists>c \<in> set (sn_connections sn). cn_id c = connection_id
      then (True, sn\<lparr>sn_connections :=
              update_first (\<lambda>c. cn_id c = connection_id) (clear_one now_ms model)
                (sn_connections sn)\<rparr>)
      else (False, sn))"

section \<open>Connection records\<close>

record connection_input =
  ci_provider :: string
  ci_auth_type :: "string option"
  ci_name :: string
  ci_priority :: "nat option"
  ci_is_active :: "bool option"
  ci_email :: "string option"
  ci_global_priority :: "nat option"
  ci_default_model :: "string option"
  ci_test_status :: "string option"
  ci_last_error :: "string option"
  ci_last_error_at :: "string option"
  ci_provider_specific_data :: "(string \<times> json) list option"
  ci_api_key :: "string option"
  ci_access_token :: "string option"
  ci_refresh_token :: "string option"
  ci_expires_at :: "string option"

record connection_update =
  cu_name :: "string option"
  cu_priority :: "nat option"
  cu_global_priority :: "nat option"
  cu_default_model :: "string option"
  cu_is_active :: "bool option"
  cu_api_key :: "string option"
  cu_test_status :: "string option"
  cu_last_error :: "string option"
  cu_last_error_at :: "string option"
  cu_provider_specific_data :: "(string \<times> json) list option"

record credential_update =
  cr_access_token :: "string option"
  cr_refresh_token :: "string option"
  cr_expires_at :: "string option"
  cr_provider_specific_data :: "(string \<times> json) list option"

definition public :: "connection \<Rightarrow> connection" where
  "public c = c\<lparr>cn_api_key := None, cn_access_token := None, cn_refresh_token := None\<rparr>"

definition merge_connection :: "connection \<Rightarrow> connection \<Rightarrow> connection" where
  "merge_connection existing incoming = existing\<lparr>
     cn_priority := cn_priority incoming,
     cn_is_active := cn_is_active incoming,
     cn_updated_at := cn_updated_at incoming,
     cn_global_priority := cn_global_priority incoming,
     cn_default_model := cn_default_model incoming,
     cn_test_status := cn_test_status incoming,
     cn_last_error := cn_last_error incoming,
     cn_last_error_at := cn_last_error_at incoming,
     cn_provider_specific_data := cn_provider_specific_data incoming,
     cn_api_key := cn_api_key incoming\<rparr>"

text \<open>The clock is read once for \<open>timestamp\<close> and once more inside \<open>next_id\<close>.\<close>

definition next_id :: "nat \<Rightarrow> string \<Rightarrow> nat \<Rightarrow> string" where
  "next_id id_ms prefix index = prefix @ ''_'' @ show_nat id_ms @ ''_'' @ show_nat (index + 1)"

definition list_connections :: "snapshot \<Rightarrow> connection list" where
  "list_connections sn = sort_key cn_priority (map public (sn_connections sn))"

definition list_connections_with_secrets :: "snapshot \<Rightarrow> connection list" where
  "list_connections_with_secrets sn = sort_key cn_priority (filter cn_is_active (sn_connections sn))"

definition get_connection :: "string \<Rightarrow> snapshot \<Rightarrow> connection option" where
  "get_connection cid sn = map_option public (find (\<lambda>c. cn_id c = cid) (sn_connections sn))"

definition create_connection ::
    "nat \<Rightarrow> nat \<Rightarrow> connection_input \<Rightarrow> snapshot \<Rightarrow> connection \<times> snapshot" where
  "create_connection now_ms id_ms rq sn =
     (let now = millis_to_iso now_ms;
          provider_count = length (filter (\<lambda>c. cn_provider c = ci_provider rq) (sn_connections sn));
          priority = opt_default (min (provider_count + 1) u32_max) (ci_priority rq);
          connection = \<lparr>
            cn_id = next_id id_ms ''conn'' (length (sn_connections sn)),
            cn_provider = ci_provider rq,
            cn_auth_type = opt_default ''apikey'' (ci_auth_type rq),
            cn_name = ci_name rq,
            cn_priority = priority,
            cn_is_active = opt_default True (ci_is_active rq),
            cn_created_at = now,
            cn_updated_at = now,
            cn_email = ci_email rq,
            cn_global_priority = ci_global_priority rq,
            cn_default_model = ci_default_model rq,
            cn_test_status = opt_or (ci_test_status rq) (Some ''unknown''),
            cn_last_error = ci_last_error rq,
            cn_last_error_at = ci_last_error_at rq,
            cn_provider_specific_data = ci_provider_specific_data rq,
            cn_api_key = ci_api_key rq,
            cn_access_token = ci_access_token rq,
            cn_refresh_token = ci_refresh_token rq,
            cn_expires_at = ci_expires_at rq,
            cn_last_used_at = None,
            cn_consecutive_use_count = 0,
            cn_backoff_level = 0,
            cn_error_code = None,
            cn_model_locks = []\<rparr>;
          same = (\<lambda>e. cn_provider e = cn_provider connection \<and> cn_auth_type e = ''apikey''
                       \<and> cn_name e = cn_name connection)
      in case find same (sn_connections sn) of
           Some existing \<Rightarrow>
             (public (merge_connection existing connection),
              sn\<lparr>sn_connections :=
                update_first same (\<lambda>e. merge_connection e connection) (sn_connections sn)\<rparr>)
         | None \<Rightarrow>
             (public connection, sn\<lparr>sn_connections := sn_connections sn @ [connection]\<rparr>))"

definition apply_connection_update :: "nat \<Rightarrow> connection_update \<Rightarrow> connection \<Rightarrow> connection" where
  "apply_connection_update now_ms u c = c\<lparr>
     cn_name := opt_default (cn_name c) (cu_name u),
     cn_priority := opt_default (cn_priority c) (cu_priority u),
     cn_global_priority := opt_or (cu_global_priority u) (cn_global_priority c),
     cn_default_model := opt_or (cu_default_model u) (cn_default_model c),
     cn_is_active := opt_default (cn_is_active c) (cu_is_active u),
     cn_api_key := opt_or (cu_api_key u) (cn_api_key c),
     cn_test_status := opt_or (cu_test_status u) (cn_test_status c),
     cn_last_error := opt_or (cu_last_error u) (cn_last_error c),
     cn_last_error_at := opt_or (cu_last_error_at u) (cn_last_error_at c),
     cn_provider_specific_data := opt_or (cu_provider_specific_data u) (cn_provider_specific_data c),
     cn_updated_at := millis_to_iso now_ms\<rparr>"

definition update_connection ::
    "nat \<Rightarrow> string \<Rightarrow> connection_update \<Rightarrow> snapshot \<Rightarrow> connection option \<times> snapshot" where
  "update_connection now_ms cid u sn =
     (case find (\<lambda>c. cn_id c = cid) (sn_connections sn) of
        None \<Rightarrow> (None, sn)
      | Some c \<Rightarrow> (Some (public (apply_connection_update now_ms u c)),
          sn\<lparr>sn_connections :=
            update_first (\<lambda>c. cn_id c = cid) (apply_connection_update now_ms u) (sn_connections sn)\<rparr>))"

definition delete_connection :: "string \<Rightarrow> snapshot \<Rightarrow> bool \<times> snapshot" where
  "delete_connection cid sn =
     (let kept = filter (\<lambda>c. cn_id c \<noteq> cid) (sn_connections sn)
      in (length kept \<noteq> length (sn_connections sn), sn\<lparr>sn_connections := kept\<rparr>))"

definition apply_credentials :: "nat \<Rightarrow> credential_update \<Rightarrow> connection \<Rightarrow> connection" where
  "apply_credentials now_ms u c = c\<lparr>
     cn_access_token := opt_or (cr_access_token u) (cn_access_token c),
     cn_refresh_token := opt_or (cr_refresh_token u) (cn_refresh_token c),
     cn_expires_at := opt_or (cr_expires_at u) (cn_expires_at c),
     cn_provider_specific_data :=
       (case cr_provider_specific_data u of
          None \<Rightarrow> cn_provider_specific_data c
        | Some incoming \<Rightarrow> Some (fold (\<lambda>(k, v). bt_insert k v) incoming
                              (opt_default [] (cn_provider_specific_data c)))),
     cn_updated_at := millis_to_iso now_ms\<rparr>"

definition update_connection_credentials ::
    "nat \<Rightarrow> string \<Rightarrow> credential_update \<Rightarrow> snapshot \<Rightarrow> bool \<times> snapshot" where
  "update_connection_credentials now_ms connection_id u sn =
     (if \<exists>c \<in> set (sn_connections sn). cn_id c = connection_id
      then (True, sn\<lparr>sn_connections :=
              update_first (\<lambda>c. cn_id c = connection_id) (apply_credentials now_ms u)
                (sn_connections sn)\<rparr>)
      else (False, sn))"

section \<open>Combos, proxy pools and model settings\<close>

definition combo_id_of :: "nat \<Rightarrow> string" where
  "combo_id_of index = ''combo_'' @ show_nat index"

lemma show_nat_inj: "show_nat a = show_nat b \<longleftrightarrow> a = b"
  by (metis digits_val_show_nat)

lemma combo_id_of_inj: "combo_id_of a = combo_id_of b \<longleftrightarrow> a = b"
  by (simp add: combo_id_of_def show_nat_inj)

text \<open>The loop of \<open>next_combo_id\<close>: it ends because only finitely many names are taken.\<close>

lemma finite_taken: "finite {i::nat. n \<le> i \<and> combo_id_of i \<in> set ids}"
proof -
  have "finite (combo_id_of -` set ids)"
    by (rule finite_vimageI) (auto simp: inj_on_def combo_id_of_inj)
  then show ?thesis by (rule rev_finite_subset) auto
qed

function next_combo_from :: "string list \<Rightarrow> nat \<Rightarrow> string" where
  "next_combo_from ids index =
     (if combo_id_of index \<in> set ids then next_combo_from ids (index + 1)
      else combo_id_of index)"
  by pat_completeness auto
termination
proof (relation "measure (\<lambda>(ids, n). card {i. n \<le> i \<and> combo_id_of i \<in> set ids})")
  fix ids :: "string list" and n :: nat
  assume "combo_id_of n \<in> set ids"
  then have "n \<in> {i. n \<le> i \<and> combo_id_of i \<in> set ids}" by simp
  moreover have "n \<notin> {i. n + 1 \<le> i \<and> combo_id_of i \<in> set ids}" by simp
  moreover have
    "{i. n + 1 \<le> i \<and> combo_id_of i \<in> set ids} \<subseteq> {i. n \<le> i \<and> combo_id_of i \<in> set ids}"
    by auto
  ultimately have
    "{i. n + 1 \<le> i \<and> combo_id_of i \<in> set ids} \<subset> {i. n \<le> i \<and> combo_id_of i \<in> set ids}"
    by blast
  then show "((ids, n + 1), (ids, n)) \<in>
      measure (\<lambda>(ids, n). card {i. n \<le> i \<and> combo_id_of i \<in> set ids})"
    using psubset_card_mono [OF finite_taken] by simp
qed auto

declare next_combo_from.simps [simp del]

definition next_combo_id :: "combo list \<Rightarrow> string" where
  "next_combo_id combos = next_combo_from (map cb_id combos) (length combos + 1)"

lemma next_combo_from_fresh: "next_combo_from ids n \<notin> set ids"
proof (induction ids n rule: next_combo_from.induct)
  case (1 ids n)
  then show ?case
    by (cases "combo_id_of n \<in> set ids") (simp_all add: next_combo_from.simps [of ids n])
qed

definition create_combo ::
    "nat \<Rightarrow> string \<Rightarrow> string option \<Rightarrow> string list \<Rightarrow> snapshot \<Rightarrow> combo \<times> snapshot" where
  "create_combo now_ms name kind models sn =
     (let now = millis_to_iso now_ms;
          combo = \<lparr>cb_id = next_combo_id (sn_combos sn), cb_name = name, cb_kind = kind,
                   cb_models = models, cb_created_at = now, cb_updated_at = now\<rparr>
      in (combo, sn\<lparr>sn_combos := sn_combos sn @ [combo]\<rparr>))"

record combo_update =
  bu_name :: "string option"
  bu_kind_set :: bool
  bu_kind :: "string option"
  bu_models :: "string list option"

definition apply_combo_update :: "nat \<Rightarrow> combo_update \<Rightarrow> combo \<Rightarrow> combo" where
  "apply_combo_update now_ms u c = c\<lparr>
     cb_name := opt_default (cb_name c) (bu_name u),
     cb_kind := (if bu_kind_set u then bu_kind u else cb_kind c),
     cb_models := opt_default (cb_models c) (bu_models u),
     cb_updated_at := millis_to_iso now_ms\<rparr>"

definition update_combo ::
    "nat \<Rightarrow> string \<Rightarrow> combo_update \<Rightarrow> snapshot \<Rightarrow> combo option \<times> snapshot" where
  "update_combo now_ms cid u sn =
     (case find (\<lambda>c. cb_id c = cid) (sn_combos sn) of
        None \<Rightarrow> (None, sn)
      | Some c \<Rightarrow> (Some (apply_combo_update now_ms u c),
          sn\<lparr>sn_combos := update_first (\<lambda>c. cb_id c = cid) (apply_combo_update now_ms u)
              (sn_combos sn)\<rparr>))"

definition delete_combo :: "string \<Rightarrow> snapshot \<Rightarrow> bool \<times> snapshot" where
  "delete_combo cid sn =
     (let kept = filter (\<lambda>c. cb_id c \<noteq> cid) (sn_combos sn)
      in (length kept \<noteq> length (sn_combos sn), sn\<lparr>sn_combos := kept\<rparr>))"

definition combo_name_exists :: "string \<Rightarrow> string option \<Rightarrow> snapshot \<Rightarrow> bool" where
  "combo_name_exists name except_id sn \<longleftrightarrow>
     (\<exists>c \<in> set (sn_combos sn). cb_name c = name \<and>
        (case except_id of None \<Rightarrow> True | Some e \<Rightarrow> cb_id c \<noteq> e))"

datatype delete_proxy_pool_result = PoolInUse nat | PoolNotFound | PoolDeleted

definition bound_connection_count :: "connection list \<Rightarrow> string \<Rightarrow> nat" where
  "bound_connection_count connections proxy_pool_id =
     length (filter
       (\<lambda>c. Option.bind (Option.bind (cn_provider_specific_data c) (\<lambda>d. map_of d ''proxyPoolId''))
              as_str = Some proxy_pool_id) connections)"

definition delete_proxy_pool :: "string \<Rightarrow> snapshot \<Rightarrow> delete_proxy_pool_result \<times> snapshot" where
  "delete_proxy_pool cid sn =
     (let bound = bound_connection_count (sn_connections sn) cid
      in if bound > 0 then (PoolInUse bound, sn)
         else (let kept = filter (\<lambda>p. pp_id p \<noteq> cid) (sn_proxy_pools sn)
               in (if length kept = length (sn_proxy_pools sn) then PoolNotFound else PoolDeleted,
                   sn\<lparr>sn_proxy_pools := kept\<rparr>)))"

text \<open>\<open>sort\<close> then \<open>dedup\<close> (consecutive duplicates).\<close>

definition set_disabled_models :: "string \<Rightarrow> string list \<Rightarrow> snapshot \<Rightarrow> string list \<times> snapshot" where
  "set_disabled_models provider_alias ids sn =
     (let ids' = remdups_adj (sort (filter (\<lambda>i. i \<noteq> []) (map trim ids)))
      in (ids',
          if ids' = []
          then sn\<lparr>sn_disabled_models := bt_remove provider_alias (sn_disabled_models sn)\<rparr>
          else sn\<lparr>sn_disabled_models := bt_insert provider_alias ids' (sn_disabled_models sn)\<rparr>))"

definition clear_disabled_models :: "string \<Rightarrow> snapshot \<Rightarrow> bool \<times> snapshot" where
  "clear_disabled_models provider_alias sn =
     (map_of (sn_disabled_models sn) provider_alias \<noteq> None,
      sn\<lparr>sn_disabled_models := bt_remove provider_alias (sn_disabled_models sn)\<rparr>)"

definition disabled_models_for :: "string \<Rightarrow> snapshot \<Rightarrow> string list" where
  "disabled_models_for provider_alias sn =
     opt_default [] (map_of (sn_disabled_models sn) provider_alias)"

definition add_custom_model ::
    "nat \<Rightarrow> string \<Rightarrow> string \<Rightarrow> string option \<Rightarrow> string option \<Rightarrow> snapshot
     \<Rightarrow> (custom_model \<times> bool) \<times> snapshot" where
  "add_custom_model now_ms provider_alias cid model_type name sn =
     (let same = (\<lambda>m. cm_provider_alias m = provider_alias \<and> cm_id m = cid);
          edit = (\<lambda>m. m\<lparr>cm_model_type := model_type, cm_name := name\<rparr>)
      in case find same (sn_custom_models sn) of
           Some m \<Rightarrow> ((edit m, False),
             sn\<lparr>sn_custom_models := update_first same edit (sn_custom_models sn)\<rparr>)
         | None \<Rightarrow>
             (let m = \<lparr>cm_provider_alias = provider_alias, cm_id = cid, cm_model_type = model_type,
                       cm_name = name, cm_created_at = millis_to_iso now_ms\<rparr>
              in ((m, True), sn\<lparr>sn_custom_models := sn_custom_models sn @ [m]\<rparr>)))"

definition delete_custom_model :: "string \<Rightarrow> string \<Rightarrow> snapshot \<Rightarrow> bool \<times> snapshot" where
  "delete_custom_model provider_alias cid sn =
     (let kept = filter (\<lambda>m. \<not> (cm_provider_alias m = provider_alias \<and> cm_id m = cid))
            (sn_custom_models sn)
      in (length kept \<noteq> length (sn_custom_models sn), sn\<lparr>sn_custom_models := kept\<rparr>))"

definition set_model_alias :: "string \<Rightarrow> string \<Rightarrow> snapshot \<Rightarrow> snapshot" where
  "set_model_alias alias model sn =
     sn\<lparr>sn_model_aliases := bt_insert alias model (sn_model_aliases sn)\<rparr>"

definition delete_model_alias :: "string \<Rightarrow> snapshot \<Rightarrow> bool \<times> snapshot" where
  "delete_model_alias alias sn =
     (map_of (sn_model_aliases sn) alias \<noteq> None,
      sn\<lparr>sn_model_aliases := bt_remove alias (sn_model_aliases sn)\<rparr>)"


section \<open>Lemmas of the operations\<close>

lemma mark_one_fields [simp]:
  "cn_id (mark_one now u c) = cn_id c"
  "cn_provider (mark_one now u c) = cn_provider c"
  "cn_is_active (mark_one now u c) = cn_is_active c"
  "cn_priority (mark_one now u c) = cn_priority c"
  "cn_model_locks (mark_one now u c) =
     bt_insert (opt_default MODEL_LOCK_ALL (mk_model u))
       (millis_to_iso (sat_add64 now (mk_cooldown_ms u))) (cn_model_locks c)"
  by (simp_all add: mark_one_def Let_def split: option.splits)

lemma clear_one_fields [simp]:
  "cn_id (clear_one now m c) = cn_id c"
  "cn_provider (clear_one now m c) = cn_provider c"
  "cn_is_active (clear_one now m c) = cn_is_active c"
  "cn_model_locks (clear_one now m c) = filter (keep_lock now m) (cn_model_locks c)"
  by (simp_all add: clear_one_def Let_def)

text \<open>A lock just written is active until its expiry.\<close>

lemma mark_one_locked:
  assumes "t < sat_add64 now (mk_cooldown_ms u)" "mk_model u = Some m"
  shows "is_locked (mark_one now u c) (Some m) t"
  using assms
  by (simp add: is_locked_alt lock_active_def map_simps iso_to_millis_to_iso)

lemma mark_connections:
  assumes "distinct (map cn_id (sn_connections sn))"
  shows "sn_connections (snd (mark_connection_unavailable now u sn)) =
     map (\<lambda>c. if cn_id c = mk_connection_id u then mark_one now u c else c) (sn_connections sn)"
  using update_first_distinct [OF assms]
  by (auto simp: mark_connection_unavailable_def intro!: map_idI [symmetric])

lemma select_result_cases:
  obtains (sel) c sn' i where
      "select_connection now_ms now rq sn = (Selected c, sn')"
      "i < length (sn_connections sn)" "eligible rq now_ms (sn_connections sn ! i)"
      "same_but_rotation (sn_connections sn ! i) c"
      "sn' = sn\<lparr>sn_connections := (sn_connections sn)[i := c]\<rparr>"
  | (none) "select_connection now_ms now rq sn = (NoCredentials, sn)"
      "\<forall>c \<in> set (sn_connections sn). \<not> matches rq c"
  | (blocked) "\<exists>c \<in> set (sn_connections sn). matches rq c"
      "\<forall>c \<in> set (sn_connections sn). \<not> eligible rq now_ms c"
  using select_cases [of sn rq now_ms] select_Selected select_no_credentials by metis

lemma map_filter_at:
  "\<forall>i \<in> set is. i < length xs \<Longrightarrow> List.map_filter (at xs) is = map ((!) xs) is"
  by (induction "is") (auto simp: List.map_filter_simps)

lemma select_blocked:
  assumes "\<exists>c \<in> set (sn_connections sn). matches rq c"
    "\<forall>c \<in> set (sn_connections sn). \<not> eligible rq now_ms c"
  defines "locked \<equiv> filter (\<lambda>c. is_locked c (rq_model rq) now_ms)
      (map ((!) (sn_connections sn)) (matching_indices (sn_connections sn) (rq_provider rq)))"
  shows "set locked = {c \<in> set (sn_connections sn). matches rq c \<and> is_locked c (rq_model rq) now_ms}"
    and "locked = [] \<Longrightarrow> select_connection now_ms now rq sn = (Exhausted, sn)"
    and "locked \<noteq> [] \<Longrightarrow> \<exists>t. select_connection now_ms now rq sn =
           (AllRateLimited t (cn_last_error (hd locked)) (cn_error_code (hd locked)), sn)
         \<and> now_ms < t \<and> (\<exists>c \<in> set locked. earliest_lock_ms c now_ms = Some t)
         \<and> (\<forall>c \<in> set locked. \<forall>u. earliest_lock_ms c now_ms = Some u \<longrightarrow> t \<le> u)"
proof -
  let ?cs = "sn_connections sn"
  let ?es = "List.map_filter (\<lambda>c. earliest_lock_ms c now_ms) locked"
  have m: "matching_indices ?cs (rq_provider rq) \<noteq> []" using assms(1) by (simp add: matching_Nil)
  have av: "available_indices ?cs rq now_ms = []" using assms(2) by (simp add: available_Nil)
  have mf: "List.map_filter (at ?cs) (matching_indices ?cs (rq_provider rq)) =
      map ((!) ?cs) (matching_indices ?cs (rq_provider rq))"
    by (rule map_filter_at) (simp add: matching_indices_iff)
  show "set locked = {c \<in> set ?cs. matches rq c \<and> is_locked c (rq_model rq) now_ms}"
    unfolding locked_def using matching_indices_iff [of _ ?cs rq]
    by (auto simp: image_iff in_set_conv_nth)
  have sel: "select_connection now_ms now rq sn =
      (case min_by_key (\<lambda>e. e) ?es of None \<Rightarrow> (Exhausted, sn)
       | Some t \<Rightarrow> (AllRateLimited t
            (Option.bind (case locked of [] \<Rightarrow> None | c # _ \<Rightarrow> Some c) cn_last_error)
            (Option.bind (case locked of [] \<Rightarrow> None | c # _ \<Rightarrow> Some c) cn_error_code), sn))"
    using m av mf unfolding locked_def
    by (simp add: select_connection_def Let_def split: option.splits)
  then show "locked = [] \<Longrightarrow> select_connection now_ms now rq sn = (Exhausted, sn)"
    by (simp add: List.map_filter_simps)
  assume ne: "locked \<noteq> []"
  have es: "e \<in> set ?es \<longleftrightarrow> (\<exists>c \<in> set locked. earliest_lock_ms c now_ms = Some e)" for e
    by (force simp: List.map_filter_def)
  have "is_locked (hd locked) (rq_model rq) now_ms"
    using hd_in_set [OF ne] by (simp add: locked_def)
  then have "?es \<noteq> []"
    using locked_has_earliest es ne by (metis hd_in_set length_pos_if_in_set list.size(3) less_irrefl)
  then obtain t where t: "min_by_key (\<lambda>e. e) ?es = Some t" using min_by_key_Some by blast
  from min_by_key_in [OF t] obtain c where c: "c \<in> set locked" "earliest_lock_ms c now_ms = Some t"
    using es by blast
  have "is_locked c (rq_model rq) now_ms" using c(1) by (simp add: locked_def)
  then have "now_ms < t" using locked_has_earliest [of c] c(2) by fastforce
  moreover have "\<forall>c \<in> set locked. \<forall>u. earliest_lock_ms c now_ms = Some u \<longrightarrow> t \<le> u"
    using min_by_key_least [OF t] es by blast
  moreover have "select_connection now_ms now rq sn =
      (AllRateLimited t (cn_last_error (hd locked)) (cn_error_code (hd locked)), sn)"
    using sel t ne by (cases locked) simp_all
  ultimately show "\<exists>t. select_connection now_ms now rq sn =
           (AllRateLimited t (cn_last_error (hd locked)) (cn_error_code (hd locked)), sn)
         \<and> now_ms < t \<and> (\<exists>c \<in> set locked. earliest_lock_ms c now_ms = Some t)
         \<and> (\<forall>c \<in> set locked. \<forall>u. earliest_lock_ms c now_ms = Some u \<longrightarrow> t \<le> u)"
    using c by blast
qed

lemma select_no_credentials_iff:
  "fst (select_connection now_ms now rq sn) = NoCredentials \<longleftrightarrow>
   (\<forall>c \<in> set (sn_connections sn). \<not> matches rq c)"
proof (cases rule: select_result_cases [of now_ms now rq sn])
  case (sel c sn' i)
  then show ?thesis by (auto simp: eligible_def)
next
  case none
  then show ?thesis by simp
next
  case blocked
  show ?thesis
    using select_blocked(2,3) [OF blocked, of now] blocked(1)
    by (cases "filter (\<lambda>c. is_locked c (rq_model rq) now_ms) (map ((!) (sn_connections sn))
          (matching_indices (sn_connections sn) (rq_provider rq))) = []") auto
qed

end
