(* ===== verification/Store_Properties.thy ===== *)
theory Store_Properties
  imports Connection_Store
begin

text \<open>
  What the store promises: which account a selection may return and when it fails, how marking an
  account unavailable and clearing its error act on later selections, what every mutation keeps of
  the store's invariant, and that secrets never leave through the public reads. The samples at the
  start are the concrete inputs of the witnesses.
\<close>

section \<open>Samples\<close>

definition sample_connection :: "string \<Rightarrow> string \<Rightarrow> nat \<Rightarrow> connection" where
  "sample_connection cid provider priority = \<lparr>
     cn_id = cid, cn_provider = provider, cn_auth_type = ''apikey'', cn_name = cid,
     cn_priority = priority, cn_is_active = True, cn_created_at = ''unix-ms:1'',
     cn_updated_at = ''unix-ms:1'', cn_email = None, cn_global_priority = None,
     cn_default_model = None, cn_test_status = None, cn_last_error = None,
     cn_last_error_at = None, cn_provider_specific_data = None, cn_api_key = Some ''sk-1'',
     cn_access_token = None, cn_refresh_token = None, cn_expires_at = None,
     cn_last_used_at = None, cn_consecutive_use_count = 0, cn_backoff_level = 0,
     cn_error_code = None, cn_model_locks = []\<rparr>"

definition sample_request :: select_request where
  "sample_request = \<lparr>rq_provider = ''glm'', rq_model = Some ''m'', rq_exclude = [],
     rq_preferred = None, rq_strategy = FillFirst, rq_sticky_limit = 1\<rparr>"

definition sample_snapshot :: snapshot where
  "sample_snapshot = \<lparr>
     sn_connections = [sample_connection ''a'' ''glm'' 2, sample_connection ''b'' ''glm'' 1,
                       sample_connection ''x'' ''kiro'' 1],
     sn_combos = [], sn_proxy_pools = [], sn_disabled_models = [], sn_custom_models = [],
     sn_model_aliases = []\<rparr>"

definition sample_mark :: mark_request where
  "sample_mark = \<lparr>mk_connection_id = ''b'', mk_model = Some ''m'', mk_status = 429,
     mk_reason = ''slow down'', mk_cooldown_ms = 2000, mk_backoff_level = Some 1\<rparr>"

lemmas sample_defs = sample_connection_def sample_request_def sample_snapshot_def sample_mark_def

lemma sample_facts [simp]:
  "cn_id (sample_connection i p n) = i" "cn_provider (sample_connection i p n) = p"
  "cn_priority (sample_connection i p n) = n" "cn_is_active (sample_connection i p n)"
  "cn_model_locks (sample_connection i p n) = []"
  "cn_last_used_at (sample_connection i p n) = None"
  "\<not> is_locked (sample_connection i p n) m t"
  "cn_provider_specific_data (sample_connection i p n) = None"
  by (auto simp: sample_connection_def is_locked_def Let_def split: Option.bind_splits option.splits)

section \<open>Selection\<close>

text \<open>
  The contract of \<open>select_connection\<close>, stated over the set of connections only: what each
  outcome says of the store.
\<close>

definition select_spec ::
    "nat \<Rightarrow> select_request \<Rightarrow> snapshot \<Rightarrow> connection_selection \<times> snapshot \<Rightarrow> bool" where
  "select_spec now_ms rq sn out \<longleftrightarrow>
     (let cs = sn_connections sn in
      case fst out of
        Selected c \<Rightarrow>
          \<exists>i < length cs. eligible rq now_ms (cs ! i) \<and> same_but_rotation (cs ! i) c
            \<and> snd out = sn\<lparr>sn_connections := cs[i := c]\<rparr>
      | NoCredentials \<Rightarrow> (\<forall>c \<in> set cs. \<not> matches rq c) \<and> snd out = sn
      | AllRateLimited t last_error error_code \<Rightarrow>
          (\<forall>c \<in> set cs. \<not> eligible rq now_ms c) \<and> now_ms < t
            \<and> (\<exists>c \<in> set cs. matches rq c \<and> is_locked c (rq_model rq) now_ms
                  \<and> earliest_lock_ms c now_ms = Some t)
            \<and> (\<forall>c \<in> set cs. matches rq c \<and> is_locked c (rq_model rq) now_ms
                  \<longrightarrow> (\<exists>u. earliest_lock_ms c now_ms = Some u \<and> t \<le> u))
            \<and> (\<exists>c \<in> set cs. matches rq c \<and> is_locked c (rq_model rq) now_ms
                  \<and> cn_last_error c = last_error \<and> cn_error_code c = error_code)
            \<and> snd out = sn
      | Exhausted \<Rightarrow>
          (\<exists>c \<in> set cs. matches rq c)
            \<and> (\<forall>c \<in> set cs. matches rq c \<longrightarrow>
                  cn_id c \<in> set (rq_exclude rq) \<and> \<not> is_locked c (rq_model rq) now_ms)
            \<and> snd out = sn)"

lemma select_meets_spec_aux: "select_spec now_ms rq sn (select_connection now_ms now rq sn)"
proof (cases rule: select_result_cases [of now_ms now rq sn])
  case (sel c sn' i)
  then show ?thesis unfolding select_spec_def Let_def by simp blast
next
  case none
  then show ?thesis by (simp add: select_spec_def)
next
  case blocked
  define locked where "locked = filter (\<lambda>c. is_locked c (rq_model rq) now_ms)
      (map ((!) (sn_connections sn)) (matching_indices (sn_connections sn) (rq_provider rq)))"
  have locked: "c \<in> set locked \<longleftrightarrow>
      c \<in> set (sn_connections sn) \<and> matches rq c \<and> is_locked c (rq_model rq) now_ms" for c
    using select_blocked(1) [OF blocked] unfolding locked_def [symmetric] by blast
  show ?thesis
  proof (cases "locked = []")
    case True
    then have "select_connection now_ms now rq sn = (Exhausted, sn)"
      using select_blocked(2) [OF blocked] unfolding locked_def [symmetric] by blast
    moreover have "\<not> is_locked c (rq_model rq) now_ms"
      if "c \<in> set (sn_connections sn)" "matches rq c" for c
      using locked [of c] True that by simp
    ultimately show ?thesis using blocked by (auto simp: select_spec_def eligible_def)
  next
    case False
    with select_blocked(3) [OF blocked, folded locked_def] obtain t c where
      t: "select_connection now_ms now rq sn =
            (AllRateLimited t (cn_last_error (hd locked)) (cn_error_code (hd locked)), sn)"
         "now_ms < t" "c \<in> set locked" "earliest_lock_ms c now_ms = Some t"
         "\<forall>c \<in> set locked. \<forall>u. earliest_lock_ms c now_ms = Some u \<longrightarrow> t \<le> u"
      by blast
    have "\<exists>u. earliest_lock_ms d now_ms = Some u \<and> t \<le> u" if "d \<in> set locked" for d
      using locked_has_earliest [of d "rq_model rq" now_ms] t(5) that locked [of d] by blast
    moreover have "hd locked \<in> set locked" using False by simp
    ultimately show ?thesis
      using t(1-4) blocked(2) unfolding locked select_spec_def Let_def
      by (simp add: prod_eq_iff) blast
  qed
qed

subsection \<open>The contract over the lock table\<close>

text \<open>
  The locks as the table itself says, without the lookup of the code: an entry runs while its expiry
  lies in the future; an account cools down for a model when the entry of the model or the
  account-wide entry runs. The comment above \<open>is_locked\<close> says the account-wide entry applies to every
  model. The code lets an entry of the model that runs no more hide it: \<open>account_entry_hidden\<close>.
\<close>

definition entry_runs :: "connection \<Rightarrow> string \<Rightarrow> nat \<Rightarrow> bool" where
  "entry_runs c key now_ms \<longleftrightarrow>
     (\<exists>expiry t. map_of (cn_model_locks c) key = Some expiry \<and> iso_to_millis expiry = Some t
        \<and> now_ms < t)"

definition cooling_down :: "connection \<Rightarrow> string option \<Rightarrow> nat \<Rightarrow> bool" where
  "cooling_down c model now_ms \<longleftrightarrow>
     (\<exists>m. model = Some m \<and> entry_runs c m now_ms) \<or> entry_runs c MODEL_LOCK_ALL now_ms"

definition account_entry_hidden :: "connection \<Rightarrow> string option \<Rightarrow> nat \<Rightarrow> bool" where
  "account_entry_hidden c model now_ms \<longleftrightarrow>
     (\<exists>m expiry. model = Some m \<and> map_of (cn_model_locks c) m = Some expiry
        \<and> \<not> entry_runs c m now_ms)"

lemma is_locked_cooling:
  "is_locked c model now_ms \<longleftrightarrow>
     cooling_down c model now_ms \<and> \<not> account_entry_hidden c model now_ms"
proof (cases model)
  case None
  then show ?thesis
    by (auto simp: is_locked_def Let_def cooling_down_def account_entry_hidden_def entry_runs_def
        split: option.splits)
next
  case (Some m)
  show ?thesis
  proof (cases "map_of (cn_model_locks c) m")
    case None
    with Some show ?thesis
      by (auto simp: is_locked_def Let_def cooling_down_def account_entry_hidden_def entry_runs_def
          split: option.splits)
  next
    case (Some e)
    with \<open>model = Some m\<close> show ?thesis
      by (auto simp: is_locked_def Let_def cooling_down_def account_entry_hidden_def entry_runs_def
          split: option.splits)
  qed
qed

definition select_contract ::
    "nat \<Rightarrow> select_request \<Rightarrow> snapshot \<Rightarrow> connection_selection \<times> snapshot \<Rightarrow> bool" where
  "select_contract now_ms rq sn out \<longleftrightarrow>
     (let cs = sn_connections sn;
          candidate = (\<lambda>c. cn_provider c = rq_provider rq \<and> cn_is_active c);
          excluded = (\<lambda>c. cn_id c \<in> set (rq_exclude rq));
          cooling = (\<lambda>c. cooling_down c (rq_model rq) now_ms);
          hidden = (\<lambda>c. account_entry_hidden c (rq_model rq) now_ms)
      in case fst out of
        Selected c \<Rightarrow>
          (\<exists>i < length cs. candidate (cs ! i) \<and> \<not> excluded (cs ! i)
            \<and> (cooling (cs ! i) \<longrightarrow> hidden (cs ! i))
            \<and> same_but_rotation (cs ! i) c \<and> snd out = sn\<lparr>sn_connections := cs[i := c]\<rparr>)
      | NoCredentials \<Rightarrow> (\<forall>c \<in> set cs. \<not> candidate c) \<and> snd out = sn
      | AllRateLimited t last_error error_code \<Rightarrow>
          (\<forall>c \<in> set cs. candidate c \<longrightarrow> excluded c \<or> cooling c \<and> \<not> hidden c)
            \<and> (let locked = {c \<in> set cs. candidate c \<and> cooling c \<and> \<not> hidden c}
               in (\<exists>c \<in> locked. earliest_lock_ms c now_ms = Some t)
                 \<and> (\<forall>c \<in> locked. \<exists>u. earliest_lock_ms c now_ms = Some u \<and> t \<le> u)
                 \<and> (\<exists>c \<in> locked. cn_last_error c = last_error \<and> cn_error_code c = error_code))
            \<and> now_ms < t \<and> snd out = sn
      | Exhausted \<Rightarrow>
          (\<exists>c \<in> set cs. candidate c)
            \<and> (\<forall>c \<in> set cs. candidate c \<longrightarrow> excluded c \<and> (cooling c \<longrightarrow> hidden c))
            \<and> snd out = sn)"

lemma select_spec_contract:
  assumes "select_spec now_ms rq sn out"
  shows "select_contract now_ms rq sn out"
proof (cases "fst out")
  case (Selected c)
  with assms show ?thesis
    unfolding select_spec_def select_contract_def Let_def eligible_def matches_def is_locked_cooling
    by auto
next
  case NoCredentials
  with assms show ?thesis
    unfolding select_spec_def select_contract_def Let_def matches_def by auto
next
  case (AllRateLimited t le ec)
  with assms show ?thesis
    unfolding select_spec_def select_contract_def Let_def eligible_def matches_def is_locked_cooling
    by simp blast
next
  case Exhausted
  with assms show ?thesis
    unfolding select_spec_def select_contract_def Let_def matches_def is_locked_cooling by auto
qed

text \<open>C1: Every outcome of \<open>select_connection\<close> means what its name says, with one exception the code
  makes. A selected connection is an active one of the provider, not excluded and not cooling down for
  the model; the exception: a lock entry of the model that has expired hides a running account-wide
  lock, against the comment on \<open>is_locked\<close>. Only its rotation fields may have been written.
  \<open>NoCredentials\<close>: no active connection of the provider. \<open>AllRateLimited\<close>: every candidate is excluded
  or cooling down, and the future instant it carries is the earliest expiry any locked candidate has,
  whatever the model of that entry; the error it carries is a locked candidate's. \<open>Exhausted\<close>: every candidate was tried and none is cooling down, the same
  exception aside. The three failures leave the store as it was. Cooling down is read off the lock
  table itself, not through the lookup of the code.\<close>

theorem select_meets_spec: "select_contract now_ms rq sn (select_connection now_ms now rq sn)"
  by (rule select_spec_contract [OF select_meets_spec_aux])

theorem select_meets_spec_witness:
  "select_contract 5 sample_request sample_snapshot
     (select_connection 5 ''unix-ms:5'' sample_request sample_snapshot) \<and>
   fst (select_connection 5 ''unix-ms:5'' sample_request sample_snapshot)
     = Selected (sample_connection ''b'' ''glm'' 1)"
proof
  show "select_contract 5 sample_request sample_snapshot
     (select_connection 5 ''unix-ms:5'' sample_request sample_snapshot)"
    by (rule select_meets_spec)
  show "fst (select_connection 5 ''unix-ms:5'' sample_request sample_snapshot)
     = Selected (sample_connection ''b'' ''glm'' 1)"
    by code_simp
qed

text \<open>Completeness follows: a selection succeeds exactly when some connection is eligible.\<close>

lemma select_iff_eligible:
  "(\<exists>c. fst (select_connection now_ms now rq sn) = Selected c) \<longleftrightarrow>
   (\<exists>c \<in> set (sn_connections sn). eligible rq now_ms c)"
proof (cases rule: select_result_cases [of now_ms now rq sn])
  case (sel c sn' i)
  then show ?thesis by (metis fst_conv nth_mem)
next
  case none
  then show ?thesis by (auto simp: eligible_def)
next
  case blocked
  then have "\<not> eligible rq now_ms c" if "c \<in> set (sn_connections sn)" for c
    using that by blast
  moreover have "fst (select_connection now_ms now rq sn) \<noteq> Selected c" for c
    using select_meets_spec_aux [of now_ms rq sn now] blocked(2)
    by (auto simp: select_spec_def Let_def)
  ultimately show ?thesis by blast
qed

subsection \<open>The choice among the eligible connections\<close>

text \<open>
  The strategies on the list of candidates, without indices: a pinned account first; then the
  smallest priority, or the rotation, which stays on the latest used account for
  \<open>sticky_limit\<close> requests and moves to the least recently used one.
\<close>

definition rotated :: "string \<Rightarrow> nat \<Rightarrow> connection \<Rightarrow> connection" where
  "rotated now n c = c\<lparr>cn_consecutive_use_count := n, cn_last_used_at := Some now\<rparr>"

definition lru_key :: "connection \<Rightarrow> bool \<times> string \<times> nat" where
  "lru_key c = (cn_last_used_at c \<noteq> None, opt_default [] (cn_last_used_at c), cn_priority c)"

definition sticky_choice :: "nat \<Rightarrow> connection list \<Rightarrow> connection option" where
  "sticky_choice limit cands =
     Option.bind (max_by_key (\<lambda>c. opt_default [] (cn_last_used_at c))
                   (filter (\<lambda>c. cn_last_used_at c \<noteq> None) cands))
       (\<lambda>c. if cn_consecutive_use_count c < limit then Some c else None)"

definition choose_spec :: "select_request \<Rightarrow> string \<Rightarrow> connection list \<Rightarrow> connection option" where
  "choose_spec rq now cands =
     (case Option.bind (rq_preferred rq) (\<lambda>wanted. find (\<lambda>c. cn_id c = wanted) cands) of
        Some c \<Rightarrow> Some c
      | None \<Rightarrow>
          (case rq_strategy rq of
             FillFirst \<Rightarrow> min_by_key cn_priority cands
           | RoundRobin \<Rightarrow>
               (case sticky_choice (rq_sticky_limit rq) cands of
                  Some c \<Rightarrow> Some (rotated now (sat_add32 (cn_consecutive_use_count c) 1) c)
                | None \<Rightarrow> map_option (rotated now 1) (min_by_key lru_key cands))))"

lemma candidates_by_index:
  "map ((!) (sn_connections sn)) (available_indices (sn_connections sn) rq now_ms) =
     filter (eligible rq now_ms) (sn_connections sn)"
proof -
  let ?cs = "sn_connections sn"
  have "available_indices ?cs rq now_ms = filter (\<lambda>i. eligible rq now_ms (?cs ! i)) [0..<length ?cs]"
    unfolding available_indices_def matching_indices_def filter_filter
    by (rule filter_cong) (auto simp: eligible_def matches_def)
  then have "map ((!) ?cs) (available_indices ?cs rq now_ms) =
      filter (eligible rq now_ms) (map ((!) ?cs) [0..<length ?cs])"
    by (simp add: filter_map o_def)
  then show ?thesis by (simp only: map_nth)
qed

lemma rr_stay_candidates:
  assumes "\<forall>i \<in> set av. i < length cs"
  shows "map_option ((!) cs) (rr_stay cs av limit) = sticky_choice limit (map ((!) cs) av)"
proof -
  have used: "filter (\<lambda>i. case at cs i of None \<Rightarrow> False | Some c \<Rightarrow> cn_last_used_at c \<noteq> None) av =
      filter (\<lambda>i. cn_last_used_at (cs ! i) \<noteq> None) av" (is "_ = ?used")
    using assms by (intro filter_cong) auto
  have key: "max_by_key (\<lambda>i. opt_default [] (Option.bind (at cs i) cn_last_used_at)) ?used =
      max_by_key (\<lambda>i. opt_default [] (cn_last_used_at (cs ! i))) ?used"
    using assms by (intro max_by_key_cong) auto
  show ?thesis
  proof (cases "max_by_key (\<lambda>i. opt_default [] (cn_last_used_at (cs ! i))) ?used")
    case None
    then show ?thesis
      unfolding rr_stay_def sticky_choice_def Let_def used key max_by_key_map filter_map o_def
      by (simp del: max_by_key_None)
  next
    case (Some i)
    then have "i < length cs" using max_by_key_in [OF Some] assms by auto
    with Some show ?thesis
      unfolding rr_stay_def sticky_choice_def Let_def used key max_by_key_map filter_map o_def
      by simp
  qed
qed

lemma pick_round_robin_candidates:
  assumes "\<forall>i \<in> set av. i < length cs" "av \<noteq> []"
    "pick_round_robin cs av limit now = (chosen, cs')"
  shows "at cs' chosen =
     (case sticky_choice limit (map ((!) cs) av) of
        Some c \<Rightarrow> Some (rotated now (sat_add32 (cn_consecutive_use_count c) 1) c)
      | None \<Rightarrow> map_option (rotated now 1) (min_by_key lru_key (map ((!) cs) av)))"
proof (cases "rr_stay cs av limit")
  case (Some i)
  have "chosen < length cs" using pick_round_robin_in(1) [OF assms(2,1,3)] assms(1) by blast
  moreover have "chosen = i" using Some assms(3) by (simp add: pick_round_robin_def Let_def)
  moreover have "sticky_choice limit (map ((!) cs) av) = Some (cs ! i)"
    using rr_stay_candidates [OF assms(1), of limit] Some by simp
  ultimately show ?thesis
    using assms(3) Some by (auto simp: pick_round_robin_def Let_def rotated_def)
next
  case None
  have lt: "chosen < length cs" using pick_round_robin_in(1) [OF assms(2,1,3)] assms(1) by blast
  have "min_by_key (rr_key cs) av = min_by_key (\<lambda>i. lru_key (cs ! i)) av"
    using assms(1) by (intro min_by_key_cong) (auto simp: rr_key_def lru_key_def)
  moreover obtain i where i: "min_by_key (\<lambda>i. lru_key (cs ! i)) av = Some i"
    using min_by_key_Some assms(2) by blast
  moreover have "sticky_choice limit (map ((!) cs) av) = None"
    using rr_stay_candidates [OF assms(1), of limit] None by simp
  ultimately show ?thesis
    using lt assms(3) None
    by (auto simp: pick_round_robin_def Let_def rotated_def min_by_key_map)
qed

lemma selected_by_spec:
  assumes "\<exists>c \<in> set (sn_connections sn). eligible rq now_ms c"
  shows "map_option Selected (choose_spec rq now (filter (eligible rq now_ms) (sn_connections sn))) =
     Some (fst (select_connection now_ms now rq sn))"
proof -
  let ?cs = "sn_connections sn"
  let ?av = "available_indices ?cs rq now_ms"
  let ?cands = "map ((!) ?cs) ?av"
  have av: "?av \<noteq> []" using assms by (simp add: available_Nil)
  have m: "matching_indices ?cs (rq_provider rq) \<noteq> []"
    using assms by (auto simp: matching_Nil eligible_def)
  have lt: "\<forall>i \<in> set ?av. i < length ?cs" by (simp add: available_indices_iff)
  define pin where "pin = Option.bind (rq_preferred rq)
    (\<lambda>wanted. find (\<lambda>i. case at ?cs i of None \<Rightarrow> False | Some c \<Rightarrow> cn_id c = wanted) ?av)"
  have "find (\<lambda>i. case at ?cs i of None \<Rightarrow> False | Some c \<Rightarrow> cn_id c = w) ?av =
      find (\<lambda>i. cn_id (?cs ! i) = w) ?av" for w
    using lt by (intro find_cong') auto
  then have pin_spec: "Option.bind (rq_preferred rq) (\<lambda>w. find (\<lambda>c. cn_id c = w) ?cands) =
      map_option ((!) ?cs) pin"
    by (cases "rq_preferred rq") (simp_all add: pin_def find_map)
  have pin_lt: "i < length ?cs" if "pin = Some i" for i
    using that lt by (auto simp: pin_def split: Option.bind_splits dest!: find_in_set)
  have prio: "min_by_key (\<lambda>i. case at ?cs i of None \<Rightarrow> u32_max | Some c \<Rightarrow> cn_priority c) ?av =
      min_by_key (\<lambda>i. cn_priority (?cs ! i)) ?av"
    using lt by (intro min_by_key_cong) auto
  define choice where "choice = (case pin of Some i \<Rightarrow> (i, ?cs) | None \<Rightarrow>
      if rq_strategy rq = RoundRobin then pick_round_robin ?cs ?av (rq_sticky_limit rq) now
      else (opt_default 0 (min_by_key (\<lambda>i. cn_priority (?cs ! i)) ?av), ?cs))"
  have choice: "at (snd choice) (fst choice) = choose_spec rq now ?cands"
  proof (cases pin)
    case (Some i)
    then show ?thesis using pin_lt [OF Some] by (simp add: choice_def choose_spec_def pin_spec)
  next
    case None
    show ?thesis
    proof (cases "rq_strategy rq")
      case FillFirst
      obtain i where i: "min_by_key (\<lambda>i. cn_priority (?cs ! i)) ?av = Some i"
        using min_by_key_Some av by blast
      then have "i < length ?cs" using min_by_key_in [OF i] lt by blast
      with i None FillFirst show ?thesis
        by (simp add: choice_def choose_spec_def pin_spec min_by_key_map)
    next
      case RoundRobin
      obtain ch cs' where "pick_round_robin ?cs ?av (rq_sticky_limit rq) now = (ch, cs')"
        by (cases "pick_round_robin ?cs ?av (rq_sticky_limit rq) now")
      with pick_round_robin_candidates [OF lt av this] None RoundRobin show ?thesis
        by (simp add: choice_def choose_spec_def pin_spec)
    qed
  qed
  have "fst (select_connection now_ms now rq sn) =
      (case at (snd choice) (fst choice) of None \<Rightarrow> NoCredentials | Some c \<Rightarrow> Selected c)"
    using m av unfolding choice_def pin_def
    by (simp add: select_connection_def Let_def prio case_prod_beta split: option.split)
  moreover have "at (snd choice) (fst choice) \<noteq> None"
    using calculation select_Selected [OF assms, of now]
    by (metis connection_selection.distinct(1) fst_conv option.simps(4))
  ultimately show ?thesis unfolding choice candidates_by_index by auto
qed

lemma selected_iff_choose:
  "fst (select_connection now_ms now rq sn) = Selected c \<longleftrightarrow>
   choose_spec rq now (filter (eligible rq now_ms) (sn_connections sn)) = Some c"
proof (cases "\<exists>c \<in> set (sn_connections sn). eligible rq now_ms c")
  case True
  from selected_by_spec [OF this, of now] show ?thesis
    by (metis connection_selection.inject(1) map_option_eq_Some option.inject)
next
  case False
  then have "filter (eligible rq now_ms) (sn_connections sn) = []" by (simp add: filter_empty_conv)
  then have "choose_spec rq now (filter (eligible rq now_ms) (sn_connections sn)) = None"
    by (auto simp: choose_spec_def sticky_choice_def split: Option.bind_splits fallback_strategy.split)
  moreover have "fst (select_connection now_ms now rq sn) \<noteq> Selected c"
    using False select_iff_eligible by metis
  ultimately show ?thesis by simp
qed

text \<open>C26: The index arithmetic of \<open>select_connection\<close> and \<open>pick_round_robin\<close> computes the list
  specification: a connection is selected exactly when \<open>choose_spec\<close> chooses it among the eligible ones.
  A pinned account wins over the strategy; fill-first takes the first of smallest priority;
  round robin stays on the latest used account below the sticky limit, counting the
  use with saturation, and otherwise takes the least recently used one and restarts its count.\<close>

theorem select_equals_choose:
  "fst (select_connection now_ms now rq sn) = Selected c \<longleftrightarrow>
   choose_spec rq now (filter (eligible rq now_ms) (sn_connections sn)) = Some c"
  by (rule selected_iff_choose)

subsection \<open>Rotation is fair\<close>

text \<open>Requests served one after another, each at its own reading of the clock.\<close>

fun serve :: "select_request \<Rightarrow> (nat \<times> string) list \<Rightarrow> snapshot
    \<Rightarrow> connection_selection list \<times> snapshot" where
  "serve rq [] sn = ([], sn)"
| "serve rq ((now_ms, now) # clock) sn =
     (let (r, sn1) = select_connection now_ms now rq sn;
          (rs, sn2) = serve rq clock sn1
      in (r # rs, sn2))"

definition selected_id :: "connection_selection \<Rightarrow> string option" where
  "selected_id r = (case r of Selected c \<Rightarrow> Some (cn_id c) | _ \<Rightarrow> None)"

definition rotation_state :: "nat \<Rightarrow> snapshot \<Rightarrow> bool" where
  "rotation_state since_ms sn \<longleftrightarrow>
     distinct (map cn_id (sn_connections sn)) \<and>
     (\<forall>c \<in> set (sn_connections sn). (\<forall>key. \<not> entry_runs c key since_ms) \<and>
        (cn_last_used_at c \<noteq> None \<longrightarrow> 1 \<le> cn_consecutive_use_count c))"

text \<open>The accounts a request may use that were last used before \<open>start\<close>.\<close>

definition waiting :: "select_request \<Rightarrow> string \<Rightarrow> snapshot \<Rightarrow> string set" where
  "waiting rq start sn =
     cn_id ` {c \<in> set (sn_connections sn). matches rq c \<and> cn_id c \<notin> set (rq_exclude rq) \<and>
        (case cn_last_used_at c of None \<Rightarrow> True | Some l \<Rightarrow> l < start)}"

definition rotating :: "select_request \<Rightarrow> bool" where
  "rotating rq \<longleftrightarrow> rq_strategy rq = RoundRobin \<and> rq_preferred rq = None \<and> rq_sticky_limit rq \<le> 1"

lemma eligible_unlocked:
  "\<forall>key. \<not> entry_runs c key since_ms \<Longrightarrow> since_ms \<le> t \<Longrightarrow>
   eligible rq t c \<longleftrightarrow> matches rq c \<and> cn_id c \<notin> set (rq_exclude rq)"
  unfolding eligible_def is_locked_cooling cooling_down_def entry_runs_def
  by (meson le_less_trans)

lemma rr_step:
  assumes rq: "rotating rq" and st: "rotation_state since_ms sn"
    and e: "\<exists>c \<in> set (sn_connections sn). eligible rq now_ms c"
  obtains i where "i < length (sn_connections sn)" "eligible rq now_ms (sn_connections sn ! i)"
    "\<forall>d \<in> set (sn_connections sn). eligible rq now_ms d \<longrightarrow>
       lru_key (sn_connections sn ! i) \<le> lru_key d"
    "select_connection now_ms now rq sn =
       (Selected (rotated now 1 (sn_connections sn ! i)),
        sn\<lparr>sn_connections := (sn_connections sn)[i := rotated now 1 (sn_connections sn ! i)]\<rparr>)"
proof -
  let ?cs = "sn_connections sn"
  let ?cands = "filter (eligible rq now_ms) ?cs"
  from select_Selected [OF e, of now] obtain c i where
    c: "select_connection now_ms now rq sn = (Selected c, sn\<lparr>sn_connections := ?cs[i := c]\<rparr>)"
    and i: "i < length ?cs" "eligible rq now_ms (?cs ! i)" "same_but_rotation (?cs ! i) c"
    by metis
  have "sticky_choice (rq_sticky_limit rq) ?cands = None"
    using rq st
    by (fastforce simp: sticky_choice_def rotating_def rotation_state_def
        split: Option.bind_split dest!: max_by_key_in)
  moreover have "choose_spec rq now ?cands = Some c"
    using c selected_iff_choose by (metis fst_conv)
  ultimately obtain d where d: "min_by_key lru_key ?cands = Some d" "c = rotated now 1 d"
    using rq by (auto simp: choose_spec_def rotating_def)
  from min_by_key_in [OF d(1)] have "d \<in> set ?cs" by simp
  then obtain j where j: "j < length ?cs" "d = ?cs ! j" by (metis in_set_conv_nth)
  have "cn_id (?cs ! j) = cn_id (?cs ! i)"
    using same_but_rotation_fields(1) [OF i(3)] d(2) j(2) by (simp add: rotated_def)
  then have "j = i"
    using st i(1) j(1) unfolding rotation_state_def by (metis length_map nth_eq_iff_index_eq nth_map)
  moreover have "lru_key d \<le> lru_key x" if "x \<in> set ?cs" "eligible rq now_ms x" for x
    by (rule min_by_key_least [OF d(1)]) (simp add: that)
  ultimately show thesis using that [of i] i c d j by simp
qed

lemma rr_step_waiting:
  assumes rq: "rotating rq" and st: "rotation_state since_ms sn"
    and w: "waiting rq start sn \<noteq> {}" and now: "start \<le> now"
    and ms: "since_ms \<le> now_ms"
  obtains c sn' where "select_connection now_ms now rq sn = (Selected c, sn')"
    "rotation_state since_ms sn'" "cn_id c \<in> waiting rq start sn"
    "waiting rq start sn' = waiting rq start sn - {cn_id c}"
proof -
  let ?cs = "sn_connections sn"
  let ?early = "\<lambda>c. case cn_last_used_at c of None \<Rightarrow> True | Some l \<Rightarrow> l < start"
  have el: "eligible rq now_ms c \<longleftrightarrow> matches rq c \<and> cn_id c \<notin> set (rq_exclude rq)"
    if "c \<in> set ?cs" for c
    using that st ms eligible_unlocked unfolding rotation_state_def by blast
  from w obtain d where d: "d \<in> set ?cs" "eligible rq now_ms d" "?early d"
    using el by (auto simp: waiting_def)
  from rr_step [OF rq st, of now_ms now] d obtain i where
    i: "i < length ?cs" "eligible rq now_ms (?cs ! i)" "lru_key (?cs ! i) \<le> lru_key d"
    and s: "select_connection now_ms now rq sn = (Selected (rotated now 1 (?cs ! i)),
        sn\<lparr>sn_connections := ?cs[i := rotated now 1 (?cs ! i)]\<rparr>)"
    by metis
  have ids: "distinct (map cn_id ?cs)" using st by (simp add: rotation_state_def)
  have early: "?early (?cs ! i)"
    using d(3) i(3) by (auto simp: lru_key_def less_eq_prod_def split: option.splits)
  let ?c = "rotated now 1 (?cs ! i)"
  let ?sn' = "sn\<lparr>sn_connections := ?cs[i := ?c]\<rparr>"
  have set': "set (?cs[i := ?c]) = insert ?c (set ?cs - {?cs ! i})"
    using ids i(1) by (simp add: set_update_distinct distinct_map)
  have "map cn_id (?cs[i := ?c]) = map cn_id ?cs"
    using i(1) by (simp add: map_update rotated_def list_update_same_conv)
  moreover have "\<forall>key. \<not> entry_runs ?c key since_ms" "1 \<le> cn_consecutive_use_count ?c"
    using st nth_mem [OF i(1)] unfolding rotation_state_def
    by (fastforce simp: rotated_def entry_runs_def)+
  ultimately have st': "rotation_state since_ms ?sn'"
    using st ids by (auto simp: rotation_state_def set' [simplified])
  have mem: "cn_id (?cs ! i) \<in> waiting rq start sn"
    using i early el [of "?cs ! i"] by (auto simp: waiting_def)
  have inj: "x = ?cs ! i" if "x \<in> set ?cs" "cn_id x = cn_id (?cs ! i)" for x
    using that ids i(1) unfolding distinct_map inj_on_def by (metis nth_mem)
  have "\<not> ?early ?c" using now by (auto simp: rotated_def)
  then have "waiting rq start ?sn' = waiting rq start sn - {cn_id (?cs ! i)}"
    using inj by (auto simp: waiting_def set' [simplified])
  moreover have "cn_id ?c = cn_id (?cs ! i)" by (simp add: rotated_def)
  ultimately show thesis using that s st' mem by simp
qed

lemma serve_waiting:
  assumes "rotating rq" "\<forall>(now_ms, now) \<in> set clock. since_ms \<le> now_ms \<and> start \<le> now"
  shows "rotation_state since_ms sn \<Longrightarrow> card (waiting rq start sn) = length clock \<Longrightarrow>
    set (map selected_id (fst (serve rq clock sn))) = Some ` waiting rq start sn
    \<and> length (fst (serve rq clock sn)) = length clock"
  using assms(2)
proof (induction clock arbitrary: sn)
  case Nil
  have "finite (waiting rq start sn)" by (simp add: waiting_def)
  with Nil show ?case by simp
next
  case (Cons e clock)
  obtain now_ms now where e: "e = (now_ms, now)" by (cases e)
  have fin: "finite (waiting rq start sn)" by (simp add: waiting_def)
  have ne: "waiting rq start sn \<noteq> {}" using Cons.prems(2) by auto
  from Cons.prems(3) e have "start \<le> now" "since_ms \<le> now_ms" by auto
  from rr_step_waiting [OF assms(1) Cons.prems(1) ne this]
  obtain c sn' where
    s: "select_connection now_ms now rq sn = (Selected c, sn')" and
    c: "rotation_state since_ms sn'" "cn_id c \<in> waiting rq start sn"
    "waiting rq start sn' = waiting rq start sn - {cn_id c}"
    by auto
  have "card (waiting rq start sn') = length clock"
    using c(2,3) fin Cons.prems(2) by simp
  with Cons.IH [OF c(1)] Cons.prems(3) c(2,3) s e show ?case
    by (auto simp: selected_id_def split_beta)
qed

text \<open>C27: Round robin with a sticky limit of at most one and no pinned account is fair among accounts
  that are not cooling down. The store has distinct ids, no lock entry of an account still runs at
  the first request, and a used account has a count of at least one. Then, when the \<open>n\<close> usable
  accounts last used before the stamp \<open>start\<close>, or never, are served \<open>n\<close> requests stamped from \<open>start\<close>
  on (stamps compare as strings, as the store compares them), each gets exactly one request.\<close>

theorem rotation_is_fair:
  assumes "rotating rq" "rotation_state since_ms sn"
    "\<forall>(now_ms, now) \<in> set clock. since_ms \<le> now_ms \<and> start \<le> now"
    "card (waiting rq start sn) = length clock"
  shows "set (map selected_id (fst (serve rq clock sn))) = Some ` waiting rq start sn \<and>
    distinct (map selected_id (fst (serve rq clock sn)))"
proof
  have fair: "set (map selected_id (fst (serve rq clock sn))) = Some ` waiting rq start sn"
    "length (fst (serve rq clock sn)) = length clock"
    using serve_waiting [OF assms(1,3,2,4)] by simp_all
  then show "set (map selected_id (fst (serve rq clock sn))) = Some ` waiting rq start sn"
    by simp
  have "card (set (map selected_id (fst (serve rq clock sn)))) = length clock"
    unfolding fair(1) using assms(4) by (simp add: card_image)
  then show "distinct (map selected_id (fst (serve rq clock sn)))"
    using fair(2) by (intro card_distinct) simp
qed

definition sample_rotation :: select_request where
  "sample_rotation = sample_request\<lparr>rq_strategy := RoundRobin\<rparr>"

lemma sample_waiting: "waiting sample_rotation ''unix-ms:5'' sample_snapshot = {''a'', ''b''}"
proof -
  have "\<exists>c. c = sample_connection ''a'' ''glm'' 2 \<and> cn_id c = ''a''"
    "\<exists>c. c = sample_connection ''b'' ''glm'' 1 \<and> cn_id c = ''b''" by auto
  then show ?thesis
    by (force simp: waiting_def sample_snapshot_def sample_rotation_def sample_request_def
        matches_def image_iff)
qed

lemma sample_rotation_state: "rotation_state 5 sample_snapshot"
  by (simp add: rotation_state_def sample_snapshot_def entry_runs_def)

theorem rotation_is_fair_witness:
  "set (map selected_id (fst (serve sample_rotation
      [(5, ''unix-ms:5''), (6, ''unix-ms:6'')] sample_snapshot))) = {Some ''a'', Some ''b''}"
proof -
  let ?ids = "map selected_id (fst (serve sample_rotation
      [(5, ''unix-ms:5''), (6, ''unix-ms:6'')] sample_snapshot))"
  have stamps: "''unix-ms:5'' \<le> ''unix-ms:6''" by code_simp
  have "set ?ids = Some ` waiting sample_rotation ''unix-ms:5'' sample_snapshot \<and> distinct ?ids"
  proof (rule rotation_is_fair [where since_ms = 5])
    show "rotating sample_rotation" by code_simp
    show "\<forall>(now_ms, now) \<in> set [(5, ''unix-ms:5''), (6, ''unix-ms:6'')].
        (5::nat) \<le> now_ms \<and> ''unix-ms:5'' \<le> now"
      using stamps by simp
  qed (simp_all add: sample_rotation_state sample_waiting)
  then show ?thesis by (simp add: sample_waiting)
qed

section \<open>Cooldowns\<close>

lemma find_distinct:
  "distinct (map g xs) \<Longrightarrow> x \<in> set xs \<Longrightarrow> g x = k \<Longrightarrow> find (\<lambda>y. g y = k) xs = Some x"
  by (induction xs) auto

lemma marked_not_eligible:
  assumes "mk_model u = Some m" "rq_model rq = Some m" "t < sat_add64 now_ms (mk_cooldown_ms u)"
  shows "\<not> eligible rq t (mark_one now_ms u c)"
  using mark_one_locked [OF assms(3,1)] assms(2) by (simp add: eligible_def)

lemma selected_was_eligible:
  assumes "fst (select_connection now_ms now rq sn) = Selected c"
  obtains d where "d \<in> set (sn_connections sn)" "eligible rq now_ms d" "same_but_rotation d c"
  using select_meets_spec_aux [of now_ms rq sn now] assms
  by (auto simp: select_spec_def Let_def intro: nth_mem)

text \<open>C12: A cooldown is enforced. On the store as it is right after an account was marked unavailable for a
  model, and with distinct ids, no selection for that model returns the account before the cooldown is over,
  whatever the strategy, the exclusions or the pinned account.\<close>

theorem cooldown_enforced:
  assumes "distinct (map cn_id (sn_connections sn))"
    and "mk_model u = Some m" "rq_model rq = Some m"
    and "t < sat_add64 now_ms (mk_cooldown_ms u)"
    and "fst (select_connection t now rq (snd (mark_connection_unavailable now_ms u sn))) = Selected c"
  shows "cn_id c \<noteq> mk_connection_id u"
proof -
  from selected_was_eligible [OF assms(5)] obtain d where
    d: "d \<in> set (sn_connections (snd (mark_connection_unavailable now_ms u sn)))"
      "eligible rq t d" "same_but_rotation d c" .
  then obtain e where "e \<in> set (sn_connections sn)"
    "d = (if cn_id e = mk_connection_id u then mark_one now_ms u e else e)"
    unfolding mark_connections [OF assms(1)] by auto
  with d(2) marked_not_eligible [OF assms(2,3,4)] have "cn_id d \<noteq> mk_connection_id u"
    by (auto split: if_splits)
  then show ?thesis using same_but_rotation_fields(1) [OF d(3)] by simp
qed

theorem cooldown_enforced_witness:
  "cn_id (sample_connection ''a'' ''glm'' 2) \<noteq> mk_connection_id sample_mark"
proof (rule cooldown_enforced [where t = 6 and now_ms = 5 and now = "''unix-ms:6''"
      and rq = sample_request and sn = sample_snapshot and m = "''m''"])
  show "fst (select_connection 6 ''unix-ms:6'' sample_request
      (snd (mark_connection_unavailable 5 sample_mark sample_snapshot)))
      = Selected (sample_connection ''a'' ''glm'' 2)"
    unfolding selected_iff_choose
  proof -
    have "\<not> eligible sample_request 6 (mark_one 5 sample_mark (sample_connection ''b'' ''glm'' 1))"
      by (rule marked_not_eligible [where m = "''m''"])
         (simp_all add: sample_mark_def sample_request_def sat_add64_def u64_max_def)
    then show "choose_spec sample_request ''unix-ms:6'' (filter (eligible sample_request 6)
        (sn_connections (snd (mark_connection_unavailable 5 sample_mark sample_snapshot))))
        = Some (sample_connection ''a'' ''glm'' 2)"
      by (simp add: mark_connections sample_snapshot_def)
         (simp add: sample_mark_def sample_request_def choose_spec_def eligible_def matches_def)
  qed
qed (simp_all add: sample_snapshot_def sample_mark_def sample_request_def sat_add64_def u64_max_def)

text \<open>The account-wide lock does not reach a model that has an expired lock of its own: \<open>is_locked\<close>
  looks at the entry of the model first and falls back to the account-wide entry only when there is
  none, so the account stays selectable for that model during the account-wide cooldown.\<close>

theorem account_lock_shadowed:
  assumes "mk_model u = None" "m \<noteq> MODEL_LOCK_ALL"
    and "map_of (cn_model_locks c) m = Some e" "\<not> lock_active t e"
  shows "\<not> is_locked (mark_one now_ms u c) (Some m) t"
  using assms by (simp add: is_locked_alt map_simps)

theorem account_lock_shadowed_witness:
  "\<not> is_locked (mark_one 5000 (sample_mark\<lparr>mk_model := None\<rparr>)
      (mark_one 5 sample_mark (sample_connection ''b'' ''glm'' 1))) (Some ''m'') 5001"
  by (rule account_lock_shadowed [where e = "millis_to_iso 2005"])
     (simp_all add: sample_mark_def MODEL_LOCK_ALL_def map_simps lock_active_def sat_add64_def
        u64_max_def iso_to_millis_to_iso)

lemma map_of_filter_Some:
  "map_of m k = Some v \<Longrightarrow> P (k, v) \<Longrightarrow> map_of (filter P m) k = Some v"
  by (induction m) auto

text \<open>Clearing the error of an account for a model makes it usable for the model at once, keeps
  every other model's lock that is still running, and resets the error state exactly when no lock is
  left; no other account changes.\<close>

theorem clear_error_effect:
  fixes now_ms t :: nat and m :: string
  assumes "distinct (map cn_id (sn_connections sn))"
    and "c \<in> set (sn_connections sn)" "cn_id c = cid"
  defines "c' \<equiv> clear_one now_ms (Some m) c"
  shows "clear_connection_error now_ms cid (Some m) sn =
      (True, sn\<lparr>sn_connections := map (\<lambda>d. if d = c then c' else d) (sn_connections sn)\<rparr>)
    \<and> \<not> is_locked c' (Some m) t
    \<and> (\<forall>k e. k \<noteq> m \<longrightarrow> k \<noteq> MODEL_LOCK_ALL \<longrightarrow> map_of (cn_model_locks c) k = Some e
         \<longrightarrow> lock_active now_ms e \<longrightarrow> map_of (cn_model_locks c') k = Some e)
    \<and> (cn_model_locks c' = [] \<longrightarrow> cn_test_status c' = Some ''active'' \<and> cn_last_error c' = None
         \<and> cn_error_code c' = None \<and> cn_backoff_level c' = 0)
    \<and> (cn_model_locks c' \<noteq> [] \<longrightarrow> c' = c\<lparr>cn_model_locks := cn_model_locks c'\<rparr>)"
    (is "?upd \<and> ?free \<and> ?keep \<and> ?reset \<and> ?rest")
proof (intro conjI)
  have same: "cn_id d = cid \<longleftrightarrow> d = c" if "d \<in> set (sn_connections sn)" for d
    using that assms(1-3) by (metis (no_types, lifting) distinct_map inj_on_def)
  show ?upd
    using assms(2,3) update_first_distinct [OF assms(1)] same
    by (auto simp: clear_connection_error_def c'_def)
  have "map_of (cn_model_locks c') m = None" "map_of (cn_model_locks c') MODEL_LOCK_ALL = None"
    by (auto simp: c'_def keep_lock_def map_of_eq_None_iff)
  then show ?free by (simp add: is_locked_alt)
  show ?keep by (auto simp: c'_def keep_lock_def intro!: map_of_filter_Some)
  show ?reset ?rest by (simp_all add: c'_def clear_one_def Let_def)
qed

theorem clear_error_effect_witness:
  "\<not> is_locked (clear_one 6 (Some ''m'') (sample_connection ''b'' ''glm'' 1)) (Some ''m'') 7
   \<and> fst (clear_connection_error 6 ''b'' (Some ''m'') sample_snapshot)"
  using clear_error_effect [of sample_snapshot "sample_connection ''b'' ''glm'' 1" "''b''"
      6 "''m''" 7]
  by (simp add: sample_snapshot_def)
end
