(* ===== verification/Store_Invariant.thy ===== *)
theory Store_Invariant
  imports Store_Properties
begin

text \<open>
  The store as a state machine: one step per mutation of \<open>store.rs\<close>, the invariant every step keeps,
  and the facts about the administrative operations that do not concern routing: redaction of
  secrets, refreshed credentials, proxy pools in use.
\<close>

section \<open>The store as a transition system\<close>

inductive store_step :: "snapshot \<Rightarrow> snapshot \<Rightarrow> bool" where
  step_select: "store_step sn (snd (select_connection now_ms now rq sn))"
| step_mark: "store_step sn (snd (mark_connection_unavailable now_ms u sn))"
| step_clear: "store_step sn (snd (clear_connection_error now_ms cid model sn))"
| step_create: "store_step sn (snd (create_connection now_ms id_ms input sn))"
| step_update: "store_step sn (snd (update_connection now_ms cid edit sn))"
| step_delete: "store_step sn (snd (delete_connection cid sn))"
| step_refresh: "store_step sn (snd (update_connection_credentials now_ms cid creds sn))"
| step_create_combo: "store_step sn (snd (create_combo now_ms name kind models sn))"
| step_update_combo: "store_step sn (snd (update_combo now_ms cid bu sn))"
| step_delete_combo: "store_step sn (snd (delete_combo cid sn))"
| step_delete_pool: "store_step sn (snd (delete_proxy_pool cid sn))"
| step_disable: "store_step sn (snd (set_disabled_models provider_alias ids sn))"
| step_enable: "store_step sn (snd (clear_disabled_models provider_alias sn))"
| step_add_custom: "store_step sn (snd (add_custom_model now_ms provider_alias cid model_type nm sn))"
| step_delete_custom: "store_step sn (snd (delete_custom_model provider_alias cid sn))"
| step_set_alias: "store_step sn (set_model_alias alias model sn)"
| step_delete_alias: "store_step sn (snd (delete_model_alias alias sn))"

text \<open>
  What holds of every snapshot: a connection's lock table is an ordered map and a used connection has
  a positive use count; combo ids are distinct; custom models are keyed by alias and id; the
  tables are ordered maps, and no disabled entry is empty, unsorted or repeated.
\<close>

definition connection_ok :: "connection \<Rightarrow> bool" where
  "connection_ok c \<longleftrightarrow> bt_ok (cn_model_locks c)
     \<and> (cn_last_used_at c \<noteq> None \<longrightarrow> 1 \<le> cn_consecutive_use_count c)"

definition disabled_ok :: "string list \<Rightarrow> bool" where
  "disabled_ok ids \<longleftrightarrow> ids \<noteq> [] \<and> sorted ids \<and> distinct ids \<and> [] \<notin> set ids"

definition custom_key :: "custom_model \<Rightarrow> string \<times> string" where
  "custom_key m = (cm_provider_alias m, cm_id m)"

definition store_ok :: "snapshot \<Rightarrow> bool" where
  "store_ok sn \<longleftrightarrow>
     list_all connection_ok (sn_connections sn)
     \<and> distinct (map cb_id (sn_combos sn))
     \<and> distinct (map custom_key (sn_custom_models sn))
     \<and> bt_ok (sn_disabled_models sn) \<and> list_all (\<lambda>e. disabled_ok (snd e)) (sn_disabled_models sn)
     \<and> bt_ok (sn_model_aliases sn)"

definition empty_snapshot :: snapshot where
  "empty_snapshot = \<lparr>sn_connections = [], sn_combos = [], sn_proxy_pools = [],
     sn_disabled_models = [], sn_custom_models = [], sn_model_aliases = []\<rparr>"

inductive store_reachable :: "snapshot \<Rightarrow> bool" where
  reach_init: "store_reachable empty_snapshot"
| reach_step: "store_reachable sn \<Longrightarrow> store_step sn sn' \<Longrightarrow> store_reachable sn'"

lemma list_all_update_first:
  "list_all Q xs \<Longrightarrow> (\<And>x. Q x \<Longrightarrow> Q (f x)) \<Longrightarrow> list_all Q (update_first P f xs)"
  by (induction xs) auto

lemma list_all_filter: "list_all Q xs \<Longrightarrow> list_all Q (filter P xs)"
  by (simp add: list_all_iff)

lemma connection_ok_mark: "connection_ok c \<Longrightarrow> connection_ok (mark_one now_ms u c)"
  by (auto simp: connection_ok_def mark_one_def Let_def split: option.splits)

lemma connection_ok_clear: "connection_ok c \<Longrightarrow> connection_ok (clear_one now_ms m c)"
  by (auto simp: connection_ok_def clear_one_def Let_def)

lemma connection_ok_edit [simp]:
  "connection_ok (apply_connection_update now_ms edit c) = connection_ok c"
  "connection_ok (apply_credentials now_ms creds c) = connection_ok c"
  "connection_ok (merge_connection c d) = connection_ok c"
  by (simp_all add: connection_ok_def apply_connection_update_def apply_credentials_def
      merge_connection_def)

lemma connection_ok_rotated:
  assumes "connection_ok c" "1 \<le> n" shows "connection_ok (rotated now n c)"
  using assms by (simp add: connection_ok_def rotated_def)

lemma choose_spec_ok:
  assumes "choose_spec rq now cands = Some c" "\<forall>x \<in> set cands. connection_ok x"
  shows "connection_ok c"
proof -
  have sticky: "x \<in> set cands" if x: "sticky_choice limit cands = Some x" for x limit
  proof (cases "max_by_key (\<lambda>c. opt_default [] (cn_last_used_at c))
        (filter (\<lambda>c. cn_last_used_at c \<noteq> None) cands)")
    case None
    with x show ?thesis by (simp only: sticky_choice_def bind.bind_lzero option.distinct)
  next
    case (Some y)
    have "x = y"
      using x unfolding sticky_choice_def Some bind.bind_lunit by (auto split: if_splits)
    with max_by_key_in [OF Some] show ?thesis by simp
  qed
  have one: "1 \<le> sat_add32 n 1" for n by (simp add: sat_add32_def u32_max_def)
  show ?thesis
  proof (cases "Option.bind (rq_preferred rq) (\<lambda>wanted. find (\<lambda>c. cn_id c = wanted) cands)")
    case (Some p)
    then obtain w where "find (\<lambda>c. cn_id c = w) cands = Some p"
      by (cases "rq_preferred rq") simp_all
    then have "p \<in> set cands" by (rule find_in_set [THEN conjunct1])
    moreover have "c = p" using assms(1) unfolding choose_spec_def Some by simp
    ultimately show ?thesis using assms(2) by blast
  next
    case None
    show ?thesis
    proof (cases "rq_strategy rq")
      case FillFirst
      have "min_by_key cn_priority cands = Some c"
        using assms(1) unfolding choose_spec_def None FillFirst by simp
      from min_by_key_in [OF this] show ?thesis using assms(2) by blast
    next
      case RoundRobin
      show ?thesis
      proof (cases "sticky_choice (rq_sticky_limit rq) cands")
        case s: None
        then obtain d where d: "min_by_key lru_key cands = Some d" "c = rotated now 1 d"
          using assms(1) unfolding choose_spec_def None RoundRobin s by auto
        have "connection_ok d" using min_by_key_in [OF d(1)] assms(2) by blast
        then show ?thesis unfolding d(2) by (rule connection_ok_rotated) simp
      next
        case (Some d)
        then have "c = rotated now (sat_add32 (cn_consecutive_use_count d) 1) d"
          using assms(1) unfolding choose_spec_def None RoundRobin Some by simp
        moreover have "connection_ok d" using sticky [OF Some] assms(2) by blast
        ultimately show ?thesis using connection_ok_rotated [OF _ one] by simp
      qed
    qed
  qed
qed

lemma select_ok:
  assumes "list_all connection_ok (sn_connections sn)"
  shows "\<exists>cs. snd (select_connection now_ms now rq sn) = sn\<lparr>sn_connections := cs\<rparr>
     \<and> list_all connection_ok cs"
proof (cases "fst (select_connection now_ms now rq sn)")
  case (Selected c)
  then have "connection_ok c"
    using choose_spec_ok [of rq now "filter (eligible rq now_ms) (sn_connections sn)" c]
      assms selected_iff_choose by (auto simp: list_all_iff)
  moreover obtain i where
    "snd (select_connection now_ms now rq sn) =
       sn\<lparr>sn_connections := (sn_connections sn)[i := c]\<rparr>"
    using select_meets_spec_aux [of now_ms rq sn now] Selected by (auto simp: select_spec_def Let_def)
  ultimately show ?thesis
    using assms set_update_subset_insert [of "sn_connections sn" i c]
    by (auto simp: list_all_iff intro!: exI [of _ "(sn_connections sn)[i := c]"])
qed (use assms select_meets_spec_aux [of now_ms rq sn now] in
      \<open>auto simp: select_spec_def Let_def intro!: exI [of _ "sn_connections sn"]\<close>)

lemma list_all_bt_insert: "list_all Q m \<Longrightarrow> Q (k, v) \<Longrightarrow> list_all Q (bt_insert k v m)"
  using set_bt_insert [of k v m] by (auto simp: list_all_iff)

lemma list_all_bt_remove: "list_all Q m \<Longrightarrow> list_all Q (bt_remove k m)"
  by (simp add: bt_remove_def list_all_filter)

lemma distinct_remdups_adj_sorted: "sorted xs \<Longrightarrow> distinct (remdups_adj xs)"
  by (induction xs rule: remdups_adj.induct) auto

lemma disabled_ok_normal:
  "remdups_adj (sort xs) \<noteq> [] \<Longrightarrow> [] \<notin> set xs \<Longrightarrow> disabled_ok (remdups_adj (sort xs))"
  by (simp add: disabled_ok_def distinct_remdups_adj_sorted sorted_remdups_adj)

lemma distinct_map_filter: "distinct (map f xs) \<Longrightarrow> distinct (map f (filter P xs))"
  by (induction xs) auto

lemma store_ok_connections:
  "store_ok sn \<Longrightarrow> list_all connection_ok cs \<Longrightarrow> store_ok (sn\<lparr>sn_connections := cs\<rparr>)"
  by (simp add: store_ok_def)

lemma store_ok_create:
  assumes "store_ok sn"
  shows "store_ok (snd (create_connection now_ms id_ms input sn))"
proof -
  have cs: "list_all connection_ok (sn_connections sn)" using assms by (simp add: store_ok_def)
  let ?same = "\<lambda>e. cn_provider e = ci_provider input \<and> cn_auth_type e = ''apikey''
       \<and> cn_name e = ci_name input"
  show ?thesis
  proof (cases "find ?same (sn_connections sn)")
    case None
    then show ?thesis
      using cs assms by (simp add: create_connection_def Let_def store_ok_def connection_ok_def)
  next
    case (Some e)
    then show ?thesis
      using cs assms
      by (simp add: create_connection_def Let_def store_ok_def list_all_update_first)
  qed
qed

lemma next_combo_id_fresh: "next_combo_id cs \<notin> cb_id ` set cs"
  using next_combo_from_fresh [of "map cb_id cs"] by (simp add: next_combo_id_def)

lemma store_ok_select: "store_ok sn \<Longrightarrow> store_ok (snd (select_connection now_ms now rq sn))"
  using select_ok [of sn now_ms now rq] store_ok_connections by (metis store_ok_def)

lemma store_ok_edits:
  assumes "store_ok sn"
  shows "store_ok (snd (mark_connection_unavailable now_ms u sn))"
    "store_ok (snd (clear_connection_error now_ms cid model sn))"
    "store_ok (snd (update_connection now_ms cid edit sn))"
    "store_ok (snd (delete_connection cid sn))"
    "store_ok (snd (update_connection_credentials now_ms cid creds sn))"
  using assms
  by (auto simp: mark_connection_unavailable_def clear_connection_error_def update_connection_def
      delete_connection_def update_connection_credentials_def store_ok_def Let_def
      intro!: list_all_update_first list_all_filter connection_ok_mark connection_ok_clear
      split: option.split)

lemma store_ok_combos:
  assumes "store_ok sn"
  shows "store_ok (snd (create_combo now_ms name kind models sn))"
    "store_ok (snd (update_combo now_ms cid bu sn))"
    "store_ok (snd (delete_combo cid sn))"
  using assms next_combo_id_fresh [of "sn_combos sn"]
    update_first_ids [of "\<lambda>c. cb_id c = cid" cb_id "apply_combo_update now_ms bu" "sn_combos sn"]
  by (auto simp: create_combo_def update_combo_def delete_combo_def store_ok_def Let_def
      apply_combo_update_def distinct_map_filter split: option.split)

lemma store_ok_pool: "store_ok sn \<Longrightarrow> store_ok (snd (delete_proxy_pool cid sn))"
  by (simp add: delete_proxy_pool_def Let_def store_ok_def)

lemma store_ok_disabled:
  assumes "store_ok sn"
  shows "store_ok (snd (set_disabled_models provider_alias ids sn))"
    "store_ok (snd (clear_disabled_models provider_alias sn))"
proof -
  let ?ids = "remdups_adj (sort (filter (\<lambda>i. i \<noteq> []) (map trim ids)))"
  have "disabled_ok ?ids" if "?ids \<noteq> []"
    using that by (rule disabled_ok_normal) simp
  then show "store_ok (snd (set_disabled_models provider_alias ids sn))"
    using assms unfolding set_disabled_models_def Let_def store_ok_def
    by (auto intro: list_all_bt_insert list_all_bt_remove)
  show "store_ok (snd (clear_disabled_models provider_alias sn))"
    using assms by (simp add: clear_disabled_models_def store_ok_def list_all_bt_remove)
qed

lemma store_ok_custom:
  assumes "store_ok sn"
  shows "store_ok (snd (add_custom_model now_ms provider_alias cid model_type nm sn))"
    "store_ok (snd (delete_custom_model provider_alias cid sn))"
proof -
  let ?same = "\<lambda>m. cm_provider_alias m = provider_alias \<and> cm_id m = cid"
  let ?edit = "\<lambda>m. m\<lparr>cm_model_type := model_type, cm_name := nm\<rparr>"
  have keys: "map custom_key (update_first ?same ?edit xs) = map custom_key xs" for xs
    by (rule update_first_ids) (simp add: custom_key_def)
  show "store_ok (snd (add_custom_model now_ms provider_alias cid model_type nm sn))"
  proof (cases "find ?same (sn_custom_models sn)")
    case None
    then have "(provider_alias, cid) \<notin> custom_key ` set (sn_custom_models sn)"
      by (auto simp: find_None_iff custom_key_def)
    with None assms show ?thesis
      by (simp add: add_custom_model_def store_ok_def custom_key_def Let_def)
  next
    case (Some m)
    with assms show ?thesis by (simp add: add_custom_model_def store_ok_def keys Let_def)
  qed
  show "store_ok (snd (delete_custom_model provider_alias cid sn))"
    using assms by (simp add: delete_custom_model_def store_ok_def Let_def distinct_map_filter)
qed

lemma store_ok_aliases:
  assumes "store_ok sn"
  shows "store_ok (set_model_alias alias model sn)" "store_ok (snd (delete_model_alias alias sn))"
  using assms by (simp_all add: set_model_alias_def delete_model_alias_def store_ok_def)

lemmas store_ok_ops = store_ok_select store_ok_edits store_ok_create store_ok_combos store_ok_pool
  store_ok_disabled store_ok_custom store_ok_aliases

text \<open>C11: Every snapshot the operations can produce is well formed: lock tables and settings tables
  are ordered maps, a used account counts at least one use, combo ids and custom model keys are
  distinct, and disabled lists are non-empty, sorted and without repetition.\<close>

theorem store_invariant:
  assumes "store_reachable sn"
  shows "store_ok sn"
  using assms
proof (induction rule: store_reachable.induct)
  case reach_init
  show ?case by (simp add: store_ok_def empty_snapshot_def)
next
  case (reach_step sn sn')
  from reach_step.hyps(2) reach_step.IH show ?case
    by (induction rule: store_step.induct) (simp_all add: store_ok_ops)
qed

theorem store_invariant_witness:
  "store_ok (snd (create_combo 6 ''fast'' None [''glm/m''] (snd (create_combo 5 ''slow'' None [] empty_snapshot))))"
  by (rule store_invariant) (intro reach_step [OF _ step_create_combo] reach_init)

section \<open>Administration\<close>

definition secret_free :: "connection \<Rightarrow> bool" where
  "secret_free c \<longleftrightarrow> cn_api_key c = None \<and> cn_access_token c = None \<and> cn_refresh_token c = None"

lemma secret_free_public [simp]: "secret_free (public c)"
  by (simp add: secret_free_def public_def)

text \<open>C28: No public read or write of a connection returns a credential: the API key and both tokens are
  absent from what listing, reading, creating and updating return.\<close>

theorem public_reads_redacted:
  "list_all secret_free (list_connections sn)
   \<and> pred_option secret_free (get_connection cid sn)
   \<and> secret_free (fst (create_connection now_ms id_ms input sn))
   \<and> pred_option secret_free (fst (update_connection now_ms cid edit sn))"
  by (auto simp: list_connections_def get_connection_def create_connection_def update_connection_def
      list_all_iff Let_def option.pred_set split: option.split)

definition api_key_record :: "string \<Rightarrow> string \<Rightarrow> connection \<Rightarrow> bool" where
  "api_key_record provider name e \<longleftrightarrow>
     cn_provider e = provider \<and> cn_auth_type e = ''apikey'' \<and> cn_name e = name"

lemma find_update_first:
  "find P xs = Some x \<Longrightarrow> P (f x) \<Longrightarrow> find P (update_first P f xs) = Some (f x)"
  by (induction xs) (auto split: if_splits)

text \<open>Creating a connection whose provider and name belong to an API key record edits that record,
  whatever the kind of the new connection: no connection is added, the record keeps its tokens and its
  kind, the tokens of the input are stored nowhere, and the API key becomes the input's, absent for
  an OAuth sign-in.\<close>

theorem create_merges_into_api_key:
  assumes "find (api_key_record (ci_provider input) (ci_name input)) (sn_connections sn) = Some e"
  shows "\<exists>e'. find (api_key_record (ci_provider input) (ci_name input))
             (sn_connections (snd (create_connection now_ms id_ms input sn))) = Some e'
      \<and> map cn_id (sn_connections (snd (create_connection now_ms id_ms input sn)))
          = map cn_id (sn_connections sn)
      \<and> cn_id e' = cn_id e \<and> cn_auth_type e' = cn_auth_type e
      \<and> cn_access_token e' = cn_access_token e \<and> cn_refresh_token e' = cn_refresh_token e
      \<and> cn_expires_at e' = cn_expires_at e \<and> cn_api_key e' = ci_api_key input"
proof -
  let ?P = "api_key_record (ci_provider input) (ci_name input)"
  have P: "?P = (\<lambda>e. cn_provider e = ci_provider input \<and> cn_auth_type e = ''apikey''
      \<and> cn_name e = ci_name input)"
    by (simp add: api_key_record_def fun_eq_iff)
  obtain d where d: "sn_connections (snd (create_connection now_ms id_ms input sn)) =
      update_first ?P (\<lambda>e. merge_connection e d) (sn_connections sn)"
    "cn_api_key d = ci_api_key input"
    using assms unfolding P by (simp add: create_connection_def Let_def)
  have "map cn_id (update_first ?P (\<lambda>e. merge_connection e d) (sn_connections sn)) =
      map cn_id (sn_connections sn)"
    by (rule update_first_ids) (simp add: merge_connection_def)
  moreover have "?P e" using find_in_set [OF assms] by simp
  then have "?P (merge_connection e d)" by (simp add: api_key_record_def merge_connection_def)
  from find_update_first [where f = "\<lambda>e. merge_connection e d", OF assms this]
  have "find ?P (update_first ?P (\<lambda>e. merge_connection e d) (sn_connections sn)) =
      Some (merge_connection e d)" .
  ultimately show ?thesis unfolding d(1) using d(2) by (simp add: merge_connection_def)
qed

definition sample_oauth_input :: connection_input where
  "sample_oauth_input = \<lparr>ci_provider = ''glm'', ci_auth_type = Some ''oauth'', ci_name = ''a'',
     ci_priority = None, ci_is_active = None, ci_email = None, ci_global_priority = None,
     ci_default_model = None, ci_test_status = None, ci_last_error = None,
     ci_last_error_at = None, ci_provider_specific_data = None, ci_api_key = None,
     ci_access_token = Some ''at'', ci_refresh_token = Some ''rt'', ci_expires_at = None\<rparr>"

theorem create_merges_into_api_key_witness:
  "\<exists>e'. find (api_key_record ''glm'' ''a'')
         (sn_connections (snd (create_connection 5 5 sample_oauth_input sample_snapshot))) = Some e'
      \<and> cn_access_token e' = None \<and> cn_refresh_token e' = None \<and> cn_api_key e' = None"
proof -
  have "find (api_key_record (ci_provider sample_oauth_input) (ci_name sample_oauth_input))
      (sn_connections sample_snapshot) = Some (sample_connection ''a'' ''glm'' 2)"
    by code_simp
  from create_merges_into_api_key [OF this, of 5 5] show ?thesis
    by (auto simp: sample_oauth_input_def sample_connection_def)
qed

definition setting_of :: "connection \<Rightarrow> string \<Rightarrow> json option" where
  "setting_of c k = Option.bind (cn_provider_specific_data c) (\<lambda>d. map_of d k)"

text \<open>Storing refreshed credentials touches one account. A token that the refresh did not return
  keeps its value, a returned setting replaces the setting of that name and every other setting stays,
  and apart from the credentials, the settings and the update time the account is unchanged.\<close>

theorem credentials_refreshed:
  fixes now_ms :: nat and creds :: credential_update
  assumes "distinct (map cn_id (sn_connections sn))"
    and "c \<in> set (sn_connections sn)" "cn_id c = cid"
  defines "c' \<equiv> apply_credentials now_ms creds c"
  shows "update_connection_credentials now_ms cid creds sn =
      (True, sn\<lparr>sn_connections := map (\<lambda>d. if d = c then c' else d) (sn_connections sn)\<rparr>)
    \<and> cn_access_token c' = opt_or (cr_access_token creds) (cn_access_token c)
    \<and> cn_refresh_token c' = opt_or (cr_refresh_token creds) (cn_refresh_token c)
    \<and> (\<forall>k. setting_of c' k =
          opt_or (Option.bind (cr_provider_specific_data creds) (\<lambda>d. map_of (rev d) k)) (setting_of c k))
    \<and> c' = c\<lparr>cn_access_token := cn_access_token c', cn_refresh_token := cn_refresh_token c',
             cn_expires_at := cn_expires_at c', cn_updated_at := cn_updated_at c',
             cn_provider_specific_data := cn_provider_specific_data c'\<rparr>"
    (is "?upd \<and> ?at \<and> ?rt \<and> ?settings \<and> ?rest")
proof (intro conjI)
  have same: "cn_id d = cid \<longleftrightarrow> d = c" if "d \<in> set (sn_connections sn)" for d
    using that assms(1-3) by (metis (no_types, lifting) distinct_map inj_on_def)
  show ?upd
    using assms(2,3) update_first_distinct [OF assms(1)] same
    by (auto simp: update_connection_credentials_def c'_def)
  show ?at ?rt ?rest by (simp_all add: c'_def apply_credentials_def)
  show ?settings
    by (cases "cn_provider_specific_data c")
       (auto simp: c'_def apply_credentials_def setting_of_def map_simps split: option.split)
qed

theorem credentials_refreshed_witness:
  "cn_refresh_token (apply_credentials 9 \<lparr>cr_access_token = Some ''new'', cr_refresh_token = None,
       cr_expires_at = None, cr_provider_specific_data = None\<rparr>
       ((sample_connection ''b'' ''glm'' 1)\<lparr>cn_refresh_token := Some ''rt''\<rparr>)) = Some ''rt''"
  using credentials_refreshed [of
      "sample_snapshot\<lparr>sn_connections := [(sample_connection ''b'' ''glm'' 1)\<lparr>cn_refresh_token := Some ''rt''\<rparr>]\<rparr>"
      "(sample_connection ''b'' ''glm'' 1)\<lparr>cn_refresh_token := Some ''rt''\<rparr>" "''b''" 9
      "\<lparr>cr_access_token = Some ''new'', cr_refresh_token = None,
       cr_expires_at = None, cr_provider_specific_data = None\<rparr>"]
  by simp

definition uses_pool :: "string \<Rightarrow> connection \<Rightarrow> bool" where
  "uses_pool cid c \<longleftrightarrow> Option.bind (setting_of c ''proxyPoolId'') as_str = Some cid"

lemma bound_count: "bound_connection_count cs cid = length (filter (uses_pool cid) cs)"
  unfolding bound_connection_count_def uses_pool_def setting_of_def ..

text \<open>A proxy pool that a connection uses cannot be deleted, and deleting reports how many use it;
  a deleted pool is gone, nothing else is touched and no connection is left pointing at it.\<close>

theorem delete_pool_safe:
  "case delete_proxy_pool cid sn of
     (PoolInUse n, sn') \<Rightarrow> sn' = sn \<and> n = length (filter (uses_pool cid) (sn_connections sn)) \<and> 0 < n
   | (PoolNotFound, sn') \<Rightarrow> sn' = sn \<and> cid \<notin> pp_id ` set (sn_proxy_pools sn)
   | (PoolDeleted, sn') \<Rightarrow> cid \<in> pp_id ` set (sn_proxy_pools sn)
       \<and> sn' = sn\<lparr>sn_proxy_pools := filter (\<lambda>p. pp_id p \<noteq> cid) (sn_proxy_pools sn)\<rparr>
       \<and> list_all (\<lambda>c. \<not> uses_pool cid c) (sn_connections sn')"
proof (cases "bound_connection_count (sn_connections sn) cid > 0")
  case True
  then show ?thesis by (simp add: delete_proxy_pool_def bound_count)
next
  case False
  then have none: "list_all (\<lambda>c. \<not> uses_pool cid c) (sn_connections sn)"
    by (simp add: bound_count list_all_iff filter_empty_conv)
  let ?ps = "sn_proxy_pools sn"
  have len: "length (filter (\<lambda>p. pp_id p \<noteq> cid) ?ps) = length ?ps \<longleftrightarrow> cid \<notin> pp_id ` set ?ps"
  proof -
    have "length (filter (\<lambda>p. pp_id p \<noteq> cid) ?ps) = length ?ps \<longleftrightarrow> (\<forall>p \<in> set ?ps. pp_id p \<noteq> cid)"
      by (metis (mono_tags, lifting) filter_True length_filter_less less_irrefl)
    then show ?thesis by blast
  qed
  show ?thesis
  proof (cases "cid \<in> pp_id ` set ?ps")
    case True
    then show ?thesis using False len none by (simp add: delete_proxy_pool_def Let_def)
  next
    case notin: False
    then have "filter (\<lambda>p. pp_id p \<noteq> cid) ?ps = ?ps" by (auto simp: filter_id_conv)
    then show ?thesis using False notin by (simp add: delete_proxy_pool_def Let_def)
  qed
qed
end
