(* ===== verification/State_Wire.thy ===== *)
theory State_Wire
  imports Store_Invariant
begin

text \<open>
  The loopback protocol between the runtime and the state service for account selection:
  the handlers of \<open>services/state-actix/src/internal.rs\<close>, which answer with JSON, and the client of
  \<open>services/runtime-actix/src/state_client.rs\<close>, which reads it. A response is its status and its
  JSON body; the transport in between is not modelled, so the client's \<open>Unavailable\<close> for an
  unreachable service or a body that is no JSON is the absent response.
\<close>

section \<open>Credentials\<close>

record credentials =
  cx_connection_id :: string
  cx_connection_name :: string
  cx_api_key :: "string option"
  cx_access_token :: "string option"
  cx_refresh_token :: "string option"
  cx_expires_at :: "string option"
  cx_settings :: "(string \<times> json) list"

definition entry_or_insert :: "string \<Rightarrow> json \<Rightarrow> (string \<times> json) list \<Rightarrow> (string \<times> json) list" where
  "entry_or_insert k v m = (if map_of m k = None then bt_insert k v m else m)"

definition credentials_from_connection :: "connection \<Rightarrow> credentials" where
  "credentials_from_connection c = \<lparr>
     cx_connection_id = cn_id c,
     cx_connection_name =
       (case cn_email c of
          Some email \<Rightarrow> if email \<noteq> [] then email
                        else if cn_name c = [] then cn_id c else cn_name c
        | None \<Rightarrow> if cn_name c = [] then cn_id c else cn_name c),
     cx_api_key = cn_api_key c,
     cx_access_token = cn_access_token c,
     cx_refresh_token = cn_refresh_token c,
     cx_expires_at = cn_expires_at c,
     cx_settings = entry_or_insert ''connectionProxyEnabled'' (JBool False)
       (opt_default [] (cn_provider_specific_data c))\<rparr>"

definition opt_member :: "string \<Rightarrow> string option \<Rightarrow> (string \<times> json) list" where
  "opt_member k v = (case v of None \<Rightarrow> [] | Some s \<Rightarrow> [(k, JStr s)])"

definition credentials_json :: "credentials \<Rightarrow> json" where
  "credentials_json c = jobj (
     [(''connectionId'', JStr (cx_connection_id c)),
      (''connectionName'', JStr (cx_connection_name c))]
     @ opt_member ''apiKey'' (cx_api_key c)
     @ opt_member ''accessToken'' (cx_access_token c)
     @ opt_member ''refreshToken'' (cx_refresh_token c)
     @ opt_member ''expiresAt'' (cx_expires_at c)
     @ [(''providerSpecificData'', JObj (cx_settings c))])"

section \<open>The handlers\<close>

text \<open>The two settings that govern selection.\<close>

record selection_settings =
  st_fallback_strategy :: string
  st_sticky_limit :: nat

record wire_request =
  wr_provider :: string
  wr_model :: "string option"
  wr_exclude :: "string list"
  wr_preferred :: "string option"

definition selection_request :: "selection_settings \<Rightarrow> wire_request \<Rightarrow> select_request" where
  "selection_request st wr = \<lparr>
     rq_provider = wr_provider wr,
     rq_model = wr_model wr,
     rq_exclude = wr_exclude wr,
     rq_preferred = Option.bind (wr_preferred wr)
       (\<lambda>p. let t = trim p in if t = [] then None else Some t),
     rq_strategy = (if st_fallback_strategy st = ''round-robin'' then RoundRobin else FillFirst),
     rq_sticky_limit = st_sticky_limit st\<rparr>"

definition json_opt_str :: "string option \<Rightarrow> json" where
  "json_opt_str v = (case v of None \<Rightarrow> JNull | Some s \<Rightarrow> JStr s)"

definition json_opt_nat :: "nat option \<Rightarrow> json" where
  "json_opt_nat v = (case v of None \<Rightarrow> JNull | Some n \<Rightarrow> JNum (PosInt n))"

definition selection_response :: "wire_request \<Rightarrow> connection_selection \<Rightarrow> nat \<times> json" where
  "selection_response wr sel =
     (case sel of
        Selected c \<Rightarrow> (200, jobj [
          (''status'', JStr ''selected''),
          (''credentials'', credentials_json (credentials_from_connection c))])
      | NoCredentials \<Rightarrow> (404, jobj [
          (''status'', JStr ''no_credentials''),
          (''message'', JStr (''No active credentials for provider: '' @ wr_provider wr))])
      | AllRateLimited t last_error code \<Rightarrow> (200, jobj [
          (''status'', JStr ''all_rate_limited''),
          (''retryAtMs'', JNum (PosInt t)),
          (''lastError'', json_opt_str last_error),
          (''lastErrorCode'', json_opt_nat code)])
      | Exhausted \<Rightarrow> (200, jobj [(''status'', JStr ''exhausted'')]))"

definition handle_select ::
    "selection_settings \<Rightarrow> nat \<Rightarrow> wire_request \<Rightarrow> snapshot \<Rightarrow> (nat \<times> json) \<times> snapshot" where
  "handle_select st now_ms wr sn =
     (let (sel, sn') = select_connection now_ms (millis_to_iso now_ms) (selection_request st wr) sn
      in (selection_response wr sel, sn'))"

section \<open>The client\<close>

datatype selection =
    SelSelected credentials
  | SelNoCredentials string
  | SelAllRateLimited nat "string option" "nat option"
  | SelExhausted
  | SelUnavailable string

text \<open>
  A field as serde reads it: an \<open>Option\<close> field may be absent or null; a field with a
  default may be absent; a value of another type is an error (\<open>None\<close>).
\<close>

definition opt_field :: "(json \<Rightarrow> 'a option) \<Rightarrow> json \<Rightarrow> string \<Rightarrow> 'a option option" where
  "opt_field dec j k =
     (case jget j k of
        None \<Rightarrow> Some None
      | Some v \<Rightarrow> if v = JNull then Some None else map_option Some (dec v))"

definition default_field :: "(json \<Rightarrow> 'a option) \<Rightarrow> 'a \<Rightarrow> json \<Rightarrow> string \<Rightarrow> 'a option" where
  "default_field dec d j k = (case jget j k of None \<Rightarrow> Some d | Some v \<Rightarrow> dec v)"

definition as_u16 :: "json \<Rightarrow> nat option" where
  "as_u16 j = Option.bind (as_u64 j) (\<lambda>n. if n \<le> u16_max then Some n else None)"

definition decode_credentials :: "json \<Rightarrow> credentials option" where
  "decode_credentials j =
     (if as_object j = None then None
      else Option.bind (default_field as_str [] j ''connectionId'') (\<lambda>i.
        Option.bind (default_field as_str [] j ''connectionName'') (\<lambda>n.
        Option.bind (opt_field as_str j ''apiKey'') (\<lambda>k.
        Option.bind (opt_field as_str j ''accessToken'') (\<lambda>a.
        Option.bind (opt_field as_str j ''refreshToken'') (\<lambda>r.
        Option.bind (opt_field as_str j ''expiresAt'') (\<lambda>e.
        map_option (\<lambda>s. \<lparr>cx_connection_id = i, cx_connection_name = n, cx_api_key = k,
            cx_access_token = a, cx_refresh_token = r, cx_expires_at = e, cx_settings = s\<rparr>)
          (default_field as_object [] j ''providerSpecificData''))))))))"

record selection_message =
  sm_status :: string
  sm_credentials :: "credentials option"
  sm_message :: "string option"
  sm_retry_at_ms :: "nat option"
  sm_last_error :: "string option"
  sm_last_error_code :: "nat option"

definition decode_message :: "json \<Rightarrow> selection_message option" where
  "decode_message j =
     Option.bind (Option.bind (jget j ''status'') as_str) (\<lambda>s.
     Option.bind (opt_field decode_credentials j ''credentials'') (\<lambda>c.
     Option.bind (opt_field as_str j ''message'') (\<lambda>m.
     Option.bind (opt_field as_u64 j ''retryAtMs'') (\<lambda>t.
     Option.bind (opt_field as_str j ''lastError'') (\<lambda>e.
     map_option (\<lambda>n. \<lparr>sm_status = s, sm_credentials = c, sm_message = m, sm_retry_at_ms = t,
         sm_last_error = e, sm_last_error_code = n\<rparr>)
       (opt_field as_u16 j ''lastErrorCode''))))))"

definition client_selection :: "string \<Rightarrow> json option \<Rightarrow> selection" where
  "client_selection provider response =
     (case response of
        None \<Rightarrow> SelUnavailable ''state service unreachable''
      | Some body \<Rightarrow>
          (case decode_message body of
             None \<Rightarrow> SelUnavailable ''state service returned an unreadable response''
           | Some m \<Rightarrow>
               if sm_status m = ''selected'' then
                 (case sm_credentials m of
                    None \<Rightarrow> SelUnavailable ''state reported a selection without credentials''
                  | Some c \<Rightarrow> SelSelected c)
               else if sm_status m = ''no_credentials'' then
                 SelNoCredentials
                   (opt_default (''No active credentials for provider: '' @ provider) (sm_message m))
               else if sm_status m = ''all_rate_limited'' then
                 SelAllRateLimited (opt_default 0 (sm_retry_at_ms m)) (sm_last_error m)
                   (sm_last_error_code m)
               else if sm_status m = ''exhausted'' then SelExhausted
               else SelUnavailable
                 (''state returned an unknown selection status: '' @ sm_status m)))"

section \<open>The protocol is faithful\<close>

lemma as_object_jobj [simp]: "as_object (jobj kvs) \<noteq> None" "jobj kvs \<noteq> JNull"
  by (simp_all add: jobj_def)

lemma decode_credentials_json: "decode_credentials (credentials_json c) = Some c"
  by (cases c)
     (simp add: decode_credentials_def credentials_json_def default_field_def opt_field_def
        jget_jobj opt_member_def split: option.split)

text \<open>What the client should conclude from an outcome of the store.\<close>

fun selection_of :: "string \<Rightarrow> connection_selection \<Rightarrow> selection" where
  "selection_of provider (Selected c) = SelSelected (credentials_from_connection c)"
| "selection_of provider NoCredentials =
     SelNoCredentials (''No active credentials for provider: '' @ provider)"
| "selection_of provider (AllRateLimited t e n) = SelAllRateLimited t e n"
| "selection_of provider Exhausted = SelExhausted"


text \<open>Error codes are \<open>u16\<close>.\<close>

fun code_in_range :: "connection_selection \<Rightarrow> bool" where
  "code_in_range (AllRateLimited t e (Some n)) \<longleftrightarrow> n \<le> u16_max"
| "code_in_range _ \<longleftrightarrow> True"

lemma client_reads_response:
  assumes "code_in_range sel"
  shows "client_selection provider (Some (snd (selection_response wr sel))) =
     selection_of (wr_provider wr) sel"
proof (cases sel)
  case (Selected c)
  have "credentials_json x \<noteq> JNull" for x by (simp add: credentials_json_def)
  with Selected show ?thesis
    by (simp add: client_selection_def selection_response_def decode_message_def opt_field_def
        jget_jobj decode_credentials_json)
next
  case NoCredentials
  then show ?thesis
    by (simp add: client_selection_def selection_response_def decode_message_def opt_field_def
        jget_jobj)
next
  case (AllRateLimited t e n)
  then show ?thesis
    using assms
    by (cases e; cases n)
       (simp_all add: client_selection_def selection_response_def decode_message_def opt_field_def
          jget_jobj json_opt_str_def json_opt_nat_def as_u16_def)
next
  case Exhausted
  then show ?thesis
    by (simp add: client_selection_def selection_response_def decode_message_def opt_field_def
        jget_jobj)
qed

text \<open>The selection protocol loses nothing: what the runtime reads from the state service's answer is
  the outcome of the store's selection, with the credentials of the selected connection, and the
  handler leaves the store as the selection did.\<close>

theorem selection_protocol_faithful:
  assumes "\<forall>c \<in> set (sn_connections sn). pred_option (\<lambda>n. n \<le> u16_max) (cn_error_code c)"
  shows "case select_connection now_ms (millis_to_iso now_ms) (selection_request st wr) sn of
    (sel, sn') \<Rightarrow>
      client_selection (wr_provider wr) (Some (snd (fst (handle_select st now_ms wr sn))))
        = selection_of (wr_provider wr) sel
      \<and> snd (handle_select st now_ms wr sn) = sn'"
proof -
  obtain sel sn' where sel:
    "select_connection now_ms (millis_to_iso now_ms) (selection_request st wr) sn = (sel, sn')"
    by (cases "select_connection now_ms (millis_to_iso now_ms) (selection_request st wr) sn")
  have "code_in_range sel"
  proof (cases sel rule: code_in_range.cases)
    case (1 t e n)
    then obtain c where "c \<in> set (sn_connections sn)" "cn_error_code c = Some n"
      using select_meets_spec_aux [of now_ms "selection_request st wr" sn "millis_to_iso now_ms"] sel
      by (auto simp: select_spec_def Let_def)
    then show ?thesis using assms 1 by (auto simp: option.pred_set)
  qed auto
  from client_reads_response [OF this] sel show ?thesis
    by (simp add: handle_select_def)
qed

definition sample_settings :: selection_settings where
  "sample_settings = \<lparr>st_fallback_strategy = ''fill-first'', st_sticky_limit = 3\<rparr>"

definition sample_wire_request :: wire_request where
  "sample_wire_request = \<lparr>wr_provider = ''none'', wr_model = Some ''m'', wr_exclude = [],
     wr_preferred = None\<rparr>"

theorem selection_protocol_faithful_witness:
  "client_selection ''none''
     (Some (snd (fst (handle_select sample_settings 5 sample_wire_request sample_snapshot))))
   = SelNoCredentials ''No active credentials for provider: none''"
proof -
  have m: "\<forall>c \<in> set (sn_connections sample_snapshot). pred_option (\<lambda>n. n \<le> u16_max) (cn_error_code c)"
    by (simp add: sample_snapshot_def sample_connection_def)
  have "select_connection 5 (millis_to_iso 5)
      (selection_request sample_settings sample_wire_request) sample_snapshot
      = (NoCredentials, sample_snapshot)"
    by (rule conjunct1 [OF select_no_credentials])
       (simp add: sample_snapshot_def matches_def selection_request_def sample_wire_request_def)
  with selection_protocol_faithful [OF m, where now_ms = 5 and st = sample_settings
      and wr = sample_wire_request]
  show ?thesis by (simp add: sample_wire_request_def)
qed

end
