(* ===== verification/Model_Names.thy ===== *)
theory Model_Names
  imports Combo Fusion State_Wire
begin

text \<open>
  From a client's model string to the targets to try: the parser of
  \<open>crates/providers/src/model.rs\<close> and the resolution of \<open>services/runtime-actix/src/pipeline.rs\<close>
  (\<open>resolve_targets\<close>, \<open>resolve_node_prefix\<close>, \<open>resolve_service_target\<close>). The provider registry is a
  data file: \<open>alias_to_id\<close> is its alias table and \<open>known\<close> says which ids have an entry.
\<close>

record parsed_model =
  pm_provider :: "string option"
  pm_model :: string
  pm_is_alias :: bool
  pm_provider_alias :: "string option"

record model_target =
  mt_provider :: string
  mt_model :: string

definition resolve_provider_id :: "(string \<rightharpoonup> string) \<Rightarrow> string \<Rightarrow> string" where
  "resolve_provider_id alias_to_id s = opt_default s (alias_to_id s)"

definition parse_model :: "(string \<rightharpoonup> string) \<Rightarrow> string \<Rightarrow> parsed_model" where
  "parse_model alias_to_id s =
     (if s = [] then \<lparr>pm_provider = None, pm_model = [], pm_is_alias = False,
                      pm_provider_alias = None\<rparr>
      else case split_once (CHR ''/'') s of
        Some (p, rest) \<Rightarrow> \<lparr>pm_provider = Some (resolve_provider_id alias_to_id p), pm_model = rest,
                           pm_is_alias = False, pm_provider_alias = Some p\<rparr>
      | None \<Rightarrow> \<lparr>pm_provider = None, pm_model = s, pm_is_alias = True, pm_provider_alias = None\<rparr>)"

definition resolve_model_alias ::
    "(string \<rightharpoonup> string) \<Rightarrow> string \<Rightarrow> (string \<rightharpoonup> json) \<Rightarrow> model_target option" where
  "resolve_model_alias alias_to_id alias aliases =
     (case aliases alias of
        None \<Rightarrow> None
      | Some resolved \<Rightarrow>
          (case as_str resolved of
             Some s \<Rightarrow> map_option (\<lambda>(p, rest). \<lparr>mt_provider = resolve_provider_id alias_to_id p,
                                                mt_model = rest\<rparr>) (split_once (CHR ''/'') s)
           | None \<Rightarrow>
               (case (Option.bind (jget resolved ''provider'') as_str,
                      Option.bind (jget resolved ''model'') as_str) of
                  (Some p, Some m) \<Rightarrow> Some \<lparr>mt_provider = resolve_provider_id alias_to_id p,
                                           mt_model = m\<rparr>
                | _ \<Rightarrow> None)))"

definition infer_provider_from_model_name :: "string \<Rightarrow> string" where
  "infer_provider_from_model_name name =
     (if name = [] then ''openai''
      else
        (let lower = lower_ascii_view name in
         if starts_with lower ''claude-'' then ''anthropic''
         else if starts_with lower ''gemini-'' then ''gemini''
         else if starts_with lower ''gpt-'' then ''openai''
         else if (case strip_prefix lower ''o'' of
                    None \<Rightarrow> False
                  | Some rest \<Rightarrow> starts_with rest ''1'' \<or> starts_with rest ''3'' \<or> starts_with rest ''4'')
              then ''openai''
         else if starts_with lower ''deepseek-'' then ''openrouter''
         else ''openai''))"

definition infer_target :: "string \<Rightarrow> model_target" where
  "infer_target s = \<lparr>mt_provider = infer_provider_from_model_name s, mt_model = s\<rparr>"

definition resolve_target ::
    "(string \<rightharpoonup> string) \<Rightarrow> string \<Rightarrow> (string \<rightharpoonup> json) \<Rightarrow> model_target option" where
  "resolve_target alias_to_id s aliases =
     (let parsed = parse_model alias_to_id s in
      if \<not> pm_is_alias parsed
      then map_option (\<lambda>p. \<lparr>mt_provider = p, mt_model = pm_model parsed\<rparr>) (pm_provider parsed)
      else resolve_model_alias alias_to_id (pm_model parsed) aliases)"

section \<open>The routing context\<close>

record connection_summary =
  cs_provider :: string
  cs_prefix :: "string option"
  cs_enabled_models :: "string list"

record strategy_override =
  so_fallback_strategy :: "string option"
  so_min_panel :: "nat option"
  so_straggler_grace_ms :: "nat option"
  so_panel_hard_timeout_ms :: "nat option"

record routing_context =
  rc_combos :: "(string \<times> string list) list"      \<comment> \<open>name and models\<close>
  rc_connections :: "connection_summary list"
  rc_combo_strategy :: "string option"
  rc_combo_sticky_limit :: "nat option"
  rc_combo_strategies :: "(string \<times> strategy_override) list"

definition empty_context :: routing_context where
  "empty_context = \<lparr>rc_combos = [], rc_connections = [], rc_combo_strategy = None,
     rc_combo_sticky_limit = None, rc_combo_strategies = []\<rparr>"

text \<open>What the state service reports of the snapshot, and its three combo settings.\<close>

definition summarise :: "connection \<Rightarrow> connection_summary" where
  "summarise c = \<lparr>
     cs_provider = cn_provider c,
     cs_prefix = Option.bind (setting_of c ''prefix'') as_str,
     cs_enabled_models =
       (case Option.bind (setting_of c ''enabledModels'') as_array of
          None \<Rightarrow> [] | Some ms \<Rightarrow> List.map_filter as_str ms)\<rparr>"

definition context_of ::
    "snapshot \<Rightarrow> string option \<Rightarrow> nat option \<Rightarrow> (string \<times> strategy_override) list \<Rightarrow> routing_context" where
  "context_of sn strategy sticky overrides = \<lparr>
     rc_combos = map (\<lambda>c. (cb_name c, cb_models c)) (sn_combos sn),
     rc_connections = map summarise (filter cn_is_active (sn_connections sn)),
     rc_combo_strategy = strategy,
     rc_combo_sticky_limit = sticky,
     rc_combo_strategies = overrides\<rparr>"

section \<open>Resolution\<close>

record resolved_targets =
  rt_targets :: "model_target list"
  rt_strategy :: combo_strategy
  rt_tuning :: fusion_tuning

definition DEFAULT_COMBO_STICKY_LIMIT :: nat where "DEFAULT_COMBO_STICKY_LIMIT = 1"

definition resolve_node_prefix ::
    "(string \<rightharpoonup> string) \<Rightarrow> (string \<Rightarrow> bool) \<Rightarrow> routing_context \<Rightarrow> string \<Rightarrow> string option" where
  "resolve_node_prefix alias_to_id known ctx alias =
     (if known alias then None
      else if known (resolve_provider_id alias_to_id alias) then None
      else map_option cs_provider (find (\<lambda>c. cs_prefix c = Some alias) (rc_connections ctx)))"

definition combo_target :: "(string \<rightharpoonup> string) \<Rightarrow> string \<Rightarrow> model_target" where
  "combo_target alias_to_id entry =
     (let parsed = parse_model alias_to_id entry in
      case pm_provider parsed of
        Some p \<Rightarrow> \<lparr>mt_provider = p, mt_model = pm_model parsed\<rparr>
      | None \<Rightarrow> infer_target (pm_model parsed))"

definition combo_strategy_for :: "routing_context \<Rightarrow> string \<Rightarrow> combo_strategy" where
  "combo_strategy_for ctx name =
     strategy_from_settings
       (opt_or (Option.bind (map_of (rc_combo_strategies ctx) name) so_fallback_strategy)
               (rc_combo_strategy ctx))"

definition combo_tuning_for :: "routing_context \<Rightarrow> string \<Rightarrow> fusion_tuning" where
  "combo_tuning_for ctx name =
     (case map_of (rc_combo_strategies ctx) name of
        None \<Rightarrow> default_tuning
      | Some e \<Rightarrow> tuning_from_override (so_min_panel e) (so_straggler_grace_ms e)
                    (so_panel_hard_timeout_ms e))"

definition resolve_targets ::
    "(string \<rightharpoonup> string) \<Rightarrow> (string \<Rightarrow> bool) \<Rightarrow> routing_context \<Rightarrow> string \<Rightarrow> cursors
     \<Rightarrow> resolved_targets \<times> cursors" where
  "resolve_targets alias_to_id known ctx requested cursors =
     (let parsed = parse_model alias_to_id requested in
      if \<not> pm_is_alias parsed then
        (\<lparr>rt_targets =
            (case pm_provider parsed of
               None \<Rightarrow> []
             | Some p \<Rightarrow>
                 [\<lparr>mt_provider =
                     (case Option.bind (pm_provider_alias parsed)
                             (resolve_node_prefix alias_to_id known ctx) of
                        Some node \<Rightarrow> node | None \<Rightarrow> p),
                   mt_model = pm_model parsed\<rparr>]),
          rt_strategy = CFallback, rt_tuning = default_tuning\<rparr>, cursors)
      else
        (case find (\<lambda>c. fst c = pm_model parsed) (rc_combos ctx) of
           Some (name, models) \<Rightarrow>
             if models \<noteq> [] then
               (let strategy = combo_strategy_for ctx name;
                    sticky = opt_default DEFAULT_COMBO_STICKY_LIMIT (rc_combo_sticky_limit ctx);
                    (ordered, cursors') = ordered_models models name strategy sticky cursors
                in (\<lparr>rt_targets = map (combo_target alias_to_id) ordered,
                     rt_strategy = strategy, rt_tuning = combo_tuning_for ctx name\<rparr>, cursors'))
             else (\<lparr>rt_targets = [infer_target (pm_model parsed)], rt_strategy = CFallback,
                    rt_tuning = default_tuning\<rparr>, cursors)
         | None \<Rightarrow> (\<lparr>rt_targets = [infer_target (pm_model parsed)], rt_strategy = CFallback,
                    rt_tuning = default_tuning\<rparr>, cursors)))"

definition resolve_service_target ::
    "(string \<rightharpoonup> string) \<Rightarrow> (string \<Rightarrow> bool) \<Rightarrow> routing_context \<Rightarrow> string \<Rightarrow> cursors
     \<Rightarrow> model_target option \<times> cursors" where
  "resolve_service_target alias_to_id known ctx requested cursors =
     (let first = (\<lambda>(r, cs). (case rt_targets r of [] \<Rightarrow> None | t # _ \<Rightarrow> Some t, cs)) in
      if CHR ''/'' \<in> set requested then first (resolve_targets alias_to_id known ctx requested cursors)
      else
        (let canonical = resolve_provider_id alias_to_id requested in
         if known canonical then (Some \<lparr>mt_provider = canonical, mt_model = []\<rparr>, cursors)
         else first (resolve_targets alias_to_id known ctx requested cursors)))"

section \<open>Properties\<close>

lemma parse_model_slash:
  "CHR ''/'' \<notin> set p \<Longrightarrow> parse_model alias_to_id (p @ CHR ''/'' # m) =
     \<lparr>pm_provider = Some (resolve_provider_id alias_to_id p), pm_model = m, pm_is_alias = False,
      pm_provider_alias = Some p\<rparr>"
proof -
  assume "CHR ''/'' \<notin> set p"
  then have "split_once (CHR ''/'') (p @ CHR ''/'' # m) = Some (p, m)"
    by (simp add: split_once_Some)
  then show ?thesis by (simp add: parse_model_def)
qed

lemma parse_model_bare:
  "CHR ''/'' \<notin> set s \<Longrightarrow> s \<noteq> [] \<Longrightarrow> parse_model alias_to_id s =
     \<lparr>pm_provider = None, pm_model = s, pm_is_alias = True, pm_provider_alias = None\<rparr>"
  by (simp add: parse_model_def split_once_None [THEN iffD2])

lemma ordered_models_set: "set (fst (ordered_models models c st l cs)) = set models"
  using ordered_models_mset by (metis set_mset_mset)

text \<open>Names resolve to what they say. \<open>prefix/model\<close> gives one target with that model, whose provider is the
  registry's for a registered prefix and the connection's for a prefix its owner chose, so a user's
  prefix cannot shadow a built-in provider. A combo name gives one target per configured model, none
  lost, tried in the order the strategy chose. An unknown bare name is inferred from its spelling.\<close>

theorem resolve_targets_meaning:
  assumes "CHR ''/'' \<notin> set name" "name \<noteq> []"
  shows "rt_targets (fst (resolve_targets alias_to_id known ctx (name @ CHR ''/'' # m) cursors)) =
      [\<lparr>mt_provider =
          (if known name \<or> known (resolve_provider_id alias_to_id name)
           then resolve_provider_id alias_to_id name
           else case find (\<lambda>c. cs_prefix c = Some name) (rc_connections ctx) of
                  Some c \<Rightarrow> cs_provider c | None \<Rightarrow> resolve_provider_id alias_to_id name),
        mt_model = m\<rparr>]
    \<and> (case find (\<lambda>c. fst c = name) (rc_combos ctx) of
         Some (n, models) \<Rightarrow>
           if models = [] then rt_targets (fst (resolve_targets alias_to_id known ctx name cursors))
                               = [infer_target name]
           else mset (rt_targets (fst (resolve_targets alias_to_id known ctx name cursors)))
                = mset (map (combo_target alias_to_id) models)
       | None \<Rightarrow> rt_targets (fst (resolve_targets alias_to_id known ctx name cursors))
                  = [infer_target name])"
proof
  show "rt_targets (fst (resolve_targets alias_to_id known ctx (name @ CHR ''/'' # m) cursors)) =
      [\<lparr>mt_provider =
          (if known name \<or> known (resolve_provider_id alias_to_id name)
           then resolve_provider_id alias_to_id name
           else case find (\<lambda>c. cs_prefix c = Some name) (rc_connections ctx) of
                  Some c \<Rightarrow> cs_provider c | None \<Rightarrow> resolve_provider_id alias_to_id name),
        mt_model = m\<rparr>]"
    by (simp add: resolve_targets_def parse_model_slash [OF assms(1)] resolve_node_prefix_def Let_def
        split: option.split)
  show "case find (\<lambda>c. fst c = name) (rc_combos ctx) of
         Some (n, models) \<Rightarrow>
           if models = [] then rt_targets (fst (resolve_targets alias_to_id known ctx name cursors))
                               = [infer_target name]
           else mset (rt_targets (fst (resolve_targets alias_to_id known ctx name cursors)))
                = mset (map (combo_target alias_to_id) models)
       | None \<Rightarrow> rt_targets (fst (resolve_targets alias_to_id known ctx name cursors))
                  = [infer_target name]"
    by (simp add: resolve_targets_def parse_model_bare [OF assms] Let_def split_beta
        ordered_models_mset split: option.split)
qed

theorem resolve_targets_meaning_witness:
  "rt_targets (fst (resolve_targets Map.empty (\<lambda>p. p = ''glm'')
      (empty_context\<lparr>rc_connections := [\<lparr>cs_provider = ''node-1'', cs_prefix = Some ''my'',
         cs_enabled_models = []\<rparr>]\<rparr>) ''my/m'' Map.empty))
   = [\<lparr>mt_provider = ''node-1'', mt_model = ''m''\<rparr>]"
  using resolve_targets_meaning [of "''my''" Map.empty "\<lambda>p. p = ''glm''"
      "empty_context\<lparr>rc_connections := [\<lparr>cs_provider = ''node-1'', cs_prefix = Some ''my'',
         cs_enabled_models = []\<rparr>]\<rparr>" "''m''" Map.empty]
  by (simp add: resolve_provider_id_def)

end
