(* ===== verification/Civil_Time.thy ===== *)
theory Civil_Time
  imports Connection_Store
begin

text \<open>
  The RFC 3339 timestamps of \<open>crates/execute/src/refresh.rs\<close>, hand-written there because the
  workspace carries no date library: reading one, with its offset, to epoch milliseconds and writing
  epoch milliseconds back, over the civil calendar.
\<close>

section \<open>Timestamps\<close>

text \<open>\<open>str::parse::<i64>\<close> for the two-character fields of an offset.\<close>

definition parse_int :: "string \<Rightarrow> int option" where
  "parse_int s =
     (case s of
        [] \<Rightarrow> None
      | c # cs \<Rightarrow>
          if c = CHR ''-'' then map_option (\<lambda>n. - int n)
            (if cs \<noteq> [] \<and> list_all is_digit cs then Some (digits_val cs) else None)
          else map_option int (parse_unsigned u64_max s))"

definition slice :: "string \<Rightarrow> nat \<Rightarrow> nat \<Rightarrow> string option" where
  "slice s from to = (if to \<le> length s then Some (take (to - from) (drop from s)) else None)"

definition number_at :: "string \<Rightarrow> nat \<Rightarrow> nat \<Rightarrow> nat option" where
  "number_at s from to = Option.bind (slice s from to) parse_u64"

text \<open>
  The offset of a timestamp in seconds. \<open>str::get\<close> is absent inside a character. The two fields are
  read only when the tail starts with a sign.
\<close>

definition trailing_offset_seconds :: "string \<Rightarrow> int option" where
  "trailing_offset_seconds text =
     (if ends_with text ''Z'' \<or> ends_with text ''z'' then Some 0
      else if length text < 6 \<or> is_continuation (text ! (length text - 6)) then None
      else
        (let tail = drop (length text - 6) text;
             sign = (if hd tail = CHR ''+'' then Some 1
                     else if hd tail = CHR ''-'' then Some (- 1) else None :: int option)
         in case sign of
              None \<Rightarrow> Some 0
            | Some sg \<Rightarrow>
                (case (Option.bind (slice tail 1 3) parse_int, Option.bind (slice tail 4 6) parse_int) of
                   (Some hours, Some minutes) \<Rightarrow> Some (sg * (hours * 3600 + minutes * 60))
                 | _ \<Rightarrow> None)))"

definition days_from_civil :: "nat \<Rightarrow> nat \<Rightarrow> nat \<Rightarrow> int" where
  "days_from_civil year month day =
     (let year_adjusted = (if month \<le> 2 then year - 1 else year);
          era = year_adjusted div 400;
          year_of_era = year_adjusted - era * 400;
          month_shifted = (if month > 2 then month - 3 else month + 9);
          day_of_year = (153 * month_shifted + 2) div 5 + day - 1;
          day_of_era = year_of_era * 365 + year_of_era div 4 - year_of_era div 100 + day_of_year
      in int (era * 146097 + day_of_era) - 719468)"

text \<open>
  \<open>None\<close> is the panic of a checked build: January or February of year 0 makes \<open>year - 1\<close>
  overflow. \<open>Some None\<close> is a text that is no timestamp.
\<close>

definition parse_rfc3339_millis :: "string \<Rightarrow> nat option option" where
  "parse_rfc3339_millis raw =
     (let text = trim raw in
      case parse_u64 text of
        Some millis \<Rightarrow> Some (Some millis)
      | None \<Rightarrow>
          (case (number_at text 0 4, number_at text 5 7, number_at text 8 10,
                 number_at text 11 13, number_at text 14 16, number_at text 17 19) of
             (Some year, Some month, Some day, Some hour, Some minute, Some second) \<Rightarrow>
               if \<not> (1 \<le> month \<and> month \<le> 12) \<or> \<not> (1 \<le> day \<and> day \<le> 31) then Some None
               else if month \<le> 2 \<and> year = 0 then None
               else
                 (let seconds = days_from_civil year month day * 86400
                        + int (hour * 3600 + minute * 60 + second)
                  in Some (Option.bind (trailing_offset_seconds text)
                       (\<lambda>offset. let ms = (seconds - offset) * 1000
                                 in if 0 \<le> ms \<and> ms \<le> int u64_max then Some (nat ms) else None)))
           | _ \<Rightarrow> Some None))"

definition pad_zero :: "nat \<Rightarrow> nat \<Rightarrow> string" where
  "pad_zero w n = (let s = show_nat n in replicate (w - length s) (CHR ''0'') @ s)"

definition civil_from_days :: "int \<Rightarrow> int \<times> int \<times> int" where
  "civil_from_days days =
     (let z = days + 719468;
          era = z div 146097;
          day_of_era = z - era * 146097;
          year_of_era = (day_of_era - day_of_era div 1460 + day_of_era div 36524
                         - day_of_era div 146096) div 365;
          year = year_of_era + era * 400;
          day_of_year = day_of_era - (365 * year_of_era + year_of_era div 4 - year_of_era div 100);
          month_shifted = (5 * day_of_year + 2) div 153;
          day = day_of_year - (153 * month_shifted + 2) div 5 + 1;
          month = (if month_shifted < 10 then month_shifted + 3 else month_shifted - 9);
          year = (if month \<le> 2 then year + 1 else year)
      in (year, month, day))"

text \<open>\<open>millis\<close> is unsigned, so the days are not negative and every division is one of naturals.\<close>

definition format_rfc3339_millis :: "nat \<Rightarrow> string" where
  "format_rfc3339_millis millis =
     (let total_seconds = millis div 1000;
          (year, month, day) = civil_from_days (int (total_seconds div 86400));
          time_of_day = total_seconds mod 86400
      in pad_zero 4 (nat year) @ ''-'' @ pad_zero 2 (nat month) @ ''-'' @ pad_zero 2 (nat day)
         @ ''T'' @ pad_zero 2 (time_of_day div 3600) @ '':''
         @ pad_zero 2 ((time_of_day mod 3600) div 60) @ '':''
         @ pad_zero 2 (time_of_day mod 60) @ ''Z'')"

section \<open>The calendar\<close>

text \<open>The year of a 400-year era and the first day of a year, counted from March.\<close>

definition yoe :: "int \<Rightarrow> int" where
  "yoe d = (d - d div 1460 + d div 36524 - d div 146096) div 365"

definition ystart :: "int \<Rightarrow> int" where
  "ystart y = 365 * y + y div 4 - y div 100"

lemma int_div_eq: "0 < k \<Longrightarrow> k * q \<le> n \<Longrightarrow> n < k * q + k \<Longrightarrow> n div k = (q::int)"
  by (rule int_div_pos_eq [where r = "n - k * q"]) auto

lemma yoe_decomp:
  assumes "0 \<le> c" "c \<le> 3" "0 \<le> q" "q \<le> 24" "0 \<le> r" "r \<le> 3" "0 \<le> s" "s \<le> 364 \<or> s = 365 \<and> r = 3"
    "d = 36524 * c + 1461 * q + 365 * r + s"
    "1461 * q + 365 * r + s \<le> 36523 \<or> c = 3 \<and> 1461 * q + 365 * r + s = 36524"
  shows "yoe d = 100 * c + 4 * q + r \<and> ystart (100 * c + 4 * q + r) = d - s"
proof
  let ?o = "24 * c + q + 365 * r + s"
  have big: "d div 146096 = (if d = 146096 then 1 else 0)"
    using assms by (intro int_div_eq) auto
  have cent: "d div 36524 = c + d div 146096"
    unfolding big using assms by (intro int_div_eq) (auto split: if_splits)
  have quad: "d div 1460 = 25 * c + q + (if 1460 \<le> ?o then 1 else 0)"
    using assms by (intro int_div_eq) (auto split: if_splits)
  have n: "d - d div 1460 + d div 36524 - d div 146096 =
      365 * (100 * c + 4 * q + r) + (s - (if 1460 \<le> ?o then 1 else 0))"
    unfolding quad cent using assms(9) by (simp add: algebra_simps)
  have "0 \<le> s - (if 1460 \<le> ?o then 1 else 0)" "s - (if 1460 \<le> ?o then 1 else 0) \<le> 364"
    using assms by auto
  then show "yoe d = 100 * c + 4 * q + r"
    unfolding yoe_def n by (intro int_div_eq) auto
  have "(100 * c + 4 * q + r) div 4 = 25 * c + q" using assms by (intro int_div_eq) auto
  moreover have "(100 * c + 4 * q + r) div 100 = c" using assms by (intro int_div_eq) auto
  ultimately show "ystart (100 * c + 4 * q + r) = d - s"
    using assms(9) by (simp add: ystart_def algebra_simps)
qed

lemma div_bounds:
  fixes k n :: int
  assumes "0 < k"
  shows "k * (n div k) \<le> n" "n < k * (n div k) + k"
proof -
  have "k * (n div k) + n mod k = n" by simp
  then show "k * (n div k) \<le> n" "n < k * (n div k) + k"
    using pos_mod_sign [OF assms, of n] pos_mod_bound [OF assms, of n] by linarith+
qed

lemma yoe_year:
  assumes "0 \<le> d" "d < 146097"
  shows "0 \<le> yoe d \<and> yoe d \<le> 399 \<and> ystart (yoe d) \<le> d \<and> d - ystart (yoe d) \<le> 365"
proof -
  define c where "c = min (d div 36524) 3"
  define e where "e = d - 36524 * c"
  define q where "q = e div 1461"
  define f where "f = e - 1461 * q"
  define r where "r = min (f div 365) 3"
  define s where "s = f - 365 * r"
  have c: "0 \<le> c" "c \<le> 3" "0 \<le> e" "e \<le> 36523 \<or> c = 3 \<and> e = 36524"
    using assms div_bounds [of 36524 d] unfolding e_def c_def by (auto simp: min_def)
  have q: "0 \<le> q" "q \<le> 24" "0 \<le> f" "f \<le> 1460"
    using c div_bounds [of 1461 e] unfolding f_def q_def by auto
  have r: "0 \<le> r" "r \<le> 3" "0 \<le> s" "s \<le> 364 \<or> s = 365 \<and> r = 3"
    using q div_bounds [of 365 f] unfolding s_def r_def by (auto simp: min_def)
  have d: "d = 36524 * c + 1461 * q + 365 * r + s" by (simp add: s_def f_def e_def)
  have e: "1461 * q + 365 * r + s = e" by (simp add: s_def f_def)
  from yoe_decomp [OF c(1,2) q(1,2) r(1,2,3,4) d] c(4)
  have "yoe d = 100 * c + 4 * q + r \<and> ystart (100 * c + 4 * q + r) = d - s"
    unfolding e by blast
  then show ?thesis using c q r by auto
qed

lemma month_day:
  fixes doy mp :: int
  assumes "0 \<le> doy" "doy \<le> 365" "mp = (5 * doy + 2) div 153"
  shows "0 \<le> mp \<and> mp \<le> 11 \<and> (153 * mp + 2) div 5 \<le> doy \<and> doy - (153 * mp + 2) div 5 + 1 \<le> 31"
proof -
  have m: "0 \<le> mp" "mp \<le> 11" "153 * mp \<le> 5 * doy + 2" "5 * doy + 2 < 153 * mp + 153"
    using assms div_bounds [of 153 "5 * doy + 2"] by auto
  moreover have "5 * ((153 * mp + 2) div 5) \<le> 153 * mp + 2"
    "153 * mp + 2 < 5 * ((153 * mp + 2) div 5) + 5"
    using div_bounds [of 5 "153 * mp + 2"] by auto
  ultimately show ?thesis by linarith
qed

lemma civil_round_trip:
  assumes "civil_from_days (int n) = (y, m, d)"
  shows "1 \<le> m" "m \<le> 12" "1 \<le> d" "d \<le> 31" "0 \<le> y" "m \<le> 2 \<longrightarrow> 1 \<le> y"
    "days_from_civil (nat y) (nat m) (nat d) = int n" "n \<le> 2932896 \<longrightarrow> y \<le> 9999"
proof -
  define z where "z = int n + 719468"
  define era where "era = z div 146097"
  define doe where "doe = z - era * 146097"
  define yo where "yo = yoe doe"
  define doy where "doy = doe - ystart yo"
  define mp where "mp = (5 * doy + 2) div 153"
  have z: "0 \<le> z" by (simp add: z_def)
  have era: "0 \<le> era" using z by (simp add: era_def pos_imp_zdiv_nonneg_iff)
  have doe: "0 \<le> doe" "doe < 146097"
    using pos_mod_sign [of 146097 z] pos_mod_bound [of 146097 z]
    by (simp_all add: doe_def era_def minus_div_mult_eq_mod)
  have yo: "0 \<le> yo" "yo \<le> 399" "0 \<le> doy" "doy \<le> 365"
    using yoe_year [OF doe] by (auto simp: yo_def doy_def)
  have mp: "0 \<le> mp" "mp \<le> 11" "(153 * mp + 2) div 5 \<le> doy" "doy - (153 * mp + 2) div 5 + 1 \<le> 31"
    using month_day [OF yo(3,4) mp_def] by auto
  have res: "m = (if mp < 10 then mp + 3 else mp - 9)" "d = doy - (153 * mp + 2) div 5 + 1"
    "y = yo + era * 400 + (if m \<le> 2 then 1 else 0)"
    using assms
    unfolding civil_from_days_def Let_def z_def [symmetric] era_def [symmetric]
      doe_def [symmetric] yoe_def [symmetric] yo_def [symmetric] ystart_def [symmetric]
      doy_def [symmetric] mp_def [symmetric]
    by (auto simp: yoe_def [symmetric] ystart_def [symmetric] yo_def [symmetric]
        doy_def [symmetric] mp_def [symmetric] split: if_splits)
  show b: "1 \<le> m" "m \<le> 12" "1 \<le> d" "d \<le> 31" "0 \<le> y" "m \<le> 2 \<longrightarrow> 1 \<le> y"
    using mp yo era res by auto
  show "n \<le> 2932896 \<longrightarrow> y \<le> 9999"
  proof
    assume "n \<le> 2932896"
    then have "z \<le> 3652364" by (simp add: z_def)
    moreover have zd: "z = era * 146097 + doe" by (simp add: doe_def)
    ultimately have "era \<le> 24" "era = 24 \<longrightarrow> doe \<le> 146036" using doe by auto
    moreover have "\<not> (yo = 399 \<and> m \<le> 2)" if "doe \<le> 146036"
    proof
      assume a: "yo = 399 \<and> m \<le> 2"
      then have "10 \<le> mp" using res(1) mp(1) by (auto split: if_splits)
      then have "306 \<le> doy" using div_bounds [of 153 "5 * doy + 2"] by (simp add: mp_def)
      moreover have "doe = ystart yo + doy" by (simp add: doy_def)
      ultimately show False using a that by (simp add: ystart_def)
    qed
    ultimately show "y \<le> 9999" using res(3) yo(2) by (cases "era = 24") (auto split: if_splits)
  qed
  have ya: "(if nat m \<le> 2 then nat y - 1 else nat y) = nat (yo + era * 400)"
    using b res(3) yo era by (auto simp: nat_diff_distrib)
  have e4: "nat (yo + era * 400) div 400 = nat era"
    using yo era by (simp add: nat_div_distrib [symmetric] int_div_eq)
  have y4: "nat (yo + era * 400) - nat era * 400 = nat yo"
    using yo era by (simp add: nat_diff_distrib [symmetric] nat_mult_distrib [symmetric])
  have ms: "(if nat m > 2 then nat m - 3 else nat m + 9) = nat mp"
    using mp res(1) by (auto simp: nat_diff_distrib)
  have dy: "(153 * nat mp + 2) div 5 + nat d - 1 = nat doy"
  proof -
    have "(153 * nat mp + 2) div 5 = nat ((153 * mp + 2) div 5)"
      using mp(1) by (simp add: nat_div_distrib nat_add_distrib nat_mult_distrib)
    moreover have "0 \<le> (153 * mp + 2) div 5" using mp(1) by simp
    ultimately show ?thesis using res(2) b(3) yo(3) mp(3) by linarith
  qed
  have "days_from_civil (nat y) (nat m) (nat d) =
      int (nat era * 146097 + (nat yo * 365 + nat yo div 4 - nat yo div 100 + nat doy)) - 719468"
    unfolding days_from_civil_def Let_def ya e4 y4 ms dy ..
  also have "nat yo * 365 + nat yo div 4 - nat yo div 100 = nat (ystart yo)"
  proof -
    have "nat yo * 365 + nat yo div 4 - nat yo div 100 = nat (365 * yo + yo div 4) - nat (yo div 100)"
      using yo(1) by (simp add: nat_div_distrib nat_add_distrib nat_mult_distrib mult.commute)
    also have "\<dots> = nat (ystart yo)"
      using yo(1) by (simp add: ystart_def nat_diff_distrib [symmetric] zdiv_mono1)
    finally show ?thesis .
  qed
  also have "nat era * 146097 + (nat (ystart yo) + nat doy) = nat z"
  proof -
    have "ystart yo + doy = doe" "era * 146097 + doe = z" by (simp_all add: doy_def doe_def)
    moreover have "0 \<le> ystart yo" using yo by (simp add: ystart_def)
    ultimately show ?thesis
      using era yo(3) doe(1) by (simp add: nat_add_distrib [symmetric] nat_mult_distrib [symmetric])
  qed
  also have "int (nat z) - 719468 = int n" using z by (simp add: z_def)
  finally show "days_from_civil (nat y) (nat m) (nat d) = int n" .
qed


section \<open>The text\<close>

lemma length_show_nat: "n < 10 ^ w \<Longrightarrow> 0 < w \<Longrightarrow> length (show_nat n) \<le> w"
proof (induction n arbitrary: w rule: show_nat.induct)
  case (1 n)
  show ?case
  proof (cases "n < 10")
    case True
    then show ?thesis using "1.prems"(2) by (subst show_nat.simps) simp
  next
    case False
    then obtain v where w: "w = Suc v" "0 < v"
      using "1.prems" by (cases w; cases "w - 1") auto
    then have "n div 10 < 10 ^ v" using "1.prems"(1) by (simp add: less_mult_imp_div_less mult.commute)
    from "1.IH" [OF False this w(2)] show ?thesis using False w by (subst show_nat.simps) simp
  qed
qed

lemma length_pad_zero: "n < 10 ^ w \<Longrightarrow> 0 < w \<Longrightarrow> length (pad_zero w n) = w"
  using length_show_nat [of n w] by (simp add: pad_zero_def Let_def)

lemma digits_val_zeros: "digits_val (replicate k (CHR ''0'') @ s) = digits_val s"
proof (induction k)
  case (Suc k)
  then show ?case by (simp add: digits_val_def digit_val_def)
qed simp

lemma pad_zero_digits: "list_all is_digit (pad_zero w n)"
  by (auto simp: pad_zero_def Let_def list_all_iff is_digit_def dest: show_nat_digits [unfolded is_digit_def])

lemma parse_digits:
  assumes "list_all is_digit s" "s \<noteq> []" "digits_val s \<le> u64_max"
  shows "parse_u64 s = Some (digits_val s)"
proof -
  obtain c cs where s: "s = c # cs" using assms(2) by (cases s) auto
  then have "c \<noteq> CHR ''+''" using assms(1) by (auto simp: is_digit_def)
  then show ?thesis using assms s by (simp add: parse_u64_def parse_unsigned_def)
qed

lemma parse_pad_zero: "n < 10 ^ w \<Longrightarrow> 0 < w \<Longrightarrow> w \<le> 4 \<Longrightarrow> parse_u64 (pad_zero w n) = Some n"
proof -
  assume n: "n < 10 ^ w" "0 < w" "w \<le> 4"
  have v: "digits_val (pad_zero w n) = n"
    by (simp add: pad_zero_def Let_def digits_val_zeros digits_val_show_nat)
  have "(10::nat) ^ w \<le> 10 ^ 4" using n(3) by (intro power_increasing) auto
  then have "n \<le> u64_max" using n(1) by (simp add: u64_max_def)
  then show ?thesis
    using parse_digits [OF pad_zero_digits, of w n] n v by (simp add: pad_zero_def Let_def)
qed

lemma number_at_pad:
  assumes "length p = from" "to = from + w" "n < 10 ^ w" "0 < w" "w \<le> 4"
  shows "number_at (p @ pad_zero w n @ q) from to = Some n"
  using assms parse_pad_zero [OF assms(3-5)] length_pad_zero [OF assms(3,4)]
  by (simp add: number_at_def slice_def)

lemma trim_stamp:
  assumes "is_digit c"
  shows "trim (c # s @ ''Z'') = c # s @ ''Z''"
proof -
  have "trim_start (c # s @ ''Z'') = c # s @ ''Z''"
    unfolding trim_start_def using assms by (subst strip_white.simps) (simp add: white_len_digit)
  moreover have "list_all (\<lambda>w. w \<noteq> [] \<and> hd w \<noteq> CHR ''Z'') (map rev white_seqs)"
    by code_simp
  then have "white_len (map rev white_seqs) (CHR ''Z'' # rev s @ [c]) = 0"
    by (intro white_len_no_match) (auto simp: list_all_iff)
  then have "strip_white (map rev white_seqs) (CHR ''Z'' # rev s @ [c]) = CHR ''Z'' # rev s @ [c]"
    by (subst strip_white.simps) simp
  ultimately show ?thesis by (simp add: trim_def trim_end_def)
qed

lemma not_a_number: "CHR ''-'' \<in> set s \<Longrightarrow> parse_u64 (c # s) = None"
proof -
  assume "CHR ''-'' \<in> set s"
  moreover have "\<not> is_digit (CHR ''-'')" by (simp add: is_digit_def)
  ultimately have "\<not> list_all is_digit s" by (auto simp: list_all_iff)
  then show ?thesis by (simp add: parse_u64_def parse_unsigned_def)
qed

lemma round_trip_aux:
  assumes "millis < 253402300800000"
  shows "parse_rfc3339_millis (format_rfc3339_millis millis) = Some (Some (millis - millis mod 1000))"
proof -
  define ts where "ts = millis div 1000"
  define tod where "tod = ts mod 86400"
  obtain y m d where civ: "civil_from_days (int (ts div 86400)) = (y, m, d)"
    by (cases "civil_from_days (int (ts div 86400))") auto
  have days: "ts div 86400 \<le> 2932896" using assms by (simp add: ts_def)
  note c = civil_round_trip [OF civ]
  have y: "nat y < 10 ^ 4" using c(8) days by simp
  have mb: "nat m < 10 ^ 2" "nat d < 10 ^ 2" using c by simp_all
  have tb: "tod div 3600 < 10 ^ 2" "(tod mod 3600) div 60 < 10 ^ 2" "tod mod 60 < 10 ^ 2"
    by (simp_all add: tod_def less_mult_imp_div_less)
  let ?Y = "pad_zero 4 (nat y)" and ?M = "pad_zero 2 (nat m)" and ?D = "pad_zero 2 (nat d)"
  let ?h = "pad_zero 2 (tod div 3600)" and ?i = "pad_zero 2 ((tod mod 3600) div 60)"
  let ?s = "pad_zero 2 (tod mod 60)"
  have shape: "format_rfc3339_millis millis =
      ?Y @ ''-'' @ ?M @ ''-'' @ ?D @ ''T'' @ ?h @ '':'' @ ?i @ '':'' @ ?s @ ''Z''" (is "_ = ?t")
    by (simp add: format_rfc3339_millis_def ts_def [symmetric] civ tod_def [symmetric] Let_def)
  have len: "length ?Y = 4" "length ?M = 2" "length ?D = 2" "length ?h = 2" "length ?i = 2"
    using y mb tb by (simp_all only: length_pad_zero)
  obtain k ks where k: "?Y = k # ks" "is_digit k"
    using len(1) pad_zero_digits [of 4 "nat y"] by (cases ?Y) auto
  have t: "trim ?t = ?t"
    using trim_stamp [OF k(2), of "ks @ ''-'' @ ?M @ ''-'' @ ?D @ ''T'' @ ?h @ '':'' @ ?i @ '':'' @ ?s"]
    by (simp add: k(1))
  have nn: "parse_u64 ?t = None"
    unfolding k(1) by (simp add: not_a_number)
  have n1: "number_at ?t 0 4 = Some (nat y)"
    using number_at_pad [of "[]" 0 4 4 "nat y"] y by simp
  have n2: "number_at ?t 5 7 = Some (nat m)"
    using number_at_pad [of "?Y @ ''-''" 5 7 2 "nat m"] mb len by simp
  have n3: "number_at ?t 8 10 = Some (nat d)"
    using number_at_pad [of "?Y @ ''-'' @ ?M @ ''-''" 8 10 2 "nat d"] mb len by simp
  have n4: "number_at ?t 11 13 = Some (tod div 3600)"
    using number_at_pad [of "?Y @ ''-'' @ ?M @ ''-'' @ ?D @ ''T''" 11 13 2] tb len by simp
  have n5: "number_at ?t 14 16 = Some ((tod mod 3600) div 60)"
    using number_at_pad [of "?Y @ ''-'' @ ?M @ ''-'' @ ?D @ ''T'' @ ?h @ '':''" 14 16 2] tb len by simp
  have n6: "number_at ?t 17 19 = Some (tod mod 60)"
    using number_at_pad [of "?Y @ ''-'' @ ?M @ ''-'' @ ?D @ ''T'' @ ?h @ '':'' @ ?i @ '':''" 17 19 2]
      tb len by simp
  have off: "trailing_offset_seconds ?t = Some 0"
    by (simp add: trailing_offset_seconds_def ends_with_def starts_with_def)
  have "tod div 3600 * 3600 + (tod mod 3600) div 60 * 60 + tod mod 60 = tod"
  proof -
    have "(tod mod 3600) div 60 * 60 + tod mod 3600 mod 60 = tod mod 3600" by simp
    moreover have "tod mod 3600 mod 60 = tod mod 60" by (simp add: mod_mod_cancel)
    ultimately show ?thesis using div_mult_mod_eq [of tod 3600] by linarith
  qed
  moreover have "ts div 86400 * 86400 + tod = ts" by (simp add: tod_def)
  ultimately have sec: "days_from_civil (nat y) (nat m) (nat d) * 86400
      + int (tod div 3600 * 3600 + (tod mod 3600) div 60 * 60 + tod mod 60) = int ts"
    unfolding c(7) by (simp flip: of_nat_mult of_nat_add)
  have ms: "nat (int ts * 1000) = millis - millis mod 1000" "int ts * 1000 \<le> int u64_max"
    using assms by (simp_all add: ts_def minus_mod_eq_div_mult nat_mult_distrib u64_max_def)
  have range: "1 \<le> nat m \<and> nat m \<le> 12" "1 \<le> nat d \<and> nat d \<le> 31" "\<not> (nat m \<le> 2 \<and> nat y = 0)"
    using c(1-6) by auto
  show ?thesis
    unfolding shape parse_rfc3339_millis_def Let_def t nn n1 n2 n3 n4 n5 n6 off sec
      option.case prod.case
    using range ms by simp
qed

text \<open>C40: Writing a time and reading it back gives the time rounded down to the second, for every
  time before the year 10000; the calendar arithmetic of the two directions is inverse.\<close>

theorem rfc3339_round_trip:
  assumes "millis < 253402300800000"
  shows "parse_rfc3339_millis (format_rfc3339_millis millis) = Some (Some (millis - millis mod 1000))"
  by (rule round_trip_aux [OF assms])

theorem rfc3339_round_trip_witness:
  "parse_rfc3339_millis (format_rfc3339_millis 1717200000500) = Some (Some 1717200000000)"
  using rfc3339_round_trip [of 1717200000500] by simp

end
