(* ===== verification/Token_Refresh.thy ===== *)
theory Token_Refresh
  imports State_Wire Civil_Time
begin

text \<open>
  OAuth refresh (\<open>crates/execute/src/refresh.rs\<close>): when a token is due, the reply of a token endpoint, and what is stored after a refresh. The provider registry is data: what
  this module reads of it is the function \<open>oauth\<close> from provider ids to \<open>oauth_entry\<close>, and
  \<open>parse_json\<close> is serde_json's parser.
\<close>

section \<open>When a token is due\<close>

definition DEFAULT_REFRESH_LEAD_MS :: nat where "DEFAULT_REFRESH_LEAD_MS = 5 * 60 * 1000"

definition UNSUPPORTED :: "string list" where
  "UNSUPPORTED = [''kiro'', ''github'', ''vertex'', ''vertex-partner'', ''cursor'']"

record oauth_entry =
  oa_token_url :: "string option"
  oa_refresh_url :: "string option"
  oa_refresh_lead_ms :: "nat option"
  oa_max_refresh_age_ms :: "nat option"

definition effective_refresh_url :: "oauth_entry \<Rightarrow> string option" where
  "effective_refresh_url o' = opt_or (oa_refresh_url o') (oa_token_url o')"

definition supports_refresh :: "(string \<rightharpoonup> oauth_entry) \<Rightarrow> string \<Rightarrow> bool" where
  "supports_refresh oauth provider \<longleftrightarrow>
     provider \<notin> set UNSUPPORTED \<and>
     (case oauth provider of None \<Rightarrow> False | Some o' \<Rightarrow> effective_refresh_url o' \<noteq> None)"

definition refresh_lead_ms :: "(string \<rightharpoonup> oauth_entry) \<Rightarrow> string \<Rightarrow> nat" where
  "refresh_lead_ms oauth provider =
     opt_default DEFAULT_REFRESH_LEAD_MS (Option.bind (oauth provider) oa_refresh_lead_ms)"

text \<open>\<open>Credentials::setting\<close>: a non-blank string setting, trimmed.\<close>

definition setting :: "credentials \<Rightarrow> string \<Rightarrow> string option" where
  "setting c key =
     Option.bind (Option.bind (map_of (cx_settings c) key) as_str)
       (\<lambda>v. let t = trim v in if t = [] then None else Some t)"

definition should_refresh ::
    "(string \<rightharpoonup> oauth_entry) \<Rightarrow> string \<Rightarrow> credentials \<Rightarrow> nat \<Rightarrow> bool option" where
  "should_refresh oauth provider c now_ms =
     (if cx_refresh_token c = None \<or> \<not> supports_refresh oauth provider then Some False
      else
        Option.bind (case cx_expires_at c of None \<Rightarrow> Some None | Some e \<Rightarrow> parse_rfc3339_millis e)
        (\<lambda>expires.
           if (case expires of None \<Rightarrow> False
               | Some expiry \<Rightarrow> expiry - now_ms < refresh_lead_ms oauth provider) then Some True
           else
             (case Option.bind (oauth provider) oa_max_refresh_age_ms of
                None \<Rightarrow> Some False
              | Some max_age \<Rightarrow>
                  Option.bind (case setting c ''lastRefreshAt'' of
                                 None \<Rightarrow> Some None | Some t \<Rightarrow> parse_rfc3339_millis t)
                    (\<lambda>last. Some (case last of None \<Rightarrow> True | Some l \<Rightarrow> max_age \<le> now_ms - l)))))"

section \<open>The token endpoint's reply\<close>

text \<open>A lifetime so large that the expiry overflows wraps around in the release build.\<close>

record refreshed =
  rf_access_token :: string
  rf_refresh_token :: string
  rf_expires_at :: "string option"
  rf_id_token :: "string option"

datatype refresh_error = RUnsupported | RNotConfigured | RRejected string | RTransient string

fun is_permanent :: "refresh_error \<Rightarrow> bool" where
  "is_permanent (RRejected m) = True"
| "is_permanent RUnsupported = True"
| "is_permanent _ = False"

record token_response =
  tr_access_token :: "string option"
  tr_refresh_token :: "string option"
  tr_expires_in :: "nat option"
  tr_id_token :: "string option"
  tr_error :: "string option"
  tr_error_description :: "string option"

definition decode_token_response :: "json \<Rightarrow> token_response option" where
  "decode_token_response j =
     (if as_object j = None then None
      else Option.bind (opt_field as_str j ''access_token'') (\<lambda>a.
        Option.bind (opt_field as_str j ''refresh_token'') (\<lambda>r.
        Option.bind (opt_field as_u64 j ''expires_in'') (\<lambda>e.
        Option.bind (opt_field as_str j ''id_token'') (\<lambda>i.
        Option.bind (opt_field as_str j ''error'') (\<lambda>err.
        map_option (\<lambda>d. \<lparr>tr_access_token = a, tr_refresh_token = r, tr_expires_in = e,
            tr_id_token = i, tr_error = err, tr_error_description = d\<rparr>)
          (opt_field as_str j ''error_description'')))))))"

definition non_empty :: "string option \<Rightarrow> string option" where
  "non_empty v = (case v of Some t \<Rightarrow> if t \<noteq> [] then Some t else None | None \<Rightarrow> None)"

definition settle ::
    "(string \<Rightarrow> json option) \<Rightarrow> nat \<Rightarrow> string \<Rightarrow> string \<Rightarrow> nat \<Rightarrow> refresh_error + refreshed" where
  "settle parse_json status body previous now_ms =
     (let parsed = Option.bind (parse_json body) decode_token_response;
          reported = Option.bind parsed tr_error;
          description = Option.bind parsed tr_error_description
      in if (case reported of
               None \<Rightarrow> False
             | Some code \<Rightarrow> code \<in> {''invalid_grant'', ''invalid_request'', ''invalid_client'',
                                  ''unauthorized_client''})
         then Inl (RRejected (opt_default (the reported) description))
         else if status = 400 \<or> status = 401 \<or> status = 403
         then Inl (RRejected (opt_default (''the token endpoint answered '' @ show_nat status)
                (opt_or description reported)))
         else if \<not> (200 \<le> status \<and> status < 300)
         then Inl (RTransient (''the token endpoint answered '' @ show_nat status))
         else
           (case parsed of
              None \<Rightarrow> Inl (RTransient ''the token endpoint returned an unreadable body'')
            | Some p \<Rightarrow>
                (case non_empty (tr_access_token p) of
                   None \<Rightarrow> Inl (RTransient ''the token endpoint returned no access token'')
                 | Some access \<Rightarrow> Inr \<lparr>
                     rf_access_token = access,
                     rf_refresh_token = opt_default previous (non_empty (tr_refresh_token p)),
                     rf_expires_at = map_option
                       (\<lambda>seconds. format_rfc3339_millis ((now_ms + seconds * 1000) mod 2 ^ 64))
                       (tr_expires_in p),
                     rf_id_token = non_empty (tr_id_token p)\<rparr>)))"

definition persist_update :: "nat \<Rightarrow> refreshed \<Rightarrow> credential_update" where
  "persist_update now_ms r = \<lparr>
     cr_access_token = Some (rf_access_token r),
     cr_refresh_token = Some (rf_refresh_token r),
     cr_expires_at = rf_expires_at r,
     cr_provider_specific_data = Some (
       (let s = bt_insert ''lastRefreshAt'' (JStr (format_rfc3339_millis now_ms)) []
        in case rf_id_token r of None \<Rightarrow> s | Some t \<Rightarrow> bt_insert ''idToken'' (JStr t) s))\<rparr>"

section \<open>Properties\<close>

lemma settle_Inr:
  assumes "settle parse_json status body previous now_ms = Inr r"
  shows "200 \<le> status \<and> status < 300 \<and> rf_access_token r \<noteq> []
    \<and> (rf_refresh_token r = previous \<or> rf_refresh_token r \<noteq> [])"
proof -
  obtain p a where p: "Option.bind (parse_json body) decode_token_response = Some p"
    "non_empty (tr_access_token p) = Some a" "200 \<le> status" "status < 300"
    "r = \<lparr>rf_access_token = a, rf_refresh_token = opt_default previous (non_empty (tr_refresh_token p)),
          rf_expires_at = map_option
            (\<lambda>seconds. format_rfc3339_millis ((now_ms + seconds * 1000) mod 2 ^ 64)) (tr_expires_in p),
          rf_id_token = non_empty (tr_id_token p)\<rparr>"
    using assms unfolding settle_def Let_def by (auto split: if_splits option.splits)
  have ne: "t \<noteq> []" if "non_empty v = Some t" for v t
    using that by (auto simp: non_empty_def split: option.splits if_splits)
  show ?thesis
    using p(3,4) ne [OF p(2)] ne by (auto simp: p(5) opt_default_def split: option.split)
qed

text \<open>A successful refresh never loses an account: it needs a 2xx answer and a non-empty access token,
  and the connection stored afterwards holds that access token and a non-empty refresh token, the one
  just used when the provider returned none.\<close>

theorem refresh_keeps_account:
  fixes c :: connection
  assumes "settle parse_json status body previous now_ms = Inr r" "previous \<noteq> []"
  defines "c' \<equiv> apply_credentials now_ms (persist_update now_ms r) c"
  shows "200 \<le> status \<and> status < 300
    \<and> cn_access_token c' = Some (rf_access_token r) \<and> rf_access_token r \<noteq> []
    \<and> cn_refresh_token c' = Some (rf_refresh_token r) \<and> rf_refresh_token r \<noteq> []"
  using settle_Inr [OF assms(1)] assms(2)
  by (auto simp: c'_def apply_credentials_def persist_update_def)

definition sample_reply :: json where
  "sample_reply = JObj [(''access_token'', JStr ''at'')]"

lemma sample_settle:
  "settle (\<lambda>_. Some sample_reply) 200 ''{}'' ''rt'' 5 =
     Inr \<lparr>rf_access_token = ''at'', rf_refresh_token = ''rt'', rf_expires_at = None,
          rf_id_token = None\<rparr>"
  by (simp add: settle_def sample_reply_def decode_token_response_def opt_field_def non_empty_def)

theorem refresh_keeps_account_witness:
  "cn_refresh_token (apply_credentials 5 (persist_update 5 \<lparr>rf_access_token = ''at'',
      rf_refresh_token = ''rt'', rf_expires_at = None, rf_id_token = None\<rparr>)
      (sample_connection ''b'' ''glm'' 1)) = Some ''rt''"
  using refresh_keeps_account [OF sample_settle, of "sample_connection ''b'' ''glm'' 1"] by simp

text \<open>A provider that reports no lifetime is refreshed on every request: the stored expiry is not
  cleared by the refresh, so a token that was due for its expiry is still due after it was refreshed, at
  any later time.\<close>

theorem unreported_lifetime_stays_due:
  assumes "settle parse_json status body previous now_ms = Inr r" "rf_expires_at r = None"
    and "supports_refresh oauth provider"
    and "cn_expires_at c = Some e" "parse_rfc3339_millis e = Some (Some expiry)"
    and "expiry - now_ms < refresh_lead_ms oauth provider" "now_ms \<le> t"
  shows "should_refresh oauth provider
      (credentials_from_connection (apply_credentials now_ms (persist_update now_ms r) c)) t = Some True"
proof -
  have "expiry - t < refresh_lead_ms oauth provider" using assms(6,7) by linarith
  then show ?thesis
    using assms(2-5)
    by (simp add: should_refresh_def credentials_from_connection_def apply_credentials_def
        persist_update_def)
qed

theorem unreported_lifetime_stays_due_witness:
  "should_refresh [''glm'' \<mapsto> \<lparr>oa_token_url = Some ''u'', oa_refresh_url = None,
       oa_refresh_lead_ms = None, oa_max_refresh_age_ms = None\<rparr>] ''glm''
     (credentials_from_connection (apply_credentials 1717200000000 (persist_update 1717200000000
        \<lparr>rf_access_token = ''at'', rf_refresh_token = ''rt'', rf_expires_at = None, rf_id_token = None\<rparr>)
        ((sample_connection ''b'' ''glm'' 1)\<lparr>cn_expires_at := Some (format_rfc3339_millis 1717200000000)\<rparr>)))
     1717200009999 = Some True"
proof (rule unreported_lifetime_stays_due)
  show "settle (\<lambda>_. Some sample_reply) 200 ''{}'' ''rt'' 1717200000000 =
     Inr \<lparr>rf_access_token = ''at'', rf_refresh_token = ''rt'', rf_expires_at = None,
          rf_id_token = None\<rparr>"
    by (simp add: settle_def sample_reply_def decode_token_response_def opt_field_def non_empty_def)
  show "parse_rfc3339_millis (format_rfc3339_millis 1717200000000) = Some (Some 1717200000000)"
    using round_trip_aux [of 1717200000000] by simp
qed (simp_all add: supports_refresh_def UNSUPPORTED_def effective_refresh_url_def
      refresh_lead_ms_def DEFAULT_REFRESH_LEAD_MS_def)

end
