(* ===== verification/Upstream_Errors.thy ===== *)
theory Upstream_Errors
  imports Json_Value
begin

text \<open>
  Classification of provider failures (\<open>crates/execute/src/errors.rs\<close>): the error envelope shown
  to a client, the message taken from a provider's error body, and the cooldown an account gets
  after a failure. Statuses are \<open>u16\<close>, cooldowns \<open>u64\<close> milliseconds, backoff levels \<open>u32\<close>.
\<close>

definition BACKOFF_BASE_MS :: nat where "BACKOFF_BASE_MS = 2000"
definition BACKOFF_MAX_MS :: nat where "BACKOFF_MAX_MS = 5 * 60 * 1000"
definition BACKOFF_MAX_LEVEL :: nat where "BACKOFF_MAX_LEVEL = 15"
definition TRANSIENT_COOLDOWN_MS :: nat where "TRANSIENT_COOLDOWN_MS = 30 * 1000"
definition COOLDOWN_LONG_MS :: nat where "COOLDOWN_LONG_MS = 2 * 60 * 1000"
definition COOLDOWN_SHORT_MS :: nat where "COOLDOWN_SHORT_MS = 5 * 1000"

lemmas cooldown_consts = BACKOFF_BASE_MS_def BACKOFF_MAX_MS_def BACKOFF_MAX_LEVEL_def
  TRANSIENT_COOLDOWN_MS_def COOLDOWN_LONG_MS_def COOLDOWN_SHORT_MS_def

section \<open>The client's error envelope\<close>

definition error_type_for :: "nat \<Rightarrow> string \<times> string" where
  "error_type_for status =
     (if status = 400 then (''invalid_request_error'', ''bad_request'')
      else if status = 401 then (''authentication_error'', ''invalid_api_key'')
      else if status = 402 then (''billing_error'', ''payment_required'')
      else if status = 403 then (''permission_error'', ''insufficient_quota'')
      else if status = 404 then (''invalid_request_error'', ''model_not_found'')
      else if status = 406 then (''invalid_request_error'', ''model_not_supported'')
      else if status = 429 then (''rate_limit_error'', ''rate_limit_exceeded'')
      else if status = 500 then (''server_error'', ''internal_server_error'')
      else if status = 502 then (''server_error'', ''bad_gateway'')
      else if status = 503 then (''server_error'', ''service_unavailable'')
      else if status = 504 then (''server_error'', ''gateway_timeout'')
      else if status \<ge> 500 then (''server_error'', ''internal_server_error'')
      else (''invalid_request_error'', ''''))"

definition default_error_message :: "nat \<Rightarrow> string option" where
  "default_error_message status =
     (if status = 400 then Some ''Bad request''
      else if status = 401 then Some ''Invalid API key provided''
      else if status = 402 then Some ''Payment required''
      else if status = 403 then Some ''You exceeded your current quota''
      else if status = 404 then Some ''Model not found''
      else if status = 406 then Some ''Model not supported''
      else if status = 429 then Some ''Rate limit exceeded''
      else if status = 500 then Some ''Internal server error''
      else if status = 502 then Some ''Bad gateway - upstream provider error''
      else if status = 503 then Some ''Service temporarily unavailable''
      else if status = 504 then Some ''Gateway timeout''
      else None)"

definition build_error_body :: "nat \<Rightarrow> string \<Rightarrow> json" where
  "build_error_body status message =
     (let (error_type, code) = error_type_for status;
          resolved = (if message = [] then
                        (case default_error_message status of
                           Some m \<Rightarrow> m | None \<Rightarrow> ''An error occurred'')
                      else message)
      in jobj [(''error'', jobj [(''message'', JStr resolved), (''type'', JStr error_type),
                                 (''code'', JStr code)])])"

section \<open>Reading a provider's error body\<close>

record upstream_error =
  ue_status :: nat
  ue_message :: string
  ue_resets_at_ms :: "nat option"

definition or_else :: "'a option \<Rightarrow> 'a option \<Rightarrow> 'a option" where
  "or_else a b = (case a of None \<Rightarrow> b | Some x \<Rightarrow> Some x)"

lemma or_else_simps [simp]: "or_else None b = b" "or_else (Some x) b = Some x"
  by (simp_all add: or_else_def)

definition error_message_of :: "(json \<Rightarrow> string) \<Rightarrow> json \<Rightarrow> string option" where
  "error_message_of render_json j =
     or_else
       (or_else
         (Option.bind (jget j ''error'') (\<lambda>e. Option.bind (jget e ''message'') as_str))
         (Option.bind (jget j ''message'') as_str))
       (map_option (\<lambda>e. case as_str e of Some s \<Rightarrow> s | None \<Rightarrow> render_json e)
         (jget j ''error''))"

definition parse_upstream_error ::
    "(string \<Rightarrow> json option) \<Rightarrow> (json \<Rightarrow> string) \<Rightarrow> nat \<Rightarrow> string \<Rightarrow> upstream_error" where
  "parse_upstream_error parse_json render_json status body_text =
     (let message =
        (case Option.bind (parse_json body_text) (error_message_of render_json) of
           Some m \<Rightarrow> if m \<noteq> [] then m else body_text
         | None \<Rightarrow> body_text);
          resolved =
        (if message = [] then
           (case default_error_message status of
              Some m \<Rightarrow> m
            | None \<Rightarrow> ''Upstream error: '' @ show_nat status)
         else message)
      in \<lparr>ue_status = status, ue_message = resolved, ue_resets_at_ms = None\<rparr>)"

definition format_provider_error :: "nat \<Rightarrow> string \<Rightarrow> string" where
  "format_provider_error status message = ''['' @ show_nat status @ '']: '' @ message"

section \<open>Cooldown policy\<close>

record fallback_decision =
  should_fallback :: bool
  cooldown_ms :: nat
  new_backoff_level :: "nat option"

text \<open>
  \<open>checked_pow\<close> and \<open>checked_mul\<close> give up beyond \<open>u64\<close>, and the result is the ceiling.
\<close>

definition quota_cooldown :: "nat \<Rightarrow> nat" where
  "quota_cooldown backoff_level =
     (let level = backoff_level - 1;
          factor = (if (2::nat) ^ level \<le> u64_max then Some ((2::nat) ^ level) else None);
          scaled = Option.bind factor
            (\<lambda>f. if f * BACKOFF_BASE_MS \<le> u64_max then Some (f * BACKOFF_BASE_MS) else None)
      in min (case scaled of Some m \<Rightarrow> m | None \<Rightarrow> BACKOFF_MAX_MS) BACKOFF_MAX_MS)"

definition TEXT_RULES :: "(string \<times> bool \<times> nat) list" where
  "TEXT_RULES =
     [(''no credentials'', False, COOLDOWN_LONG_MS),
      (''request not allowed'', False, COOLDOWN_SHORT_MS),
      (''improperly formed request'', False, COOLDOWN_LONG_MS),
      (''rate limit'', True, 0),
      (''too many requests'', True, 0),
      (''quota exceeded'', True, 0),
      (''capacity'', True, 0),
      (''overloaded'', True, 0)]"

definition STATUS_RULES :: "(nat \<times> bool \<times> nat) list" where
  "STATUS_RULES =
     [(401, False, COOLDOWN_LONG_MS),
      (402, False, COOLDOWN_LONG_MS),
      (403, False, COOLDOWN_LONG_MS),
      (404, False, COOLDOWN_LONG_MS),
      (429, True, 0)]"

text \<open>
  \<open>backoff_level + 1\<close> is plain \<open>u32\<close> addition: at the largest level a checked build panics
  (\<open>None\<close>). Every other level gives a decision.
\<close>

definition decide :: "bool \<Rightarrow> nat \<Rightarrow> nat \<Rightarrow> fallback_decision option" where
  "decide uses_backoff cooldown backoff_level =
     (if uses_backoff then
        (if backoff_level + 1 > u32_max then None
         else let level = min (backoff_level + 1) BACKOFF_MAX_LEVEL
              in Some \<lparr>should_fallback = True, cooldown_ms = quota_cooldown level,
                       new_backoff_level = Some level\<rparr>)
      else Some \<lparr>should_fallback = True, cooldown_ms = cooldown, new_backoff_level = None\<rparr>)"

definition text_rule :: "string \<Rightarrow> (string \<times> bool \<times> nat) option" where
  "text_rule lowered =
     find (\<lambda>(needle, _, _). lowered \<noteq> [] \<and> str_contains lowered needle) TEXT_RULES"

definition status_rule :: "nat \<Rightarrow> (nat \<times> bool \<times> nat) option" where
  "status_rule status = find (\<lambda>(rule_status, _, _). rule_status = status) STATUS_RULES"

definition check_fallback_error :: "nat \<Rightarrow> string \<Rightarrow> nat \<Rightarrow> fallback_decision option" where
  "check_fallback_error status error_text backoff_level =
     (case text_rule (lower_ascii_view error_text) of
        Some (_, uses_backoff, cooldown) \<Rightarrow> decide uses_backoff cooldown backoff_level
      | None \<Rightarrow>
          (case status_rule status of
             Some (_, uses_backoff, cooldown) \<Rightarrow> decide uses_backoff cooldown backoff_level
           | None \<Rightarrow> Some \<lparr>should_fallback = True, cooldown_ms = TRANSIENT_COOLDOWN_MS,
                           new_backoff_level = None\<rparr>))"

section \<open>Retry hints\<close>

text \<open>\<open>remaining_ms\<close> is an \<open>i64\<close>; division and remainder are Euclidean.\<close>

definition format_retry_after :: "int \<Rightarrow> string" where
  "format_retry_after remaining_ms =
     (if remaining_ms \<le> 0 then ''reset after 0s''
      else
        (let total_seconds = nat (remaining_ms div 1000 + (if remaining_ms mod 1000 > 0 then 1 else 0));
             hours = total_seconds div 3600;
             minutes = (total_seconds mod 3600) div 60;
             seconds = total_seconds mod 60;
             p1 = (if hours > 0 then [show_nat hours @ ''h''] else []);
             p2 = p1 @ (if minutes > 0 then [show_nat minutes @ ''m''] else []);
             p3 = p2 @ (if seconds > 0 \<or> p2 = [] then [show_nat seconds @ ''s''] else [])
         in ''reset after '' @ join_with '' '' p3))"

section \<open>Properties of the policy\<close>

lemma quota_cooldown_le: "quota_cooldown l \<le> BACKOFF_MAX_MS"
  by (simp add: quota_cooldown_def Let_def)

text \<open>Below the ceiling the cooldown is the exact power; nine doublings reach the ceiling.\<close>

lemma quota_cooldown_closed:
  "quota_cooldown l = min (2 ^ (l - 1) * BACKOFF_BASE_MS) BACKOFF_MAX_MS"
proof (cases "(2::nat) ^ (l - 1) * BACKOFF_BASE_MS \<le> u64_max")
  case True
  then have "(2::nat) ^ (l - 1) \<le> u64_max"
    by (simp add: BACKOFF_BASE_MS_def)
  with True show ?thesis by (simp add: quota_cooldown_def Let_def)
next
  case False
  then have "BACKOFF_MAX_MS \<le> 2 ^ (l - 1) * BACKOFF_BASE_MS"
    by (simp add: BACKOFF_MAX_MS_def u64_max_def)
  with False show ?thesis
    by (simp add: quota_cooldown_def Let_def split: Option.bind_split)
qed

lemma quota_cooldown_mono: "l \<le> l' \<Longrightarrow> quota_cooldown l \<le> quota_cooldown l'"
proof -
  assume "l \<le> l'"
  then have "(2::nat) ^ (l - 1) \<le> 2 ^ (l' - 1)" by (intro power_increasing) auto
  then show ?thesis unfolding quota_cooldown_closed by (intro min.mono mult_le_mono) auto
qed

lemma quota_cooldown_pos: "0 < quota_cooldown l"
  by (simp add: quota_cooldown_closed BACKOFF_BASE_MS_def BACKOFF_MAX_MS_def)

lemma text_rule_in: "text_rule t = Some r \<Longrightarrow> r \<in> set TEXT_RULES"
  unfolding text_rule_def find_Some_iff by (metis nth_mem)

lemma status_rule_in: "status_rule s = Some r \<Longrightarrow> r \<in> set STATUS_RULES"
  unfolding status_rule_def find_Some_iff by (metis nth_mem)

lemma rule_cooldowns:
  "(n, b, c) \<in> set TEXT_RULES \<Longrightarrow> c \<le> COOLDOWN_LONG_MS \<and> (b \<or> 0 < c)"
  "(s, b, c) \<in> set STATUS_RULES \<Longrightarrow> c \<le> COOLDOWN_LONG_MS \<and> (b \<or> 0 < c)"
  by (auto simp: TEXT_RULES_def STATUS_RULES_def COOLDOWN_LONG_MS_def COOLDOWN_SHORT_MS_def)

lemma decide_bounds:
  assumes "decide b c lvl = Some d" "c \<le> COOLDOWN_LONG_MS" "b \<or> 0 < c"
  shows "should_fallback d \<and> 0 < cooldown_ms d \<and> cooldown_ms d \<le> BACKOFF_MAX_MS"
proof (cases b)
  case True
  with assms(1) obtain l where "d = \<lparr>should_fallback = True, cooldown_ms = quota_cooldown l,
      new_backoff_level = Some l\<rparr>"
    by (auto simp: decide_def Let_def split: if_splits)
  then show ?thesis by (simp add: quota_cooldown_pos quota_cooldown_le)
next
  case False
  with assms show ?thesis by (auto simp: decide_def cooldown_consts)
qed

lemma check_fallback_total:
  "lvl < u32_max \<Longrightarrow> \<exists>d. check_fallback_error st msg lvl = Some d"
  by (auto simp: check_fallback_error_def decide_def Let_def split: option.splits)

lemma check_fallback_bounds:
  assumes "check_fallback_error st msg lvl = Some d"
  shows "should_fallback d \<and> 0 < cooldown_ms d \<and> cooldown_ms d \<le> BACKOFF_MAX_MS"
proof (cases "text_rule (lower_ascii_view msg)")
  case (Some r)
  obtain n b c where r: "r = (n, b, c)" by (cases r)
  with Some have "c \<le> COOLDOWN_LONG_MS \<and> (b \<or> 0 < c)"
    using rule_cooldowns(1) text_rule_in by blast
  moreover have "decide b c lvl = Some d"
    using assms Some r by (simp add: check_fallback_error_def)
  ultimately show ?thesis by (intro decide_bounds) auto
next
  case None
  show ?thesis
  proof (cases "status_rule st")
    case (Some r)
    obtain n b c where r: "r = (n, b, c)" by (cases r)
    with Some have "c \<le> COOLDOWN_LONG_MS \<and> (b \<or> 0 < c)"
      using rule_cooldowns(2) status_rule_in by blast
    moreover have "decide b c lvl = Some d"
      using assms None Some r by (simp add: check_fallback_error_def)
    ultimately show ?thesis by (intro decide_bounds) auto
  next
    case None2: None
    with None assms show ?thesis
      by (auto simp: check_fallback_error_def TRANSIENT_COOLDOWN_MS_def BACKOFF_MAX_MS_def)
  qed
qed

end
