(* ===== verification/Pipeline.thy ===== *)
theory Pipeline
  imports Model_Names Token_Refresh Upstream_Errors
begin

text \<open>
  The execution pipeline of \<open>services/runtime-actix/src/pipeline.rs\<close>: one account attempt, the walk over the
  accounts of a target, the walk over the targets of a combo, admission, and the error replies. The
  account walk is written over its three operations (select, attempt, mark) and is proved correct in
  \<open>Account_Failover\<close> under their contract.

  A provider is what the dispatch of a translated request does: it fails in transport, is refused with
  a status and a body, or answers with a body in the client's format (absent when it cannot be
  read), changes its own state and takes some time. Request and response translation belong to that
  operation here.
\<close>

section \<open>Replies\<close>

datatype reply_body =
    JsonBody json
  | ErrorFrames nat string     \<comment> \<open>the error as frames, for a streaming client\<close>
  | StreamBody json

record reply =
  hr_status :: nat
  hr_retry_after :: "nat option"
  hr_body :: reply_body

definition valid_status :: "nat \<Rightarrow> bool" where
  "valid_status n \<longleftrightarrow> 100 \<le> n \<and> n \<le> 999"

record chat_context =
  rx_endpoint :: string
  rx_body :: json
  rx_stream :: bool

definition error_response :: "chat_context \<Rightarrow> nat \<Rightarrow> string \<Rightarrow> reply" where
  "error_response ctx status message = \<lparr>
     hr_status = status, hr_retry_after = None,
     hr_body = (if rx_stream ctx then ErrorFrames status message
                else JsonBody (build_error_body status message))\<rparr>"

section \<open>Usage\<close>

record token_usage =
  us_prompt :: nat
  us_completion :: nat
  us_total :: nat
  us_cached :: nat
  us_cache_creation :: nat
  us_reasoning :: nat

definition no_usage :: token_usage where
  "no_usage = \<lparr>us_prompt = 0, us_completion = 0, us_total = 0, us_cached = 0,
     us_cache_creation = 0, us_reasoning = 0\<rparr>"

definition read_u64 :: "json \<Rightarrow> string \<Rightarrow> nat" where
  "read_u64 usage key = opt_default 0 (Option.bind (jget usage key) as_u64)"

definition detail_u64 :: "json \<Rightarrow> string \<Rightarrow> string \<Rightarrow> nat" where
  "detail_u64 usage parent key =
     opt_default 0 (Option.bind (Option.bind (jget usage parent) (\<lambda>d. jget d key)) as_u64)"

definition usage_from_body :: "json \<Rightarrow> token_usage option" where
  "usage_from_body body =
     (case jget body ''usage'' of
        None \<Rightarrow> None
      | Some usage \<Rightarrow>
          if as_object usage = None then None
          else
            (let cached = max (detail_u64 usage ''prompt_tokens_details'' ''cached_tokens'')
                   (read_u64 usage ''cache_read_input_tokens'');
                 creation = max (detail_u64 usage ''prompt_tokens_details'' ''cache_creation_tokens'')
                   (read_u64 usage ''cache_creation_input_tokens'');
                 prompt = (if read_u64 usage ''prompt_tokens'' = 0
                           then wadd64 (wadd64 (read_u64 usage ''input_tokens'') cached) creation
                           else read_u64 usage ''prompt_tokens'');
                 completion = (if read_u64 usage ''completion_tokens'' = 0
                               then read_u64 usage ''output_tokens''
                               else read_u64 usage ''completion_tokens'');
                 total = (if read_u64 usage ''total_tokens'' = 0 then wadd64 prompt completion
                          else read_u64 usage ''total_tokens'')
             in if prompt = 0 \<and> completion = 0 \<and> total = 0 then None
                else Some \<lparr>us_prompt = prompt, us_completion = completion, us_total = total,
                           us_cached = cached, us_cache_creation = creation,
                           us_reasoning = detail_u64 usage ''completion_tokens_details''
                             ''reasoning_tokens''\<rparr>))"

record usage_report =
  ur_provider :: string
  ur_model :: string
  ur_connection_id :: "string option"
  ur_endpoint :: string
  ur_status :: string
  ur_status_code :: nat
  ur_usage :: token_usage
  ur_error :: "string option"

section \<open>The world of a request\<close>

text \<open>
  The state service behind its protocol (its store, its settings, whether it answers), the clock, the
  provider side \<open>wd_env\<close>, and the usage reports handed to the reporting queue.
\<close>

record 'e world =
  wd_store :: snapshot
  wd_settings :: selection_settings
  wd_state_up :: bool
  wd_now :: nat
  wd_env :: 'e
  wd_usage :: "usage_report list"

record cooldown =
  cd_connection_id :: string
  cd_model :: "string option"
  cd_status :: nat
  cd_reason :: string
  cd_duration_ms :: nat
  cd_backoff_level :: "nat option"

definition state_select ::
    "string \<Rightarrow> string option \<Rightarrow> string option \<Rightarrow> 'e world \<Rightarrow> string list \<Rightarrow> selection \<times> 'e world" where
  "state_select provider model preferred w exclude =
     (if wd_state_up w then
        (let wr = \<lparr>wr_provider = provider, wr_model = model, wr_exclude = exclude,
                    wr_preferred = preferred\<rparr>;
             (response, sn) = handle_select (wd_settings w) (wd_now w) wr (wd_store w)
         in (client_selection provider (Some (snd response)), w\<lparr>wd_store := sn\<rparr>))
      else (client_selection provider None, w))"

definition mark_of :: "cooldown \<Rightarrow> mark_request" where
  "mark_of cd = \<lparr>mk_connection_id = cd_connection_id cd, mk_model = cd_model cd,
     mk_status = cd_status cd, mk_reason = cd_reason cd, mk_cooldown_ms = cd_duration_ms cd,
     mk_backoff_level = cd_backoff_level cd\<rparr>"

definition state_mark :: "'e world \<Rightarrow> cooldown \<Rightarrow> 'e world" where
  "state_mark w cd =
     (if wd_state_up w
      then w\<lparr>wd_store := snd (mark_connection_unavailable (wd_now w) (mark_of cd) (wd_store w))\<rparr>
      else w)"

definition state_clear :: "string \<Rightarrow> string option \<Rightarrow> 'e world \<Rightarrow> 'e world" where
  "state_clear connection_id model w =
     (if wd_state_up w
      then w\<lparr>wd_store := snd (clear_connection_error (wd_now w) connection_id model (wd_store w))\<rparr>
      else w)"

definition state_store_refreshed :: "string \<Rightarrow> refreshed \<Rightarrow> 'e world \<Rightarrow> 'e world" where
  "state_store_refreshed connection_id r w =
     (if wd_state_up w
      then w\<lparr>wd_store := snd (update_connection_credentials (wd_now w) connection_id
                 (persist_update (wd_now w) r) (wd_store w))\<rparr>
      else w)"

definition record_usage ::
    "chat_context \<Rightarrow> model_target \<Rightarrow> string option \<Rightarrow> string \<Rightarrow> nat \<Rightarrow> token_usage \<Rightarrow> string option
     \<Rightarrow> 'e world \<Rightarrow> 'e world" where
  "record_usage ctx target connection status code usage err w =
     w\<lparr>wd_usage := wd_usage w @ [\<lparr>ur_provider = mt_provider target, ur_model = mt_model target,
        ur_connection_id = connection, ur_endpoint = rx_endpoint ctx, ur_status = status,
        ur_status_code = code, ur_usage = usage, ur_error = err\<rparr>]\<rparr>"

datatype upstream =
    TransportFailed nat string
  | Refused nat string
  | Answered "json option"

record 'e provider_side =
  pv_supported :: "string \<Rightarrow> bool"
  pv_unsupported_message :: "string \<Rightarrow> string"
  pv_oauth :: "string \<rightharpoonup> oauth_entry"
  pv_dispatch :: "chat_context \<Rightarrow> model_target \<Rightarrow> credentials \<Rightarrow> 'e \<Rightarrow> upstream \<times> 'e \<times> nat"
  pv_exchange :: "string \<Rightarrow> credentials \<Rightarrow> 'e \<Rightarrow> (refresh_error + refreshed) \<times> 'e \<times> nat"
  pv_describe :: "refresh_error \<Rightarrow> string"
  pv_parse_json :: "string \<Rightarrow> json option"
  pv_render_json :: "json \<Rightarrow> string"

section \<open>One attempt\<close>

datatype attempt =
    Responded "reply option"     \<comment> \<open>\<open>None\<close>: the handler panicked\<close>
  | Retryable nat string nat "nat option"

definition REAUTH_COOLDOWN_MS :: nat where "REAUTH_COOLDOWN_MS = 60 * 60 * 1000"

text \<open>The decision at backoff level 0, which always exists (\<open>check_fallback_total\<close>).\<close>

definition fallback_decision_for :: "nat \<Rightarrow> string \<Rightarrow> fallback_decision" where
  "fallback_decision_for status message = the (check_fallback_error status message 0)"

definition refresh_if_due ::
    "'e provider_side \<Rightarrow> string \<Rightarrow> credentials \<Rightarrow> 'e world \<Rightarrow> (credentials \<times> 'e world) option" where
  "refresh_if_due pv provider c w =
     (case should_refresh (pv_oauth pv) provider c (wd_now w) of
        None \<Rightarrow> None
      | Some False \<Rightarrow> Some (c, w)
      | Some True \<Rightarrow>
          (case pv_exchange pv provider c (wd_env w) of
             (result, env, elapsed) \<Rightarrow>
               (let w1 = w\<lparr>wd_env := env, wd_now := wd_now w + elapsed\<rparr> in
                case result of
                  Inr r \<Rightarrow> Some (c\<lparr>cx_access_token := Some (rf_access_token r),
                              cx_refresh_token := Some (rf_refresh_token r),
                              cx_expires_at := rf_expires_at r\<rparr>,
                            state_store_refreshed (cx_connection_id c) r w1)
                | Inl e \<Rightarrow>
                    if is_permanent e
                    then Some (c, state_mark w1 \<lparr>cd_connection_id = cx_connection_id c, cd_model = None,
                        cd_status = 401, cd_reason = ''OAuth refresh failed: '' @ pv_describe pv e,
                        cd_duration_ms = REAUTH_COOLDOWN_MS, cd_backoff_level = None\<rparr>)
                    else Some (c, w1))))"

definition run_attempt ::
    "'e provider_side \<Rightarrow> chat_context \<Rightarrow> model_target \<Rightarrow> 'e world \<Rightarrow> credentials
     \<Rightarrow> attempt \<times> 'e world" where
  "run_attempt pv ctx target w0 c0 =
     (case refresh_if_due pv (mt_provider target) c0 w0 of
        None \<Rightarrow> (Responded None, w0)
      | Some (c, w) \<Rightarrow>
          (case pv_dispatch pv ctx target c (wd_env w) of
             (outcome, env, elapsed) \<Rightarrow>
               (let w1 = w\<lparr>wd_env := env, wd_now := wd_now w + elapsed\<rparr> in
                case outcome of
                  TransportFailed status message \<Rightarrow>
                    (let d = fallback_decision_for status message
                     in (Retryable status message (cooldown_ms d) (new_backoff_level d), w1))
                | Refused status body \<Rightarrow>
                    (let parsed = parse_upstream_error (pv_parse_json pv) (pv_render_json pv) status body;
                         d = fallback_decision_for status (ue_message parsed);
                         w2 = record_usage ctx target (Some (cx_connection_id c)) ''error'' status
                                no_usage (Some (ue_message parsed)) w1
                     in if should_fallback d
                        then (Retryable status (ue_message parsed) (cooldown_ms d) (new_backoff_level d), w2)
                        else (Responded (Some (error_response ctx
                                (if valid_status status then status else 502)
                                (format_provider_error status (ue_message parsed)))), w2))
                | Answered body \<Rightarrow>
                    (let w2 = state_clear (cx_connection_id c) (Some (mt_model target)) w1 in
                     case body of
                       None \<Rightarrow> (Responded (Some (error_response ctx 502
                                 ''upstream returned an unreadable body'')), w2)
                     | Some b \<Rightarrow>
                         (Responded (Some \<lparr>hr_status = 200, hr_retry_after = None,
                             hr_body = (if rx_stream ctx then StreamBody b else JsonBody b)\<rparr>),
                          record_usage ctx target (Some (cx_connection_id c)) ''success'' 200
                            (opt_default no_usage (usage_from_body b)) None w2)))))"

section \<open>The accounts of a target\<close>

definition MAX_ACCOUNT_ATTEMPTS :: nat where "MAX_ACCOUNT_ATTEMPTS = 10"

datatype loop_end =
    LoopResponded "reply option"
  | LoopNoCredentials string
  | LoopRateLimited nat "string option" "nat option"
  | LoopUnavailable string
  | LoopExhausted
  | LoopSpent                    \<comment> \<open>all attempts used\<close>

text \<open>The loop of \<open>execute_for_target\<close>; it also returns its two locals, the excluded accounts and the
  last error.\<close>

fun account_loop ::
    "('w \<Rightarrow> string list \<Rightarrow> selection \<times> 'w) \<Rightarrow> ('w \<Rightarrow> credentials \<Rightarrow> attempt \<times> 'w) \<Rightarrow>
     ('w \<Rightarrow> credentials \<Rightarrow> nat \<Rightarrow> string \<Rightarrow> nat \<Rightarrow> nat option \<Rightarrow> 'w) \<Rightarrow>
     nat \<Rightarrow> string list \<Rightarrow> (nat \<times> string) option \<Rightarrow> 'w
     \<Rightarrow> loop_end \<times> string list \<times> (nat \<times> string) option \<times> 'w" where
  "account_loop select attempt mark 0 excluded prev w = (LoopSpent, excluded, prev, w)"
| "account_loop select attempt mark (Suc n) excluded prev w =
     (case select w excluded of
        (SelSelected c, w1) \<Rightarrow>
          (case attempt w1 c of
             (Responded r, w2) \<Rightarrow> (LoopResponded r, excluded, prev, w2)
           | (Retryable status message ms level, w2) \<Rightarrow>
               account_loop select attempt mark n (excluded @ [cx_connection_id c])
                 (Some (status, message)) (mark w2 c status message ms level))
      | (SelNoCredentials m, w1) \<Rightarrow> (LoopNoCredentials m, excluded, prev, w1)
      | (SelAllRateLimited t e code, w1) \<Rightarrow> (LoopRateLimited t e code, excluded, prev, w1)
      | (SelExhausted, w1) \<Rightarrow> (LoopExhausted, excluded, prev, w1)
      | (SelUnavailable m, w1) \<Rightarrow> (LoopUnavailable m, excluded, prev, w1))"

definition mark_failed ::
    "model_target \<Rightarrow> 'e world \<Rightarrow> credentials \<Rightarrow> nat \<Rightarrow> string \<Rightarrow> nat \<Rightarrow> nat option \<Rightarrow> 'e world" where
  "mark_failed target w c status message ms level =
     state_mark w \<lparr>cd_connection_id = cx_connection_id c, cd_model = Some (mt_model target),
       cd_status = status, cd_reason = message, cd_duration_ms = ms, cd_backoff_level = level\<rparr>"

definition run_accounts ::
    "'e provider_side \<Rightarrow> chat_context \<Rightarrow> model_target \<Rightarrow> 'e world
     \<Rightarrow> loop_end \<times> string list \<times> (nat \<times> string) option \<times> 'e world" where
  "run_accounts pv ctx target w =
     account_loop (state_select (mt_provider target) (Some (mt_model target)) None)
       (run_attempt pv ctx target) (mark_failed target) MAX_ACCOUNT_ATTEMPTS [] None w"

datatype target_outcome = TResponded "reply option" | TFailed reply

definition fail ::
    "chat_context \<Rightarrow> model_target \<Rightarrow> nat \<Rightarrow> string \<Rightarrow> 'e world \<Rightarrow> reply \<times> 'e world" where
  "fail ctx target status message w =
     (error_response ctx status message,
      record_usage ctx target None ''error'' status no_usage (Some message) w)"

definition rate_limited ::
    "chat_context \<Rightarrow> model_target \<Rightarrow> nat \<Rightarrow> string option \<Rightarrow> nat option \<Rightarrow> 'e world \<Rightarrow> reply \<times> 'e world" where
  "rate_limited ctx target retry_at_ms last_error last_error_code w =
     (let left = retry_at_ms - wd_now w;
          remaining_ms = (if left < 2 ^ 63 then left else 0);
          hint = format_retry_after (int remaining_ms);
          base = opt_default ''Unavailable'' last_error;
          message = ''['' @ mt_provider target @ ''/'' @ mt_model target @ ''] '' @ base
                    @ '' ('' @ hint @ '')'';
          status = (case last_error_code of
                      Some code \<Rightarrow> if valid_status code then code else 503 | None \<Rightarrow> 503)
      in ((error_response ctx status message)\<lparr>hr_retry_after := Some (max (remaining_ms div 1000) 1)\<rparr>,
          record_usage ctx target None ''error'' status no_usage (Some message) w))"

definition execute_for_target ::
    "'e provider_side \<Rightarrow> chat_context \<Rightarrow> model_target \<Rightarrow> 'e world \<Rightarrow> target_outcome \<times> 'e world" where
  "execute_for_target pv ctx target w =
     (if \<not> pv_supported pv (mt_provider target) then
        (let (r, w') = fail ctx target 501 (pv_unsupported_message pv (mt_provider target)) w
         in (TFailed r, w'))
      else
        (case run_accounts pv ctx target w of
           (LoopResponded r, excluded, prev, w1) \<Rightarrow> (TResponded r, w1)
         | (LoopNoCredentials m, excluded, prev, w1) \<Rightarrow>
             (let (r, w2) = fail ctx target 404 m w1 in (TFailed r, w2))
         | (LoopRateLimited t e code, excluded, prev, w1) \<Rightarrow>
             (let (r, w2) = rate_limited ctx target t (opt_or (map_option snd prev) e)
                              (opt_or (map_option fst prev) code) w1
              in (TFailed r, w2))
         | (LoopUnavailable m, excluded, prev, w1) \<Rightarrow>
             (let (r, w2) = fail ctx target 503 m w1 in (TFailed r, w2))
         | (_, excluded, prev, w1) \<Rightarrow>
             (let (status, message) = opt_default (503, ''All provider accounts are unavailable'') prev;
                  (r, w2) = fail ctx target (if valid_status status then status else 503) message w1
              in (TFailed r, w2))))"

section \<open>The targets of a request\<close>

fun try_targets ::
    "'e provider_side \<Rightarrow> chat_context \<Rightarrow> model_target list \<Rightarrow> 'e world \<Rightarrow> reply option \<times> 'e world" where
  "try_targets pv ctx [] w =
     (Some \<lparr>hr_status = 400, hr_retry_after = None,
            hr_body = JsonBody (build_error_body 400 ''Invalid model format'')\<rparr>, w)"
| "try_targets pv ctx [target] w =
     (case execute_for_target pv ctx target w of
        (TResponded r, w1) \<Rightarrow> (r, w1) | (TFailed r, w1) \<Rightarrow> (Some r, w1))"
| "try_targets pv ctx (target # next # targets) w =
     (case execute_for_target pv ctx target w of
        (TResponded r, w1) \<Rightarrow> (r, w1)
      | (TFailed r, w1) \<Rightarrow> try_targets pv ctx (next # targets) w1)"

definition target_label :: "model_target \<Rightarrow> string" where
  "target_label t = mt_provider t @ ''/'' @ mt_model t"

text \<open>What a fusion request does with the answers its panel gave.\<close>

definition finish_fusion ::
    "'e provider_side \<Rightarrow> chat_context \<Rightarrow> model_target list \<Rightarrow> panel_answer list \<Rightarrow> 'e world
     \<Rightarrow> reply option \<times> 'e world" where
  "finish_fusion pv ctx panel answers w =
     (case panel of
        [] \<Rightarrow> (Some \<lparr>hr_status = 400, hr_retry_after = None,
                hr_body = JsonBody (build_error_body 400 ''Fusion combo has no models'')\<rparr>, w)
      | first # _ \<Rightarrow>
          (let answer_with = (\<lambda>ctx' target. case execute_for_target pv ctx' target w of
                 (TResponded r, w1) \<Rightarrow> (r, w1) | (TFailed r, w1) \<Rightarrow> (Some r, w1))
           in case answers of
                [] \<Rightarrow> (let (r, w1) = fail ctx first 503 ''All fusion panel models failed'' w
                       in (Some r, w1))
              | [a] \<Rightarrow> answer_with ctx
                         (opt_default first (find (\<lambda>t. target_label t = pa_model a) panel))
              | _ \<Rightarrow> answer_with (ctx\<lparr>rx_body := judge_body (rx_body ctx) answers\<rparr>) first))"

section \<open>Admission\<close>

record key_gate =
  kg_require_api_key :: bool
  kg_valid :: bool
  kg_active :: bool

definition enforce_api_key :: "(string option \<Rightarrow> key_gate option) \<Rightarrow> string option \<Rightarrow> reply option" where
  "enforce_api_key gate api_key =
     (let presented = Option.bind api_key (\<lambda>k. let t = trim k in if t = [] then None else Some t);
          refuse = (\<lambda>status message. Some \<lparr>hr_status = status, hr_retry_after = None,
                      hr_body = JsonBody (build_error_body status message)\<rparr>)
      in case gate presented of
           None \<Rightarrow> refuse 503 ''API-key gate unavailable''
         | Some g \<Rightarrow>
             if \<not> kg_require_api_key g then None
             else if presented = None then refuse 401 ''Missing API key''
             else if kg_valid g \<and> kg_active g then None
             else refuse 401 ''Invalid API key'')"

end
