(* ===== verification/Account_Failover.thy ===== *)
theory Account_Failover
  imports Pipeline
begin

text \<open>
  The contract between the pipeline and the state service, as a locale: what the account walk needs of
  selecting, attempting and marking, over a set of usable accounts. The walk is proved once from the
  contract; the interpretation discharges it for the store behind its protocol, for every
  provider, request and target.
\<close>

locale account_service =
  fixes select :: "'w \<Rightarrow> string list \<Rightarrow> selection \<times> 'w"
    and attempt :: "'w \<Rightarrow> credentials \<Rightarrow> attempt \<times> 'w"
    and mark :: "'w \<Rightarrow> credentials \<Rightarrow> nat \<Rightarrow> string \<Rightarrow> nat \<Rightarrow> nat option \<Rightarrow> 'w"
    and accounts :: "'w \<Rightarrow> string set"
  assumes select_usable:
      "select w ex = (SelSelected c, w') \<Longrightarrow>
         cx_connection_id c \<in> accounts w \<and> cx_connection_id c \<notin> set ex"
    and select_complete:
      "select w ex = (sel, w') \<Longrightarrow> (\<And>c. sel \<noteq> SelSelected c) \<Longrightarrow> (\<And>m. sel \<noteq> SelUnavailable m) \<Longrightarrow>
         accounts w \<subseteq> set ex"
    and select_keeps: "select w ex = (sel, w') \<Longrightarrow> accounts w \<subseteq> accounts w'"
    and attempt_keeps: "attempt w c = (a, w') \<Longrightarrow> accounts w - {cx_connection_id c} \<subseteq> accounts w'"
    and mark_keeps: "accounts w - {cx_connection_id c} \<subseteq> accounts (mark w c st msg ms level)"
begin

lemma walk_distinct:
  "account_loop select attempt mark n ex prev w = (r, ex', prev', w') \<Longrightarrow> distinct ex \<Longrightarrow>
     distinct ex' \<and> length ex' \<le> length ex + n"
proof (induction n arbitrary: ex prev w)
  case (Suc n)
  obtain s w1 where s: "select w ex = (s, w1)" by (cases "select w ex")
  show ?case
  proof (cases s)
    case (SelSelected c)
    obtain a w2 where a: "attempt w1 c = (a, w2)" by (cases "attempt w1 c")
    show ?thesis
    proof (cases a)
      case (Retryable st msg ms lvl)
      have "cx_connection_id c \<notin> set ex" using select_usable s SelSelected by simp
      then have d: "distinct (ex @ [cx_connection_id c])" using Suc.prems(2) by simp
      have "account_loop select attempt mark n (ex @ [cx_connection_id c]) (Some (st, msg))
          (mark w2 c st msg ms lvl) = (r, ex', prev', w')"
        using Suc.prems(1) s SelSelected a Retryable by simp
      from Suc.IH [OF this d] show ?thesis by simp
    qed (use Suc.prems s SelSelected a in simp)
  qed (use Suc.prems s in simp_all)
qed simp

lemma walk_prefix:
  "account_loop select attempt mark n ex prev w = (r, ex', prev', w') \<Longrightarrow> \<exists>ys. ex' = ex @ ys"
proof (induction n arbitrary: ex prev w)
  case (Suc n)
  then show ?case
    by (fastforce split: prod.splits selection.splits attempt.splits)
qed simp

lemma walk_covers:
  "account_loop select attempt mark n ex prev w = (r, ex', prev', w') \<Longrightarrow>
   (\<And>x. r \<noteq> LoopResponded x) \<Longrightarrow> (\<And>m. r \<noteq> LoopUnavailable m) \<Longrightarrow>
   accounts w \<subseteq> set ex' \<or> r = LoopSpent \<and> length ex' = length ex + n"
proof (induction n arbitrary: ex prev w)
  case (Suc n)
  obtain s w1 where s: "select w ex = (s, w1)" by (cases "select w ex")
  show ?case
  proof (cases s)
    case (SelSelected c)
    let ?i = "cx_connection_id c"
    obtain a w2 where a: "attempt w1 c = (a, w2)" by (cases "attempt w1 c")
    show ?thesis
    proof (cases a)
      case (Responded x)
      then show ?thesis using Suc.prems s SelSelected a by auto
    next
      case (Retryable st msg ms lvl)
      let ?w3 = "mark w2 c st msg ms lvl"
      have rest: "account_loop select attempt mark n (ex @ [?i]) (Some (st, msg)) ?w3
          = (r, ex', prev', w')"
        using Suc.prems(1) s SelSelected a Retryable by simp
      have "accounts w - {?i} \<subseteq> accounts ?w3"
        using select_keeps [OF s] attempt_keeps [OF a] mark_keeps [of w2 c st msg ms lvl] by blast
      moreover have "?i \<in> set ex'" using walk_prefix [OF rest] by auto
      ultimately show ?thesis using Suc.IH [OF rest Suc.prems(2,3)] by auto
    qed
  qed (use Suc.prems s select_complete [OF s] in auto)
qed auto

end

section \<open>The store fulfils the contract\<close>

text \<open>The accounts a request for a model may use now.\<close>

definition usable_accounts :: "string \<Rightarrow> string \<Rightarrow> 'e world \<Rightarrow> string set" where
  "usable_accounts provider model w =
     cn_id ` {c \<in> set (sn_connections (wd_store w)).
       cn_provider c = provider \<and> cn_is_active c \<and> \<not> is_locked c (Some model) (wd_now w)}"

lemma unlocked_later: "\<not> is_locked c m t \<Longrightarrow> t \<le> t' \<Longrightarrow> \<not> is_locked c m t'"
  by (auto simp: is_locked_alt lock_active_def split: option.splits)

lemma usable_later:
  "wd_store w' = wd_store w \<Longrightarrow> wd_now w \<le> wd_now w' \<Longrightarrow>
   usable_accounts p m w \<subseteq> usable_accounts p m w'"
  by (auto simp: usable_accounts_def dest: unlocked_later)

lemma usable_update:
  assumes "sn_connections (wd_store w') =
      update_first (\<lambda>c. cn_id c = cid) f (sn_connections (wd_store w))"
    and "wd_now w' = wd_now w"
  shows "usable_accounts p m w - {cid} \<subseteq> usable_accounts p m w'"
proof
  fix i assume "i \<in> usable_accounts p m w - {cid}"
  then obtain c where c: "c \<in> set (sn_connections (wd_store w))" "cn_id c = i" "i \<noteq> cid"
    "cn_provider c = p" "cn_is_active c" "\<not> is_locked c (Some m) (wd_now w)"
    by (auto simp: usable_accounts_def)
  then have "c \<in> set (sn_connections (wd_store w'))"
    unfolding assms(1) by (intro update_first_keeps_other) auto
  with c assms(2) show "i \<in> usable_accounts p m w'" by (auto simp: usable_accounts_def)
qed

lemma client_reads:
  "client_selection p (Some (snd (selection_response wr sel))) = selection_of (wr_provider wr) sel
   \<or> (\<exists>m. client_selection p (Some (snd (selection_response wr sel))) = SelUnavailable m)"
proof (cases "code_in_range sel")
  case True
  then show ?thesis using client_reads_response by blast
next
  case False
  then obtain t e n where sel: "sel = AllRateLimited t e (Some n)" "\<not> n \<le> u16_max"
    by (cases sel rule: code_in_range.cases) auto
  then have "decode_message (snd (selection_response wr sel)) = None"
    by (cases e) (simp_all add: selection_response_def decode_message_def opt_field_def jget_jobj
        json_opt_str_def json_opt_nat_def as_u16_def)
  then show ?thesis by (simp add: client_selection_def)
qed

lemma state_select_cases:
  assumes "state_select p (Some m) pref w ex = (sel, w')"
  obtains (down) "sel = SelUnavailable ''state service unreachable''" "w' = w"
  | (up) rq out sn where "rq_provider rq = p" "rq_model rq = Some m" "rq_exclude rq = ex"
      "select_connection (wd_now w) (millis_to_iso (wd_now w)) rq (wd_store w) = (out, sn)"
      "w' = w\<lparr>wd_store := sn\<rparr>"
      "sel = selection_of p out \<or> (\<exists>x. sel = SelUnavailable x)"
proof (cases "wd_state_up w")
  case False
  then show ?thesis using assms down by (simp add: state_select_def client_selection_def)
next
  case True
  let ?wr = "\<lparr>wr_provider = p, wr_model = Some m, wr_exclude = ex, wr_preferred = pref\<rparr>"
  let ?rq = "selection_request (wd_settings w) ?wr"
  obtain out sn where o: "select_connection (wd_now w) (millis_to_iso (wd_now w)) ?rq (wd_store w)
      = (out, sn)"
    by (cases "select_connection (wd_now w) (millis_to_iso (wd_now w)) ?rq (wd_store w)")
  have "sel = client_selection p (Some (snd (selection_response ?wr out)))" "w' = w\<lparr>wd_store := sn\<rparr>"
    using assms True o by (simp_all add: state_select_def handle_select_def)
  then show ?thesis
    using up [of ?rq out sn] o client_reads [of p ?wr out] by (simp add: selection_request_def)
qed

lemma select_facts:
  assumes "state_select p (Some m) pref w ex = (sel, w')"
  shows "sel = SelSelected c \<Longrightarrow> cx_connection_id c \<in> usable_accounts p m w
           \<and> cx_connection_id c \<notin> set ex"
    and "(\<And>c. sel \<noteq> SelSelected c) \<Longrightarrow> (\<And>m. sel \<noteq> SelUnavailable m) \<Longrightarrow>
           usable_accounts p m w \<subseteq> set ex"
    and "usable_accounts p m w \<subseteq> usable_accounts p m w'"
proof -
  from assms show "usable_accounts p m w \<subseteq> usable_accounts p m w'"
  proof (cases rule: state_select_cases)
    case (up rq out sn)
    note spec = select_meets_spec_aux [of "wd_now w" rq "wd_store w" "millis_to_iso (wd_now w)",
        unfolded up(4)]
    show ?thesis
    proof (cases out)
      case (Selected d)
      then obtain i where i: "i < length (sn_connections (wd_store w))"
        "same_but_rotation (sn_connections (wd_store w) ! i) d"
        "sn = wd_store w\<lparr>sn_connections := (sn_connections (wd_store w))[i := d]\<rparr>"
        using spec by (auto simp: select_spec_def Let_def)
      note f = same_but_rotation_fields [OF i(2)]
      have lock: "is_locked d m' t = is_locked (sn_connections (wd_store w) ! i) m' t" for m' t
        unfolding is_locked_def f ..
      show ?thesis
      proof
        fix x assume "x \<in> usable_accounts p m w"
        then obtain j where j: "j < length (sn_connections (wd_store w))"
          "x = cn_id (sn_connections (wd_store w) ! j)"
          "cn_provider (sn_connections (wd_store w) ! j) = p"
          "cn_is_active (sn_connections (wd_store w) ! j)"
          "\<not> is_locked (sn_connections (wd_store w) ! j) (Some m) (wd_now w)"
          by (auto simp: usable_accounts_def in_set_conv_nth)
        let ?e = "(sn_connections (wd_store w))[i := d] ! j"
        have "cn_id ?e = x" "cn_provider ?e = p" "cn_is_active ?e"
          "\<not> is_locked ?e (Some m) (wd_now w)"
          using j i(1) f lock by (auto simp: nth_list_update)
        moreover have "?e \<in> set ((sn_connections (wd_store w))[i := d])" using j(1) by simp
        ultimately show "x \<in> usable_accounts p m w'"
          unfolding usable_accounts_def up(5) i(3) by force
      qed
    qed (use spec up(5) in \<open>auto simp: select_spec_def Let_def\<close>)
  qed simp
  show "cx_connection_id c \<in> usable_accounts p m w \<and> cx_connection_id c \<notin> set ex"
    if chosen: "sel = SelSelected c"
    using assms
  proof (cases rule: state_select_cases)
    case (up rq out sn)
    then obtain d where d: "out = Selected d" "c = credentials_from_connection d"
      using chosen by (cases out) auto
    then have "fst (select_connection (wd_now w) (millis_to_iso (wd_now w)) rq (wd_store w)) = Selected d"
      using up(4) by simp
    from selected_was_eligible [OF this] obtain e where e: "e \<in> set (sn_connections (wd_store w))"
      "eligible rq (wd_now w) e" "same_but_rotation e d" .
    have "cx_connection_id c = cn_id e"
      using d(2) same_but_rotation_fields(1) [OF e(3)] by (simp add: credentials_from_connection_def)
    then show ?thesis
      using e(1,2) up(1-3) by (auto simp: usable_accounts_def eligible_def matches_def)
  qed (use chosen in simp)
  show "usable_accounts p m w \<subseteq> set ex"
    if none: "\<And>c. sel \<noteq> SelSelected c" "\<And>m. sel \<noteq> SelUnavailable m"
    using assms
  proof (cases rule: state_select_cases)
    case (up rq out sn)
    have "\<not> eligible rq (wd_now w) c" if "c \<in> set (sn_connections (wd_store w))" for c
      using select_iff_eligible [of "wd_now w" "millis_to_iso (wd_now w)" rq "wd_store w"] up(4,6)
        none that by (cases out) auto
    then show ?thesis
      using up(1-3) by (auto simp: usable_accounts_def eligible_def matches_def)
  qed (use none in simp)
qed

lemma usable_mark: "usable_accounts p m w - {cd_connection_id cd} \<subseteq> usable_accounts p m (state_mark w cd)"
proof (cases "wd_state_up w \<and> (\<exists>c \<in> set (sn_connections (wd_store w)). cn_id c = cd_connection_id cd)")
  case True
  then show ?thesis
    by (intro usable_update [where f = "mark_one (wd_now w) (mark_of cd)"])
       (simp_all add: state_mark_def mark_connection_unavailable_def mark_of_def)
next
  case False
  then have "state_mark w cd = w"
    by (auto simp: state_mark_def mark_connection_unavailable_def mark_of_def)
  then show ?thesis by auto
qed

lemma usable_clear: "usable_accounts p m w - {cid} \<subseteq> usable_accounts p m (state_clear cid model w)"
proof (cases "wd_state_up w \<and> (\<exists>c \<in> set (sn_connections (wd_store w)). cn_id c = cid)")
  case True
  then show ?thesis
    by (intro usable_update [where f = "clear_one (wd_now w) model"])
       (simp_all add: state_clear_def clear_connection_error_def)
next
  case False
  then have "state_clear cid model w = w" by (auto simp: state_clear_def clear_connection_error_def)
  then show ?thesis by auto
qed

lemma usable_refreshed:
  "usable_accounts p m w - {cid} \<subseteq> usable_accounts p m (state_store_refreshed cid r w)"
proof (cases "wd_state_up w \<and> (\<exists>c \<in> set (sn_connections (wd_store w)). cn_id c = cid)")
  case True
  then show ?thesis
    by (intro usable_update [where f = "apply_credentials (wd_now w) (persist_update (wd_now w) r)"])
       (simp_all add: state_store_refreshed_def update_connection_credentials_def)
next
  case False
  then have "state_store_refreshed cid r w = w"
    by (auto simp: state_store_refreshed_def update_connection_credentials_def)
  then show ?thesis by auto
qed

lemma usable_record [simp]:
  "usable_accounts p m (record_usage ctx target conn st code usage err w) = usable_accounts p m w"
  by (simp add: usable_accounts_def record_usage_def)

lemma usable_elapse:
  "usable_accounts p m w \<subseteq> usable_accounts p m (w\<lparr>wd_env := env, wd_now := wd_now w + n\<rparr>)"
  by (rule usable_later) simp_all

lemma refresh_keeps:
  assumes "refresh_if_due pv provider c w = Some (c', w')"
  shows "usable_accounts p m w - {cx_connection_id c} \<subseteq> usable_accounts p m w'
    \<and> cx_connection_id c' = cx_connection_id c"
proof -
  obtain result env n where x: "pv_exchange pv provider c (wd_env w) = (result, env, n)"
    by (cases "pv_exchange pv provider c (wd_env w)") auto
  let ?w1 = "w\<lparr>wd_env := env, wd_now := wd_now w + n\<rparr>"
  have elapse: "usable_accounts p m w \<subseteq> usable_accounts p m ?w1" by (rule usable_elapse)
  show ?thesis
  proof (cases "should_refresh (pv_oauth pv) provider c (wd_now w)")
    case None
    then show ?thesis using assms by (simp add: refresh_if_due_def)
  next
    case (Some due)
    show ?thesis
    proof (cases due)
      case False
      then have "c' = c" "w' = w" using assms Some by (simp_all add: refresh_if_due_def)
      then show ?thesis by blast
    next
      case True
      show ?thesis
      proof (cases result)
        case (Inr r)
        then have "w' = state_store_refreshed (cx_connection_id c) r ?w1"
          "cx_connection_id c' = cx_connection_id c"
          using assms Some True x by (auto simp: refresh_if_due_def Let_def)
        then show ?thesis
          using elapse usable_refreshed [of p m ?w1 "cx_connection_id c" r] by blast
      next
        case (Inl e)
        show ?thesis
        proof (cases "is_permanent e")
          case True
          let ?cd = "\<lparr>cd_connection_id = cx_connection_id c, cd_model = None, cd_status = 401,
              cd_reason = ''OAuth refresh failed: '' @ pv_describe pv e,
              cd_duration_ms = REAUTH_COOLDOWN_MS, cd_backoff_level = None\<rparr>"
          have "c' = c" "w' = state_mark ?w1 ?cd"
            using assms Some \<open>due\<close> x Inl True by (auto simp: refresh_if_due_def Let_def)
          then show ?thesis using elapse usable_mark [of p m ?w1 ?cd] by auto
        next
          case False
          then have "c' = c" "w' = ?w1"
            using assms Some \<open>due\<close> x Inl by (auto simp: refresh_if_due_def Let_def)
          then show ?thesis using elapse by blast
        qed
      qed
    qed
  qed
qed

lemma attempt_keeps_usable:
  assumes "run_attempt pv ctx target w c = (a, w')"
  shows "usable_accounts p m w - {cx_connection_id c} \<subseteq> usable_accounts p m w'"
proof (cases "refresh_if_due pv (mt_provider target) c w")
  case None
  then show ?thesis using assms by (auto simp: run_attempt_def)
next
  case (Some cw)
  obtain c1 w1 where cw: "cw = (c1, w1)" by (cases cw)
  obtain outcome env n where d: "pv_dispatch pv ctx target c1 (wd_env w1) = (outcome, env, n)"
    by (cases "pv_dispatch pv ctx target c1 (wd_env w1)") auto
  let ?w2 = "w1\<lparr>wd_env := env, wd_now := wd_now w1 + n\<rparr>"
  have "usable_accounts p m w' = usable_accounts p m ?w2 \<or>
      usable_accounts p m w' =
        usable_accounts p m (state_clear (cx_connection_id c1) (Some (mt_model target)) ?w2)"
    using assms Some cw d
    by (auto simp: run_attempt_def Let_def split: upstream.splits option.splits if_splits)
  then have "usable_accounts p m ?w2 - {cx_connection_id c1} \<subseteq> usable_accounts p m w'"
    using usable_clear [of p m ?w2 "cx_connection_id c1" "Some (mt_model target)"] by auto
  then show ?thesis
    using refresh_keeps [of pv "mt_provider target" c w c1 w1 p m] Some cw
      usable_elapse [of p m w1 n env] by auto
qed

lemma mark_failed_keeps:
  "usable_accounts p m w - {cx_connection_id c} \<subseteq>
   usable_accounts p m (mark_failed target w c st msg ms level)"
proof -
  let ?cd = "\<lparr>cd_connection_id = cx_connection_id c, cd_model = Some (mt_model target),
       cd_status = st, cd_reason = msg, cd_duration_ms = ms, cd_backoff_level = level\<rparr>"
  show ?thesis unfolding mark_failed_def using usable_mark [of p m w ?cd] by simp
qed

interpretation acc: account_service
    "state_select (mt_provider target) (Some (mt_model target)) None" "run_attempt pv ctx target"
    "mark_failed target" "usable_accounts (mt_provider target) (mt_model target)"
  for pv :: "'e provider_side" and ctx target
proof unfold_locales
  fix w :: "'e world" and ex sel w' c and a st msg ms level
  show "state_select (mt_provider target) (Some (mt_model target)) None w ex = (SelSelected c, w') \<Longrightarrow>
      cx_connection_id c \<in> usable_accounts (mt_provider target) (mt_model target) w
      \<and> cx_connection_id c \<notin> set ex"
    by (rule select_facts(1)) auto
  show "state_select (mt_provider target) (Some (mt_model target)) None w ex = (sel, w') \<Longrightarrow>
      (\<And>c. sel \<noteq> SelSelected c) \<Longrightarrow> (\<And>m. sel \<noteq> SelUnavailable m) \<Longrightarrow>
      usable_accounts (mt_provider target) (mt_model target) w \<subseteq> set ex"
    by (rule select_facts(2)) auto
  show "state_select (mt_provider target) (Some (mt_model target)) None w ex = (sel, w') \<Longrightarrow>
      usable_accounts (mt_provider target) (mt_model target) w
      \<subseteq> usable_accounts (mt_provider target) (mt_model target) w'"
    by (rule select_facts(3))
  show "run_attempt pv ctx target w c = (a, w') \<Longrightarrow>
      usable_accounts (mt_provider target) (mt_model target) w - {cx_connection_id c}
      \<subseteq> usable_accounts (mt_provider target) (mt_model target) w'"
    by (rule attempt_keeps_usable)
  show "usable_accounts (mt_provider target) (mt_model target) w - {cx_connection_id c}
      \<subseteq> usable_accounts (mt_provider target) (mt_model target)
          (mark_failed target w c st msg ms level)"
    by (rule mark_failed_keeps)
qed

section \<open>Properties\<close>

text \<open>C2: Failover is complete and never repeats an account. Serving a target tries pairwise different
  accounts, ten at most; when it ends without an answer and the state service did answer, every account
  that was active for the provider and not cooling down for the model when the request
  began has been tried, unless ten were tried.\<close>

theorem failover_complete:
  assumes "run_accounts pv ctx target w = (r, tried, prev, w')"
  shows "distinct tried \<and> length tried \<le> MAX_ACCOUNT_ATTEMPTS
    \<and> ((\<exists>x. r = LoopResponded x) \<or> (\<exists>m. r = LoopUnavailable m)
       \<or> usable_accounts (mt_provider target) (mt_model target) w \<subseteq> set tried
       \<or> r = LoopSpent \<and> length tried = MAX_ACCOUNT_ATTEMPTS)"
proof -
  note run = assms [unfolded run_accounts_def]
  show ?thesis using acc.walk_distinct [OF run] acc.walk_covers [OF run] by auto
qed

definition sample_provider :: "unit provider_side" where
  "sample_provider = \<lparr>pv_supported = (\<lambda>_. True), pv_unsupported_message = (\<lambda>p. p),
     pv_oauth = Map.empty, pv_dispatch = (\<lambda>_ _ _ e. (Refused 500 ''boom'', e, 3)),
     pv_exchange = (\<lambda>_ _ e. (Inl RNotConfigured, e, 0)), pv_describe = (\<lambda>_. []),
     pv_parse_json = (\<lambda>_. None), pv_render_json = (\<lambda>_. [])\<rparr>"

definition sample_context :: chat_context where
  "sample_context = \<lparr>rx_endpoint = ''/v1/chat/completions'', rx_body = JObj [], rx_stream = False\<rparr>"

definition sample_target :: model_target where
  "sample_target = \<lparr>mt_provider = ''glm'', mt_model = ''m''\<rparr>"

definition sample_world :: "unit world" where
  "sample_world = \<lparr>wd_store = sample_snapshot, wd_settings = sample_settings, wd_state_up = True,
     wd_now = 5, wd_env = (), wd_usage = []\<rparr>"

theorem failover_complete_witness:
  "distinct (fst (snd (run_accounts sample_provider sample_context sample_target sample_world)))"
proof -
  obtain r tried prev w' where
    run: "run_accounts sample_provider sample_context sample_target sample_world = (r, tried, prev, w')"
    by (cases "run_accounts sample_provider sample_context sample_target sample_world") auto
  from failover_complete [OF run] run show ?thesis by simp
qed

text \<open>C15: Admission fails closed, and each refusal has its status. The gate is asked about the presented
  key, without its surrounding blanks; a blank key counts as none. A request passes exactly when the
  state service answered this question and either keys are not required or a key was presented and
  the answer calls it known and active. The refusal is a 503 exactly when the service did not answer,
  and a 401 with the message naming a missing or an invalid key in every other case.\<close>

theorem admission_fails_closed:
  fixes api_key :: "string option"
  defines "presented \<equiv> (case api_key of
             Some k \<Rightarrow> if trim k = [] then None else Some (trim k) | None \<Rightarrow> None)"
  shows "(enforce_api_key gate api_key = None \<longleftrightarrow>
      (\<exists>g. gate presented = Some g \<and>
         (kg_require_api_key g \<longrightarrow> presented \<noteq> None \<and> kg_valid g \<and> kg_active g)))
    \<and> (\<forall>r. enforce_api_key gate api_key = Some r \<longrightarrow>
         (hr_status r, hr_body r) =
           (if gate presented = None
            then (503, JsonBody (build_error_body 503 ''API-key gate unavailable''))
            else (401, JsonBody (build_error_body 401
                    (if presented = None then ''Missing API key'' else ''Invalid API key'')))))"
proof (cases "gate presented")
  case None
  then show ?thesis
    by (cases api_key) (auto simp: presented_def enforce_api_key_def Let_def)
next
  case (Some g)
  then show ?thesis
    by (cases api_key) (auto simp: presented_def enforce_api_key_def Let_def)
qed

theorem admission_fails_closed_witness:
  "hr_status (the (enforce_api_key (\<lambda>_. None) (Some ''key''))) = 503"
proof -
  have "enforce_api_key (\<lambda>_. None) (Some ''key'') \<noteq> None" by (simp add: enforce_api_key_def Let_def)
  then obtain r where r: "enforce_api_key (\<lambda>_. None) (Some ''key'') = Some r" by blast
  show ?thesis using admission_fails_closed [of "\<lambda>_. None" "Some ''key''"] unfolding r by simp
qed

text \<open>No refusal is final. Whatever status and body a provider refuses a request with, the attempt asks
  for another account, with a cooldown of at least a millisecond and at most five minutes, and the
  backoff level it stores is never above one, because every decision is made from level zero.\<close>

theorem refusal_always_retried:
  assumes "refresh_if_due pv (mt_provider target) c w = Some (c1, w1)"
    and "pv_dispatch pv ctx target c1 (wd_env w1) = (Refused status body, env, n)"
  shows "\<exists>message ms level w'. run_attempt pv ctx target w c = (Retryable status message ms level, w')
    \<and> 0 < ms \<and> ms \<le> BACKOFF_MAX_MS \<and> (level = None \<or> level = Some 1)"
proof -
  let ?m = "ue_message (parse_upstream_error (pv_parse_json pv) (pv_render_json pv) status body)"
  obtain d where d: "check_fallback_error status ?m 0 = Some d"
    using check_fallback_total [of 0 status ?m] by (auto simp: u32_max_def)
  then have fd: "fallback_decision_for status ?m = d" by (simp add: fallback_decision_for_def)
  note b = check_fallback_bounds [OF d]
  have "new_backoff_level d = None \<or> new_backoff_level d = Some 1"
    using d by (auto simp: check_fallback_error_def decide_def Let_def BACKOFF_MAX_LEVEL_def u32_max_def
        split: option.splits if_splits)
  with assms fd b show ?thesis by (simp add: run_attempt_def Let_def)
qed

theorem refusal_always_retried_witness:
  "\<exists>message ms level w'. run_attempt sample_provider sample_context sample_target sample_world
      (credentials_from_connection (sample_connection ''b'' ''glm'' 1))
      = (Retryable 500 message ms level, w')"
proof -
  let ?c = "credentials_from_connection (sample_connection ''b'' ''glm'' 1)"
  have due: "refresh_if_due sample_provider (mt_provider sample_target) ?c sample_world
      = Some (?c, sample_world)"
    by (simp add: refresh_if_due_def should_refresh_def credentials_from_connection_def
        sample_connection_def)
  have sent: "pv_dispatch sample_provider sample_context sample_target ?c (wd_env sample_world)
      = (Refused 500 ''boom'', (), 3)"
    by (simp add: sample_provider_def)
  from refusal_always_retried [OF due sent] show ?thesis by blast
qed

text \<open>The \<open>Retry-After\<close> of a rate-limited reply is at least one second and otherwise the time left,
  rounded down to whole seconds: it can point up to a second before the first account is free.\<close>

theorem retry_after_rounds_down:
  assumes "retry_at_ms - wd_now w < 2 ^ 63"
  shows "\<exists>s. hr_retry_after (fst (rate_limited ctx target retry_at_ms e code w)) = Some s \<and> 1 \<le> s
    \<and> (1000 \<le> retry_at_ms - wd_now w \<longrightarrow>
         1000 * s \<le> retry_at_ms - wd_now w \<and> retry_at_ms - wd_now w < 1000 * s + 1000)
    \<and> (hr_status (fst (rate_limited ctx target retry_at_ms e code w)) = 503
       \<or> Some (hr_status (fst (rate_limited ctx target retry_at_ms e code w))) = code)"
proof -
  let ?left = "retry_at_ms - wd_now w"
  have "1 \<le> ?left div 1000" if "1000 \<le> ?left" using that by simp
  then have "1000 \<le> ?left \<longrightarrow> 1000 * max (?left div 1000) 1 \<le> ?left
      \<and> ?left < 1000 * max (?left div 1000) 1 + 1000"
    using div_mult_mod_eq [of ?left 1000] mod_less_divisor [of 1000 ?left] by (auto simp: max_def)
  then show ?thesis
    using assms by (auto simp: rate_limited_def Let_def error_response_def split: option.split)
qed

theorem retry_after_rounds_down_witness:
  "\<exists>s. hr_retry_after (fst (rate_limited sample_context sample_target 2004 None None sample_world)) = Some s
    \<and> 1000 * s \<le> 1999"
proof -
  have "(2004::nat) - wd_now sample_world < 2 ^ 63" by (simp add: sample_world_def)
  from retry_after_rounds_down [OF this, of sample_context sample_target None None]
  obtain s where s: "hr_retry_after (fst (rate_limited sample_context sample_target 2004 None None
      sample_world)) = Some s" "1000 * s \<le> 2004 - wd_now sample_world"
    by (auto simp: sample_world_def)
  then show ?thesis by (auto simp: sample_world_def)
qed

end
