(* ===== verification/Persistence.thy ===== *)
theory Persistence
  imports Main "HOL-Library.Sublist"
begin

text \<open>
  How the store reaches disk (\<open>StateStore\<close> in \<open>services/state-actix/src/store.rs\<close>):
  \<open>write_snapshot\<close> mutates and writes under the persist lock and the snapshot lock,
  \<open>write_snapshot_deferred\<close> mutates under the snapshot lock and sets the dirty flag after
  releasing it, \<open>flush_if_dirty\<close> takes the flag, then the persist lock, clones the snapshot and
  writes the clone, and puts the flag back when the write fails.

  Threads interleave at every access to shared state. The content of a snapshot is the list of the
  mutations applied to it, so that a prefix is an older state; writing replaces the file atomically
  (\<open>write_private\<close> writes a temporary file and renames it), and a failed write leaves it as it was.
\<close>

datatype 'op phase =
    Idle
  | DeferredMutated        \<comment> \<open>snapshot lock released, \<open>dirty\<close> not set yet\<close>
  | FlushClaimed           \<comment> \<open>\<open>dirty\<close> taken, waiting for the persist lock\<close>
  | FlushLocked
  | FlushCloned "'op list"
  | FlushFailed
  | DurableLocked
  | DurableMutated         \<comment> \<open>both locks held from here to the end\<close>
  | DurableWritten

record 'op pstate =
  ps_mem :: "'op list"
  ps_disk :: "'op list"
  ps_dirty :: bool
  ps_phase :: "nat \<Rightarrow> 'op phase"

fun holds_persist :: "'op phase \<Rightarrow> bool" where
  "holds_persist Idle = False"
| "holds_persist DeferredMutated = False"
| "holds_persist FlushClaimed = False"
| "holds_persist _ = True"

fun holds_snapshot :: "'op phase \<Rightarrow> bool" where
  "holds_snapshot DurableMutated = True"
| "holds_snapshot DurableWritten = True"
| "holds_snapshot _ = False"

definition persist_free :: "'op pstate \<Rightarrow> bool" where
  "persist_free s \<longleftrightarrow> (\<forall>t. \<not> holds_persist (ps_phase s t))"

definition snapshot_free :: "'op pstate \<Rightarrow> bool" where
  "snapshot_free s \<longleftrightarrow> (\<forall>t. \<not> holds_snapshot (ps_phase s t))"

abbreviation at_phase :: "'op pstate \<Rightarrow> nat \<Rightarrow> 'op phase \<Rightarrow> 'op pstate" where
  "at_phase s t p \<equiv> s\<lparr>ps_phase := (ps_phase s)(t := p)\<rparr>"

text \<open>\<open>pstep faults\<close>: the steps of the threads; a durable write can fail only when \<open>faults\<close>.\<close>

inductive pstep :: "bool \<Rightarrow> 'op pstate \<Rightarrow> 'op pstate \<Rightarrow> bool" for faults where
  deferred_mutate: "ps_phase s t = Idle \<Longrightarrow> snapshot_free s \<Longrightarrow>
    pstep faults s (at_phase (s\<lparr>ps_mem := ps_mem s @ [m]\<rparr>) t DeferredMutated)"
| deferred_mark: "ps_phase s t = DeferredMutated \<Longrightarrow>
    pstep faults s (at_phase (s\<lparr>ps_dirty := True\<rparr>) t Idle)"
| flush_skip: "ps_phase s t = Idle \<Longrightarrow> \<not> ps_dirty s \<Longrightarrow> pstep faults s s"
| flush_claim: "ps_phase s t = Idle \<Longrightarrow> ps_dirty s \<Longrightarrow>
    pstep faults s (at_phase (s\<lparr>ps_dirty := False\<rparr>) t FlushClaimed)"
| flush_lock: "ps_phase s t = FlushClaimed \<Longrightarrow> persist_free s \<Longrightarrow>
    pstep faults s (at_phase s t FlushLocked)"
| flush_clone: "ps_phase s t = FlushLocked \<Longrightarrow> snapshot_free s \<Longrightarrow>
    pstep faults s (at_phase s t (FlushCloned (ps_mem s)))"
| flush_ok: "ps_phase s t = FlushCloned v \<Longrightarrow>
    pstep faults s (at_phase (s\<lparr>ps_disk := v\<rparr>) t Idle)"
| flush_fail: "ps_phase s t = FlushCloned v \<Longrightarrow> pstep faults s (at_phase s t FlushFailed)"
| flush_restore: "ps_phase s t = FlushFailed \<Longrightarrow>
    pstep faults s (at_phase (s\<lparr>ps_dirty := True\<rparr>) t Idle)"
| durable_lock: "ps_phase s t = Idle \<Longrightarrow> persist_free s \<Longrightarrow>
    pstep faults s (at_phase s t DurableLocked)"
| durable_mutate: "ps_phase s t = DurableLocked \<Longrightarrow> snapshot_free s \<Longrightarrow>
    pstep faults s (at_phase (s\<lparr>ps_mem := ps_mem s @ [m]\<rparr>) t DurableMutated)"
| durable_ok: "ps_phase s t = DurableMutated \<Longrightarrow>
    pstep faults s (at_phase (s\<lparr>ps_disk := ps_mem s\<rparr>) t DurableWritten)"
| durable_clear: "ps_phase s t = DurableWritten \<Longrightarrow>
    pstep faults s (at_phase (s\<lparr>ps_dirty := False\<rparr>) t Idle)"
| durable_fail: "ps_phase s t = DurableMutated \<Longrightarrow> faults \<Longrightarrow>
    pstep faults s (at_phase s t Idle)"

definition pinit :: "'op pstate" where
  "pinit = \<lparr>ps_mem = [], ps_disk = [], ps_dirty = False, ps_phase = (\<lambda>_. Idle)\<rparr>"

inductive preach :: "bool \<Rightarrow> 'op pstate \<Rightarrow> bool" for faults where
  preach_init: "preach faults pinit"
| preach_step: "preach faults s \<Longrightarrow> pstep faults s s' \<Longrightarrow> preach faults s'"

section \<open>Locking and order\<close>

definition one_holder :: "'op pstate \<Rightarrow> bool" where
  "one_holder s \<longleftrightarrow>
     (\<forall>t u. holds_persist (ps_phase s t) \<longrightarrow> holds_persist (ps_phase s u) \<longrightarrow> t = u)"

text \<open>The disk is an older state of the memory, and so is a clone on its way to disk.\<close>

definition in_order :: "'op pstate \<Rightarrow> bool" where
  "in_order s \<longleftrightarrow> prefix (ps_disk s) (ps_mem s) \<and>
     (\<forall>t v. ps_phase s t = FlushCloned v \<longrightarrow> prefix (ps_disk s) v \<and> prefix v (ps_mem s)) \<and>
     (\<forall>t. ps_phase s t = DurableWritten \<longrightarrow> ps_disk s = ps_mem s)"

lemma holds_snapshot_persist: "holds_snapshot p \<Longrightarrow> holds_persist p"
  by (cases p) auto

lemma one_holder_step: "pstep faults s s' \<Longrightarrow> one_holder s \<Longrightarrow> one_holder s'"
proof (induction rule: pstep.induct)
qed (auto simp: one_holder_def persist_free_def split: if_splits)

lemma sole: "one_holder s \<Longrightarrow> holds_persist (ps_phase s t) \<Longrightarrow> holds_persist (ps_phase s u) \<Longrightarrow> u = t"
  unfolding one_holder_def by blast

lemma exclusive:
  assumes "one_holder s" "ps_phase s t = p" "holds_persist p" "holds_persist q" "p \<noteq> q"
  shows "ps_phase s u \<noteq> q"
proof
  assume "ps_phase s u = q"
  with assms have "u = t" unfolding one_holder_def by blast
  with assms \<open>ps_phase s u = q\<close> show False by simp
qed

lemma in_order_step: "pstep faults s s' \<Longrightarrow> one_holder s \<Longrightarrow> in_order s \<Longrightarrow> in_order s'"
proof (induction rule: pstep.induct)
  case (deferred_mutate s t m)
  then have "ps_phase s u \<noteq> DurableWritten" for u
    unfolding snapshot_free_def by (metis holds_snapshot.simps(2))
  with deferred_mutate show ?case by (auto simp: in_order_def intro: prefix_prefix)
next
  case (durable_mutate s t m)
  then have "ps_phase s u \<noteq> DurableWritten" for u
    unfolding snapshot_free_def by (metis holds_snapshot.simps(2))
  with durable_mutate show ?case by (auto simp: in_order_def intro: prefix_prefix)
next
  case (durable_ok s t)
  then have "ps_phase s u \<noteq> FlushCloned v" for u v
    by (intro exclusive [where t = t and p = DurableMutated]) auto
  with durable_ok show ?case by (auto simp: in_order_def)
next
  case (flush_ok s t v)
  have "ps_phase s u \<noteq> FlushCloned w" if "u \<noteq> t" for u w
    using sole [of s t u] flush_ok that by auto
  moreover have "ps_phase s u \<noteq> DurableWritten" for u
    using flush_ok by (intro exclusive [where t = t and p = "FlushCloned v"]) auto
  ultimately show ?case using flush_ok by (auto simp: in_order_def)
qed (auto simp: in_order_def)

lemma preach_order: "preach faults s \<Longrightarrow> one_holder s \<and> in_order s"
proof (induction rule: preach.induct)
  case preach_init
  show ?case by (simp add: pinit_def one_holder_def in_order_def)
next
  case (preach_step s s')
  then show ?case using one_holder_step in_order_step by blast
qed

text \<open>C3: Writes reach the disk in order, whatever the interleaving and even when writes fail: the disk is
  always an older state of the memory, and no step takes back anything already on disk, so a flush
  that was delayed cannot overwrite a later durable save. A durable save that reports success
  has everything in memory on disk at that moment.\<close>

theorem disk_never_goes_back:
  assumes "preach faults s" "pstep faults s s'"
  shows "prefix (ps_disk s) (ps_mem s) \<and> prefix (ps_disk s) (ps_disk s')
    \<and> (\<forall>t. ps_phase s t = DurableWritten \<longrightarrow> ps_disk s = ps_mem s)"
proof -
  have o: "in_order s" using preach_order assms(1) by blast
  from assms(2) have "prefix (ps_disk s) (ps_disk s')"
    using o by (induction rule: pstep.induct) (auto simp: in_order_def)
  with o show ?thesis by (auto simp: in_order_def)
qed

section \<open>Nothing is forgotten\<close>

text \<open>A thread that will still bring the memory to disk, or set the flag.\<close>

fun pending :: "'op list \<Rightarrow> 'op phase \<Rightarrow> bool" where
  "pending mem DeferredMutated = True"
| "pending mem FlushClaimed = True"
| "pending mem FlushLocked = True"
| "pending mem FlushFailed = True"
| "pending mem (FlushCloned v) = (v = mem)"
| "pending mem DurableMutated = True"
| "pending mem _ = False"

definition covered :: "'op pstate \<Rightarrow> bool" where
  "covered s \<longleftrightarrow> ps_dirty s \<or> (\<exists>t. pending (ps_mem s) (ps_phase s t))"

definition tracked :: "'op pstate \<Rightarrow> bool" where
  "tracked s \<longleftrightarrow> (ps_mem s = ps_disk s \<or> covered s)
     \<and> (\<forall>t v. ps_phase s t = FlushCloned v \<longrightarrow> covered s)"

lemma coveredI: "pending (ps_mem s) (ps_phase s t) \<Longrightarrow> covered s"
  by (auto simp: covered_def)

lemma tracked_covered: "covered s \<Longrightarrow> tracked s"
  by (simp add: tracked_def)

lemma tracked_step:
  "pstep False s s' \<Longrightarrow> one_holder s \<Longrightarrow> in_order s \<Longrightarrow> tracked s \<Longrightarrow> tracked s'"
proof (induction rule: pstep.induct)
  case (flush_clone s t)
  show ?case by (rule tracked_covered, rule coveredI [where t = t]) simp
next
  case (flush_ok s t v)
  have other: "\<not> holds_persist (ps_phase s u)" if "u \<noteq> t" for u
    using sole [of s t u] flush_ok that by auto
  from flush_ok consider "ps_dirty s" | u where "pending (ps_mem s) (ps_phase s u)"
    by (auto simp: tracked_def covered_def)
  then show ?case
  proof cases
    case 1
    then show ?thesis by (intro tracked_covered) (simp add: covered_def)
  next
    case (2 u)
    show ?thesis
    proof (cases "u = t")
      case True
      with 2 flush_ok have "v = ps_mem s" by simp
      moreover have "ps_phase s w \<noteq> FlushCloned x" if "w \<noteq> t" for w x
        using other [OF that] by auto
      ultimately show ?thesis by (auto simp: tracked_def)
    next
      case False
      with 2 show ?thesis by (intro tracked_covered coveredI [where t = u]) simp
    qed
  qed
next
  case (durable_ok s t)
  then have "ps_phase s u \<noteq> FlushCloned v" for u v
    by (intro exclusive [where t = t and p = DurableMutated]) auto
  then show ?case by (auto simp: tracked_def)
next
  case (durable_clear s t)
  then have "ps_phase s u \<noteq> FlushCloned v" for u v
    by (intro exclusive [where t = t and p = DurableWritten]) auto
  with durable_clear show ?case by (auto simp: tracked_def in_order_def)
next
  case (durable_lock s t)
  then have "covered s \<Longrightarrow> covered (at_phase s t DurableLocked)"
    by (auto simp: covered_def) (metis fun_upd_apply pending.simps(7))
  with durable_lock show ?case by (auto simp: tracked_def)
next
  case (flush_skip s t)
  then show ?case by simp
qed (auto intro!: tracked_covered simp: covered_def)

lemma preach_tracked: "preach False s \<Longrightarrow> tracked s"
proof (induction rule: preach.induct)
  case preach_init
  show ?case by (simp add: pinit_def tracked_def)
next
  case (preach_step s s')
  then show ?case using preach_order tracked_step by blast
qed

text \<open>C13: No change is forgotten while durable saves succeed: once every thread is idle, either memory and
  disk agree or the dirty flag is set, so the next flush writes the change. Failed background
  flushes are allowed; they put the flag back.\<close>

theorem nothing_forgotten:
  assumes "preach False s" "\<forall>t. ps_phase s t = Idle"
  shows "ps_disk s = ps_mem s \<or> ps_dirty s"
  using preach_tracked [OF assms(1)] assms(2) by (auto simp: tracked_def covered_def)

definition marked_state :: "nat pstate" where
  "marked_state = \<lparr>ps_mem = [7], ps_disk = [], ps_dirty = True, ps_phase = (\<lambda>_. Idle)\<rparr>"

lemma marked_reachable: "preach False marked_state"
proof -
  let ?s1 = "at_phase (pinit\<lparr>ps_mem := ps_mem pinit @ [7::nat]\<rparr>) 0 DeferredMutated"
  let ?s2 = "at_phase (?s1\<lparr>ps_dirty := True\<rparr>) 0 Idle"
  have "pstep False pinit ?s1"
    by (rule deferred_mutate) (simp_all add: pinit_def snapshot_free_def)
  moreover have "pstep False ?s1 ?s2"
    by (rule deferred_mark) simp
  ultimately have "preach False ?s2"
    by (blast intro: preach_init preach_step)
  moreover have "?s2 = marked_state"
    by (simp add: marked_state_def pinit_def fun_eq_iff)
  ultimately show ?thesis by (simp only:)
qed

theorem nothing_forgotten_witness:
  "ps_disk marked_state = ps_mem marked_state \<or> ps_dirty marked_state"
  by (rule nothing_forgotten [OF marked_reachable]) (simp add: marked_state_def)

theorem disk_never_goes_back_witness:
  "prefix (ps_disk marked_state) (ps_mem marked_state)"
proof -
  have "pstep False marked_state (at_phase (marked_state\<lparr>ps_dirty := False\<rparr>) 0 FlushClaimed)"
    by (rule flush_claim) (simp_all add: marked_state_def)
  from disk_never_goes_back [OF marked_reachable this] show ?thesis by blast
qed

text \<open>A durable save that fails leaves its change in memory only: the mutation is applied before the
  write, the failure neither undoes it nor sets the dirty flag, and the flush then has nothing to do
  although memory and disk differ.\<close>

theorem failed_save_is_forgotten:
  "\<exists>s :: nat pstate. preach True s \<and> (\<forall>t. ps_phase s t = Idle) \<and> ps_disk s \<noteq> ps_mem s
     \<and> \<not> ps_dirty s \<and> pstep True s s"
proof -
  let ?s1 = "at_phase pinit 0 DurableLocked :: nat pstate"
  let ?s2 = "at_phase (?s1\<lparr>ps_mem := ps_mem ?s1 @ [7]\<rparr>) 0 DurableMutated"
  let ?s3 = "at_phase ?s2 0 Idle"
  have "pstep True pinit ?s1"
    by (rule durable_lock) (simp_all add: pinit_def persist_free_def)
  moreover have "pstep True ?s1 ?s2"
    by (rule durable_mutate) (simp_all add: pinit_def snapshot_free_def)
  moreover have "pstep True ?s2 ?s3"
    by (rule durable_fail) simp_all
  ultimately have "preach True ?s3"
    by (blast intro: preach_init preach_step)
  moreover have "pstep True ?s3 ?s3"
    by (rule flush_skip [where t = 0]) (simp_all add: pinit_def)
  ultimately show ?thesis
    by (intro exI [of _ ?s3]) (simp add: pinit_def)
qed

section \<open>The locks cannot deadlock\<close>

lemma holder_moves:
  assumes "one_holder s" "holds_persist (ps_phase s t)"
  shows "\<exists>s'. pstep faults s s' \<and> ps_phase s' t \<noteq> ps_phase s t"
proof (cases "ps_phase s t")
  case FlushLocked
  have "snapshot_free s"
    using sole [OF assms] FlushLocked holds_snapshot_persist
    unfolding snapshot_free_def by (metis holds_snapshot.simps(6))
  from flush_clone [OF FlushLocked this] FlushLocked show ?thesis
    by (intro exI conjI) auto
next
  case DurableLocked
  have "snapshot_free s"
    using sole [OF assms] DurableLocked holds_snapshot_persist
    unfolding snapshot_free_def by (metis holds_snapshot.simps(9))
  from durable_mutate [OF DurableLocked this] DurableLocked show ?thesis
    by (intro exI conjI) auto
next
  case (FlushCloned v)
  from flush_ok [OF this] FlushCloned show ?thesis by (intro exI conjI) auto
next
  case FlushFailed
  from flush_restore [OF this] FlushFailed show ?thesis by (intro exI conjI) auto
next
  case DurableMutated
  from durable_ok [OF this] DurableMutated show ?thesis by (intro exI conjI) auto
next
  case DurableWritten
  from durable_clear [OF this] DurableWritten show ?thesis by (intro exI conjI) auto
qed (use assms in auto)

text \<open>C39: The two locks cannot deadlock: whenever some thread is in the middle of an operation, some
  thread in the middle of an operation can take its next step.\<close>

theorem persistence_progress:
  assumes "preach faults s" "ps_phase s t \<noteq> Idle"
  shows "\<exists>u s'. ps_phase s u \<noteq> Idle \<and> pstep faults s s' \<and> ps_phase s' u \<noteq> ps_phase s u"
proof -
  have one: "one_holder s" using preach_order assms(1) by blast
  show ?thesis
  proof (cases "persist_free s")
    case False
    then obtain u where u: "holds_persist (ps_phase s u)" by (auto simp: persist_free_def)
    then have "ps_phase s u \<noteq> Idle" by auto
    with holder_moves [OF one u] show ?thesis by blast
  next
    case free: True
    show ?thesis
    proof (cases "ps_phase s t")
      case DeferredMutated
      from deferred_mark [OF this] DeferredMutated show ?thesis
        by (intro exI [of _ t] exI conjI) auto
    next
      case FlushClaimed
      from flush_lock [OF this free] FlushClaimed show ?thesis
        by (intro exI [of _ t] exI conjI) auto
    qed (use assms(2) free in \<open>auto simp: persist_free_def dest: spec [of _ t]\<close>)
  qed
qed

theorem persistence_progress_witness:
  "\<exists>u s'. pstep False (at_phase (marked_state\<lparr>ps_dirty := False\<rparr>) 0 FlushClaimed) s'
     \<and> ps_phase s' u \<noteq> ps_phase (at_phase (marked_state\<lparr>ps_dirty := False\<rparr>) 0 FlushClaimed) u"
proof -
  let ?s = "at_phase (marked_state\<lparr>ps_dirty := False\<rparr>) 0 FlushClaimed"
  have "pstep False marked_state ?s"
    by (rule flush_claim) (simp_all add: marked_state_def)
  then have r: "preach False ?s" using marked_reachable preach_step by blast
  have "ps_phase ?s 0 \<noteq> Idle" by simp
  from persistence_progress [OF r this] show ?thesis by blast
qed

end
