(* ===== verification/Net_Address.thy ===== *)
theory Net_Address
  imports Router_Prelude
begin

text \<open>
  Network addresses as \<open>std::net::IpAddr\<close> has them: the order that keys the lockout table
  (every v4 address before every v6 one, then by value), the loopback test and the text form that
  the gateway writes into a header.
\<close>

datatype ip_addr = IpV4 "32 word" | IpV6 "128 word"

instantiation ip_addr :: linorder
begin

fun less_eq_ip_addr :: "ip_addr \<Rightarrow> ip_addr \<Rightarrow> bool" where
  "less_eq_ip_addr (IpV4 a) (IpV4 b) = (a \<le> b)"
| "less_eq_ip_addr (IpV4 a) (IpV6 b) = True"
| "less_eq_ip_addr (IpV6 a) (IpV4 b) = False"
| "less_eq_ip_addr (IpV6 a) (IpV6 b) = (a \<le> b)"

definition less_ip_addr :: "ip_addr \<Rightarrow> ip_addr \<Rightarrow> bool" where
  "less_ip_addr a b \<longleftrightarrow> a \<le> b \<and> \<not> b \<le> (a :: ip_addr)"

instance
proof
  fix x y z :: ip_addr
  show "(x < y) = (x \<le> y \<and> \<not> y \<le> x)" by (simp add: less_ip_addr_def)
  show "x \<le> x" by (cases x) auto
  show "x \<le> y \<Longrightarrow> y \<le> z \<Longrightarrow> x \<le> z" by (cases x; cases y; cases z) auto
  show "x \<le> y \<Longrightarrow> y \<le> x \<Longrightarrow> x = y" by (cases x; cases y) auto
  show "x \<le> y \<or> y \<le> x" by (cases x; cases y) auto
qed

end

fun is_loopback :: "ip_addr \<Rightarrow> bool" where
  "is_loopback (IpV4 a) = (drop_bit 24 a = 127)"
| "is_loopback (IpV6 a) = (a = 1)"

definition is_loopback_peer :: "ip_addr option \<Rightarrow> bool" where
  "is_loopback_peer peer = (case peer of None \<Rightarrow> False | Some ip \<Rightarrow> is_loopback ip)"

definition localhost :: ip_addr where "localhost = IpV4 0x7F000001"

lemma localhost_loopback [simp]: "is_loopback localhost"
  by (simp add: localhost_def)

unbundle bit_operations_syntax

section \<open>Text form\<close>

definition show_v4 :: "32 word \<Rightarrow> string" where
  "show_v4 a = join_with ''.'' (map (\<lambda>k. show_nat (unat (drop_bit k a AND 0xFF))) [24, 16, 8, 0])"

definition hex_char :: "nat \<Rightarrow> char" where
  "hex_char d = (if d < 10 then char_of (48 + d) else char_of (87 + d))"

fun show_hex :: "nat \<Rightarrow> string" where
  "show_hex n = (if n < 16 then [hex_char n] else show_hex (n div 16) @ [hex_char (n mod 16)])"

declare show_hex.simps [simp del]

definition segments :: "128 word \<Rightarrow> nat list" where
  "segments a = map (\<lambda>k. unat (drop_bit (16 * k) a AND 0xFFFF)) (rev [0..<8])"

text \<open>The first longest run of zero segments: start and length.\<close>

fun longest_zeroes :: "nat \<Rightarrow> nat \<times> nat \<Rightarrow> nat \<times> nat \<Rightarrow> nat list \<Rightarrow> nat \<times> nat" where
  "longest_zeroes i current longest [] = longest"
| "longest_zeroes i current longest (s # ss) =
     (if s = 0 then
        (let current' = (if snd current = 0 then i else fst current, snd current + 1)
         in longest_zeroes (i + 1) current' (if snd current' > snd longest then current' else longest) ss)
      else longest_zeroes (i + 1) (0, 0) longest ss)"

definition show_v6 :: "128 word \<Rightarrow> string" where
  "show_v6 a =
     (if drop_bit 32 a = 0xFFFF then ''::ffff:'' @ show_v4 (ucast a)
      else
        (let ss = segments a;
             (start, run) = longest_zeroes 0 (0, 0) (0, 0) ss;
             hex = (\<lambda>xs. join_with '':'' (map show_hex xs))
         in if run > 1 then hex (take start ss) @ ''::'' @ hex (drop (start + run) ss) else hex ss))"

fun show_ip :: "ip_addr \<Rightarrow> string" where
  "show_ip (IpV4 a) = show_v4 a"
| "show_ip (IpV6 a) = show_v6 a"

lemma show_localhost: "show_ip localhost = ''127.0.0.1''"
  by code_simp

lemma show_v6_localhost: "show_ip (IpV6 1) = ''::1''"
  by code_simp

end
