(* ===== verification/Gateway.thy ===== *)
theory Gateway
  imports Net_Address
begin

text \<open>
  The gateway of \<open>services/gateway-pingora/src\<close>: which service a path belongs to
  (\<open>routing.rs\<close>), what a request needs to be let through (\<open>policy.rs\<close>), and the two filters a
  request passes (\<open>proxy.rs\<close>). The rate limiter and the auth service are parameters of the request
  filter: the limiter answers with a waiting time when it refuses, the auth service with whether the
  credential stands and the role it carries, or not at all.
\<close>

section \<open>Routing\<close>

datatype route_kind =
  RouteApi | RouteCatalog | RouteRuntime | RouteEvents | RouteState | RouteDashboard | RouteAuth

text \<open>A collection, or one item of it. \<open>path\<close> itself or a single further segment.\<close>

definition path_tail :: "string \<Rightarrow> string \<Rightarrow> string option" where
  "path_tail path collection =
     Option.bind (strip_prefix path collection) (\<lambda>t. strip_prefix t ''/'')"

definition is_collection_or_item_except :: "string \<Rightarrow> string \<Rightarrow> string list \<Rightarrow> bool" where
  "is_collection_or_item_except path collection reserved \<longleftrightarrow>
     path = collection \<or>
     (case path_tail path collection of
        None \<Rightarrow> False
      | Some t \<Rightarrow> t \<noteq> [] \<and> CHR ''/'' \<notin> set t \<and> t \<notin> set reserved)"

definition is_collection_or_item :: "string \<Rightarrow> string \<Rightarrow> bool" where
  "is_collection_or_item path collection \<longleftrightarrow>
     path = collection \<or>
     (case path_tail path collection of
        None \<Rightarrow> False
      | Some t \<Rightarrow> t \<noteq> [] \<and> CHR ''/'' \<notin> set t)"

definition under :: "string \<Rightarrow> string \<Rightarrow> bool" where
  "under prefix path \<longleftrightarrow> path = prefix \<or> starts_with path (prefix @ ''/'')"

definition is_auth_path :: "string \<Rightarrow> bool" where
  "is_auth_path path \<longleftrightarrow> under ''/api/auth'' path"

definition is_events_path :: "string \<Rightarrow> bool" where
  "is_events_path path \<longleftrightarrow> path = ''/api/usage/stream''
     \<or> path = ''/api/translator/console-logs/stream'' \<or> under ''/api/mcp'' path"

definition is_runtime_path :: "string \<Rightarrow> bool" where
  "is_runtime_path path \<longleftrightarrow> under ''/v1'' path \<or> under ''/v1beta'' path
     \<or> under ''/api/v1'' path \<or> under ''/api/v1beta'' path"

definition is_catalog_path :: "string \<Rightarrow> bool" where
  "is_catalog_path path \<longleftrightarrow> under ''/api/catalog'' path \<or> under ''/api/state'' path"

definition is_model_settings_path :: "string \<Rightarrow> bool" where
  "is_model_settings_path path \<longleftrightarrow>
     path \<in> {''/api/models/disabled'', ''/api/models/custom'', ''/api/models/alias''}"

definition is_state_path :: "string \<Rightarrow> bool" where
  "is_state_path path \<longleftrightarrow>
     is_collection_or_item path ''/api/keys''
     \<or> is_collection_or_item path ''/api/provider-nodes''
     \<or> is_collection_or_item_except path ''/api/providers''
          [''client'', ''suggested-models'', ''validate'', ''test-batch'', ''kilo'']
     \<or> is_collection_or_item path ''/api/combos''
     \<or> is_collection_or_item_except path ''/api/proxy-pools''
          [''cloudflare-deploy'', ''deno-deploy'', ''vercel-deploy'']
     \<or> path = ''/api/settings''
     \<or> is_model_settings_path path"

definition route_for_path :: "string \<Rightarrow> route_kind" where
  "route_for_path path =
     (if starts_with path ''/v1/'' \<or> path = ''/v1'' \<or> starts_with path ''/v1beta/'' \<or> path = ''/v1beta''
      then RouteRuntime
      else case strip_prefix path ''/api'' of
        None \<Rightarrow> RouteDashboard
      | Some rest \<Rightarrow>
          if rest = [] then RouteApi
          else if is_events_path path then RouteEvents
          else if is_auth_path path then RouteAuth
          else if is_runtime_path path then RouteRuntime
          else if is_catalog_path path then RouteCatalog
          else if is_state_path path then RouteState
          else RouteApi)"

section \<open>Access policy\<close>

datatype http_method = GET | HEAD | OPTIONS | POST | PUT | PATCH | DELETE | OtherMethod string

definition mutating :: "http_method \<Rightarrow> bool" where
  "mutating m \<longleftrightarrow> m \<notin> {GET, HEAD, OPTIONS}"

definition HOST_ONLY_PREFIXES :: "string list" where
  "HOST_ONLY_PREFIXES =
     [''/api/cli-tools/cowork-settings'', ''/api/cli-tools/antigravity-mitm'', ''/api/mcp'',
      ''/api/tunnel/tailscale-install'', ''/api/tunnel/tailscale-enable'',
      ''/api/tunnel/tailscale-disable'', ''/api/tunnel/tailscale-check'', ''/api/tunnel/enable'',
      ''/api/tunnel/disable'', ''/api/tunnel'', ''/api/oauth/cursor/auto-import'',
      ''/api/oauth/kiro/auto-import'', ''/api/auth/reset-password'', ''/api/headroom/start'',
      ''/api/headroom/stop'', ''/api/headroom/restart'', ''/api/headroom/proxy'',
      ''/api/pxpipe/install'', ''/api/pxpipe/start'']"

definition HOST_ONLY_WRITE_PREFIXES :: "string list" where
  "HOST_ONLY_WRITE_PREFIXES = [''/api/cli-tools'', ''/api/headroom/extras'']"

definition matches_prefix :: "string list \<Rightarrow> string \<Rightarrow> bool" where
  "matches_prefix prefixes path \<longleftrightarrow> list_ex (\<lambda>p. under p path) prefixes"

definition is_host_only_path :: "string \<Rightarrow> bool" where
  "is_host_only_path path \<longleftrightarrow> matches_prefix HOST_ONLY_PREFIXES path"

definition is_host_only_write :: "string \<Rightarrow> http_method \<Rightarrow> bool" where
  "is_host_only_write path m \<longleftrightarrow> mutating m \<and> matches_prefix HOST_ONLY_WRITE_PREFIXES path"

definition is_internal_path :: "string \<Rightarrow> bool" where
  "is_internal_path path \<longleftrightarrow> under ''/internal'' path"

definition is_public_path :: "string \<Rightarrow> bool" where
  "is_public_path path \<longleftrightarrow>
     path \<in> {''/'', ''/login'', ''/landing'', ''/callback'', ''/favicon.svg'', ''/api/health''}
     \<or> starts_with path ''/pkg/'' \<or> starts_with path ''/providers/'' \<or> starts_with path ''/assets/''
     \<or> under ''/api/auth'' path"

text \<open>Roles in their derived order.\<close>

datatype principal_role = Viewer | Operator | Admin

fun rank :: "principal_role \<Rightarrow> nat" where
  "rank Viewer = 0" | "rank Operator = 1" | "rank Admin = 2"

lemma rank_inject [simp]: "rank a = rank b \<longleftrightarrow> a = b"
  by (cases a; cases b) auto

instantiation principal_role :: linorder
begin

definition less_eq_principal_role :: "principal_role \<Rightarrow> principal_role \<Rightarrow> bool" where
  "less_eq_principal_role a b \<longleftrightarrow> rank a \<le> rank b"

definition less_principal_role :: "principal_role \<Rightarrow> principal_role \<Rightarrow> bool" where
  "less_principal_role a b \<longleftrightarrow> rank a < rank b"

instance
  by standard (auto simp: less_eq_principal_role_def less_principal_role_def)

end

definition parse_role :: "string \<Rightarrow> principal_role" where
  "parse_role value =
     (let v = ascii_lower (trim value)
      in if v = ''admin'' then Admin else if v = ''operator'' then Operator else Viewer)"

definition satisfies :: "principal_role \<Rightarrow> principal_role \<Rightarrow> bool" where
  "satisfies role needed \<longleftrightarrow> rank role \<ge> rank needed"

definition least_role :: "string \<Rightarrow> http_method \<Rightarrow> principal_role" where
  "least_role path m =
     (if under ''/api/users'' path then Admin else if mutating m then Operator else Viewer)"

datatype access_requirement =
  NeedsNothing | NeedsDashboardSession | NeedsApiSession principal_role | NeedsRuntimeKey | Never

datatype authorization_state = Authorized "principal_role option" | Denied | Unavailable

datatype access_decision = Allow | RedirectToLogin | Unauthorized | Forbidden

definition for_request ::
    "string \<Rightarrow> http_method \<Rightarrow> route_kind \<Rightarrow> ip_addr option \<Rightarrow> bool \<Rightarrow> access_requirement" where
  "for_request path m route peer keys_required =
     (if is_internal_path path then Never
      else if (is_host_only_path path \<or> is_host_only_write path m) \<and> \<not> is_loopback_peer peer then Never
      else if is_public_path path then NeedsNothing
      else case route of
        RouteRuntime \<Rightarrow> if keys_required then NeedsRuntimeKey else NeedsNothing
      | RouteAuth \<Rightarrow> NeedsNothing
      | RouteDashboard \<Rightarrow> NeedsDashboardSession
      | _ \<Rightarrow> NeedsApiSession (least_role path m))"

definition access_requirement ::
    "bool \<Rightarrow> string \<Rightarrow> http_method \<Rightarrow> ip_addr option \<Rightarrow> access_requirement" where
  "access_requirement keys_required path m peer =
     for_request path m (route_for_path path) peer keys_required"

fun decision :: "access_requirement \<Rightarrow> authorization_state \<Rightarrow> access_decision" where
  "decision NeedsNothing st = Allow"
| "decision Never st = Forbidden"
| "decision NeedsDashboardSession (Authorized role) = Allow"
| "decision NeedsDashboardSession st = RedirectToLogin"
| "decision NeedsRuntimeKey (Authorized role) = Allow"
| "decision NeedsRuntimeKey st = Unauthorized"
| "decision (NeedsApiSession least) (Authorized None) = Allow"
| "decision (NeedsApiSession least) (Authorized (Some role)) =
     (if satisfies role least then Allow else Forbidden)"
| "decision (NeedsApiSession least) st = Unauthorized"

fun decision_status :: "access_decision \<Rightarrow> nat" where
  "decision_status Allow = 200" | "decision_status RedirectToLogin = 307"
| "decision_status Unauthorized = 401" | "decision_status Forbidden = 403"

section \<open>Credentials of a request\<close>

text \<open>
  Headers are in order, with lower-case names. \<open>readable\<close> is the header library's conversion of a
  value to text, which fails on bytes that are not visible ASCII.
\<close>

type_synonym headers = "(string \<times> string) list"

record gateway_request =
  gq_path :: string
  gq_query :: "string option"
  gq_method :: http_method
  gq_headers :: headers
  gq_peer :: "ip_addr option"

definition header_text :: "(string \<Rightarrow> string option) \<Rightarrow> headers \<Rightarrow> string \<Rightarrow> string option" where
  "header_text readable hs name = Option.bind (map_of hs name) readable"

definition session_token :: "(string \<Rightarrow> string option) \<Rightarrow> gateway_request \<Rightarrow> string option" where
  "session_token readable rq =
     Option.bind (header_text readable (gq_headers rq) ''cookie'')
       (\<lambda>cookie. find_map
          (\<lambda>part. case split_once (CHR ''='') (trim part) of
                    None \<Rightarrow> None
                  | Some (name, v) \<Rightarrow> if name = ''auth_token'' then Some v else None)
          (split_char (CHR '';'') cookie))"

definition query_key :: "gateway_request \<Rightarrow> string option" where
  "query_key rq =
     Option.bind (gq_query rq)
       (\<lambda>q. find_map
          (\<lambda>pair. case split_once (CHR ''='') pair of
                    None \<Rightarrow> None
                  | Some (name, v) \<Rightarrow> if name = ''key'' then Some v else None)
          (split_char (CHR ''&'') q))"

definition runtime_api_key :: "(string \<Rightarrow> string option) \<Rightarrow> gateway_request \<Rightarrow> string option" where
  "runtime_api_key readable rq =
     (let hs = gq_headers rq;
          bearer = Option.bind (header_text readable hs ''authorization'')
                     (\<lambda>v. strip_prefix v ''Bearer '')
      in opt_or bearer
           (opt_or (header_text readable hs ''x-api-key'')
              (opt_or (header_text readable hs ''x-goog-api-key'') (query_key rq))))"

datatype authorize_request = AuthDashboard "string option" | AuthRuntime "string option"

definition authorization_request ::
    "(string \<Rightarrow> string option) \<Rightarrow> gateway_request \<Rightarrow> access_requirement \<Rightarrow> authorize_request option" where
  "authorization_request readable rq needs =
     (case needs of
        NeedsDashboardSession \<Rightarrow> Some (AuthDashboard (session_token readable rq))
      | NeedsApiSession least \<Rightarrow> Some (AuthDashboard (session_token readable rq))
      | NeedsRuntimeKey \<Rightarrow> Some (AuthRuntime (runtime_api_key readable rq))
      | _ \<Rightarrow> None)"

section \<open>The request filter\<close>

datatype filter_result = Throttled nat | Refuse access_decision | Forward route_kind

definition governs :: "string \<Rightarrow> bool" where
  "governs path \<longleftrightarrow> starts_with path ''/api/''"

record gateway_side =
  gw_keys_required :: bool
  gw_throttle :: "(ip_addr \<Rightarrow> nat option) option"
  gw_authorize :: "authorize_request \<Rightarrow> (bool \<times> string option) option"
  gw_readable :: "string \<Rightarrow> string option"

definition throttle_wait :: "gateway_side \<Rightarrow> gateway_request \<Rightarrow> nat option" where
  "throttle_wait gw rq =
     (case (gw_throttle gw, gq_peer rq) of
        (Some check, Some peer) \<Rightarrow> if governs (gq_path rq) then check peer else None
      | _ \<Rightarrow> None)"

definition authorization_for :: "gateway_side \<Rightarrow> gateway_request \<Rightarrow> access_requirement \<Rightarrow> authorization_state" where
  "authorization_for gw rq needs =
     (case needs of
        NeedsNothing \<Rightarrow> Authorized None
      | Never \<Rightarrow> Authorized None
      | _ \<Rightarrow>
          (case authorization_request (gw_readable gw) rq needs of
             None \<Rightarrow> Unavailable
           | Some request \<Rightarrow>
               (case gw_authorize gw request of
                  None \<Rightarrow> Unavailable
                | Some (authorized, role) \<Rightarrow>
                    if authorized then Authorized (map_option parse_role role) else Denied)))"

definition request_filter :: "gateway_side \<Rightarrow> gateway_request \<Rightarrow> filter_result" where
  "request_filter gw rq =
     (let needs = access_requirement (gw_keys_required gw) (gq_path rq) (gq_method rq) (gq_peer rq)
      in case throttle_wait gw rq of
           Some retry_after \<Rightarrow> Throttled retry_after
         | None \<Rightarrow>
             (let d = decision needs (authorization_for gw rq needs)
              in if d = Allow then Forward (route_for_path (gq_path rq)) else Refuse d))"

section \<open>Identity headers\<close>

definition TRUSTED_REAL_IP_HEADER :: string where "TRUSTED_REAL_IP_HEADER = ''x-9r-real-ip''"
definition TRUSTED_PROXY_HEADER :: string where "TRUSTED_PROXY_HEADER = ''x-9r-via-proxy''"

definition insert_header :: "string \<Rightarrow> string \<Rightarrow> headers \<Rightarrow> headers" where
  "insert_header name v hs = filter (\<lambda>h. fst h \<noteq> name) hs @ [(name, v)]"

definition spoofable :: "string \<Rightarrow> bool" where
  "spoofable name \<longleftrightarrow> name = ''forwarded'' \<or> name = ''x-real-ip''
     \<or> starts_with name ''x-forwarded-'' \<or> name = TRUSTED_REAL_IP_HEADER
     \<or> name = TRUSTED_PROXY_HEADER"

definition stamp_trusted_identity_headers :: "ip_addr \<Rightarrow> headers \<Rightarrow> headers" where
  "stamp_trusted_identity_headers peer hs =
     insert_header TRUSTED_REAL_IP_HEADER (show_ip peer) (filter (\<lambda>h. \<not> spoofable (fst h)) hs)"

text \<open>\<open>None\<close> is the internal error of a request without a client address.\<close>

definition upstream_request_filter :: "string \<Rightarrow> ip_addr option \<Rightarrow> headers \<Rightarrow> headers option" where
  "upstream_request_filter authority client_ip hs =
     (case client_ip of
        None \<Rightarrow> None
      | Some ip \<Rightarrow> Some (stamp_trusted_identity_headers ip (insert_header ''host'' authority hs)))"

definition values_of :: "string \<Rightarrow> headers \<Rightarrow> string list" where
  "values_of name hs = map snd (filter (\<lambda>h. fst h = name) hs)"

section \<open>Lemmas\<close>

lemma matches_prefix_iff: "matches_prefix ps path \<longleftrightarrow> (\<exists>p \<in> set ps. under p path)"
  by (simp add: matches_prefix_def list_ex_iff)

lemma satisfies_le: "satisfies role needed \<longleftrightarrow> needed \<le> role"
  by (simp add: satisfies_def less_eq_principal_role_def)

lemma decision_Allow:
  "decision needs st = Allow \<longleftrightarrow>
     (case needs of
        NeedsNothing \<Rightarrow> True
      | Never \<Rightarrow> False
      | NeedsApiSession least \<Rightarrow>
          (\<exists>role. st = Authorized role \<and> (case role of None \<Rightarrow> True | Some r \<Rightarrow> least \<le> r))
      | _ \<Rightarrow> (\<exists>role. st = Authorized role))"
  by (cases "(needs, st)" rule: decision.cases) (auto simp: satisfies_le split: if_splits)

lemma authorization_for_Authorized:
  assumes "authorization_for gw rq needs = Authorized role" "needs \<noteq> NeedsNothing" "needs \<noteq> Never"
  obtains request raw where
    "authorization_request (gw_readable gw) rq needs = Some request"
    "gw_authorize gw request = Some (True, raw)" "role = map_option parse_role raw"
  using assms
  by (cases needs) (auto simp: authorization_for_def split: option.splits prod.splits if_splits)

lemma request_filter_Forward:
  "request_filter gw rq = Forward route \<longleftrightarrow>
     throttle_wait gw rq = None \<and> route = route_for_path (gq_path rq) \<and>
     (let needs = access_requirement (gw_keys_required gw) (gq_path rq) (gq_method rq) (gq_peer rq)
      in decision needs (authorization_for gw rq needs) = Allow)"
  by (auto simp: request_filter_def Let_def split: option.splits if_splits)

lemma access_requirement_Never:
  "access_requirement keys path m peer = Never \<longleftrightarrow>
     is_internal_path path
     \<or> (is_host_only_path path \<or> is_host_only_write path m) \<and> \<not> is_loopback_peer peer"
  by (auto simp: access_requirement_def for_request_def split: route_kind.splits)

lemma access_requirement_Nothing:
  "access_requirement keys path m peer = NeedsNothing \<Longrightarrow>
     is_public_path path \<or> route_for_path path = RouteAuth
     \<or> route_for_path path = RouteRuntime \<and> \<not> keys"
  by (auto simp: access_requirement_def for_request_def split: route_kind.splits if_splits)

lemma access_requirement_session:
  "access_requirement keys path m peer = NeedsApiSession least \<Longrightarrow>
     least = least_role path m \<and> route_for_path path \<in> {RouteApi, RouteCatalog, RouteEvents, RouteState}"
  by (auto simp: access_requirement_def for_request_def split: route_kind.splits if_splits)

lemma access_requirement_other:
  "access_requirement keys path m peer = NeedsDashboardSession \<Longrightarrow> route_for_path path = RouteDashboard"
  "access_requirement keys path m peer = NeedsRuntimeKey \<Longrightarrow> route_for_path path = RouteRuntime \<and> keys"
  by (auto simp: access_requirement_def for_request_def split: route_kind.splits if_splits)

lemmas access_requirement_facts =
  access_requirement_Nothing access_requirement_session access_requirement_other

lemma public_not_api:
  "under ''/api/users'' path \<Longrightarrow> \<not> is_public_path path"
  by (auto simp: under_def is_public_path_def starts_with_iff)

lemma filter_insert_header:
  "filter (\<lambda>h. P (fst h)) (insert_header name v hs) =
     (if P name then insert_header name v (filter (\<lambda>h. P (fst h)) hs)
      else filter (\<lambda>h. P (fst h)) (filter (\<lambda>h. fst h \<noteq> name) hs))"
  by (auto simp: insert_header_def conj_commute)

lemma values_insert_header:
  "values_of n (insert_header name v hs) = (if n = name then [v] else values_of n hs)"
  by (auto simp: values_of_def insert_header_def filter_empty_conv intro!: arg_cong [where f = "map snd"] filter_cong)

lemma values_filter: "values_of n (filter (\<lambda>h. P (fst h)) hs) = (if P n then values_of n hs else [])"
  by (auto simp: values_of_def filter_empty_conv intro!: arg_cong [where f = "map snd"] filter_cong)

section \<open>Properties\<close>

text \<open>C4: The gateway lets through only what its policy allows. A forwarded request goes to the service
  of its path, is never for an internal path, comes from this host when its path or its write is
  host-only, and is either public or carries a credential the auth service accepted: for the services
  behind a session, one without a role claim or with at least the role the path and method need.\<close>

theorem forwarded_only_when_allowed:
  assumes "request_filter gw rq = Forward route"
  shows "route = route_for_path (gq_path rq) \<and> \<not> is_internal_path (gq_path rq)
    \<and> (is_host_only_path (gq_path rq) \<or> is_host_only_write (gq_path rq) (gq_method rq)
         \<longrightarrow> is_loopback_peer (gq_peer rq))
    \<and> (is_public_path (gq_path rq) \<or> route = RouteAuth
       \<or> route = RouteRuntime \<and> \<not> gw_keys_required gw
       \<or> route = RouteRuntime \<and> (\<exists>raw.
           gw_authorize gw (AuthRuntime (runtime_api_key (gw_readable gw) rq)) = Some (True, raw))
       \<or> route = RouteDashboard \<and> (\<exists>raw.
           gw_authorize gw (AuthDashboard (session_token (gw_readable gw) rq)) = Some (True, raw))
       \<or> route \<in> {RouteApi, RouteCatalog, RouteEvents, RouteState} \<and> (\<exists>raw.
           gw_authorize gw (AuthDashboard (session_token (gw_readable gw) rq)) = Some (True, raw)
           \<and> (case raw of None \<Rightarrow> True
              | Some r \<Rightarrow> least_role (gq_path rq) (gq_method rq) \<le> parse_role r)))"
proof -
  define needs where
    "needs = access_requirement (gw_keys_required gw) (gq_path rq) (gq_method rq) (gq_peer rq)"
  note facts = access_requirement_facts
    [of "gw_keys_required gw" "gq_path rq" "gq_method rq" "gq_peer rq", folded needs_def]
  from assms have route: "route = route_for_path (gq_path rq)"
    and allow: "decision needs (authorization_for gw rq needs) = Allow"
    by (auto simp: request_filter_Forward needs_def Let_def)
  from allow have "needs \<noteq> Never" by (auto simp: decision_Allow)
  then have open_path: "\<not> is_internal_path (gq_path rq)"
    "is_host_only_path (gq_path rq) \<or> is_host_only_write (gq_path rq) (gq_method rq)
      \<longrightarrow> is_loopback_peer (gq_peer rq)"
    unfolding needs_def access_requirement_Never by auto
  show ?thesis
  proof (cases "needs = NeedsNothing")
    case True
    with facts(1) route open_path show ?thesis by auto
  next
    case False
    from allow False obtain role where "authorization_for gw rq needs = Authorized role"
      by (auto simp: decision_Allow split: access_requirement.splits)
    from authorization_for_Authorized [OF this False \<open>needs \<noteq> Never\<close>] obtain request raw where
      sent: "authorization_request (gw_readable gw) rq needs = Some request"
        "gw_authorize gw request = Some (True, raw)" "role = map_option parse_role raw" .
    with \<open>authorization_for gw rq needs = Authorized role\<close> allow False facts(2-) route open_path
    show ?thesis
      by (cases needs) (auto simp: authorization_request_def decision_Allow split: option.splits)
  qed
qed

definition sample_gateway :: gateway_side where
  "sample_gateway = \<lparr>gw_keys_required = False, gw_throttle = None,
     gw_authorize = (\<lambda>rq. Some (rq = AuthDashboard (Some ''good''), Some ''operator'')),
     gw_readable = Some\<rparr>"

definition sample_call :: gateway_request where
  "sample_call = \<lparr>gq_path = ''/api/settings'', gq_query = None, gq_method = POST,
     gq_headers = [(''cookie'', ''auth_token=good'')], gq_peer = Some (IpV4 0xCB007109)\<rparr>"

lemma sample_call_token: "session_token Some sample_call = Some ''good''"
  by code_simp

lemma sample_call_forwarded: "request_filter sample_gateway sample_call = Forward RouteState"
  by code_simp

theorem forwarded_only_when_allowed_witness:
  "\<not> is_internal_path (gq_path sample_call)
   \<and> least_role (gq_path sample_call) (gq_method sample_call) \<le> Operator"
proof -
  have "least_role (gq_path sample_call) (gq_method sample_call) \<le> Operator" by code_simp
  then show ?thesis using forwarded_only_when_allowed [OF sample_call_forwarded] by blast
qed

text \<open>A service behind the gateway can believe the identity headers. Whatever the client sent, the
  forwarded request has one address header, the address of the connection, no other header that
  claims an address, the authority of the service as its host, and every other header as it was.\<close>

theorem identity_headers_trusted:
  assumes "upstream_request_filter authority client hs = Some hs'"
  shows "\<exists>ip. client = Some ip \<and> values_of ''x-9r-real-ip'' hs' = [show_ip ip]
    \<and> values_of ''host'' hs' = [authority]
    \<and> (\<forall>n. spoofable n \<and> n \<noteq> ''x-9r-real-ip'' \<longrightarrow> values_of n hs' = [])
    \<and> (\<forall>n. \<not> spoofable n \<and> n \<noteq> ''host'' \<longrightarrow> values_of n hs' = values_of n hs)"
proof -
  from assms obtain ip where ip: "client = Some ip"
    and hs': "hs' = stamp_trusted_identity_headers ip (insert_header ''host'' authority hs)"
    by (auto simp: upstream_request_filter_def split: option.splits)
  have "\<not> spoofable ''host''" "spoofable ''x-9r-real-ip''" by code_simp+
  with ip show ?thesis
    by (auto simp: hs' stamp_trusted_identity_headers_def values_insert_header
        values_filter [where P = "\<lambda>n. \<not> spoofable n"] TRUSTED_REAL_IP_HEADER_def)
qed

theorem identity_headers_trusted_witness:
  "values_of ''x-9r-real-ip'' (the (upstream_request_filter ''127.0.0.1:20129'' (Some localhost)
     [(''x-9r-real-ip'', ''203.0.113.9''), (''x-forwarded-for'', ''203.0.113.9'')])) = [''127.0.0.1'']"
proof -
  obtain hs' where hs': "upstream_request_filter ''127.0.0.1:20129'' (Some localhost)
      [(''x-9r-real-ip'', ''203.0.113.9''), (''x-forwarded-for'', ''203.0.113.9'')] = Some hs'"
    by (simp add: upstream_request_filter_def)
  from identity_headers_trusted [OF this] show ?thesis
    unfolding hs' by (simp add: show_localhost)
qed

text \<open>The policy reads the path as it was sent. A path whose letters are percent-encoded gets another
  requirement than the path it stands for: opening a tunnel is refused to every remote peer under its
  own spelling and asks any remote peer for an operator session under the encoded one, and reading
  the users asks for a viewer instead of an administrator.\<close>

theorem encoded_paths_skip_policy:
  "access_requirement keys ''/api/tunnel/enable'' POST (Some (IpV4 0xCB007109)) = Never
   \<and> access_requirement keys ''/api/%74unnel/enable'' POST peer = NeedsApiSession Operator
   \<and> access_requirement keys ''/api/users'' GET peer = NeedsApiSession Admin
   \<and> access_requirement keys ''/api/%75sers'' GET peer = NeedsApiSession Viewer"
proof -
  have tunnel: "is_host_only_path ''/api/tunnel/enable''" "\<not> is_loopback (IpV4 0xCB007109)"
    by code_simp+
  have encoded: "\<not> is_internal_path ''/api/%74unnel/enable''" "\<not> is_host_only_path ''/api/%74unnel/enable''"
    "\<not> is_host_only_write ''/api/%74unnel/enable'' POST" "\<not> is_public_path ''/api/%74unnel/enable''"
    "route_for_path ''/api/%74unnel/enable'' = RouteApi"
    "least_role ''/api/%74unnel/enable'' POST = Operator"
    by code_simp+
  have users: "\<not> is_internal_path ''/api/users''" "\<not> is_host_only_path ''/api/users''"
    "\<not> is_host_only_write ''/api/users'' GET" "\<not> is_public_path ''/api/users''"
    "route_for_path ''/api/users'' = RouteApi" "least_role ''/api/users'' GET = Admin"
    by code_simp+
  have escaped: "\<not> is_internal_path ''/api/%75sers''" "\<not> is_host_only_path ''/api/%75sers''"
    "\<not> is_host_only_write ''/api/%75sers'' GET" "\<not> is_public_path ''/api/%75sers''"
    "route_for_path ''/api/%75sers'' = RouteApi" "least_role ''/api/%75sers'' GET = Viewer"
    by code_simp+
  show ?thesis
    using tunnel encoded users escaped
    by (simp add: access_requirement_def for_request_def is_loopback_peer_def)
qed

text \<open>User management never reaches the service that has it. Every path under \<open>/api/users\<close> needs an
  administrator, and is sent to the API service instead of the state service, whose resource it is.\<close>

theorem users_sent_to_api_service:
  "route_for_path ''/api/users'' = RouteApi
   \<and> route_for_path (''/api/users/'' @ rest) = RouteApi
   \<and> access_requirement keys (''/api/users/'' @ rest) m peer = NeedsApiSession Admin"
proof -
  let ?p = "''/api/users/'' @ rest"
  note paths = under_def starts_with_def
  have "\<not> is_internal_path ?p" by (simp add: is_internal_path_def paths)
  moreover have "\<not> is_host_only_path ?p"
    by (simp add: is_host_only_path_def HOST_ONLY_PREFIXES_def matches_prefix_def paths)
  moreover have "\<not> is_host_only_write ?p m"
    by (simp add: is_host_only_write_def HOST_ONLY_WRITE_PREFIXES_def matches_prefix_def paths)
  moreover have "\<not> is_public_path ?p" by (simp add: is_public_path_def paths)
  moreover have "least_role ?p m = Admin" by (simp add: least_role_def paths)
  moreover have "route_for_path ?p = RouteApi"
    by (simp add: route_for_path_def strip_prefix_def is_events_path_def is_auth_path_def is_runtime_path_def
        is_catalog_path_def is_state_path_def is_model_settings_path_def is_collection_or_item_def
        is_collection_or_item_except_def path_tail_def paths)
  moreover have "route_for_path ''/api/users'' = RouteApi" by code_simp
  ultimately show ?thesis by (simp add: access_requirement_def for_request_def)
qed

end
