(* ===== verification/Lockout.thy ===== *)
theory Lockout
  imports Net_Address
begin

text \<open>
  The sign-in lockout of \<open>services/auth-actix/src/lockout.rs\<close>: failures per address, a lock after
  too many within a window, and a bounded table that evicts the address seen longest ago. What the
  sign-in flow relies on is stated as the locale \<open>attempt_limiter\<close> and proved of the table.
\<close>

section \<open>The table\<close>

record lockout_config =
  lc_threshold :: nat
  lc_window :: nat          \<comment> \<open>seconds\<close>
  lc_duration :: nat        \<comment> \<open>seconds\<close>
  lc_capacity :: nat

definition default_lockout :: lockout_config where
  "default_lockout = \<lparr>lc_threshold = 5, lc_window = 15 * 60, lc_duration = 15 * 60, lc_capacity = 4096\<rparr>"

text \<open>The part of \<open>AuthConfig::validate\<close> about the lockout, and the width of its fields.\<close>

definition lockout_valid :: "lockout_config \<Rightarrow> bool" where
  "lockout_valid cfg \<longleftrightarrow> 0 < lc_threshold cfg \<and> lc_threshold cfg \<le> u32_max \<and> 0 < lc_window cfg
     \<and> 0 < lc_duration cfg \<and> 0 < lc_capacity cfg"

record lockout_entry =
  le_failures :: nat
  le_first_failure :: nat
  le_last_seen :: nat
  le_locked_until :: "nat option"

type_synonym lockout = "(ip_addr \<times> lockout_entry) list"

datatype lock_state = LockAllowed | Locked nat

record failure_state =
  fl_remaining_before_lock :: nat
  fl_lock_state :: lock_state

definition live :: "lockout_config \<Rightarrow> nat \<Rightarrow> lockout_entry \<Rightarrow> bool" where
  "live cfg now e =
     (case le_locked_until e of
        Some u \<Rightarrow> now < u
      | None \<Rightarrow> now - le_first_failure e < lc_window cfg)"

definition prune :: "lockout_config \<Rightarrow> nat \<Rightarrow> lockout \<Rightarrow> lockout" where
  "prune cfg now m = filter (\<lambda>pe. live cfg now (snd pe)) m"

definition evict_oldest :: "lockout \<Rightarrow> lockout" where
  "evict_oldest m =
     (case min_by_key (\<lambda>pe. (le_last_seen (snd pe), fst pe)) m of
        None \<Rightarrow> m
      | Some pe \<Rightarrow> bt_remove (fst pe) m)"

definition lock_of :: "nat \<Rightarrow> lockout_entry option \<Rightarrow> lock_state" where
  "lock_of now eo =
     (case Option.bind eo le_locked_until of
        None \<Rightarrow> LockAllowed
      | Some u \<Rightarrow> if now < u then Locked (u - now) else LockAllowed)"

definition check :: "lockout_config \<Rightarrow> ip_addr \<Rightarrow> nat \<Rightarrow> lockout \<Rightarrow> lock_state \<times> lockout" where
  "check cfg peer now m = (let m1 = prune cfg now m in (lock_of now (map_of m1 peer), m1))"

definition fresh_entry :: "nat \<Rightarrow> lockout_entry" where
  "fresh_entry now = \<lparr>le_failures = 0, le_first_failure = now, le_last_seen = now, le_locked_until = None\<rparr>"

definition record_failure ::
    "lockout_config \<Rightarrow> ip_addr \<Rightarrow> nat \<Rightarrow> lockout \<Rightarrow> failure_state \<times> lockout" where
  "record_failure cfg peer now m =
     (let m1 = prune cfg now m;
          m2 = (if map_of m1 peer = None \<and> length m1 \<ge> lc_capacity cfg then evict_oldest m1 else m1);
          entry = opt_default (fresh_entry now) (map_of m2 peer);
          entry = (if now - le_first_failure entry \<ge> lc_window cfg then fresh_entry now else entry);
          entry = entry\<lparr>le_failures := sat_add32 (le_failures entry) 1, le_last_seen := now\<rparr>
      in if le_failures entry \<ge> lc_threshold cfg
         then (let u = sat_add64 now (lc_duration cfg)
               in (\<lparr>fl_remaining_before_lock = 0, fl_lock_state = Locked (u - now)\<rparr>,
                   bt_insert peer (entry\<lparr>le_locked_until := Some u\<rparr>) m2))
         else (\<lparr>fl_remaining_before_lock = lc_threshold cfg - le_failures entry,
                fl_lock_state = LockAllowed\<rparr>,
               bt_insert peer entry m2))"

definition record_success :: "ip_addr \<Rightarrow> lockout \<Rightarrow> lockout" where
  "record_success peer m = bt_remove peer m"

section \<open>One address\<close>

text \<open>What pruning leaves of an entry, and what a failure makes of it.\<close>

definition keep :: "lockout_config \<Rightarrow> nat \<Rightarrow> lockout_entry option \<Rightarrow> lockout_entry option" where
  "keep cfg now eo = (case eo of None \<Rightarrow> None | Some e \<Rightarrow> if live cfg now e then Some e else None)"

definition failed_entry :: "lockout_config \<Rightarrow> nat \<Rightarrow> lockout_entry option \<Rightarrow> lockout_entry" where
  "failed_entry cfg now eo =
     (let e = (case eo of
                 None \<Rightarrow> fresh_entry now
               | Some e \<Rightarrow> if now - le_first_failure e \<ge> lc_window cfg then fresh_entry now else e);
          e = e\<lparr>le_failures := sat_add32 (le_failures e) 1, le_last_seen := now\<rparr>
      in if le_failures e \<ge> lc_threshold cfg
         then e\<lparr>le_locked_until := Some (sat_add64 now (lc_duration cfg))\<rparr> else e)"

lemma map_of_filter_snd:
  "distinct (map fst m) \<Longrightarrow>
     map_of (filter (\<lambda>pe. P (snd pe)) m) k =
       (case map_of m k of None \<Rightarrow> None | Some e \<Rightarrow> if P e then Some e else None)"
proof (induction m)
  case (Cons pe m)
  have "fst pe \<notin> fst ` set m" using Cons.prems by simp
  then have "map_of m (fst pe) = None" by (simp add: map_of_eq_None_iff)
  with Cons show ?case by (cases pe) (auto split: option.splits)
qed simp

lemma map_of_prune: "bt_ok m \<Longrightarrow> map_of (prune cfg now m) p = keep cfg now (map_of m p)"
  by (simp add: prune_def keep_def map_of_filter_snd bt_ok_distinct split: option.splits)

text \<open>The table is well formed and has room for every address of \<open>ps\<close>.\<close>

definition roomy :: "lockout_config \<Rightarrow> ip_addr set \<Rightarrow> lockout \<Rightarrow> bool" where
  "roomy cfg ps m \<longleftrightarrow> bt_ok m \<and> finite ps \<and> fst ` set m \<subseteq> ps \<and> card ps \<le> lc_capacity cfg"

lemma roomy_prune: "roomy cfg ps m \<Longrightarrow> roomy cfg ps (prune cfg now m)"
  unfolding roomy_def prune_def by (auto simp: bt_ok_filter)

lemma roomy_length:
  assumes "roomy cfg ps m" "p \<in> ps" "map_of m p = None"
  shows "length m < lc_capacity cfg"
proof -
  have "length m = card (fst ` set m)"
    using assms(1) bt_ok_distinct [of m] distinct_card [of "map fst m"] by (auto simp: roomy_def)
  also have "\<dots> < card ps"
  proof (rule psubset_card_mono)
    show "finite ps" using assms(1) by (simp add: roomy_def)
    show "fst ` set m \<subset> ps" using assms by (auto simp: roomy_def map_of_eq_None_iff)
  qed
  finally show ?thesis using assms(1) by (simp add: roomy_def)
qed

lemma record_failure_table:
  assumes "roomy cfg ps m" "p \<in> ps"
  shows "snd (record_failure cfg p now m) =
     bt_insert p (failed_entry cfg now (keep cfg now (map_of m p))) (prune cfg now m)"
proof -
  have m: "map_of (prune cfg now m) p = keep cfg now (map_of m p)"
    using assms(1) by (auto simp: roomy_def map_of_prune)
  have "\<not> (map_of (prune cfg now m) p = None \<and> length (prune cfg now m) \<ge> lc_capacity cfg)"
    using roomy_length [OF roomy_prune [OF assms(1)] assms(2)] by (auto simp: not_le)
  then show ?thesis
    by (auto simp: record_failure_def failed_entry_def m Let_def fresh_entry_def split: option.splits)
qed

section \<open>What a sign-in flow relies on\<close>

locale attempt_limiter =
  fixes cfg :: lockout_config
    and look :: "'m \<Rightarrow> 'p \<Rightarrow> lockout_entry option"
    and inspect :: "'p \<Rightarrow> nat \<Rightarrow> 'm \<Rightarrow> lock_state \<times> 'm"
    and fail :: "'p \<Rightarrow> nat \<Rightarrow> 'm \<Rightarrow> failure_state \<times> 'm"
    and room :: "'p set \<Rightarrow> 'm \<Rightarrow> bool"
  assumes inspect_result: "room ps m \<Longrightarrow> fst (inspect p now m) = lock_of now (keep cfg now (look m p))"
    and inspect_look: "room ps m \<Longrightarrow> look (snd (inspect q now m)) p = keep cfg now (look m p)"
    and inspect_room: "room ps m \<Longrightarrow> room ps (snd (inspect q now m))"
    and fail_look: "room ps m \<Longrightarrow> q \<in> ps \<Longrightarrow>
      look (snd (fail q now m)) p =
        (if p = q then Some (failed_entry cfg now (keep cfg now (look m p))) else keep cfg now (look m p))"
    and fail_room: "room ps m \<Longrightarrow> q \<in> ps \<Longrightarrow> room ps (snd (fail q now m))"
begin

text \<open>One sign-in with a wrong password, start to end: whether the password was looked at.\<close>

definition attempt :: "'p \<Rightarrow> nat \<Rightarrow> 'm \<Rightarrow> bool \<times> 'm" where
  "attempt p now m =
     (case inspect p now m of
        (LockAllowed, m1) \<Rightarrow> (True, snd (fail p now m1))
      | (Locked n, m1) \<Rightarrow> (False, m1))"

fun tests :: "'p \<Rightarrow> ('p \<times> nat) list \<Rightarrow> 'm \<Rightarrow> nat" where
  "tests p [] m = 0"
| "tests p ((q, now) # attempts) m =
     (case attempt q now m of
        (tested, m') \<Rightarrow> (if tested \<and> q = p then 1 else 0) + tests p attempts m')"

lemma keep_keep: "keep cfg now (keep cfg now eo) = keep cfg now eo"
  by (auto simp: keep_def split: option.splits)

lemma attempt_facts:
  assumes "room ps m" "q \<in> ps" "attempt q now m = (tested, m')"
  shows "room ps m'"
    and "tested \<longleftrightarrow> lock_of now (keep cfg now (look m q)) = LockAllowed"
    and "look m' p = (if tested \<and> p = q then Some (failed_entry cfg now (keep cfg now (look m p)))
                      else keep cfg now (look m p))"
  using assms inspect_result [OF assms(1), of q now] inspect_look [OF assms(1), of q now]
    inspect_room [OF assms(1), of q now]
    fail_look [OF inspect_room [OF assms(1), of q now] assms(2), of now p]
    fail_room [OF inspect_room [OF assms(1), of q now] assms(2), of now]
  by (auto simp: attempt_def keep_keep split: prod.splits lock_state.splits)

text \<open>An address under a lock that lasts has no password looked at.\<close>

lemma locked_no_tests:
  assumes "room ps m" "fst ` set attempts \<subseteq> ps"
    and "look m p = Some e" "le_locked_until e = Some u" "\<forall>(q, t) \<in> set attempts. t < u"
  shows "tests p attempts m = 0"
  using assms(1-3,5)
proof (induction attempts arbitrary: m)
  case (Cons a attempts)
  obtain q now where a: "a = (q, now)" by (cases a)
  obtain tested m' where at: "attempt q now m = (tested, m')" by (cases "attempt q now m")
  note f = attempt_facts [OF Cons.prems(1) _ at]
  have "q \<in> ps" "now < u" using Cons.prems a by auto
  then have kept: "keep cfg now (look m p) = Some e"
    using Cons.prems(3) assms(4) by (simp add: keep_def live_def)
  have untested: "\<not> (tested \<and> q = p)"
    using f(2) \<open>q \<in> ps\<close> kept assms(4) \<open>now < u\<close> by (auto simp: lock_of_def)
  then have "look m' p = Some e" using f(3) [OF \<open>q \<in> ps\<close>, of p] kept by auto
  with Cons.IH [OF f(1) [OF \<open>q \<in> ps\<close>]] Cons.prems untested show ?case by (auto simp: a at)
qed simp

text \<open>The tests an entry still allows before \<open>T\<close>, if it is young enough.\<close>

definition budget :: "lockout_entry option \<Rightarrow> nat" where
  "budget eo =
     (case eo of
        None \<Rightarrow> lc_threshold cfg
      | Some e \<Rightarrow> if le_locked_until e = None then lc_threshold cfg - le_failures e else 0)"

definition young :: "nat \<Rightarrow> lockout_entry option \<Rightarrow> bool" where
  "young T eo =
     (case eo of
        None \<Rightarrow> True
      | Some e \<Rightarrow>
          (case le_locked_until e of
             Some u \<Rightarrow> T \<le> u
           | None \<Rightarrow> T \<le> le_first_failure e + lc_window cfg \<and> le_failures e < lc_threshold cfg))"

lemma young_kept: "young T eo \<Longrightarrow> now < T \<Longrightarrow> 0 < lc_window cfg \<Longrightarrow> keep cfg now eo = eo"
  by (auto simp: young_def keep_def live_def split: option.splits)

lemma young_failed:
  assumes "lockout_valid cfg" "young T eo" "lock_of now eo = LockAllowed" "now < T" "t0 \<le> now"
    and "T \<le> t0 + lc_window cfg" "T \<le> t0 + lc_duration cfg" "T \<le> u64_max"
  shows "young T (Some (failed_entry cfg now eo))"
    and "budget (Some (failed_entry cfg now eo)) + 1 = budget eo"
proof -
  have free: "case eo of None \<Rightarrow> True | Some e \<Rightarrow> le_locked_until e = None"
    using assms(2-4) by (auto simp: young_def lock_of_def split: option.splits if_splits)
  have window: "case eo of None \<Rightarrow> True | Some e \<Rightarrow> now - le_first_failure e < lc_window cfg"
    using assms(1,2,4) free by (auto simp: young_def lockout_valid_def split: option.splits)
  have late: "T \<le> sat_add64 now (lc_duration cfg)" using assms by (simp add: sat_add64_def)
  have exact: "k < lc_threshold cfg \<Longrightarrow> sat_add32 k 1 = k + 1" for k
    using assms(1) by (simp add: sat_add32_def lockout_valid_def)
  show "young T (Some (failed_entry cfg now eo))"
    using assms free window late exact
    by (auto simp: young_def failed_entry_def Let_def fresh_entry_def lockout_valid_def split: option.splits)
  show "budget (Some (failed_entry cfg now eo)) + 1 = budget eo"
    using assms free window exact
    by (auto simp: young_def budget_def failed_entry_def Let_def fresh_entry_def lockout_valid_def
        split: option.splits)
qed

lemma tests_within_budget:
  assumes "lockout_valid cfg" "T \<le> t0 + lc_window cfg" "T \<le> t0 + lc_duration cfg" "T \<le> u64_max"
    and "room ps m" "fst ` set attempts \<subseteq> ps" "young T (look m p)"
    and "\<forall>(q, t) \<in> set attempts. t0 \<le> t \<and> t < T"
  shows "tests p attempts m \<le> budget (look m p)"
  using assms(5-8)
proof (induction attempts arbitrary: m)
  case (Cons a attempts)
  obtain q now where a: "a = (q, now)" by (cases a)
  obtain tested m' where at: "attempt q now m = (tested, m')" by (cases "attempt q now m")
  note f = attempt_facts [OF Cons.prems(1) _ at]
  have q: "q \<in> ps" "now < T" "t0 \<le> now" using Cons.prems a by auto
  have kept: "keep cfg now (look m p) = look m p"
    using young_kept [OF Cons.prems(3) q(2)] assms(1) by (simp add: lockout_valid_def)
  have step: "tests p (a # attempts) m = (if tested \<and> q = p then 1 else 0) + tests p attempts m'"
    by (simp add: a at)
  show ?case
  proof (cases "tested \<and> q = p")
    case True
    then have "lock_of now (look m p) = LockAllowed" using f(2) [OF q(1)] kept by auto
    note y = young_failed [OF assms(1) Cons.prems(3) this q(2,3) assms(2-4)]
    have "look m' p = Some (failed_entry cfg now (look m p))"
      using f(3) [OF q(1), of p] kept True by simp
    with Cons.IH [OF f(1) [OF q(1)]] y True Cons.prems show ?thesis by (auto simp: step)
  next
    case False
    then have "look m' p = look m p" using f(3) [OF q(1), of p] kept by auto
    with Cons.IH [OF f(1) [OF q(1)]] False Cons.prems show ?thesis by (auto simp: step)
  qed
qed simp

end

interpretation limiter: attempt_limiter cfg map_of "check cfg" "record_failure cfg" "roomy cfg" for cfg
proof
  fix ps m p q now
  assume r: "roomy cfg ps m"
  then have ok: "bt_ok m" by (simp add: roomy_def)
  show "fst (check cfg p now m) = lock_of now (keep cfg now (map_of m p))"
    by (simp add: check_def Let_def map_of_prune ok)
  show "map_of (snd (check cfg q now m)) p = keep cfg now (map_of m p)"
    by (simp add: check_def Let_def map_of_prune ok)
  show "roomy cfg ps (snd (check cfg q now m))" by (simp add: check_def Let_def roomy_prune r)
  assume q: "q \<in> ps"
  show "map_of (snd (record_failure cfg q now m)) p =
      (if p = q then Some (failed_entry cfg now (keep cfg now (map_of m p))) else keep cfg now (map_of m p))"
    by (simp add: record_failure_table [OF r q] map_simps map_of_prune ok)
  show "roomy cfg ps (snd (record_failure cfg q now m))"
    using roomy_prune [OF r, of now] q bt_insert_keys [of q _ "prune cfg now m"]
    by (auto simp: record_failure_table [OF r q] roomy_def simp flip: set_map)
qed

section \<open>Properties\<close>

definition sign_in_attempt :: "lockout_config \<Rightarrow> ip_addr \<Rightarrow> nat \<Rightarrow> lockout \<Rightarrow> bool \<times> lockout" where
  "sign_in_attempt cfg p now m =
     (case check cfg p now m of
        (LockAllowed, m1) \<Rightarrow> (True, snd (record_failure cfg p now m1))
      | (Locked n, m1) \<Rightarrow> (False, m1))"

fun sign_in_tests :: "lockout_config \<Rightarrow> ip_addr \<Rightarrow> (ip_addr \<times> nat) list \<Rightarrow> lockout \<Rightarrow> nat" where
  "sign_in_tests cfg p [] m = 0"
| "sign_in_tests cfg p ((q, now) # attempts) m =
     (case sign_in_attempt cfg q now m of
        (tested, m') \<Rightarrow> (if tested \<and> q = p then 1 else 0) + sign_in_tests cfg p attempts m')"

lemma attempt_limiter: "sign_in_attempt cfg p now m = limiter.attempt cfg p now m"
  by (simp add: sign_in_attempt_def limiter.attempt_def)

lemma tests_limiter: "sign_in_tests cfg p attempts m = limiter.tests cfg p attempts m"
  by (induction attempts arbitrary: m) (auto simp: attempt_limiter split: prod.splits)

text \<open>C37: The lockout bounds password guessing. Failed sign-ins of any addresses come one after another,
  and the table has room for them all. An address it does not know has at most \<open>threshold\<close> passwords
  looked at in any period no longer than the window and the lock, and an address under a lock has none
  looked at before the lock ends, whatever the other addresses do.\<close>

theorem lockout_bounds_guessing:
  assumes "lockout_valid cfg" "roomy cfg ps m" "fst ` set attempts \<subseteq> ps"
  shows "(map_of m p = None \<and> T \<le> t0 + lc_window cfg \<and> T \<le> t0 + lc_duration cfg \<and> T \<le> u64_max
        \<and> (\<forall>(q, t) \<in> set attempts. t0 \<le> t \<and> t < T)
        \<longrightarrow> sign_in_tests cfg p attempts m \<le> lc_threshold cfg)
    \<and> (\<forall>e u. map_of m p = Some e \<and> le_locked_until e = Some u \<and> (\<forall>(q, t) \<in> set attempts. t < u)
        \<longrightarrow> sign_in_tests cfg p attempts m = 0)"
proof (intro conjI impI allI)
  assume "map_of m p = None \<and> T \<le> t0 + lc_window cfg \<and> T \<le> t0 + lc_duration cfg \<and> T \<le> u64_max
      \<and> (\<forall>(q, t) \<in> set attempts. t0 \<le> t \<and> t < T)"
  then show "sign_in_tests cfg p attempts m \<le> lc_threshold cfg"
    using limiter.tests_within_budget [OF assms(1) _ _ _ assms(2,3), of T t0 p]
    by (simp add: tests_limiter limiter.young_def limiter.budget_def)
next
  fix e u
  assume "map_of m p = Some e \<and> le_locked_until e = Some u \<and> (\<forall>(q, t) \<in> set attempts. t < u)"
  then show "sign_in_tests cfg p attempts m = 0"
    using limiter.locked_no_tests [OF assms(2,3), of p e u] by (simp add: tests_limiter)
qed

theorem lockout_bounds_guessing_witness:
  "sign_in_tests default_lockout localhost (map (\<lambda>t. (localhost, 1000 + t)) [0..<60]) [] \<le> 5"
proof -
  let ?attempts = "map (\<lambda>t. (localhost, 1000 + t)) [0..<60]"
  have valid: "lockout_valid default_lockout"
    by (simp add: lockout_valid_def default_lockout_def u32_max_def)
  have roomy: "roomy default_lockout {localhost} []" by (simp add: roomy_def default_lockout_def)
  have from_one: "fst ` set ?attempts \<subseteq> {localhost}" by auto
  have times: "\<forall>(q, t) \<in> set ?attempts. 1000 \<le> t \<and> t < 1060" by auto
  have ends: "1060 \<le> 1000 + lc_window default_lockout" "1060 \<le> 1000 + lc_duration default_lockout"
    "1060 \<le> u64_max"
    by (simp_all add: default_lockout_def u64_max_def)
  have unknown: "map_of ([] :: lockout) localhost = None" by simp
  have "sign_in_tests default_lockout localhost ?attempts [] \<le> lc_threshold default_lockout"
    by (rule mp [OF conjunct1 [OF lockout_bounds_guessing [OF valid roomy from_one]]])
      (use unknown ends times in \<open>intro conjI\<close>)
  then show ?thesis by (simp only: default_lockout_def lockout_config.simps)
qed

text \<open>A failure that was under way when the lock was set can lift it. Once the window of the first
  failure is over, recording one more failure of a locked address starts its count anew and
  forgets the lock, however long it still had to run.\<close>

theorem late_failure_lifts_lock:
  assumes "roomy cfg ps m" "p \<in> ps" "map_of m p = Some e" "le_locked_until e = Some u" "now < u"
    and "lc_window cfg \<le> now - le_first_failure e" "1 < lc_threshold cfg"
  shows "fst (check cfg p now m) = Locked (u - now)
    \<and> fst (check cfg p now (snd (record_failure cfg p now m))) = LockAllowed"
proof -
  have kept: "keep cfg now (map_of m p) = Some e" using assms by (simp add: keep_def live_def)
  have "sat_add32 0 1 = 1" by (simp add: sat_add32_def u32_max_def)
  then have failed: "failed_entry cfg now (Some e) =
      \<lparr>le_failures = 1, le_first_failure = now, le_last_seen = now, le_locked_until = None\<rparr>"
    using assms(6,7) by (simp add: failed_entry_def fresh_entry_def)
  have room: "roomy cfg ps (snd (record_failure cfg p now m))"
    by (rule limiter.fail_room [OF assms(1,2)])
  have "map_of (snd (record_failure cfg p now m)) p = Some (failed_entry cfg now (Some e))"
    using limiter.fail_look [OF assms(1,2), of now p] kept by simp
  with limiter.inspect_result [OF room, of p now] limiter.inspect_result [OF assms(1), of p now]
  show ?thesis using kept assms(4,5) by (auto simp: failed lock_of_def keep_def)
qed

theorem late_failure_lifts_lock_witness:
  "fst (check default_lockout localhost 900 (snd (record_failure default_lockout localhost 900
     [(localhost, \<lparr>le_failures = 5, le_first_failure = 0, le_last_seen = 899,
        le_locked_until = Some 1799\<rparr>)]))) = LockAllowed"
proof -
  let ?e = "\<lparr>le_failures = 5, le_first_failure = 0, le_last_seen = 899, le_locked_until = Some 1799\<rparr>"
  have "roomy default_lockout {localhost} [(localhost, ?e)]"
    by (simp add: roomy_def bt_ok_Cons default_lockout_def)
  from late_failure_lifts_lock [OF this, of localhost ?e 1799 900]
  show ?thesis by (simp add: default_lockout_def)
qed

end
