(* ===== verification/Sign_In.thy ===== *)
theory Sign_In
  imports Gateway Lockout
begin

text \<open>
  Sign-in of the auth service (\<open>services/auth-actix/src\<close>): session tokens (\<open>session.rs\<close>), the login
  handler over the lockout (\<open>routes.rs\<close>), the credential directory's answers (\<open>users_client.rs\<close>) and
  the authorization the gateway asks for. Base64, the keyed hash and the JSON of the token's parts
  come from libraries and are parameters (\<open>token_library\<close>).
\<close>

section \<open>Session tokens\<close>

record session_claims =
  sc_authenticated :: bool
  sc_iat :: nat
  sc_exp :: nat
  sc_sub :: "string option"
  sc_name :: "string option"
  sc_role :: "string option"

record session_identity =
  si_user_id :: "string option"
  si_display_name :: "string option"
  si_role :: "string option"

definition shared_session :: session_identity where
  "shared_session = \<lparr>si_user_id = None, si_display_name = None, si_role = None\<rparr>"

record token_library =
  tl_encode :: "string \<Rightarrow> string"
  tl_decode :: "string \<Rightarrow> string option"
  tl_mac :: "string \<Rightarrow> string \<Rightarrow> string"
  tl_header :: "string \<times> string \<Rightarrow> string"
  tl_parse_header :: "string \<Rightarrow> (string \<times> string) option"
  tl_claims :: "session_claims \<Rightarrow> string"
  tl_parse_claims :: "string \<Rightarrow> session_claims option"

record session_codec =
  ss_secret :: string
  ss_ttl :: nat        \<comment> \<open>seconds\<close>

definition MAX_TOKEN_BYTES :: nat where "MAX_TOKEN_BYTES = 4096"
definition MAX_CLOCK_SKEW_SECONDS :: nat where "MAX_CLOCK_SKEW_SECONDS = 60"

definition claims_for :: "session_codec \<Rightarrow> nat \<Rightarrow> session_identity \<Rightarrow> session_claims" where
  "claims_for cs now s = \<lparr>sc_authenticated = True, sc_iat = now, sc_exp = now + ss_ttl cs,
     sc_sub = si_user_id s, sc_name = si_display_name s, sc_role = si_role s\<rparr>"

definition signing_input :: "token_library \<Rightarrow> session_claims \<Rightarrow> string" where
  "signing_input lib claims =
     tl_encode lib (tl_header lib (''HS256'', ''JWT'')) @ ''.'' @ tl_encode lib (tl_claims lib claims)"

definition create_token_for ::
    "token_library \<Rightarrow> session_codec \<Rightarrow> nat \<Rightarrow> session_identity \<Rightarrow> string option" where
  "create_token_for lib cs now s =
     (if u64_max < now + ss_ttl cs then None
      else
        (let input = signing_input lib (claims_for cs now s)
         in Some (input @ ''.'' @ tl_encode lib (tl_mac lib (ss_secret cs) input))))"

definition bounds_hold :: "session_codec \<Rightarrow> nat \<Rightarrow> session_claims \<Rightarrow> bool" where
  "bounds_hold cs now claims \<longleftrightarrow>
     sc_authenticated claims \<and> sc_iat claims \<le> sat_add64 now MAX_CLOCK_SKEW_SECONDS
     \<and> now < sc_exp claims \<and> sc_iat claims < sc_exp claims \<and> sc_exp claims - sc_iat claims \<le> ss_ttl cs"

definition signature_and_bounds_hold ::
    "token_library \<Rightarrow> session_codec \<Rightarrow> string \<Rightarrow> nat \<Rightarrow> bool" where
  "signature_and_bounds_hold lib cs token now \<longleftrightarrow>
     token \<noteq> [] \<and> length token \<le> MAX_TOKEN_BYTES \<and>
     (case split_char (CHR ''.'') token of
        [header, claims, signature] \<Rightarrow>
          tl_decode lib signature = Some (tl_mac lib (ss_secret cs) (header @ ''.'' @ claims))
          \<and> Option.bind (tl_decode lib header) (tl_parse_header lib) = Some (''HS256'', ''JWT'')
          \<and> (case Option.bind (tl_decode lib claims) (tl_parse_claims lib) of
                None \<Rightarrow> False
              | Some c \<Rightarrow> bounds_hold cs now c)
      | _ \<Rightarrow> False)"

definition verified_claims ::
    "token_library \<Rightarrow> session_codec \<Rightarrow> string \<Rightarrow> nat \<Rightarrow> session_claims option" where
  "verified_claims lib cs token now =
     (if \<not> signature_and_bounds_hold lib cs token now then None
      else case split_char (CHR ''.'') token of
        header # claims # _ \<Rightarrow> Option.bind (tl_decode lib claims) (tl_parse_claims lib)
      | _ \<Rightarrow> None)"

definition identity ::
    "token_library \<Rightarrow> session_codec \<Rightarrow> string \<Rightarrow> nat \<Rightarrow> session_identity option" where
  "identity lib cs token now =
     map_option (\<lambda>c. \<lparr>si_user_id = sc_sub c, si_display_name = sc_name c, si_role = sc_role c\<rparr>)
       (verified_claims lib cs token now)"

section \<open>The credential directory\<close>

record verified_user =
  vu_user_id :: string
  vu_username :: string
  vu_display_name :: string
  vu_role :: string

datatype verdict = Authenticated verified_user | Rejected | NoUsersConfigured

record verify_response =
  vr_authenticated :: bool
  vr_user_id :: "string option"
  vr_username :: "string option"
  vr_display_name :: "string option"
  vr_role :: "string option"
  vr_shared_password_active :: bool

text \<open>\<open>None\<close> is an unavailable directory: no answer, or one without an identity.\<close>

definition verdict_of :: "verify_response option \<Rightarrow> verdict option" where
  "verdict_of response =
     (case response of
        None \<Rightarrow> None
      | Some r \<Rightarrow>
          if vr_authenticated r then
            (case (vr_user_id r, vr_username r, vr_role r) of
               (Some i, Some n, Some role) \<Rightarrow>
                 Some (Authenticated \<lparr>vu_user_id = i, vu_username = n,
                   vu_display_name = opt_default [] (vr_display_name r), vu_role = role\<rparr>)
             | _ \<Rightarrow> None)
          else if vr_shared_password_active r then Some NoUsersConfigured
          else Some Rejected)"

section \<open>The login handler\<close>

datatype api_error =
    InvalidJson | BodyTooLarge | PasswordRequired | PeerIdentityUnavailable | LoopbackRequired
  | InternalStateUnavailable

fun error_status :: "api_error \<Rightarrow> nat" where
  "error_status InvalidJson = 400" | "error_status PasswordRequired = 400"
| "error_status PeerIdentityUnavailable = 400" | "error_status BodyTooLarge = 413"
| "error_status LoopbackRequired = 403" | "error_status InternalStateUnavailable = 500"

datatype login_reply =
    LoginOk string             \<comment> \<open>200 with the session cookie\<close>
  | LoginDenied nat            \<comment> \<open>401 with the attempts left\<close>
  | LoginLocked nat            \<comment> \<open>429 with the waiting time\<close>
  | LoginError api_error

record auth_service =
  as_library :: token_library
  as_codec :: session_codec
  as_lockout :: lockout_config
  as_parse_login :: "string \<Rightarrow> (string option \<times> string option) option"   \<comment> \<open>password, username\<close>
  as_directory :: "string \<Rightarrow> string \<Rightarrow> verify_response option"
  as_shared_password :: "string \<Rightarrow> bool"
  as_validate_key :: "string \<Rightarrow> (bool \<times> bool) option"     \<comment> \<open>valid, active\<close>

definition MAX_REQUEST_BODY_BYTES :: nat where "MAX_REQUEST_BODY_BYTES = 8 * 1024"
definition MAX_PASSWORD_BYTES :: nat where "MAX_PASSWORD_BYTES = 1024"
definition MAX_API_KEY_BYTES :: nat where "MAX_API_KEY_BYTES = 4096"

definition session_for :: "verified_user \<Rightarrow> session_identity" where
  "session_for u = \<lparr>si_user_id = Some (vu_user_id u),
     si_display_name = Some (if trim (vu_display_name u) = [] then vu_username u else vu_display_name u),
     si_role = Some (vu_role u)\<rparr>"

text \<open>What the body of a login earns, before the lockout hears of it.\<close>

definition login_outcome :: "auth_service \<Rightarrow> string \<Rightarrow> api_error + session_identity option" where
  "login_outcome svc body =
     (if length body > MAX_REQUEST_BODY_BYTES then Inl BodyTooLarge
      else case as_parse_login svc body of
        None \<Rightarrow> Inl InvalidJson
      | Some (password, username) \<Rightarrow>
          (case Option.bind password (\<lambda>p. let t = trim p in
                  if t \<noteq> [] \<and> length t \<le> MAX_PASSWORD_BYTES then Some t else None) of
             None \<Rightarrow> Inl PasswordRequired
           | Some p \<Rightarrow>
               (case verdict_of (as_directory svc (trim (opt_default [] username)) p) of
                  None \<Rightarrow> Inl InternalStateUnavailable
                | Some (Authenticated u) \<Rightarrow> Inr (Some (session_for u))
                | Some NoUsersConfigured \<Rightarrow>
                    Inr (if as_shared_password svc p then Some shared_session else None)
                | Some Rejected \<Rightarrow> Inr None)))"

definition login ::
    "auth_service \<Rightarrow> ip_addr option \<Rightarrow> nat \<Rightarrow> string \<Rightarrow> lockout \<Rightarrow> login_reply \<times> lockout" where
  "login svc connection_peer now body m =
     (case connection_peer of
        None \<Rightarrow> (LoginError PeerIdentityUnavailable, m)
      | Some peer \<Rightarrow>
          (case check (as_lockout svc) peer now m of
             (Locked retry_after, m1) \<Rightarrow> (LoginLocked retry_after, m1)
           | (LockAllowed, m1) \<Rightarrow>
               (case login_outcome svc body of
                  Inl e \<Rightarrow> (LoginError e, m1)
                | Inr (Some s) \<Rightarrow>
                    (case create_token_for (as_library svc) (as_codec svc) now s of
                       None \<Rightarrow> (LoginError InternalStateUnavailable, record_success peer m1)
                     | Some token \<Rightarrow> (LoginOk token, record_success peer m1))
                | Inr None \<Rightarrow>
                    (case record_failure (as_lockout svc) peer now m1 of
                       (failure, m2) \<Rightarrow>
                         (case fl_lock_state failure of
                            LockAllowed \<Rightarrow> (LoginDenied (fl_remaining_before_lock failure), m2)
                          | Locked retry_after \<Rightarrow> (LoginLocked retry_after, m2))))))"

section \<open>Authorization\<close>

definition authorize_inner ::
    "auth_service \<Rightarrow> nat \<Rightarrow> authorize_request \<Rightarrow> bool \<times> string option" where
  "authorize_inner svc now request =
     (case request of
        AuthDashboard token \<Rightarrow>
          (case Option.bind token (\<lambda>t. if t = [] then None
                  else identity (as_library svc) (as_codec svc) t now) of
             Some i \<Rightarrow> (True, si_role i)
           | None \<Rightarrow> (False, None))
      | AuthRuntime key \<Rightarrow>
          (case Option.bind key (\<lambda>k. let t = trim k in
                  if t \<noteq> [] \<and> length t \<le> MAX_API_KEY_BYTES then Some t else None) of
             None \<Rightarrow> (False, None)
           | Some k \<Rightarrow>
               (case as_validate_key svc k of
                  Some (valid, active) \<Rightarrow> (valid \<and> active, None)
                | None \<Rightarrow> (False, None))))"

text \<open>The handler, as the gateway's client sees it: refusals are errors.\<close>

definition authorize ::
    "auth_service \<Rightarrow> ip_addr option \<Rightarrow> nat \<Rightarrow> authorize_request \<Rightarrow> (bool \<times> string option) option" where
  "authorize svc connection_peer now request =
     (case connection_peer of
        None \<Rightarrow> None
      | Some peer \<Rightarrow> if is_loopback peer then Some (authorize_inner svc now request) else None)"

text \<open>A login that came through the gateway: the service sees the gateway's connection.\<close>

definition login_via_gateway ::
    "auth_service \<Rightarrow> string \<Rightarrow> ip_addr \<Rightarrow> ip_addr option \<Rightarrow> headers \<Rightarrow> nat \<Rightarrow> string \<Rightarrow> lockout
     \<Rightarrow> login_reply option \<times> lockout" where
  "login_via_gateway svc authority gateway client hs now body m =
     (case upstream_request_filter authority client hs of
        None \<Rightarrow> (None, m)
      | Some forwarded \<Rightarrow> (case login svc (Some gateway) now body m of (r, m') \<Rightarrow> (Some r, m')))"

section \<open>Lemmas\<close>

lemma split_three:
  assumes "CHR ''.'' \<notin> set a" "CHR ''.'' \<notin> set b" "CHR ''.'' \<notin> set c"
  shows "split_char (CHR ''.'') (a @ ''.'' @ b @ ''.'' @ c) = [a, b, c]"
  using assms by (simp add: split_char_append split_char_no_sep)

lemma verified_claims_Some:
  assumes "verified_claims lib cs token now = Some claims"
  shows "\<exists>h c s. token = h @ ''.'' @ c @ ''.'' @ s
    \<and> tl_decode lib s = Some (tl_mac lib (ss_secret cs) (h @ ''.'' @ c))
    \<and> Option.bind (tl_decode lib c) (tl_parse_claims lib) = Some claims
    \<and> bounds_hold cs now claims"
proof -
  from assms have signed: "signature_and_bounds_hold lib cs token now"
    by (auto simp: verified_claims_def split: if_splits)
  then obtain h c s where parts: "split_char (CHR ''.'') token = [h, c, s]"
    by (auto simp: signature_and_bounds_hold_def split: list.splits)
  have "token = join_with [CHR ''.''] [h, c, s]"
    using join_split_char [of "CHR ''.''" token] parts by simp
  with assms signed parts show ?thesis
    by (auto simp: verified_claims_def signature_and_bounds_hold_def split: option.splits)
qed

lemma claims_for_bounds:
  assumes "t < now + ss_ttl cs" "now \<le> t + MAX_CLOCK_SKEW_SECONDS" "now \<le> u64_max" "0 < ss_ttl cs"
  shows "bounds_hold cs t (claims_for cs now s)"
  using assms by (auto simp: bounds_hold_def claims_for_def sat_add64_def)

section \<open>Sessions behind the gateway\<close>

text \<open>The gateway relies on an authority that vouches for session tokens.\<close>

locale session_authority =
  fixes vouch :: "authorize_request \<Rightarrow> (bool \<times> string option) option"
    and holds :: "string \<Rightarrow> string option \<Rightarrow> bool"
  assumes vouched: "vouch (AuthDashboard token) = Some (True, role) \<Longrightarrow> \<exists>t. token = Some t \<and> holds t role"
begin

lemma forwarded_session:
  assumes "gw_authorize gw = vouch" "request_filter gw rq = Forward route"
    and "route \<in> {RouteDashboard, RouteApi, RouteCatalog, RouteEvents, RouteState}"
    and "\<not> is_public_path (gq_path rq)"
  shows "\<exists>t role. session_token (gw_readable gw) rq = Some t \<and> holds t role
    \<and> (route = RouteDashboard \<or> role = None
       \<or> least_role (gq_path rq) (gq_method rq) \<le> parse_role (the role))"
proof -
  define needs where
    "needs = access_requirement (gw_keys_required gw) (gq_path rq) (gq_method rq) (gq_peer rq)"
  note facts = access_requirement_facts
    [of "gw_keys_required gw" "gq_path rq" "gq_method rq" "gq_peer rq", folded needs_def]
  from assms(2) have route: "route = route_for_path (gq_path rq)"
    and allow: "decision needs (authorization_for gw rq needs) = Allow"
    by (auto simp: request_filter_Forward needs_def Let_def)
  from allow have open_path: "needs \<noteq> Never" by (auto simp: decision_Allow)
  have session: "needs \<noteq> NeedsNothing" "needs \<noteq> NeedsRuntimeKey"
    using facts(1,4) route assms(3,4) by auto
  from allow session(1) obtain role where st: "authorization_for gw rq needs = Authorized role"
    by (auto simp: decision_Allow split: access_requirement.splits)
  from authorization_for_Authorized [OF st session(1) open_path] obtain request raw where
    sent: "authorization_request (gw_readable gw) rq needs = Some request"
      "gw_authorize gw request = Some (True, raw)" "role = map_option parse_role raw" .
  have request: "request = AuthDashboard (session_token (gw_readable gw) rq)"
    using sent(1) session open_path by (cases needs) (auto simp: authorization_request_def)
  from vouched [of "session_token (gw_readable gw) rq" raw] sent(2) assms(1) request obtain t where
    t: "session_token (gw_readable gw) rq = Some t" "holds t raw" by auto
  have "route = RouteDashboard \<or> raw = None
      \<or> least_role (gq_path rq) (gq_method rq) \<le> parse_role (the raw)"
    using allow st sent(3) session open_path facts(2,3) route
    by (cases needs; cases raw) (auto simp: decision_Allow)
  with t show ?thesis by blast
qed

end

text \<open>A token the auth service signed, within its time, and the role it carries.\<close>

definition signed_session ::
    "token_library \<Rightarrow> session_codec \<Rightarrow> nat \<Rightarrow> string \<Rightarrow> string option \<Rightarrow> bool" where
  "signed_session lib cs now token role \<longleftrightarrow>
     (\<exists>h c s claims. token = h @ ''.'' @ c @ ''.'' @ s
        \<and> tl_decode lib s = Some (tl_mac lib (ss_secret cs) (h @ ''.'' @ c))
        \<and> Option.bind (tl_decode lib c) (tl_parse_claims lib) = Some claims
        \<and> sc_authenticated claims \<and> now < sc_exp claims
        \<and> sc_exp claims - sc_iat claims \<le> ss_ttl cs \<and> sc_role claims = role)"

interpretation auth: session_authority "authorize svc peer now"
    "signed_session (as_library svc) (as_codec svc) now" for svc peer now
proof
  fix token role
  assume "authorize svc peer now (AuthDashboard token) = Some (True, role)"
  then obtain t i where t: "token = Some t" "identity (as_library svc) (as_codec svc) t now = Some i"
      "si_role i = role"
    by (auto simp: authorize_def authorize_inner_def bind_eq_Some_conv split: option.splits if_splits)
  then obtain claims where claims: "verified_claims (as_library svc) (as_codec svc) t now = Some claims"
      "sc_role claims = role"
    by (auto simp: identity_def)
  from verified_claims_Some [OF this(1)] claims(2) t(1)
  show "\<exists>t. token = Some t \<and> signed_session (as_library svc) (as_codec svc) now t role"
    unfolding signed_session_def bounds_hold_def by blast
qed

section \<open>Properties\<close>

text \<open>A session lasts from sign-in to its expiry and carries who signed in. A token created at
  \<open>now\<close> that is not too long to be accepted verifies at every time from a minute before \<open>now\<close> until
  its lifetime is over, with the identity it was created for, if the libraries read back what they
  wrote and base64 text has no dots.\<close>

theorem session_round_trip:
  assumes "create_token_for lib cs now s = Some token" "length token \<le> MAX_TOKEN_BYTES"
    and "now \<le> t + MAX_CLOCK_SKEW_SECONDS" "t < now + ss_ttl cs" "0 < ss_ttl cs"
    and decode: "\<forall>x \<in> {tl_header lib (''HS256'', ''JWT''), tl_claims lib (claims_for cs now s),
        tl_mac lib (ss_secret cs) (signing_input lib (claims_for cs now s))}.
      tl_decode lib (tl_encode lib x) = Some x \<and> CHR ''.'' \<notin> set (tl_encode lib x)"
    and parse: "tl_parse_header lib (tl_header lib (''HS256'', ''JWT'')) = Some (''HS256'', ''JWT'')"
      "tl_parse_claims lib (tl_claims lib (claims_for cs now s)) = Some (claims_for cs now s)"
  shows "identity lib cs token t = Some s"
proof -
  let ?h = "tl_encode lib (tl_header lib (''HS256'', ''JWT''))"
  let ?c = "tl_encode lib (tl_claims lib (claims_for cs now s))"
  let ?s = "tl_encode lib (tl_mac lib (ss_secret cs) (?h @ ''.'' @ ?c))"
  from assms(1) have token: "token = ?h @ ''.'' @ ?c @ ''.'' @ ?s" and small: "now \<le> u64_max"
    by (auto simp: create_token_for_def signing_input_def Let_def split: if_splits)
  have parts: "split_char (CHR ''.'') token = [?h, ?c, ?s]"
    unfolding token by (rule split_three) (use decode in \<open>auto simp: signing_input_def\<close>)
  have "signature_and_bounds_hold lib cs token t"
    using assms(2) claims_for_bounds [OF assms(4,3) small assms(5), of s] decode parse
    by (simp add: signature_and_bounds_hold_def parts signing_input_def) (simp add: token)
  then have "verified_claims lib cs token t = Some (claims_for cs now s)"
    using decode parse by (simp add: verified_claims_def parts)
  then show ?thesis by (simp add: identity_def claims_for_def)
qed

definition sample_codec :: session_codec where
  "sample_codec = \<lparr>ss_secret = ''k'', ss_ttl = 60\<rparr>"

definition sample_identity :: session_identity where
  "sample_identity = \<lparr>si_user_id = Some ''user_1'', si_display_name = Some ''Ada'',
     si_role = Some ''operator''\<rparr>"

definition sample_library :: token_library where
  "sample_library = \<lparr>tl_encode = (\<lambda>x. x), tl_decode = Some, tl_mac = (\<lambda>k x. ''sig''),
     tl_header = (\<lambda>_. ''head''), tl_parse_header = (\<lambda>_. Some (''HS256'', ''JWT'')),
     tl_claims = (\<lambda>_. ''claims''),
     tl_parse_claims = (\<lambda>_. Some (claims_for sample_codec 100 sample_identity))\<rparr>"

lemma sample_token:
  "create_token_for sample_library sample_codec 100 sample_identity = Some ''head.claims.sig''"
  by (simp add: create_token_for_def signing_input_def sample_library_def sample_codec_def u64_max_def)

theorem session_round_trip_witness:
  "identity sample_library sample_codec ''head.claims.sig'' 159 = Some sample_identity"
  by (rule session_round_trip [OF sample_token])
    (simp_all add: sample_library_def sample_codec_def MAX_TOKEN_BYTES_def signing_input_def)

text \<open>C5: Only a signed, unexpired session with the role a request needs gets past the gateway. With the
  auth service behind it, a request forwarded to a service that sessions protect carries a token that
  the service signed, that has not expired and is not longer-lived than the service allows, and
  whose role, where it has one, is at least what the path and method need.\<close>

theorem only_signed_sessions_pass:
  assumes "gw_authorize gw = authorize svc peer now" "request_filter gw rq = Forward route"
    and "route \<in> {RouteDashboard, RouteApi, RouteCatalog, RouteEvents, RouteState}"
    and "\<not> is_public_path (gq_path rq)"
  shows "\<exists>h c s claims. session_token (gw_readable gw) rq = Some (h @ ''.'' @ c @ ''.'' @ s)
    \<and> tl_decode (as_library svc) s
        = Some (tl_mac (as_library svc) (ss_secret (as_codec svc)) (h @ ''.'' @ c))
    \<and> Option.bind (tl_decode (as_library svc) c) (tl_parse_claims (as_library svc)) = Some claims
    \<and> sc_authenticated claims \<and> now < sc_exp claims
    \<and> sc_exp claims - sc_iat claims \<le> ss_ttl (as_codec svc)
    \<and> (route = RouteDashboard \<or> sc_role claims = None
       \<or> least_role (gq_path rq) (gq_method rq) \<le> parse_role (the (sc_role claims)))"
  using auth.forwarded_session [OF assms] unfolding signed_session_def by metis

definition sample_auth :: auth_service where
  "sample_auth = \<lparr>as_library = sample_library, as_codec = sample_codec, as_lockout = default_lockout,
     as_parse_login = (\<lambda>b. Some (Some b, None)),
     as_directory = (\<lambda>u p. Some \<lparr>vr_authenticated = False, vr_user_id = None, vr_username = None,
       vr_display_name = None, vr_role = None, vr_shared_password_active = True\<rparr>),
     as_shared_password = (\<lambda>p. p = ''right''), as_validate_key = (\<lambda>_. None)\<rparr>"

definition guarded_gateway :: gateway_side where
  "guarded_gateway = \<lparr>gw_keys_required = False, gw_throttle = None,
     gw_authorize = authorize sample_auth (Some localhost) 120, gw_readable = Some\<rparr>"

definition signed_call :: gateway_request where
  "signed_call = \<lparr>gq_path = ''/api/settings'', gq_query = None, gq_method = POST,
     gq_headers = [(''cookie'', ''auth_token=head.claims.sig'')], gq_peer = Some (IpV4 0xCB007109)\<rparr>"

lemma signed_call_authorized:
  "authorize sample_auth (Some localhost) 120 (AuthDashboard (Some ''head.claims.sig''))
     = Some (True, Some ''operator'')"
proof -
  have "identity sample_library sample_codec ''head.claims.sig'' 120 = Some sample_identity"
    by (simp add: identity_def verified_claims_def signature_and_bounds_hold_def bounds_hold_def
        sample_library_def sample_codec_def sample_identity_def claims_for_def sat_add64_def u64_max_def
        MAX_TOKEN_BYTES_def MAX_CLOCK_SKEW_SECONDS_def)
  then show ?thesis
    by (simp add: authorize_def authorize_inner_def sample_auth_def sample_identity_def)
qed

lemma signed_call_forwarded: "request_filter guarded_gateway signed_call = Forward RouteState"
proof -
  have "session_token Some signed_call = Some ''head.claims.sig''" by code_simp
  moreover have "access_requirement False ''/api/settings'' POST (Some (IpV4 0xCB007109))
      = NeedsApiSession Operator" by code_simp
  moreover have "parse_role ''operator'' = Operator" by code_simp
  moreover have "route_for_path ''/api/settings'' = RouteState" by code_simp
  ultimately show ?thesis
    by (simp add: request_filter_Forward throttle_wait_def guarded_gateway_def signed_call_def
        authorization_for_def authorization_request_def signed_call_authorized satisfies_def)
qed

theorem only_signed_sessions_pass_witness:
  "\<exists>h c s. session_token Some signed_call = Some (h @ ''.'' @ c @ ''.'' @ s)"
proof -
  have behind: "gw_authorize guarded_gateway = authorize sample_auth (Some localhost) 120"
    by (simp add: guarded_gateway_def)
  have guarded: "RouteState \<in> {RouteDashboard, RouteApi, RouteCatalog, RouteEvents, RouteState}" by simp
  have closed: "\<not> is_public_path (gq_path signed_call)" by code_simp
  from only_signed_sessions_pass [OF behind signed_call_forwarded guarded closed]
  show ?thesis by (auto simp: guarded_gateway_def)
qed

text \<open>The entry of an address after \<open>k\<close> failures in the same second.\<close>

definition burst_entry :: "lockout_config \<Rightarrow> nat \<Rightarrow> nat \<Rightarrow> lockout_entry option" where
  "burst_entry cfg now k =
     (if k = 0 then None
      else Some \<lparr>le_failures = k, le_first_failure = now, le_last_seen = now,
        le_locked_until = (if k < lc_threshold cfg then None else Some (now + lc_duration cfg))\<rparr>)"

lemma keep_burst: "lockout_valid cfg \<Longrightarrow> keep cfg now (burst_entry cfg now k) = burst_entry cfg now k"
  by (auto simp: keep_def burst_entry_def live_def lockout_valid_def)

lemma failed_burst:
  assumes "lockout_valid cfg" "now + lc_duration cfg \<le> u64_max" "k < lc_threshold cfg"
  shows "failed_entry cfg now (burst_entry cfg now k) = the (burst_entry cfg now (Suc k))"
proof -
  have "sat_add32 k 1 = Suc k" using assms by (simp add: sat_add32_def lockout_valid_def)
  moreover have "sat_add64 now (lc_duration cfg) = now + lc_duration cfg"
    using assms(2) by (rule sat_add64_exact)
  ultimately show ?thesis
    using assms by (auto simp: failed_entry_def burst_entry_def fresh_entry_def Let_def lockout_valid_def)
qed

lemma lock_of_burst:
  "k < lc_threshold cfg \<Longrightarrow> lock_of now (burst_entry cfg now k) = LockAllowed"
  "lockout_valid cfg \<Longrightarrow>
     lock_of now (burst_entry cfg now (lc_threshold cfg)) = Locked (lc_duration cfg)"
  by (auto simp: lock_of_def burst_entry_def lockout_valid_def)

lemma failed_login_table:
  assumes "login_outcome svc wrong = Inr None"
  shows "snd (login svc (Some p) now wrong m) = snd (limiter.attempt (as_lockout svc) p now m)"
  using assms by (auto simp: login_def limiter.attempt_def split: prod.splits lock_state.splits)

lemma burst:
  assumes "lockout_valid (as_lockout svc)" "now + lc_duration (as_lockout svc) \<le> u64_max"
    and "map_of m p = None" "roomy (as_lockout svc) ps m" "p \<in> ps" "login_outcome svc wrong = Inr None"
    and "k \<le> lc_threshold (as_lockout svc)"
  shows "roomy (as_lockout svc) ps (((\<lambda>m. snd (login svc (Some p) now wrong m)) ^^ k) m)
    \<and> map_of (((\<lambda>m. snd (login svc (Some p) now wrong m)) ^^ k) m) p = burst_entry (as_lockout svc) now k"
  using assms(7)
proof (induction k)
  case 0
  then show ?case using assms(3,4) by (simp add: burst_entry_def)
next
  case (Suc k)
  let ?m = "((\<lambda>m. snd (login svc (Some p) now wrong m)) ^^ k) m"
  obtain tested m' where at: "limiter.attempt (as_lockout svc) p now ?m = (tested, m')"
    by (cases "limiter.attempt (as_lockout svc) p now ?m")
  have ih: "roomy (as_lockout svc) ps ?m" "map_of ?m p = burst_entry (as_lockout svc) now k"
    using Suc by auto
  note f = limiter.attempt_facts [OF ih(1) assms(5) at]
  have "tested" using f(2) ih(2) Suc.prems assms(1) by (simp add: keep_burst lock_of_burst)
  then have "map_of m' p = burst_entry (as_lockout svc) now (Suc k)"
    using f(3) [of p] ih(2) Suc.prems assms(1,2)
    by (simp add: keep_burst failed_burst) (simp add: burst_entry_def)
  then show ?case using f(1) at by (simp add: failed_login_table [OF assms(6)])
qed

text \<open>Behind the gateway every client shares one lockout. The auth service counts failures of the
  connection, which is the gateway's, so after \<open>threshold\<close> wrong passwords from one client the login of
  any other client is refused for the whole lock, whatever password it brings.\<close>

theorem lockout_is_shared:
  assumes "lockout_valid (as_lockout svc)" "now + lc_duration (as_lockout svc) \<le> u64_max"
    and "map_of m gateway = None" "roomy (as_lockout svc) ps m" "gateway \<in> ps"
    and "login_outcome svc wrong = Inr None"
    and "m' = ((\<lambda>m. snd (login_via_gateway svc authority gateway (Some attacker) hs now wrong m))
      ^^ lc_threshold (as_lockout svc)) m"
  shows "fst (login_via_gateway svc authority gateway (Some victim) hs' now body m')
    = Some (LoginLocked (lc_duration (as_lockout svc)))"
proof -
  have same: "snd (login_via_gateway svc authority gateway (Some attacker) hs now wrong x)
      = snd (login svc (Some gateway) now wrong x)" for x
    by (simp add: login_via_gateway_def upstream_request_filter_def split: prod.splits)
  from burst [OF assms(1-6) order_refl]
  have table: "roomy (as_lockout svc) ps m'"
    "map_of m' gateway = burst_entry (as_lockout svc) now (lc_threshold (as_lockout svc))"
    unfolding assms(7) same by auto
  have "fst (check (as_lockout svc) gateway now m') = Locked (lc_duration (as_lockout svc))"
    using limiter.inspect_result [OF table(1)] table(2) assms(1) by (simp add: keep_burst lock_of_burst)
  then show ?thesis
    by (auto simp: login_via_gateway_def upstream_request_filter_def login_def split: prod.splits)
qed

theorem lockout_is_shared_witness:
  "\<exists>m'. fst (login_via_gateway sample_auth ''127.0.0.1:20135'' localhost (Some (IpV4 2)) [] 100 ''right'' m')
    = Some (LoginLocked 900)"
proof -
  have valid: "lockout_valid (as_lockout sample_auth)"
    by (simp add: sample_auth_def lockout_valid_def default_lockout_def u32_max_def)
  have ends: "100 + lc_duration (as_lockout sample_auth) \<le> u64_max"
    by (simp add: sample_auth_def default_lockout_def u64_max_def)
  have unknown: "map_of ([] :: lockout) localhost = None" by simp
  have room: "roomy (as_lockout sample_auth) {localhost} []"
    by (simp add: roomy_def sample_auth_def default_lockout_def)
  have "login_outcome sample_auth ''wrong'' = Inr None" by code_simp
  from lockout_is_shared [OF valid ends unknown room _ this refl, where victim = "IpV4 2"
      and attacker = "IpV4 1" and hs = "[]" and hs' = "[]" and body = "''right''"
      and authority = "''127.0.0.1:20135''"]
  have "fst (login_via_gateway sample_auth ''127.0.0.1:20135'' localhost (Some (IpV4 2)) [] 100 ''right''
      (((\<lambda>m. snd (login_via_gateway sample_auth ''127.0.0.1:20135'' localhost (Some (IpV4 1)) [] 100
        ''wrong'' m)) ^^ lc_threshold (as_lockout sample_auth)) []))
      = Some (LoginLocked (lc_duration (as_lockout sample_auth)))"
    by simp
  moreover have "lc_duration (as_lockout sample_auth) = 900"
    by (simp add: sample_auth_def default_lockout_def)
  ultimately show ?thesis by metis
qed

end
