(* ===== verification/Protobuf.thy ===== *)
theory Protobuf
  imports Router_Prelude "HOL-Library.Sublist"
begin

text \<open>
  The wire codec of \<open>crates/execute/src/bespoke/cursor/protobuf.rs\<close>: varints, fields, messages and
  Connect-RPC frames, on bytes and machine words. Both readers take one item off the front of a
  buffer; the locale \<open>item_stream\<close> states that contract once, and its lemmas (concatenation,
  truncation, resumption) serve messages and frames alike. Decompression is a library's.
\<close>

unbundle bit_operations_syntax

type_synonym bytes = "8 word list"

section \<open>Items off the front of a buffer\<close>

text \<open>
  What the readers have in common: an item is a non-empty prefix, and more bytes behind it do not
  change it. \<open>items\<close> reads until nothing more can be read and returns what is left.
\<close>

locale item_stream =
  fixes read :: "'b list \<Rightarrow> ('a \<times> 'b list) option"
    and items :: "'b list \<Rightarrow> 'a list \<times> 'b list"
  assumes read_rest: "read a = Some (x, r) \<Longrightarrow> \<exists>p. a = p @ r \<and> p \<noteq> []"
    and read_more: "read a = Some (x, r) \<Longrightarrow> read (a @ b) = Some (x, r @ b)"
    and items_step: "items a = (case read a of
      None \<Rightarrow> ([], a) | Some (x, r) \<Rightarrow> (x # fst (items r), snd (items r)))"
begin

lemma read_Nil [simp]: "read [] = None"
  using read_rest [of "[]"] by (cases "read []") auto

lemma items_Nil [simp]: "items [] = ([], [])"
  by (subst items_step) simp

lemma items_append:
  "items (a @ b) = (fst (items a) @ fst (items (snd (items a) @ b)), snd (items (snd (items a) @ b)))"
proof (induction a rule: length_induct)
  case (1 a)
  show ?case
  proof (cases "read a")
    case None
    then have "items a = ([], a)" by (subst items_step) simp
    then show ?thesis by simp
  next
    case (Some xr)
    obtain x r where xr: "xr = (x, r)" by (cases xr)
    from Some xr read_rest [of a x r] have "length r < length a" by auto
    with 1 have ih: "items (r @ b)
        = (fst (items r) @ fst (items (snd (items r) @ b)), snd (items (snd (items r) @ b)))" by blast
    have "items a = (x # fst (items r), snd (items r))" using Some xr by (subst items_step) simp
    moreover have "items (a @ b) = (x # fst (items (r @ b)), snd (items (r @ b)))"
      using read_more [of a x r b] Some xr by (subst items_step) simp
    ultimately show ?thesis by (simp add: ih)
  qed
qed

lemma items_consumed: "\<exists>p. a = p @ snd (items a)"
proof (induction a rule: length_induct)
  case (1 a)
  show ?case
  proof (cases "read a")
    case None
    then show ?thesis by (subst items_step) simp
  next
    case (Some xr)
    obtain x r where xr: "xr = (x, r)" by (cases xr)
    with Some obtain p where p: "a = p @ r" "p \<noteq> []" using read_rest by blast
    then have "length r < length a" by simp
    with 1 obtain q where "r = q @ snd (items r)" by blast
    with p have "a = (p @ q) @ snd (items r)" by simp
    then show ?thesis using Some xr by (subst items_step) (auto intro: exI [of _ "p @ q"])
  qed
qed

end

text \<open>The items whose bytes lie whole within the first \<open>n\<close>.\<close>

fun whole_items :: "('a \<Rightarrow> 'b list) \<Rightarrow> nat \<Rightarrow> 'a list \<Rightarrow> 'a list" where
  "whole_items put n [] = []"
| "whole_items put n (x # xs) =
     (if length (put x) \<le> n then x # whole_items put (n - length (put x)) xs else [])"

text \<open>A stream with a writer.\<close>

locale item_codec = item_stream read items
  for read :: "'b list \<Rightarrow> ('a \<times> 'b list) option" and items :: "'b list \<Rightarrow> 'a list \<times> 'b list" +
  fixes put :: "'a \<Rightarrow> 'b list" and valid :: "'a \<Rightarrow> bool"
  assumes read_put: "valid x \<Longrightarrow> read (put x @ rest) = Some (x, rest)"
begin

lemma items_put:
  "list_all valid xs \<Longrightarrow>
     items (concat (map put xs) @ rest) = (xs @ fst (items rest), snd (items rest))"
proof (induction xs)
  case (Cons x xs)
  then show ?case by (subst items_step) (simp add: read_put)
qed simp

lemma read_cut:
  assumes "valid x" "n < length (put x)"
  shows "read (take n (put x)) = None"
proof (rule ccontr)
  assume "read (take n (put x)) \<noteq> None"
  then obtain y r where "read (take n (put x)) = Some (y, r)" by auto
  from read_more [OF this, of "drop n (put x)"] have "read (put x) = Some (y, r @ drop n (put x))" by simp
  moreover have "read (put x) = Some (x, [])" using read_put [OF assms(1), of "[]"] by simp
  ultimately show False using assms(2) by simp
qed

lemma items_cut:
  "list_all valid xs \<Longrightarrow> fst (items (take n (concat (map put xs)))) = whole_items put n xs"
proof (induction xs arbitrary: n)
  case Nil
  then show ?case using items_Nil by simp
next
  case (Cons x xs)
  then show ?case
  proof (cases "length (put x) \<le> n")
    case True
    with Cons show ?thesis by (subst items_step) (simp add: read_put)
  next
    case False
    with Cons.prems have "read (take n (put x)) = None" by (intro read_cut) simp_all
    with False show ?thesis by (subst items_step) simp
  qed
qed

end

section \<open>Varints\<close>

lemma drop_bit_less:
  assumes "0x80 \<le> (v :: 64 word)"
  shows "unat (drop_bit 7 v) < unat v"
proof -
  have "0 < unat v" using assms by (simp add: word_le_nat_alt)
  moreover have "unat (drop_bit 7 v) = unat v div 128"
    by (simp add: drop_bit_eq_div unat_div_distrib)
  ultimately show ?thesis by simp
qed

function put_varint :: "64 word \<Rightarrow> bytes" where
  "put_varint v =
     (if 0x80 \<le> v then (ucast (v AND 0x7F) OR 0x80) # put_varint (drop_bit 7 v)
      else [ucast (v AND 0x7F)])"
  by auto

termination
  by (relation "measure unat") (simp_all add: drop_bit_less)

declare put_varint.simps [simp del]

fun read_varint_from :: "64 word \<Rightarrow> nat \<Rightarrow> bytes \<Rightarrow> (64 word \<times> bytes) option" where
  "read_varint_from v shift [] = None"
| "read_varint_from v shift (b # bs) =
     (if 64 \<le> shift then None
      else
        (let v' = v OR push_bit shift (ucast (b AND 0x7F))
         in if b AND 0x80 = 0 then Some (v', bs) else read_varint_from v' (shift + 7) bs))"

definition read_varint :: "bytes \<Rightarrow> (64 word \<times> bytes) option" where
  "read_varint data = read_varint_from 0 0 data"

lemma bit_0x7F: "bit (0x7F :: int) n \<longleftrightarrow> n < 7"
proof -
  have eq: "(0x7F :: int) = mask 7" by (simp add: mask_eq_exp_minus_1)
  show ?thesis unfolding eq bit_mask_iff by simp
qed

lemma bit_0x80: "bit (0x80 :: int) n \<longleftrightarrow> n = 7"
proof -
  have eq: "(0x80 :: int) = 2 ^ 7" by simp
  show ?thesis unfolding eq bit_exp_iff by auto
qed

lemmas byte_masks = bit_0x7F bit_0x80

lemma low_byte:
  "(ucast ((v :: 64 word) AND 0x7F) :: 8 word) AND 0x80 = 0"
  "((ucast ((v :: 64 word) AND 0x7F) :: 8 word) OR 0x80) AND 0x80 = 0x80"
  "ucast (((ucast ((v :: 64 word) AND 0x7F) :: 8 word) OR 0x80) AND 0x7F) = v AND 0x7F"
  "ucast ((ucast ((v :: 64 word) AND 0x7F) :: 8 word) AND 0x7F) = v AND 0x7F"
  by (rule bit_word_eqI; auto simp: bit_simps byte_masks)+

lemma seven_bits: "push_bit s (v AND 0x7F) OR push_bit (s + 7) (drop_bit 7 v) = push_bit s (v :: 64 word)"
proof (rule bit_word_eqI)
  fix n
  have "s + 7 \<le> n \<Longrightarrow> 7 + (n - (s + 7)) = n - s" by simp
  then show "bit (push_bit s (v AND 0x7F) OR push_bit (s + 7) (drop_bit 7 v)) n = bit (push_bit s v) n"
    by (cases "s + 7 \<le> n") (auto simp: bit_simps byte_masks)
qed

lemma small_masked: "\<not> 0x80 \<le> (v :: 64 word) \<Longrightarrow> v AND 0x7F = v"
proof -
  assume "\<not> 0x80 \<le> v"
  then have "unat v < 2 ^ 7" by (simp add: word_le_nat_alt)
  then have "v = take_bit 7 v"
    by (intro word_unat_eq_iff [THEN iffD2]) (simp add: unsigned_take_bit_eq take_bit_nat_eq_self)
  moreover have "(0x7F :: 64 word) = mask 7" by (simp add: mask_eq_exp_minus_1)
  ultimately show ?thesis by (simp add: take_bit_eq_mask)
qed

lemma read_put_varint_from:
  "s < 64 \<Longrightarrow> unat v < 2 ^ (64 - s) \<Longrightarrow>
   read_varint_from acc s (put_varint v @ rest) = Some (acc OR push_bit s v, rest)"
proof (induction v arbitrary: acc s rule: put_varint.induct)
  case (1 v)
  show ?case
  proof (cases "0x80 \<le> v")
    case True
    then have big: "128 \<le> unat v" by (simp add: word_le_nat_alt)
    have "(2 :: nat) ^ 7 < 2 ^ (64 - s)" using big "1.prems"(2) by simp
    then have s: "7 < 64 - s" by (rule power_less_imp_less_exp [rotated]) simp
    have "unat (drop_bit 7 v) < 2 ^ (64 - (s + 7))"
    proof -
      have "(2 :: nat) ^ (64 - s) = 2 ^ (64 - (s + 7)) * 2 ^ 7"
        using s by (subst power_add [symmetric]) simp
      then show ?thesis using "1.prems"(2)
        by (simp add: drop_bit_eq_div unat_div_distrib less_mult_imp_div_less)
    qed
    with "1.IH" [OF True, of "s + 7" "acc OR push_bit s (v AND 0x7F)"] s
    show ?thesis
      using True "1.prems"(1) seven_bits [of s v]
      by (subst put_varint.simps) (simp add: Let_def low_byte or.assoc)
  next
    case False
    then have "read_varint_from acc s (put_varint v @ rest)
        = Some (acc OR push_bit s (v AND 0x7F), rest)"
      using "1.prems"(1) by (subst put_varint.simps) (simp add: Let_def low_byte)
    then show ?thesis by (simp only: small_masked [OF False])
  qed
qed

lemma read_put_varint: "read_varint (put_varint v @ rest) = Some (v, rest)"
  using unsigned_less [of v, where 'a = nat] by (simp add: read_varint_def read_put_varint_from)

lemma put_varint_not_Nil [simp]: "put_varint v \<noteq> []"
  by (subst put_varint.simps) simp

text \<open>A longer buffer reads the same; a shorter one waits.\<close>

lemma read_varint_from_more:
  "read_varint_from v s a = Some (x, r) \<Longrightarrow> read_varint_from v s (a @ b) = Some (x, r @ b)"
  by (induction v s a rule: read_varint_from.induct) (auto simp: Let_def split: if_splits)

lemma read_varint_from_rest:
  "read_varint_from v s a = Some (x, r) \<Longrightarrow> \<exists>p. a = p @ r \<and> p \<noteq> []"
proof (induction v s a rule: read_varint_from.induct)
  case (2 v s b bs)
  then show ?case by (fastforce simp: Let_def split: if_splits intro: exI [of _ "[b]"] exI [of _ "b # _"])
qed simp

lemma read_varint_more: "read_varint a = Some (x, r) \<Longrightarrow> read_varint (a @ b) = Some (x, r @ b)"
  by (simp add: read_varint_def read_varint_from_more)

lemma read_varint_rest: "read_varint a = Some (x, r) \<Longrightarrow> \<exists>p. a = p @ r \<and> p \<noteq> []"
  unfolding read_varint_def by (rule read_varint_from_rest)

section \<open>Fields\<close>

definition WIRE_VARINT :: "8 word" where "WIRE_VARINT = 0"
definition WIRE_FIXED64 :: "8 word" where "WIRE_FIXED64 = 1"
definition WIRE_LEN :: "8 word" where "WIRE_LEN = 2"
definition WIRE_FIXED32 :: "8 word" where "WIRE_FIXED32 = 5"

datatype field_value = FUint "64 word" | FBytes bytes

definition put_tag :: "32 word \<Rightarrow> 8 word \<Rightarrow> bytes" where
  "put_tag field wire = put_varint (push_bit 3 (ucast field) OR ucast wire)"

definition put_bytes :: "32 word \<Rightarrow> bytes \<Rightarrow> bytes" where
  "put_bytes field v = put_tag field WIRE_LEN @ put_varint (of_nat (length v)) @ v"

definition put_uint :: "32 word \<Rightarrow> 64 word \<Rightarrow> bytes" where
  "put_uint field v = put_tag field WIRE_VARINT @ put_varint v"

definition put_bool :: "32 word \<Rightarrow> bool \<Rightarrow> bytes" where
  "put_bool field b = put_uint field (if b then 1 else 0)"

text \<open>\<open>get(..n)\<close> and \<open>get(n..)\<close> together.\<close>

definition split_front :: "nat \<Rightarrow> bytes \<Rightarrow> (bytes \<times> bytes) option" where
  "split_front n data = (if n \<le> length data then Some (take n data, drop n data) else None)"

definition le_value :: "bytes \<Rightarrow> nat" where
  "le_value bs = foldr (\<lambda>b acc. unat b + 256 * acc) bs 0"

definition read_tag :: "bytes \<Rightarrow> ((32 word \<times> 8 word) \<times> bytes) option" where
  "read_tag data =
     (case read_varint data of
        None \<Rightarrow> None
      | Some (tag, rest) \<Rightarrow>
          (let field = drop_bit 3 tag
           in if unat field \<le> u32_max \<and> field \<noteq> 0
              then Some ((ucast field, ucast (tag AND 0x07)), rest) else None))"

definition read_value :: "8 word \<Rightarrow> bytes \<Rightarrow> (field_value \<times> bytes) option" where
  "read_value wire data =
     (if wire = WIRE_VARINT then map_option (\<lambda>(v, rest). (FUint v, rest)) (read_varint data)
      else if wire = WIRE_LEN then
        (case read_varint data of
           None \<Rightarrow> None
         | Some (n, rest) \<Rightarrow> map_option (\<lambda>(v, rest'). (FBytes v, rest')) (split_front (unat n) rest))
      else if wire = WIRE_FIXED64 then
        map_option (\<lambda>(v, rest). (FUint (of_nat (le_value v)), rest)) (split_front 8 data)
      else if wire = WIRE_FIXED32 then
        map_option (\<lambda>(v, rest). (FUint (of_nat (le_value v)), rest)) (split_front 4 data)
      else None)"

type_synonym wire_field = "32 word \<times> field_value"

definition read_field :: "bytes \<Rightarrow> (wire_field \<times> bytes) option" where
  "read_field data =
     (case read_tag data of
        None \<Rightarrow> None
      | Some ((field, wire), rest) \<Rightarrow>
          map_option (\<lambda>(v, rest'). ((field, v), rest')) (read_value wire rest))"

lemma split_front_facts:
  "split_front n a = Some (v, r) \<Longrightarrow> a = v @ r \<and> length v = n"
  "split_front n a = Some (v, r) \<Longrightarrow> split_front n (a @ b) = Some (v, r @ b)"
  "split_front (length v) (v @ r) = Some (v, r)"
  by (auto simp: split_front_def split: if_splits)

lemma read_tag_more: "read_tag a = Some (x, r) \<Longrightarrow> read_tag (a @ b) = Some (x, r @ b)"
proof -
  assume r: "read_tag a = Some (x, r)"
  then obtain t where t: "read_varint a = Some (t, r)"
    by (auto simp: read_tag_def Let_def split: option.splits if_splits)
  from r t read_varint_more [OF t, of b] show ?thesis by (simp add: read_tag_def Let_def split: if_splits)
qed

lemma read_tag_rest: "read_tag a = Some (x, r) \<Longrightarrow> \<exists>p. a = p @ r \<and> p \<noteq> []"
  by (auto simp: read_tag_def Let_def dest: read_varint_rest split: option.splits if_splits)

lemma read_value_more:
  assumes r: "read_value w a = Some (x, r)"
  shows "read_value w (a @ b) = Some (x, r @ b)"
proof (cases "w = WIRE_LEN \<and> w \<noteq> WIRE_VARINT")
  case True
  with r obtain n rest v where l: "read_varint a = Some (n, rest)" "split_front (unat n) rest = Some (v, r)"
    by (auto simp: read_value_def split: option.splits)
  from True r l read_varint_more [OF l(1), of b] split_front_facts(2) [OF l(2), of b]
  show ?thesis by (auto simp: read_value_def)
next
  case False
  with r show ?thesis
    by (auto simp: read_value_def dest!: read_varint_more [of a _ _ b] split_front_facts(2) [of _ a _ _ b]
        split: if_splits)
qed

lemma read_value_rest: "read_value w a = Some (x, r) \<Longrightarrow> \<exists>p. a = p @ r"
  by (fastforce simp: read_value_def dest: read_varint_rest split_front_facts(1)
      split: option.splits if_splits)

lemma read_field_more: "read_field a = Some (x, r) \<Longrightarrow> read_field (a @ b) = Some (x, r @ b)"
proof -
  assume r: "read_field a = Some (x, r)"
  then obtain f w rest v where t: "read_tag a = Some ((f, w), rest)" "read_value w rest = Some (v, r)"
    by (auto simp: read_field_def split: option.splits)
  from r t read_tag_more [OF t(1), of b] read_value_more [OF t(2), of b] show ?thesis
    by (simp add: read_field_def)
qed

lemma read_field_rest: "read_field a = Some (x, r) \<Longrightarrow> \<exists>p. a = p @ r \<and> p \<noteq> []"
  by (fastforce simp: read_field_def dest: read_tag_rest read_value_rest split: option.splits)

lemma read_field_shorter: "read_field a = Some (x, r) \<Longrightarrow> length r < length a"
  using read_field_rest [of a x r] by auto

text \<open>\<open>Message::decode\<close> and what it leaves unread.\<close>

function decode_from :: "bytes \<Rightarrow> wire_field list \<times> bytes" where
  "decode_from data =
     (case read_field data of
        None \<Rightarrow> ([], data)
      | Some (f, rest) \<Rightarrow> (case decode_from rest of (fs, left) \<Rightarrow> (f # fs, left)))"
  by auto

termination
  by (relation "measure length") (auto dest: read_field_shorter)

declare decode_from.simps [simp del]

definition decode :: "bytes \<Rightarrow> wire_field list" where
  "decode data = fst (decode_from data)"

definition message_get :: "32 word \<Rightarrow> wire_field list \<Rightarrow> field_value option" where
  "message_get field m = map_option snd (find (\<lambda>f. fst f = field) m)"

definition message_all :: "32 word \<Rightarrow> wire_field list \<Rightarrow> field_value list" where
  "message_all field m = map snd (filter (\<lambda>f. fst f = field) m)"

definition field_bytes :: "field_value \<Rightarrow> bytes option" where
  "field_bytes v = (case v of FBytes b \<Rightarrow> Some b | FUint n \<Rightarrow> None)"

definition message_nested :: "32 word \<Rightarrow> wire_field list \<Rightarrow> wire_field list option" where
  "message_nested field m = map_option decode (Option.bind (message_get field m) field_bytes)"

text \<open>One field as the writers put it.\<close>

fun put_field :: "wire_field \<Rightarrow> bytes" where
  "put_field (field, FUint v) = put_uint field v"
| "put_field (field, FBytes v) = put_bytes field v"

fun field_ok :: "wire_field \<Rightarrow> bool" where
  "field_ok (field, FUint v) = (field \<noteq> 0)"
| "field_ok (field, FBytes v) = (field \<noteq> 0 \<and> length v < 2 ^ 64)"

lemma bit_7: "bit (7 :: int) n \<longleftrightarrow> n < 3"
proof -
  have eq: "(7 :: int) = mask 3" by (simp add: mask_eq_exp_minus_1)
  show ?thesis unfolding eq bit_mask_iff by simp
qed

lemma tag_parts:
  fixes field :: "32 word" and w :: "8 word"
  assumes "w < 8"
  shows "drop_bit 3 (push_bit 3 (ucast field) OR ucast w) = (ucast field :: 64 word)"
    and "ucast ((push_bit 3 (ucast field) OR ucast w :: 64 word) AND 0x07) = w"
proof -
  have "unat w < 2 ^ 3" using assms by (simp add: word_less_nat_alt)
  then have "w = take_bit 3 w"
    by (intro word_unat_eq_iff [THEN iffD2]) (simp add: unsigned_take_bit_eq take_bit_nat_eq_self)
  then have low: "bit w n \<Longrightarrow> n < 3" for n by (metis bit_take_bit_iff)
  show "drop_bit 3 (push_bit 3 (ucast field) OR ucast w) = (ucast field :: 64 word)"
  proof (rule bit_word_eqI)
    fix n
    show "bit (drop_bit 3 (push_bit 3 (ucast field) OR ucast w) :: 64 word) n = bit (ucast field :: 64 word) n"
      using low [of "3 + n"] bit_imp_le_length [of field n] by (auto simp: bit_simps)
  qed
  show "ucast ((push_bit 3 (ucast field) OR ucast w :: 64 word) AND 0x07) = w"
    using low by (intro bit_word_eqI) (auto simp: bit_simps bit_7)
qed

lemma read_put_tag:
  assumes "field \<noteq> 0" "w < 8"
  shows "read_tag (put_tag field w @ rest) = Some ((field, w), rest)"
proof -
  have "unat (ucast field :: 64 word) = unat field"
    by (simp add: unsigned_ucast_eq take_bit_nat_eq_self less_trans [OF unsigned_less [of field, where 'a = nat]])
  moreover have "unat field \<le> u32_max"
    using unsigned_less [of field, where 'a = nat] by (simp add: u32_max_def)
  moreover have "(ucast (ucast field :: 64 word) :: 32 word) = field"
    by (rule bit_word_eqI) (auto simp: bit_simps)
  moreover have "(ucast field :: 64 word) \<noteq> 0"
    using assms(1) calculation(1) by (auto simp: word_unat_eq_iff)
  ultimately show ?thesis
    unfolding read_tag_def put_tag_def read_put_varint option.case prod.case Let_def tag_parts [OF assms(2)]
    by simp
qed

lemma read_put_field: "field_ok f \<Longrightarrow> read_field (put_field f @ rest) = Some (f, rest)"
  by (cases f rule: field_ok.cases)
    (simp_all add: read_field_def put_uint_def put_bytes_def read_put_tag read_value_def WIRE_VARINT_def
      WIRE_LEN_def read_put_varint split_front_facts(3) unat_of_nat take_bit_nat_eq_self)

lemma decode_from_step:
  "decode_from a = (case read_field a of
     None \<Rightarrow> ([], a) | Some (x, r) \<Rightarrow> (x # fst (decode_from r), snd (decode_from r)))"
  by (subst decode_from.simps) (auto split: option.splits prod.splits)

interpretation message: item_codec read_field decode_from put_field field_ok
proof
  show "\<And>a x r. read_field a = Some (x, r) \<Longrightarrow> \<exists>p. a = p @ r \<and> p \<noteq> []" by (rule read_field_rest)
  show "\<And>a x r b. read_field a = Some (x, r) \<Longrightarrow> read_field (a @ b) = Some (x, r @ b)"
    by (rule read_field_more)
qed (rule decode_from_step, rule read_put_field)

section \<open>Connect-RPC frames\<close>

definition HEADER :: nat where "HEADER = 5"

definition FLAG_GZIP :: "8 word" where "FLAG_GZIP = 0x01"
definition FLAG_TRAILER :: "8 word" where "FLAG_TRAILER = 0x02"

definition be_bytes :: "nat \<Rightarrow> bytes" where
  "be_bytes n = map (\<lambda>k. of_nat (n div 256 ^ k mod 256)) [3, 2, 1, 0]"

definition be_value :: "bytes \<Rightarrow> nat" where
  "be_value bs = foldl (\<lambda>acc b. acc * 256 + unat b) 0 bs"

definition put_frame :: "bytes \<Rightarrow> bytes" where
  "put_frame payload = 0 # be_bytes (min (length payload) u32_max) @ payload"

record decoders =
  dc_gunzip :: "bytes \<Rightarrow> bytes option"
  dc_zlib :: "bytes \<Rightarrow> bytes option"
  dc_deflate :: "bytes \<Rightarrow> bytes option"

definition decompress :: "decoders \<Rightarrow> bytes \<Rightarrow> 8 word \<Rightarrow> bytes" where
  "decompress dc payload flags =
     (if flags AND (FLAG_GZIP OR FLAG_TRAILER) = 0 then payload
      else if (case payload of b # bs \<Rightarrow> b = 0x7B | [] \<Rightarrow> False) then payload
      else opt_default payload
             (opt_or (dc_gunzip dc payload) (opt_or (dc_zlib dc payload) (dc_deflate dc payload))))"

record frame =
  fr_flags :: "8 word"
  fr_payload :: bytes

definition is_trailer :: "frame \<Rightarrow> bool" where
  "is_trailer f \<longleftrightarrow> fr_flags f AND FLAG_TRAILER \<noteq> 0"

definition read_frame :: "decoders \<Rightarrow> bytes \<Rightarrow> (frame \<times> bytes) option" where
  "read_frame dc buffer =
     (case split_front HEADER buffer of
        None \<Rightarrow> None
      | Some (header, rest) \<Rightarrow>
          (case split_front (be_value (tl header)) rest of
             None \<Rightarrow> None
           | Some (payload, rest') \<Rightarrow>
               Some (\<lparr>fr_flags = hd header, fr_payload = decompress dc payload (hd header)\<rparr>, rest')))"

lemma read_frame_rest: "read_frame dc a = Some (x, r) \<Longrightarrow> \<exists>p. a = p @ r \<and> p \<noteq> []"
  by (auto simp: read_frame_def HEADER_def dest!: split_front_facts(1) split: option.splits)

lemma read_frame_more:
  assumes "read_frame dc a = Some (x, r)"
  shows "read_frame dc (a @ b) = Some (x, r @ b)"
proof -
  from assms obtain header rest payload where
    f: "split_front HEADER a = Some (header, rest)"
      "split_front (be_value (tl header)) rest = Some (payload, r)"
      "x = \<lparr>fr_flags = hd header, fr_payload = decompress dc payload (hd header)\<rparr>"
    by (auto simp: read_frame_def split: option.splits)
  from f split_front_facts(2) [OF f(1), of b] split_front_facts(2) [OF f(2), of b]
  show ?thesis by (simp add: read_frame_def)
qed

text \<open>The loop of \<open>frames\<close>: the frames and the offset it has reached.\<close>

function frames :: "decoders \<Rightarrow> bytes \<Rightarrow> frame list \<times> nat" where
  "frames dc buffer =
     (case read_frame dc buffer of
        None \<Rightarrow> ([], 0)
      | Some (f, rest) \<Rightarrow>
          (case frames dc rest of (fs, offset) \<Rightarrow> (f # fs, length buffer - length rest + offset)))"
  by auto

termination
  by (relation "measure (\<lambda>(dc, b). length b)") (auto dest: read_frame_rest)

declare frames.simps [simp del]

lemma frames_offset: "snd (frames dc buffer) \<le> length buffer"
proof (induction dc buffer rule: frames.induct)
  case (1 dc buffer)
  then show ?case
    by (subst frames.simps) (fastforce dest: read_frame_rest split: option.splits prod.splits)
qed

definition frames_left :: "decoders \<Rightarrow> bytes \<Rightarrow> frame list \<times> bytes" where
  "frames_left dc buffer = (fst (frames dc buffer), drop (snd (frames dc buffer)) buffer)"

lemma frames_left_step:
  "frames_left dc a = (case read_frame dc a of
     None \<Rightarrow> ([], a) | Some (x, r) \<Rightarrow> (x # fst (frames_left dc r), snd (frames_left dc r)))"
proof (cases "read_frame dc a")
  case None
  then show ?thesis by (subst frames_left_def, subst (1 2) frames.simps) simp
next
  case (Some xr)
  obtain x r where xr: "xr = (x, r)" by (cases xr)
  with Some obtain p where "a = p @ r" using read_frame_rest by blast
  then show ?thesis
    using Some xr by (subst frames_left_def, subst (1 2) frames.simps)
      (simp add: frames_left_def split: prod.splits)
qed

lemma frames_by_left:
  assumes "frames_left dc buffer = (fs, left)"
  shows "frames dc buffer = (fs, length buffer - length left)"
proof -
  have "left = drop (snd (frames dc buffer)) buffer" "fst (frames dc buffer) = fs"
    using assms by (simp_all add: frames_left_def)
  moreover have "snd (frames dc buffer) = length buffer - length (drop (snd (frames dc buffer)) buffer)"
    using frames_offset [of dc buffer] by simp
  ultimately show ?thesis by (metis prod.collapse)
qed

text \<open>What a frame of ours reads as.\<close>

definition sent :: "bytes \<Rightarrow> frame" where "sent payload = \<lparr>fr_flags = 0, fr_payload = payload\<rparr>"

lemma unat_byte: "unat (of_nat (k mod 256) :: 8 word) = k mod 256"
  by (simp add: unat_of_nat)

lemma be_value_bytes:
  assumes "n \<le> u32_max"
  shows "be_value (be_bytes n) = n"
proof -
  define a where "a = n div 256"
  define b where "b = a div 256"
  define c where "c = b div 256"
  have "c < 256" using assms by (simp add: a_def b_def c_def u32_max_def div_mult2_eq [symmetric] less_mult_imp_div_less)
  have "be_bytes n = map of_nat [c mod 256, b mod 256, a mod 256, n mod 256]"
    by (simp add: be_bytes_def a_def b_def c_def div_mult2_eq [symmetric] power3_eq_cube power2_eq_square)
  then have "be_value (be_bytes n) = ((c mod 256 * 256 + b mod 256) * 256 + a mod 256) * 256 + n mod 256"
    by (simp add: be_value_def unat_byte del: of_nat_mod)
  also have "\<dots> = n"
    using \<open>c < 256\<close> div_mult_mod_eq [of b 256] div_mult_mod_eq [of a 256] div_mult_mod_eq [of n 256]
    by (simp add: a_def b_def c_def)
  finally show ?thesis .
qed

lemma read_put_frame:
  assumes "length payload \<le> u32_max"
  shows "read_frame dc (put_frame payload @ rest) = Some (sent payload, rest)"
proof -
  have "split_front HEADER (put_frame payload @ rest)
      = Some (0 # be_bytes (length payload), payload @ rest)"
    using assms by (simp add: split_front_def HEADER_def put_frame_def be_bytes_def)
  then show ?thesis
    using assms split_front_facts(3) [of payload rest]
    by (simp add: read_frame_def be_value_bytes sent_def decompress_def)
qed

interpretation connect: item_codec "read_frame dc" "frames_left dc" "put_frame \<circ> fr_payload"
  "\<lambda>f. f = sent (fr_payload f) \<and> length (fr_payload f) \<le> u32_max" for dc
proof
  show "\<And>a x r. read_frame dc a = Some (x, r) \<Longrightarrow> \<exists>p. a = p @ r \<and> p \<noteq> []" by (rule read_frame_rest)
  show "\<And>a x r b. read_frame dc a = Some (x, r) \<Longrightarrow> read_frame dc (a @ b) = Some (x, r @ b)"
    by (rule read_frame_more)
  show "\<And>x rest. x = sent (fr_payload x) \<and> length (fr_payload x) \<le> u32_max \<Longrightarrow>
      read_frame dc ((put_frame \<circ> fr_payload) x @ rest) = Some (x, rest)"
    by (metis comp_apply read_put_frame)
qed (rule frames_left_step)

section \<open>Properties\<close>

text \<open>C9: Messages survive the wire. Fields written one after another are decoded to exactly those fields,
  in order and repeats included; and when the bytes are cut off after any number of them, the decoder
  returns exactly the fields that arrived whole: all of the longest run of fields that fits, and nothing
  of the one that was cut.\<close>

theorem message_round_trip:
  assumes "list_all field_ok fs"
  shows "decode (concat (map put_field fs)) = fs
    \<and> decode (take n (concat (map put_field fs))) = whole_items put_field n fs"
proof
  show "decode (concat (map put_field fs)) = fs"
    using message.items_put [OF assms, of "[]"] by (simp add: decode_def)
  show "decode (take n (concat (map put_field fs))) = whole_items put_field n fs"
    unfolding decode_def by (rule message.items_cut [OF assms])
qed

theorem message_round_trip_witness:
  "decode (concat (map put_field [(1, FBytes [104, 105]), (2, FUint 300), (2, FUint 0)]))
    = [(1, FBytes [104, 105]), (2, FUint 300), (2, FUint 0)]
   \<and> decode (take 5 (concat (map put_field [(1, FBytes [104, 105]), (2, FUint 300), (2, FUint 0)])))
    = whole_items put_field 5 [(1, FBytes [104, 105]), (2, FUint 300), (2, FUint 0)]"
  using message_round_trip [of "[(1, FBytes [104, 105]), (2, FUint 300), (2, FUint 0)]" 5] by simp

text \<open>How the network cuts a response into reads does not matter. Reading the frames of a first
  chunk, keeping the bytes it did not consume and reading on when more arrive gives the frames and the
  consumed length of the whole buffer, whatever the bytes are; frames of ours come back one for one.\<close>

theorem frames_resume:
  assumes "list_all (\<lambda>p. length p \<le> u32_max) ps"
  shows "frames dc (a @ b) =
      (let (fa, na) = frames dc a; (fb, nb) = frames dc (drop na a @ b) in (fa @ fb, na + nb))
    \<and> frames dc (concat (map put_frame ps)) = (map sent ps, length (concat (map put_frame ps)))"
proof
  obtain fa na where a: "frames dc a = (fa, na)" by (cases "frames dc a")
  obtain fb nb where b: "frames dc (drop na a @ b) = (fb, nb)" by (cases "frames dc (drop na a @ b)")
  have "frames_left dc (a @ b) = (fa @ fb, drop nb (drop na a @ b))"
    using connect.items_append [of dc a b] by (simp add: frames_left_def a b)
  moreover have "na \<le> length a" "nb \<le> length (drop na a @ b)"
    using frames_offset [of dc a] frames_offset [of dc "drop na a @ b"] by (simp_all add: a b)
  ultimately have "frames dc (a @ b) = (fa @ fb, na + nb)"
    by (simp add: frames_by_left)
  then show "frames dc (a @ b) =
      (let (fa, na) = frames dc a; (fb, nb) = frames dc (drop na a @ b) in (fa @ fb, na + nb))"
    by (simp add: a b)
next
  have whole: "frames_left dc [] = ([], [])" by (rule connect.items_Nil)
  have "list_all (\<lambda>f. f = sent (fr_payload f) \<and> length (fr_payload f) \<le> u32_max) (map sent ps)"
    using assms by (simp add: list_all_iff sent_def)
  from connect.items_put [OF this, of dc "[]"]
  have "frames_left dc (concat (map put_frame ps)) = (map sent ps, [])"
    by (simp add: whole comp_def sent_def)
  then show "frames dc (concat (map put_frame ps)) = (map sent ps, length (concat (map put_frame ps)))"
    by (simp add: frames_by_left)
qed

definition no_decoders :: decoders where
  "no_decoders = \<lparr>dc_gunzip = (\<lambda>_. None), dc_zlib = (\<lambda>_. None), dc_deflate = (\<lambda>_. None)\<rparr>"

theorem frames_resume_witness:
  "frames no_decoders (concat (map put_frame [[1, 2], [3]])) = (map sent [[1, 2], [3]], 13)"
proof -
  have "list_all (\<lambda>p. length p \<le> u32_max) [[1, 2 :: 8 word], [3]]" by (simp add: u32_max_def)
  from conjunct2 [OF frames_resume [OF this]] show ?thesis
    by (simp add: put_frame_def be_bytes_def u32_max_def)
qed

end
