(* ===== verification/Child_Output.thy ===== *)
theory Child_Output
  imports Router_Prelude "HOL-Library.Sublist"
begin

text \<open>
  What a supervised child prints (\<open>crates/procctl/src\<close>): the bounded tail that is kept
  (\<open>logring.rs\<close>), the scrubbing of credentials (\<open>secret.rs\<close>) and the rule that reads readiness off
  the lines (\<open>watch_output\<close> of \<open>supervise/engine.rs\<close>).
\<close>

section \<open>Counting matches\<close>

text \<open>\<open>str::matches\<close>, counted: from the left, without overlap, for a needle that is not empty.\<close>

function count_matches :: "string \<Rightarrow> string \<Rightarrow> nat" where
  "count_matches needle s =
     (if s = [] then 0
      else if needle \<noteq> [] \<and> starts_with s needle
      then Suc (count_matches needle (drop (length needle) s))
      else count_matches needle (tl s))"
  by auto

termination
  by (relation "measure (\<lambda>(n, s). length s)") auto

declare count_matches.simps [simp del]

section \<open>The log ring\<close>

record log_ring =
  lr_lines :: "string list"
  lr_capacity :: nat
  lr_max_line :: nat
  lr_dropped :: nat

text \<open>An ellipsis in UTF-8 and the word.\<close>

definition TRUNCATION_MARK :: string where
  "TRUNCATION_MARK = [CHR 0xE2, CHR 0x80, CHR 0xA6] @ ''[truncated]''"

definition ring_new :: "nat \<Rightarrow> nat \<Rightarrow> log_ring" where
  "ring_new capacity max_line = \<lparr>lr_lines = [], lr_capacity = max capacity 1,
     lr_max_line = max max_line (length TRUNCATION_MARK + 1), lr_dropped = 0\<rparr>"

definition is_line_end :: "char \<Rightarrow> bool" where
  "is_line_end c \<longleftrightarrow> c = nl \<or> c = cr"

definition trim_line_end :: "string \<Rightarrow> string" where
  "trim_line_end s = rev (dropWhile is_line_end (rev s))"

text \<open>A byte offset is a boundary at either end and before every byte that starts a character.\<close>

definition is_char_boundary :: "string \<Rightarrow> nat \<Rightarrow> bool" where
  "is_char_boundary s n \<longleftrightarrow> n = 0 \<or> n = length s
     \<or> (n < length s \<and> \<not> (0x80 \<le> (of_char (s ! n) :: nat) \<and> (of_char (s ! n) :: nat) < 0xC0))"

fun boundary_below :: "string \<Rightarrow> nat \<Rightarrow> nat" where
  "boundary_below s 0 = 0"
| "boundary_below s (Suc n) = (if is_char_boundary s (Suc n) then Suc n else boundary_below s n)"

definition stored_line :: "nat \<Rightarrow> string \<Rightarrow> string" where
  "stored_line max_line line =
     (let trimmed = trim_line_end line
      in if length trimmed > max_line
         then take (boundary_below trimmed (max_line - length TRUNCATION_MARK)) trimmed @ TRUNCATION_MARK
         else trimmed)"

definition ring_push :: "string \<Rightarrow> log_ring \<Rightarrow> log_ring" where
  "ring_push line r =
     (let kept = (if length (lr_lines r) = lr_capacity r then tl (lr_lines r) else lr_lines r);
          dropped = (if length (lr_lines r) = lr_capacity r then sat_add64 (lr_dropped r) 1 else lr_dropped r)
      in r\<lparr>lr_lines := kept @ [stored_line (lr_max_line r) line], lr_dropped := dropped\<rparr>)"

definition ring_extend :: "string \<Rightarrow> log_ring \<Rightarrow> log_ring" where
  "ring_extend chunk r = fold ring_push (str_lines chunk) r"

definition ring_tail :: "log_ring \<Rightarrow> string" where
  "ring_tail r = join_with [nl] (lr_lines r)"

definition ring_contains :: "string \<Rightarrow> log_ring \<Rightarrow> bool" where
  "ring_contains needle r \<longleftrightarrow> list_ex (\<lambda>l. str_contains l needle) (lr_lines r)"

definition ring_clear :: "log_ring \<Rightarrow> log_ring" where
  "ring_clear r = r\<lparr>lr_lines := []\<rparr>"

definition ring_ok :: "log_ring \<Rightarrow> bool" where
  "ring_ok r \<longleftrightarrow> 1 \<le> lr_capacity r \<and> length (lr_lines r) \<le> lr_capacity r
     \<and> length TRUNCATION_MARK < lr_max_line r
     \<and> list_all (\<lambda>l. length l \<le> lr_max_line r) (lr_lines r)"

lemma boundary_below_le: "boundary_below s n \<le> n"
  by (induction n) auto

lemma length_stored_line:
  "length TRUNCATION_MARK < m \<Longrightarrow> length (stored_line m line) \<le> m"
  using boundary_below_le [of "trim_line_end line" "m - length TRUNCATION_MARK"]
  by (auto simp: stored_line_def Let_def)

lemma ring_ok_new: "ring_ok (ring_new c m)"
  by (simp add: ring_ok_def ring_new_def)

lemma ring_ok_push: "ring_ok r \<Longrightarrow> ring_ok (ring_push l r)"
  by (cases "lr_lines r") (auto simp: ring_ok_def ring_push_def Let_def length_stored_line list_all_iff)

lemma ring_ok_clear: "ring_ok r \<Longrightarrow> ring_ok (ring_clear r)"
  by (simp add: ring_ok_def ring_clear_def)

lemma ring_push_config [simp]:
  "lr_capacity (ring_push l r) = lr_capacity r" "lr_max_line (ring_push l r) = lr_max_line r"
  by (simp_all add: ring_push_def Let_def)

text \<open>The ring is the tail of everything stored since it was last cleared.\<close>

definition last_of :: "nat \<Rightarrow> 'a list \<Rightarrow> 'a list" where
  "last_of n xs = drop (length xs - n) xs"

lemma last_of_snoc:
  assumes "0 < n"
  shows "last_of n (xs @ [x]) =
     (if length (last_of n xs) = n then tl (last_of n xs) else last_of n xs) @ [x]"
proof (cases "n \<le> length xs")
  case True
  then show ?thesis using assms by (simp add: last_of_def Suc_diff_le drop_Suc tl_drop)
next
  case False
  then show ?thesis by (simp add: last_of_def)
qed

lemma ring_push_last_of:
  assumes "0 < lr_capacity r" "lr_lines r = last_of (lr_capacity r) xs"
  shows "lr_lines (ring_push l r) = last_of (lr_capacity r) (xs @ [stored_line (lr_max_line r) l])"
  using assms(2) last_of_snoc [OF assms(1), of xs "stored_line (lr_max_line r) l"]
  by (simp add: ring_push_def Let_def)

lemma ring_pushes:
  assumes "0 < lr_capacity r" "lr_lines r = last_of (lr_capacity r) xs"
  shows "lr_lines (fold ring_push ls r)
    = last_of (lr_capacity r) (xs @ map (stored_line (lr_max_line r)) ls)"
  using assms
proof (induction ls arbitrary: r xs)
  case (Cons l ls)
  from Cons.IH [of "ring_push l r" "xs @ [stored_line (lr_max_line r) l]"] Cons.prems
  show ?case by (simp add: ring_push_last_of)
qed simp

section \<open>Scrubbing\<close>

definition REDACTED :: string where "REDACTED = ''<redacted>''"
definition MIN_SCRUBBABLE :: nat where "MIN_SCRUBBABLE = 6"

definition scrub_one :: "string \<Rightarrow> string \<Rightarrow> string" where
  "scrub_one v out =
     (if length v \<ge> MIN_SCRUBBABLE \<and> str_contains out v then str_replace v REDACTED out else out)"

definition scrub :: "string \<Rightarrow> string list \<Rightarrow> string" where
  "scrub s secrets = fold scrub_one secrets s"

section \<open>Readiness\<close>

datatype ready_rule =
    Spawned
  | CompletesSuccessfully
  | Occurrences string nat
  | SurvivesOr string nat                 \<comment> \<open>milliseconds\<close>
  | Extract "string \<Rightarrow> string option"

text \<open>
  The watcher after a line: whether it has signalled readiness, with which value, and its match
  count. \<open>None\<close> means not yet; \<open>Some None\<close> is the signal without a value.
\<close>

record watcher =
  wa_signal :: "string option option"
  wa_seen :: nat

definition watch_start :: "ready_rule \<Rightarrow> watcher" where
  "watch_start rule = \<lparr>wa_signal = (case rule of Spawned \<Rightarrow> Some None | _ \<Rightarrow> None), wa_seen = 0\<rparr>"

definition watch_line :: "ready_rule \<Rightarrow> string \<Rightarrow> watcher \<Rightarrow> watcher" where
  "watch_line rule clean w =
     (if wa_signal w \<noteq> None then w
      else case rule of
        Spawned \<Rightarrow> w
      | CompletesSuccessfully \<Rightarrow> w
      | SurvivesOr needle grace \<Rightarrow> if str_contains clean needle then w\<lparr>wa_signal := Some None\<rparr> else w
      | Occurrences needle wanted \<Rightarrow>
          (let seen = wa_seen w + count_matches needle clean
           in if seen \<ge> wanted then w\<lparr>wa_seen := seen, wa_signal := Some None\<rparr> else w\<lparr>wa_seen := seen\<rparr>)
      | Extract f \<Rightarrow> (case f clean of None \<Rightarrow> w | Some v \<Rightarrow> w\<lparr>wa_signal := Some (Some v)\<rparr>))"

text \<open>The watcher's task over the raw lines: what the ring keeps and what it signals.\<close>

definition watch_output :: "ready_rule \<Rightarrow> string list \<Rightarrow> string list \<Rightarrow> log_ring \<Rightarrow> watcher \<times> log_ring" where
  "watch_output rule secrets ls r =
     fold (\<lambda>l (w, r). (watch_line rule (scrub l secrets) w, ring_push (scrub l secrets) r)) ls
       (watch_start rule, r)"

lemma watch_output_ring: "snd (watch_output rule secrets ls r) = fold (\<lambda>l. ring_push (scrub l secrets)) ls r"
proof -
  have "snd (fold (\<lambda>l (w, r). (watch_line rule (scrub l secrets) w, ring_push (scrub l secrets) r)) ls (w, r))
      = fold (\<lambda>l. ring_push (scrub l secrets)) ls r" for w
    by (induction ls arbitrary: w r) auto
  then show ?thesis by (simp add: watch_output_def)
qed

section \<open>Nothing of a credential remains\<close>

text \<open>
  Where an occurrence of a text without angle brackets can lie once matches have been replaced by
  \<open><redacted>\<close>: the brackets fence every replacement.
\<close>

lemma starts_with_Cons: "starts_with (x # s) (y # p) \<longleftrightarrow> x = y \<and> starts_with s p"
  by (auto simp: starts_with_iff)

lemma contains_fence:
  assumes "c \<notin> set v" "str_contains (a @ c # b) v"
  shows "str_contains a v \<or> str_contains b v"
proof -
  from assms(2) obtain p q where pq: "a @ c # b = p @ v @ q" by (auto simp: str_contains_iff)
  show ?thesis
  proof (cases "length (p @ v) \<le> length a")
    case True
    then have "a = p @ v @ drop (length (p @ v)) a"
      using pq by (metis append_assoc append_eq_append_conv_if append_take_drop_id)
    then show ?thesis by (metis str_contains_iff)
  next
    case False
    have "length p > length a"
    proof (rule ccontr)
      assume short: "\<not> length p > length a"
      then have inside: "length a - length p < length v" using False by auto
      have "(a @ c # b) ! length a = v ! (length a - length p)"
        using short inside unfolding pq by (simp add: nth_append)
      then have "c = v ! (length a - length p)" by simp
      with inside assms(1) show False by (auto simp: in_set_conv_nth)
    qed
    then have "b = drop (length a + 1) p @ v @ q"
      using arg_cong [OF pq, of "drop (length a + 1)"] by simp
    then show ?thesis by (metis str_contains_iff)
  qed
qed

lemma str_contains_Cons: "str_contains (x # s) v \<longleftrightarrow> starts_with (x # s) v \<or> str_contains s v"
  by simp

text \<open>The part of the text up to the first match.\<close>

lemma replace_prefix_free:
  assumes "v \<noteq> []" "CHR ''<'' \<notin> set v"
  shows "starts_with (str_replace v REDACTED s) u \<Longrightarrow> CHR ''<'' \<notin> set u \<Longrightarrow> starts_with s u"
proof (induction s arbitrary: u rule: length_induct)
  case (1 s)
  show ?case
  proof (cases u)
    case (Cons y u')
    show ?thesis
    proof (cases "s = [] \<or> starts_with s v")
      case True
      then show ?thesis
      proof
        assume "starts_with s v"
        then have "s \<noteq> []" using assms(1) by (auto simp: starts_with_iff)
        with \<open>starts_with s v\<close> assms(1) "1.prems"(1) have "starts_with (REDACTED @ str_replace v REDACTED (drop (length v) s)) u"
          by (subst (asm) str_replace.simps) simp
        then show ?thesis using "1.prems"(2) Cons by (simp add: REDACTED_def starts_with_Cons)
      qed (use "1.prems"(1) Cons in \<open>simp add: str_replace.simps\<close>)
    next
      case False
      then obtain x s' where s: "s = x # s'" by (cases s) auto
      with False have "str_replace v REDACTED s = x # str_replace v REDACTED s'"
        by (subst str_replace.simps) simp
      with "1.prems" Cons have "x = y" "starts_with (str_replace v REDACTED s') u'"
        by (simp_all add: starts_with_Cons)
      with "1.IH" s "1.prems"(2) Cons show ?thesis by (simp add: starts_with_Cons)
    qed
  qed simp
qed

lemma replaced_free:
  assumes "v \<noteq> []" "CHR ''<'' \<notin> set v" "CHR ''>'' \<notin> set v" "\<not> str_contains ''redacted'' v"
  shows "\<not> str_contains (str_replace v REDACTED s) v"
proof (induction s rule: length_induct)
  case (1 s)
  show ?case
  proof (cases "s = []")
    case True
    then show ?thesis using assms(1) by (cases v) (simp_all add: str_replace.simps starts_with_def)
  next
    case False
    then obtain x s' where s: "s = x # s'" by (cases s) auto
    show ?thesis
    proof (cases "starts_with s v")
      case True
      let ?rest = "str_replace v REDACTED (drop (length v) s)"
      have "str_replace v REDACTED s = [] @ CHR ''<'' # (''redacted'' @ CHR ''>'' # ?rest)"
        using True False assms(1) by (subst str_replace.simps) (simp add: REDACTED_def)
      moreover have "\<not> str_contains ?rest v"
        using "1.IH" False assms(1) by simp
      moreover have "\<not> str_contains [] v" using assms(1) by (cases v) (simp_all add: starts_with_def)
      ultimately show ?thesis
        using assms(4) contains_fence [OF assms(2), of "[]" "''redacted'' @ CHR ''>'' # ?rest"]
          contains_fence [OF assms(3), of "''redacted''" ?rest] by metis
    next
      case no_match: False
      then have eq: "str_replace v REDACTED s = x # str_replace v REDACTED s'"
        using s by (subst str_replace.simps) simp
      have "\<not> starts_with (str_replace v REDACTED s) v"
        using replace_prefix_free [OF assms(1,2), of s v] assms(2) no_match by blast
      then show ?thesis using eq "1.IH" s by (simp add: str_contains_Cons del: str_contains.simps)
    qed
  qed
qed

lemma contains_prefix: "str_contains (take n s) v \<Longrightarrow> str_contains s v"
  by (metis append.assoc append_take_drop_id str_contains_iff)

lemma trim_line_end_take: "\<exists>n. trim_line_end s = take n s"
proof
  have "rev s = takeWhile is_line_end (rev s) @ dropWhile is_line_end (rev s)" by simp
  then have "s = trim_line_end s @ rev (takeWhile is_line_end (rev s))"
    unfolding trim_line_end_def by (metis rev_append rev_rev_ident)
  then show "trim_line_end s = take (length (trim_line_end s)) s" by (metis append_eq_conv_conj)
qed

lemma stored_line_free:
  assumes "\<not> str_contains l v" "CHR 0xE2 \<notin> set v" "\<not> str_contains (tl TRUNCATION_MARK) v"
  shows "\<not> str_contains (stored_line m l) v"
proof -
  obtain n where n: "trim_line_end l = take n l" using trim_line_end_take by blast
  then have trimmed: "\<not> str_contains (trim_line_end l) v" using assms(1) contains_prefix by metis
  have mark: "TRUNCATION_MARK = CHR 0xE2 # tl TRUNCATION_MARK" by (simp add: TRUNCATION_MARK_def)
  have "\<not> str_contains (take k (trim_line_end l) @ TRUNCATION_MARK) v" for k
    using contains_fence [OF assms(2)] contains_prefix trimmed assms(3) by (subst mark) blast
  with trimmed show ?thesis by (simp add: stored_line_def Let_def)
qed

text \<open>A credential that scrubbing can be relied on for.\<close>

definition scrubbable :: "string \<Rightarrow> bool" where
  "scrubbable v \<longleftrightarrow> MIN_SCRUBBABLE \<le> length v \<and> CHR ''<'' \<notin> set v \<and> CHR ''>'' \<notin> set v
     \<and> CHR 0xE2 \<notin> set v \<and> \<not> str_contains ''redacted'' v \<and> \<not> str_contains (tl TRUNCATION_MARK) v"

lemma scrub_one_free: "scrubbable v \<Longrightarrow> \<not> str_contains (scrub_one v s) v"
  using replaced_free [of v s] by (auto simp: scrub_one_def scrubbable_def MIN_SCRUBBABLE_def)

section \<open>Properties\<close>

text \<open>C38: What a child prints is kept bounded and without its credential. After any output the ring holds
  exactly the last lines up to its capacity, each cut to the line limit, and none of them contains the
  credential, if that is at least six bytes of text that no part of the two placeholders repeats.\<close>

theorem child_output_kept_safely:
  assumes "ring_ok r" "lr_lines r = []" "scrubbable v"
  shows "ring_ok (snd (watch_output rule [v] ls r))
    \<and> lr_lines (snd (watch_output rule [v] ls r))
        = last_of (lr_capacity r) (map (\<lambda>l. stored_line (lr_max_line r) (scrub l [v])) ls)
    \<and> (\<forall>l \<in> set (lr_lines (snd (watch_output rule [v] ls r))). \<not> str_contains l v)"
proof -
  have ring: "snd (watch_output rule [v] ls r) = fold ring_push (map (\<lambda>l. scrub l [v]) ls) r"
    by (simp add: watch_output_ring fold_map comp_def)
  have ok: "ring_ok r \<Longrightarrow> ring_ok (fold ring_push xs r)" for xs
    by (induction xs arbitrary: r) (auto simp: ring_ok_push)
  have cap: "0 < lr_capacity r" using assms(1) by (simp add: ring_ok_def)
  have lines: "lr_lines (fold ring_push (map (\<lambda>l. scrub l [v]) ls) r)
      = last_of (lr_capacity r) (map (\<lambda>l. stored_line (lr_max_line r) (scrub l [v])) ls)"
    using ring_pushes [OF cap, of "[]" "map (\<lambda>l. scrub l [v]) ls"] assms(2)
    by (simp add: last_of_def comp_def)
  have "\<not> str_contains (stored_line (lr_max_line r) (scrub l [v])) v" for l
    using stored_line_free scrub_one_free [OF assms(3)] assms(3) by (simp add: scrub_def scrubbable_def)
  then have "\<forall>l \<in> set (last_of (lr_capacity r)
      (map (\<lambda>l. stored_line (lr_max_line r) (scrub l [v])) ls)). \<not> str_contains l v"
    by (auto simp: last_of_def dest!: in_set_dropD)
  with ok assms(1) lines show ?thesis by (simp add: ring)
qed

theorem child_output_kept_safely_witness:
  "\<not> list_ex (\<lambda>l. str_contains l ''s3cr3t-token'')
     (lr_lines (snd (watch_output Spawned [''s3cr3t-token''] [''using s3cr3t-token'', ''ok''] (ring_new 1 4096))))"
proof -
  have safe: "scrubbable ''s3cr3t-token''" by code_simp
  have "lr_lines (ring_new 1 4096) = []" by (simp add: ring_new_def)
  from child_output_kept_safely [OF ring_ok_new this safe] show ?thesis unfolding list_ex_iff by blast
qed

text \<open>With two credentials the order matters: one that starts the other leaves the rest of it.\<close>

lemma scrub_leaves_rest:
  "scrub ''token-abc-secret'' [''token-abc'', ''token-abc-secret''] = ''<redacted>-secret''"
  by code_simp

end
