(* ===== verification/Supervisor.thy ===== *)
theory Supervisor
  imports Child_Output "HOL-Library.Multiset"
begin

text \<open>
  The supervisor of a child process (\<open>crates/procctl/src/supervise.rs\<close> and \<open>supervise/engine.rs\<close>): its
  slot, the view it shares with callers, and one step of its loop per event. What the operating
  system answers within a step (whether a spawn worked, how a child stopped) comes in a record
  \<open>step_env\<close>; times are milliseconds. A start that waits for its answer is a number.

  An event is handled in one step here. The code updates the shared view under one lock after the other
  within an event, and waits in between for a child to stop or its output to drain; a snapshot taken by another task
  in the middle of an event can show a mixture, which is not modelled.
\<close>

section \<open>Policy\<close>

record restart_policy =
  rp_max_attempts :: nat
  rp_backoff :: nat
  rp_max_backoff :: nat
  rp_reset_after :: nat

definition never_restart :: restart_policy where
  "never_restart = \<lparr>rp_max_attempts = 0, rp_backoff = 1000, rp_max_backoff = 1000, rp_reset_after = 60000\<rparr>"

definition resilient :: restart_policy where
  "resilient = \<lparr>rp_max_attempts = 5, rp_backoff = 2000, rp_max_backoff = 60000, rp_reset_after = 120000\<rparr>"

definition delay_for :: "restart_policy \<Rightarrow> nat \<Rightarrow> nat" where
  "delay_for p attempt = min (rp_backoff p * 2 ^ min (attempt - 1) 16) (rp_max_backoff p)"

record child_spec =
  sp_program :: string
  sp_args :: "string list"
  sp_env :: "(string \<times> string) list"
  sp_secrets :: "string list"
  sp_ready :: ready_rule
  sp_startup_timeout :: nat
  sp_graceful_timeout :: nat
  sp_restart :: restart_policy

section \<open>State\<close>

datatype sup_state = Stopped | Starting | Running | Stopping | Backoff | Failed

record shared_view =
  sh_state :: sup_state
  sh_pid :: "nat option"
  sh_ready_value :: "string option"
  sh_started_at :: "nat option"
  sh_restarts :: nat
  sh_last_error :: "string option"
  sh_logs :: log_ring

definition MAX_LOG_LINE :: nat where "MAX_LOG_LINE = 4 * 1024"

definition shared_new :: "nat \<Rightarrow> shared_view" where
  "shared_new log_capacity = \<lparr>sh_state = Stopped, sh_pid = None, sh_ready_value = None,
     sh_started_at = None, sh_restarts = 0, sh_last_error = None,
     sh_logs = ring_new log_capacity MAX_LOG_LINE\<rparr>"

record running =
  ru_pid :: "nat option"
  ru_spec :: child_spec

datatype slot =
    EmptySlot
  | StartingSlot running nat "nat option" bool "nat option" nat
      \<comment> \<open>deadline, survives_at, whether readiness can still arrive, reply, attempt\<close>
  | LiveSlot running
  | BackoffSlot child_spec nat nat         \<comment> \<open>when the restart is due, its attempt\<close>

datatype stop_outcome = NotRunning | Graceful | Forced

datatype exit_status = ExitCode nat | ExitSignal

datatype sup_event =
    AllHandlesGone
  | StartCommand child_spec nat
  | StopCommand nat
  | Exited "exit_status option"
  | Ready "string option"
  | ReadyImpossible
  | DeadlinePassed
  | RestartDue

record step_env =
  se_now :: nat
  se_spawn :: "string + nat option"        \<comment> \<open>the error, or the pid\<close>
  se_reaped :: bool                        \<comment> \<open>the child had already exited when asked\<close>
  se_signalled :: bool                     \<comment> \<open>the termination signal was delivered\<close>
  se_exits_in :: "nat option"              \<comment> \<open>how long the child takes to obey\<close>

datatype answer = StartOk "string option" | StartFailed string | StopDone stop_outcome

section \<open>Parts of a step\<close>

definition mark_stopped :: "shared_view \<Rightarrow> shared_view" where
  "mark_stopped v = v\<lparr>sh_state := Stopped, sh_pid := None, sh_ready_value := None, sh_started_at := None\<rparr>"

definition record_start_failure :: "string \<Rightarrow> shared_view \<Rightarrow> shared_view" where
  "record_start_failure message v = v\<lparr>sh_state := Failed, sh_pid := None, sh_ready_value := None,
     sh_started_at := None, sh_last_error := Some message\<rparr>"

definition tail_of :: "shared_view \<Rightarrow> string" where
  "tail_of v = (let t = ring_tail (sh_logs v)
     in if trim t = [] then ''(the child produced no output)'' else t)"

definition not_ready :: "string \<Rightarrow> nat \<Rightarrow> string \<Rightarrow> string" where
  "not_ready program timeout output = program @ '' did not become ready within '' @ show_nat (timeout div 1000)
     @ ''s and was stopped. Last output:'' @ [nl] @ output"

definition exited_early :: "string \<Rightarrow> string \<Rightarrow> string \<Rightarrow> string" where
  "exited_early program status output =
     program @ '' exited during startup with '' @ status @ ''. Last output:'' @ [nl] @ output"

definition render_status :: "exit_status option \<Rightarrow> string" where
  "render_status status =
     (case status of
        None \<Rightarrow> ''an unreadable status''
      | Some ExitSignal \<Rightarrow> ''a signal''
      | Some (ExitCode n) \<Rightarrow> ''exit code '' @ show_nat n)"

definition begin_child ::
    "string \<Rightarrow> step_env \<Rightarrow> child_spec \<Rightarrow> nat option \<Rightarrow> nat \<Rightarrow> shared_view
     \<Rightarrow> slot \<times> shared_view \<times> (nat \<times> answer) list" where
  "begin_child program en sp reply attempt v =
     (case se_spawn en of
        Inl error \<Rightarrow>
          (let message = program @ '' could not be started: '' @ error
           in (EmptySlot, record_start_failure message v,
               case reply of None \<Rightarrow> [] | Some r \<Rightarrow> [(r, StartFailed message)]))
      | Inr pid \<Rightarrow>
          (StartingSlot \<lparr>ru_pid = pid, ru_spec = sp\<rparr> (se_now en + sp_startup_timeout sp)
             (case sp_ready sp of
                SurvivesOr needle grace \<Rightarrow>
                  Some (se_now en + min grace
                    (sp_startup_timeout sp - max (sp_startup_timeout sp div 10) 1))
              | _ \<Rightarrow> None)
             True reply attempt,
           v\<lparr>sh_state := Starting, sh_pid := pid, sh_ready_value := None, sh_started_at := None\<rparr>, []))"

definition stop_child :: "step_env \<Rightarrow> running \<Rightarrow> stop_outcome" where
  "stop_child en r =
     (if se_reaped en then NotRunning
      else case ru_pid r of
             None \<Rightarrow> NotRunning
           | Some pid \<Rightarrow>
               if \<not> se_signalled en then NotRunning
               else case se_exits_in en of
                      Some t \<Rightarrow> if t \<le> sp_graceful_timeout (ru_spec r) then Graceful else Forced
                    | None \<Rightarrow> Forced)"

definition teardown ::
    "string \<Rightarrow> step_env \<Rightarrow> slot \<Rightarrow> string \<Rightarrow> stop_outcome \<times> (nat \<times> answer) list" where
  "teardown program en s reason =
     (case s of
        EmptySlot \<Rightarrow> (NotRunning, [])
      | BackoffSlot sp at_time attempt \<Rightarrow> (NotRunning, [])
      | LiveSlot r \<Rightarrow> (stop_child en r, [])
      | StartingSlot r deadline survives listening reply attempt \<Rightarrow>
          (stop_child en r,
           case reply of
             None \<Rightarrow> []
           | Some n \<Rightarrow> [(n, StartFailed (not_ready program 0 reason))]))"

definition schedule_restart ::
    "step_env \<Rightarrow> child_spec \<Rightarrow> nat \<Rightarrow> shared_view \<Rightarrow> slot \<times> shared_view" where
  "schedule_restart en sp attempt v =
     (let next = sat_add32 attempt 1;
          v1 = v\<lparr>sh_pid := None, sh_ready_value := None, sh_started_at := None, sh_restarts := attempt\<rparr>
      in if next > rp_max_attempts (sp_restart sp) then
           (EmptySlot, v1\<lparr>sh_state := Failed,
              sh_last_error := (if sh_last_error v1 = None
                then Some ''exited repeatedly and was not restarted'' else sh_last_error v1)\<rparr>)
         else (BackoffSlot sp (se_now en + delay_for (sp_restart sp) next) next,
               v1\<lparr>sh_state := Backoff\<rparr>))"

definition on_ready ::
    "step_env \<Rightarrow> string option \<Rightarrow> slot \<Rightarrow> shared_view \<Rightarrow> slot \<times> shared_view \<times> (nat \<times> answer) list" where
  "on_ready en v s sh =
     (case s of
        StartingSlot r deadline survives listening reply attempt \<Rightarrow>
          (LiveSlot r,
           sh\<lparr>sh_state := Running, sh_ready_value := v, sh_started_at := Some (se_now en),
              sh_restarts := attempt\<rparr>,
           case reply of None \<Rightarrow> [] | Some n \<Rightarrow> [(n, StartOk v)])
      | _ \<Rightarrow> (s, sh, []))"

definition on_deadline ::
    "string \<Rightarrow> slot \<Rightarrow> shared_view \<Rightarrow> slot \<times> shared_view \<times> (nat \<times> answer) list" where
  "on_deadline program s sh =
     (case s of
        StartingSlot r deadline survives listening reply attempt \<Rightarrow>
          (let message = not_ready program (sp_startup_timeout (ru_spec r)) (tail_of sh)
           in (EmptySlot, record_start_failure message sh,
               case reply of None \<Rightarrow> [] | Some n \<Rightarrow> [(n, StartFailed message)]))
      | _ \<Rightarrow> (s, sh, []))"

definition healthy_uptime :: "nat \<Rightarrow> nat \<Rightarrow> shared_view \<Rightarrow> bool" where
  "healthy_uptime now reset_after v =
     (case sh_started_at v of None \<Rightarrow> False | Some since \<Rightarrow> reset_after \<le> now - since)"

definition on_exit ::
    "string \<Rightarrow> step_env \<Rightarrow> exit_status option \<Rightarrow> slot \<Rightarrow> shared_view
     \<Rightarrow> slot \<times> shared_view \<times> (nat \<times> answer) list" where
  "on_exit program en status s sh =
     (case s of
        StartingSlot r deadline survives listening reply attempt \<Rightarrow>
          if status = Some (ExitCode 0) \<and> sp_ready (ru_spec r) = CompletesSuccessfully then
            (EmptySlot, sh\<lparr>sh_state := Stopped, sh_pid := None, sh_started_at := None\<rparr>,
             case reply of None \<Rightarrow> [] | Some n \<Rightarrow> [(n, StartOk None)])
          else
            (let message = exited_early program (render_status status) (tail_of sh);
                 sh1 = record_start_failure message sh
             in case reply of
                  Some n \<Rightarrow> (EmptySlot, sh1, [(n, StartFailed message)])
                | None \<Rightarrow>
                    (case schedule_restart en (ru_spec r) attempt sh1 of (s', sh2) \<Rightarrow> (s', sh2, [])))
      | LiveSlot r \<Rightarrow>
          (let sh1 = sh\<lparr>sh_pid := None, sh_ready_value := None, sh_started_at := None,
                        sh_last_error := Some (''exited unexpectedly with '' @ render_status status)\<rparr>;
               attempt = (if healthy_uptime (se_now en) (rp_reset_after (sp_restart (ru_spec r))) sh1
                          then 0 else sh_restarts sh1)
           in case schedule_restart en (ru_spec r) attempt sh1 of (s', sh2) \<Rightarrow> (s', sh2, []))
      | _ \<Rightarrow> (s, sh, []))"


section \<open>The loop\<close>

text \<open>One turn of the loop: the new slot (none once it has left the loop), the view, the answers sent.\<close>

definition engine_step ::
    "string \<Rightarrow> step_env \<Rightarrow> sup_event \<Rightarrow> slot \<Rightarrow> shared_view
     \<Rightarrow> slot option \<times> shared_view \<times> (nat \<times> answer) list" where
  "engine_step program en ev current v =
     (case ev of
        AllHandlesGone \<Rightarrow>
          (case teardown program en current ''the supervisor is shutting down'' of
             (outcome, sent) \<Rightarrow> (None, mark_stopped v, sent))
      | StartCommand sp reply \<Rightarrow>
          (case teardown program en current ''superseded by a new start'' of
             (outcome, sent) \<Rightarrow>
               (case begin_child program en sp (Some reply) 0
                       (v\<lparr>sh_restarts := 0, sh_last_error := None, sh_logs := ring_clear (sh_logs v)\<rparr>) of
                  (s, v', sent') \<Rightarrow> (Some s, v', sent @ sent')))
      | StopCommand reply \<Rightarrow>
          (case teardown program en current ''stopped on request'' of
             (outcome, sent) \<Rightarrow> (Some EmptySlot, mark_stopped v, sent @ [(reply, StopDone outcome)]))
      | Ready val \<Rightarrow> (case on_ready en val current v of (s, v', sent) \<Rightarrow> (Some s, v', sent))
      | ReadyImpossible \<Rightarrow>
          (case current of
             StartingSlot r deadline survives listening reply attempt \<Rightarrow>
               (Some (StartingSlot r deadline survives False reply attempt), v, [])
           | _ \<Rightarrow> (Some current, v, []))
      | DeadlinePassed \<Rightarrow> (case on_deadline program current v of (s, v', sent) \<Rightarrow> (Some s, v', sent))
      | Exited status \<Rightarrow> (case on_exit program en status current v of (s, v', sent) \<Rightarrow> (Some s, v', sent))
      | RestartDue \<Rightarrow>
          (case current of
             BackoffSlot sp due attempt \<Rightarrow>
               (case begin_child program en sp None attempt v of (s, v', sent) \<Rightarrow> (Some s, v', sent))
           | _ \<Rightarrow> (Some EmptySlot, v, [])))"

text \<open>The events a slot waits for, at a moment of the clock.\<close>

definition can_occur :: "nat \<Rightarrow> slot \<Rightarrow> sup_event \<Rightarrow> bool" where
  "can_occur now s ev =
     (case ev of
        AllHandlesGone \<Rightarrow> True
      | StartCommand sp reply \<Rightarrow> True
      | StopCommand reply \<Rightarrow> True
      | Exited status \<Rightarrow>
          (case s of StartingSlot r deadline survives listening reply attempt \<Rightarrow> True
                   | LiveSlot r \<Rightarrow> True | _ \<Rightarrow> False)
      | Ready val \<Rightarrow>
          (case s of
             StartingSlot r deadline survives listening reply attempt \<Rightarrow>
               listening \<or> (val = None \<and> (case survives of None \<Rightarrow> False | Some t \<Rightarrow> t \<le> now))
           | _ \<Rightarrow> False)
      | ReadyImpossible \<Rightarrow>
          (case s of StartingSlot r deadline survives listening reply attempt \<Rightarrow> listening | _ \<Rightarrow> False)
      | DeadlinePassed \<Rightarrow>
          (case s of StartingSlot r deadline survives listening reply attempt \<Rightarrow> deadline \<le> now | _ \<Rightarrow> False)
      | RestartDue \<Rightarrow> (case s of BackoffSlot sp due attempt \<Rightarrow> due \<le> now | _ \<Rightarrow> False))"

text \<open>
  A supervisor with what it was asked and what it has done: the commands received, the answers sent,
  the number of attempts to spawn. The watcher of the child's output writes the log ring between
  the turns of the loop.
\<close>

record supervisor =
  sv_slot :: "slot option"
  sv_view :: shared_view
  sv_now :: nat
  sv_commands :: "sup_event list"
  sv_answers :: "(nat \<times> answer) list"
  sv_spawns :: nat

definition supervisor_new :: "nat \<Rightarrow> supervisor" where
  "supervisor_new log_capacity = \<lparr>sv_slot = Some EmptySlot, sv_view = shared_new log_capacity, sv_now = 0,
     sv_commands = [], sv_answers = [], sv_spawns = 0\<rparr>"

definition is_command :: "sup_event \<Rightarrow> bool" where
  "is_command ev = (case ev of StartCommand sp reply \<Rightarrow> True | StopCommand reply \<Rightarrow> True | _ \<Rightarrow> False)"

definition spawns_child :: "sup_event \<Rightarrow> bool" where
  "spawns_child ev = (case ev of StartCommand sp reply \<Rightarrow> True | RestartDue \<Rightarrow> True | _ \<Rightarrow> False)"

definition turn :: "string \<Rightarrow> step_env \<Rightarrow> sup_event \<Rightarrow> supervisor \<Rightarrow> supervisor" where
  "turn program en ev s =
     (case sv_slot s of
        None \<Rightarrow> s
      | Some current \<Rightarrow>
          (case engine_step program en ev current (sv_view s) of
             (s', v', sent) \<Rightarrow>
               \<lparr>sv_slot = s', sv_view = v', sv_now = se_now en,
                sv_commands = sv_commands s @ (if is_command ev then [ev] else []),
                sv_answers = sv_answers s @ sent,
                sv_spawns = sv_spawns s + (if spawns_child ev then 1 else 0)\<rparr>))"

inductive sup_step :: "string \<Rightarrow> supervisor \<Rightarrow> supervisor \<Rightarrow> bool" for program where
  loop_turn: "sv_slot s = Some current \<Longrightarrow> sv_now s \<le> se_now en \<Longrightarrow> can_occur (se_now en) current ev
    \<Longrightarrow> sup_step program s (turn program en ev s)"
| output_line: "sup_step program s
    (s\<lparr>sv_view := (sv_view s)\<lparr>sh_logs := ring_push line (sh_logs (sv_view s))\<rparr>\<rparr>)"

inductive sup_reachable :: "string \<Rightarrow> nat \<Rightarrow> supervisor \<Rightarrow> bool" for program log_capacity where
  init: "sup_reachable program log_capacity (supervisor_new log_capacity)"
| step: "sup_reachable program log_capacity s \<Longrightarrow> sup_step program s s'
    \<Longrightarrow> sup_reachable program log_capacity s'"

inductive_cases sup_stepE: "sup_step program s s'"

section \<open>The view agrees with the slot\<close>

definition nothing_runs :: "shared_view \<Rightarrow> bool" where
  "nothing_runs v \<longleftrightarrow> sh_pid v = None \<and> sh_ready_value v = None \<and> sh_started_at v = None"

fun agrees :: "slot option \<Rightarrow> shared_view \<Rightarrow> bool" where
  "agrees None v \<longleftrightarrow> sh_state v = Stopped \<and> nothing_runs v"
| "agrees (Some EmptySlot) v \<longleftrightarrow>
     (sh_state v = Stopped \<or> sh_state v = Failed \<and> sh_last_error v \<noteq> None) \<and> nothing_runs v"
| "agrees (Some (StartingSlot r deadline survives listening reply attempt)) v \<longleftrightarrow>
     sh_state v = Starting \<and> sh_pid v = ru_pid r \<and> sh_ready_value v = None \<and> sh_started_at v = None
     \<and> (reply = None \<longleftrightarrow> 0 < attempt) \<and> attempt \<le> rp_max_attempts (sp_restart (ru_spec r))"
| "agrees (Some (LiveSlot r)) v \<longleftrightarrow>
     sh_state v = Running \<and> sh_pid v = ru_pid r \<and> sh_started_at v \<noteq> None
     \<and> sh_restarts v \<le> rp_max_attempts (sp_restart (ru_spec r))"
| "agrees (Some (BackoffSlot sp due attempt)) v \<longleftrightarrow>
     sh_state v = Backoff \<and> nothing_runs v \<and> 0 < attempt
     \<and> attempt \<le> rp_max_attempts (sp_restart sp)"

lemmas engine_parts = mark_stopped_def record_start_failure_def begin_child_def teardown_def
  schedule_restart_def on_ready_def on_deadline_def on_exit_def healthy_uptime_def nothing_runs_def Let_def

lemma begin_child_agrees:
  assumes "begin_child program en sp reply attempt v = (s, v', sent)"
    and "reply = None \<longleftrightarrow> 0 < attempt" and "attempt \<le> rp_max_attempts (sp_restart sp)"
  shows "agrees (Some s) v'"
  using assms by (auto simp: engine_parts split: sum.splits)

lemma schedule_restart_agrees:
  "schedule_restart en sp attempt v = (s, v') \<Longrightarrow> agrees (Some s) v'"
  by (auto simp: engine_parts Let_def sat_add32_def u32_max_def split: if_splits)

lemma mark_stopped_stops [simp]: "sh_state (mark_stopped v) = Stopped" "nothing_runs (mark_stopped v)"
  by (simp_all add: engine_parts)

lemma on_exit_agrees:
  assumes "on_exit program en status s v = (s', v', sent)" "agrees (Some s) v"
  shows "agrees (Some s') v'"
proof (cases s)
  case (StartingSlot r deadline survives listening reply attempt)
  with assms show ?thesis
    by (auto simp: on_exit_def Let_def record_start_failure_def nothing_runs_def
        split: if_splits option.splits prod.splits intro: schedule_restart_agrees)
next
  case (LiveSlot r)
  with assms show ?thesis
    by (auto simp: on_exit_def Let_def split: prod.splits intro: schedule_restart_agrees)
qed (use assms in \<open>auto simp: on_exit_def\<close>)

lemma engine_step_agrees:
  assumes "engine_step program en ev s v = (s', v', sent)" "agrees (Some s) v" "can_occur now s ev"
  shows "agrees s' v'"
proof (cases ev)
  case (StartCommand sp reply)
  with assms(1) show ?thesis
    by (auto simp: engine_step_def split: prod.splits intro: begin_child_agrees)
next
  case (Exited status)
  with assms show ?thesis by (auto simp: engine_step_def split: prod.splits intro: on_exit_agrees)
next
  case RestartDue
  with assms show ?thesis
    by (auto simp: engine_step_def can_occur_def split: prod.splits slot.splits intro: begin_child_agrees)
next
  case (Ready val)
  with assms show ?thesis
    by (cases s) (auto simp: engine_step_def can_occur_def on_ready_def split: prod.splits)
next
  case DeadlinePassed
  with assms show ?thesis
    by (cases s) (auto simp: engine_step_def can_occur_def on_deadline_def record_start_failure_def
        nothing_runs_def Let_def split: prod.splits)
next
  case ReadyImpossible
  with assms show ?thesis by (cases s) (auto simp: engine_step_def can_occur_def)
qed (use assms in \<open>auto simp: engine_step_def split: prod.splits\<close>)

lemma agrees_logs [simp]: "agrees s (v\<lparr>sh_logs := l\<rparr>) = agrees s v"
  by (cases "(s, v)" rule: agrees.cases) (auto simp: nothing_runs_def)

lemma sup_step_agrees:
  assumes "sup_step program s s'" "agrees (sv_slot s) (sv_view s)"
  shows "agrees (sv_slot s') (sv_view s')"
  using assms
  by (cases rule: sup_step.cases) (auto simp: turn_def split: prod.splits intro: engine_step_agrees)

lemma reachable_agrees:
  "sup_reachable program log_capacity s \<Longrightarrow> agrees (sv_slot s) (sv_view s)"
  by (induction rule: sup_reachable.induct)
     (auto simp: supervisor_new_def shared_new_def nothing_runs_def intro: sup_step_agrees)

section \<open>The commands are answered\<close>

definition asked :: "sup_event list \<Rightarrow> nat list" where
  "asked cs = List.map_filter (\<lambda>ev. case ev of StartCommand sp r \<Rightarrow> Some r | StopCommand r \<Rightarrow> Some r | _ \<Rightarrow> None) cs"

definition waiting :: "slot option \<Rightarrow> nat list" where
  "waiting s = (case s of Some (StartingSlot r deadline survives listening (Some n) attempt) \<Rightarrow> [n] | _ \<Rightarrow> [])"

lemma asked_append [simp]: "asked (xs @ ys) = asked xs @ asked ys"
  by (simp add: asked_def map_filter_def)

lemma asked_simps [simp]: "asked [] = []" "asked [StartCommand sp r] = [r]" "asked [StopCommand r] = [r]"
  by (simp_all add: asked_def map_filter_def)

lemma begin_child_answers:
  "begin_child program en sp reply attempt v = (s, v', sent)
   \<Longrightarrow> map fst sent @ waiting (Some s) = (case reply of None \<Rightarrow> [] | Some r \<Rightarrow> [r])"
  by (auto simp: begin_child_def waiting_def Let_def split: sum.splits option.splits)

lemma teardown_answers:
  "teardown program en s reason = (outcome, sent) \<Longrightarrow> map fst sent = waiting (Some s)"
  by (auto simp: teardown_def waiting_def split: slot.splits option.splits)

lemma teardown_answers_mset:
  "teardown program en s reason = (outcome, sent) \<Longrightarrow> image_mset fst (mset sent) = mset (waiting (Some s))"
  by (metis teardown_answers mset_map)

lemma schedule_restart_waits_for_none [simp]:
  "schedule_restart en sp attempt v = (s, v') \<Longrightarrow> waiting (Some s) = []"
  by (auto simp: schedule_restart_def waiting_def Let_def split: if_splits)

lemma engine_step_answers:
  assumes "engine_step program en ev s v = (s', v', sent)" "can_occur now s ev"
  shows "mset (map fst sent) + mset (waiting s') =
         mset (waiting (Some s)) + mset (asked (if is_command ev then [ev] else []))"
proof (cases ev)
  case (StartCommand sp reply)
  obtain o1 sent1 where t: "teardown program en s ''superseded by a new start'' = (o1, sent1)" by fastforce
  obtain s2 v2 sent2 where b: "begin_child program en sp (Some reply) 0
      (v\<lparr>sh_restarts := 0, sh_last_error := None, sh_logs := ring_clear (sh_logs v)\<rparr>) = (s2, v2, sent2)"
    using prod_cases3 by blast
  have "sent = sent1 @ sent2" "s' = Some s2"
    using assms(1) by (auto simp: engine_step_def StartCommand t b)
  then have "map fst sent @ waiting s' = waiting (Some s) @ [reply]"
    using teardown_answers [OF t] begin_child_answers [OF b] by simp
  then have "mset (map fst sent) + mset (waiting s') = mset (waiting (Some s)) + {#reply#}"
    by (metis mset.simps mset_append)
  then show ?thesis by (simp add: StartCommand is_command_def)
next
  case (StopCommand reply)
  with assms(1) show ?thesis
    by (auto simp: engine_step_def is_command_def waiting_def [of "Some EmptySlot"]
        dest!: teardown_answers_mset split: prod.splits)
next
  case AllHandlesGone
  with assms(1) show ?thesis
    by (auto simp: engine_step_def is_command_def waiting_def [of None]
        dest!: teardown_answers_mset split: prod.splits)
next
  case (Exited status)
  with assms show ?thesis
    by (cases s) (auto simp: engine_step_def can_occur_def on_exit_def is_command_def waiting_def
        schedule_restart_def Let_def split: prod.splits option.splits if_splits)
next
  case RestartDue
  with assms show ?thesis
    by (auto simp: engine_step_def can_occur_def is_command_def waiting_def [of "Some (BackoffSlot x y z)" for x y z]
        split: prod.splits slot.splits dest!: begin_child_answers)
next
  case (Ready val)
  with assms show ?thesis
    by (cases s) (auto simp: engine_step_def can_occur_def on_ready_def is_command_def waiting_def
        split: prod.splits option.splits)
next
  case DeadlinePassed
  with assms show ?thesis
    by (cases s) (auto simp: engine_step_def can_occur_def on_deadline_def is_command_def waiting_def
        Let_def split: prod.splits option.splits)
next
  case ReadyImpossible
  with assms show ?thesis
    by (cases s) (auto simp: engine_step_def can_occur_def is_command_def waiting_def split: option.splits)
qed

lemma turn_answers:
  assumes "sv_slot s = Some current" "can_occur now current ev"
  shows "mset (map fst (sv_answers (turn program en ev s))) + mset (waiting (sv_slot (turn program en ev s)))
      + mset (asked (sv_commands s)) =
      mset (map fst (sv_answers s)) + mset (waiting (sv_slot s)) + mset (asked (sv_commands (turn program en ev s)))"
proof -
  obtain s' v' sent where step: "engine_step program en ev current (sv_view s) = (s', v', sent)"
    using prod_cases3 by blast
  show ?thesis using engine_step_answers [OF step assms(2)]
    by (simp add: turn_def assms(1) step)
qed

lemma reachable_answers:
  "sup_reachable program log_capacity s \<Longrightarrow>
     mset (map fst (sv_answers s)) + mset (waiting (sv_slot s)) = mset (asked (sv_commands s))"
proof (induction rule: sup_reachable.induct)
  case init
  then show ?case by (simp add: supervisor_new_def waiting_def)
next
  case (step s s')
  from step.hyps(2) show ?case
  proof (cases rule: sup_step.cases)
    case (loop_turn current en ev)
    then show ?thesis using turn_answers [OF loop_turn(2,4), of program] step.IH by simp
  next
    case (output_line line)
    then show ?thesis using step.IH by simp
  qed
qed

section \<open>Restarts are bounded\<close>

text \<open>How many more children a slot can still spawn by itself.\<close>

definition restarts_left :: "slot option \<Rightarrow> shared_view \<Rightarrow> nat" where
  "restarts_left s v =
     (case s of
        Some (StartingSlot r deadline survives listening reply attempt) \<Rightarrow>
          rp_max_attempts (sp_restart (ru_spec r)) - attempt
      | Some (LiveSlot r) \<Rightarrow> rp_max_attempts (sp_restart (ru_spec r)) - sh_restarts v
      | Some (BackoffSlot sp due attempt) \<Rightarrow> rp_max_attempts (sp_restart sp) + 1 - attempt
      | _ \<Rightarrow> 0)"

definition starts :: "sup_event list \<Rightarrow> child_spec list" where
  "starts cs = List.map_filter (\<lambda>ev. case ev of StartCommand sp r \<Rightarrow> Some sp | _ \<Rightarrow> None) cs"

lemma starts_append [simp]: "starts (xs @ ys) = starts xs @ starts ys"
  by (simp add: starts_def map_filter_def)

definition children_allowed :: "child_spec list \<Rightarrow> nat" where
  "children_allowed sps = (\<Sum>sp\<leftarrow>sps. 1 + rp_max_attempts (sp_restart sp))"

lemma starts_simps [simp]:
  "starts [] = []" "starts [StartCommand sp r] = [sp]" "starts [StopCommand r] = []"
  by (simp_all add: starts_def map_filter_def)

lemma children_allowed_simps [simp]:
  "children_allowed [] = 0" "children_allowed (sp # sps) = 1 + rp_max_attempts (sp_restart sp) + children_allowed sps"
  "children_allowed (xs @ ys) = children_allowed xs + children_allowed ys"
  by (simp_all add: children_allowed_def)

definition slot_spec :: "slot option \<Rightarrow> child_spec list" where
  "slot_spec s =
     (case s of
        Some (StartingSlot r deadline survives listening reply attempt) \<Rightarrow> [ru_spec r]
      | Some (LiveSlot r) \<Rightarrow> [ru_spec r]
      | Some (BackoffSlot sp due attempt) \<Rightarrow> [sp]
      | _ \<Rightarrow> [])"

lemmas slot_views = restarts_left_def slot_spec_def is_command_def spawns_child_def

lemma begin_child_budget:
  assumes "begin_child program en sp reply attempt v = (s, v', sent)"
  shows "restarts_left (Some s) v' \<le> rp_max_attempts (sp_restart sp) - attempt"
    "set (slot_spec (Some s)) \<subseteq> {sp}"
  using assms by (auto simp: begin_child_def slot_views Let_def split: sum.splits)

lemma schedule_restart_budget:
  assumes "schedule_restart en sp attempt v = (s, v')" "rp_max_attempts (sp_restart sp) < u32_max"
  shows "restarts_left (Some s) v' \<le> rp_max_attempts (sp_restart sp) - attempt"
    "set (slot_spec (Some s)) \<subseteq> {sp}"
  using assms by (auto simp: schedule_restart_def slot_views Let_def sat_add32_def split: if_splits)

lemma live_exit:
  "on_exit program en status (LiveSlot r) v =
     (case schedule_restart en (ru_spec r) (sh_restarts v)
        (v\<lparr>sh_pid := None, sh_ready_value := None, sh_started_at := None,
           sh_last_error := Some (''exited unexpectedly with '' @ render_status status)\<rparr>) of
        (s, v') \<Rightarrow> (s, v', []))"
  by (simp add: on_exit_def healthy_uptime_def)

lemma on_exit_budget:
  assumes "on_exit program en status s v = (s', v', sent)"
    and "\<forall>sp \<in> set (slot_spec (Some s)). rp_max_attempts (sp_restart sp) < u32_max"
  shows "restarts_left (Some s') v' \<le> restarts_left (Some s) v
    \<and> set (slot_spec (Some s')) \<subseteq> set (slot_spec (Some s))"
proof (cases s)
  case (StartingSlot r deadline survives listening reply attempt)
  then have spec: "slot_spec (Some s) = [ru_spec r]" and bound: "rp_max_attempts (sp_restart (ru_spec r)) < u32_max"
    using assms(2) by (auto simp: slot_spec_def)
  consider "restarts_left (Some s') v' = 0" "slot_spec (Some s') = []"
    | v1 where "schedule_restart en (ru_spec r) attempt v1 = (s', v')"
    using assms(1) by (auto simp: StartingSlot on_exit_def slot_views Let_def
        split: if_splits option.splits prod.splits)
  then show ?thesis
    using schedule_restart_budget [OF _ bound] spec by (cases) (auto simp: StartingSlot slot_views)
next
  case (LiveSlot r)
  then have "rp_max_attempts (sp_restart (ru_spec r)) < u32_max"
    using assms(2) by (auto simp: slot_spec_def)
  from schedule_restart_budget [OF _ this] assms(1) show ?thesis
    by (auto simp: LiveSlot live_exit slot_views split: prod.splits)
qed (use assms in \<open>auto simp: on_exit_def\<close>)

lemma engine_step_budget:
  assumes "engine_step program en ev s v = (s', v', sent)" "agrees (Some s) v" "can_occur now s ev"
    and "\<forall>sp \<in> set (slot_spec (Some s)). rp_max_attempts (sp_restart sp) < u32_max"
  shows "(if spawns_child ev then 1 else 0) + restarts_left s' v'
      \<le> restarts_left (Some s) v + children_allowed (starts (if is_command ev then [ev] else []))
    \<and> set (slot_spec s') \<subseteq> set (slot_spec (Some s)) \<union> set (starts (if is_command ev then [ev] else []))"
proof (cases ev)
  case (StartCommand sp reply)
  then obtain s2 v2 sent2 where "s' = Some s2" "begin_child program en sp (Some reply) 0 v2 = (s2, v', sent2)"
    using assms(1) by (auto simp: engine_step_def split: prod.splits)
  with begin_child_budget show ?thesis
    by (fastforce simp: StartCommand is_command_def spawns_child_def)
next
  case (Exited status)
  then obtain s2 where "s' = Some s2" "on_exit program en status s v = (s2, v', sent)"
    using assms(1) by (auto simp: engine_step_def split: prod.splits)
  with on_exit_budget assms(4) show ?thesis
    by (fastforce simp: Exited is_command_def spawns_child_def)
next
  case RestartDue
  then obtain sp due attempt where s: "s = BackoffSlot sp due attempt"
    using assms(3) by (auto simp: can_occur_def split: slot.splits)
  then obtain s2 where "s' = Some s2" "begin_child program en sp None attempt v = (s2, v', sent)"
    using assms(1) by (auto simp: RestartDue engine_step_def split: prod.splits)
  with begin_child_budget [of program en sp None attempt v s2 v' sent] assms(2) show ?thesis
    by (auto simp: RestartDue s slot_views)
next
  case (Ready val)
  with assms show ?thesis
    by (cases s) (auto simp: engine_step_def can_occur_def on_ready_def slot_views split: prod.splits)
next
  case DeadlinePassed
  with assms show ?thesis
    by (cases s) (auto simp: engine_step_def can_occur_def on_deadline_def slot_views Let_def split: prod.splits)
next
  case ReadyImpossible
  with assms show ?thesis by (cases s) (auto simp: engine_step_def can_occur_def slot_views)
qed (use assms in \<open>auto simp: engine_step_def slot_views split: prod.splits\<close>)

definition budget_kept :: "supervisor \<Rightarrow> bool" where
  "budget_kept s \<longleftrightarrow> sv_spawns s + restarts_left (sv_slot s) (sv_view s) \<le> children_allowed (starts (sv_commands s))
     \<and> set (slot_spec (sv_slot s)) \<subseteq> set (starts (sv_commands s))"

lemma turn_budget:
  assumes "sv_slot s = Some current" "can_occur now current ev" "agrees (sv_slot s) (sv_view s)"
    and "\<forall>sp \<in> set (starts (sv_commands s)). rp_max_attempts (sp_restart sp) < u32_max" "budget_kept s"
  shows "budget_kept (turn program en ev s)"
proof -
  obtain s' v' sent where step: "engine_step program en ev current (sv_view s) = (s', v', sent)"
    using prod_cases3 by blast
  have "\<forall>sp \<in> set (slot_spec (Some current)). rp_max_attempts (sp_restart sp) < u32_max"
    using assms(1,4,5) by (auto simp: budget_kept_def)
  from engine_step_budget [OF step _ assms(2) this] assms(1,3,5) show ?thesis
    by (auto simp: turn_def step budget_kept_def)
qed

lemma restarts_left_logs [simp]: "restarts_left s (v\<lparr>sh_logs := l\<rparr>) = restarts_left s v"
  by (simp add: restarts_left_def split: option.splits slot.splits)

lemma reachable_budget:
  assumes "sup_reachable program log_capacity s"
    and "\<forall>sp \<in> set (starts (sv_commands s)). rp_max_attempts (sp_restart sp) < u32_max"
  shows "budget_kept s"
  using assms
proof (induction rule: sup_reachable.induct)
  case init
  then show ?case by (simp add: supervisor_new_def budget_kept_def slot_views)
next
  case (step s s')
  from step.hyps(2) show ?case
  proof (cases rule: sup_step.cases)
    case (loop_turn current en ev)
    obtain s2 v2 sent where e: "engine_step program en ev current (sv_view s) = (s2, v2, sent)"
      using prod_cases3 by blast
    have known: "\<forall>sp \<in> set (starts (sv_commands s)). rp_max_attempts (sp_restart sp) < u32_max"
      using step.prems by (auto simp: loop_turn turn_def e)
    show ?thesis unfolding loop_turn(1)
      by (rule turn_budget [OF loop_turn(2,4) reachable_agrees [OF step.hyps(1)] known step.IH [OF known]])
  next
    case (output_line line)
    then show ?thesis using step.IH step.prems by (simp add: budget_kept_def)
  qed
qed

section \<open>What callers see\<close>

record sup_snapshot =
  sn_state :: sup_state
  sn_pid :: "nat option"
  sn_ready_value :: "string option"
  sn_uptime :: "nat option"
  sn_restarts :: nat
  sn_last_error :: "string option"
  sn_logs :: "string list"
  sn_dropped_logs :: nat

definition sup_snapshot_of :: "nat \<Rightarrow> shared_view \<Rightarrow> sup_snapshot" where
  "sup_snapshot_of now v = \<lparr>sn_state = sh_state v, sn_pid = sh_pid v, sn_ready_value = sh_ready_value v,
     sn_uptime = map_option (\<lambda>since. now - since) (sh_started_at v), sn_restarts = sh_restarts v,
     sn_last_error = sh_last_error v, sn_logs = lr_lines (sh_logs v), sn_dropped_logs = lr_dropped (sh_logs v)\<rparr>"

definition sn_is_running :: "sup_snapshot \<Rightarrow> bool" where
  "sn_is_running n \<longleftrightarrow> sn_state n = Running"

text \<open>The child a slot holds.\<close>

definition held :: "slot option \<Rightarrow> running option" where
  "held s =
     (case s of
        Some (StartingSlot r deadline survives listening reply attempt) \<Rightarrow> Some r
      | Some (LiveSlot r) \<Rightarrow> Some r
      | _ \<Rightarrow> None)"

definition snapshot_truthful :: "slot option \<Rightarrow> sup_snapshot \<Rightarrow> bool" where
  "snapshot_truthful s n \<longleftrightarrow>
     (sn_is_running n \<longleftrightarrow> (\<exists>r. s = Some (LiveSlot r))) \<and>
     sn_pid n = (case held s of None \<Rightarrow> None | Some r \<Rightarrow> ru_pid r) \<and>
     (sn_uptime n \<noteq> None \<longleftrightarrow> sn_is_running n) \<and>
     (sn_ready_value n \<noteq> None \<longrightarrow> sn_is_running n) \<and>
     (sn_state n = Failed \<longrightarrow> sn_last_error n \<noteq> None \<and> held s = None) \<and>
     sn_state n \<noteq> Stopping"

lemma agrees_truthful: "agrees s v \<Longrightarrow> snapshot_truthful s (sup_snapshot_of now v)"
  by (cases "(s, v)" rule: agrees.cases)
     (auto simp: snapshot_truthful_def sup_snapshot_of_def sn_is_running_def held_def nothing_runs_def)

definition supervisor_start :: "string \<Rightarrow> nat \<Rightarrow> supervisor \<Rightarrow> string + string option" where
  "supervisor_start program reply s =
     (case map_of (sv_answers s) reply of
        Some (StartOk v) \<Rightarrow> Inr v
      | Some (StartFailed message) \<Rightarrow> Inl message
      | _ \<Rightarrow> Inl (''the supervisor for '' @ program @ '' is no longer running''))"

definition supervisor_stop :: "nat \<Rightarrow> supervisor \<Rightarrow> stop_outcome" where
  "supervisor_stop reply s =
     (case map_of (sv_answers s) reply of Some (StopDone outcome) \<Rightarrow> outcome | _ \<Rightarrow> NotRunning)"

section \<open>An example run\<close>

definition sample_spec :: child_spec where
  "sample_spec = \<lparr>sp_program = ''cloudflared'', sp_args = [''tunnel''], sp_env = [], sp_secrets = [],
     sp_ready = Occurrences ''Registered tunnel connection'' 1, sp_startup_timeout = 90000,
     sp_graceful_timeout = 5000, sp_restart = resilient\<rparr>"

definition sample_env :: "nat \<Rightarrow> step_env" where
  "sample_env now = \<lparr>se_now = now, se_spawn = Inr (Some (100 + now)), se_reaped = False, se_signalled = True,
     se_exits_in = Some 10\<rparr>"

fun sample_run :: "(nat \<times> sup_event) list \<Rightarrow> supervisor \<Rightarrow> supervisor option" where
  "sample_run [] s = Some s"
| "sample_run ((now, ev) # evs) s =
     (case sv_slot s of
        None \<Rightarrow> None
      | Some current \<Rightarrow>
          if sv_now s \<le> now \<and> can_occur now current ev then
            sample_run evs (turn ''cloudflared'' (sample_env now) ev s)
          else None)"

lemma sample_run_reachable:
  "sup_reachable ''cloudflared'' capacity s \<Longrightarrow> sample_run evs s = Some s' \<Longrightarrow> sup_reachable ''cloudflared'' capacity s'"
proof (induction evs s rule: sample_run.induct)
  case (2 now ev evs s)
  then obtain current where c: "sv_slot s = Some current" "sv_now s \<le> now" "can_occur now current ev"
    "sample_run evs (turn ''cloudflared'' (sample_env now) ev s) = Some s'"
    by (auto split: option.splits if_splits)
  have "sup_step ''cloudflared'' s (turn ''cloudflared'' (sample_env now) ev s)"
    using c by (intro loop_turn) (auto simp: sample_env_def)
  with 2 c show ?case by (auto intro: sup_reachable.step)
qed simp

text \<open>Started, ready, dead, started again by the policy, and stopped while it was starting.\<close>

definition sample_events :: "(nat \<times> sup_event) list" where
  "sample_events = [(0, StartCommand sample_spec 1), (5, Ready None), (90, Exited (Some (ExitCode 1))),
     (2100, RestartDue), (2200, StopCommand 2)]"

lemmas sample_defs = sample_events_def sample_spec_def sample_env_def resilient_def supervisor_new_def
  shared_new_def turn_def engine_step_def engine_parts can_occur_def is_command_def spawns_child_def
  stop_child_def delay_for_def sat_add32_def u32_max_def

lemma sample_result:
  "map_option (\<lambda>s. (sv_slot s, map fst (sv_answers s), sv_spawns s)) (sample_run sample_events (supervisor_new 1)) =
     Some (Some EmptySlot, [1, 2], 2)"
  by (simp add: sample_defs)

lemma sample_reached:
  obtains s where "sup_reachable ''cloudflared'' 1 s" "sv_slot s = Some EmptySlot" "map fst (sv_answers s) = [1, 2]"
    "sv_spawns s = 2" "starts (sv_commands s) = [sample_spec]"
proof -
  have "map_option (\<lambda>s. (sv_slot s, map fst (sv_answers s), sv_spawns s, starts (sv_commands s)))
      (sample_run sample_events (supervisor_new 1)) = Some (Some EmptySlot, [1, 2], 2, [sample_spec])"
    by (simp add: sample_defs starts_def map_filter_def)
  then show thesis using that sample_run_reachable [OF init] by fastforce
qed

section \<open>What the supervisor keeps\<close>

text \<open>C25: Between two turns of the loop, in every run and whatever the commands, the exits, the output and
  the clock, the snapshot a caller reads tells the truth about the loop: it says running exactly when a
  child is past its readiness rule, its pid is that of the child being held and none otherwise, an uptime
  is given exactly while running, a readiness value is not kept for a child that is gone, a failed state
  comes with its reason and with no child left behind. Within a turn this is not claimed: the code
  writes the view in several locked steps, so a snapshot taken while an exit or a stop is being handled can still say running
  with the pid gone. The published state Stopping is never shown, although the enum documents it.\<close>

theorem snapshot_tells_truth:
  assumes "sup_reachable program log_capacity s"
  shows "snapshot_truthful (sv_slot s) (sup_snapshot_of now (sv_view s))"
  by (rule agrees_truthful [OF reachable_agrees [OF assms]])

theorem snapshot_tells_truth_witness:
  "\<exists>s. sup_reachable ''cloudflared'' 1 s \<and> starts (sv_commands s) = [sample_spec]
     \<and> snapshot_truthful (sv_slot s) (sup_snapshot_of 2500 (sv_view s))"
proof -
  obtain s where "sup_reachable ''cloudflared'' 1 s" "starts (sv_commands s) = [sample_spec]"
    by (rule sample_reached)
  then show ?thesis using snapshot_tells_truth by blast
qed

text \<open>C14: No caller is left hanging and none is answered twice: between two turns of the loop the answers sent so far and
  the one start that is still waiting for its child are together exactly the starts and stops received,
  so when no child is starting every command has had its one answer.\<close>

theorem commands_answered_once:
  assumes "sup_reachable program log_capacity s"
  shows "mset (map fst (sv_answers s)) + mset (waiting (sv_slot s)) = mset (asked (sv_commands s))"
  by (rule reachable_answers [OF assms])

theorem commands_answered_once_witness:
  "\<exists>s. sup_reachable ''cloudflared'' 1 s \<and> mset (asked (sv_commands s)) = {#1, 2#}"
proof -
  obtain s where s: "sup_reachable ''cloudflared'' 1 s" "sv_slot s = Some EmptySlot"
    "map fst (sv_answers s) = [1, 2]"
    by (rule sample_reached)
  from commands_answered_once [OF s(1)] s have "mset (asked (sv_commands s)) = mset [1, 2]"
    by (simp add: waiting_def flip: mset_map)
  with s(1) show ?thesis by (intro exI [of _ s]) simp
qed

text \<open>C10: As it is coded, the supervisor cannot restart for ever by itself: whatever the children and the
  clock do, the number of children spawned in a run is at most one plus the restart allowance for each
  start that was asked for, provided every allowance is below the largest \<open>u32\<close>. The bound holds for the
  whole run only because the allowance is never refilled: the documentation of \<open>reset_after\<close> and a comment in \<open>on_exit\<close>
  promise the full allowance again after a healthy uptime, which the code does not give
  (\<open>uptime_never_resets\<close>); with the reset as documented the bound would hold between two resets.\<close>

theorem restarts_bounded:
  assumes "sup_reachable program log_capacity s"
    and "\<forall>sp \<in> set (starts (sv_commands s)). rp_max_attempts (sp_restart sp) < u32_max"
  shows "sv_spawns s \<le> (\<Sum>sp\<leftarrow>starts (sv_commands s). 1 + rp_max_attempts (sp_restart sp))"
  using reachable_budget [OF assms] by (simp add: budget_kept_def children_allowed_def)

theorem restarts_bounded_witness:
  "\<exists>s. sup_reachable ''cloudflared'' 1 s \<and> sv_spawns s = 2 \<and> sv_spawns s \<le> 6"
proof -
  obtain s where s: "sup_reachable ''cloudflared'' 1 s" "sv_spawns s = 2" "starts (sv_commands s) = [sample_spec]"
    by (rule sample_reached)
  from restarts_bounded [OF s(1)] s show ?thesis
    by (intro exI [of _ s]) (simp add: sample_spec_def resilient_def u32_max_def)
qed

text \<open>The reset of the restart allowance never happens: a child that was ready and exits after
  any uptime, a week as well as a second, is treated the same, because the start time is cleared just
  before the uptime is read. Once its restarts are used up it is given up, however long it had been
  healthy.\<close>

theorem uptime_never_resets:
  assumes "sh_restarts v = rp_max_attempts (sp_restart (ru_spec r))" "sh_restarts v < u32_max"
  shows "fst (on_exit program en status (LiveSlot r) v) = EmptySlot
    \<and> sh_state (fst (snd (on_exit program en status (LiveSlot r) v))) = Failed"
  using assms by (simp add: live_exit schedule_restart_def Let_def sat_add32_exact)

theorem uptime_never_resets_witness:
  "let v = (shared_new 1)\<lparr>sh_state := Running, sh_started_at := Some 0, sh_restarts := 5\<rparr>;
       en = sample_env 604800000
   in fst (on_exit ''cloudflared'' en (Some ExitSignal) (LiveSlot \<lparr>ru_pid = Some 7, ru_spec = sample_spec\<rparr>) v) = EmptySlot
      \<and> rp_reset_after (sp_restart sample_spec) = 120000"
  using uptime_never_resets [of "(shared_new 1)\<lparr>sh_state := Running, sh_started_at := Some 0, sh_restarts := 5\<rparr>"
      "\<lparr>ru_pid = Some 7, ru_spec = sample_spec\<rparr>" "''cloudflared''" "sample_env 604800000" "Some ExitSignal"]
  by (simp add: sample_spec_def resilient_def u32_max_def Let_def)

section \<open>Delays\<close>

lemma delay_for_doubles:
  assumes "1 \<le> a" "a < 17"
  shows "delay_for p (Suc a) = min (2 * delay_for p a) (rp_max_backoff p)"
proof -
  have "2 ^ min (Suc a - 1) 16 = 2 * (2 :: nat) ^ min (a - 1) 16"
    using assms by (simp add: min_absorb1 flip: power_Suc)
  then have "delay_for p (Suc a) = min (2 * (rp_backoff p * 2 ^ min (a - 1) 16)) (rp_max_backoff p)"
    by (simp only: delay_for_def mult.left_commute)
  then show ?thesis by (simp add: delay_for_def min_def)
qed

lemma delay_for_bounds:
  "delay_for p a \<le> rp_max_backoff p" "min (rp_backoff p) (rp_max_backoff p) \<le> delay_for p a"
proof -
  have "rp_backoff p * 1 \<le> rp_backoff p * 2 ^ min (a - 1) 16"
    by (rule mult_le_mono2) simp
  then show "delay_for p a \<le> rp_max_backoff p" "min (rp_backoff p) (rp_max_backoff p) \<le> delay_for p a"
    unfolding delay_for_def by linarith+
qed

text \<open>Survival is reached strictly before the deadline, so the two timers never race.\<close>

lemma survival_before_deadline:
  assumes "begin_child program en sp reply attempt v
      = (StartingSlot r deadline (Some t) listening reply' attempt', v', sent)" "0 < sp_startup_timeout sp"
  shows "t < deadline"
  using assms by (auto simp: begin_child_def Let_def split: sum.splits ready_rule.splits)

end
