(* ===== verification/Wire_Format.thy ===== *)
theory Wire_Format
  imports Json_Value
begin

text \<open>
  The wire formats (\<open>crates/providers/src/format.rs\<close>): their names, the detection of the
  client's format from the path and the body, and the choice of a provider's transport. The registry
  of providers is a data file; its lookups are parameters.
\<close>

section \<open>Formats\<close>

datatype wire_format =
    OpenAi | OpenAiResponses | Claude | Gemini | GeminiCli | Vertex | Codex | Antigravity
  | Kiro | Cursor | Ollama | CommandCode | GrokWeb | PerplexityWeb

fun format_str :: "wire_format \<Rightarrow> string" where
  "format_str OpenAi = ''openai''"
| "format_str OpenAiResponses = ''openai-responses''"
| "format_str Claude = ''claude''"
| "format_str Gemini = ''gemini''"
| "format_str GeminiCli = ''gemini-cli''"
| "format_str Vertex = ''vertex''"
| "format_str Codex = ''codex''"
| "format_str Antigravity = ''antigravity''"
| "format_str Kiro = ''kiro''"
| "format_str Cursor = ''cursor''"
| "format_str Ollama = ''ollama''"
| "format_str CommandCode = ''commandcode''"
| "format_str GrokWeb = ''grok-web''"
| "format_str PerplexityWeb = ''perplexity-web''"

definition format_names :: "(string \<times> wire_format) list" where
  "format_names =
     [(''openai'', OpenAi), (''openai-responses'', OpenAiResponses), (''openai-response'', OpenAiResponses),
      (''claude'', Claude), (''gemini'', Gemini), (''gemini-cli'', GeminiCli), (''vertex'', Vertex),
      (''codex'', Codex), (''antigravity'', Antigravity), (''kiro'', Kiro), (''cursor'', Cursor),
      (''ollama'', Ollama), (''commandcode'', CommandCode), (''grok-web'', GrokWeb),
      (''perplexity-web'', PerplexityWeb)]"

definition parse_format :: "string \<Rightarrow> wire_format option" where
  "parse_format s = map_of format_names s"

definition always_streams :: "wire_format \<Rightarrow> bool" where
  "always_streams f \<longleftrightarrow> f = Antigravity \<or> f = Gemini \<or> f = GeminiCli"

lemma parse_format_str [simp]: "parse_format (format_str f) = Some f"
  by (cases f) (simp_all add: parse_format_def format_names_def)

lemma format_str_inj [simp]: "format_str f = format_str g \<longleftrightarrow> f = g"
  by (metis option.inject parse_format_str)

section \<open>Detection\<close>

text \<open>Truthiness as in JavaScript.\<close>

fun truthy_value :: "json \<Rightarrow> bool" where
  "truthy_value JNull \<longleftrightarrow> False"
| "truthy_value (JBool b) \<longleftrightarrow> b"
| "truthy_value (JNum (PosInt n)) \<longleftrightarrow> n \<noteq> 0"
| "truthy_value (JNum (NegInt i)) \<longleftrightarrow> i \<noteq> 0"
| "truthy_value (JNum (Flt mantissa e)) \<longleftrightarrow> mantissa \<noteq> 0"
| "truthy_value (JStr s) \<longleftrightarrow> s \<noteq> []"
| "truthy_value (JArr xs) \<longleftrightarrow> True"
| "truthy_value (JObj m) \<longleftrightarrow> True"

definition is_truthy :: "json option \<Rightarrow> bool" where
  "is_truthy v = (case v of None \<Rightarrow> False | Some j \<Rightarrow> truthy_value j)"

definition is_present :: "json \<Rightarrow> string \<Rightarrow> bool" where
  "is_present body key \<longleftrightarrow> jget body key \<noteq> None"

fun is_array :: "json option \<Rightarrow> bool" where
  "is_array (Some (JArr xs)) = True"
| "is_array _ = False"

fun is_array_or_string :: "json option \<Rightarrow> bool" where
  "is_array_or_string (Some (JArr xs)) = True"
| "is_array_or_string (Some (JStr s)) = True"
| "is_array_or_string _ = False"

definition detect_from_messages :: "json \<Rightarrow> json list \<Rightarrow> wire_format option" where
  "detect_from_messages body messages =
     (case messages of [] \<Rightarrow> None | first # _ \<Rightarrow>
        (case jget first ''content'' of
           Some (JArr parts) \<Rightarrow>
             (case parts of [] \<Rightarrow> None | part # _ \<Rightarrow>
                (case get_str part ''type'' of None \<Rightarrow> None | Some first_type \<Rightarrow>
                   let model_has_slash = (case get_str body ''model'' of None \<Rightarrow> False | Some m \<Rightarrow> CHR ''/'' \<in> set m)
                   in if first_type \<noteq> ''text'' \<or> model_has_slash then None
                      else if is_truthy (jget body ''system'') \<or> is_truthy (jget body ''anthropic_version'')
                      then Some Claude
                      else if list_ex (\<lambda>p. get_str p ''type'' = Some ''image''
                          \<and> Option.bind (jget p ''source'') (\<lambda>s. get_str s ''type'') = Some ''base64'') parts
                      then Some Claude
                      else if list_ex (\<lambda>p. get_str p ''type'' = Some ''image_url''
                          \<and> is_truthy (Option.bind (jget p ''image_url'') (\<lambda>i. jget i ''url''))) parts
                      then Some OpenAi
                      else if list_ex (\<lambda>p. get_str p ''type'' = Some ''tool_use''
                          \<or> get_str p ''type'' = Some ''tool_result'') parts
                      then Some Claude
                      else None))
         | _ \<Rightarrow> None))"

definition detect_format :: "json \<Rightarrow> wire_format" where
  "detect_format body =
     (if is_truthy (jget body ''input'') \<and> is_array_or_string (jget body ''input'')
         \<and> jget body ''messages'' = None then OpenAiResponses
      else if is_truthy (Option.bind (jget body ''request'') (\<lambda>r. jget r ''contents''))
         \<and> get_str body ''userAgent'' = Some ''antigravity'' then Antigravity
      else if is_array (jget body ''contents'') then Gemini
      else if is_truthy (jget body ''stream_options'') \<or> is_truthy (jget body ''response_format'')
         \<or> is_present body ''logprobs'' \<or> is_present body ''top_logprobs'' \<or> is_present body ''n''
         \<or> is_present body ''presence_penalty'' \<or> is_present body ''frequency_penalty''
         \<or> is_truthy (jget body ''logit_bias'') \<or> is_truthy (jget body ''user'') then OpenAi
      else case jget body ''messages'' of
             Some (JArr messages) \<Rightarrow>
               (case detect_from_messages body messages of
                  Some f \<Rightarrow> f
                | None \<Rightarrow>
                    if is_present body ''system'' \<or> is_present body ''anthropic_version'' then Claude
                    else OpenAi)
           | _ \<Rightarrow> OpenAi)"

definition detect_format_by_endpoint :: "string \<Rightarrow> json \<Rightarrow> wire_format option" where
  "detect_format_by_endpoint pathname body =
     (if str_contains pathname ''/v1/responses'' then Some OpenAiResponses
      else if str_contains pathname ''/v1/messages'' then Some Claude
      else if str_contains pathname ''/v1/chat/completions'' \<and> is_array (jget body ''input'')
      then Some OpenAi
      else None)"

text \<open>
  The body decides between the five formats it can tell apart; the others are only ever named by
  a provider. A body with the field of an OpenAI request is never taken for Claude's.
\<close>

lemma if_range: "a \<in> S \<Longrightarrow> b \<in> S \<Longrightarrow> (if P then a else b) \<in> S"
  by simp

lemma detect_from_messages_range: "detect_from_messages body messages \<in> {None, Some Claude, Some OpenAi}"
proof (cases "\<exists>first rest part parts t. messages = first # rest \<and> jget first ''content'' = Some (JArr (part # parts))
    \<and> get_str part ''type'' = Some t")
  case True
  then obtain first rest part parts t where m: "messages = first # rest"
    "jget first ''content'' = Some (JArr (part # parts))" "get_str part ''type'' = Some t" by blast
  show ?thesis
    unfolding detect_from_messages_def m list.case option.case json.case Let_def by (intro if_range) simp_all
next
  case False
  then have "detect_from_messages body messages = None"
    unfolding detect_from_messages_def by (auto split: list.split option.split json.split)
  then show ?thesis by simp
qed

lemma detect_format_range: "detect_format body \<in> {OpenAiResponses, Antigravity, Gemini, OpenAi, Claude}"
proof -
  have "(case detect_from_messages body messages of Some f \<Rightarrow> f
        | None \<Rightarrow> if is_present body ''system'' \<or> is_present body ''anthropic_version'' then Claude else OpenAi)
      \<in> {OpenAiResponses, Antigravity, Gemini, OpenAi, Claude}" for messages
    using detect_from_messages_range [of body messages] by auto
  then have "(case jget body ''messages'' of
      Some (JArr messages) \<Rightarrow>
        (case detect_from_messages body messages of Some f \<Rightarrow> f
         | None \<Rightarrow> if is_present body ''system'' \<or> is_present body ''anthropic_version'' then Claude else OpenAi)
    | _ \<Rightarrow> OpenAi) \<in> {OpenAiResponses, Antigravity, Gemini, OpenAi, Claude}"
    (is "?m \<in> _")
  proof (cases "\<exists>ms. jget body ''messages'' = Some (JArr ms)")
    case True
    then obtain ms where ms: "jget body ''messages'' = Some (JArr ms)" by blast
    show ?thesis unfolding ms option.case json.case by fact
  next
    case False
    then have "?m = OpenAi" by (auto split: option.split json.split)
    then show ?thesis by simp
  qed
  then show ?thesis unfolding detect_format_def by (intro if_range) (simp_all only: insert_iff simp_thms)
qed

lemma openai_field_wins:
  assumes "is_present body ''logprobs''" "jget body ''input'' = None" "jget body ''contents'' = None"
    and "jget body ''request'' = None"
  shows "detect_format body = OpenAi"
  using assms by (simp add: detect_format_def is_truthy_def)

section \<open>Transports\<close>

record transport =
  tp_format :: "string option"
  tp_base_url :: "string option"
  tp_base_urls :: "string list option"

record registry_entry =
  re_transport :: "transport option"
  re_transports :: "transport list option"

definition format_or_default :: "transport \<Rightarrow> string" where
  "format_or_default t = opt_default ''openai'' (tp_format t)"

definition transport_urls :: "transport \<Rightarrow> string list" where
  "transport_urls t =
     (case tp_base_urls t of
        Some (u # us) \<Rightarrow> u # us
      | _ \<Rightarrow> (case tp_base_url t of None \<Rightarrow> [] | Some u \<Rightarrow> [u]))"

definition is_openai_compatible :: "string \<Rightarrow> bool" where
  "is_openai_compatible provider \<longleftrightarrow> starts_with provider ''openai-compatible-''"

definition is_anthropic_compatible :: "string \<Rightarrow> bool" where
  "is_anthropic_compatible provider \<longleftrightarrow> starts_with provider ''anthropic-compatible-''"

definition target_format :: "(string \<rightharpoonup> registry_entry) \<Rightarrow> string \<Rightarrow> wire_format" where
  "target_format entry provider =
     (if is_openai_compatible provider then
        (if str_contains provider ''responses'' then OpenAiResponses else OpenAi)
      else if is_anthropic_compatible provider then Claude
      else opt_default OpenAi
             (Option.bind (Option.bind (entry provider) re_transport) (\<lambda>t. parse_format (format_or_default t))))"

definition resolve_transport :: "(string \<rightharpoonup> registry_entry) \<Rightarrow> string \<Rightarrow> wire_format \<Rightarrow> transport option" where
  "resolve_transport entry provider source_format =
     Option.bind (Option.bind (entry provider) re_transports)
       (find (\<lambda>t. format_or_default t = format_str source_format))"

definition push_format :: "wire_format option \<Rightarrow> wire_format list \<Rightarrow> wire_format list" where
  "push_format f formats =
     (case f of None \<Rightarrow> formats | Some f \<Rightarrow> if f \<in> set formats then formats else formats @ [f])"

definition transport_formats :: "(string \<rightharpoonup> registry_entry) \<Rightarrow> string \<Rightarrow> wire_format list" where
  "transport_formats entry provider =
     (case entry provider of None \<Rightarrow> [] | Some e \<Rightarrow>
        fold (\<lambda>t. push_format (parse_format (format_or_default t)))
          (opt_default [] (re_transports e))
          (push_format (Option.bind (re_transport e) (\<lambda>t. parse_format (format_or_default t))) []))"

definition model_serves_format :: "(string \<Rightarrow> string \<rightharpoonup> string list) \<Rightarrow> string \<Rightarrow> string \<Rightarrow> wire_format \<Rightarrow> bool" where
  "model_serves_format supported_formats provider model f =
     (case supported_formats provider model of
        None \<Rightarrow> True
      | Some fs \<Rightarrow> fs = [] \<or> format_str f \<in> set fs)"

definition runtime_transport ::
    "(string \<rightharpoonup> registry_entry) \<Rightarrow> (string \<Rightarrow> string \<rightharpoonup> string list) \<Rightarrow> string \<Rightarrow> string \<Rightarrow> wire_format
     \<Rightarrow> transport option" where
  "runtime_transport entry supported_formats provider model source_format =
     (case resolve_transport entry provider source_format of
        None \<Rightarrow> None
      | Some t \<Rightarrow> if model_serves_format supported_formats provider model source_format then Some t else None)"

text \<open>A transport chosen for a request is in the client's own format, so no translation is needed.\<close>

lemma runtime_transport_native:
  assumes "runtime_transport entry supported provider model f = Some t"
  shows "parse_format (format_or_default t) = Some f"
    "\<exists>e ts. entry provider = Some e \<and> re_transports e = Some ts \<and> t \<in> set ts"
proof -
  obtain e ts where e: "entry provider = Some e" "re_transports e = Some ts"
    and t: "find (\<lambda>t. format_or_default t = format_str f) ts = Some t"
    using assms by (auto simp: runtime_transport_def resolve_transport_def bind_eq_Some_conv
        split: option.splits if_splits)
  then have "t \<in> set ts" "format_or_default t = format_str f"
    by (auto simp: find_Some_iff)
  then show "parse_format (format_or_default t) = Some f"
    "\<exists>e ts. entry provider = Some e \<and> re_transports e = Some ts \<and> t \<in> set ts"
    using e by auto
qed

lemma push_format_set: "set (push_format f fs) = set fs \<union> set_option f"
  by (auto simp: push_format_def split: option.splits)

lemma runtime_transport_exposed:
  assumes "runtime_transport entry supported provider model f = Some t"
  shows "f \<in> set (transport_formats entry provider)"
proof -
  obtain e ts where e: "entry provider = Some e" "re_transports e = Some ts" "t \<in> set ts"
    using runtime_transport_native(2) [OF assms] by blast
  have "set (fold (\<lambda>t. push_format (parse_format (format_or_default t))) us fs)
      = set fs \<union> (\<Union>u \<in> set us. set_option (parse_format (format_or_default u)))" for us fs
    by (induction us arbitrary: fs) (auto simp: push_format_set)
  then show ?thesis
    using e runtime_transport_native(1) [OF assms] by (auto simp: transport_formats_def)
qed

end
