(* ===== verification/Stream_Concerns.thy ===== *)
theory Stream_Concerns
  imports Wire_Format
begin

text \<open>
  What the stream translators share (\<open>crates/translate/src/concerns.rs\<close> and \<open>schema.rs\<close>): token counts
  in the shapes of the providers, finish reasons, the reasoning text of a delta and the OpenAI chunk.
  Counts are \<open>u64\<close> and their sums wrap, as in a release build.
\<close>

section \<open>Token counts\<close>

record token_usage =
  us_prompt_tokens :: nat
  us_completion_tokens :: nat
  us_total_tokens :: nat
  us_cached_tokens :: nat
  us_cache_creation_tokens :: nat
  us_reasoning_tokens :: nat

definition jnat :: "nat \<Rightarrow> json" where "jnat n = JNum (PosInt n)"

lemma as_u64_jnat [simp]: "as_u64 (jnat n) = Some n"
  by (simp add: jnat_def)

definition usage_to_value :: "token_usage \<Rightarrow> json" where
  "usage_to_value u = jobj
     ([(''prompt_tokens'', jnat (us_prompt_tokens u)), (''completion_tokens'', jnat (us_completion_tokens u)),
       (''total_tokens'', jnat (us_total_tokens u))]
      @ (if us_cached_tokens u > 0 \<or> us_cache_creation_tokens u > 0 then
           [(''prompt_tokens_details'', jobj
              ((if us_cached_tokens u > 0 then [(''cached_tokens'', jnat (us_cached_tokens u))] else [])
               @ (if us_cache_creation_tokens u > 0
                  then [(''cache_creation_tokens'', jnat (us_cache_creation_tokens u))] else [])))]
         else [])
      @ (if us_reasoning_tokens u > 0 then
           [(''completion_tokens_details'', jobj [(''reasoning_tokens'', jnat (us_reasoning_tokens u))])]
         else []))"

definition num :: "json \<Rightarrow> string \<Rightarrow> nat" where
  "num raw key = opt_default 0 (Option.bind (jget raw key) as_u64)"

definition num_in :: "json \<Rightarrow> string \<Rightarrow> string \<Rightarrow> nat" where
  "num_in raw parent key = (case jget raw parent of None \<Rightarrow> 0 | Some d \<Rightarrow> num d key)"

datatype usage_kind = UsageClaude | UsageGemini | UsageKiro | UsageOllama | UsageCommandCode | UsageOpenAi

definition plain_usage :: "nat \<Rightarrow> nat \<Rightarrow> nat \<Rightarrow> token_usage" where
  "plain_usage prompt completion totals = \<lparr>us_prompt_tokens = prompt, us_completion_tokens = completion,
     us_total_tokens = totals, us_cached_tokens = 0, us_cache_creation_tokens = 0, us_reasoning_tokens = 0\<rparr>"

definition to_openai_usage :: "json \<Rightarrow> usage_kind \<Rightarrow> token_usage option" where
  "to_openai_usage raw kind =
     (if as_object raw = None then None
      else Some (case kind of
        UsageClaude \<Rightarrow>
          (let prompt = wadd64 (wadd64 (num raw ''input_tokens'') (num raw ''cache_read_input_tokens''))
                          (num raw ''cache_creation_input_tokens'');
               output = num raw ''output_tokens''
           in (plain_usage prompt output (wadd64 prompt output))
                \<lparr>us_cached_tokens := num raw ''cache_read_input_tokens'',
                 us_cache_creation_tokens := num raw ''cache_creation_input_tokens''\<rparr>)
      | UsageGemini \<Rightarrow>
          (let prompt = num raw ''promptTokenCount''; thoughts = num raw ''thoughtsTokenCount'';
               total = num raw ''totalTokenCount'';
               candidates = (if num raw ''candidatesTokenCount'' = 0 \<and> total > 0
                             then total - prompt - thoughts else num raw ''candidatesTokenCount'')
           in (plain_usage prompt (wadd64 candidates thoughts) total)
                \<lparr>us_cached_tokens := num raw ''cachedContentTokenCount'', us_reasoning_tokens := thoughts\<rparr>)
      | UsageKiro \<Rightarrow>
          (let input = num raw ''inputTokens''; output = num raw ''outputTokens'';
               cached = opt_default 0 (find (\<lambda>n. n > 0)
                 [num raw ''cache_read_input_tokens'', num raw ''cachedTokens'', num raw ''cached_tokens''])
           in (plain_usage input output (wadd64 input output))
                \<lparr>us_cached_tokens := cached, us_cache_creation_tokens := num raw ''cache_creation_input_tokens''\<rparr>)
      | UsageOllama \<Rightarrow>
          (let input = num raw ''prompt_eval_count''; output = num raw ''eval_count''
           in plain_usage input output (wadd64 input output))
      | UsageCommandCode \<Rightarrow>
          (let input = num raw ''inputTokens''; output = num raw ''outputTokens''
           in plain_usage input output
                (opt_default (wadd64 input output) (Option.bind (jget raw ''totalTokens'') as_u64)))
      | UsageOpenAi \<Rightarrow>
          (let prompt = num raw ''prompt_tokens''; completion = num raw ''completion_tokens'';
               total = opt_default (wadd64 prompt completion) (Option.bind (jget raw ''total_tokens'') as_u64);
               cached = opt_default 0 (opt_or
                 (Option.bind (jget raw ''prompt_tokens_details'') (\<lambda>d. Option.bind (jget d ''cached_tokens'') as_u64))
                 (Option.bind (jget raw ''prompt_cache_hit_tokens'') as_u64))
           in (plain_usage prompt completion total)
                \<lparr>us_cached_tokens := cached,
                 us_reasoning_tokens := num_in raw ''completion_tokens_details'' ''reasoning_tokens''\<rparr>)))"

text \<open>The counts of an OpenAI-shaped \<open>usage\<close> object, as \<open>stream.rs\<close> reads them back.\<close>

definition usage_from_openai :: "json \<Rightarrow> token_usage" where
  "usage_from_openai u = \<lparr>us_prompt_tokens = num u ''prompt_tokens'',
     us_completion_tokens = num u ''completion_tokens'', us_total_tokens = num u ''total_tokens'',
     us_cached_tokens = num_in u ''prompt_tokens_details'' ''cached_tokens'',
     us_cache_creation_tokens = num_in u ''prompt_tokens_details'' ''cache_creation_tokens'',
     us_reasoning_tokens = num_in u ''completion_tokens_details'' ''reasoning_tokens''\<rparr>"

lemma usage_round_trip: "usage_from_openai (usage_to_value u) = u"
  by (cases u) (simp add: usage_from_openai_def usage_to_value_def num_def num_in_def jget_jobj)

section \<open>Finish reasons\<close>

definition ascii_upper_char :: "char \<Rightarrow> char" where
  "ascii_upper_char c =
     (let n = of_char c :: nat in if 97 \<le> n \<and> n \<le> 122 then char_of (n - 32) else c)"

text \<open>
  \<open>str::to_uppercase\<close> as far as the words below can see it: the ASCII letters, and the characters
  beyond ASCII whose upper case is letters of theirs (U+0131, U+017F, U+FB05, U+FB06).
\<close>

fun upper_ascii_view :: "string \<Rightarrow> string" where
  "upper_ascii_view (a # b # c # s) =
     (if a = CHR 0xEF \<and> b = CHR 0xAC \<and> (c = CHR 0x85 \<or> c = CHR 0x86) then ''ST'' @ upper_ascii_view s
      else if a = CHR 0xC4 \<and> b = CHR 0xB1 then CHR ''I'' # upper_ascii_view (c # s)
      else if a = CHR 0xC5 \<and> b = CHR 0xBF then CHR ''S'' # upper_ascii_view (c # s)
      else ascii_upper_char a # upper_ascii_view (b # c # s))"
| "upper_ascii_view [a, b] =
     (if a = CHR 0xC4 \<and> b = CHR 0xB1 then ''I''
      else if a = CHR 0xC5 \<and> b = CHR 0xBF then ''S''
      else [ascii_upper_char a, ascii_upper_char b])"
| "upper_ascii_view [a] = [ascii_upper_char a]"
| "upper_ascii_view [] = []"

definition to_openai_finish :: "string \<Rightarrow> string \<Rightarrow> string" where
  "to_openai_finish reason format =
     (if format = ''claude'' then
        (if reason = ''max_tokens'' then ''length'' else if reason = ''tool_use'' then ''tool_calls'' else ''stop'')
      else if format = ''commandcode'' then
        (if reason = ''length'' then ''length''
         else if reason = ''tool-calls'' \<or> reason = ''tool_use'' then ''tool_calls''
         else if reason = ''content-filter'' then ''content_filter''
         else if reason = ''stop'' \<or> reason = ''error'' \<or> reason = [] then ''stop''
         else reason)
      else if format = ''gemini'' then
        (let r = upper_ascii_view reason
         in if r = ''MAX_TOKENS'' then ''length''
            else if r = ''SAFETY'' \<or> r = ''RECITATION'' \<or> r = ''BLOCKLIST'' \<or> r = ''PROHIBITED_CONTENT''
            then ''content_filter'' else ''stop'')
      else if format = ''kiro'' \<or> format = ''ollama'' then
        (if reason = ''tool_calls'' \<or> reason = ''tool_use'' then ''tool_calls''
         else if reason = ''length'' \<or> reason = ''max_tokens'' then ''length'' else ''stop'')
      else if reason = [] then ''stop'' else reason)"

definition from_openai_finish :: "string \<Rightarrow> string \<Rightarrow> string" where
  "from_openai_finish reason format =
     (if format = ''claude'' then
        (if reason = ''length'' then ''max_tokens'' else if reason = ''tool_calls'' then ''tool_use'' else ''end_turn'')
      else reason)"

lemma finish_round_trip:
  "to_openai_finish (from_openai_finish r ''claude'') ''claude'' =
     (if r = ''length'' \<or> r = ''tool_calls'' then r else ''stop'')"
  by (simp add: to_openai_finish_def from_openai_finish_def)

section \<open>Deltas and chunks\<close>

definition reasoning_delta :: "string \<Rightarrow> bool \<Rightarrow> json" where
  "reasoning_delta t with_role =
     (if with_role then jobj [(''role'', JStr ''assistant''), (''reasoning_content'', JStr t)]
      else jobj [(''reasoning_content'', JStr t)])"

definition reasoning_detail :: "json \<Rightarrow> string" where
  "reasoning_detail d =
     (case as_str d of
        Some t \<Rightarrow> t
      | None \<Rightarrow> opt_default [] (Option.bind (opt_or (jget d ''text'') (jget d ''content'')) as_str))"

definition extract_reasoning_text :: "json option \<Rightarrow> string" where
  "extract_reasoning_text delta =
     (case delta of
        None \<Rightarrow> []
      | Some d \<Rightarrow>
          if as_object d = None then []
          else if opt_default [] (get_str d ''reasoning_content'') \<noteq> []
          then opt_default [] (get_str d ''reasoning_content'')
          else if opt_default [] (get_str d ''reasoning'') \<noteq> [] then opt_default [] (get_str d ''reasoning'')
          else (case Option.bind (jget d ''reasoning_details'') as_array of
                  Some details \<Rightarrow> concat (map reasoning_detail details)
                | None \<Rightarrow> []))"

record chunk_meta =
  cm_id :: string
  cm_created :: nat
  cm_model :: string

definition opt_json :: "string option \<Rightarrow> json" where
  "opt_json s = (case s of None \<Rightarrow> JNull | Some t \<Rightarrow> JStr t)"

definition build_chunk :: "chunk_meta \<Rightarrow> json \<Rightarrow> string option \<Rightarrow> json" where
  "build_chunk m delta finish_reason = jobj
     [(''id'', JStr (cm_id m)), (''object'', JStr ''chat.completion.chunk''), (''created'', jnat (cm_created m)),
      (''model'', JStr (cm_model m)),
      (''choices'', JArr [jobj [(''index'', jnat 0), (''delta'', delta), (''finish_reason'', opt_json finish_reason)]])]"

definition first_choice :: "json \<Rightarrow> json option" where
  "first_choice chunk =
     (case Option.bind (jget chunk ''choices'') as_array of Some (c # cs) \<Rightarrow> Some c | _ \<Rightarrow> None)"

definition choice_delta :: "json \<Rightarrow> json option" where
  "choice_delta chunk = Option.bind (first_choice chunk) (\<lambda>c. jget c ''delta'')"

text \<open>What a reader of the chunks takes from one: text, reasoning, tool call deltas, finish reason.\<close>

definition chunk_text :: "json \<Rightarrow> string" where
  "chunk_text chunk = opt_default [] (Option.bind (choice_delta chunk) (\<lambda>d. get_str d ''content''))"

definition chunk_reasoning :: "json \<Rightarrow> string" where
  "chunk_reasoning chunk = extract_reasoning_text (choice_delta chunk)"

definition chunk_calls :: "json \<Rightarrow> json list" where
  "chunk_calls chunk =
     opt_default [] (Option.bind (Option.bind (choice_delta chunk) (\<lambda>d. jget d ''tool_calls'')) as_array)"

definition chunk_finish :: "json \<Rightarrow> string option" where
  "chunk_finish chunk = Option.bind (first_choice chunk) (\<lambda>c. get_str c ''finish_reason'')"

lemma build_chunk_parts [simp]:
  "first_choice (build_chunk m d f) =
     Some (jobj [(''index'', jnat 0), (''delta'', d), (''finish_reason'', opt_json f)])"
  "choice_delta (build_chunk m d f) = Some d"
  "chunk_finish (build_chunk m d f) = f"
  by (simp_all add: build_chunk_def first_choice_def choice_delta_def chunk_finish_def get_str_def
      opt_json_def jget_jobj split: option.splits)

section \<open>Steps\<close>

text \<open>A step of a translator changes its state and pushes events; steps run one after the other.\<close>

definition after_step :: "('s \<Rightarrow> 's \<times> 'e list) \<Rightarrow> ('s \<Rightarrow> 's \<times> 'e list) \<Rightarrow> 's \<Rightarrow> 's \<times> 'e list" where
  "after_step f g s = (case f s of (s1, e1) \<Rightarrow> case g s1 of (s2, e2) \<Rightarrow> (s2, e1 @ e2))"

definition quietly :: "('s \<Rightarrow> 's) \<Rightarrow> 's \<Rightarrow> 's \<times> 'e list" where
  "quietly f s = (f s, [])"

fun for_each :: "('a \<Rightarrow> 's \<Rightarrow> 's \<times> 'e list) \<Rightarrow> 'a list \<Rightarrow> 's \<Rightarrow> 's \<times> 'e list" where
  "for_each f [] s = (s, [])"
| "for_each f (x # xs) s = after_step (f x) (for_each f xs) s"

end
