(* ===== verification/Line_Stream.thy ===== *)
theory Line_Stream
  imports Stream_Concerns "HOL-Library.Sublist"
begin

text \<open>
  Streams of lines: the incremental reader and the frame writers of \<open>crates/translate/src/sse.rs\<close>
  and the pump of \<open>crates/execute/src/stream.rs\<close> that carries an upstream body to the client.
\<close>

section \<open>Text decoding\<close>

text \<open>
  \<open>String::from_utf8_lossy\<close>. The number of bytes the character at the front takes, or what it takes
  with the mark of an invalid sequence: the longest prefix that could have begun a character
  is replaced by U+FFFD.
\<close>

definition second_ok :: "char \<Rightarrow> char \<Rightarrow> bool" where
  "second_ok a b \<longleftrightarrow>
     (if byte a = 0xE0 then 0xA0 \<le> byte b \<and> byte b < 0xC0
      else if byte a = 0xED then 0x80 \<le> byte b \<and> byte b < 0xA0
      else if byte a = 0xF0 then 0x90 \<le> byte b \<and> byte b < 0xC0
      else if byte a = 0xF4 then 0x80 \<le> byte b \<and> byte b < 0x90
      else is_continuation b)"

definition char_width :: "char \<Rightarrow> nat" where
  "char_width a =
     (let n = byte a in
        if n < 0x80 then 1
        else if 0xC2 \<le> n \<and> n < 0xE0 then 2
        else if 0xE0 \<le> n \<and> n < 0xF0 then 3
        else if 0xF0 \<le> n \<and> n < 0xF5 then 4
        else 0)"

text \<open>How many of the bytes that follow the first belong to its character, up to \<open>need\<close>.\<close>

definition good_bytes :: "char \<Rightarrow> nat \<Rightarrow> string \<Rightarrow> nat" where
  "good_bytes a need rest =
     (case rest of
        [] \<Rightarrow> 0
      | b # rest' \<Rightarrow>
          if need = 0 \<or> \<not> second_ok a b then 0
          else 1 + length (takeWhile is_continuation (take (need - 1) rest')))"

definition REPLACEMENT :: string where "REPLACEMENT = [CHR 0xEF, CHR 0xBF, CHR 0xBD]"

function lossy :: "string \<Rightarrow> string" where
  "lossy s =
     (case s of
        [] \<Rightarrow> []
      | a # rest \<Rightarrow>
          let need = char_width a - 1; got = good_bytes a need rest
          in (if char_width a > 0 \<and> got = need then a # take got rest else REPLACEMENT)
             @ lossy (drop got rest))"
  by pat_completeness auto

termination
  by (relation "measure length") auto

declare lossy.simps [simp del]

text \<open>A byte string that is whole characters, as every \<open>&str\<close> is.\<close>

definition one_char :: "string \<Rightarrow> bool" where
  "one_char c \<longleftrightarrow> (case c of [] \<Rightarrow> False | a # rest \<Rightarrow>
     char_width a > 0 \<and> length rest = char_width a - 1 \<and> good_bytes a (char_width a - 1) rest = char_width a - 1)"

inductive utf8 :: "string \<Rightarrow> bool" where
  utf8_Nil: "utf8 []"
| utf8_char: "one_char c \<Longrightarrow> utf8 s \<Longrightarrow> utf8 (c @ s)"

lemma good_bytes_append:
  "good_bytes a need rest = need \<Longrightarrow> length rest = need \<Longrightarrow> good_bytes a need (rest @ s) = need"
  by (cases rest) (auto simp: good_bytes_def split: if_splits list.splits)

lemma lossy_char:
  assumes "one_char c"
  shows "lossy (c @ s) = c @ lossy s"
proof -
  obtain a rest where c: "c = a # rest" "char_width a > 0" "length rest = char_width a - 1"
    "good_bytes a (char_width a - 1) rest = char_width a - 1"
    using assms by (auto simp: one_char_def split: list.splits)
  then show ?thesis
    by (subst lossy.simps) (simp add: Let_def good_bytes_append)
qed

lemma lossy_Nil [simp]: "lossy [] = []"
  by (subst lossy.simps) simp

lemma lossy_utf8: "utf8 s \<Longrightarrow> lossy (s @ t) = s @ lossy t"
  by (induction rule: utf8.induct) (simp_all add: lossy_char)

lemma lossy_whole: "utf8 s \<Longrightarrow> lossy s = s"
  using lossy_utf8 [of s "[]"] by simp

lemma utf8_append: "utf8 s \<Longrightarrow> utf8 t \<Longrightarrow> utf8 (s @ t)"
  by (induction rule: utf8.induct) (simp_all add: utf8_char)

lemma utf8_concat: "\<forall>c \<in> set cs. utf8 c \<Longrightarrow> utf8 (concat cs)"
  by (induction cs) (auto intro: utf8_append utf8_Nil)

lemma ascii_one_char: "byte c < 0x80 \<Longrightarrow> one_char [c]"
  by (simp add: one_char_def char_width_def good_bytes_def Let_def)

lemma ascii_utf8: "\<forall>c \<in> set s. byte c < 0x80 \<Longrightarrow> utf8 s"
proof (induction s)
  case (Cons c s)
  then show ?case using utf8_char [OF ascii_one_char [of c]] by simp
qed (rule utf8_Nil)

section \<open>Lines\<close>

datatype encoding = Sse | Ndjson

datatype stream_frame = FrData json | FrDone

definition parse_line :: "(string \<Rightarrow> json option) \<Rightarrow> string \<Rightarrow> encoding \<Rightarrow> stream_frame option" where
  "parse_line parse_json line enc =
     (if line = [] then None
      else case enc of
             Ndjson \<Rightarrow>
               (let trimmed = trim line
                in if \<not> starts_with trimmed ''{'' then None
                   else map_option FrData (parse_json trimmed))
           | Sse \<Rightarrow>
               (case strip_prefix line ''data:'' of
                  None \<Rightarrow> None
                | Some rest \<Rightarrow>
                    (let payload = trim rest
                     in if payload = ''[DONE]'' then Some FrDone
                        else map_option FrData (parse_json payload))))"

text \<open>\<open>LineBuffer::push\<close>: the complete lines of the buffer with the chunk, and what stays.\<close>

fun cut_lines :: "string \<Rightarrow> string list \<times> string" where
  "cut_lines [] = ([], [])"
| "cut_lines (c # s) =
     (case cut_lines s of
        (ls, remainder) \<Rightarrow>
          if c = nl then ([] # ls, remainder)
          else (case ls of [] \<Rightarrow> ([], c # remainder) | l # ls' \<Rightarrow> ((c # l) # ls', remainder)))"

definition buffer_push :: "string \<Rightarrow> string \<Rightarrow> string list \<times> string" where
  "buffer_push buffer chunk =
     (case cut_lines (buffer @ chunk) of (ls, remainder) \<Rightarrow> (map strip_cr ls, remainder))"

definition buffer_flush :: "string \<Rightarrow> string option" where
  "buffer_flush buffer = (let trimmed = trim buffer in if trimmed = [] then None else Some trimmed)"

fun push_all :: "string \<Rightarrow> string list \<Rightarrow> string list \<times> string" where
  "push_all buffer [] = ([], buffer)"
| "push_all buffer (c # cs) =
     (case buffer_push buffer c of (ls, b) \<Rightarrow> case push_all b cs of (ls', b') \<Rightarrow> (ls @ ls', b'))"

lemma cut_lines_remainder: "cut_lines s = (ls, r) \<Longrightarrow> nl \<notin> set r"
  by (induction s arbitrary: ls r) (auto split: prod.splits if_splits list.splits)

lemma cut_lines_plain: "nl \<notin> set s \<Longrightarrow> cut_lines s = ([], s)"
  by (induction s) auto

lemma cut_lines_line: "nl \<notin> set l \<Longrightarrow> cut_lines (l @ nl # s) = (case cut_lines s of (ls, r) \<Rightarrow> (l # ls, r))"
  by (induction l) (auto split: prod.splits)

lemma cut_lines_append:
  "cut_lines (s @ t) =
     (case cut_lines s of (ls, r) \<Rightarrow> case cut_lines (r @ t) of (ls', r') \<Rightarrow> (ls @ ls', r'))"
proof (induction s)
  case Nil
  then show ?case by (simp split: prod.splits)
next
  case (Cons c s)
  obtain ls r where s: "cut_lines s = (ls, r)" by fastforce
  obtain ls' r' where t: "cut_lines (r @ t) = (ls', r')" by fastforce
  obtain ls2 r2 where t2: "cut_lines ((c # r) @ t) = (ls2, r2)" by fastforce
  show ?case
    using Cons s t t2 by (cases ls; cases ls') (auto split: if_splits)
qed

text \<open>However the text is cut into chunks, the same lines come out.\<close>

lemma push_all_concat:
  "nl \<notin> set buffer \<Longrightarrow> push_all buffer cs = buffer_push buffer (concat cs)"
proof (induction cs arbitrary: buffer)
  case Nil
  then show ?case by (simp add: buffer_push_def cut_lines_plain)
next
  case (Cons c cs)
  obtain ls r where c: "cut_lines (buffer @ c) = (ls, r)" by fastforce
  then have "nl \<notin> set r" by (rule cut_lines_remainder)
  then show ?case
    using Cons.IH [of r] cut_lines_append [of "buffer @ c" "concat cs"] c
    by (auto simp: buffer_push_def split: prod.splits)
qed

section \<open>Frames\<close>

definition data_frame :: "(json \<Rightarrow> string) \<Rightarrow> json \<Rightarrow> string" where
  "data_frame render_json payload = ''data: '' @ render_json payload @ [nl, nl]"

definition event_frame :: "(json \<Rightarrow> string) \<Rightarrow> string \<Rightarrow> json \<Rightarrow> string" where
  "event_frame render_json event payload =
     ''event: '' @ event @ [nl] @ ''data: '' @ render_json payload @ [nl, nl]"

definition done_frame :: string where
  "done_frame = ''data: [DONE]'' @ [nl, nl]"

datatype client_framing = FramingData | FramingResponsesEvents

definition framing_for :: "wire_format \<Rightarrow> client_framing" where
  "framing_for f = (if f = OpenAiResponses then FramingResponsesEvents else FramingData)"

definition frame_for :: "(json \<Rightarrow> string) \<Rightarrow> json \<Rightarrow> client_framing \<Rightarrow> wire_format \<Rightarrow> string" where
  "frame_for render_json chunk framing source =
     (case framing of
        FramingData \<Rightarrow>
          (case get_str chunk ''type'' of
             Some event \<Rightarrow> if source = Claude then event_frame render_json event chunk
                            else data_frame render_json chunk
           | None \<Rightarrow> data_frame render_json chunk)
      | FramingResponsesEvents \<Rightarrow>
          (case get_str chunk ''type'' of
             None \<Rightarrow> data_frame render_json chunk
           | Some event \<Rightarrow> event_frame render_json event chunk))"

definition upstream_encoding :: "wire_format \<Rightarrow> encoding" where
  "upstream_encoding target =
     (if target = Ollama \<or> target = CommandCode \<or> target = GrokWeb then Ndjson else Sse)"

section \<open>The pump\<close>

record stream_summary =
  ss_usage :: "token_usage option"
  ss_finish_reason :: "string option"
  ss_text :: string

definition empty_summary :: stream_summary where
  "empty_summary = \<lparr>ss_usage = None, ss_finish_reason = None, ss_text = []\<rparr>"

definition collect_text :: "json \<Rightarrow> stream_summary \<Rightarrow> stream_summary" where
  "collect_text chunk s =
     (let choice = first_choice chunk;
          content = Option.bind (Option.bind choice (\<lambda>c. jget c ''delta'')) (\<lambda>d. get_str d ''content'');
          s1 = (case content of
                  Some text \<Rightarrow> s\<lparr>ss_text := ss_text s @ text\<rparr>
                | None \<Rightarrow>
                    if get_str chunk ''type'' = Some ''content_block_delta'' then
                      (case Option.bind (jget chunk ''delta'') (\<lambda>d. get_str d ''text'') of
                         Some text \<Rightarrow> s\<lparr>ss_text := ss_text s @ text\<rparr>
                       | None \<Rightarrow> s)
                    else s);
          s2 = (case Option.bind choice (\<lambda>c. get_str c ''finish_reason'') of
                  Some (r # rs) \<Rightarrow> s1\<lparr>ss_finish_reason := Some (r # rs)\<rparr>
                | _ \<Rightarrow> s1)
      in case jget chunk ''usage'' of
           Some (JObj u) \<Rightarrow> s2\<lparr>ss_usage := Some (usage_from_openai (JObj u))\<rparr>
         | _ \<Rightarrow> s2)"

text \<open>
  The state of the pump: the translator's state, the frames the sink took, the summary, and whether
  the client is gone. The sink is a function that says of each send, by the number of frames taken
  before it, whether it succeeds, so a client that has refused a frame refuses the next one; the translator and its closing steps are parameters.
\<close>

record 's pump =
  pu_state :: 's
  pu_sent :: "string list"
  pu_summary :: stream_summary
  pu_gone :: bool

record 's translator =
  tr_chunk :: "json \<Rightarrow> 's \<Rightarrow> json list \<times> 's"
  tr_finish_upstream :: "'s \<Rightarrow> json list \<times> 's"
  tr_finish_client :: "'s \<Rightarrow> json list \<times> 's"

definition send_frame :: "(nat \<Rightarrow> bool) \<Rightarrow> string \<Rightarrow> 's pump \<Rightarrow> 's pump" where
  "send_frame sink f p =
     (if sink (length (pu_sent p)) then p\<lparr>pu_sent := pu_sent p @ [f]\<rparr> else p\<lparr>pu_gone := True\<rparr>)"

fun relay :: "(nat \<Rightarrow> bool) \<Rightarrow> (json \<Rightarrow> string) \<Rightarrow> bool \<Rightarrow> json list \<Rightarrow> 's pump \<Rightarrow> 's pump" where
  "relay sink to_frame collect [] p = p"
| "relay sink to_frame collect (c # cs) p =
     (let p' = send_frame sink (to_frame c)
                 (if collect then p\<lparr>pu_summary := collect_text c (pu_summary p)\<rparr> else p)
      in if pu_gone p' then p' else relay sink to_frame collect cs p')"

definition emit_line ::
    "(nat \<Rightarrow> bool) \<Rightarrow> (json \<Rightarrow> string) \<Rightarrow> 's translator \<Rightarrow> (string \<Rightarrow> json option) \<Rightarrow> encoding
     \<Rightarrow> string \<Rightarrow> 's pump \<Rightarrow> 's pump" where
  "emit_line sink to_frame tr parse_json enc line p =
     (case parse_line parse_json line enc of
        Some (FrData payload) \<Rightarrow>
          (case tr_chunk tr payload (pu_state p) of
             (chunks, st) \<Rightarrow> relay sink to_frame True chunks (p\<lparr>pu_state := st\<rparr>))
      | _ \<Rightarrow> p)"

fun emit_lines ::
    "(nat \<Rightarrow> bool) \<Rightarrow> (json \<Rightarrow> string) \<Rightarrow> 's translator \<Rightarrow> (string \<Rightarrow> json option) \<Rightarrow> encoding
     \<Rightarrow> string list \<Rightarrow> 's pump \<Rightarrow> 's pump" where
  "emit_lines sink to_frame tr parse_json enc [] p = p"
| "emit_lines sink to_frame tr parse_json enc (l # ls) p =
     (let p' = emit_line sink to_frame tr parse_json enc l p
      in if pu_gone p' then p' else emit_lines sink to_frame tr parse_json enc ls p')"

text \<open>The body arrives as chunks of bytes; an absent one is a transport error and ends it.\<close>

fun pump_chunks ::
    "(nat \<Rightarrow> bool) \<Rightarrow> (json \<Rightarrow> string) \<Rightarrow> 's translator \<Rightarrow> (string \<Rightarrow> json option) \<Rightarrow> encoding
     \<Rightarrow> string option list \<Rightarrow> string \<Rightarrow> 's pump \<Rightarrow> string \<times> 's pump" where
  "pump_chunks sink to_frame tr parse_json enc [] buffer p = (buffer, p)"
| "pump_chunks sink to_frame tr parse_json enc (None # cs) buffer p = (buffer, p)"
| "pump_chunks sink to_frame tr parse_json enc (Some bytes # cs) buffer p =
     (case buffer_push buffer (lossy bytes) of
        (ls, buffer') \<Rightarrow>
          (let p' = emit_lines sink to_frame tr parse_json enc ls p
           in if pu_gone p' then (buffer', p')
              else pump_chunks sink to_frame tr parse_json enc cs buffer' p'))"

definition relay_finish ::
    "(nat \<Rightarrow> bool) \<Rightarrow> (json \<Rightarrow> string) \<Rightarrow> bool \<Rightarrow> ('s \<Rightarrow> json list \<times> 's) \<Rightarrow> 's pump \<Rightarrow> 's pump" where
  "relay_finish sink to_frame collect finish p =
     (if pu_gone p then p
      else case finish (pu_state p) of
             (chunks, st) \<Rightarrow> relay sink to_frame collect chunks (p\<lparr>pu_state := st\<rparr>))"

definition close_stream :: "(nat \<Rightarrow> bool) \<Rightarrow> (json \<Rightarrow> string) \<Rightarrow> 's translator \<Rightarrow> 's pump \<Rightarrow> 's pump" where
  "close_stream sink to_frame tr p =
     (let p1 = relay_finish sink to_frame True (tr_finish_upstream tr) p;
          p2 = relay_finish sink to_frame False (tr_finish_client tr) p1
      in if pu_gone p2 then p2 else send_frame sink done_frame p2)"

text \<open>
  The line left in the buffer at the end of the body. Whether the client took its frames is ignored: the
  closing steps run after it in any case, and their first frame finds out again.
\<close>

definition flush_line ::
    "(nat \<Rightarrow> bool) \<Rightarrow> (json \<Rightarrow> string) \<Rightarrow> 's translator \<Rightarrow> (string \<Rightarrow> json option) \<Rightarrow> encoding
     \<Rightarrow> string \<Rightarrow> 's pump \<Rightarrow> 's pump" where
  "flush_line sink to_frame tr parse_json enc buffer p =
     (case buffer_flush buffer of
        None \<Rightarrow> p
      | Some line \<Rightarrow> (emit_line sink to_frame tr parse_json enc line p)\<lparr>pu_gone := False\<rparr>)"

definition pipe_stream ::
    "(nat \<Rightarrow> bool) \<Rightarrow> (json \<Rightarrow> string) \<Rightarrow> (string \<Rightarrow> json option) \<Rightarrow> 's translator \<Rightarrow> wire_format \<Rightarrow> wire_format
     \<Rightarrow> string option list \<Rightarrow> 's \<Rightarrow> 's pump" where
  "pipe_stream sink render_json parse_json tr target source body state =
     (let to_frame = (\<lambda>c. frame_for render_json c (framing_for source) source);
          enc = upstream_encoding target;
          start = \<lparr>pu_state = state, pu_sent = [], pu_summary = empty_summary, pu_gone = False\<rparr>
      in case pump_chunks sink to_frame tr parse_json enc body [] start of
           (buffer, p) \<Rightarrow>
             (let p1 = (if pu_gone p then p else flush_line sink to_frame tr parse_json enc buffer p)
              in close_stream sink to_frame tr p1))"

section \<open>Cutting the body into chunks\<close>

lemma emit_lines_append:
  "emit_lines sink to_frame tr pj enc (ls @ ls') p =
     (let p' = emit_lines sink to_frame tr pj enc ls p
      in if ls \<noteq> [] \<and> pu_gone p' then p' else emit_lines sink to_frame tr pj enc ls' p')"
proof (induction ls arbitrary: p)
  case (Cons l ls)
  show ?case
  proof (cases "pu_gone (emit_line sink to_frame tr pj enc l p)")
    case False
    then show ?thesis using Cons.IH [of "emit_line sink to_frame tr pj enc l p"] by (auto simp: Let_def)
  qed (simp add: Let_def)
qed simp

lemma emit_lines_gone_Nil: "\<not> pu_gone p \<Longrightarrow> pu_gone (emit_lines sink to_frame tr pj enc ls p) \<Longrightarrow> ls \<noteq> []"
  by auto

lemma pump_chunks_lines:
  assumes "\<not> pu_gone p"
  shows "case pump_chunks sink to_frame tr pj enc (map Some cs) buffer p of (b, p') \<Rightarrow>
      p' = emit_lines sink to_frame tr pj enc (fst (push_all buffer (map lossy cs))) p
      \<and> (\<not> pu_gone p' \<longrightarrow> b = snd (push_all buffer (map lossy cs)))"
  using assms
proof (induction cs arbitrary: buffer p)
  case (Cons c cs)
  obtain ls b where b: "buffer_push buffer (lossy c) = (ls, b)" by fastforce
  obtain ls' b' where b': "push_all b (map lossy cs) = (ls', b')" by fastforce
  let ?p = "emit_lines sink to_frame tr pj enc ls p"
  show ?case
  proof (cases "pu_gone ?p")
    case True
    then have "ls \<noteq> []" using emit_lines_gone_Nil Cons.prems by blast
    then show ?thesis using True by (simp add: b b' emit_lines_append Let_def)
  next
    case False
    then show ?thesis using Cons.IH [OF False, of b] by (simp add: b b' emit_lines_append Let_def split: prod.splits)
  qed
qed simp

definition pump_body ::
    "(nat \<Rightarrow> bool) \<Rightarrow> (json \<Rightarrow> string) \<Rightarrow> 's translator \<Rightarrow> (string \<Rightarrow> json option) \<Rightarrow> encoding
     \<Rightarrow> string \<Rightarrow> 's pump \<Rightarrow> 's pump" where
  "pump_body sink to_frame tr pj enc text p =
     (case buffer_push [] text of (ls, b) \<Rightarrow>
        (let p' = emit_lines sink to_frame tr pj enc ls p
         in if pu_gone p' then p' else flush_line sink to_frame tr pj enc b p'))"

lemma pipe_stream_body:
  "pipe_stream sink render pj tr target source (map Some cs) st =
     (let to_frame = (\<lambda>c. frame_for render c (framing_for source) source)
      in close_stream sink to_frame tr
           (pump_body sink to_frame tr pj (upstream_encoding target) (concat (map lossy cs))
              \<lparr>pu_state = st, pu_sent = [], pu_summary = empty_summary, pu_gone = False\<rparr>))"
proof -
  let ?tf = "\<lambda>c. frame_for render c (framing_for source) source"
  let ?enc = "upstream_encoding target"
  let ?start = "\<lparr>pu_state = st, pu_sent = [], pu_summary = empty_summary, pu_gone = False\<rparr>"
  obtain b p where bp: "pump_chunks sink ?tf tr pj ?enc (map Some cs) [] ?start = (b, p)" by fastforce
  obtain ls r where lr: "buffer_push [] (concat (map lossy cs)) = (ls, r)" by fastforce
  have "push_all [] (map lossy cs) = (ls, r)" using push_all_concat [of "[]"] lr by simp
  then have "p = emit_lines sink ?tf tr pj ?enc ls ?start" "\<not> pu_gone p \<longrightarrow> b = r"
    using pump_chunks_lines [where p = ?start and sink = sink and to_frame = ?tf and tr = tr and pj = pj and enc = ?enc and cs = cs and buffer = "[]"] bp
    by auto
  then show ?thesis by (auto simp: pipe_stream_def pump_body_def bp lr Let_def)
qed

section \<open>A client that leaves\<close>

text \<open>The pump with a sink that may refuse, against one whose sink never does.\<close>

definition follows :: "'s pump \<Rightarrow> 's pump \<Rightarrow> bool" where
  "follows p q \<longleftrightarrow> \<not> pu_gone q \<and> (if pu_gone p then prefix (pu_sent p) (pu_sent q) else p = q)"

abbreviation all_sent :: "nat \<Rightarrow> bool" where "all_sent \<equiv> \<lambda>_. True"

lemma relay_all_sent:
  "\<not> pu_gone q \<Longrightarrow> \<not> pu_gone (relay all_sent to_frame collect cs q)
     \<and> prefix (pu_sent q) (pu_sent (relay all_sent to_frame collect cs q))"
proof (induction cs arbitrary: q)
  case (Cons c cs)
  let ?q = "send_frame all_sent (to_frame c) (if collect then q\<lparr>pu_summary := collect_text c (pu_summary q)\<rparr> else q)"
  have q: "\<not> pu_gone ?q" "prefix (pu_sent q) (pu_sent ?q)" using Cons.prems by (auto simp: send_frame_def)
  then show ?case using Cons.IH [OF q(1)] by (auto simp: Let_def intro: prefix_order.trans)
qed simp

lemma relay_follows:
  "\<not> pu_gone p \<Longrightarrow> follows (relay sink to_frame collect cs p) (relay all_sent to_frame collect cs p)"
proof (induction cs arbitrary: p)
  case (Cons c cs)
  let ?r = "if collect then p\<lparr>pu_summary := collect_text c (pu_summary p)\<rparr> else p"
  let ?p = "send_frame sink (to_frame c) ?r"
  let ?q = "send_frame all_sent (to_frame c) ?r"
  have g: "\<not> pu_gone ?r" "pu_sent ?r = pu_sent p" using Cons.prems by auto
  show ?case
  proof (cases "sink (length (pu_sent p))")
    case True
    then have "?p = ?q" "\<not> pu_gone ?p" using g by (auto simp: send_frame_def)
    then show ?thesis using Cons.IH [of ?p] by (simp add: Let_def)
  next
    case False
    have q: "\<not> pu_gone ?q" "prefix (pu_sent p) (pu_sent ?q)" using g by (auto simp: send_frame_def)
    then show ?thesis using False g relay_all_sent [OF q(1), of to_frame collect cs]
      by (auto simp: Let_def send_frame_def follows_def dest: append_prefixD)
  qed
qed (simp add: follows_def)

lemma emit_line_all_sent:
  "\<not> pu_gone q \<Longrightarrow> \<not> pu_gone (emit_line all_sent to_frame tr pj enc l q)
     \<and> prefix (pu_sent q) (pu_sent (emit_line all_sent to_frame tr pj enc l q))"
  using relay_all_sent [of "q\<lparr>pu_state := st\<rparr>" to_frame True chunks for st chunks]
  by (auto simp: emit_line_def split: option.splits stream_frame.splits prod.splits)

lemma emit_line_follows:
  "\<not> pu_gone p \<Longrightarrow> follows (emit_line sink to_frame tr pj enc l p) (emit_line all_sent to_frame tr pj enc l p)"
  using relay_follows [of "p\<lparr>pu_state := st\<rparr>" sink to_frame True chunks for st chunks]
  by (auto simp: emit_line_def follows_def [of p p] split: option.splits stream_frame.splits prod.splits)

lemma emit_lines_all_sent:
  "\<not> pu_gone q \<Longrightarrow> \<not> pu_gone (emit_lines all_sent to_frame tr pj enc ls q)
     \<and> prefix (pu_sent q) (pu_sent (emit_lines all_sent to_frame tr pj enc ls q))"
proof (induction ls arbitrary: q)
  case (Cons l ls)
  then show ?case using emit_line_all_sent [OF Cons.prems, of to_frame tr pj enc l]
    by (auto simp: Let_def intro: prefix_order.trans)
qed simp

lemma follows_then:
  assumes "follows p q" "\<not> pu_gone p \<Longrightarrow> follows (f p) (g p)"
    and "\<not> pu_gone (g q) \<and> prefix (pu_sent q) (pu_sent (g q))"
  shows "follows (if pu_gone p then p else f p) (g q)"
  using assms by (auto simp: follows_def split: if_splits intro: prefix_order.trans)

lemma emit_lines_follows:
  "\<not> pu_gone p \<Longrightarrow> follows (emit_lines sink to_frame tr pj enc ls p) (emit_lines all_sent to_frame tr pj enc ls p)"
proof (induction ls arbitrary: p)
  case (Cons l ls)
  let ?p = "emit_line sink to_frame tr pj enc l p" and ?q = "emit_line all_sent to_frame tr pj enc l p"
  have fol: "follows ?p ?q" by (rule emit_line_follows [OF Cons.prems])
  have "follows (if pu_gone ?p then ?p else emit_lines sink to_frame tr pj enc ls ?p)
      (emit_lines all_sent to_frame tr pj enc ls ?q)"
    using fol by (intro follows_then [OF fol Cons.IH] emit_lines_all_sent) (simp_all add: follows_def)
  then show ?case using fol by (simp add: Let_def follows_def)
qed (simp add: follows_def)

lemma pump_chunks_all_sent:
  "\<not> pu_gone q \<Longrightarrow> \<not> pu_gone (snd (pump_chunks all_sent to_frame tr pj enc body buffer q))
     \<and> prefix (pu_sent q) (pu_sent (snd (pump_chunks all_sent to_frame tr pj enc body buffer q)))"
proof (induction all_sent to_frame tr pj enc body buffer q rule: pump_chunks.induct)
  case (3 to_frame tr pj enc bytes cs buffer q)
  obtain ls b where b: "buffer_push buffer (lossy bytes) = (ls, b)" by fastforce
  show ?case
    using 3 emit_lines_all_sent [OF "3.prems", of to_frame tr pj enc ls]
    by (auto simp: b Let_def intro: prefix_order.trans)
qed simp_all

lemma pump_chunks_follows:
  assumes "\<not> pu_gone p"
  shows "follows (snd (pump_chunks sink to_frame tr pj enc body buffer p))
      (snd (pump_chunks all_sent to_frame tr pj enc body buffer p))
    \<and> (\<not> pu_gone (snd (pump_chunks sink to_frame tr pj enc body buffer p)) \<longrightarrow>
      fst (pump_chunks sink to_frame tr pj enc body buffer p) = fst (pump_chunks all_sent to_frame tr pj enc body buffer p))"
  using assms
proof (induction sink to_frame tr pj enc body buffer p rule: pump_chunks.induct)
  case (3 sink to_frame tr pj enc bytes cs buffer p)
  obtain ls b where b: "buffer_push buffer (lossy bytes) = (ls, b)" by fastforce
  let ?p = "emit_lines sink to_frame tr pj enc ls p" and ?q = "emit_lines all_sent to_frame tr pj enc ls p"
  have fol: "follows ?p ?q" by (rule emit_lines_follows [OF "3.prems"])
  then have q: "\<not> pu_gone ?q" by (simp add: follows_def)
  show ?case
  proof (cases "pu_gone ?p")
    case True
    then have "prefix (pu_sent ?p) (pu_sent (snd (pump_chunks all_sent to_frame tr pj enc cs b ?q)))"
      using fol pump_chunks_all_sent [OF q] prefix_order.trans by (fastforce simp: follows_def)
    then show ?thesis using True q pump_chunks_all_sent [OF q]
      by (simp add: b Let_def follows_def)
  next
    case False
    then have "?p = ?q" using fol by (simp add: follows_def)
    then show ?thesis using "3.IH" [OF b [symmetric] refl False False] q by (simp add: b Let_def)
  qed
qed (simp_all add: follows_def)

lemma relay_finish_all_sent:
  "\<not> pu_gone q \<Longrightarrow> \<not> pu_gone (relay_finish all_sent to_frame collect f q)
     \<and> prefix (pu_sent q) (pu_sent (relay_finish all_sent to_frame collect f q))"
  using relay_all_sent [of "q\<lparr>pu_state := st\<rparr>" to_frame collect cs for st cs]
  by (auto simp: relay_finish_def split: prod.splits)

lemma relay_finish_follows:
  assumes "follows p q"
  shows "follows (relay_finish sink to_frame collect f p) (relay_finish all_sent to_frame collect f q)"
proof (cases "pu_gone p")
  case True
  have "\<not> pu_gone q" using assms by (simp add: follows_def)
  from relay_finish_all_sent [OF this] True assms show ?thesis
    by (auto simp: follows_def relay_finish_def [of sink] intro: prefix_order.trans)
next
  case False
  then have "p = q" using assms by (simp add: follows_def)
  then show ?thesis using False relay_follows [of "p\<lparr>pu_state := st\<rparr>" sink to_frame collect cs for st cs]
    by (auto simp: relay_finish_def split: prod.splits)
qed

lemma close_stream_follows:
  assumes "follows p q"
  shows "follows (close_stream sink to_frame tr p) (close_stream all_sent to_frame tr q)
    \<and> (\<exists>frames. pu_sent (close_stream all_sent to_frame tr q) = frames @ [done_frame])"
proof -
  let ?p = "relay_finish sink to_frame False (tr_finish_client tr) (relay_finish sink to_frame True (tr_finish_upstream tr) p)"
  let ?q = "relay_finish all_sent to_frame False (tr_finish_client tr) (relay_finish all_sent to_frame True (tr_finish_upstream tr) q)"
  have fol: "follows ?p ?q" by (intro relay_finish_follows assms)
  then have q: "\<not> pu_gone ?q" by (simp add: follows_def)
  then have sent: "close_stream all_sent to_frame tr q = ?q\<lparr>pu_sent := pu_sent ?q @ [done_frame]\<rparr>"
    by (simp add: close_stream_def send_frame_def Let_def)
  have "follows (close_stream sink to_frame tr p) (close_stream all_sent to_frame tr q)"
    using fol unfolding sent by (auto simp: close_stream_def send_frame_def Let_def follows_def)
  then show ?thesis by (simp add: sent)
qed

text \<open>A pump whose client refuses the next frame sends nothing more, and notices by the end.\<close>

definition stuck :: "(nat \<Rightarrow> bool) \<Rightarrow> 's pump \<Rightarrow> bool" where
  "stuck sink p \<longleftrightarrow> pu_gone p \<or> \<not> sink (length (pu_sent p))"

lemma relay_refused:
  "\<not> pu_gone p \<Longrightarrow> pu_gone (relay sink to_frame collect cs p) \<Longrightarrow>
     \<not> sink (length (pu_sent (relay sink to_frame collect cs p)))"
proof (induction cs arbitrary: p)
  case (Cons c cs)
  let ?p = "send_frame sink (to_frame c) (if collect then p\<lparr>pu_summary := collect_text c (pu_summary p)\<rparr> else p)"
  show ?case
  proof (cases "pu_gone ?p")
    case True
    then show ?thesis using Cons.prems by (auto simp: send_frame_def Let_def split: if_splits)
  next
    case False
    then show ?thesis using Cons.IH [OF False] Cons.prems(2) by (simp add: Let_def)
  qed
qed simp

lemma emit_line_refused:
  "\<not> pu_gone p \<Longrightarrow> pu_gone (emit_line sink to_frame tr pj enc l p) \<Longrightarrow>
     \<not> sink (length (pu_sent (emit_line sink to_frame tr pj enc l p)))"
  using relay_refused [of "p\<lparr>pu_state := st\<rparr>" sink to_frame True chunks for st chunks]
  by (auto simp: emit_line_def split: option.splits stream_frame.splits prod.splits)

lemma relay_finish_stuck:
  assumes "stuck sink p"
  shows "stuck sink (relay_finish sink to_frame collect f p) \<and> pu_sent (relay_finish sink to_frame collect f p) = pu_sent p"
proof (cases "pu_gone p")
  case False
  obtain cs st where f: "f (pu_state p) = (cs, st)" by fastforce
  show ?thesis using assms False
    by (cases cs) (auto simp: relay_finish_def f stuck_def send_frame_def Let_def)
qed (use assms in \<open>simp add: relay_finish_def\<close>)

lemma close_stream_stuck:
  assumes "stuck sink p"
  shows "pu_gone (close_stream sink to_frame tr p) \<and> pu_sent (close_stream sink to_frame tr p) = pu_sent p"
proof -
  let ?p1 = "relay_finish sink to_frame True (tr_finish_upstream tr) p"
  have p1: "stuck sink ?p1" "pu_sent ?p1 = pu_sent p" using relay_finish_stuck [OF assms] by blast+
  from relay_finish_stuck [OF p1(1), of to_frame False "tr_finish_client tr"] p1(2)
  show ?thesis by (auto simp: close_stream_def Let_def stuck_def send_frame_def)
qed

lemma close_stream_gone: "pu_gone p \<Longrightarrow> close_stream sink to_frame tr p = p"
  by (simp add: close_stream_def relay_finish_def)

lemma close_refused:
  assumes "pu_gone p" "follows (close_stream sink to_frame tr p) q" "stuck sink f" "pu_sent f = pu_sent p"
  shows "follows (close_stream sink to_frame tr f) q"
  using assms close_stream_stuck [OF assms(3), of to_frame tr] by (simp add: close_stream_gone follows_def)

lemma pipe_stream_follows:
  "follows (pipe_stream sink render pj tr target source body st) (pipe_stream all_sent render pj tr target source body st)
   \<and> (\<exists>frames. pu_sent (pipe_stream all_sent render pj tr target source body st) = frames @ [done_frame])"
proof -
  let ?tf = "\<lambda>c. frame_for render c (framing_for source) source"
  let ?enc = "upstream_encoding target"
  let ?start = "\<lparr>pu_state = st, pu_sent = [], pu_summary = empty_summary, pu_gone = False\<rparr>"
  obtain b p where bp: "pump_chunks sink ?tf tr pj ?enc body [] ?start = (b, p)" by fastforce
  obtain c q where cq: "pump_chunks all_sent ?tf tr pj ?enc body [] ?start = (c, q)" by fastforce
  have fol: "follows p q" and same: "\<not> pu_gone p \<Longrightarrow> b = c"
    using pump_chunks_follows [of ?start sink ?tf tr pj ?enc body "[]"] by (auto simp: bp cq)
  have q: "\<not> pu_gone q" using fol by (simp add: follows_def)
  let ?emit = "\<lambda>snk b p. case buffer_flush b of None \<Rightarrow> p | Some line \<Rightarrow> emit_line snk ?tf tr pj ?enc line p"
  let ?p = "if pu_gone p then p else ?emit sink b p" and ?q = "?emit all_sent c q"
  have q': "\<not> pu_gone ?q \<and> prefix (pu_sent q) (pu_sent ?q)"
    using emit_line_all_sent [OF q] q by (auto split: option.splits)
  have "follows ?p ?q"
  proof (cases "pu_gone p")
    case True
    then show ?thesis using fol q' by (auto simp: follows_def intro: prefix_order.trans)
  next
    case False
    then have "p = q" "b = c" using fol same by (auto simp: follows_def)
    then show ?thesis using emit_line_follows [OF False] fol q by (auto split: option.splits)
  qed
  from close_stream_follows [OF this, of sink ?tf tr]
  have close: "follows (close_stream sink ?tf tr ?p) (close_stream all_sent ?tf tr ?q)"
    "\<exists>frames. pu_sent (close_stream all_sent ?tf tr ?q) = frames @ [done_frame]" by blast+
  have "flush_line all_sent ?tf tr pj ?enc c q = ?q" using q' q
    by (auto simp: flush_line_def split: option.splits)
  then have whole: "pipe_stream all_sent render pj tr target source body st = close_stream all_sent ?tf tr ?q"
    using q by (simp add: pipe_stream_def cq Let_def)
  let ?f = "if pu_gone p then p else flush_line sink ?tf tr pj ?enc b p"
  have part: "pipe_stream sink render pj tr target source body st = close_stream sink ?tf tr ?f"
    by (simp add: pipe_stream_def bp Let_def)
  have "follows (close_stream sink ?tf tr ?f) (close_stream all_sent ?tf tr ?q)"
  proof (cases "\<not> pu_gone p \<and> pu_gone ?p")
    case False
    then have "?f = ?p" by (auto simp: flush_line_def split: option.splits)
    with close(1) show ?thesis by (simp only:)
  next
    case True
    then obtain line where line: "buffer_flush b = Some line" "pu_gone (emit_line sink ?tf tr pj ?enc line p)"
      by (auto split: option.splits)
    have p: "?p = emit_line sink ?tf tr pj ?enc line p" using True line by simp
    have "stuck sink ?f" "pu_sent ?f = pu_sent ?p"
      using True line emit_line_refused [OF _ line(2)] by (simp_all add: flush_line_def stuck_def)
    moreover have "pu_gone ?p" using True by (rule conjunct2)
    ultimately show ?thesis using close_refused [OF _ close(1)] by blast
  qed
  with close(2) show ?thesis unfolding whole part by blast
qed

section \<open>Reading the frames back\<close>

text \<open>What a client reads from the body it receives, by the router's own line rules.\<close>

definition read_stream :: "(string \<Rightarrow> json option) \<Rightarrow> string list \<Rightarrow> stream_frame list" where
  "read_stream pj chunks = List.map_filter (\<lambda>l. parse_line pj l Sse) (fst (push_all [] chunks))"

text \<open>A value as serde_json prints and reads it: one line, no white space around, read back as itself.\<close>

definition json_line :: "(json \<Rightarrow> string) \<Rightarrow> (string \<Rightarrow> json option) \<Rightarrow> json \<Rightarrow> bool" where
  "json_line render pj v \<longleftrightarrow>
     (let t = render v in nl \<notin> set t \<and> trim t = t \<and> trim (CHR '' '' # t) = t \<and> strip_cr t = t \<and> t \<noteq> ''[DONE]''
        \<and> t \<noteq> [] \<and> pj t = Some v)"

definition one_line_type :: "json \<Rightarrow> bool" where
  "one_line_type v \<longleftrightarrow> (case get_str v ''type'' of None \<Rightarrow> True | Some e \<Rightarrow> nl \<notin> set e)"

lemma strip_cr_prefix: "strip_cr t = t \<Longrightarrow> t \<noteq> [] \<Longrightarrow> strip_cr (s @ t) = s @ t"
  by (cases "last t = cr") (auto simp: strip_cr_def butlast_append split: if_splits)

lemma data_lines:
  assumes "json_line render pj v"
  shows "cut_lines (data_frame render v @ s) = (case cut_lines s of (ls, r) \<Rightarrow> ((''data: '' @ render v) # [] # ls, r))"
    "parse_line pj (strip_cr (''data: '' @ render v)) Sse = Some (FrData v)"
proof -
  have r: "nl \<notin> set (render v)" "strip_cr (render v) = render v" "render v \<noteq> []"
    "trim (CHR '' '' # render v) = render v" "render v \<noteq> ''[DONE]''" "pj (render v) = Some v"
    using assms by (auto simp: json_line_def Let_def)
  have nlf: "nl \<notin> set (''data: '' @ render v)" using r(1) by (simp add: nl_def)
  have "data_frame render v @ s = (''data: '' @ render v) @ nl # ([] @ nl # s)"
    by (simp add: data_frame_def)
  then show "cut_lines (data_frame render v @ s) = (case cut_lines s of (ls, r) \<Rightarrow> ((''data: '' @ render v) # [] # ls, r))"
    using cut_lines_line [OF nlf, of "[] @ nl # s"] cut_lines_line [of "[]" s] by (auto split: prod.splits)
  have "strip_cr (''data: '' @ render v) = ''data: '' @ render v"
    by (rule strip_cr_prefix [OF r(2,3)])
  moreover have "strip_prefix (''data: '' @ render v) ''data:'' = Some (CHR '' '' # render v)"
    by (simp add: strip_prefix_Some)
  ultimately show "parse_line pj (strip_cr (''data: '' @ render v)) Sse = Some (FrData v)"
    using r by (simp add: parse_line_def)
qed

lemma event_lines:
  assumes "json_line render pj v" "nl \<notin> set e"
  shows "cut_lines (event_frame render e v @ s) =
      (case cut_lines s of (ls, r) \<Rightarrow> ((''event: '' @ e) # (''data: '' @ render v) # [] # ls, r))"
    "parse_line pj (strip_cr (''event: '' @ e)) Sse = None"
proof -
  have nle: "nl \<notin> set (''event: '' @ e)" using assms(2) by (simp add: nl_def)
  have "event_frame render e v @ s = (''event: '' @ e) @ nl # (data_frame render v @ s)"
    by (simp add: event_frame_def data_frame_def)
  then show "cut_lines (event_frame render e v @ s) =
      (case cut_lines s of (ls, r) \<Rightarrow> ((''event: '' @ e) # (''data: '' @ render v) # [] # ls, r))"
    using cut_lines_line [OF nle, of "data_frame render v @ s"] data_lines(1) [OF assms(1), of s]
    by (auto split: prod.splits)
  have "strip_cr (''event: '' @ e) = ''event: '' @ e \<or> (\<exists>t. strip_cr (''event: '' @ e) = ''event:'' @ t)"
    by (cases e rule: rev_cases) (auto simp: strip_cr_def butlast_append)
  then have "\<not> starts_with (strip_cr (''event: '' @ e)) ''data:''"
    by (auto simp: starts_with_def)
  then have "strip_prefix (strip_cr (''event: '' @ e)) ''data:'' = None"
    by (simp only: strip_prefix_None not_False_eq_True)
  then show "parse_line pj (strip_cr (''event: '' @ e)) Sse = None"
    unfolding parse_line_def by (simp only: encoding.case option.case if_cancel)
qed

lemma frame_for_lines:
  assumes "json_line render pj v" "one_line_type v"
  shows "\<exists>ls. (\<forall>s. cut_lines (frame_for render v framing source @ s) = (case cut_lines s of (ls', r) \<Rightarrow> (ls @ ls', r)))
    \<and> List.map_filter (\<lambda>l. parse_line pj (strip_cr l) Sse) ls = [FrData v]"
proof -
  have blank: "parse_line pj (strip_cr []) Sse = None" by (simp add: strip_cr_def parse_line_def)
  consider "frame_for render v framing source = data_frame render v"
    | e where "frame_for render v framing source = event_frame render e v" "nl \<notin> set e"
    using assms(2) by (cases framing; cases "get_str v ''type''"; cases "source = Claude")
      (auto simp: frame_for_def one_line_type_def)
  then show ?thesis
  proof cases
    case 1
    then show ?thesis using data_lines [OF assms(1)] blank
      by (intro exI [of _ "[''data: '' @ render v, []]"]) (auto simp: map_filter_def split: prod.splits)
  next
    case (2 e)
    then show ?thesis using data_lines [OF assms(1)] event_lines [OF assms(1) 2(2)] blank
      by (intro exI [of _ "[''event: '' @ e, ''data: '' @ render v, []]"]) (auto simp: map_filter_def split: prod.splits)
  qed
qed

lemma frames_lines:
  assumes "\<forall>v \<in> set vs. json_line render pj v \<and> one_line_type v"
  shows "\<exists>ls. (\<forall>s. cut_lines (concat (map (\<lambda>v. frame_for render v framing source) vs) @ s)
      = (case cut_lines s of (ls', r) \<Rightarrow> (ls @ ls', r)))
    \<and> List.map_filter (\<lambda>l. parse_line pj (strip_cr l) Sse) ls = map FrData vs"
  using assms
proof (induction vs)
  case Nil
  then show ?case by (intro exI [of _ "[]"]) (simp add: map_filter_def)
next
  case (Cons v vs)
  obtain ls where ls: "\<And>s. cut_lines (frame_for render v framing source @ s) = (case cut_lines s of (ls', r) \<Rightarrow> (ls @ ls', r))"
    "List.map_filter (\<lambda>l. parse_line pj (strip_cr l) Sse) ls = [FrData v]"
    using frame_for_lines Cons.prems by (metis list.set_intros(1))
  obtain ks where ks: "\<And>s. cut_lines (concat (map (\<lambda>v. frame_for render v framing source) vs) @ s)
      = (case cut_lines s of (ls', r) \<Rightarrow> (ks @ ls', r))"
    "List.map_filter (\<lambda>l. parse_line pj (strip_cr l) Sse) ks = map FrData vs"
    using Cons by auto
  show ?case
    using ls(2) ks(2)
    by (intro exI [of _ "ls @ ks"]) (auto simp: ls(1) ks(1) map_filter_def split: prod.splits)
qed

lemma cut_done: "cut_lines done_frame = ([''data: [DONE]'', []], [])"
  by (simp add: done_frame_def nl_def)

lemma parse_done: "parse_line pj (strip_cr ''data: [DONE]'') Sse = Some FrDone"
proof -
  have "strip_cr ''data: [DONE]'' = ''data: [DONE]''" by code_simp
  moreover have "strip_prefix ''data: [DONE]'' ''data:'' = Some '' [DONE]''" by code_simp
  moreover have "trim '' [DONE]'' = ''[DONE]''" by code_simp
  ultimately show ?thesis by (simp add: parse_line_def)
qed

section \<open>Properties\<close>

text \<open>C19: How the network cuts an upstream body does not matter, as long as no character is cut: the frames
  sent, the summary and the translator's state are those of the body arriving in one piece.\<close>

theorem chunks_do_not_matter:
  assumes "\<forall>c \<in> set cs. utf8 c"
  shows "pipe_stream sink render pj tr target source (map Some cs) st
      = pipe_stream sink render pj tr target source [Some (concat cs)] st"
proof -
  have "concat (map lossy cs) = concat cs" using assms by (induction cs) (auto simp: lossy_whole)
  moreover have "lossy (concat cs) = concat cs" using assms by (intro lossy_whole utf8_concat)
  ultimately show ?thesis
    using pipe_stream_body [of sink render pj tr target source cs st]
      pipe_stream_body [of sink render pj tr target source "[concat cs]" st] by (simp add: Let_def)
qed

definition echo_translator :: "unit translator" where
  "echo_translator = \<lparr>tr_chunk = (\<lambda>c s. ([c], s)), tr_finish_upstream = (\<lambda>s. ([], s)), tr_finish_client = (\<lambda>s. ([], s))\<rparr>"

theorem chunks_do_not_matter_witness:
  "pipe_stream all_sent (\<lambda>_. ''{}'') (\<lambda>_. Some JNull) echo_translator OpenAi OpenAi (map Some [''data: '', ''{}'' @ [nl]]) ()
   = pipe_stream all_sent (\<lambda>_. ''{}'') (\<lambda>_. Some JNull) echo_translator OpenAi OpenAi [Some (concat [''data: '', ''{}'' @ [nl]])] ()"
  by (rule chunks_do_not_matter) (auto intro!: ascii_utf8 simp: byte_def nl_def)

text \<open>A character cut by a chunk boundary is lost: both halves become replacement characters.\<close>

lemma split_character_corrupted:
  "concat (map lossy [''caf'' @ [CHR 0xC3], [CHR 0xA9]]) = ''caf'' @ REPLACEMENT @ REPLACEMENT
   \<and> lossy (concat [''caf'' @ [CHR 0xC3], [CHR 0xA9]]) = ''caf'' @ [CHR 0xC3, CHR 0xA9]"
  by code_simp

text \<open>C29: A client that goes away, at any moment, has received the stream from its start without a gap: what it
  got is a prefix of what a client that stays would get, and one that stays gets a stream that ends
  with the terminator.\<close>

theorem client_sees_gapless_prefix:
  "prefix (pu_sent (pipe_stream sink render pj tr target source body st))
      (pu_sent (pipe_stream all_sent render pj tr target source body st))
   \<and> (\<not> pu_gone (pipe_stream sink render pj tr target source body st) \<longrightarrow>
        (\<exists>before. pu_sent (pipe_stream sink render pj tr target source body st) = before @ [done_frame]))"
  using pipe_stream_follows [of sink render pj tr target source body st] by (auto simp: follows_def split: if_splits)

theorem client_sees_gapless_prefix_witness:
  "prefix (pu_sent (pipe_stream (\<lambda>n. n < 1) (\<lambda>_. ''{}'') (\<lambda>_. Some JNull) echo_translator OpenAi OpenAi [Some (''data: {}'' @ [nl])] ()))
      (pu_sent (pipe_stream all_sent (\<lambda>_. ''{}'') (\<lambda>_. Some JNull) echo_translator OpenAi OpenAi [Some (''data: {}'' @ [nl])] ()))"
  by (rule conjunct1 [OF client_sees_gapless_prefix])

text \<open>What the router sends is read back by line rules like its own: for values that serde_json prints on one
  line, in any framing, and however the bytes are cut on the way, the frames decode to exactly the
  values sent, in order, and then the terminator.\<close>

theorem frames_read_back:
  assumes "\<forall>v \<in> set vs. json_line render pj v \<and> one_line_type v"
    and "concat received = concat (map (\<lambda>v. frame_for render v framing source) vs) @ done_frame"
  shows "read_stream pj received = map FrData vs @ [FrDone]"
proof -
  obtain ls where ls: "\<And>s. cut_lines (concat (map (\<lambda>v. frame_for render v framing source) vs) @ s)
      = (case cut_lines s of (ls', r) \<Rightarrow> (ls @ ls', r))"
    "List.map_filter (\<lambda>l. parse_line pj (strip_cr l) Sse) ls = map FrData vs"
    using frames_lines [OF assms(1)] by blast
  have "parse_line pj (strip_cr []) Sse = None" by (simp add: strip_cr_def parse_line_def)
  then show ?thesis
    using ls(2) parse_done push_all_concat [of "[]" received]
    by (simp add: read_stream_def buffer_push_def assms(2) ls(1) cut_done map_filter_def comp_def filter_map)
qed

theorem frames_read_back_witness:
  "read_stream (\<lambda>t. if t = ''null'' then Some JNull else None) [take 9 (data_frame (\<lambda>_. ''null'') JNull @ done_frame),
      drop 9 (data_frame (\<lambda>_. ''null'') JNull @ done_frame)] = [FrData JNull, FrDone]"
proof -
  have line: "json_line (\<lambda>_. ''null'') (\<lambda>t. if t = ''null'' then Some JNull else None) JNull"
    by code_simp
  show ?thesis
    using frames_read_back [of "[JNull]" "\<lambda>_. ''null''" "\<lambda>t. if t = ''null'' then Some JNull else None"
        "[take 9 (data_frame (\<lambda>_. ''null'') JNull @ done_frame), drop 9 (data_frame (\<lambda>_. ''null'') JNull @ done_frame)]"
        FramingData OpenAi] line
    by (simp add: one_line_type_def get_str_def frame_for_def del: take_append drop_append)
qed

end
