(* ===== verification/Claude_Stream.thy ===== *)
theory Claude_Stream
  imports Stream_Concerns "HOL-Library.Multiset"
begin

text \<open>
  An OpenAI chunk stream rewritten for a Claude client
  (\<open>crates/translate/src/response/openai_to_claude.rs\<close>): the part of the stream state it uses, one
  definition per function, and the client's reading of the events, against which it is verified. An
  event is a constructor here; \<open>event_json\<close> is the value that is pushed for it. The clock reads
  \<open>now\<close> (milliseconds) for the whole of a chunk.
\<close>

section \<open>Events\<close>

datatype block_start = ThinkingBlock | TextBlock | ToolUseBlock string string

datatype block_delta = ThinkingDelta string | TextDelta string | InputJsonDelta string

datatype claude_event =
    MessageStart string string
  | BlockStart nat block_start
  | BlockDelta nat block_delta
  | BlockStop nat
  | MessageDelta string json
  | MessageStop

fun block_start_json :: "block_start \<Rightarrow> json" where
  "block_start_json ThinkingBlock = jobj [(''type'', JStr ''thinking''), (''thinking'', JStr [])]"
| "block_start_json TextBlock = jobj [(''type'', JStr ''text''), (''text'', JStr [])]"
| "block_start_json (ToolUseBlock i n) =
     jobj [(''type'', JStr ''tool_use''), (''id'', JStr i), (''name'', JStr n), (''input'', JObj [])]"

fun block_delta_json :: "block_delta \<Rightarrow> json" where
  "block_delta_json (ThinkingDelta t) = jobj [(''type'', JStr ''thinking_delta''), (''thinking'', JStr t)]"
| "block_delta_json (TextDelta t) = jobj [(''type'', JStr ''text_delta''), (''text'', JStr t)]"
| "block_delta_json (InputJsonDelta t) = jobj [(''type'', JStr ''input_json_delta''), (''partial_json'', JStr t)]"

fun event_json :: "claude_event \<Rightarrow> json" where
  "event_json (MessageStart i m) = jobj [(''type'', JStr ''message_start''), (''message'', jobj
     [(''id'', JStr i), (''type'', JStr ''message''), (''role'', JStr ''assistant''), (''model'', JStr m),
      (''content'', JArr []), (''stop_reason'', JNull), (''stop_sequence'', JNull),
      (''usage'', jobj [(''input_tokens'', jnat 0), (''output_tokens'', jnat 0)])])]"
| "event_json (BlockStart i b) = jobj [(''type'', JStr ''content_block_start''), (''index'', jnat i),
     (''content_block'', block_start_json b)]"
| "event_json (BlockDelta i d) = jobj [(''type'', JStr ''content_block_delta''), (''index'', jnat i),
     (''delta'', block_delta_json d)]"
| "event_json (BlockStop i) = jobj [(''type'', JStr ''content_block_stop''), (''index'', jnat i)]"
| "event_json (MessageDelta r u) = jobj [(''type'', JStr ''message_delta''),
     (''delta'', jobj [(''stop_reason'', JStr r)]), (''usage'', u)]"
| "event_json MessageStop = jobj [(''type'', JStr ''message_stop'')]"

section \<open>State\<close>

record claude_call =
  cc_id :: string
  cc_name :: string
  cc_block :: nat

record claude_out =
  co_message_id :: "string option"
  co_model :: "string option"
  co_finish_reason :: "string option"
  co_usage :: "token_usage option"
  co_thinking_started :: bool
  co_thinking_index :: nat
  co_text_started :: bool
  co_text_closed :: bool
  co_text_index :: nat
  co_next_index :: nat
  co_start_sent :: bool
  co_tool_calls :: "(nat \<times> claude_call) list"
  co_arg_buffers :: "(nat \<times> string) list"
  co_input_tokens :: nat
  co_output_tokens :: nat
  co_cache_read :: nat
  co_cache_creation :: nat

definition claude_out_new :: claude_out where
  "claude_out_new = \<lparr>co_message_id = None, co_model = None, co_finish_reason = None, co_usage = None,
     co_thinking_started = False, co_thinking_index = 0, co_text_started = False, co_text_closed = False,
     co_text_index = 0, co_next_index = 0, co_start_sent = False, co_tool_calls = [], co_arg_buffers = [],
     co_input_tokens = 0, co_output_tokens = 0, co_cache_read = 0, co_cache_creation = 0\<rparr>"

type_synonym emission = "claude_out \<Rightarrow> claude_out \<times> claude_event list"

definition push_event :: "claude_event \<Rightarrow> emission" where
  "push_event e s = (s, [e])"

section \<open>The translator\<close>

definition capture_usage :: "json \<Rightarrow> claude_out \<Rightarrow> claude_out" where
  "capture_usage chunk s =
     (case jget chunk ''usage'' of
        Some (JObj m) \<Rightarrow>
          (let u = JObj m; prompt = num u ''prompt_tokens''; output = num u ''completion_tokens'';
               cached = num_in u ''prompt_tokens_details'' ''cached_tokens'';
               cache_read = (if cached = 0 then num u ''prompt_cache_hit_tokens'' else cached);
               cache_create = num_in u ''prompt_tokens_details'' ''cache_creation_tokens'';
               reasoning = num_in u ''completion_tokens_details'' ''reasoning_tokens''
           in s\<lparr>co_input_tokens := prompt - cache_read - cache_create, co_output_tokens := output,
                co_cache_read := cache_read, co_cache_creation := cache_create,
                co_usage := Some \<lparr>us_prompt_tokens = prompt, us_completion_tokens = output,
                  us_total_tokens = wadd64 prompt output, us_cached_tokens = cache_read,
                  us_cache_creation_tokens = cache_create, us_reasoning_tokens = reasoning\<rparr>\<rparr>)
      | _ \<Rightarrow> s)"

definition MODEL_FALLBACK :: string where "MODEL_FALLBACK = ''unknown''"

definition message_id_for :: "nat \<Rightarrow> json \<Rightarrow> string" where
  "message_id_for now chunk =
     (let given = opt_default [] (get_str chunk ''id'');
          raw_id = opt_default given (strip_prefix given ''chatcmpl-'');
          extend = (\<lambda>key. Option.bind (jget chunk ''extend_fields'') (\<lambda>f. get_str f key))
      in if raw_id = [] \<or> raw_id = ''chat'' \<or> length raw_id < 8 then
           opt_default (''msg_'' @ show_nat now) (opt_or (extend ''requestId'') (extend ''traceId''))
         else raw_id)"

definition emit_message_start :: "nat \<Rightarrow> json \<Rightarrow> emission" where
  "emit_message_start now chunk s =
     (if co_start_sent s then (s, [])
      else let mid = message_id_for now chunk;
               model = opt_default MODEL_FALLBACK (get_str chunk ''model'')
           in (s\<lparr>co_start_sent := True, co_message_id := Some mid, co_model := Some model, co_next_index := 0\<rparr>,
               [MessageStart mid model]))"

definition stop_thinking_block :: emission where
  "stop_thinking_block s =
     (if \<not> co_thinking_started s then (s, [])
      else (s\<lparr>co_thinking_started := False\<rparr>, [BlockStop (co_thinking_index s)]))"

definition stop_text_block :: emission where
  "stop_text_block s =
     (if \<not> co_text_started s \<or> co_text_closed s then (s, [])
      else (s\<lparr>co_text_closed := True, co_text_started := False\<rparr>, [BlockStop (co_text_index s)]))"

definition start_thinking_block :: emission where
  "start_thinking_block s =
     (if co_thinking_started s then (s, [])
      else (s\<lparr>co_thinking_index := co_next_index s, co_next_index := co_next_index s + 1,
              co_thinking_started := True\<rparr>, [BlockStart (co_next_index s) ThinkingBlock]))"

definition start_text_block :: emission where
  "start_text_block s =
     (if co_text_started s then (s, [])
      else (s\<lparr>co_text_index := co_next_index s, co_next_index := co_next_index s + 1,
              co_text_started := True, co_text_closed := False\<rparr>, [BlockStart (co_next_index s) TextBlock]))"

definition emit_reasoning :: "string \<Rightarrow> emission" where
  "emit_reasoning t =
     (if t = [] then (\<lambda>s. (s, []))
      else after_step stop_text_block (after_step start_thinking_block
             (\<lambda>s. push_event (BlockDelta (co_thinking_index s) (ThinkingDelta t)) s)))"

definition emit_content :: "string \<Rightarrow> emission" where
  "emit_content t =
     (if t = [] then (\<lambda>s. (s, []))
      else after_step stop_thinking_block (after_step start_text_block
             (\<lambda>s. push_event (BlockDelta (co_text_index s) (TextDelta t)) s)))"

definition CLAUDE_OAUTH_TOOL_PREFIX :: string where "CLAUDE_OAUTH_TOOL_PREFIX = ''proxy_''"

definition call_index :: "json \<Rightarrow> nat" where
  "call_index call = opt_default 0 (Option.bind (jget call ''index'') as_u64)"

definition call_field :: "json \<Rightarrow> string \<Rightarrow> string option" where
  "call_field call key =
     Option.bind (opt_or (Option.bind (jget call ''function'') (\<lambda>f. jget f key)) (jget call key)) as_str"

definition call_id :: "json \<Rightarrow> string" where
  "call_id call = opt_default [] (get_str call ''id'')"

definition call_name :: "json \<Rightarrow> string" where
  "call_name call = opt_default [] (call_field call ''name'')"

definition call_arguments :: "json \<Rightarrow> string" where
  "call_arguments call = opt_default [] (call_field call ''arguments'')"

definition open_tool_block :: "nat \<Rightarrow> json \<Rightarrow> emission" where
  "open_tool_block now call s =
     (let index = call_index call;
          effective_id = (if call_id call = []
            then ''toolu_gen_'' @ show_nat now @ ''_'' @ show_nat index else call_id call);
          display_name = opt_default (call_name call) (strip_prefix (call_name call) CLAUDE_OAUTH_TOOL_PREFIX)
      in (s\<lparr>co_next_index := co_next_index s + 1,
            co_tool_calls := bt_insert index
              \<lparr>cc_id = effective_id, cc_name = call_name call, cc_block = co_next_index s\<rparr> (co_tool_calls s)\<rparr>,
          [BlockStart (co_next_index s) (ToolUseBlock effective_id display_name)]))"

definition name_tool_call :: "json \<Rightarrow> claude_out \<Rightarrow> claude_out" where
  "name_tool_call call s =
     (case map_of (co_tool_calls s) (call_index call) of
        Some c \<Rightarrow>
          if cc_name c = [] \<and> call_name call \<noteq> [] then
            s\<lparr>co_tool_calls := bt_insert (call_index call) (c\<lparr>cc_name := call_name call\<rparr>) (co_tool_calls s)\<rparr>
          else s
      | None \<Rightarrow> s)"

definition buffer_arguments :: "json \<Rightarrow> claude_out \<Rightarrow> claude_out" where
  "buffer_arguments call s =
     (if call_arguments call \<noteq> [] \<and> map_of (co_tool_calls s) (call_index call) \<noteq> None then
        s\<lparr>co_arg_buffers := bt_insert (call_index call)
             (opt_default [] (map_of (co_arg_buffers s) (call_index call)) @ call_arguments call) (co_arg_buffers s)\<rparr>
      else s)"

definition handle_tool_call :: "nat \<Rightarrow> json \<Rightarrow> emission" where
  "handle_tool_call now call s =
     (case (if (call_id call \<noteq> [] \<or> call_name call \<noteq> []) \<and> map_of (co_tool_calls s) (call_index call) = None
            then after_step stop_thinking_block (after_step stop_text_block (open_tool_block now call)) s
            else (name_tool_call call s, [])) of
        (s1, es) \<Rightarrow> (buffer_arguments call s1, es))"

fun handle_tool_calls :: "nat \<Rightarrow> json list \<Rightarrow> emission" where
  "handle_tool_calls now [] s = (s, [])"
| "handle_tool_calls now (c # cs) s = after_step (handle_tool_call now c) (handle_tool_calls now cs) s"

section \<open>Tool arguments\<close>

definition parse_i64 :: "string \<Rightarrow> int option" where
  "parse_i64 s =
     (case s of
        [] \<Rightarrow> None
      | c # cs \<Rightarrow>
          (let neg = c = CHR ''-''; ds = (if neg \<or> c = CHR ''+'' then cs else s);
               n = int (digits_val ds)
           in if ds \<noteq> [] \<and> list_all is_digit ds \<and> (if neg then n \<le> 2 ^ 63 else n < 2 ^ 63)
              then Some (if neg then - n else n) else None))"

definition digits_only :: "string \<Rightarrow> bool" where
  "digits_only s \<longleftrightarrow> s \<noteq> [] \<and> list_all is_digit s"

definition is_valid_pdf_pages :: "string option \<Rightarrow> string option \<Rightarrow> bool" where
  "is_valid_pdf_pages file_path pages =
     (case file_path of None \<Rightarrow> False | Some path \<Rightarrow>
        if \<not> ends_with (lower_ascii_view path) ''.pdf'' then False
        else case pages of None \<Rightarrow> False | Some p \<Rightarrow>
          (case split_once CHR ''-'' p of
             None \<Rightarrow> digits_only p
           | Some (a, b) \<Rightarrow> digits_only a \<and> digits_only b))"

definition coerce_number :: "string \<Rightarrow> (string \<times> json) list \<Rightarrow> (string \<times> json) list" where
  "coerce_number key m =
     (case Option.bind (Option.bind (map_of m key) as_str) parse_i64 of
        None \<Rightarrow> m
      | Some n \<Rightarrow> bt_insert key (jint n) m)"

definition sanitize_read_args :: "(string \<times> json) list \<Rightarrow> (string \<times> json) list" where
  "sanitize_read_args m =
     (let m1 = coerce_number ''offset'' (coerce_number ''limit'' m);
          m2 = (case Option.bind (map_of m1 ''limit'') as_i64 of
                  Some limit \<Rightarrow>
                    if limit > 2000 then bt_insert ''limit'' (jint 2000) m1
                    else if limit < 1 then bt_remove ''limit'' m1 else m1
                | None \<Rightarrow> m1);
          m3 = (case Option.bind (map_of m2 ''offset'') as_i64 of
                  Some offset \<Rightarrow> if offset < 0 then bt_insert ''offset'' (jint 0) m2 else m2
                | None \<Rightarrow> m2)
      in if map_of m3 ''pages'' \<noteq> None
            \<and> \<not> is_valid_pdf_pages (Option.bind (map_of m3 ''file_path'') as_str) (Option.bind (map_of m3 ''pages'') as_str)
         then bt_remove ''pages'' m3 else m3)"

definition sanitize_tool_args ::
    "(string \<Rightarrow> json option) \<Rightarrow> (json \<Rightarrow> string) \<Rightarrow> string \<Rightarrow> string \<Rightarrow> string" where
  "sanitize_tool_args parse_json render_json tool_name args_json =
     (case parse_json args_json of
        None \<Rightarrow> args_json
      | Some args \<Rightarrow>
          (let name = opt_default tool_name (strip_prefix tool_name CLAUDE_OAUTH_TOOL_PREFIX)
           in render_json (case args of
                JObj m \<Rightarrow> if name = ''Read'' then JObj (sanitize_read_args m) else args
              | _ \<Rightarrow> args)))"

section \<open>The end of the message\<close>

definition claude_usage_value :: "claude_out \<Rightarrow> json" where
  "claude_usage_value s = jobj
     ([(''input_tokens'', jnat (co_input_tokens s)), (''output_tokens'', jnat (co_output_tokens s))]
      @ (if co_cache_read s > 0 then [(''cache_read_input_tokens'', jnat (co_cache_read s))] else [])
      @ (if co_cache_creation s > 0 then [(''cache_creation_input_tokens'', jnat (co_cache_creation s))] else []))"

definition close_tool_block ::
    "(string \<Rightarrow> json option) \<Rightarrow> (json \<Rightarrow> string) \<Rightarrow> (nat \<times> string) list \<Rightarrow> nat \<times> claude_call \<Rightarrow> claude_event list" where
  "close_tool_block parse_json render_json buffers e =
     (case e of (index, call) \<Rightarrow>
        (let buffered = opt_default [] (map_of buffers index)
         in (if buffered \<noteq> [] then [BlockDelta (cc_block call)
               (InputJsonDelta (sanitize_tool_args parse_json render_json (cc_name call) buffered))] else [])
            @ [BlockStop (cc_block call)]))"

definition finish_events ::
    "(string \<Rightarrow> json option) \<Rightarrow> (json \<Rightarrow> string) \<Rightarrow> string \<Rightarrow> emission" where
  "finish_events parse_json render_json finish s =
     (s\<lparr>co_finish_reason := Some finish\<rparr>,
      concat (map (close_tool_block parse_json render_json (co_arg_buffers s)) (co_tool_calls s))
      @ [MessageDelta (from_openai_finish finish ''claude'') (claude_usage_value s), MessageStop])"

definition handle_finish ::
    "(string \<Rightarrow> json option) \<Rightarrow> (json \<Rightarrow> string) \<Rightarrow> string option \<Rightarrow> emission" where
  "handle_finish parse_json render_json finish =
     (case finish of
        None \<Rightarrow> (\<lambda>s. (s, []))
      | Some f \<Rightarrow>
          if f = [] then (\<lambda>s. (s, []))
          else after_step stop_thinking_block (after_step stop_text_block (finish_events parse_json render_json f)))"

definition claude_events ::
    "(string \<Rightarrow> json option) \<Rightarrow> (json \<Rightarrow> string) \<Rightarrow> nat \<Rightarrow> json \<Rightarrow> emission" where
  "claude_events parse_json render_json now chunk s =
     (if first_choice chunk = None then (s, [])
      else after_step (emit_message_start now chunk)
            (after_step (emit_reasoning (chunk_reasoning chunk))
              (after_step (emit_content (chunk_text chunk))
                (after_step (handle_tool_calls now (chunk_calls chunk))
                  (handle_finish parse_json render_json (chunk_finish chunk)))))
            (capture_usage chunk s))"

definition openai_to_claude ::
    "(string \<Rightarrow> json option) \<Rightarrow> (json \<Rightarrow> string) \<Rightarrow> nat \<Rightarrow> json \<Rightarrow> claude_out \<Rightarrow> json list \<times> claude_out" where
  "openai_to_claude parse_json render_json now chunk s =
     (case claude_events parse_json render_json now chunk s of (s', es) \<Rightarrow> (map event_json es, s'))"

section \<open>The client\<close>

text \<open>
  A client of the protocol assembles a message: it refuses a second start, a block that is not the
  next one, a delta for a block that is not open or of another kind, a stop for a block that is not
  open, an end with a block still open, and anything after the end.
\<close>

datatype block_kind = KThinking | KText | KTool string string

datatype message_phase = BeforeMessage | InMessage | Ending | Ended

record built_block =
  bb_kind :: block_kind
  bb_content :: string
  bb_open :: bool

record client_view =
  cv_phase :: message_phase
  cv_blocks :: "built_block list"
  cv_stop_reason :: "string option"

definition client_new :: client_view where
  "client_new = \<lparr>cv_phase = BeforeMessage, cv_blocks = [], cv_stop_reason = None\<rparr>"

fun kind_of_start :: "block_start \<Rightarrow> block_kind" where
  "kind_of_start ThinkingBlock = KThinking"
| "kind_of_start TextBlock = KText"
| "kind_of_start (ToolUseBlock i n) = KTool i n"

fun delta_fits :: "block_kind \<Rightarrow> block_delta \<Rightarrow> string option" where
  "delta_fits KThinking (ThinkingDelta t) = Some t"
| "delta_fits KText (TextDelta t) = Some t"
| "delta_fits (KTool i n) (InputJsonDelta t) = Some t"
| "delta_fits _ _ = None"

fun client_step :: "claude_event \<Rightarrow> client_view \<Rightarrow> client_view option" where
  "client_step (MessageStart i m) v =
     (if cv_phase v = BeforeMessage then Some (v\<lparr>cv_phase := InMessage\<rparr>) else None)"
| "client_step (BlockStart i b) v =
     (if cv_phase v = InMessage \<and> i = length (cv_blocks v) then
        Some (v\<lparr>cv_blocks := cv_blocks v @ [\<lparr>bb_kind = kind_of_start b, bb_content = [], bb_open = True\<rparr>]\<rparr>)
      else None)"
| "client_step (BlockDelta i d) v =
     (if cv_phase v = InMessage \<and> i < length (cv_blocks v) \<and> bb_open (cv_blocks v ! i) then
        (case delta_fits (bb_kind (cv_blocks v ! i)) d of
           None \<Rightarrow> None
         | Some t \<Rightarrow> Some (v\<lparr>cv_blocks := (cv_blocks v)[i := (cv_blocks v ! i)\<lparr>bb_content := bb_content (cv_blocks v ! i) @ t\<rparr>]\<rparr>))
      else None)"
| "client_step (BlockStop i) v =
     (if cv_phase v = InMessage \<and> i < length (cv_blocks v) \<and> bb_open (cv_blocks v ! i) then
        Some (v\<lparr>cv_blocks := (cv_blocks v)[i := (cv_blocks v ! i)\<lparr>bb_open := False\<rparr>]\<rparr>)
      else None)"
| "client_step (MessageDelta r u) v =
     (if cv_phase v = InMessage \<and> list_all (\<lambda>b. \<not> bb_open b) (cv_blocks v) then
        Some (v\<lparr>cv_phase := Ending, cv_stop_reason := Some r\<rparr>)
      else None)"
| "client_step MessageStop v = (if cv_phase v = Ending then Some (v\<lparr>cv_phase := Ended\<rparr>) else None)"

fun client_run :: "claude_event list \<Rightarrow> client_view \<Rightarrow> client_view option" where
  "client_run [] v = Some v"
| "client_run (e # es) v = Option.bind (client_step e v) (client_run es)"

lemma client_run_append: "client_run (es @ es') v = Option.bind (client_run es v) (client_run es')"
  by (induction es arbitrary: v) (auto simp: bind_assoc split: Option.bind_splits)

definition content_of :: "block_kind \<Rightarrow> built_block list \<Rightarrow> string" where
  "content_of k bs = concat (map bb_content (filter (\<lambda>b. bb_kind b = k) bs))"

section \<open>The translator and its client agree\<close>

datatype block_tag = TagThinking | TagText | TagTool

fun tag_of :: "block_kind \<Rightarrow> block_tag" where
  "tag_of KThinking = TagThinking"
| "tag_of KText = TagText"
| "tag_of (KTool i n) = TagTool"

text \<open>The open blocks, as the client has them and as the translator's state says.\<close>

definition open_blocks :: "client_view \<Rightarrow> nat \<rightharpoonup> block_tag" where
  "open_blocks v = (\<lambda>i. if i < length (cv_blocks v) \<and> bb_open (cv_blocks v ! i)
                         then Some (tag_of (bb_kind (cv_blocks v ! i))) else None)"

definition held_blocks :: "claude_out \<Rightarrow> (nat \<times> block_tag) list" where
  "held_blocks s =
     (if co_thinking_started s then [(co_thinking_index s, TagThinking)] else [])
     @ (if co_text_started s then [(co_text_index s, TagText)] else [])
     @ map (\<lambda>e. (cc_block (snd e), TagTool)) (co_tool_calls s)"

definition holds :: "(nat \<times> block_tag) list \<Rightarrow> client_view \<Rightarrow> bool" where
  "holds H v \<longleftrightarrow> distinct (map fst H) \<and> open_blocks v = map_of H \<and> cv_phase v = InMessage"

text \<open>No block of that kind comes after this one.\<close>

definition newest :: "client_view \<Rightarrow> nat \<Rightarrow> block_kind \<Rightarrow> bool" where
  "newest v i k \<longleftrightarrow> i < length (cv_blocks v) \<and> bb_kind (cv_blocks v ! i) = k
     \<and> (\<forall>b \<in> set (drop (Suc i) (cv_blocks v)). bb_kind b \<noteq> k)"

definition in_step :: "claude_out \<Rightarrow> client_view \<Rightarrow> bool" where
  "in_step s v \<longleftrightarrow> holds (held_blocks s) v \<and> co_next_index s = length (cv_blocks v)
     \<and> co_start_sent s \<and> bt_ok (co_tool_calls s) \<and> (co_text_started s \<longrightarrow> \<not> co_text_closed s)
     \<and> (co_thinking_started s \<longrightarrow> newest v (co_thinking_index s) KThinking)
     \<and> (co_text_started s \<longrightarrow> newest v (co_text_index s) KText)
     \<and> (\<forall>e \<in> set (co_tool_calls s). bb_content (cv_blocks v ! cc_block (snd e)) = [])"

definition same_content :: "client_view \<Rightarrow> client_view \<Rightarrow> bool" where
  "same_content v v' \<longleftrightarrow> (\<forall>k. content_of k (cv_blocks v') = content_of k (cv_blocks v))"

lemma same_content_refl [simp]: "same_content v v"
  by (simp add: same_content_def)

lemma holds_member: "holds H v \<Longrightarrow> (i, x) \<in> set H \<Longrightarrow> open_blocks v i = Some x"
  by (simp add: holds_def)

lemma open_blocks_Some:
  "open_blocks v i = Some x \<longleftrightarrow> i < length (cv_blocks v) \<and> bb_open (cv_blocks v ! i) \<and> tag_of (bb_kind (cv_blocks v ! i)) = x"
  by (auto simp: open_blocks_def)

lemma distinct_remove:
  assumes "distinct (map fst H)" "mset H = add_mset (i, x) (mset H')"
  shows "distinct (map fst H')" "map_of H' = (map_of H)(i := None)"
proof -
  have "mset (map fst H) = mset (map fst ((i, x) # H'))" using assms(2) by simp
  then have d: "distinct (map fst ((i, x) # H'))" using assms(1) mset_eq_imp_distinct_iff by blast
  then show "distinct (map fst H')" by simp
  have "mset H = mset ((i, x) # H')" using assms(2) by simp
  then have "map_of H = map_of ((i, x) # H')"
    using assms(1) d map_of_inject_set mset_eq_setD by metis
  moreover have "i \<notin> fst ` set H'" using d by simp
  ultimately show "map_of H' = (map_of H)(i := None)" by (auto simp: fun_eq_iff map_of_eq_None_iff)
qed

lemma distinct_add:
  assumes "distinct (map fst H)" "mset H' = add_mset (i, x) (mset H)" "map_of H i = None"
  shows "distinct (map fst H')" "map_of H' = (map_of H)(i \<mapsto> x)"
proof -
  have d: "distinct (map fst ((i, x) # H))" using assms(1,3) by (simp add: map_of_eq_None_iff)
  have "mset (map fst H') = mset (map fst ((i, x) # H))" using assms(2) by simp
  then show d': "distinct (map fst H')" using d mset_eq_imp_distinct_iff by blast
  have "mset H' = mset ((i, x) # H)" using assms(2) by simp
  then have "map_of H' = map_of ((i, x) # H)" using d d' map_of_inject_set mset_eq_setD by metis
  then show "map_of H' = (map_of H)(i \<mapsto> x)" by simp
qed

lemma content_of_update:
  assumes "i < length bs" "bb_kind b = bb_kind (bs ! i)" "bb_content b = bb_content (bs ! i)"
  shows "content_of k (bs[i := b]) = content_of k bs"
proof -
  have "map (\<lambda>b. (bb_kind b, bb_content b)) (bs[i := b]) = map (\<lambda>b. (bb_kind b, bb_content b)) bs"
    using assms by (simp add: map_update list_update_same_conv)
  moreover have "content_of k bs = concat (map snd (filter (\<lambda>p. fst p = k) (map (\<lambda>b. (bb_kind b, bb_content b)) bs)))" for bs
    by (simp add: content_of_def filter_map comp_def)
  ultimately show ?thesis by metis
qed

lemma content_of_extend:
  assumes "newest v i k"
  shows "content_of k' ((cv_blocks v)[i := (cv_blocks v ! i)\<lparr>bb_content := bb_content (cv_blocks v ! i) @ t\<rparr>])
    = content_of k' (cv_blocks v) @ (if k' = k then t else [])"
proof -
  let ?bs = "cv_blocks v"
  have i: "i < length ?bs" "bb_kind (?bs ! i) = k" and rest: "\<forall>b \<in> set (drop (Suc i) ?bs). bb_kind b \<noteq> k"
    using assms by (auto simp: newest_def)
  have split: "?bs = take i ?bs @ ?bs ! i # drop (Suc i) ?bs" using i(1) by (simp add: id_take_nth_drop)
  have upd: "?bs[i := b] = take i ?bs @ b # drop (Suc i) ?bs" for b using i(1) by (simp add: upd_conv_take_nth_drop)
  have none: "k' = k \<Longrightarrow> filter (\<lambda>b. bb_kind b = k') (drop (Suc i) ?bs) = []" using rest by (simp add: filter_empty_conv)
  show ?thesis
    unfolding upd using i(2) none by (subst (2) split) (simp add: content_of_def)
qed

text \<open>How the client's view moves: kinds kept or one more, other blocks as they were.\<close>

definition kinds :: "client_view \<Rightarrow> block_kind list" where
  "kinds v = map bb_kind (cv_blocks v)"

lemma newest_kinds: "newest v i k \<longleftrightarrow> i < length (kinds v) \<and> kinds v ! i = k \<and> k \<notin> set (drop (Suc i) (kinds v))"
  by (auto simp: newest_def kinds_def drop_map image_iff)

lemma newest_same: "kinds v' = kinds v \<Longrightarrow> newest v' i k = newest v i k"
  by (simp add: newest_kinds)

lemma newest_snoc: "kinds v' = kinds v @ [k'] \<Longrightarrow> newest v i k \<Longrightarrow> k' \<noteq> k \<Longrightarrow> newest v' i k"
  by (auto simp: newest_kinds nth_append)

lemma newest_last: "kinds v' = kinds v @ [k] \<Longrightarrow> newest v' (length (kinds v)) k"
  by (simp add: newest_kinds)

lemma length_kinds: "length (kinds v) = length (cv_blocks v)"
  by (simp add: kinds_def)

lemma client_stop_held:
  assumes "holds H v" "mset H = add_mset (i, x) (mset H')"
  obtains v' where "client_step (BlockStop i) v = Some v'" "same_content v v'" "holds H' v'"
    "kinds v' = kinds v" "\<And>j. bb_content (cv_blocks v' ! j) = bb_content (cv_blocks v ! j)"
proof
  let ?v = "v\<lparr>cv_blocks := (cv_blocks v)[i := (cv_blocks v ! i)\<lparr>bb_open := False\<rparr>]\<rparr>"
  have "(i, x) \<in> set H" using assms(2) by (metis set_mset_add_mset_insert insertI1 set_mset_mset)
  then have i: "i < length (cv_blocks v)" "bb_open (cv_blocks v ! i)"
    using holds_member [OF assms(1)] by (auto simp: open_blocks_Some)
  then show "client_step (BlockStop i) v = Some ?v" using assms(1) by (simp add: holds_def)
  show "same_content v ?v" using i by (simp add: same_content_def content_of_update)
  have "open_blocks ?v = (open_blocks v)(i := None)"
    using i by (auto simp: open_blocks_def fun_eq_iff nth_list_update)
  then show "holds H' ?v" using assms(1) distinct_remove [OF _ assms(2)] by (simp add: holds_def)
  show "kinds ?v = kinds v" using i by (simp add: kinds_def map_update list_update_same_conv)
  show "bb_content (cv_blocks ?v ! j) = bb_content (cv_blocks v ! j)" for j
    using i by (simp add: nth_list_update)
qed

lemma client_start_held:
  assumes "holds H v" "mset H' = add_mset (length (cv_blocks v), tag_of (kind_of_start b)) (mset H)"
  obtains v' where "client_step (BlockStart (length (cv_blocks v)) b) v = Some v'" "same_content v v'" "holds H' v'"
    "kinds v' = kinds v @ [kind_of_start b]"
    "\<And>j. j < length (cv_blocks v) \<Longrightarrow> bb_content (cv_blocks v' ! j) = bb_content (cv_blocks v ! j)"
    "bb_content (cv_blocks v' ! length (cv_blocks v)) = []"
proof
  let ?v = "v\<lparr>cv_blocks := cv_blocks v @ [\<lparr>bb_kind = kind_of_start b, bb_content = [], bb_open = True\<rparr>]\<rparr>"
  show "client_step (BlockStart (length (cv_blocks v)) b) v = Some ?v" using assms(1) by (simp add: holds_def)
  show "same_content v ?v" by (simp add: same_content_def content_of_def)
  have "open_blocks ?v = (open_blocks v)(length (cv_blocks v) \<mapsto> tag_of (kind_of_start b))"
    by (auto simp: open_blocks_def fun_eq_iff nth_append)
  moreover have "map_of H (length (cv_blocks v)) = None"
    using assms(1) by (auto simp: holds_def open_blocks_def dest!: fun_cong [of _ _ "length (cv_blocks v)"])
  ultimately show "holds H' ?v" using assms(1) distinct_add [OF _ assms(2)] by (simp add: holds_def)
  show "kinds ?v = kinds v @ [kind_of_start b]" by (simp add: kinds_def)
  show "\<And>j. j < length (cv_blocks v) \<Longrightarrow> bb_content (cv_blocks ?v ! j) = bb_content (cv_blocks v ! j)"
    "bb_content (cv_blocks ?v ! length (cv_blocks v)) = []" by (simp_all add: nth_append)
qed

lemma client_delta_held:
  assumes "holds H v" "(i, tag_of k) \<in> set H" "newest v i k" "delta_fits k d = Some t"
  obtains v' where "client_step (BlockDelta i d) v = Some v'" "holds H v'" "kinds v' = kinds v"
    "\<And>k'. content_of k' (cv_blocks v') = content_of k' (cv_blocks v) @ (if k' = k then t else [])"
    "\<And>j. j \<noteq> i \<Longrightarrow> bb_content (cv_blocks v' ! j) = bb_content (cv_blocks v ! j)"
proof
  let ?v = "v\<lparr>cv_blocks := (cv_blocks v)[i := (cv_blocks v ! i)\<lparr>bb_content := bb_content (cv_blocks v ! i) @ t\<rparr>]\<rparr>"
  have i: "i < length (cv_blocks v)" "bb_open (cv_blocks v ! i)" "bb_kind (cv_blocks v ! i) = k"
    using holds_member [OF assms(1,2)] assms(3) by (auto simp: open_blocks_Some newest_def)
  then show "client_step (BlockDelta i d) v = Some ?v" using assms(1,4) by (simp add: holds_def)
  have "open_blocks ?v = open_blocks v"
    using i by (auto simp: open_blocks_def fun_eq_iff nth_list_update)
  then show "holds H ?v" using assms(1) by (simp add: holds_def)
  show "kinds ?v = kinds v" using i by (simp add: kinds_def map_update list_update_same_conv)
  show "content_of k' (cv_blocks ?v) = content_of k' (cv_blocks v) @ (if k' = k then t else [])" for k'
    using content_of_extend [OF assms(3), of k' t] by simp
  show "\<And>j. j \<noteq> i \<Longrightarrow> bb_content (cv_blocks ?v ! j) = bb_content (cv_blocks v ! j)" by simp
qed

section \<open>Each step keeps them in step\<close>

text \<open>A step adds thinking and text for the client and leaves the tool calls as they are.\<close>

definition emits :: "emission \<Rightarrow> string \<Rightarrow> string \<Rightarrow> claude_out \<Rightarrow> client_view \<Rightarrow> bool" where
  "emits f t x s v \<longleftrightarrow>
     (\<exists>v'. client_run (snd (f s)) v = Some v' \<and> in_step (fst (f s)) v'
       \<and> content_of KThinking (cv_blocks v') = content_of KThinking (cv_blocks v) @ t
       \<and> content_of KText (cv_blocks v') = content_of KText (cv_blocks v) @ x)"

lemma emits_none [simp]: "in_step s v \<Longrightarrow> emits (\<lambda>s. (s, [])) [] [] s v"
  by (simp add: emits_def)

lemma emits_after:
  assumes "emits f t x s v" "\<And>v'. in_step (fst (f s)) v' \<Longrightarrow> emits g t' x' (fst (f s)) v'"
  shows "emits (after_step f g) (t @ t') (x @ x') s v"
proof -
  obtain s1 e1 where f: "f s = (s1, e1)" by fastforce
  obtain s2 e2 where g: "g s1 = (s2, e2)" by fastforce
  obtain v1 where v1: "client_run e1 v = Some v1" "in_step s1 v1"
    "content_of KThinking (cv_blocks v1) = content_of KThinking (cv_blocks v) @ t"
    "content_of KText (cv_blocks v1) = content_of KText (cv_blocks v) @ x"
    using assms(1) by (auto simp: emits_def f)
  obtain v2 where "client_run e2 v1 = Some v2" "in_step s2 v2"
    "content_of KThinking (cv_blocks v2) = content_of KThinking (cv_blocks v1) @ t'"
    "content_of KText (cv_blocks v2) = content_of KText (cv_blocks v1) @ x'"
    using assms(2) v1(2) by (auto simp: emits_def f g)
  then show ?thesis using v1 by (auto simp: emits_def after_step_def f g client_run_append)
qed

lemma tool_blocks_below:
  assumes "in_step s v" "e \<in> set (co_tool_calls s)"
  shows "cc_block (snd e) < length (cv_blocks v)"
proof -
  have "(cc_block (snd e), TagTool) \<in> set (held_blocks s)" using assms(2) by (force simp: held_blocks_def)
  then have "open_blocks v (cc_block (snd e)) = Some TagTool" using assms(1) holds_member by (auto simp: in_step_def)
  then show ?thesis by (simp add: open_blocks_Some)
qed

lemma emits_stop_thinking:
  assumes "in_step s v"
  shows "emits stop_thinking_block [] [] s v"
proof (cases "co_thinking_started s")
  case False
  with assms show ?thesis by (auto simp: stop_thinking_block_def emits_def)
next
  case True
  let ?s = "s\<lparr>co_thinking_started := False\<rparr>"
  have "mset (held_blocks s) = add_mset (co_thinking_index s, TagThinking) (mset (held_blocks ?s))"
    using True by (simp add: held_blocks_def)
  from client_stop_held [OF _ this] assms
  obtain v' where "client_step (BlockStop (co_thinking_index s)) v = Some v'" "same_content v v'"
    "holds (held_blocks ?s) v'" "kinds v' = kinds v" "\<And>j. bb_content (cv_blocks v' ! j) = bb_content (cv_blocks v ! j)"
    unfolding in_step_def by blast
  then show ?thesis using assms True length_kinds [of v] length_kinds [of v'] newest_same [of v' v]
    by (auto simp: emits_def stop_thinking_block_def in_step_def same_content_def)
qed

lemma emits_stop_text:
  assumes "in_step s v"
  shows "emits stop_text_block [] [] s v"
proof (cases "co_text_started s")
  case False
  with assms show ?thesis by (auto simp: stop_text_block_def emits_def)
next
  case True
  let ?s = "s\<lparr>co_text_closed := True, co_text_started := False\<rparr>"
  have "mset (held_blocks s) = add_mset (co_text_index s, TagText) (mset (held_blocks ?s))"
    using True by (simp add: held_blocks_def)
  from client_stop_held [OF _ this] assms
  obtain v' where "client_step (BlockStop (co_text_index s)) v = Some v'" "same_content v v'"
    "holds (held_blocks ?s) v'" "kinds v' = kinds v" "\<And>j. bb_content (cv_blocks v' ! j) = bb_content (cv_blocks v ! j)"
    unfolding in_step_def by blast
  then show ?thesis using assms True length_kinds [of v] length_kinds [of v'] newest_same [of v' v]
    by (auto simp: emits_def stop_text_block_def in_step_def same_content_def)
qed

lemma emits_start_thinking:
  assumes "in_step s v"
  shows "emits start_thinking_block [] [] s v"
proof (cases "co_thinking_started s")
  case True
  with assms show ?thesis by (auto simp: start_thinking_block_def emits_def)
next
  case False
  let ?s = "s\<lparr>co_thinking_index := co_next_index s, co_next_index := co_next_index s + 1, co_thinking_started := True\<rparr>"
  have n: "co_next_index s = length (cv_blocks v)" using assms by (simp add: in_step_def)
  have m: "mset (held_blocks ?s) = add_mset (length (cv_blocks v), tag_of (kind_of_start ThinkingBlock)) (mset (held_blocks s))"
    using False n by (simp add: held_blocks_def)
  have h: "holds (held_blocks s) v" using assms by (simp add: in_step_def)
  obtain v' where v': "client_step (BlockStart (length (cv_blocks v)) ThinkingBlock) v = Some v'" "same_content v v'"
    "holds (held_blocks ?s) v'" "kinds v' = kinds v @ [KThinking]"
    "\<And>j. j < length (cv_blocks v) \<Longrightarrow> bb_content (cv_blocks v' ! j) = bb_content (cv_blocks v ! j)"
    "bb_content (cv_blocks v' ! length (cv_blocks v)) = []"
    by (rule client_start_held [OF h m, unfolded kind_of_start.simps]) (rule that)
  have len: "length (cv_blocks v') = Suc (length (cv_blocks v))"
    using v'(4) length_kinds [of v] length_kinds [of v'] by simp
  have last: "newest v' (co_next_index s) KThinking"
    using newest_last [OF v'(4)] n by (simp add: length_kinds)
  have other: "co_text_started s \<Longrightarrow> newest v' (co_text_index s) KText"
    using newest_snoc [OF v'(4)] assms by (simp add: in_step_def)
  have tools: "\<forall>e \<in> set (co_tool_calls s). bb_content (cv_blocks v' ! cc_block (snd e)) = []"
    using tool_blocks_below [OF assms] v'(5) assms by (simp add: in_step_def)
  have "in_step ?s v'" using assms v'(3) len last other tools n by (simp add: in_step_def)
  then show ?thesis using v' False n by (auto simp: emits_def start_thinking_block_def same_content_def)
qed

lemma emits_start_text:
  assumes "in_step s v"
  shows "emits start_text_block [] [] s v"
proof (cases "co_text_started s")
  case True
  with assms show ?thesis by (auto simp: start_text_block_def emits_def)
next
  case False
  let ?s = "s\<lparr>co_text_index := co_next_index s, co_next_index := co_next_index s + 1, co_text_started := True, co_text_closed := False\<rparr>"
  have n: "co_next_index s = length (cv_blocks v)" using assms by (simp add: in_step_def)
  have m: "mset (held_blocks ?s) = add_mset (length (cv_blocks v), tag_of (kind_of_start TextBlock)) (mset (held_blocks s))"
    using False n by (simp add: held_blocks_def)
  have h: "holds (held_blocks s) v" using assms by (simp add: in_step_def)
  obtain v' where v': "client_step (BlockStart (length (cv_blocks v)) TextBlock) v = Some v'" "same_content v v'"
    "holds (held_blocks ?s) v'" "kinds v' = kinds v @ [KText]"
    "\<And>j. j < length (cv_blocks v) \<Longrightarrow> bb_content (cv_blocks v' ! j) = bb_content (cv_blocks v ! j)"
    "bb_content (cv_blocks v' ! length (cv_blocks v)) = []"
    by (rule client_start_held [OF h m, unfolded kind_of_start.simps]) (rule that)
  have len: "length (cv_blocks v') = Suc (length (cv_blocks v))"
    using v'(4) length_kinds [of v] length_kinds [of v'] by simp
  have last: "newest v' (co_next_index s) KText"
    using newest_last [OF v'(4)] n by (simp add: length_kinds)
  have other: "co_thinking_started s \<Longrightarrow> newest v' (co_thinking_index s) KThinking"
    using newest_snoc [OF v'(4)] assms by (simp add: in_step_def)
  have tools: "\<forall>e \<in> set (co_tool_calls s). bb_content (cv_blocks v' ! cc_block (snd e)) = []"
    using tool_blocks_below [OF assms] v'(5) assms by (simp add: in_step_def)
  have "in_step ?s v'" using assms v'(3) len last other tools n by (simp add: in_step_def)
  then show ?thesis using v' False n by (auto simp: emits_def start_text_block_def same_content_def)
qed

lemma emits_thinking_delta:
  assumes "in_step s v" "co_thinking_started s"
  shows "emits (\<lambda>s. push_event (BlockDelta (co_thinking_index s) (ThinkingDelta t)) s) t [] s v"
proof -
  have h: "holds (held_blocks s) v" "newest v (co_thinking_index s) KThinking" using assms by (simp_all add: in_step_def)
  have m: "(co_thinking_index s, tag_of KThinking) \<in> set (held_blocks s)" using assms(2) by (simp add: held_blocks_def)
  obtain v' where v': "client_step (BlockDelta (co_thinking_index s) (ThinkingDelta t)) v = Some v'" "holds (held_blocks s) v'"
    "kinds v' = kinds v" "\<And>k'. content_of k' (cv_blocks v') = content_of k' (cv_blocks v) @ (if k' = KThinking then t else [])"
    "\<And>j. j \<noteq> co_thinking_index s \<Longrightarrow> bb_content (cv_blocks v' ! j) = bb_content (cv_blocks v ! j)"
    by (rule client_delta_held [OF h(1) m h(2) delta_fits.simps(1)]) (rule that)
  have len: "length (cv_blocks v') = length (cv_blocks v)" using v'(3) length_kinds by metis
  have tools: "\<forall>e \<in> set (co_tool_calls s). bb_content (cv_blocks v' ! cc_block (snd e)) = []"
  proof
    fix e assume e: "e \<in> set (co_tool_calls s)"
    then have "cc_block (snd e) \<noteq> co_thinking_index s"
      using h(1) assms(2) by (force simp: holds_def held_blocks_def)
    then show "bb_content (cv_blocks v' ! cc_block (snd e)) = []" using v'(5) assms(1) e by (simp add: in_step_def)
  qed
  have "in_step s v'" using assms(1) v'(2) len newest_same [OF v'(3)] tools by (simp add: in_step_def)
  then show ?thesis using v'(1,4) by (simp add: emits_def push_event_def)
qed

lemma emits_text_delta:
  assumes "in_step s v" "co_text_started s"
  shows "emits (\<lambda>s. push_event (BlockDelta (co_text_index s) (TextDelta t)) s) [] t s v"
proof -
  have h: "holds (held_blocks s) v" "newest v (co_text_index s) KText" using assms by (simp_all add: in_step_def)
  have m: "(co_text_index s, tag_of KText) \<in> set (held_blocks s)" using assms(2) by (simp add: held_blocks_def)
  obtain v' where v': "client_step (BlockDelta (co_text_index s) (TextDelta t)) v = Some v'" "holds (held_blocks s) v'"
    "kinds v' = kinds v" "\<And>k'. content_of k' (cv_blocks v') = content_of k' (cv_blocks v) @ (if k' = KText then t else [])"
    "\<And>j. j \<noteq> co_text_index s \<Longrightarrow> bb_content (cv_blocks v' ! j) = bb_content (cv_blocks v ! j)"
    by (rule client_delta_held [OF h(1) m h(2) delta_fits.simps(2)]) (rule that)
  have len: "length (cv_blocks v') = length (cv_blocks v)" using v'(3) length_kinds by metis
  have tools: "\<forall>e \<in> set (co_tool_calls s). bb_content (cv_blocks v' ! cc_block (snd e)) = []"
  proof
    fix e assume e: "e \<in> set (co_tool_calls s)"
    then have "cc_block (snd e) \<noteq> co_text_index s"
      using h(1) assms(2) by (force simp: holds_def held_blocks_def)
    then show "bb_content (cv_blocks v' ! cc_block (snd e)) = []" using v'(5) assms(1) e by (simp add: in_step_def)
  qed
  have "in_step s v'" using assms(1) v'(2) len newest_same [OF v'(3)] tools by (simp add: in_step_def)
  then show ?thesis using v'(1,4) by (simp add: emits_def push_event_def)
qed

lemma started_thinking: "co_thinking_started (fst (start_thinking_block s))"
  by (simp add: start_thinking_block_def)

lemma started_text: "co_text_started (fst (start_text_block s))"
  by (simp add: start_text_block_def)

lemma emits_reasoning: "in_step s v \<Longrightarrow> emits (emit_reasoning t) t [] s v"
  unfolding emit_reasoning_def
  using emits_after [OF emits_stop_text emits_after [OF emits_start_thinking emits_thinking_delta [OF _ started_thinking]]]
  by (cases "t = []") auto

lemma emits_content: "in_step s v \<Longrightarrow> emits (emit_content t) [] t s v"
  unfolding emit_content_def
  using emits_after [OF emits_stop_thinking emits_after [OF emits_start_text emits_text_delta [OF _ started_text]]]
  by (cases "t = []") auto

section \<open>Tool calls\<close>

lemma mset_bt_insert_new:
  "k \<notin> fst ` set m \<Longrightarrow> mset (bt_insert k v m) = add_mset (k, v) (mset m)"
  by (induction k v m rule: bt_insert.induct) auto

lemma bt_insert_same_view:
  "bt_ok m \<Longrightarrow> map_of m k = Some c \<Longrightarrow> g c' = g c \<Longrightarrow>
     map (\<lambda>e. g (snd e)) (bt_insert k c' m) = map (\<lambda>e. g (snd e)) m"
proof (induction m)
  case (Cons e m)
  obtain a b where e: "e = (a, b)" by fastforce
  have above: "\<forall>x \<in> set m. a < fst x" and ok: "bt_ok m" using Cons.prems(1) by (auto simp: e bt_ok_Cons)
  show ?case
  proof (cases "k = a")
    case False
    then have "k \<in> fst ` set m" using Cons.prems(2) by (auto simp: e dest: map_of_SomeD intro: rev_image_eqI)
    then have "\<not> k < a" using above by auto
    then show ?thesis using Cons False ok by (simp add: e)
  qed (use Cons.prems in \<open>simp add: e\<close>)
qed simp

lemma bt_insert_same_blocks:
  assumes "bt_ok m" "map_of m k = Some c" "cc_block c' = cc_block c"
  shows "map (\<lambda>e. cc_block (snd e)) (bt_insert k c' m) = map (\<lambda>e. cc_block (snd e)) m"
  using bt_insert_same_view [where g = cc_block, OF assms] .

lemma emits_open_tool:
  assumes "in_step s v" "map_of (co_tool_calls s) (call_index call) = None"
  shows "emits (open_tool_block now call) [] [] s v"
proof -
  obtain i disp where opened: "open_tool_block now call s =
      (s\<lparr>co_next_index := co_next_index s + 1, co_tool_calls := bt_insert (call_index call)
           \<lparr>cc_id = i, cc_name = call_name call, cc_block = co_next_index s\<rparr> (co_tool_calls s)\<rparr>,
       [BlockStart (co_next_index s) (ToolUseBlock i disp)])"
    by (rule that) (simp only: open_tool_block_def Let_def)
  define c where "c = \<lparr>cc_id = i, cc_name = call_name call, cc_block = co_next_index s\<rparr>"
  have c: "cc_block c = co_next_index s" by (simp add: c_def)
  let ?s = "s\<lparr>co_next_index := co_next_index s + 1, co_tool_calls := bt_insert (call_index call) c (co_tool_calls s)\<rparr>"
  have n: "co_next_index s = length (cv_blocks v)" and h: "holds (held_blocks s) v"
    using assms by (simp_all add: in_step_def)
  have new: "mset (bt_insert (call_index call) c (co_tool_calls s)) = add_mset (call_index call, c) (mset (co_tool_calls s))"
    using assms(2) by (intro mset_bt_insert_new) (simp add: map_of_eq_None_iff)
  have m: "mset (held_blocks ?s) = add_mset (length (cv_blocks v), tag_of (kind_of_start (ToolUseBlock i disp))) (mset (held_blocks s))"
    by (simp add: held_blocks_def new c n)
  obtain v' where v': "client_step (BlockStart (length (cv_blocks v)) (ToolUseBlock i disp)) v = Some v'" "same_content v v'"
    "holds (held_blocks ?s) v'" "kinds v' = kinds v @ [KTool i disp]"
    "\<And>j. j < length (cv_blocks v) \<Longrightarrow> bb_content (cv_blocks v' ! j) = bb_content (cv_blocks v ! j)"
    "bb_content (cv_blocks v' ! length (cv_blocks v)) = []"
    by (rule client_start_held [OF h m, unfolded kind_of_start.simps]) (rule that)
  have len: "length (cv_blocks v') = Suc (length (cv_blocks v))"
    using v'(4) length_kinds [of v] length_kinds [of v'] by simp
  have "set (bt_insert (call_index call) c (co_tool_calls s)) = insert (call_index call, c) (set (co_tool_calls s))"
    using arg_cong [OF new, of set_mset] by simp
  then have tools: "\<forall>e \<in> set (bt_insert (call_index call) c (co_tool_calls s)). bb_content (cv_blocks v' ! cc_block (snd e)) = []"
    using tool_blocks_below [OF assms(1)] v'(5,6) assms(1) c n by (auto simp: in_step_def)
  have other: "newest v j k \<Longrightarrow> k = KThinking \<or> k = KText \<Longrightarrow> newest v' j k" for j k
    using newest_snoc [OF v'(4), of j k] by auto
  have "in_step ?s v'" using assms v'(3) len other tools n by (simp add: in_step_def)
  moreover have "open_tool_block now call s = (?s, [BlockStart (length (cv_blocks v)) (ToolUseBlock i disp)])"
    using opened by (simp add: c_def n)
  ultimately show ?thesis using v'(1,2) by (simp add: emits_def same_content_def)
qed

lemma name_tool_call_in_step:
  assumes "in_step s v"
  shows "in_step (name_tool_call call s) v"
proof (cases "map_of (co_tool_calls s) (call_index call)")
  case None
  then show ?thesis using assms by (simp add: name_tool_call_def)
next
  case (Some c)
  let ?calls = "bt_insert (call_index call) (c\<lparr>cc_name := call_name call\<rparr>) (co_tool_calls s)"
  have ok: "bt_ok (co_tool_calls s)" using assms by (simp add: in_step_def)
  have same: "map (\<lambda>e. cc_block (snd e)) ?calls = map (\<lambda>e. cc_block (snd e)) (co_tool_calls s)"
    by (rule bt_insert_same_blocks [OF ok Some]) simp
  have "held_blocks (s\<lparr>co_tool_calls := ?calls\<rparr>) = held_blocks s"
    using arg_cong [OF same, of "map (\<lambda>b. (b, TagTool))"] by (simp add: held_blocks_def comp_def)
  moreover have "\<forall>e \<in> set ?calls. bb_content (cv_blocks v ! cc_block (snd e)) = []"
  proof -
    have "\<forall>b \<in> set (map (\<lambda>e. cc_block (snd e)) ?calls). bb_content (cv_blocks v ! b) = []"
      unfolding same using assms by (simp add: in_step_def)
    then show ?thesis by simp
  qed
  ultimately show ?thesis using assms by (auto simp: name_tool_call_def Some in_step_def)
qed

lemma in_step_buffers: "in_step (s\<lparr>co_arg_buffers := b\<rparr>) v = in_step s v"
proof -
  have "held_blocks (s\<lparr>co_arg_buffers := b\<rparr>) = held_blocks s" by (simp add: held_blocks_def)
  then show ?thesis by (simp add: in_step_def)
qed

lemma buffer_arguments_in_step: "in_step s v \<Longrightarrow> in_step (buffer_arguments call s) v"
  by (simp add: buffer_arguments_def in_step_buffers)

lemma stops_keep_calls:
  "co_tool_calls (fst (stop_thinking_block s)) = co_tool_calls s" "co_tool_calls (fst (stop_text_block s)) = co_tool_calls s"
  "co_arg_buffers (fst (stop_thinking_block s)) = co_arg_buffers s" "co_arg_buffers (fst (stop_text_block s)) = co_arg_buffers s"
  by (simp_all add: stop_thinking_block_def stop_text_block_def)

lemma after_step_fst: "fst (after_step f g s) = fst (g (fst (f s)))"
  by (simp add: after_step_def split: prod.splits)

lemma emits_tool_call:
  assumes "in_step s v"
  shows "emits (handle_tool_call now call) [] [] s v"
proof (cases "(call_id call \<noteq> [] \<or> call_name call \<noteq> []) \<and> map_of (co_tool_calls s) (call_index call) = None")
  case True
  let ?f = "after_step stop_thinking_block (after_step stop_text_block (open_tool_block now call))"
  have none: "map_of (co_tool_calls (fst (stop_text_block (fst (stop_thinking_block s))))) (call_index call) = None"
    using True by (simp add: stops_keep_calls)
  have "emits ?f ([] @ [] @ []) ([] @ [] @ []) s v"
    by (intro emits_after emits_stop_thinking emits_stop_text emits_open_tool none assms)
  then show ?thesis using True buffer_arguments_in_step
    by (auto simp: emits_def handle_tool_call_def split: prod.splits)
next
  case False
  have "in_step (buffer_arguments call (name_tool_call call s)) v"
    by (intro buffer_arguments_in_step name_tool_call_in_step assms)
  then show ?thesis unfolding emits_def handle_tool_call_def if_not_P [OF False] by simp
qed

lemma emits_tool_calls: "in_step s v \<Longrightarrow> emits (handle_tool_calls now cs) [] [] s v"
proof (induction cs arbitrary: s v)
  case (Cons c cs)
  have "emits (after_step (handle_tool_call now c) (handle_tool_calls now cs)) ([] @ []) ([] @ []) s v"
    by (rule emits_after [OF emits_tool_call [OF Cons.prems] Cons.IH])
  moreover have "handle_tool_calls now (c # cs) s = after_step (handle_tool_call now c) (handle_tool_calls now cs) s"
    by simp
  ultimately show ?case by (simp add: emits_def)
qed (simp add: emits_def)

section \<open>The end closes every block\<close>

definition closed_input ::
    "(string \<Rightarrow> json option) \<Rightarrow> (json \<Rightarrow> string) \<Rightarrow> (nat \<times> string) list \<Rightarrow> nat \<times> claude_call \<Rightarrow> string" where
  "closed_input parse_json render_json buffers e =
     (let buffered = opt_default [] (map_of buffers (fst e))
      in if buffered \<noteq> [] then sanitize_tool_args parse_json render_json (cc_name (snd e)) buffered else [])"

definition tool_view :: "(nat \<times> claude_call) list \<Rightarrow> (nat \<times> block_tag) list" where
  "tool_view calls = map (\<lambda>e. (cc_block (snd e), TagTool)) calls"

text \<open>Thinking and text as they were, and the other blocks' contents.\<close>

definition prose_kept :: "client_view \<Rightarrow> client_view \<Rightarrow> bool" where
  "prose_kept v v' \<longleftrightarrow> content_of KThinking (cv_blocks v') = content_of KThinking (cv_blocks v)
     \<and> content_of KText (cv_blocks v') = content_of KText (cv_blocks v) \<and> kinds v' = kinds v"

lemma client_input_held:
  assumes "holds H v" "(i, TagTool) \<in> set H"
  obtains v' where "client_step (BlockDelta i (InputJsonDelta t)) v = Some v'" "holds H v'" "prose_kept v v'"
    "bb_content (cv_blocks v' ! i) = bb_content (cv_blocks v ! i) @ t"
    "\<And>j. j \<noteq> i \<Longrightarrow> bb_content (cv_blocks v' ! j) = bb_content (cv_blocks v ! j)"
proof
  let ?v = "v\<lparr>cv_blocks := (cv_blocks v)[i := (cv_blocks v ! i)\<lparr>bb_content := bb_content (cv_blocks v ! i) @ t\<rparr>]\<rparr>"
  have i: "i < length (cv_blocks v)" "bb_open (cv_blocks v ! i)" "tag_of (bb_kind (cv_blocks v ! i)) = TagTool"
    using holds_member [OF assms] by (auto simp: open_blocks_Some)
  then obtain ident name where kind: "bb_kind (cv_blocks v ! i) = KTool ident name"
    by (cases "bb_kind (cv_blocks v ! i)") auto
  show "client_step (BlockDelta i (InputJsonDelta t)) v = Some ?v" using i kind assms(1) by (simp add: holds_def)
  have "open_blocks ?v = open_blocks v" using i by (auto simp: open_blocks_def fun_eq_iff nth_list_update)
  then show "holds H ?v" using assms(1) by (simp add: holds_def)
  have other: "content_of k ((cv_blocks v)[i := b]) = content_of k (cv_blocks v)"
    if "bb_kind b = KTool ident name" "k \<noteq> KTool ident name" for k b
    using that kind i(1) by (subst (2) id_take_nth_drop [OF i(1)]) (simp add: content_of_def upd_conv_take_nth_drop)
  show "prose_kept v ?v" using other kind i(1)
    by (simp add: prose_kept_def kinds_def map_update list_update_same_conv)
  show "bb_content (cv_blocks ?v ! i) = bb_content (cv_blocks v ! i) @ t" using i by simp
  show "\<And>j. j \<noteq> i \<Longrightarrow> bb_content (cv_blocks ?v ! j) = bb_content (cv_blocks v ! j)" by simp
qed

lemma close_one:
  assumes "holds (tool_view (e # calls)) v" "bb_content (cv_blocks v ! cc_block (snd e)) = []"
  obtains v' where "client_run (close_tool_block pj rj buffers e) v = Some v'" "holds (tool_view calls) v'" "prose_kept v v'"
    "bb_content (cv_blocks v' ! cc_block (snd e)) = closed_input pj rj buffers e"
    "\<And>j. j \<noteq> cc_block (snd e) \<Longrightarrow> bb_content (cv_blocks v' ! j) = bb_content (cv_blocks v ! j)"
proof -
  let ?i = "cc_block (snd e)"
  have m: "mset (tool_view (e # calls)) = add_mset (?i, TagTool) (mset (tool_view calls))" by (simp add: tool_view_def)
  have mem: "(?i, TagTool) \<in> set (tool_view (e # calls))" by (simp add: tool_view_def)
  obtain k c where e: "e = (k, c)" by fastforce
  show thesis
  proof (cases "opt_default [] (map_of buffers k) = []")
    case True
    obtain v' where v': "client_step (BlockStop ?i) v = Some v'" "same_content v v'" "holds (tool_view calls) v'"
      "kinds v' = kinds v" "\<And>j. bb_content (cv_blocks v' ! j) = bb_content (cv_blocks v ! j)"
      by (rule client_stop_held [OF assms(1) m]) (rule that)
    then show thesis using True assms(2)
      by (intro that [of v']) (auto simp: e close_tool_block_def closed_input_def prose_kept_def same_content_def)
  next
    case False
    let ?t = "sanitize_tool_args pj rj (cc_name c) (opt_default [] (map_of buffers k))"
    obtain v1 where v1: "client_step (BlockDelta ?i (InputJsonDelta ?t)) v = Some v1" "holds (tool_view (e # calls)) v1"
      "prose_kept v v1" "bb_content (cv_blocks v1 ! ?i) = bb_content (cv_blocks v ! ?i) @ ?t"
      "\<And>j. j \<noteq> ?i \<Longrightarrow> bb_content (cv_blocks v1 ! j) = bb_content (cv_blocks v ! j)"
      by (rule client_input_held [OF assms(1) mem]) (rule that)
    obtain v' where v': "client_step (BlockStop ?i) v1 = Some v'" "same_content v1 v'" "holds (tool_view calls) v'"
      "kinds v' = kinds v1" "\<And>j. bb_content (cv_blocks v' ! j) = bb_content (cv_blocks v1 ! j)"
      by (rule client_stop_held [OF v1(2) m]) (rule that)
    have "client_run (close_tool_block pj rj buffers e) v = Some v'"
      using v1(1) v'(1) False by (simp add: e close_tool_block_def del: client_step.simps)
    moreover have "prose_kept v v'" using v1(3) v'(2,4) by (simp add: prose_kept_def same_content_def)
    moreover have "bb_content (cv_blocks v' ! ?i) = closed_input pj rj buffers e"
      using v1(4) v'(5) assms(2) False by (simp add: e closed_input_def)
    moreover have "\<And>j. j \<noteq> ?i \<Longrightarrow> bb_content (cv_blocks v' ! j) = bb_content (cv_blocks v ! j)"
      using v1(5) v'(5) by simp
    ultimately show thesis using v'(3) by (intro that [of v'])
  qed
qed

lemma prose_kept_trans: "prose_kept u v \<Longrightarrow> prose_kept v w \<Longrightarrow> prose_kept u w"
  by (simp add: prose_kept_def)

lemma close_all:
  assumes "holds (tool_view calls) v" "\<forall>e \<in> set calls. bb_content (cv_blocks v ! cc_block (snd e)) = []"
  shows "\<exists>v'. client_run (concat (map (close_tool_block pj rj buffers) calls)) v = Some v' \<and> holds [] v' \<and> prose_kept v v'
    \<and> (\<forall>e \<in> set calls. bb_content (cv_blocks v' ! cc_block (snd e)) = closed_input pj rj buffers e)
    \<and> (\<forall>j. j \<notin> (\<lambda>e. cc_block (snd e)) ` set calls \<longrightarrow> bb_content (cv_blocks v' ! j) = bb_content (cv_blocks v ! j))"
  using assms
proof (induction calls arbitrary: v)
  case Nil
  then show ?case by (simp add: tool_view_def prose_kept_def)
next
  case (Cons e calls)
  have fresh: "cc_block (snd e) \<notin> (\<lambda>e. cc_block (snd e)) ` set calls"
    using Cons.prems(1) by (force simp: holds_def tool_view_def)
  obtain v1 where v1: "client_run (close_tool_block pj rj buffers e) v = Some v1" "holds (tool_view calls) v1" "prose_kept v v1"
    "bb_content (cv_blocks v1 ! cc_block (snd e)) = closed_input pj rj buffers e"
    "\<And>j. j \<noteq> cc_block (snd e) \<Longrightarrow> bb_content (cv_blocks v1 ! j) = bb_content (cv_blocks v ! j)"
    by (rule close_one [OF Cons.prems(1) bspec [OF Cons.prems(2) list.set_intros(1)], of pj rj buffers]) (rule that)
  have "\<forall>e' \<in> set calls. bb_content (cv_blocks v1 ! cc_block (snd e')) = []"
  proof
    fix e' assume e': "e' \<in> set calls"
    then have "cc_block (snd e') \<noteq> cc_block (snd e)" using fresh by (auto simp: image_iff)
    then show "bb_content (cv_blocks v1 ! cc_block (snd e')) = []" using v1(5) Cons.prems(2) e' by simp
  qed
  then obtain v2 where v2: "client_run (concat (map (close_tool_block pj rj buffers) calls)) v1 = Some v2" "holds [] v2"
    "prose_kept v1 v2" "\<forall>e \<in> set calls. bb_content (cv_blocks v2 ! cc_block (snd e)) = closed_input pj rj buffers e"
    "\<forall>j. j \<notin> (\<lambda>e. cc_block (snd e)) ` set calls \<longrightarrow> bb_content (cv_blocks v2 ! j) = bb_content (cv_blocks v1 ! j)"
    using Cons.IH [OF v1(2)] by blast
  show ?case
  proof (intro exI [of _ v2] conjI)
    show "client_run (concat (map (close_tool_block pj rj buffers) (e # calls))) v = Some v2"
      using v1(1) v2(1) by (simp add: client_run_append)
    show "holds [] v2" "prose_kept v v2" using v2(2) prose_kept_trans [OF v1(3) v2(3)] by simp_all
    show "\<forall>e' \<in> set (e # calls). bb_content (cv_blocks v2 ! cc_block (snd e')) = closed_input pj rj buffers e'"
      using v2(4,5) v1(4) fresh by simp
    show "\<forall>j. j \<notin> (\<lambda>e. cc_block (snd e)) ` set (e # calls) \<longrightarrow> bb_content (cv_blocks v2 ! j) = bb_content (cv_blocks v ! j)"
      using v2(5) v1(5) by simp
  qed
qed

section \<open>Whole streams\<close>

fun claude_run ::
    "(string \<Rightarrow> json option) \<Rightarrow> (json \<Rightarrow> string) \<Rightarrow> (nat \<times> json) list \<Rightarrow> emission" where
  "claude_run parse_json render_json [] s = (s, [])"
| "claude_run parse_json render_json ((now, c) # cs) s =
     after_step (claude_events parse_json render_json now c) (claude_run parse_json render_json cs) s"

definition in_sync :: "claude_out \<Rightarrow> client_view \<Rightarrow> bool" where
  "in_sync s v \<longleftrightarrow> (if co_start_sent s then in_step s v else s = claude_out_new \<and> v = client_new)"

definition no_finish :: "json \<Rightarrow> bool" where
  "no_finish chunk \<longleftrightarrow> chunk_finish chunk = None \<or> chunk_finish chunk = Some []"

lemma capture_usage_keeps:
  "held_blocks (capture_usage c s) = held_blocks s" "co_next_index (capture_usage c s) = co_next_index s"
  "co_start_sent (capture_usage c s) = co_start_sent s" "co_tool_calls (capture_usage c s) = co_tool_calls s"
  "co_text_started (capture_usage c s) = co_text_started s" "co_text_closed (capture_usage c s) = co_text_closed s"
  "co_thinking_started (capture_usage c s) = co_thinking_started s"
  "co_thinking_index (capture_usage c s) = co_thinking_index s" "co_text_index (capture_usage c s) = co_text_index s"
  "co_arg_buffers (capture_usage c s) = co_arg_buffers s"
  by (simp_all add: capture_usage_def held_blocks_def Let_def split: option.splits json.splits)

lemma capture_usage_in_step: "in_step s v \<Longrightarrow> in_step (capture_usage c s) v"
  by (simp add: in_step_def capture_usage_keeps)

lemma emits_message_start:
  assumes "in_sync s v"
  shows "emits (emit_message_start now c) [] [] (capture_usage c s) v"
proof (cases "co_start_sent s")
  case True
  then have "in_step (capture_usage c s) v" using assms capture_usage_in_step by (simp add: in_sync_def)
  then show ?thesis by (simp add: emits_def emit_message_start_def in_step_def)
next
  case False
  then have s: "s = claude_out_new" and v: "v = client_new" using assms by (simp_all add: in_sync_def)
  let ?v = "client_new\<lparr>cv_phase := InMessage\<rparr>"
  have "held_blocks ((capture_usage c claude_out_new)\<lparr>co_start_sent := True, co_message_id := i, co_model := m, co_next_index := 0\<rparr>) = []" for i m
    by (simp add: held_blocks_def capture_usage_keeps claude_out_new_def)
  moreover have "holds [] ?v" by (auto simp: holds_def open_blocks_def client_new_def)
  ultimately show ?thesis
    by (simp add: emits_def emit_message_start_def s v capture_usage_keeps Let_def in_step_def claude_out_new_def client_new_def)
qed

lemma no_choice:
  "first_choice c = None \<Longrightarrow> chunk_text c = []" "first_choice c = None \<Longrightarrow> chunk_reasoning c = []"
  "first_choice c = None \<Longrightarrow> chunk_calls c = []" "first_choice c = None \<Longrightarrow> chunk_finish c = None"
  by (simp_all add: chunk_text_def chunk_reasoning_def chunk_calls_def chunk_finish_def choice_delta_def
      extract_reasoning_text_def)

text \<open>What a chunk does before its finish reason is looked at.\<close>

definition chunk_body :: "nat \<Rightarrow> json \<Rightarrow> emission" where
  "chunk_body now chunk =
     after_step (emit_message_start now chunk)
       (after_step (emit_reasoning (chunk_reasoning chunk))
         (after_step (emit_content (chunk_text chunk)) (handle_tool_calls now (chunk_calls chunk))))"

lemma after_step_assoc: "after_step f (after_step g h) s = after_step (after_step f g) h s"
  by (simp add: after_step_def split: prod.splits)

lemma claude_events_body:
  "first_choice c \<noteq> None \<Longrightarrow> claude_events pj rj now c s =
     after_step (chunk_body now c) (handle_finish pj rj (chunk_finish c)) (capture_usage c s)"
  by (auto simp: claude_events_def chunk_body_def after_step_def split: prod.splits)

lemma emits_body:
  assumes "in_sync s v"
  shows "emits (chunk_body now c) (chunk_reasoning c) (chunk_text c) (capture_usage c s) v"
proof -
  have "emits (chunk_body now c) ([] @ chunk_reasoning c @ [] @ []) ([] @ [] @ chunk_text c @ []) (capture_usage c s) v"
    unfolding chunk_body_def
    by (intro emits_after emits_message_start assms emits_reasoning emits_content emits_tool_calls)
  then show ?thesis by simp
qed

lemma chunk_in_sync:
  assumes "in_sync s v" "no_finish c"
  obtains v' where "client_run (snd (claude_events pj rj now c s)) v = Some v'" "in_sync (fst (claude_events pj rj now c s)) v'"
    "content_of KThinking (cv_blocks v') = content_of KThinking (cv_blocks v) @ chunk_reasoning c"
    "content_of KText (cv_blocks v') = content_of KText (cv_blocks v) @ chunk_text c"
proof (cases "first_choice c = None")
  case True
  then show ?thesis using assms by (intro that [of v]) (auto simp: claude_events_def no_choice)
next
  case False
  have none: "handle_finish pj rj (chunk_finish c) = (\<lambda>s. (s, []))"
    using assms(2) by (auto simp: no_finish_def handle_finish_def)
  obtain v' where v': "client_run (snd (chunk_body now c (capture_usage c s))) v = Some v'"
    "in_step (fst (chunk_body now c (capture_usage c s))) v'"
    "content_of KThinking (cv_blocks v') = content_of KThinking (cv_blocks v) @ chunk_reasoning c"
    "content_of KText (cv_blocks v') = content_of KText (cv_blocks v) @ chunk_text c"
    using emits_body [OF assms(1), of now c] unfolding emits_def by blast
  have ev: "claude_events pj rj now c s = chunk_body now c (capture_usage c s)"
    using False by (simp add: claude_events_body none after_step_def split: prod.splits)
  show ?thesis using v' by (intro that [of v']) (simp_all add: ev in_sync_def in_step_def)
qed

lemma chunks_in_sync:
  assumes "in_sync s v" "\<forall>(now, c) \<in> set cs. no_finish c"
  shows "\<exists>v'. client_run (snd (claude_run pj rj cs s)) v = Some v' \<and> in_sync (fst (claude_run pj rj cs s)) v'
    \<and> content_of KThinking (cv_blocks v') = content_of KThinking (cv_blocks v) @ concat (map (\<lambda>e. chunk_reasoning (snd e)) cs)
    \<and> content_of KText (cv_blocks v') = content_of KText (cv_blocks v) @ concat (map (\<lambda>e. chunk_text (snd e)) cs)"
  using assms
proof (induction cs arbitrary: s v)
  case (Cons e cs)
  obtain now c where e: "e = (now, c)" by fastforce
  obtain s1 e1 where s1: "claude_events pj rj now c s = (s1, e1)" by fastforce
  obtain s2 e2 where s2: "claude_run pj rj cs s1 = (s2, e2)" by fastforce
  have "no_finish c" using Cons.prems(2) by (simp add: e)
  then obtain v1 where v1: "client_run e1 v = Some v1" "in_sync s1 v1"
    "content_of KThinking (cv_blocks v1) = content_of KThinking (cv_blocks v) @ chunk_reasoning c"
    "content_of KText (cv_blocks v1) = content_of KText (cv_blocks v) @ chunk_text c"
    using chunk_in_sync [OF Cons.prems(1), of c pj rj now] by (auto simp: s1)
  obtain v2 where v2: "client_run e2 v1 = Some v2" "in_sync s2 v2"
    "content_of KThinking (cv_blocks v2) = content_of KThinking (cv_blocks v1) @ concat (map (\<lambda>e. chunk_reasoning (snd e)) cs)"
    "content_of KText (cv_blocks v2) = content_of KText (cv_blocks v1) @ concat (map (\<lambda>e. chunk_text (snd e)) cs)"
    using Cons.IH [OF v1(2)] Cons.prems(2) by (auto simp: s2)
  show ?case using v1 v2
    by (intro exI [of _ v2]) (simp add: e after_step_def s1 s2 client_run_append)
qed simp

lemma finish_in_step:
  assumes "in_step s v" "f \<noteq> []"
  obtains v' where "client_run (snd (handle_finish pj rj (Some f) s)) v = Some v'" "cv_phase v' = Ended"
    "\<forall>b \<in> set (cv_blocks v'). \<not> bb_open b"
    "content_of KThinking (cv_blocks v') = content_of KThinking (cv_blocks v)"
    "content_of KText (cv_blocks v') = content_of KText (cv_blocks v)"
    "cv_stop_reason v' = Some (from_openai_finish f ''claude'')"
    "\<forall>e \<in> set (co_tool_calls s). cc_block (snd e) < length (cv_blocks v')
       \<and> tag_of (bb_kind (cv_blocks v' ! cc_block (snd e))) = TagTool
       \<and> bb_content (cv_blocks v' ! cc_block (snd e)) = closed_input pj rj (co_arg_buffers s) e"
    "distinct (map (\<lambda>e. cc_block (snd e)) (co_tool_calls s))"
proof -
  let ?stop = "after_step stop_thinking_block stop_text_block"
  have "emits ?stop ([] @ []) ([] @ []) s v"
    by (intro emits_after emits_stop_thinking emits_stop_text assms(1))
  then obtain v1 where v1: "client_run (snd (?stop s)) v = Some v1" "in_step (fst (?stop s)) v1"
    "content_of KThinking (cv_blocks v1) = content_of KThinking (cv_blocks v)"
    "content_of KText (cv_blocks v1) = content_of KText (cv_blocks v)"
    by (auto simp: emits_def)
  let ?s = "fst (?stop s)"
  have calls: "co_tool_calls ?s = co_tool_calls s" "co_arg_buffers ?s = co_arg_buffers s"
    by (simp_all add: after_step_fst stops_keep_calls)
  have "co_thinking_started ?s = False" "co_text_started ?s = False"
    using assms(1) by (auto simp: after_step_fst stop_thinking_block_def stop_text_block_def in_step_def)
  then have held: "holds (tool_view (co_tool_calls s)) v1"
    using v1(2) by (simp add: in_step_def held_blocks_def tool_view_def calls)
  have "\<forall>e \<in> set (co_tool_calls s). bb_content (cv_blocks v1 ! cc_block (snd e)) = []"
    using v1(2) by (simp add: in_step_def calls)
  from close_all [OF held this, of pj rj "co_arg_buffers s"]
  obtain v2 where v2: "client_run (concat (map (close_tool_block pj rj (co_arg_buffers s)) (co_tool_calls s))) v1 = Some v2"
    "holds [] v2" "prose_kept v1 v2"
    "\<forall>e \<in> set (co_tool_calls s). bb_content (cv_blocks v2 ! cc_block (snd e)) = closed_input pj rj (co_arg_buffers s) e"
    by blast
  have closed: "\<forall>b \<in> set (cv_blocks v2). \<not> bb_open b"
    using v2(2) by (auto simp: holds_def open_blocks_def fun_eq_iff in_set_conv_nth split: if_splits)
  let ?v = "v2\<lparr>cv_phase := Ended, cv_stop_reason := Some (from_openai_finish f ''claude'')\<rparr>"
  have fin: "client_run [MessageDelta (from_openai_finish f ''claude'') u, MessageStop] v2 = Some ?v" for u
    using v2(2) closed by (simp add: holds_def list_all_iff)
  have ev: "handle_finish pj rj (Some f) s = after_step ?stop (finish_events pj rj f) s"
    using assms(2) by (simp add: handle_finish_def after_step_assoc)
  have run: "client_run (snd (handle_finish pj rj (Some f) s)) v = Some ?v"
    using v1(1) v2(1) fin calls
    by (simp add: ev after_step_def [of ?stop] finish_events_def client_run_append split_beta del: client_run.simps)
  have tags: "\<forall>e \<in> set (co_tool_calls s). cc_block (snd e) < length (cv_blocks v2)
      \<and> tag_of (bb_kind (cv_blocks v2 ! cc_block (snd e))) = TagTool"
  proof
    fix e assume e: "e \<in> set (co_tool_calls s)"
    have "(cc_block (snd e), TagTool) \<in> set (tool_view (co_tool_calls s))" using e by (auto simp: tool_view_def)
    then have o: "open_blocks v1 (cc_block (snd e)) = Some TagTool" using held holds_member by blast
    have k: "kinds v2 = kinds v1" using v2(3) by (simp add: prose_kept_def)
    have len: "length (cv_blocks v2) = length (cv_blocks v1)" using k length_kinds by metis
    have "cc_block (snd e) < length (cv_blocks v2)" using o len by (simp add: open_blocks_Some)
    moreover have "bb_kind (cv_blocks v2 ! cc_block (snd e)) = bb_kind (cv_blocks v1 ! cc_block (snd e))"
      using k o len by (metis kinds_def nth_map open_blocks_Some)
    ultimately show "cc_block (snd e) < length (cv_blocks v2) \<and> tag_of (bb_kind (cv_blocks v2 ! cc_block (snd e))) = TagTool"
      using o by (simp add: open_blocks_Some)
  qed
  show thesis
    using v1(3,4) v2(3,4) closed tags held
    by (intro that [OF run]) (simp_all add: prose_kept_def holds_def tool_view_def comp_def)
qed

lemma no_choice_events: "first_choice c = None \<Longrightarrow> claude_events pj rj now c s = (s, [])"
  by (simp add: claude_events_def)

lemma claude_run_append:
  "claude_run pj rj (xs @ ys) s = after_step (claude_run pj rj xs) (claude_run pj rj ys) s"
  by (induction xs arbitrary: s) (auto simp: after_step_def split: prod.splits)

lemma trailing_chunks: "\<forall>(now, c) \<in> set cs. first_choice c = None \<Longrightarrow> claude_run pj rj cs s = (s, [])"
  by (induction cs) (auto simp: after_step_def no_choice_events)

text \<open>A stream: chunks, one with the finish reason, and chunks without a choice, such as the usage.\<close>

lemma stream_result:
  assumes "\<forall>(now, c) \<in> set pre. no_finish c" "chunk_finish fin = Some f" "f \<noteq> []"
    and "\<forall>(now, c) \<in> set post. first_choice c = None"
  shows "\<exists>v. client_run (snd (claude_run pj rj (pre @ (now, fin) # post) claude_out_new)) client_new = Some v
    \<and> cv_phase v = Ended \<and> (\<forall>b \<in> set (cv_blocks v). \<not> bb_open b)
    \<and> content_of KThinking (cv_blocks v) = concat (map (\<lambda>e. chunk_reasoning (snd e)) (pre @ [(now, fin)]))
    \<and> content_of KText (cv_blocks v) = concat (map (\<lambda>e. chunk_text (snd e)) (pre @ [(now, fin)]))
    \<and> cv_stop_reason v = Some (from_openai_finish f ''claude'')
    \<and> (let s = fst (claude_run pj rj (pre @ (now, fin) # post) claude_out_new)
       in \<forall>e \<in> set (co_tool_calls s). cc_block (snd e) < length (cv_blocks v)
            \<and> tag_of (bb_kind (cv_blocks v ! cc_block (snd e))) = TagTool
            \<and> bb_content (cv_blocks v ! cc_block (snd e)) = closed_input pj rj (co_arg_buffers s) e)
    \<and> distinct (map (\<lambda>e. cc_block (snd e)) (co_tool_calls (fst (claude_run pj rj (pre @ (now, fin) # post) claude_out_new))))"
proof -
  obtain s1 e1 where s1: "claude_run pj rj pre claude_out_new = (s1, e1)" by fastforce
  have "in_sync claude_out_new client_new" by (simp add: in_sync_def claude_out_new_def)
  from chunks_in_sync [OF this assms(1), of pj rj]
  obtain v1 where v1: "client_run e1 client_new = Some v1" "in_sync s1 v1"
    "content_of KThinking (cv_blocks v1) = concat (map (\<lambda>e. chunk_reasoning (snd e)) pre)"
    "content_of KText (cv_blocks v1) = concat (map (\<lambda>e. chunk_text (snd e)) pre)"
    by (auto simp: s1 client_new_def content_of_def)
  have choice: "first_choice fin \<noteq> None" using assms(2) no_choice(4) by force
  obtain s2 e2 where s2: "chunk_body now fin (capture_usage fin s1) = (s2, e2)" by fastforce
  obtain v2 where v2: "client_run e2 v1 = Some v2" "in_step s2 v2"
    "content_of KThinking (cv_blocks v2) = content_of KThinking (cv_blocks v1) @ chunk_reasoning fin"
    "content_of KText (cv_blocks v2) = content_of KText (cv_blocks v1) @ chunk_text fin"
    using emits_body [OF v1(2), of now fin] by (auto simp: emits_def s2)
  obtain s3 e3 where s3: "handle_finish pj rj (Some f) s2 = (s3, e3)" by fastforce
  have keep: "co_tool_calls s3 = co_tool_calls s2" "co_arg_buffers s3 = co_arg_buffers s2"
    using arg_cong [OF s3, of fst] assms(3)
    by (auto simp: handle_finish_def after_step_fst finish_events_def stops_keep_calls)
  obtain v3 where v3: "client_run e3 v2 = Some v3" "cv_phase v3 = Ended" "\<forall>b \<in> set (cv_blocks v3). \<not> bb_open b"
    "content_of KThinking (cv_blocks v3) = content_of KThinking (cv_blocks v2)"
    "content_of KText (cv_blocks v3) = content_of KText (cv_blocks v2)"
    "cv_stop_reason v3 = Some (from_openai_finish f ''claude'')"
    "\<forall>e \<in> set (co_tool_calls s2). cc_block (snd e) < length (cv_blocks v3)
       \<and> tag_of (bb_kind (cv_blocks v3 ! cc_block (snd e))) = TagTool
       \<and> bb_content (cv_blocks v3 ! cc_block (snd e)) = closed_input pj rj (co_arg_buffers s2) e"
    "distinct (map (\<lambda>e. cc_block (snd e)) (co_tool_calls s2))"
    by (rule finish_in_step [OF v2(2) assms(3), of pj rj]) (simp add: s3)
  have run: "claude_run pj rj (pre @ (now, fin) # post) claude_out_new = (s3, e1 @ e2 @ e3)"
    using trailing_chunks [OF assms(4)]
    by (simp add: claude_run_append after_step_def s1 claude_events_body [OF choice] s2 assms(2) s3)
  show ?thesis using v1 v2 v3 keep by (intro exI [of _ v3]) (simp add: run client_run_append)
qed

section \<open>Tool calls over a stream\<close>

definition fragments :: "nat \<Rightarrow> json list \<Rightarrow> string" where
  "fragments k ds = concat (map call_arguments (filter (\<lambda>d. call_index d = k) ds))"

definition first_name :: "nat \<Rightarrow> json list \<Rightarrow> string" where
  "first_name k ds = opt_default [] (find (\<lambda>n. n \<noteq> []) (map call_name (filter (\<lambda>d. call_index d = k) ds)))"

text \<open>The first delta of every call carries its id or its name.\<close>

fun opened_first :: "nat list \<Rightarrow> json list \<Rightarrow> bool" where
  "opened_first seen [] \<longleftrightarrow> True"
| "opened_first seen (d # ds) \<longleftrightarrow>
     (call_index d \<in> set seen \<or> call_id d \<noteq> [] \<or> call_name d \<noteq> []) \<and> opened_first (call_index d # seen) ds"

definition tracks :: "json list \<Rightarrow> claude_out \<Rightarrow> bool" where
  "tracks ds s \<longleftrightarrow> bt_ok (co_tool_calls s)
     \<and> (\<forall>k. map_of (co_tool_calls s) k \<noteq> None \<longleftrightarrow> k \<in> call_index ` set ds)
     \<and> (\<forall>k. opt_default [] (map_of (co_arg_buffers s) k) = fragments k ds)
     \<and> (\<forall>k c. map_of (co_tool_calls s) k = Some c \<longrightarrow> cc_name c = first_name k ds)"

lemma fragments_snoc: "fragments k (ds @ [d]) = fragments k ds @ (if call_index d = k then call_arguments d else [])"
  by (simp add: fragments_def)

lemma find_append: "find P (xs @ ys) = opt_or (find P xs) (find P ys)"
  by (induction xs) auto

lemma first_name_snoc:
  "first_name k (ds @ [d]) = (if call_index d = k \<and> first_name k ds = [] then call_name d else first_name k ds)"
proof (cases "find (\<lambda>n. n \<noteq> []) (map call_name (filter (\<lambda>d. call_index d = k) ds))")
  case None
  then show ?thesis by (simp add: first_name_def find_append)
next
  case (Some n)
  then have "n \<noteq> []" by (auto simp: find_Some_iff)
  then show ?thesis using Some by (simp add: first_name_def find_append)
qed

lemma fragments_unseen:
  assumes "k \<notin> call_index ` set ds"
  shows "fragments k ds = [] \<and> first_name k ds = []"
proof -
  have "filter (\<lambda>d. call_index d = k) ds = []" using assms by (auto simp: filter_empty_conv)
  then show ?thesis by (simp add: fragments_def first_name_def)
qed

lemma open_tool_fields:
  "co_tool_calls (fst (open_tool_block now d s)) = bt_insert (call_index d)
     \<lparr>cc_id = (if call_id d = [] then ''toolu_gen_'' @ show_nat now @ ''_'' @ show_nat (call_index d) else call_id d),
      cc_name = call_name d, cc_block = co_next_index s\<rparr> (co_tool_calls s)"
  "co_arg_buffers (fst (open_tool_block now d s)) = co_arg_buffers s"
  by (simp_all add: open_tool_block_def Let_def)

lemma open_tool_call:
  "\<exists>c. co_tool_calls (fst (open_tool_block now d s)) = bt_insert (call_index d) c (co_tool_calls s) \<and> cc_name c = call_name d"
  by (intro exI conjI, rule open_tool_fields(1)) simp

lemma tracks_call:
  assumes "tracks ds s" "call_index d \<in> call_index ` set ds \<or> call_id d \<noteq> [] \<or> call_name d \<noteq> []"
  shows "tracks (ds @ [d]) (fst (handle_tool_call now d s))"
proof (cases "map_of (co_tool_calls s) (call_index d)")
  case None
  then have new: "call_index d \<notin> call_index ` set ds" using assms(1) unfolding tracks_def by metis
  then have "call_id d \<noteq> [] \<or> call_name d \<noteq> []" using assms(2) by blast
  then have f: "fst (handle_tool_call now d s) = buffer_arguments d
      (fst (open_tool_block now d (fst (stop_text_block (fst (stop_thinking_block s))))))"
    (is "_ = buffer_arguments d ?s1")
    using None by (simp add: handle_tool_call_def after_step_fst split_beta)
  have "\<exists>c. co_tool_calls ?s1 = bt_insert (call_index d) c (co_tool_calls s) \<and> cc_name c = call_name d"
    using open_tool_call [of now d "fst (stop_text_block (fst (stop_thinking_block s)))"] by (simp only: stops_keep_calls)
  then obtain c where s1: "co_tool_calls ?s1 = bt_insert (call_index d) c (co_tool_calls s)" "cc_name c = call_name d"
    by blast
  have s2: "co_arg_buffers ?s1 = co_arg_buffers s" by (simp add: open_tool_fields stops_keep_calls)
  have "fragments (call_index d) ds = []" "first_name (call_index d) ds = []" using fragments_unseen [OF new] by simp_all
  then show ?thesis using assms(1) s1 s2 unfolding f
    by (auto simp: tracks_def buffer_arguments_def map_simps fragments_snoc first_name_snoc)
next
  case (Some c)
  have s1: "fst (handle_tool_call now d s) = buffer_arguments d (name_tool_call d s)"
    by (simp add: handle_tool_call_def Some)
  have keep: "co_arg_buffers (name_tool_call d s) = co_arg_buffers s"
    "map_of (co_tool_calls (name_tool_call d s)) k = None \<longleftrightarrow> map_of (co_tool_calls s) k = None"
    "bt_ok (co_tool_calls (name_tool_call d s))" for k
    using assms(1) by (auto simp: name_tool_call_def Some map_simps tracks_def)
  have names: "map_of (co_tool_calls (name_tool_call d s)) k = Some c' \<Longrightarrow> cc_name c' = first_name k (ds @ [d])" for k c'
    using assms(1) Some by (auto simp: name_tool_call_def map_simps tracks_def first_name_snoc split: if_splits)
  have idx: "call_index d \<in> call_index ` set ds" using Some assms(1) by (auto simp: tracks_def)
  have same: "call_index ` set (ds @ [d]) = call_index ` set ds" using idx by auto
  have calls: "co_tool_calls (buffer_arguments d (name_tool_call d s)) = co_tool_calls (name_tool_call d s)"
    by (simp add: buffer_arguments_def)
  have present: "map_of (co_tool_calls (name_tool_call d s)) (call_index d) \<noteq> None" using Some keep(2) by simp
  have buffers: "opt_default [] (map_of (co_arg_buffers (buffer_arguments d (name_tool_call d s))) k) = fragments k (ds @ [d])" for k
    using assms(1) present by (simp add: buffer_arguments_def keep(1) fragments_snoc map_simps tracks_def)
  show ?thesis unfolding s1 tracks_def same calls
  proof (intro conjI allI impI)
    show "(map_of (co_tool_calls (name_tool_call d s)) k \<noteq> None) = (k \<in> call_index ` set ds)" for k
      using assms(1) unfolding tracks_def keep(2) by blast
  qed (use keep(3) names buffers in auto)
qed

lemma tracks_same:
  "co_tool_calls s' = co_tool_calls s \<Longrightarrow> co_arg_buffers s' = co_arg_buffers s \<Longrightarrow> tracks ds s' = tracks ds s"
  by (simp add: tracks_def)

lemma tracks_calls:
  assumes "tracks ds s" "opened_first seen cs" "set seen = call_index ` set ds"
  shows "tracks (ds @ cs) (fst (handle_tool_calls now cs s))"
  using assms
proof (induction cs arbitrary: ds s seen)
  case (Cons c cs)
  have "tracks (ds @ [c]) (fst (handle_tool_call now c s))"
    using Cons.prems by (intro tracks_call) auto
  from Cons.IH [OF this, of "call_index c # seen"] Cons.prems show ?case by (auto simp: after_step_fst)
qed simp

lemma prose_keeps_calls:
  "co_tool_calls (fst (emit_message_start now c s)) = co_tool_calls s" "co_tool_calls (fst (emit_reasoning t s)) = co_tool_calls s"
  "co_tool_calls (fst (emit_content t s)) = co_tool_calls s" "co_arg_buffers (fst (emit_message_start now c s)) = co_arg_buffers s"
  "co_arg_buffers (fst (emit_reasoning t s)) = co_arg_buffers s" "co_arg_buffers (fst (emit_content t s)) = co_arg_buffers s"
  by (simp_all add: emit_message_start_def emit_reasoning_def emit_content_def after_step_fst stops_keep_calls push_event_def
      start_thinking_block_def start_text_block_def Let_def)

lemma finish_keeps_calls:
  "co_tool_calls (fst (handle_finish pj rj f s)) = co_tool_calls s"
  "co_arg_buffers (fst (handle_finish pj rj f s)) = co_arg_buffers s"
  by (auto simp: handle_finish_def after_step_fst finish_events_def stops_keep_calls split: option.splits)

lemma opened_first_append:
  "opened_first seen (xs @ ys) \<longleftrightarrow> opened_first seen xs \<and> opened_first (rev (map call_index xs) @ seen) ys"
  by (induction xs arbitrary: seen) auto

lemma tracks_chunk:
  assumes "tracks ds s" "opened_first seen (chunk_calls c)" "set seen = call_index ` set ds"
  shows "tracks (ds @ chunk_calls c) (fst (claude_events pj rj now c s))"
proof (cases "first_choice c = None")
  case True
  then show ?thesis using assms by (simp add: no_choice_events no_choice)
next
  case False
  let ?s = "fst (emit_content (chunk_text c) (fst (emit_reasoning (chunk_reasoning c)
      (fst (emit_message_start now c (capture_usage c s))))))"
  have "tracks ds ?s" using assms(1) by (simp add: tracks_same [of ?s s] prose_keeps_calls capture_usage_keeps)
  from tracks_calls [OF this assms(2,3), of now] show ?thesis
    by (simp add: claude_events_body [OF False] after_step_fst chunk_body_def
        tracks_same [OF finish_keeps_calls])
qed

lemma tracks_run:
  assumes "tracks ds s" "opened_first seen (concat (map (\<lambda>e. chunk_calls (snd e)) cs))" "set seen = call_index ` set ds"
  shows "tracks (ds @ concat (map (\<lambda>e. chunk_calls (snd e)) cs)) (fst (claude_run pj rj cs s))"
  using assms
proof (induction cs arbitrary: ds s seen)
  case (Cons e cs)
  obtain now c where e: "e = (now, c)" by fastforce
  have "tracks (ds @ chunk_calls c) (fst (claude_events pj rj now c s))"
    using Cons.prems by (intro tracks_chunk [of _ _ seen]) (auto simp: e opened_first_append)
  from Cons.IH [OF this, of "rev (map call_index (chunk_calls c)) @ seen"] Cons.prems show ?case
    by (auto simp: e opened_first_append after_step_fst)
qed simp

subsection \<open>How a call is announced\<close>

text \<open>What the first delta of a call, read at \<open>t\<close>, makes of the block's id and name.\<close>

definition given_id :: "nat \<Rightarrow> json \<Rightarrow> string" where
  "given_id t d =
     (if call_id d = [] then ''toolu_gen_'' @ show_nat t @ ''_'' @ show_nat (call_index d) else call_id d)"

definition shown_name :: "json \<Rightarrow> string" where
  "shown_name d = (if take 6 (call_name d) = ''proxy_'' then drop 6 (call_name d) else call_name d)"

definition timed_calls :: "(nat \<times> json) list \<Rightarrow> (nat \<times> json) list" where
  "timed_calls cs = concat (map (\<lambda>e. map (Pair (fst e)) (chunk_calls (snd e))) cs)"

definition first_delta :: "nat \<Rightarrow> (nat \<times> json) list \<Rightarrow> (nat \<times> json) option" where
  "first_delta k tds = find (\<lambda>e. call_index (snd e) = k) tds"

definition announced :: "(nat \<times> json) list \<Rightarrow> claude_event list \<Rightarrow> claude_out \<Rightarrow> bool" where
  "announced tds es s \<longleftrightarrow>
     (\<forall>k c. map_of (co_tool_calls s) k = Some c \<longrightarrow>
        (\<exists>t d. first_delta k tds = Some (t, d) \<and> BlockStart (cc_block c) (ToolUseBlock (given_id t d) (shown_name d)) \<in> set es))"

lemma timed_calls_snd: "map snd (timed_calls cs) = concat (map (\<lambda>e. chunk_calls (snd e)) cs)"
  by (simp add: timed_calls_def map_concat o_def)

lemma first_delta_append: "first_delta k (xs @ ys) = opt_or (first_delta k xs) (first_delta k ys)"
  by (simp add: first_delta_def find_append)

lemma first_delta_None: "first_delta k tds = None \<longleftrightarrow> k \<notin> call_index ` set (map snd tds)"
  unfolding first_delta_def find_None_iff by (auto simp: image_iff) (metis snd_conv)+

lemma announced_more: "announced tds es s \<Longrightarrow> co_tool_calls s' = co_tool_calls s \<Longrightarrow> announced tds (es @ es') s'"
  by (fastforce simp: announced_def)

lemma announced_call:
  assumes "announced tds es s" "tracks (map snd tds) s" "call_index d \<in> call_index ` set (map snd tds) \<or> call_id d \<noteq> [] \<or> call_name d \<noteq> []"
  shows "announced (tds @ [(now, d)]) (es @ snd (handle_tool_call now d s)) (fst (handle_tool_call now d s))"
proof (cases "map_of (co_tool_calls s) (call_index d)")
  case None
  then have new: "call_index d \<notin> call_index ` set (map snd tds)" using assms(2) unfolding tracks_def by metis
  then have given: "call_id d \<noteq> [] \<or> call_name d \<noteq> []" using assms(3) by blast
  let ?s0 = "fst (stop_text_block (fst (stop_thinking_block s)))"
  have f: "co_tool_calls (fst (handle_tool_call now d s)) = co_tool_calls (fst (open_tool_block now d ?s0))"
    and e: "set (snd (open_tool_block now d ?s0)) \<subseteq> set (snd (handle_tool_call now d s))"
    using None given by (auto simp: handle_tool_call_def after_step_def split_beta buffer_arguments_def)
  have name: "opt_default (call_name d) (strip_prefix (call_name d) CLAUDE_OAUTH_TOOL_PREFIX) = shown_name d"
    by (simp add: shown_name_def strip_prefix_def starts_with_def CLAUDE_OAUTH_TOOL_PREFIX_def eval_nat_numeral)
  have start: "BlockStart (co_next_index ?s0) (ToolUseBlock (given_id now d) (shown_name d)) \<in> set (snd (handle_tool_call now d s))"
    using e by (auto simp: open_tool_block_def Let_def given_id_def name)
  have first: "first_delta (call_index d) (tds @ [(now, d)]) = Some (now, d)"
    using new first_delta_None [of "call_index d" tds] by (simp add: first_delta_append) (simp add: first_delta_def)
  show ?thesis unfolding announced_def
  proof (intro allI impI)
    fix k c
    assume c: "map_of (co_tool_calls (fst (handle_tool_call now d s))) k = Some c"
    show "\<exists>t d'. first_delta k (tds @ [(now, d)]) = Some (t, d') \<and>
        BlockStart (cc_block c) (ToolUseBlock (given_id t d') (shown_name d')) \<in> set (es @ snd (handle_tool_call now d s))"
    proof (cases "k = call_index d")
      case True
      then have "cc_block c = co_next_index ?s0"
        using c unfolding f open_tool_fields(1) by (auto simp: map_simps)
      with True first start show ?thesis by auto
    next
      case False
      then have "map_of (co_tool_calls s) k = Some c"
        using c unfolding f open_tool_fields(1) by (simp add: map_simps stops_keep_calls)
      with assms(1) obtain t d' where "first_delta k tds = Some (t, d')"
        "BlockStart (cc_block c) (ToolUseBlock (given_id t d') (shown_name d')) \<in> set es"
        unfolding announced_def by blast
      then show ?thesis by (auto simp: first_delta_append)
    qed
  qed
next
  case (Some c0)
  have e: "snd (handle_tool_call now d s) = []" and f: "co_tool_calls (fst (handle_tool_call now d s)) = co_tool_calls (name_tool_call d s)"
    by (simp_all add: handle_tool_call_def Some buffer_arguments_def)
  have keep: "\<exists>c'. map_of (co_tool_calls s) k = Some c' \<and> cc_block c' = cc_block c"
    if "map_of (co_tool_calls (name_tool_call d s)) k = Some c" for k c
    using that Some by (auto simp: name_tool_call_def map_simps split: if_splits)
  show ?thesis unfolding announced_def f e
  proof (intro allI impI)
    fix k c
    assume "map_of (co_tool_calls (name_tool_call d s)) k = Some c"
    then obtain c' where c': "map_of (co_tool_calls s) k = Some c'" "cc_block c' = cc_block c" using keep by blast
    with assms(1) obtain t d' where "first_delta k tds = Some (t, d')"
      "BlockStart (cc_block c) (ToolUseBlock (given_id t d') (shown_name d')) \<in> set es"
      unfolding announced_def by metis
    then show "\<exists>t d'. first_delta k (tds @ [(now, d)]) = Some (t, d') \<and>
        BlockStart (cc_block c) (ToolUseBlock (given_id t d') (shown_name d')) \<in> set (es @ [])"
      by (auto simp: first_delta_append)
  qed
qed

lemma announced_calls:
  assumes "announced tds es s" "tracks (map snd tds) s" "opened_first seen ds" "set seen = call_index ` set (map snd tds)"
  shows "announced (tds @ map (Pair now) ds) (es @ snd (handle_tool_calls now ds s)) (fst (handle_tool_calls now ds s))"
  using assms
proof (induction ds arbitrary: tds es s seen)
  case (Cons d ds)
  have given: "call_index d \<in> call_index ` set (map snd tds) \<or> call_id d \<noteq> [] \<or> call_name d \<noteq> []"
    using Cons.prems(3,4) by auto
  have "tracks (map snd (tds @ [(now, d)])) (fst (handle_tool_call now d s))"
    using tracks_call [OF Cons.prems(2) given, of now] by simp
  from Cons.IH [OF announced_call [OF Cons.prems(1,2) given] this, of "call_index d # seen"] Cons.prems(3,4)
  show ?case by (simp add: after_step_def split_beta)
qed simp

lemma announced_chunk:
  assumes "announced tds es s" "tracks (map snd tds) s" "opened_first seen (chunk_calls c)"
    "set seen = call_index ` set (map snd tds)"
  shows "announced (tds @ map (Pair now) (chunk_calls c)) (es @ snd (claude_events pj rj now c s)) (fst (claude_events pj rj now c s))"
proof (cases "first_choice c = None")
  case True
  then show ?thesis using assms by (simp add: no_choice_events no_choice)
next
  case False
  define step1 where "step1 = after_step (emit_message_start now c) (after_step (emit_reasoning (chunk_reasoning c)) (emit_content (chunk_text c)))"
  obtain s1 e1 where s1: "step1 (capture_usage c s) = (s1, e1)" by fastforce
  obtain s2 e2 where s2: "handle_tool_calls now (chunk_calls c) s1 = (s2, e2)" by fastforce
  obtain s3 e3 where s3: "handle_finish pj rj (chunk_finish c) s2 = (s3, e3)" by fastforce
  have run: "claude_events pj rj now c s = (s3, e1 @ e2 @ e3)"
    using s1 s2 s3 unfolding claude_events_def if_not_P [OF False] step1_def
    by (simp add: after_step_def split_beta)
  have "s1 = fst (step1 (capture_usage c s))" using s1 by simp
  then have calls: "co_tool_calls s1 = co_tool_calls s" "co_arg_buffers s1 = co_arg_buffers s"
    by (simp_all add: step1_def after_step_fst prose_keeps_calls capture_usage_keeps)
  have "tracks (map snd tds) s1" using assms(2) by (simp add: tracks_same [OF calls])
  from announced_calls [OF announced_more [OF assms(1) calls(1), of e1] this assms(3,4), of now]
  have "announced (tds @ map (Pair now) (chunk_calls c)) ((es @ e1) @ e2) s2" by (simp add: s2)
  moreover have "co_tool_calls s3 = co_tool_calls s2" using finish_keeps_calls(1) [of pj rj "chunk_finish c" s2] by (simp add: s3)
  ultimately show ?thesis using announced_more by (fastforce simp: run)
qed

lemma announced_run:
  assumes "announced tds es s" "tracks (map snd tds) s" "opened_first seen (concat (map (\<lambda>e. chunk_calls (snd e)) cs))"
    "set seen = call_index ` set (map snd tds)"
  shows "announced (tds @ timed_calls cs) (es @ snd (claude_run pj rj cs s)) (fst (claude_run pj rj cs s))"
  using assms
proof (induction cs arbitrary: tds es s seen)
  case Nil
  then show ?case by (simp add: timed_calls_def)
next
  case (Cons e cs)
  obtain now c where e: "e = (now, c)" by fastforce
  have first: "opened_first seen (chunk_calls c)"
    and rest: "opened_first (rev (map call_index (chunk_calls c)) @ seen) (concat (map (\<lambda>e. chunk_calls (snd e)) cs))"
    using Cons.prems(3) by (simp_all add: e opened_first_append)
  have "tracks (map snd (tds @ map (Pair now) (chunk_calls c))) (fst (claude_events pj rj now c s))"
    using tracks_chunk [OF Cons.prems(2) first Cons.prems(4)] by (simp add: o_def)
  from Cons.IH [OF announced_chunk [OF Cons.prems(1,2) first Cons.prems(4)] this rest] Cons.prems(4)
  show ?case by (auto simp: e timed_calls_def after_step_def split_beta o_def)
qed

text \<open>The client keeps the kind a block was announced with.\<close>

lemma client_step_kinds:
  assumes "client_step e v = Some v'" "i < length (cv_blocks v)"
  shows "i < length (cv_blocks v') \<and> bb_kind (cv_blocks v' ! i) = bb_kind (cv_blocks v ! i)"
  using assms by (cases e) (auto simp: nth_append nth_list_update split: if_splits option.splits)

lemma client_run_kinds:
  "client_run es v = Some v' \<Longrightarrow> i < length (cv_blocks v) \<Longrightarrow>
     i < length (cv_blocks v') \<and> bb_kind (cv_blocks v' ! i) = bb_kind (cv_blocks v ! i)"
proof (induction es arbitrary: v)
  case (Cons e es)
  then obtain w where w: "client_step e v = Some w" "client_run es w = Some v'" by (auto split: Option.bind_splits)
  from client_step_kinds [OF w(1) Cons.prems(2)] Cons.IH [OF w(2)] show ?case by simp
qed simp

lemma client_run_start:
  "client_run es v = Some v' \<Longrightarrow> BlockStart i b \<in> set es \<Longrightarrow> bb_kind (cv_blocks v' ! i) = kind_of_start b"
proof (induction es arbitrary: v)
  case (Cons e es)
  then obtain w where w: "client_step e v = Some w" "client_run es w = Some v'" by (auto split: Option.bind_splits)
  show ?case
  proof (cases "e = BlockStart i b")
    case True
    then have "i < length (cv_blocks w)" "bb_kind (cv_blocks w ! i) = kind_of_start b"
      using w(1) by (auto split: if_splits)
    with client_run_kinds [OF w(2)] show ?thesis by simp
  next
    case False
    with Cons.prems(2) Cons.IH [OF w(2)] show ?thesis by simp
  qed
qed simp

section \<open>Properties\<close>

definition openai_stream :: "(nat \<times> json) list \<Rightarrow> json \<Rightarrow> (nat \<times> json) list \<Rightarrow> string \<Rightarrow> bool" where
  "openai_stream pre fin post f \<longleftrightarrow> list_all (\<lambda>e. no_finish (snd e)) pre \<and> chunk_finish fin = Some f \<and> f \<noteq> []
     \<and> list_all (\<lambda>e. first_choice (snd e) = None) post"

definition sample_delta :: "json \<Rightarrow> json" where
  "sample_delta d = build_chunk \<lparr>cm_id = ''chatcmpl-12345678'', cm_created = 1, cm_model = ''m''\<rparr> d None"

definition sample_pre :: "(nat \<times> json) list" where
  "sample_pre = [(1, sample_delta (reasoning_delta ''hm'' True)), (2, sample_delta (jobj [(''content'', JStr ''Hi'')])),
     (3, sample_delta (jobj [(''tool_calls'', JArr [jobj [(''index'', jnat 0), (''id'', JStr ''c1''),
        (''function'', jobj [(''name'', JStr ''Read''), (''arguments'', JStr ''{'')])]])])),
     (4, sample_delta (jobj [(''tool_calls'', JArr [jobj [(''index'', jnat 0),
        (''function'', jobj [(''arguments'', JStr ''}'')])]])]))]"

definition sample_fin :: json where
  "sample_fin = build_chunk \<lparr>cm_id = ''chatcmpl-12345678'', cm_created = 1, cm_model = ''m''\<rparr> (jobj []) (Some ''tool_calls'')"

text \<open>C7: A Claude client understands every translated OpenAI stream. Whatever the deltas hold and however they
  interleave, the events follow the protocol (one start, blocks numbered in turn, deltas only for an
  open block of their kind, every block stopped once, then the end), and the client ends with
  exactly the reasoning and the text of the chunks and the stop reason that corresponds.\<close>

theorem claude_stream_faithful:
  assumes "openai_stream pre fin post f"
  shows "\<exists>v. client_run (snd (claude_run pj rj (pre @ (now, fin) # post) claude_out_new)) client_new = Some v
    \<and> cv_phase v = Ended \<and> (\<forall>b \<in> set (cv_blocks v). \<not> bb_open b)
    \<and> content_of KThinking (cv_blocks v) = concat (map (\<lambda>e. chunk_reasoning (snd e)) (pre @ [(now, fin)]))
    \<and> content_of KText (cv_blocks v) = concat (map (\<lambda>e. chunk_text (snd e)) (pre @ [(now, fin)]))
    \<and> cv_stop_reason v = Some (from_openai_finish f ''claude'')"
proof -
  have "\<forall>(now, c) \<in> set pre. no_finish c" "chunk_finish fin = Some f" "f \<noteq> []"
    "\<forall>(now, c) \<in> set post. first_choice c = None"
    using assms by (auto simp: openai_stream_def list_all_iff)
  from stream_result [OF this, of pj rj now] show ?thesis by blast
qed

text \<open>C16: A Claude client gets every tool call of the stream whole, provided the first delta of each call index
  carries an id or a name, as OpenAI sends it. For each index there is a tool block of its own; its id is that
  of the first delta, or one made of the clock and the index when that is empty, and its name is that of the first delta
  without the proxy prefix (a name that comes later is not shown to the client); its input is the concatenation of all the argument
  fragments sent for that index, in order, repaired by the sanitizer for the first name given;
  interleaved calls do not mix. Fragments before the first id or name would be lost, hence the proviso.\<close>

theorem tool_calls_assembled:
  assumes "openai_stream pre fin post f"
    and "opened_first [] (concat (map (\<lambda>e. chunk_calls (snd e)) (pre @ [(now, fin)])))"
  shows "\<exists>v place. client_run (snd (claude_run pj rj (pre @ (now, fin) # post) claude_out_new)) client_new = Some v
    \<and> inj_on place (call_index ` set (concat (map (\<lambda>e. chunk_calls (snd e)) (pre @ [(now, fin)]))))
    \<and> (\<forall>k \<in> call_index ` set (concat (map (\<lambda>e. chunk_calls (snd e)) (pre @ [(now, fin)]))).
         place k < length (cv_blocks v)
         \<and> (\<exists>t d. first_delta k (timed_calls (pre @ [(now, fin)])) = Some (t, d)
              \<and> bb_kind (cv_blocks v ! place k) = KTool (given_id t d) (shown_name d))
         \<and> bb_content (cv_blocks v ! place k) =
             (let args = fragments k (concat (map (\<lambda>e. chunk_calls (snd e)) (pre @ [(now, fin)])))
              in if args = [] then []
                 else sanitize_tool_args pj rj
                   (first_name k (concat (map (\<lambda>e. chunk_calls (snd e)) (pre @ [(now, fin)])))) args))"
proof -
  let ?ds = "concat (map (\<lambda>e. chunk_calls (snd e)) (pre @ [(now, fin)]))"
  let ?s = "fst (claude_run pj rj (pre @ (now, fin) # post) claude_out_new)"
  have h: "\<forall>(now, c) \<in> set pre. no_finish c" "chunk_finish fin = Some f" "f \<noteq> []"
    "\<forall>(now, c) \<in> set post. first_choice c = None"
    using assms(1) by (auto simp: openai_stream_def list_all_iff)
  obtain v where v: "client_run (snd (claude_run pj rj (pre @ (now, fin) # post) claude_out_new)) client_new = Some v"
    "\<forall>e \<in> set (co_tool_calls ?s). cc_block (snd e) < length (cv_blocks v)
       \<and> tag_of (bb_kind (cv_blocks v ! cc_block (snd e))) = TagTool
       \<and> bb_content (cv_blocks v ! cc_block (snd e)) = closed_input pj rj (co_arg_buffers ?s) e"
    "distinct (map (\<lambda>e. cc_block (snd e)) (co_tool_calls ?s))"
    using stream_result [OF h, of pj rj now] unfolding Let_def by blast
  have empty: "tracks [] claude_out_new" by (simp add: tracks_def claude_out_new_def fragments_def)
  have early: "set (snd (claude_run pj rj (pre @ [(now, fin)]) claude_out_new))
      \<subseteq> set (snd (claude_run pj rj (pre @ (now, fin) # post) claude_out_new))"
    using trailing_chunks [OF h(4)] by (simp add: claude_run_append after_step_def split_beta)
  from tracks_run [OF empty, of "[]" "pre @ [(now, fin)]" pj rj] assms(2)
  have "tracks ?ds (fst (claude_run pj rj (pre @ [(now, fin)]) claude_out_new))" by simp
  moreover have final: "?s = fst (claude_run pj rj (pre @ [(now, fin)]) claude_out_new)"
    using trailing_chunks [OF h(4)] by (simp add: claude_run_append after_step_fst)
  ultimately have tr: "tracks ?ds ?s" by simp
  have "announced [] [] claude_out_new" by (simp add: announced_def claude_out_new_def)
  from announced_run [OF this _ assms(2), of pj rj] empty
  have "announced (timed_calls (pre @ [(now, fin)])) (snd (claude_run pj rj (pre @ [(now, fin)]) claude_out_new)) ?s"
    unfolding final by simp
  then have ann: "announced (timed_calls (pre @ [(now, fin)])) (snd (claude_run pj rj (pre @ [(now, fin)]) claude_out_new)) ?s" .
  have kinds: "\<exists>t d. first_delta k (timed_calls (pre @ [(now, fin)])) = Some (t, d)
      \<and> bb_kind (cv_blocks v ! cc_block c) = KTool (given_id t d) (shown_name d)"
    if "map_of (co_tool_calls ?s) k = Some c" for k c
  proof -
    from ann that obtain t d where
      d: "first_delta k (timed_calls (pre @ [(now, fin)])) = Some (t, d)"
      and "BlockStart (cc_block c) (ToolUseBlock (given_id t d) (shown_name d))
        \<in> set (snd (claude_run pj rj (pre @ [(now, fin)]) claude_out_new))"
      unfolding announced_def by blast
    from client_run_start [OF v(1) subsetD [OF early this(2)]] d show ?thesis by simp
  qed
  let ?place = "\<lambda>k. cc_block (the (map_of (co_tool_calls ?s) k))"
  have mem: "\<exists>c. map_of (co_tool_calls ?s) k = Some c" if "k \<in> call_index ` set ?ds" for k
    using tr that unfolding tracks_def by blast
  have "inj_on ?place (call_index ` set ?ds)"
  proof (rule inj_onI)
    fix k k' assume k: "k \<in> call_index ` set ?ds" "k' \<in> call_index ` set ?ds" "?place k = ?place k'"
    then obtain c c' where c: "map_of (co_tool_calls ?s) k = Some c" "map_of (co_tool_calls ?s) k' = Some c'" using mem by blast
    then have "(k, c) \<in> set (co_tool_calls ?s)" "(k', c') \<in> set (co_tool_calls ?s)" by (simp_all add: map_of_SomeD)
    moreover have "inj_on (\<lambda>e. cc_block (snd e)) (set (co_tool_calls ?s))" using v(3) by (simp add: distinct_map)
    moreover have "cc_block (snd (k, c)) = cc_block (snd (k', c'))" using k(3) c by simp
    ultimately have "(k, c) = (k', c')" by (metis inj_onD)
    then show "k = k'" by simp
  qed
  moreover have "\<forall>k \<in> call_index ` set ?ds. ?place k < length (cv_blocks v)
      \<and> (\<exists>t d. first_delta k (timed_calls (pre @ [(now, fin)])) = Some (t, d)
          \<and> bb_kind (cv_blocks v ! ?place k) = KTool (given_id t d) (shown_name d))
      \<and> bb_content (cv_blocks v ! ?place k) = (let args = fragments k ?ds in if args = [] then []
           else sanitize_tool_args pj rj (first_name k ?ds) args)"
  proof
    fix k assume "k \<in> call_index ` set ?ds"
    then obtain c where c: "map_of (co_tool_calls ?s) k = Some c" using mem by blast
    then have "(k, c) \<in> set (co_tool_calls ?s)" by (simp add: map_of_SomeD)
    then have "cc_block c < length (cv_blocks v) \<and> tag_of (bb_kind (cv_blocks v ! cc_block c)) = TagTool
       \<and> bb_content (cv_blocks v ! cc_block c) = closed_input pj rj (co_arg_buffers ?s) (k, c)"
      using bspec [OF v(2), of "(k, c)"] by simp
    moreover have "opt_default [] (map_of (co_arg_buffers ?s) k) = fragments k ?ds" "cc_name c = first_name k ?ds"
      using tr c unfolding tracks_def by blast+
    ultimately show "?place k < length (cv_blocks v)
      \<and> (\<exists>t d. first_delta k (timed_calls (pre @ [(now, fin)])) = Some (t, d)
          \<and> bb_kind (cv_blocks v ! ?place k) = KTool (given_id t d) (shown_name d))
      \<and> bb_content (cv_blocks v ! ?place k) = (let args = fragments k ?ds in if args = [] then []
           else sanitize_tool_args pj rj (first_name k ?ds) args)"
      using kinds [OF c] by (simp add: c closed_input_def Let_def)
  qed
  ultimately show ?thesis using v(1) by blast
qed

lemma sample_openai_stream: "openai_stream sample_pre sample_fin [] ''tool_calls''"
  by (simp add: openai_stream_def sample_pre_def sample_fin_def sample_delta_def no_finish_def)

lemma sample_stream_parts:
  "concat (map (\<lambda>e. chunk_text (snd e)) (sample_pre @ [(5, sample_fin)])) = ''Hi''"
  "concat (map (\<lambda>e. chunk_reasoning (snd e)) (sample_pre @ [(5, sample_fin)])) = ''hm''"
  "concat (map (\<lambda>e. chunk_calls (snd e)) (sample_pre @ [(5, sample_fin)])) =
     [jobj [(''index'', jnat 0), (''id'', JStr ''c1''), (''function'', jobj [(''name'', JStr ''Read''), (''arguments'', JStr ''{'')])],
      jobj [(''index'', jnat 0), (''function'', jobj [(''arguments'', JStr ''}'')])]]"
  by code_simp+

theorem claude_stream_faithful_witness:
  "\<exists>v. client_run (snd (claude_run (\<lambda>_. None) (\<lambda>_. []) (sample_pre @ (5, sample_fin) # []) claude_out_new)) client_new = Some v
     \<and> content_of KText (cv_blocks v) = ''Hi'' \<and> content_of KThinking (cv_blocks v) = ''hm''"
  using claude_stream_faithful [OF sample_openai_stream, of "\<lambda>_. None" "\<lambda>_. []" 5]
  unfolding sample_stream_parts by blast

theorem tool_calls_assembled_witness:
  "\<exists>v place. client_run (snd (claude_run (\<lambda>_. None) (\<lambda>_. []) (sample_pre @ (5, sample_fin) # []) claude_out_new)) client_new = Some v
     \<and> bb_kind (cv_blocks v ! place (0 :: nat)) = KTool ''c1'' ''Read'' \<and> bb_content (cv_blocks v ! place 0) = ''{}''"
proof -
  let ?ds = "[jobj [(''index'', jnat 0), (''id'', JStr ''c1''), (''function'', jobj [(''name'', JStr ''Read''), (''arguments'', JStr ''{'')])],
      jobj [(''index'', jnat 0), (''function'', jobj [(''arguments'', JStr ''}'')])]]"
  have opened: "opened_first [] (concat (map (\<lambda>e. chunk_calls (snd e)) (sample_pre @ [(5, sample_fin)])))"
    unfolding sample_stream_parts by code_simp
  have mem: "0 \<in> call_index ` set ?ds" by code_simp
  have frag: "fragments 0 ?ds = ''{}''" by code_simp
  obtain v place where v: "client_run (snd (claude_run (\<lambda>_. None) (\<lambda>_. []) (sample_pre @ (5, sample_fin) # []) claude_out_new)) client_new = Some v"
    "\<forall>k \<in> call_index ` set ?ds. place k < length (cv_blocks v)
       \<and> (\<exists>t d. first_delta k (timed_calls (sample_pre @ [(5, sample_fin)])) = Some (t, d)
            \<and> bb_kind (cv_blocks v ! place k) = KTool (given_id t d) (shown_name d))
       \<and> bb_content (cv_blocks v ! place k) = (let args = fragments k ?ds in if args = [] then []
            else sanitize_tool_args (\<lambda>_. None) (\<lambda>_. []) (first_name k ?ds) args)"
    using tool_calls_assembled [OF sample_openai_stream opened, of "\<lambda>_. None" "\<lambda>_. []"] unfolding sample_stream_parts by blast
  have "map_option (\<lambda>e. (given_id (fst e) (snd e), shown_name (snd e))) (first_delta 0 (timed_calls (sample_pre @ [(5, sample_fin)])))
      = Some (''c1'', ''Read'')" by code_simp
  then have "bb_kind (cv_blocks v ! place 0) = KTool ''c1'' ''Read''" using bspec [OF v(2) mem] by auto
  moreover have "bb_content (cv_blocks v ! place 0) = ''{}''"
    using bspec [OF v(2) mem] by (simp add: frag sanitize_tool_args_def)
  ultimately show ?thesis using v(1) by blast
qed

text \<open>
  The usage of a stream that reports it in a last chunk of its own, without a choice, as OpenAI does
  with \<open>include_usage\<close>, never reaches the client: that chunk is dropped before its usage is read.
\<close>

lemma usage_chunk_ignored:
  "jget c ''choices'' = Some (JArr []) \<Longrightarrow> claude_events pj rj now c s = (s, [])"
  by (simp add: claude_events_def first_choice_def)

lemma read_limits:
  assumes "Option.bind (map_of (sanitize_read_args m) ''limit'') as_i64 = Some n"
  shows "1 \<le> n \<and> n \<le> 2000"
proof -
  have other: "map_of (if P then bt_remove ''pages'' m else m) ''limit'' = map_of m ''limit''" for P m
    by (simp add: map_simps)
  have offset: "map_of (case x of Some offset \<Rightarrow> if offset < 0 then bt_insert ''offset'' (jint 0) m else m | None \<Rightarrow> m) ''limit''
      = map_of m ''limit''" for x and m :: "(string \<times> json) list"
    by (simp add: map_simps split: option.splits)
  show ?thesis using assms unfolding sanitize_read_args_def Let_def other offset
    by (auto simp: map_simps jint_def split: option.splits if_splits)
qed

end
