(* ===== verification/Claude_Upstream.thy ===== *)
theory Claude_Upstream
  imports Stream_Concerns
begin

text \<open>
  A Claude event stream rewritten as OpenAI chunks
  (\<open>crates/translate/src/response/claude_to_openai.rs\<close>). \<open>now\<close> is the clock in milliseconds and
  \<open>render_json\<close> is serde_json's printer.
\<close>

section \<open>State\<close>

record openai_call =
  ok_index :: nat
  ok_id :: string
  ok_name :: string
  ok_arguments :: string

record claude_in =
  ci_message_id :: "string option"
  ci_model :: "string option"
  ci_finish_reason :: "string option"
  ci_finish_sent :: bool
  ci_usage :: "token_usage option"
  ci_tool_name_map :: "(string \<times> string) list"
  ci_tool_call_index :: nat
  ci_text_started :: bool
  ci_thinking_started :: bool
  ci_in_thinking :: bool
  ci_current_block :: "nat option"
  ci_server_tool_block :: "nat option"
  ci_calls :: "(nat \<times> openai_call) list"
  ci_input_tokens :: nat
  ci_output_tokens :: nat
  ci_cache_read :: nat
  ci_cache_creation :: nat

definition claude_in_new :: "(string \<times> string) list \<Rightarrow> claude_in" where
  "claude_in_new names = \<lparr>ci_message_id = None, ci_model = None, ci_finish_reason = None, ci_finish_sent = False,
     ci_usage = None, ci_tool_name_map = names, ci_tool_call_index = 0, ci_text_started = False,
     ci_thinking_started = False, ci_in_thinking = False, ci_current_block = None, ci_server_tool_block = None,
     ci_calls = [], ci_input_tokens = 0, ci_output_tokens = 0, ci_cache_read = 0, ci_cache_creation = 0\<rparr>"

definition original_tool_name :: "claude_in \<Rightarrow> string \<Rightarrow> string" where
  "original_tool_name s name = opt_default name (map_of (ci_tool_name_map s) name)"

definition stream_chunk :: "nat \<Rightarrow> claude_in \<Rightarrow> json \<Rightarrow> string option \<Rightarrow> json" where
  "stream_chunk now s delta finish = build_chunk
     \<lparr>cm_id = ''chatcmpl-'' @ opt_default [] (ci_message_id s), cm_created = now div 1000,
      cm_model = opt_default [] (ci_model s)\<rparr> delta finish"

section \<open>Events\<close>

definition event_index :: "json \<Rightarrow> nat option" where
  "event_index event = Option.bind (jget event ''index'') as_u64"

definition input_usage :: "claude_in \<Rightarrow> nat \<Rightarrow> token_usage" where
  "input_usage s output =
     (let prompt = wadd64 (wadd64 (ci_input_tokens s) (ci_cache_read s)) (ci_cache_creation s)
      in \<lparr>us_prompt_tokens = prompt, us_completion_tokens = output, us_total_tokens = wadd64 prompt output,
          us_cached_tokens = ci_cache_read s, us_cache_creation_tokens = ci_cache_creation s, us_reasoning_tokens = 0\<rparr>)"

definition handle_message_start :: "nat \<Rightarrow> json \<Rightarrow> claude_in \<Rightarrow> claude_in \<times> json list" where
  "handle_message_start now event s =
     (let message = jget event ''message'';
          field = (\<lambda>k. Option.bind message (\<lambda>m. get_str m k));
          s1 = s\<lparr>ci_message_id := Some (opt_default (''msg_'' @ show_nat now) (field ''id'')),
                 ci_model := field ''model'', ci_tool_call_index := 0\<rparr>;
          s2 = (case Option.bind message (\<lambda>m. jget m ''usage'') of
                  Some (JObj u) \<Rightarrow>
                    (let s' = s1\<lparr>ci_input_tokens := num (JObj u) ''input_tokens'',
                                 ci_cache_read := num (JObj u) ''cache_read_input_tokens'',
                                 ci_cache_creation := num (JObj u) ''cache_creation_input_tokens'',
                                 ci_output_tokens := 0\<rparr>
                     in s'\<lparr>ci_usage := Some (input_usage s' 0)\<rparr>)
                | _ \<Rightarrow> s1)
      in (s2, [stream_chunk now s2 (jobj [(''role'', JStr ''assistant'')]) None]))"

definition start_tool :: "(json \<Rightarrow> string) \<Rightarrow> nat \<Rightarrow> nat option \<Rightarrow> json option \<Rightarrow> claude_in \<Rightarrow> claude_in \<times> json list" where
  "start_tool render_json now index block s =
     (let tool_index = ci_tool_call_index s;
          field = (\<lambda>k. opt_default [] (Option.bind block (\<lambda>b. get_str b k)));
          name = original_tool_name s (field ''name'');
          initial = (case Option.bind block (\<lambda>b. jget b ''input'') of
                       None \<Rightarrow> [] | Some JNull \<Rightarrow> [] | Some (JObj []) \<Rightarrow> [] | Some v \<Rightarrow> render_json v);
          call = \<lparr>ok_index = tool_index, ok_id = field ''id'', ok_name = name, ok_arguments = initial\<rparr>;
          s1 = s\<lparr>ci_tool_call_index := tool_index + 1,
                 ci_calls := (case index of None \<Rightarrow> ci_calls s | Some i \<Rightarrow> bt_insert i call (ci_calls s))\<rparr>
      in (s1, [stream_chunk now s1 (jobj [(''tool_calls'', JArr [jobj
            [(''index'', jnat tool_index), (''id'', JStr (field ''id'')), (''type'', JStr ''function''),
             (''function'', jobj [(''name'', JStr name), (''arguments'', JStr initial)])]])]) None]))"

definition handle_block_start :: "(json \<Rightarrow> string) \<Rightarrow> nat \<Rightarrow> json \<Rightarrow> claude_in \<Rightarrow> claude_in \<times> json list" where
  "handle_block_start render_json now event s =
     (let index = event_index event; block = jget event ''content_block'';
          block_type = Option.bind block (\<lambda>b. get_str b ''type'')
      in if block_type = Some ''server_tool_use'' then (s\<lparr>ci_server_tool_block := index\<rparr>, [])
         else if block_type = Some ''text'' then (s\<lparr>ci_text_started := True\<rparr>, [])
         else if block_type = Some ''thinking'' then
           (let s1 = s\<lparr>ci_in_thinking := True, ci_current_block := index\<rparr>
            in (s1, [stream_chunk now s1 (jobj [(''content'', JStr ''<think>'')]) None]))
         else if block_type = Some ''tool_use'' then start_tool render_json now index block s
         else (s, []))"

definition in_server_block :: "json \<Rightarrow> claude_in \<Rightarrow> bool" where
  "in_server_block event s \<longleftrightarrow> event_index event \<noteq> None \<and> event_index event = ci_server_tool_block s"

definition handle_input_delta :: "nat \<Rightarrow> json \<Rightarrow> json \<Rightarrow> claude_in \<Rightarrow> claude_in \<times> json list" where
  "handle_input_delta now event delta s =
     (case get_str delta ''partial_json'' of
        Some (c # cs) \<Rightarrow>
          (case event_index event of
             None \<Rightarrow> (s, [])
           | Some i \<Rightarrow>
               (case map_of (ci_calls s) i of
                  None \<Rightarrow> (s, [])
                | Some call \<Rightarrow>
                    (let s1 = s\<lparr>ci_calls := bt_insert i (call\<lparr>ok_arguments := ok_arguments call @ (c # cs)\<rparr>) (ci_calls s)\<rparr>
                     in (s1, [stream_chunk now s1 (jobj [(''tool_calls'', JArr [jobj
                          [(''index'', jnat (ok_index call)), (''id'', JStr (ok_id call)),
                           (''function'', jobj [(''arguments'', JStr (c # cs))])]])]) None]))))
      | _ \<Rightarrow> (s, []))"

definition handle_block_delta :: "nat \<Rightarrow> json \<Rightarrow> claude_in \<Rightarrow> claude_in \<times> json list" where
  "handle_block_delta now event s =
     (if in_server_block event s then (s, [])
      else case jget event ''delta'' of
             None \<Rightarrow> (s, [])
           | Some delta \<Rightarrow>
               (if get_str delta ''type'' = Some ''text_delta'' then
                  (case get_str delta ''text'' of
                     Some (c # cs) \<Rightarrow> (s, [stream_chunk now s (jobj [(''content'', JStr (c # cs))]) None])
                   | _ \<Rightarrow> (s, []))
                else if get_str delta ''type'' = Some ''thinking_delta'' then
                  (case get_str delta ''thinking'' of
                     Some (c # cs) \<Rightarrow> (s, [stream_chunk now s (reasoning_delta (c # cs) False) None])
                   | _ \<Rightarrow> (s, []))
                else if get_str delta ''type'' = Some ''input_json_delta'' then handle_input_delta now event delta s
                else (s, [])))"

definition handle_block_stop :: "nat \<Rightarrow> json \<Rightarrow> claude_in \<Rightarrow> claude_in \<times> json list" where
  "handle_block_stop now event s =
     (if in_server_block event s then (s\<lparr>ci_server_tool_block := None\<rparr>, [])
      else let closes = ci_in_thinking s \<and> event_index event = ci_current_block s;
               out = (if closes then [stream_chunk now s (jobj [(''content'', JStr ''</think>'')]) None] else [])
           in (s\<lparr>ci_in_thinking := ci_in_thinking s \<and> \<not> closes, ci_text_started := False,
                 ci_thinking_started := False\<rparr>, out))"

text \<open>A member added to a chunk that is an object.\<close>

definition with_member :: "string \<Rightarrow> json \<Rightarrow> json \<Rightarrow> json" where
  "with_member k v c = (case c of JObj m \<Rightarrow> JObj (bt_insert k v m) | _ \<Rightarrow> c)"

definition delta_usage :: "json \<Rightarrow> claude_in \<Rightarrow> claude_in" where
  "delta_usage event s =
     (case jget event ''usage'' of
        Some (JObj u) \<Rightarrow>
          (let read = (\<lambda>k previous. opt_default previous (Option.bind (jget (JObj u) k) as_u64));
               s1 = s\<lparr>ci_input_tokens := read ''input_tokens'' (ci_input_tokens s),
                      ci_output_tokens := num (JObj u) ''output_tokens'',
                      ci_cache_read := read ''cache_read_input_tokens'' (ci_cache_read s),
                      ci_cache_creation := read ''cache_creation_input_tokens'' (ci_cache_creation s)\<rparr>
           in s1\<lparr>ci_usage := Some (input_usage s1 (ci_output_tokens s1))\<rparr>)
      | _ \<Rightarrow> s)"

definition merged_usage :: "claude_in \<Rightarrow> json" where
  "merged_usage s = jobj
     [(''input_tokens'', jnat (ci_input_tokens s)), (''output_tokens'', jnat (ci_output_tokens s)),
      (''cache_read_input_tokens'', jnat (ci_cache_read s)), (''cache_creation_input_tokens'', jnat (ci_cache_creation s))]"

definition handle_message_delta :: "nat \<Rightarrow> json \<Rightarrow> claude_in \<Rightarrow> claude_in \<times> json list" where
  "handle_message_delta now event s =
     (let s1 = delta_usage event s
      in case Option.bind (jget event ''delta'') (\<lambda>d. get_str d ''stop_reason'') of
           None \<Rightarrow> (s1, [])
         | Some stop_reason \<Rightarrow>
             (let finish = to_openai_finish stop_reason ''claude'';
                  s2 = s1\<lparr>ci_finish_reason := Some finish\<rparr>;
                  final = stream_chunk now s2 (jobj []) (Some finish);
                  final' = (if ci_usage s2 = None then final
                            else case to_openai_usage (merged_usage s2) UsageClaude of
                                   Some u \<Rightarrow> with_member ''usage'' (usage_to_value u) final
                                 | None \<Rightarrow> final)
              in (s2\<lparr>ci_finish_sent := True\<rparr>, [final'])))"

definition handle_message_stop :: "nat \<Rightarrow> claude_in \<Rightarrow> claude_in \<times> json list" where
  "handle_message_stop now s =
     (if ci_finish_sent s then (s, [])
      else let finish = opt_default (if ci_calls s = [] then ''stop'' else ''tool_calls'') (ci_finish_reason s);
               final = stream_chunk now s (jobj []) (Some finish);
               final' = (if ci_usage s = None then final
                         else with_member ''usage'' (jobj
                           [(''prompt_tokens'', jnat (ci_input_tokens s)), (''completion_tokens'', jnat (ci_output_tokens s)),
                            (''total_tokens'', jnat (wadd64 (ci_input_tokens s) (ci_output_tokens s)))]) final)
           in (s\<lparr>ci_finish_sent := True\<rparr>, [final']))"

definition claude_to_openai :: "(json \<Rightarrow> string) \<Rightarrow> nat \<Rightarrow> json \<Rightarrow> claude_in \<Rightarrow> claude_in \<times> json list" where
  "claude_to_openai render_json now event s =
     (case get_str event ''type'' of
        None \<Rightarrow> (s, [])
      | Some t \<Rightarrow>
          if t = ''message_start'' then handle_message_start now event s
          else if t = ''content_block_start'' then handle_block_start render_json now event s
          else if t = ''content_block_delta'' then handle_block_delta now event s
          else if t = ''content_block_stop'' then handle_block_stop now event s
          else if t = ''message_delta'' then handle_message_delta now event s
          else if t = ''message_stop'' then handle_message_stop now s
          else (s, []))"

fun claude_to_openai_run :: "(json \<Rightarrow> string) \<Rightarrow> (nat \<times> json) list \<Rightarrow> claude_in \<Rightarrow> claude_in \<times> json list" where
  "claude_to_openai_run render_json [] s = (s, [])"
| "claude_to_openai_run render_json ((now, e) # es) s =
     (case claude_to_openai render_json now e s of (s1, c1) \<Rightarrow>
        case claude_to_openai_run render_json es s1 of (s2, c2) \<Rightarrow> (s2, c1 @ c2))"

end
