(* ===== verification/Collapse.thy ===== *)
theory Collapse
  imports Claude_Upstream
begin

text \<open>
  The collapse of a stream into one answer (\<open>collapse_stream_to_json\<close> and \<open>merge_tool_calls\<close> of
  \<open>crates/execute/src/stream.rs\<close>) over translated chunks, and what it keeps of a Claude stream.
\<close>

section \<open>Merging tool call deltas\<close>

definition pointer2 :: "string \<Rightarrow> string \<Rightarrow> json \<Rightarrow> string option" where
  "pointer2 a b v = Option.bind (jget v a) (\<lambda>w. get_str w b)"

definition update_function :: "((string \<times> json) list \<Rightarrow> (string \<times> json) list) \<Rightarrow> json \<Rightarrow> json" where
  "update_function g call =
     (case call of
        JObj m \<Rightarrow>
          (case map_of m ''function'' of
             Some (JObj f) \<Rightarrow> JObj (bt_insert ''function'' (JObj (g f)) m)
           | _ \<Rightarrow> call)
      | _ \<Rightarrow> call)"

definition merge_into :: "json \<Rightarrow> json \<Rightarrow> json" where
  "merge_into delta existing =
     (let fragment = opt_default [] (pointer2 ''function'' ''arguments'' delta);
          combined = opt_default [] (pointer2 ''function'' ''arguments'' existing) @ fragment;
          e1 = (if fragment = [] then existing
                else update_function (bt_insert ''arguments'' (JStr combined)) existing)
      in case pointer2 ''function'' ''name'' delta of
           None \<Rightarrow> e1
         | Some name \<Rightarrow>
             update_function (\<lambda>f. if opt_default [] (Option.bind (map_of f ''name'') as_str) = []
                                  then bt_insert ''name'' (JStr name) f else f) e1)"

text \<open>The first call with that index is the one a delta belongs to; without one it opens a new call.\<close>

fun merge_at :: "nat \<Rightarrow> json \<Rightarrow> json list \<Rightarrow> json list" where
  "merge_at index delta [] = [delta]"
| "merge_at index delta (c # cs) =
     (if Option.bind (jget c ''index'') as_u64 = Some index then merge_into delta c # cs
      else c # merge_at index delta cs)"

definition merge_tool_call :: "json \<Rightarrow> json list \<Rightarrow> json list" where
  "merge_tool_call delta acc = merge_at (num delta ''index'') delta acc"

definition merge_tool_calls :: "json list \<Rightarrow> json list \<Rightarrow> json list" where
  "merge_tool_calls acc deltas = fold merge_tool_call deltas acc"

section \<open>The collapsed answer\<close>

record collapsed =
  cl_text :: string
  cl_reasoning :: string
  cl_tool_calls :: "json list"
  cl_finish_reason :: "string option"
  cl_usage :: "token_usage option"

definition collapsed_new :: collapsed where
  "collapsed_new = \<lparr>cl_text = [], cl_reasoning = [], cl_tool_calls = [], cl_finish_reason = None, cl_usage = None\<rparr>"

definition take_chunk :: "json \<Rightarrow> collapsed \<Rightarrow> collapsed" where
  "take_chunk chunk c =
     \<lparr>cl_text = cl_text c @ chunk_text chunk,
      cl_reasoning = cl_reasoning c
        @ opt_default [] (Option.bind (choice_delta chunk) (\<lambda>d. get_str d ''reasoning_content'')),
      cl_tool_calls = merge_tool_calls (cl_tool_calls c) (chunk_calls chunk),
      cl_finish_reason = opt_or (chunk_finish chunk) (cl_finish_reason c),
      cl_usage = (case jget chunk ''usage'' of
                    Some (JObj u) \<Rightarrow> Some (usage_from_openai (JObj u)) | _ \<Rightarrow> cl_usage c)\<rparr>"

definition collapse_chunks :: "json list \<Rightarrow> collapsed" where
  "collapse_chunks chunks = fold take_chunk chunks collapsed_new"

text \<open>\<open>message_id\<close> and \<open>usage\<close> are those of the stream state when the body has been drained.\<close>

definition collapsed_body ::
    "nat \<Rightarrow> string \<Rightarrow> string option \<Rightarrow> token_usage option \<Rightarrow> collapsed \<Rightarrow> json" where
  "collapsed_body now model message_id usage c =
     (let message = jobj ([(''role'', JStr ''assistant''), (''content'', JStr (cl_text c))]
            @ (if cl_reasoning c = [] then [] else [(''reasoning_content'', JStr (cl_reasoning c))])
            @ (if cl_tool_calls c = [] then [] else [(''tool_calls'', JArr (cl_tool_calls c))]));
          finish = opt_default (if cl_tool_calls c = [] then ''stop'' else ''tool_calls'') (cl_finish_reason c)
      in jobj ([(''id'', JStr (''chatcmpl-'' @ opt_default [] message_id)), (''object'', JStr ''chat.completion''),
                (''created'', jnat (now div 1000)), (''model'', JStr model),
                (''choices'', JArr [jobj [(''index'', jnat 0), (''message'', message), (''finish_reason'', JStr finish)]])]
               @ (case opt_or usage (cl_usage c) of
                    None \<Rightarrow> [] | Some u \<Rightarrow> [(''usage'', usage_to_value u)])))"

text \<open>A Claude upstream collapsed for a client that asked for plain JSON.\<close>

definition collapse_claude ::
    "(json \<Rightarrow> string) \<Rightarrow> nat \<Rightarrow> string \<Rightarrow> (string \<times> string) list \<Rightarrow> (nat \<times> json) list \<Rightarrow> json" where
  "collapse_claude render_json now model names events =
     (case claude_to_openai_run render_json events (claude_in_new names) of
        (s, chunks) \<Rightarrow> collapsed_body now model (ci_message_id s) (ci_usage s) (collapse_chunks chunks))"

lemma cl_tool_calls_fold:
  "cl_tool_calls (fold take_chunk chunks c) = fold (\<lambda>ch acc. merge_tool_calls acc (chunk_calls ch)) chunks (cl_tool_calls c)"
  by (induction chunks arbitrary: c) (simp_all add: take_chunk_def)

lemma cl_text_fold: "cl_text (fold take_chunk chunks c) = cl_text c @ concat (map chunk_text chunks)"
  by (induction chunks arbitrary: c) (simp_all add: take_chunk_def)

section \<open>Merging what the Claude translator sends\<close>

definition call_json :: "nat \<Rightarrow> string \<Rightarrow> string \<Rightarrow> string \<Rightarrow> json" where
  "call_json index i name args = jobj
     [(''index'', jnat index), (''id'', JStr i), (''type'', JStr ''function''),
      (''function'', jobj [(''name'', JStr name), (''arguments'', JStr args)])]"

definition input_json :: "nat \<Rightarrow> string \<Rightarrow> string \<Rightarrow> json" where
  "input_json index i fragment = jobj
     [(''index'', jnat index), (''id'', JStr i), (''function'', jobj [(''arguments'', JStr fragment)])]"

lemma merge_into_call:
  "merge_into (input_json k i' fragment) (call_json k i name args) = call_json k i name (args @ fragment)"
proof -
  have f: "pointer2 ''function'' ''arguments'' (input_json k i' fragment) = Some fragment"
    "pointer2 ''function'' ''arguments'' (call_json k i name args) = Some args"
    "pointer2 ''function'' ''name'' (input_json k i' fragment) = None"
    by (simp_all add: pointer2_def input_json_def call_json_def jget_jobj get_str_def)
  have "update_function (bt_insert ''arguments'' (JStr x)) (call_json k i name args) = call_json k i name x" for x
    by (simp add: update_function_def call_json_def jobj_def)
  then show ?thesis by (simp add: merge_into_def f)
qed

fun calls_from :: "nat \<Rightarrow> (string \<times> string \<times> string) list \<Rightarrow> json list" where
  "calls_from k [] = []"
| "calls_from k ((i, name, args) # cs) = call_json k i name args # calls_from (Suc k) cs"

lemma call_json_index [simp]: "Option.bind (jget (call_json k i name args) ''index'') as_u64 = Some k"
  by (simp add: call_json_def jget_jobj)

lemma num_index [simp]: "num (call_json k i name args) ''index'' = k" "num (input_json k i f) ''index'' = k"
  by (simp_all add: num_def call_json_def input_json_def jget_jobj)

lemma merge_new: "merge_at (k + length cs) d (calls_from k cs) = calls_from k cs @ [d]"
  by (induction k cs rule: calls_from.induct) auto

lemma merge_old:
  "j < length cs \<Longrightarrow> cs ! j = (i, name, args) \<Longrightarrow>
     merge_at (k + j) (input_json (k + j) i' f) (calls_from k cs) = calls_from k (cs[j := (i, name, args @ f)])"
proof (induction k cs arbitrary: j rule: calls_from.induct)
  case (2 k i1 name1 args1 cs)
  then show ?case by (cases j) (auto simp: merge_into_call)
qed simp

lemma calls_from_snoc: "calls_from k (cs @ [(i, name, args)]) = calls_from k cs @ [call_json (k + length cs) i name args]"
  by (induction k cs rule: calls_from.induct) auto

lemma calls_from_nth: "j < length cs \<Longrightarrow> cs ! j = (i, name, args) \<Longrightarrow> call_json (k + j) i name args \<in> set (calls_from k cs)"
proof (induction k cs arbitrary: j rule: calls_from.induct)
  case (2 k i1 name1 args1 cs)
  then show ?case by (cases j) force+
qed simp

text \<open>The calls of the state, as the list of calls merged so far has them.\<close>

definition merged :: "claude_in \<Rightarrow> (string \<times> string \<times> string) list \<Rightarrow> bool" where
  "merged s cs \<longleftrightarrow> length cs = ci_tool_call_index s
     \<and> (\<forall>b c. map_of (ci_calls s) b = Some c \<longrightarrow>
          ok_index c < length cs \<and> cs ! ok_index c = (ok_id c, ok_name c, ok_arguments c))
     \<and> (\<forall>b b' c c'. map_of (ci_calls s) b = Some c \<longrightarrow> map_of (ci_calls s) b' = Some c'
          \<longrightarrow> ok_index c = ok_index c' \<longrightarrow> b = b')"

definition merge_all :: "json list \<Rightarrow> json list \<Rightarrow> json list" where
  "merge_all chunks acc = fold (\<lambda>ch acc. merge_tool_calls acc (chunk_calls ch)) chunks acc"

lemma stream_chunk_calls:
  "chunk_calls (stream_chunk now s d f) = opt_default [] (Option.bind (jget d ''tool_calls'') as_array)"
  by (simp add: stream_chunk_def chunk_calls_def)

lemma with_usage_parts:
  "choice_delta (with_member ''usage'' u (stream_chunk now s d f)) = Some d"
  "chunk_finish (with_member ''usage'' u (stream_chunk now s d f)) = f"
  by (simp_all add: with_member_def stream_chunk_def build_chunk_def jobj_def first_choice_def choice_delta_def
      chunk_finish_def get_str_def opt_json_def map_simps split: option.splits)

lemma with_usage_calls:
  "chunk_calls (with_member ''usage'' u (stream_chunk now s d f)) = opt_default [] (Option.bind (jget d ''tool_calls'') as_array)"
  by (simp add: chunk_calls_def with_usage_parts)

text \<open>Events other than the start of a message: what they do to the tool calls.\<close>

definition tool_start :: "json \<Rightarrow> nat \<Rightarrow> bool" where
  "tool_start e i \<longleftrightarrow> get_str e ''type'' = Some ''content_block_start'' \<and> event_index e = Some i"

definition partial_for :: "nat \<Rightarrow> json \<Rightarrow> string" where
  "partial_for i e =
     (if get_str e ''type'' = Some ''content_block_delta'' \<and> event_index e = Some i
         \<and> Option.bind (jget e ''delta'') (\<lambda>d. get_str d ''type'') = Some ''input_json_delta''
      then opt_default [] (Option.bind (jget e ''delta'') (\<lambda>d. get_str d ''partial_json'')) else [])"

lemma no_delta_calls [simp]:
  "jget (jobj []) k = None" "jget (reasoning_delta t False) ''tool_calls'' = None"
  "jget (jobj [(''content'', v)]) ''tool_calls'' = None" "jget (jobj [(''role'', v)]) ''tool_calls'' = None"
  by (simp_all add: jget_jobj reasoning_delta_def)

lemma quiet_step:
  assumes "claude_to_openai rj now e s = (s', chunks)" "get_str e ''type'' \<noteq> Some ''message_start''"
    and "get_str e ''type'' = Some ''content_block_start'' \<Longrightarrow> Option.bind (jget e ''content_block'') (\<lambda>b. get_str b ''type'') \<noteq> Some ''tool_use''"
    and "get_str e ''type'' = Some ''content_block_delta'' \<Longrightarrow> Option.bind (jget e ''delta'') (\<lambda>d. get_str d ''type'') \<noteq> Some ''input_json_delta''"
  shows "ci_calls s' = ci_calls s \<and> ci_tool_call_index s' = ci_tool_call_index s \<and> (\<forall>ch \<in> set chunks. chunk_calls ch = [])"
proof -
  have start: "handle_block_start rj now e s = (s', chunks) \<Longrightarrow> get_str e ''type'' = Some ''content_block_start'' \<Longrightarrow> ?thesis"
    using assms(3) by (auto simp: handle_block_start_def Let_def stream_chunk_calls split: if_splits)
  have delta: "handle_block_delta now e s = (s', chunks) \<Longrightarrow> get_str e ''type'' = Some ''content_block_delta'' \<Longrightarrow> ?thesis"
    using assms(4) by (auto simp: handle_block_delta_def stream_chunk_calls split: if_splits option.splits list.splits)
  have stop: "handle_block_stop now e s = (s', chunks) \<Longrightarrow> ?thesis"
    by (auto simp: handle_block_stop_def Let_def stream_chunk_calls split: if_splits)
  have md: "ci_calls (delta_usage e s) = ci_calls s" "ci_tool_call_index (delta_usage e s) = ci_tool_call_index s"
    by (simp_all add: delta_usage_def Let_def split: option.splits json.splits)
  have mdelta: "handle_message_delta now e s = (s', chunks) \<Longrightarrow> ?thesis"
    using md by (auto simp: handle_message_delta_def Let_def stream_chunk_calls with_usage_calls split: if_splits option.splits)
  have mstop: "handle_message_stop now s = (s', chunks) \<Longrightarrow> ?thesis"
    by (auto simp: handle_message_stop_def Let_def stream_chunk_calls with_usage_calls split: if_splits)
  show ?thesis
    using assms(1,2) start delta stop mdelta mstop
    by (auto simp: claude_to_openai_def split: option.splits if_splits)
qed

lemma merge_all_simps:
  "merge_all [] acc = acc" "merge_all (xs @ ys) acc = merge_all ys (merge_all xs acc)"
  "merge_all [ch] acc = merge_tool_calls acc (chunk_calls ch)"
  by (simp_all add: merge_all_def)

lemma merge_all_quiet: "\<forall>ch \<in> set chunks. chunk_calls ch = [] \<Longrightarrow> merge_all chunks acc = acc"
  by (induction chunks arbitrary: acc) (auto simp: merge_all_def merge_tool_calls_def)

definition block_field :: "json \<Rightarrow> string \<Rightarrow> string" where
  "block_field e k = opt_default [] (Option.bind (jget e ''content_block'') (\<lambda>b. get_str b k))"

definition initial_input :: "(json \<Rightarrow> string) \<Rightarrow> json \<Rightarrow> string" where
  "initial_input rj e =
     (case Option.bind (jget e ''content_block'') (\<lambda>b. jget b ''input'') of
        None \<Rightarrow> [] | Some JNull \<Rightarrow> [] | Some (JObj []) \<Rightarrow> [] | Some v \<Rightarrow> rj v)"

lemma start_tool_eq:
  "start_tool rj now index (jget e ''content_block'') s =
     (s\<lparr>ci_tool_call_index := ci_tool_call_index s + 1,
        ci_calls := (case index of None \<Rightarrow> ci_calls s
          | Some i \<Rightarrow> bt_insert i \<lparr>ok_index = ci_tool_call_index s, ok_id = block_field e ''id'',
              ok_name = original_tool_name s (block_field e ''name''), ok_arguments = initial_input rj e\<rparr> (ci_calls s))\<rparr>,
      [stream_chunk now (s\<lparr>ci_tool_call_index := ci_tool_call_index s + 1,
        ci_calls := (case index of None \<Rightarrow> ci_calls s
          | Some i \<Rightarrow> bt_insert i \<lparr>ok_index = ci_tool_call_index s, ok_id = block_field e ''id'',
              ok_name = original_tool_name s (block_field e ''name''), ok_arguments = initial_input rj e\<rparr> (ci_calls s))\<rparr>)
        (jobj [(''tool_calls'', JArr [call_json (ci_tool_call_index s) (block_field e ''id'')
          (original_tool_name s (block_field e ''name'')) (initial_input rj e)])]) None])"
  unfolding start_tool_def Let_def block_field_def initial_input_def call_json_def ..

lemma tool_step:
  assumes "get_str e ''type'' = Some ''content_block_start''"
    and "Option.bind (jget e ''content_block'') (\<lambda>b. get_str b ''type'') = Some ''tool_use''" "merged s cs"
  obtains s' chunks where "claude_to_openai rj now e s = (s', chunks)"
    "merged s' (cs @ [(block_field e ''id'', original_tool_name s (block_field e ''name''), initial_input rj e)])"
    "merge_all chunks (calls_from 0 cs) =
       calls_from 0 (cs @ [(block_field e ''id'', original_tool_name s (block_field e ''name''), initial_input rj e)])"
    "\<And>b. map_of (ci_calls s') b = (if event_index e = Some b then
         Some \<lparr>ok_index = length cs, ok_id = block_field e ''id'', ok_name = original_tool_name s (block_field e ''name''),
               ok_arguments = initial_input rj e\<rparr> else map_of (ci_calls s) b)"
    "ci_server_tool_block s' = ci_server_tool_block s" "ci_tool_name_map s' = ci_tool_name_map s"
proof -
  obtain s' chunks where step: "claude_to_openai rj now e s = (s', chunks)" by fastforce
  have len: "length cs = ci_tool_call_index s" using assms(3) by (simp add: merged_def)
  let ?call = "\<lparr>ok_index = length cs, ok_id = block_field e ''id'',
      ok_name = original_tool_name s (block_field e ''name''), ok_arguments = initial_input rj e\<rparr>"
  have st: "start_tool rj now (event_index e) (jget e ''content_block'') s = (s', chunks)"
    using step assms(1,2) by (simp add: claude_to_openai_def handle_block_start_def Let_def)
  then have s': "s' = s\<lparr>ci_tool_call_index := length cs + 1,
      ci_calls := (case event_index e of None \<Rightarrow> ci_calls s | Some i \<Rightarrow> bt_insert i ?call (ci_calls s))\<rparr>"
    and ch: "chunks = [stream_chunk now s' (jobj [(''tool_calls'', JArr [call_json (length cs) (block_field e ''id'')
        (original_tool_name s (block_field e ''name'')) (initial_input rj e)])]) None]"
    unfolding start_tool_eq len [symmetric] by auto
  have calls: "map_of (ci_calls s') b = (if event_index e = Some b then Some ?call else map_of (ci_calls s) b)" for b
    by (simp add: s' map_simps split: option.split)
  have old: "ok_index c < length cs \<and> cs ! ok_index c = (ok_id c, ok_name c, ok_arguments c)"
    if "map_of (ci_calls s) b = Some c" for b c
    using assms(3) that unfolding merged_def by blast
  have apart: "b = b'" if "map_of (ci_calls s) b = Some c" "map_of (ci_calls s) b' = Some c'" "ok_index c = ok_index c'" for b b' c c'
    using assms(3) that unfolding merged_def by blast
  let ?cs = "cs @ [(block_field e ''id'', original_tool_name s (block_field e ''name''), initial_input rj e)]"
  have "merged s' ?cs"
    unfolding merged_def calls
  proof (intro conjI allI impI)
    show "length ?cs = ci_tool_call_index s'" by (simp add: s')
  next
    fix b c assume c: "(if event_index e = Some b then Some ?call else map_of (ci_calls s) b) = Some c"
    show "ok_index c < length ?cs"
      using c old [of b c] by (cases "event_index e = Some b") auto
    show "?cs ! ok_index c = (ok_id c, ok_name c, ok_arguments c)"
      using c old [of b c] by (cases "event_index e = Some b") (auto simp: nth_append)
  next
    fix b b' c c' assume c: "(if event_index e = Some b then Some ?call else map_of (ci_calls s) b) = Some c"
      "(if event_index e = Some b' then Some ?call else map_of (ci_calls s) b') = Some c'" "ok_index c = ok_index c'"
    then show "b = b'"
      using old [of b c] old [of b' c'] apart [of b c b' c']
      by (cases "event_index e = Some b"; cases "event_index e = Some b'") auto
  qed
  moreover have "merge_all chunks (calls_from 0 cs) =
       calls_from 0 (cs @ [(block_field e ''id'', original_tool_name s (block_field e ''name''), initial_input rj e)])"
    using ch merge_new [of 0 cs] by (auto simp: merge_all_simps stream_chunk_calls jget_jobj merge_tool_calls_def
        merge_tool_call_def calls_from_snoc)
  ultimately show thesis using step calls by (intro that [of s' chunks]) (auto simp: s')
qed

lemma input_delta_eq:
  assumes "get_str d ''partial_json'' = Some (x # xs)" "event_index e = Some i" "map_of (ci_calls s) i = Some c"
  shows "handle_input_delta now e d s =
     (s\<lparr>ci_calls := bt_insert i (c\<lparr>ok_arguments := ok_arguments c @ (x # xs)\<rparr>) (ci_calls s)\<rparr>,
      [stream_chunk now (s\<lparr>ci_calls := bt_insert i (c\<lparr>ok_arguments := ok_arguments c @ (x # xs)\<rparr>) (ci_calls s)\<rparr>)
        (jobj [(''tool_calls'', JArr [input_json (ok_index c) (ok_id c) (x # xs)])]) None])"
  using assms unfolding handle_input_delta_def input_json_def Let_def by simp

text \<open>A step of the translator with the merge of what it sends.\<close>

definition good_step :: "json \<Rightarrow> claude_in \<Rightarrow> claude_in \<Rightarrow> json list \<Rightarrow> (string \<times> string \<times> string) list \<Rightarrow> bool" where
  "good_step e s s' chunks cs \<longleftrightarrow>
     (\<exists>cs'. merged s' cs' \<and> merge_all chunks (calls_from 0 cs) = calls_from 0 cs')
     \<and> ci_tool_name_map s' = ci_tool_name_map s
     \<and> (\<forall>i. \<not> tool_start e i \<longrightarrow> ci_server_tool_block s \<noteq> Some i \<longrightarrow>
          ci_server_tool_block s' \<noteq> Some i
          \<and> (\<forall>c. map_of (ci_calls s) i = Some c \<longrightarrow>
               map_of (ci_calls s') i = Some (c\<lparr>ok_arguments := ok_arguments c @ partial_for i e\<rparr>)))"

lemma merged_input:
  assumes "merged s cs" "map_of (ci_calls s) i = Some c"
  shows "merged (s\<lparr>ci_calls := bt_insert i (c\<lparr>ok_arguments := ok_arguments c @ t\<rparr>) (ci_calls s)\<rparr>)
      (cs[ok_index c := (ok_id c, ok_name c, ok_arguments c @ t)])"
    "merge_at (ok_index c) (input_json (ok_index c) (ok_id c) t) (calls_from 0 cs)
      = calls_from 0 (cs[ok_index c := (ok_id c, ok_name c, ok_arguments c @ t)])"
proof -
  have old: "ok_index x < length cs \<and> cs ! ok_index x = (ok_id x, ok_name x, ok_arguments x)"
    if "map_of (ci_calls s) b = Some x" for b x
    using assms(1) that unfolding merged_def by blast
  have apart: "b = b'" if "map_of (ci_calls s) b = Some x" "map_of (ci_calls s) b' = Some x'" "ok_index x = ok_index x'" for b b' x x'
    using assms(1) that unfolding merged_def by blast
  let ?c = "c\<lparr>ok_arguments := ok_arguments c @ t\<rparr>"
  let ?cs = "cs[ok_index c := (ok_id c, ok_name c, ok_arguments c @ t)]"
  have calls: "map_of (bt_insert i ?c (ci_calls s)) b = (if b = i then Some ?c else map_of (ci_calls s) b)" for b
    by (simp add: map_simps)
  show "merged (s\<lparr>ci_calls := bt_insert i ?c (ci_calls s)\<rparr>) ?cs"
    unfolding merged_def
  proof (intro conjI allI impI)
    show "length ?cs = ci_tool_call_index (s\<lparr>ci_calls := bt_insert i ?c (ci_calls s)\<rparr>)"
      using assms(1) by (simp add: merged_def)
  next
    fix b x assume "map_of (ci_calls (s\<lparr>ci_calls := bt_insert i ?c (ci_calls s)\<rparr>)) b = Some x"
    then have x: "(if b = i then Some ?c else map_of (ci_calls s) b) = Some x" by (simp add: calls)
    have "ok_index x < length ?cs \<and> ?cs ! ok_index x = (ok_id x, ok_name x, ok_arguments x)"
    proof (cases "b = i")
      case True
      then have "x = ?c" using x by simp
      then show ?thesis using old [OF assms(2)] by simp
    next
      case False
      then have b: "map_of (ci_calls s) b = Some x" using x by simp
      then have "ok_index x \<noteq> ok_index c" using apart [OF b assms(2)] False by blast
      then show ?thesis using old [OF b] by simp
    qed
    then show "ok_index x < length ?cs" "?cs ! ok_index x = (ok_id x, ok_name x, ok_arguments x)" by simp_all
  next
    fix b b' x x'
    assume "map_of (ci_calls (s\<lparr>ci_calls := bt_insert i ?c (ci_calls s)\<rparr>)) b = Some x"
      "map_of (ci_calls (s\<lparr>ci_calls := bt_insert i ?c (ci_calls s)\<rparr>)) b' = Some x'" and eq: "ok_index x = ok_index x'"
    then have x: "(if b = i then Some ?c else map_of (ci_calls s) b) = Some x"
      "(if b' = i then Some ?c else map_of (ci_calls s) b') = Some x'" by (simp_all add: calls)
    have origin: "\<exists>y. map_of (ci_calls s) b = Some y \<and> ok_index y = ok_index x"
      if "(if b = i then Some ?c else map_of (ci_calls s) b) = Some x" for b x
      using that assms(2) by (cases "b = i") auto
    from origin [OF x(1)] origin [OF x(2)] eq show "b = b'" using apart by metis
  qed
  show "merge_at (ok_index c) (input_json (ok_index c) (ok_id c) t) (calls_from 0 cs) = calls_from 0 ?cs"
    using merge_old [of "ok_index c" cs "ok_id c" "ok_name c" "ok_arguments c" 0] old [OF assms(2)] by simp
qed

lemma quiet_server:
  assumes "claude_to_openai rj now e s = (s', chunks)" "\<not> tool_start e i" "ci_server_tool_block s \<noteq> Some i"
  shows "ci_server_tool_block s' \<noteq> Some i \<and> ci_tool_name_map s' = ci_tool_name_map s"
proof -
  have ms: "handle_message_start now e s = (s', chunks) \<Longrightarrow> ?thesis"
    using assms(3) by (auto simp: handle_message_start_def Let_def split: option.splits json.splits)
  have start: "handle_block_start rj now e s = (s', chunks) \<Longrightarrow> get_str e ''type'' = Some ''content_block_start'' \<Longrightarrow> ?thesis"
    using assms(2,3) by (auto simp: handle_block_start_def start_tool_def tool_start_def Let_def split: if_splits)
  have delta: "handle_block_delta now e s = (s', chunks) \<Longrightarrow> ?thesis"
    using assms(3) by (auto simp: handle_block_delta_def handle_input_delta_def Let_def split: if_splits option.splits list.splits)
  have stop: "handle_block_stop now e s = (s', chunks) \<Longrightarrow> ?thesis"
    using assms(3) by (auto simp: handle_block_stop_def Let_def split: if_splits)
  have md: "ci_server_tool_block (delta_usage e s) = ci_server_tool_block s" "ci_tool_name_map (delta_usage e s) = ci_tool_name_map s"
    by (simp_all add: delta_usage_def Let_def split: option.splits json.splits)
  have mdelta: "handle_message_delta now e s = (s', chunks) \<Longrightarrow> ?thesis"
    using md assms(3) by (auto simp: handle_message_delta_def Let_def split: if_splits option.splits)
  have mstop: "handle_message_stop now s = (s', chunks) \<Longrightarrow> ?thesis"
    using assms(3) by (auto simp: handle_message_stop_def Let_def split: if_splits)
  show ?thesis
    using assms ms start delta stop mdelta mstop
    by (auto simp: claude_to_openai_def split: option.splits if_splits)
qed

lemma names_kept:
  assumes "claude_to_openai rj now e s = (s', chunks)"
  shows "ci_tool_name_map s' = ci_tool_name_map s"
proof -
  define i where "i = Suc (opt_default 0 (event_index e) + opt_default 0 (ci_server_tool_block s))"
  have "\<not> tool_start e i" "ci_server_tool_block s \<noteq> Some i"
    by (cases "event_index e"; cases "ci_server_tool_block s"; simp add: i_def tool_start_def)+
  then show ?thesis using quiet_server [OF assms] by blast
qed

lemma partial_nothing: "event_index e \<noteq> Some i \<Longrightarrow> partial_for i e = []"
  by (simp add: partial_for_def)

lemma good_unchanged:
  assumes "merged s cs" "ci_calls s' = ci_calls s" "ci_tool_call_index s' = ci_tool_call_index s"
    and "\<forall>ch \<in> set chunks. chunk_calls ch = []" "ci_tool_name_map s' = ci_tool_name_map s"
    and "\<And>i. \<not> tool_start e i \<Longrightarrow> ci_server_tool_block s \<noteq> Some i \<Longrightarrow> ci_server_tool_block s' \<noteq> Some i"
    and "\<And>i. ci_server_tool_block s \<noteq> Some i \<Longrightarrow> map_of (ci_calls s) i \<noteq> None \<Longrightarrow> partial_for i e = []"
  shows "good_step e s s' chunks cs"
proof -
  have "merged s' cs" using assms(1) unfolding merged_def assms(2,3) .
  then show ?thesis using assms(2-7) merge_all_quiet [OF assms(4)] by (auto simp: good_step_def)
qed

lemma input_good:
  assumes "merged s cs" "claude_to_openai rj now e s = (s', chunks)" "get_str e ''type'' = Some ''content_block_delta''"
    and "jget e ''delta'' = Some d" "get_str d ''type'' = Some ''input_json_delta''"
  shows "good_step e s s' chunks cs"
proof (cases "in_server_block e s")
  case True
  then have "s' = s" "chunks = []" using assms by (simp_all add: claude_to_openai_def handle_block_delta_def)
  then show ?thesis using assms(1) True by (intro good_unchanged) (auto simp: in_server_block_def partial_for_def)
next
  case False
  then have step: "handle_input_delta now e d s = (s', chunks)"
    using assms(2-5) by (simp add: claude_to_openai_def handle_block_delta_def)
  have partial: "partial_for i e = (if event_index e = Some i then opt_default [] (get_str d ''partial_json'') else [])" for i
    using assms(3-5) by (simp add: partial_for_def)
  have no_start: "\<not> tool_start e i" for i using assms(3) by (simp add: tool_start_def)
  show ?thesis
  proof (cases "\<exists>x xs i c. get_str d ''partial_json'' = Some (x # xs) \<and> event_index e = Some i \<and> map_of (ci_calls s) i = Some c")
    case True
    then obtain x xs i c where c: "get_str d ''partial_json'' = Some (x # xs)" "event_index e = Some i" "map_of (ci_calls s) i = Some c"
      by blast
    have eq: "s' = s\<lparr>ci_calls := bt_insert i (c\<lparr>ok_arguments := ok_arguments c @ (x # xs)\<rparr>) (ci_calls s)\<rparr>"
      "chunks = [stream_chunk now s' (jobj [(''tool_calls'', JArr [input_json (ok_index c) (ok_id c) (x # xs)])]) None]"
      using step unfolding input_delta_eq [OF c] by auto
    have "merge_all chunks (calls_from 0 cs) = calls_from 0 (cs[ok_index c := (ok_id c, ok_name c, ok_arguments c @ (x # xs))])"
      using merged_input(2) [OF assms(1) c(3), of "x # xs"]
      by (simp add: eq(2) merge_all_simps stream_chunk_calls jget_jobj merge_tool_calls_def merge_tool_call_def)
    moreover have "merged s' (cs[ok_index c := (ok_id c, ok_name c, ok_arguments c @ (x # xs))])"
      unfolding eq(1) by (rule merged_input(1) [OF assms(1) c(3)])
    moreover have "map_of (ci_calls s') j = Some (c'\<lparr>ok_arguments := ok_arguments c' @ partial_for j e\<rparr>)"
      if "map_of (ci_calls s) j = Some c'" for j c'
      using that c by (cases "j = i") (simp_all add: eq(1) map_simps partial)
    ultimately show ?thesis unfolding good_step_def using eq(1) by auto
  next
    case False
    have same: "s' = s" "chunks = []"
      using step False by (auto simp: handle_input_delta_def Let_def split: option.splits list.splits)
    have "partial_for i e = []" if "map_of (ci_calls s) i \<noteq> None" for i
      using False that by (cases "get_str d ''partial_json''"; cases "the (get_str d ''partial_json'')") (auto simp: partial)
    then show ?thesis using assms(1) same by (intro good_unchanged) auto
  qed
qed

lemma event_good:
  assumes "merged s cs" "claude_to_openai rj now e s = (s', chunks)" "get_str e ''type'' \<noteq> Some ''message_start''"
  shows "good_step e s s' chunks cs"
proof -
  consider (tool) "get_str e ''type'' = Some ''content_block_start''"
      "Option.bind (jget e ''content_block'') (\<lambda>b. get_str b ''type'') = Some ''tool_use''"
    | (input) d where "get_str e ''type'' = Some ''content_block_delta''" "jget e ''delta'' = Some d"
      "get_str d ''type'' = Some ''input_json_delta''"
    | (quiet) "get_str e ''type'' = Some ''content_block_start'' \<Longrightarrow> Option.bind (jget e ''content_block'') (\<lambda>b. get_str b ''type'') \<noteq> Some ''tool_use''"
      "get_str e ''type'' = Some ''content_block_delta'' \<Longrightarrow> Option.bind (jget e ''delta'') (\<lambda>d. get_str d ''type'') \<noteq> Some ''input_json_delta''"
    by (auto simp: bind_eq_Some_conv)
  then show ?thesis
  proof cases
    case tool
    obtain s1 c1 where t: "claude_to_openai rj now e s = (s1, c1)"
      "merged s1 (cs @ [(block_field e ''id'', original_tool_name s (block_field e ''name''), initial_input rj e)])"
      "merge_all c1 (calls_from 0 cs) =
         calls_from 0 (cs @ [(block_field e ''id'', original_tool_name s (block_field e ''name''), initial_input rj e)])"
      "\<And>b. map_of (ci_calls s1) b = (if event_index e = Some b then
           Some \<lparr>ok_index = length cs, ok_id = block_field e ''id'', ok_name = original_tool_name s (block_field e ''name''),
                 ok_arguments = initial_input rj e\<rparr> else map_of (ci_calls s) b)"
      "ci_server_tool_block s1 = ci_server_tool_block s" "ci_tool_name_map s1 = ci_tool_name_map s"
      by (rule tool_step [OF tool assms(1), of rj now]) (rule that)
    have eq: "s1 = s'" "c1 = chunks" using t(1) assms(2) by simp_all
    have "map_of (ci_calls s') i = Some (c\<lparr>ok_arguments := ok_arguments c @ partial_for i e\<rparr>)"
      if "\<not> tool_start e i" "map_of (ci_calls s) i = Some c" for i c
    proof -
      have "event_index e \<noteq> Some i" using that(1) tool(1) by (simp add: tool_start_def)
      then show ?thesis using t(4) [of i] that(2) by (simp add: eq partial_nothing)
    qed
    then show ?thesis unfolding good_step_def using t(2,3,5,6) eq by auto
  next
    case (input d)
    then show ?thesis by (rule input_good [OF assms(1,2)])
  next
    case quiet
    from quiet_step [OF assms(2,3) quiet] have q: "ci_calls s' = ci_calls s" "ci_tool_call_index s' = ci_tool_call_index s"
      "\<forall>ch \<in> set chunks. chunk_calls ch = []" by simp_all
    show ?thesis
      using quiet(2) quiet_server [OF assms(2)]
      by (intro good_unchanged [OF assms(1) q names_kept [OF assms(2)]]) (auto simp: partial_for_def)
  qed
qed

section \<open>Whole streams\<close>

lemma collapse_calls: "cl_tool_calls (collapse_chunks chunks) = merge_all chunks []"
  by (simp add: collapse_chunks_def cl_tool_calls_fold collapsed_new_def merge_all_def)

lemma claude_to_openai_run_append:
  "claude_to_openai_run rj (xs @ ys) s =
     (case claude_to_openai_run rj xs s of (s1, c1) \<Rightarrow>
        case claude_to_openai_run rj ys s1 of (s2, c2) \<Rightarrow> (s2, c1 @ c2))"
  by (induction rj xs s rule: claude_to_openai_run.induct) (auto split: prod.splits)

definition one_message :: "(nat \<times> json) list \<Rightarrow> bool" where
  "one_message es \<longleftrightarrow> list_all (\<lambda>e. get_str (snd e) ''type'' \<noteq> Some ''message_start'') es"

definition not_started :: "nat \<Rightarrow> (nat \<times> json) list \<Rightarrow> bool" where
  "not_started i es \<longleftrightarrow> list_all (\<lambda>e. \<not> tool_start (snd e) i) es"

lemma run_good:
  assumes "claude_to_openai_run rj es s = (s', chunks)" "merged s cs" "one_message es"
  shows "\<exists>cs'. merged s' cs' \<and> merge_all chunks (calls_from 0 cs) = calls_from 0 cs'
    \<and> ci_tool_name_map s' = ci_tool_name_map s
    \<and> (\<forall>i. not_started i es \<longrightarrow> ci_server_tool_block s \<noteq> Some i \<longrightarrow> ci_server_tool_block s' \<noteq> Some i
         \<and> (\<forall>c. map_of (ci_calls s) i = Some c \<longrightarrow> map_of (ci_calls s') i =
              Some (c\<lparr>ok_arguments := ok_arguments c @ concat (map (\<lambda>e. partial_for i (snd e)) es)\<rparr>)))"
  using assms
proof (induction es arbitrary: s s' chunks cs)
  case Nil
  then show ?case by (auto simp: merge_all_simps)
next
  case (Cons e es)
  obtain now ev where e: "e = (now, ev)" by fastforce
  obtain s1 c1 where s1: "claude_to_openai rj now ev s = (s1, c1)" by fastforce
  obtain c2 where s2: "claude_to_openai_run rj es s1 = (s', c2)" "chunks = c1 @ c2"
    using Cons.prems(1) by (auto simp: e s1 split: prod.splits)
  have "good_step ev s s1 c1 cs"
    using Cons.prems(2,3) by (intro event_good [OF _ s1]) (auto simp: e one_message_def)
  then obtain cs1 where cs1: "merged s1 cs1" "merge_all c1 (calls_from 0 cs) = calls_from 0 cs1"
    "ci_tool_name_map s1 = ci_tool_name_map s"
    and track1: "\<And>i. \<not> tool_start ev i \<Longrightarrow> ci_server_tool_block s \<noteq> Some i \<Longrightarrow> ci_server_tool_block s1 \<noteq> Some i
        \<and> (\<forall>c. map_of (ci_calls s) i = Some c \<longrightarrow> map_of (ci_calls s1) i = Some (c\<lparr>ok_arguments := ok_arguments c @ partial_for i ev\<rparr>))"
    unfolding good_step_def by blast
  have "one_message es" using Cons.prems(3) by (simp add: one_message_def)
  from Cons.IH [OF s2(1) cs1(1) this] obtain cs2 where cs2: "merged s' cs2" "merge_all c2 (calls_from 0 cs1) = calls_from 0 cs2"
    "ci_tool_name_map s' = ci_tool_name_map s1"
    and track2: "\<And>i. not_started i es \<Longrightarrow> ci_server_tool_block s1 \<noteq> Some i \<Longrightarrow> ci_server_tool_block s' \<noteq> Some i
         \<and> (\<forall>c. map_of (ci_calls s1) i = Some c \<longrightarrow> map_of (ci_calls s') i =
              Some (c\<lparr>ok_arguments := ok_arguments c @ concat (map (\<lambda>e. partial_for i (snd e)) es)\<rparr>))"
    by blast
  show ?case
  proof (intro exI [of _ cs2] conjI allI impI)
    show "merged s' cs2" by fact
    show "merge_all chunks (calls_from 0 cs) = calls_from 0 cs2" by (simp add: s2(2) merge_all_simps cs1(2) cs2(2))
    show "ci_tool_name_map s' = ci_tool_name_map s" by (simp add: cs1(3) cs2(3))
  next
    fix i assume i: "not_started i (e # es)" "ci_server_tool_block s \<noteq> Some i"
    then have n: "\<not> tool_start ev i" "not_started i es" by (simp_all add: not_started_def e)
    note t1 = track1 [OF n(1) i(2)]
    note t2 = track2 [OF n(2) conjunct1 [OF t1]]
    show "ci_server_tool_block s' \<noteq> Some i" using t2 by blast
    fix c assume "map_of (ci_calls s) i = Some c"
    then have "map_of (ci_calls s1) i = Some (c\<lparr>ok_arguments := ok_arguments c @ partial_for i ev\<rparr>)" using t1 by blast
    then show "map_of (ci_calls s') i = Some (c\<lparr>ok_arguments := ok_arguments c @ concat (map (\<lambda>e. partial_for i (snd e)) (e # es))\<rparr>)"
      using t2 by (simp add: e)
  qed
qed

section \<open>Properties\<close>

text \<open>A tool call of a Claude answer survives the collapse to one OpenAI answer: whatever other blocks,
  deltas and tools come before, between and after, the merged calls hold one with the id of the
  block, its name as the client knew it, and all its input fragments in order after the initial
  input.\<close>

theorem tool_use_survives_collapse:
  assumes "get_str first ''type'' = Some ''message_start''" "one_message (pre @ post)"
    and "tool_start start i" "Option.bind (jget start ''content_block'') (\<lambda>b. get_str b ''type'') = Some ''tool_use''"
    and "not_started i (pre @ post)"
  shows "\<exists>k. call_json k (block_field start ''id'')
        (opt_default (block_field start ''name'') (map_of names (block_field start ''name'')))
        (initial_input rj start @ concat (map (\<lambda>e. partial_for i (snd e)) post))
      \<in> set (cl_tool_calls (collapse_chunks
          (snd (claude_to_openai_run rj ((t0, first) # pre @ (t, start) # post) (claude_in_new names)))))"
proof -
  let ?s0 = "claude_in_new names"
  obtain s1 c1 where s1: "claude_to_openai rj t0 first ?s0 = (s1, c1)" by fastforce
  then have start1: "handle_message_start t0 first ?s0 = (s1, c1)" using assms(1) by (simp add: claude_to_openai_def)
  then have f1: "ci_calls s1 = []" "ci_tool_call_index s1 = 0" "ci_server_tool_block s1 = None" "ci_tool_name_map s1 = names"
    "\<forall>ch \<in> set c1. chunk_calls ch = []"
    by (auto simp: handle_message_start_def Let_def claude_in_new_def stream_chunk_calls split: option.splits json.splits)
  have m1: "merged s1 []" by (simp add: merged_def f1)
  obtain s2 c2 where s2: "claude_to_openai_run rj pre s1 = (s2, c2)" by fastforce
  have om: "one_message pre" "one_message post" and ns: "not_started i pre" "not_started i post"
    using assms(2,5) by (simp_all add: one_message_def not_started_def)
  obtain cs2 where cs2: "merged s2 cs2" "merge_all c2 [] = calls_from 0 cs2" "ci_tool_name_map s2 = names"
    "ci_server_tool_block s2 \<noteq> Some i"
    using run_good [OF s2 m1 om(1)] ns(1) f1 by auto
  have started: "get_str start ''type'' = Some ''content_block_start''" "event_index start = Some i"
    using assms(3) by (simp_all add: tool_start_def)
  let ?name = "original_tool_name s2 (block_field start ''name'')"
  obtain s3 c3 where s3: "claude_to_openai rj t start s2 = (s3, c3)"
    "merged s3 (cs2 @ [(block_field start ''id'', ?name, initial_input rj start)])"
    "merge_all c3 (calls_from 0 cs2) = calls_from 0 (cs2 @ [(block_field start ''id'', ?name, initial_input rj start)])"
    "\<And>b. map_of (ci_calls s3) b = (if event_index start = Some b then
         Some \<lparr>ok_index = length cs2, ok_id = block_field start ''id'', ok_name = ?name,
               ok_arguments = initial_input rj start\<rparr> else map_of (ci_calls s2) b)"
    "ci_server_tool_block s3 = ci_server_tool_block s2" "ci_tool_name_map s3 = ci_tool_name_map s2"
    by (rule tool_step [OF started(1) assms(4) cs2(1), of rj t]) (rule that)
  obtain s4 c4 where s4: "claude_to_openai_run rj post s3 = (s4, c4)" by fastforce
  let ?args = "initial_input rj start @ concat (map (\<lambda>e. partial_for i (snd e)) post)"
  obtain cs4 where cs4: "merged s4 cs4"
    "merge_all c4 (calls_from 0 (cs2 @ [(block_field start ''id'', ?name, initial_input rj start)])) = calls_from 0 cs4"
    "map_of (ci_calls s4) i = Some \<lparr>ok_index = length cs2, ok_id = block_field start ''id'', ok_name = ?name, ok_arguments = ?args\<rparr>"
    using run_good [OF s4 s3(2) om(2)] ns(2) s3(4) [of i] s3(5) cs2(4) started(2) by auto
  have "length cs2 < length cs4" "cs4 ! length cs2 = (block_field start ''id'', ?name, ?args)"
    using cs4(1,3) unfolding merged_def by fastforce+
  then have "call_json (0 + length cs2) (block_field start ''id'') ?name ?args \<in> set (calls_from 0 cs4)"
    by (rule calls_from_nth)
  moreover have "claude_to_openai_run rj ((t0, first) # pre @ (t, start) # post) ?s0 = (s4, c1 @ c2 @ c3 @ c4)"
    by (simp add: s1 claude_to_openai_run_append s2 s3(1) s4)
  moreover have "merge_all (c1 @ c2 @ c3 @ c4) [] = calls_from 0 cs4"
    using merge_all_quiet [OF f1(5)] cs2(2) s3(3) cs4(2) by (simp add: merge_all_simps)
  moreover have "?name = opt_default (block_field start ''name'') (map_of names (block_field start ''name''))"
    by (simp add: original_tool_name_def cs2(3))
  ultimately show ?thesis
    by (intro exI [of _ "length cs2"]) (simp only: snd_conv collapse_calls add_0)
qed

definition sample_events :: "json list" where
  "sample_events =
     [jobj [(''type'', JStr ''message_start'')],
      jobj [(''type'', JStr ''content_block_start''), (''index'', jnat 1),
        (''content_block'', jobj [(''type'', JStr ''tool_use''), (''id'', JStr ''t1''), (''name'', JStr ''Read'')])],
      jobj [(''type'', JStr ''content_block_delta''), (''index'', jnat 1),
        (''delta'', jobj [(''type'', JStr ''input_json_delta''), (''partial_json'', JStr ''{}'')])]]"

theorem tool_use_survives_collapse_witness:
  "\<exists>k. call_json k ''t1'' ''Read'' ''{}'' \<in> set (cl_tool_calls (collapse_chunks
     (snd (claude_to_openai_run (\<lambda>_. []) ((0, sample_events ! 0) # [] @ (1, sample_events ! 1) # [(2, sample_events ! 2)])
       (claude_in_new [])))))"
proof -
  have h: "get_str (sample_events ! 0) ''type'' = Some ''message_start''"
    "one_message ([] @ [(2, sample_events ! 2)])" "tool_start (sample_events ! 1) 1"
    "Option.bind (jget (sample_events ! 1) ''content_block'') (\<lambda>b. get_str b ''type'') = Some ''tool_use''"
    "not_started 1 ([] @ [(2, sample_events ! 2)])"
    by code_simp+
  have v: "block_field (sample_events ! 1) ''id'' = ''t1''" "block_field (sample_events ! 1) ''name'' = ''Read''"
    "initial_input (\<lambda>_. []) (sample_events ! 1) = []" "partial_for 1 (sample_events ! 2) = ''{}''"
    by code_simp+
  from tool_use_survives_collapse [OF h, of "[]" "\<lambda>_. []" 0 1] show ?thesis
    unfolding v by (simp add: v(4) del: claude_to_openai_run.simps One_nat_def)
qed

text \<open>
  Thinking reaches an OpenAI client twice over: its text as reasoning, and an empty pair of markers
  in the answer's own text.
\<close>

definition thinking_events :: "json list" where
  "thinking_events =
     [jobj [(''type'', JStr ''message_start'')],
      jobj [(''type'', JStr ''content_block_start''), (''index'', jnat 0), (''content_block'', jobj [(''type'', JStr ''thinking'')])],
      jobj [(''type'', JStr ''content_block_delta''), (''index'', jnat 0),
        (''delta'', jobj [(''type'', JStr ''thinking_delta''), (''thinking'', JStr ''hm'')])],
      jobj [(''type'', JStr ''content_block_stop''), (''index'', jnat 0)],
      jobj [(''type'', JStr ''content_block_delta''), (''index'', jnat 1),
        (''delta'', jobj [(''type'', JStr ''text_delta''), (''text'', JStr ''Hi'')])]]"

lemma think_markers_in_text:
  "let c = collapse_chunks (snd (claude_to_openai_run (\<lambda>_. []) (map (Pair 0) thinking_events) (claude_in_new [])))
   in cl_text c = ''<think></think>Hi'' \<and> cl_reasoning c = ''hm''"
  by code_simp

text \<open>A delta without an index is never merged with an earlier one.\<close>

lemma delta_without_index_splits:
  "length (merge_tool_calls [] [jobj [(''function'', jobj [(''name'', JStr ''f''), (''arguments'', JStr ''{'')])],
     jobj [(''function'', jobj [(''arguments'', JStr ''}'')])]]) = 2"
  by code_simp

end
