(* ===== verification/Eventstream.thy ===== *)
theory Eventstream
  imports Line_Stream Protobuf
begin

text \<open>
  The event-stream framing of Kiro (\<open>crates/execute/src/bespoke/kiro/eventstream.rs\<close>): the table-driven
  CRC, the reader of one message off the front of a buffer and the header block. Against it stands
  the serial form of the checksum, one bit at a time, from which come the equivalence and the error
  detection of the table. Reading JSON is serde_json's and the parameter \<open>parse\<close>, which gives
  the value or the text of its error.
\<close>

unbundle bit_operations_syntax

section \<open>The checksum\<close>

definition crc_bit :: "32 word \<Rightarrow> 32 word" where
  "crc_bit v = drop_bit 1 v XOR (if v AND 1 = 1 then 0xEDB88320 else 0)"

definition CRC_TABLE :: "32 word list" where
  "CRC_TABLE = map (\<lambda>index. (crc_bit ^^ 8) (of_nat index)) [0..<256]"

definition crc_step :: "32 word \<Rightarrow> 8 word \<Rightarrow> 32 word" where
  "crc_step crc b = CRC_TABLE ! unat (ucast crc XOR b) XOR drop_bit 8 crc"

definition crc32 :: "bytes \<Rightarrow> 32 word" where
  "crc32 bs = foldl crc_step 0xFFFFFFFF bs XOR 0xFFFFFFFF"

section \<open>Messages\<close>

definition MAX_MESSAGE :: nat where "MAX_MESSAGE = 24 * 1024 * 1024"
definition MAX_HEADERS :: nat where "MAX_HEADERS = 128 * 1024"
definition PRELUDE :: nat where "PRELUDE = 12"
definition MIN_FRAME :: nat where "MIN_FRAME = 16"

datatype frame_error =
    PreludeCrc | MessageCrc | Bounds | HeaderError string | PayloadError string

fun frame_error_text :: "frame_error \<Rightarrow> string" where
  "frame_error_text PreludeCrc = ''event-stream prelude CRC mismatch''"
| "frame_error_text MessageCrc = ''event-stream message CRC mismatch''"
| "frame_error_text Bounds = ''event-stream frame bounds are invalid''"
| "frame_error_text (HeaderError name) = ''event-stream header '' @ name @ '' is malformed''"
| "frame_error_text (PayloadError reason) = ''event-stream payload is not valid JSON ('' @ reason @ '')''"

datatype header_value = HBool bool | HInt int | HBytes bytes | HText string | HSkipped

fun header_string :: "header_value \<Rightarrow> string option" where
  "header_string (HText t) = Some t"
| "header_string _ = None"

record event_message =
  em_headers :: "(string \<times> header_value) list"
  em_payload :: "json option"

definition message_header :: "event_message \<Rightarrow> string \<Rightarrow> header_value option" where
  "message_header m name = map_of (em_headers m) name"

definition event_type :: "event_message \<Rightarrow> string option" where
  "event_type m = Option.bind (message_header m '':event-type'') header_string"

definition message_type :: "event_message \<Rightarrow> string option" where
  "message_type m = Option.bind (message_header m '':message-type'') header_string"

definition exception_type :: "event_message \<Rightarrow> string option" where
  "exception_type m = Option.bind (message_header m '':exception-type'') header_string"

datatype message_read = MessageRead event_message nat | Incomplete | Failed frame_error

section \<open>The header block\<close>

definition text_of :: "bytes \<Rightarrow> string" where
  "text_of bs = map (\<lambda>b. char_of (unat b)) bs"

text \<open>\<open>get(..n)\<close> with \<open>get(n..)\<close> is \<open>split_front n\<close>. A big-endian signed number of the bytes read.\<close>

definition read_header_value :: "8 word \<Rightarrow> bytes \<Rightarrow> string \<Rightarrow> frame_error + (header_value \<times> bytes)" where
  "read_header_value kind rest name =
     (let fixed = (\<lambda>n f. case split_front n rest of
            None \<Rightarrow> Inl (HeaderError name) | Some (bs, rest') \<Rightarrow> Inr (f bs, rest'))
      in if kind = 0 then Inr (HBool True, rest)
         else if kind = 1 then Inr (HBool False, rest)
         else if kind = 2 then fixed 1 (\<lambda>bs. HInt (sint (hd bs)))
         else if kind = 3 then fixed 2 (\<lambda>bs. HInt (sint (of_nat (be_value bs) :: 16 word)))
         else if kind = 4 then fixed 4 (\<lambda>bs. HInt (sint (of_nat (be_value bs) :: 32 word)))
         else if kind = 5 \<or> kind = 8 then fixed 8 (\<lambda>_. HSkipped)
         else if kind = 6 \<or> kind = 7 then
           (case split_front 2 rest of
              None \<Rightarrow> Inl (HeaderError name)
            | Some (len_bytes, rest') \<Rightarrow>
                (case split_front (be_value len_bytes) rest' of
                   None \<Rightarrow> Inl (HeaderError name)
                 | Some (body, rest'') \<Rightarrow>
                     Inr (if kind = 7 then HText (lossy (text_of body)) else HBytes body, rest'')))
         else if kind = 9 then fixed 16 (\<lambda>_. HSkipped)
         else Inl (HeaderError name))"

lemma split_front_length: "split_front n bs = Some (a, r) \<Longrightarrow> length r \<le> length bs"
  using split_front_facts(1) [of n bs a r] by auto

lemma read_header_value_rest: "read_header_value kind rest name = Inr (v, r) \<Longrightarrow> length r \<le> length rest"
  by (auto simp: read_header_value_def Let_def dest!: split_front_length split: if_splits option.splits)

function parse_headers :: "bytes \<Rightarrow> (string \<times> header_value) list \<Rightarrow> frame_error + (string \<times> header_value) list" where
  "parse_headers block headers =
     (case block of
        [] \<Rightarrow> Inr headers
      | name_len # rest \<Rightarrow>
          (case split_front (unat name_len) rest of
             None \<Rightarrow> Inl (HeaderError ''<truncated>'')
           | Some (name_bytes, rest1) \<Rightarrow>
               (let name = lossy (text_of name_bytes)
                in case rest1 of
                     [] \<Rightarrow> Inl (HeaderError name)
                   | kind # rest2 \<Rightarrow>
                       if list_ex (\<lambda>(existing, _). existing = name) headers then Inl (HeaderError name)
                       else (case read_header_value kind rest2 name of
                               Inl e \<Rightarrow> Inl e
                             | Inr (value, rest3) \<Rightarrow> parse_headers rest3 (headers @ [(name, value)])))))"
  by pat_completeness auto

termination
  by (relation "measure (\<lambda>(b, _). length b)") (auto dest!: split_front_length read_header_value_rest)

declare parse_headers.simps [simp del]

section \<open>Reading one message\<close>

text \<open>\<open>get(a..b)\<close> of a slice.\<close>

definition slice :: "nat \<Rightarrow> nat \<Rightarrow> bytes \<Rightarrow> bytes option" where
  "slice a b bs = (if a \<le> b \<and> b \<le> length bs then Some (take (b - a) (drop a bs)) else None)"

definition read_u32 :: "bytes \<Rightarrow> nat \<Rightarrow> 32 word option" where
  "read_u32 bs offset = map_option (\<lambda>s. of_nat (be_value s)) (slice offset (offset + 4) bs)"

definition ascii_white :: "8 word \<Rightarrow> bool" where
  "ascii_white b \<longleftrightarrow> b = 0x20 \<or> b = 0x09 \<or> b = 0x0A \<or> b = 0x0C \<or> b = 0x0D"

definition read_body :: "(bytes \<Rightarrow> string + json) \<Rightarrow> bytes \<Rightarrow> nat \<Rightarrow> nat \<Rightarrow> message_read" where
  "read_body parse message total_len headers_length =
     (let header_end = PRELUDE + headers_length
      in case slice PRELUDE header_end message of
           None \<Rightarrow> Failed Bounds
         | Some header_bytes \<Rightarrow>
             (case parse_headers header_bytes [] of
                Inl e \<Rightarrow> Failed e
              | Inr headers \<Rightarrow>
                  (let payload_bytes = opt_default [] (slice header_end (total_len - 4) message)
                   in if list_all ascii_white payload_bytes
                      then MessageRead \<lparr>em_headers = headers, em_payload = None\<rparr> total_len
                      else (case parse payload_bytes of
                              Inr v \<Rightarrow> MessageRead \<lparr>em_headers = headers, em_payload = Some v\<rparr> total_len
                            | Inl reason \<Rightarrow> Failed (PayloadError reason)))))"

definition read_message :: "(bytes \<Rightarrow> string + json) \<Rightarrow> bytes \<Rightarrow> message_read" where
  "read_message parse buffer =
     (case slice 0 PRELUDE buffer of
        None \<Rightarrow> Incomplete
      | Some prelude \<Rightarrow>
     (case (read_u32 prelude 0, read_u32 prelude 4, read_u32 prelude 8) of
        (Some total32, Some headers32, Some prelude_crc) \<Rightarrow>
          if prelude_crc \<noteq> crc32 (opt_default [] (slice 0 8 prelude)) then Failed PreludeCrc
          else
            (let total_len = unat total32; headers_length = unat headers32
             in if \<not> (MIN_FRAME \<le> total_len \<and> total_len \<le> MAX_MESSAGE) \<or> headers_length > MAX_HEADERS
                   \<or> headers_length > total_len - MIN_FRAME
                then Failed Bounds
                else
                  (case slice 0 total_len buffer of
                     None \<Rightarrow> Incomplete
                   | Some message \<Rightarrow>
                       (let body = opt_default [] (slice 0 (total_len - 4) message)
                        in case read_u32 message (total_len - 4) of
                             None \<Rightarrow> Failed Bounds
                           | Some message_crc \<Rightarrow>
                               if message_crc \<noteq> crc32 body then Failed MessageCrc
                               else read_body parse message total_len headers_length)))
      | _ \<Rightarrow> Incomplete))"

section \<open>The serial checksum\<close>

text \<open>Reference: a register that takes one bit at a time, the low bit of each byte first.\<close>

definition crc_shift :: "32 word \<Rightarrow> bool \<Rightarrow> 32 word" where
  "crc_shift reg b = drop_bit 1 reg XOR (if bit reg 0 \<noteq> b then 0xEDB88320 else 0)"

definition byte_bits :: "8 word \<Rightarrow> bool list" where
  "byte_bits b = map (bit b) [0..<8]"

definition serial_crc :: "bool list \<Rightarrow> 32 word" where
  "serial_crc bs = foldl crc_shift 0xFFFFFFFF bs XOR 0xFFFFFFFF"

lemma table_entry: "CRC_TABLE ! unat (i :: 8 word) = (crc_bit ^^ 8) (ucast i)"
proof -
  have "unat i < 256" using unsigned_less [of i] by simp
  then show ?thesis by (simp add: CRC_TABLE_def unsigned_of_nat unsigned_ucast_eq)
qed

lemma crc_bit_alt: "crc_bit v = drop_bit 1 v XOR (if bit v 0 then 0xEDB88320 else 0)"
  by (simp add: crc_bit_def bit_0 and_one_eq odd_iff_mod_2_eq_one)

lemma crc_bit_xor: "crc_bit (a XOR b) = crc_bit a XOR crc_bit b"
  by (cases "bit a 0"; cases "bit b 0") (simp_all add: crc_bit_alt bit_xor_iff drop_bit_xor xor.assoc xor.commute xor.left_commute)

lemma poly_top: "bit (0xEDB88320 :: 32 word) 31"
  by (simp add: bit_numeral_word_iff)

lemma crc_bit_zero: "crc_bit d = 0 \<Longrightarrow> d = 0"
proof -
  assume z: "crc_bit d = 0"
  have "bit (drop_bit 1 d) 31 = bit d (1 + 31)" by (simp only: bit_drop_bit_eq comp_apply)
  moreover have "\<not> bit d (1 + 31)" by (rule impossible_bit) simp
  ultimately have none: "\<not> bit (drop_bit 1 d) 31" by blast
  have "bit (crc_bit d) 31 = bit d 0"
    by (cases "bit d 0") (simp_all only: crc_bit_alt if_True if_False bit_xor_iff poly_top none bit_0_eq bot_apply bot_bool_def simp_thms)
  with z have low: "\<not> bit d 0" by simp
  with z have "drop_bit 1 d = 0" by (simp add: crc_bit_alt)
  moreover have "bit (drop_bit 1 d) n = bit d (1 + n)" for n by (simp only: bit_drop_bit_eq comp_apply)
  ultimately have "\<not> bit d (Suc n)" for n by simp
  with low have "\<not> bit d n" for n by (cases n) auto
  then show "d = 0" by (simp add: bit_eq_iff)
qed

lemma xor_left_cancel: "a XOR b = a XOR c \<longleftrightarrow> b = (c :: 'a::len word)"
proof
  assume "a XOR b = a XOR c"
  then have "a XOR (a XOR b) = a XOR (a XOR c)" by (rule arg_cong)
  then show "b = c" by (simp flip: xor.assoc)
qed simp

lemma xor_right_cancel: "b XOR a = c XOR a \<longleftrightarrow> b = (c :: 'a::len word)"
  by (simp only: xor.commute [of _ a] xor_left_cancel)

lemma xor_zero: "a XOR b = 0 \<longleftrightarrow> a = (b :: 32 word)"
  using xor_left_cancel [of b a b] by (auto simp: xor.commute)

lemma crc_bit_inj: "crc_bit a = crc_bit b \<longleftrightarrow> a = b"
  using crc_bit_zero [of "a XOR b"] by (auto simp: crc_bit_xor xor_zero)

lemma crc_bits_inj: "(crc_bit ^^ n) a = (crc_bit ^^ n) b \<longleftrightarrow> a = b"
  by (induction n) (simp_all add: crc_bit_inj)

lemma crc_bits_xor: "(crc_bit ^^ n) (a XOR b) = (crc_bit ^^ n) a XOR (crc_bit ^^ n) b"
  by (induction n) (simp_all add: crc_bit_xor)

lemma crc_shift_alt: "crc_shift reg b = crc_bit (reg XOR of_bool b)"
  by (cases b) (auto simp: crc_shift_def crc_bit_alt drop_bit_xor bit_xor_iff bit_1_iff)

definition packed :: "bool list \<Rightarrow> 32 word" where
  "packed bs = horner_sum of_bool 2 bs"

lemma bit_packed: "bit (packed bs) n \<longleftrightarrow> n < 32 \<and> n < length bs \<and> bs ! n"
  by (auto simp: packed_def bit_horner_sum_bit_word_iff)

definition shl :: "32 word \<Rightarrow> 32 word" where "shl y = push_bit 1 y"

lemma bit_shl: "bit (shl y) n \<longleftrightarrow> 0 < n \<and> n < 32 \<and> bit y (n - 1)"
  unfolding shl_def bit_push_bit_iff by auto

lemma crc_bit_push: "\<not> bit y 31 \<Longrightarrow> crc_bit (shl y) = y"
proof -
  assume "\<not> bit y 31"
  have "bit (crc_bit (shl y)) n = bit y n" for n
  proof -
    have "bit (crc_bit (shl y)) n = (Suc n < 32 \<and> bit y n)"
      by (simp add: crc_bit_alt bit_drop_bit_eq bit_shl)
    moreover have "bit y n \<Longrightarrow> n < 32" using bit_imp_le_length [of y n] by simp
    moreover have "bit y n \<Longrightarrow> n \<noteq> 31" using \<open>\<not> bit y 31\<close> by blast
    ultimately show ?thesis by (cases "bit y n") auto
  qed
  then show ?thesis by (simp add: bit_eq_iff)
qed

lemma packed_Cons: "packed (b # bs) = of_bool b XOR shl (packed bs)"
  by (rule bit_word_eqI) (auto simp: bit_packed bit_xor_iff bit_shl bit_of_bool_iff nth_Cons split: nat.splits)

lemma shifts_packed:
  "length bs \<le> 32 \<Longrightarrow> foldl crc_shift reg bs = (crc_bit ^^ length bs) (reg XOR packed bs)"
proof (induction bs arbitrary: reg)
  case Nil
  then show ?case by (simp add: packed_def)
next
  case (Cons b bs)
  have "\<not> bit (packed bs) 31" using Cons.prems by (simp add: bit_packed)
  then have "crc_bit (reg XOR of_bool b) XOR packed bs = crc_bit (reg XOR packed (b # bs))"
    by (simp add: packed_Cons crc_bit_xor crc_bit_push ac_simps)
  then show ?case using Cons by (simp add: crc_shift_alt funpow_swap1)
qed

lemma packed_inj: "length a = length b \<Longrightarrow> length a \<le> 32 \<Longrightarrow> packed a = packed b \<Longrightarrow> a = b"
  by (rule nth_equalityI) (auto dest: arg_cong [of _ _ "\<lambda>w. bit w _"] simp: bit_packed)

lemma length_byte_bits [simp]: "length (byte_bits b) = 8"
  by (simp add: byte_bits_def)

lemma packed_byte: "packed (byte_bits b) = ucast b"
proof (rule bit_word_eqI)
  fix n
  have "n < 8" if "bit b n" using bit_imp_le_length [OF that] by simp
  then show "bit (packed (byte_bits b)) n = bit (ucast b :: 32 word) n"
    by (auto simp: bit_packed byte_bits_def bit_ucast_iff simp del: upt_rec_numeral)
qed

lemma shift_eight: "length bs = 8 \<Longrightarrow> foldl crc_shift reg bs = (crc_bit ^^ 8) (reg XOR packed bs)"
  by (simp add: shifts_packed)

lemma bit_small: "bit (w :: 32 word) n \<Longrightarrow> n < 32"
  using bit_imp_le_length [of w n] by simp

lemma crc_bits_high: "k \<le> 24 \<Longrightarrow> (\<And>n. bit w n \<Longrightarrow> n < 32 - k) \<Longrightarrow> (crc_bit ^^ k) ((shl ^^ k) w) = w"
proof (induction k arbitrary: w)
  case (Suc k)
  have "\<not> bit w 31" using Suc.prems(2) [of 31] by auto
  then have "crc_bit (shl w) = w" by (rule crc_bit_push)
  moreover have "(crc_bit ^^ k) ((shl ^^ k) (shl w)) = shl w"
    using Suc.prems by (intro Suc.IH) (auto simp: bit_shl dest!: Suc.prems(2))
  ultimately show ?case by (simp add: funpow_swap1)
qed simp

lemma crc_bits_drop: "(crc_bit ^^ 8) (push_bit 8 (drop_bit 8 w)) = drop_bit 8 w"
proof -
  have step: "(shl ^^ k) v = push_bit k v" for k v
    by (induction k) (simp_all only: shl_def funpow.simps comp_apply id_apply push_bit_0_id push_bit_push_bit plus_1_eq_Suc)
  have "bit (drop_bit 8 w) n \<Longrightarrow> n < 32 - 8" for n
    using bit_small [of w "8 + n"] by (simp add: bit_drop_bit_eq)
  from crc_bits_high [OF _ this] show ?thesis by (simp add: step)
qed

lemma low_high: "w = ucast (ucast w :: 8 word) XOR push_bit 8 (drop_bit 8 (w :: 32 word))"
  by (rule bit_word_eqI) (auto simp: bit_xor_iff bit_ucast_iff bit_push_bit_iff bit_drop_bit_eq)

lemma crc_step_bits: "crc_step crc b = (crc_bit ^^ 8) (crc XOR ucast b)"
proof -
  let ?low = "ucast (ucast crc :: 8 word) :: 32 word"
  have "crc XOR ucast b = (?low XOR ucast b) XOR push_bit 8 (drop_bit 8 crc)"
    by (subst low_high [of crc]) (simp add: xor.assoc xor.commute xor.left_commute)
  moreover have "?low XOR ucast b = ucast (ucast crc XOR b)"
    by (rule bit_word_eqI) (auto simp: bit_xor_iff bit_ucast_iff)
  ultimately show ?thesis
    by (simp only: crc_step_def table_entry crc_bits_xor crc_bits_drop)
qed

lemma crc_step_serial: "crc_step crc b = foldl crc_shift crc (byte_bits b)"
  by (simp add: crc_step_bits shift_eight packed_byte)

lemma crc_steps_serial: "foldl crc_step crc bs = foldl crc_shift crc (concat (map byte_bits bs))"
  by (induction bs arbitrary: crc) (simp_all add: crc_step_serial)

lemma crc_step_inj: "crc_step a b = crc_step a' b \<longleftrightarrow> a = a'"
  by (simp only: crc_step_bits crc_bits_inj xor_right_cancel)

lemma crc_steps_inj: "foldl crc_step a bs = foldl crc_step a' bs \<longleftrightarrow> a = a'"
  by (induction bs arbitrary: a a') (simp_all add: crc_step_inj)

lemma byte_bits_inj: "byte_bits a = byte_bits b \<longleftrightarrow> a = b"
  using packed_byte [of a] packed_byte [of b] by (auto intro: bit_word_eqI simp: byte_bits_def)

lemma concat_bits_inj:
  "length xs = length ys \<Longrightarrow> concat (map byte_bits xs) = concat (map byte_bits ys) \<Longrightarrow> xs = ys"
  by (induction xs ys rule: list_induct2) (auto simp: byte_bits_inj)

lemma length_bits: "length (concat (map byte_bits xs)) = 8 * length xs"
  by (induction xs) auto

lemma burst_changes_crc:
  assumes "length xs = length ys" "length xs \<le> 4" "foldl crc_step a xs = foldl crc_step a ys"
  shows "xs = ys"
proof -
  let ?b = "\<lambda>xs. concat (map byte_bits xs)"
  have len: "length (?b xs) = length (?b ys)" "length (?b xs) \<le> 32" "length (?b ys) \<le> 32"
    using assms by (simp_all add: length_bits)
  have "(crc_bit ^^ length (?b xs)) (a XOR packed (?b xs)) = (crc_bit ^^ length (?b ys)) (a XOR packed (?b ys))"
    using assms(3) len by (simp only: crc_steps_serial shifts_packed)
  then have "a XOR packed (?b xs) = a XOR packed (?b ys)" by (simp only: len(1) crc_bits_inj)
  then have "packed (?b xs) = packed (?b ys)" by (simp only: xor_left_cancel)
  from concat_bits_inj [OF assms(1) packed_inj [OF len(1,2) this]] show ?thesis .
qed

lemma crc32_burst:
  assumes "length xs = length ys" "length xs \<le> 4" "crc32 (u @ xs @ v) = crc32 (u @ ys @ v)"
  shows "xs = ys"
proof -
  have "foldl crc_step (foldl crc_step 0xFFFFFFFF u) xs = foldl crc_step (foldl crc_step 0xFFFFFFFF u) ys"
    using assms(3) by (simp only: crc32_def xor_right_cancel foldl_append crc_steps_inj)
  with burst_changes_crc assms(1,2) show ?thesis by blast
qed

section \<open>What the reader looks at\<close>

definition word_at :: "bytes \<Rightarrow> nat \<Rightarrow> 32 word" where
  "word_at bs offset = of_nat (be_value (take 4 (drop offset bs)))"

definition lengths_ok :: "nat \<Rightarrow> nat \<Rightarrow> bool" where
  "lengths_ok n h \<longleftrightarrow> MIN_FRAME \<le> n \<and> n \<le> MAX_MESSAGE \<and> h \<le> MAX_HEADERS \<and> h \<le> n - MIN_FRAME"

lemma read_u32_alt:
  "read_u32 bs offset = (if offset + 4 \<le> length bs then Some (word_at bs offset) else None)"
  by (simp add: read_u32_def slice_def word_at_def)

lemma word_at_take: "offset + 4 \<le> n \<Longrightarrow> word_at (take n bs) offset = word_at bs offset"
  by (simp add: word_at_def drop_take)

lemma word_at_append: "offset + 4 \<le> length bs \<Longrightarrow> word_at (bs @ cs) offset = word_at bs offset"
  by (simp add: word_at_def)

lemma read_message_alt:
  "read_message parse b =
     (if length b < 12 then Incomplete
      else if word_at b 8 \<noteq> crc32 (take 8 b) then Failed PreludeCrc
      else if \<not> lengths_ok (unat (word_at b 0)) (unat (word_at b 4)) then Failed Bounds
      else if length b < unat (word_at b 0) then Incomplete
      else if word_at b (unat (word_at b 0) - 4) \<noteq> crc32 (take (unat (word_at b 0) - 4) b) then Failed MessageCrc
      else read_body parse (take (unat (word_at b 0)) b) (unat (word_at b 0)) (unat (word_at b 4)))"
proof (cases "length b < 12")
  case True
  then show ?thesis by (simp add: read_message_def slice_def PRELUDE_def)
next
  case False
  then have len: "12 \<le> length b" by simp
  define n where "n = unat (word_at b 0)"
  have pre: "read_u32 (take 12 b) 0 = Some (word_at b 0)" "read_u32 (take 12 b) 4 = Some (word_at b 4)"
    "read_u32 (take 12 b) 8 = Some (word_at b 8)" "slice 0 8 (take 12 b) = Some (take 8 b)"
    "slice 0 PRELUDE b = Some (take 12 b)"
    using len by (simp_all add: read_u32_alt word_at_take slice_def PRELUDE_def)
  have frame: "read_u32 (take n b) (n - 4) = Some (word_at b (n - 4))"
    "slice 0 (n - 4) (take n b) = Some (take (n - 4) b)" "slice 0 n b = Some (take n b)"
    if "16 \<le> n" "n \<le> length b"
    using that by (simp_all add: read_u32_alt word_at_take slice_def)
  show ?thesis
  proof (cases "lengths_ok n (unat (word_at b 4)) \<and> n \<le> length b")
    case True
    then have "16 \<le> n" by (simp add: lengths_ok_def MIN_FRAME_def)
    with True frame False show ?thesis
      by (simp add: read_message_def pre Let_def lengths_ok_def flip: n_def)
  next
    case no: False
    show ?thesis
    proof (cases "lengths_ok n (unat (word_at b 4))")
      case True
      then have "slice 0 n b = None" "\<not> n \<le> length b" using no by (auto simp: slice_def)
      with True False show ?thesis
        by (simp add: read_message_def pre Let_def lengths_ok_def flip: n_def)
    next
      case out: False
      then have "(\<not> (MIN_FRAME \<le> n \<and> n \<le> MAX_MESSAGE) \<or> unat (word_at b 4) > MAX_HEADERS
          \<or> unat (word_at b 4) > n - MIN_FRAME) = True" by (auto simp: lengths_ok_def)
      with out False show ?thesis
        by (simp only: read_message_def pre Let_def option.case prod.case if_True if_False opt_default_simps simp_thms flip: n_def)
    qed
  qed
qed

lemma read_body_frame: "read_body parse message n h = MessageRead m k \<Longrightarrow> k = n"
  by (auto simp: read_body_def Let_def split: option.splits sum.splits if_splits)

lemma read_body_complete: "read_body parse message n h \<noteq> Incomplete"
  by (auto simp: read_body_def Let_def split: option.splits sum.splits)

lemma read_message_bounds:
  assumes "read_message parse b = MessageRead m n"
  shows "12 \<le> length b" "word_at b 8 = crc32 (take 8 b)" "n = unat (word_at b 0)"
    "lengths_ok n (unat (word_at b 4))" "n \<le> length b" "word_at b (n - 4) = crc32 (take (n - 4) b)"
    "16 \<le> n"
proof -
  show "12 \<le> length b" "word_at b 8 = crc32 (take 8 b)" "n = unat (word_at b 0)"
    "lengths_ok n (unat (word_at b 4))" "n \<le> length b" "word_at b (n - 4) = crc32 (take (n - 4) b)"
    using assms unfolding read_message_alt by (auto split: if_splits dest: read_body_frame)
  then show "16 \<le> n" by (simp add: lengths_ok_def MIN_FRAME_def)
qed

lemma read_message_more:
  assumes "read_message parse a \<noteq> Incomplete"
  shows "read_message parse (a @ b) = read_message parse a"
proof -
  have len: "12 \<le> length a" using assms unfolding read_message_alt by (auto split: if_splits)
  then have w: "word_at (a @ b) 0 = word_at a 0" "word_at (a @ b) 4 = word_at a 4" "word_at (a @ b) 8 = word_at a 8"
    by (simp_all add: word_at_append)
  define n where "n = unat (word_at a 0)"
  show ?thesis
  proof (cases "word_at a 8 = crc32 (take 8 a) \<and> lengths_ok n (unat (word_at a 4))")
    case True
    then have "16 \<le> n" by (simp add: lengths_ok_def MIN_FRAME_def)
    have "n \<le> length a" using assms len True unfolding read_message_alt by (auto simp: n_def split: if_splits)
    with \<open>16 \<le> n\<close> len show ?thesis
      by (simp add: read_message_alt w word_at_append flip: n_def)
  next
    case False
    then show ?thesis using len by (auto simp: read_message_alt w simp flip: n_def)
  qed
qed

lemma read_message_prefix:
  assumes "read_message parse b = MessageRead m n" "k < n"
  shows "read_message parse (take k b) = Incomplete"
proof (rule ccontr)
  assume "read_message parse (take k b) \<noteq> Incomplete"
  from read_message_more [OF this, of "drop k b"] assms(1)
  have "read_message parse (take k b) = MessageRead m n" by simp
  from read_message_bounds(5) [OF this] assms(2) show False by simp
qed

section \<open>Corrupted messages\<close>

lemma be_value_snoc: "be_value (bs @ [b]) = be_value bs * 256 + unat b"
  by (simp add: be_value_def)

lemma base_digits: "a * 256 + x = b * 256 + y \<Longrightarrow> x < 256 \<Longrightarrow> y < 256 \<Longrightarrow> a = b \<and> x = (y :: nat)"
proof -
  assume eq: "a * 256 + x = b * 256 + y" and small: "x < 256" "y < 256"
  from arg_cong [OF eq, of "\<lambda>n. n mod 256"] arg_cong [OF eq, of "\<lambda>n. n div 256"] small
  show "a = b \<and> x = y" by simp
qed

lemma be_value_inj: "length xs = length ys \<Longrightarrow> be_value xs = be_value ys \<Longrightarrow> xs = ys"
proof (induction xs arbitrary: ys rule: rev_induct)
  case (snoc x xs)
  then obtain y zs where ys: "ys = zs @ [y]" by (cases ys rule: rev_cases) auto
  have "unat x < 256" "unat y < 256" using unsigned_less [of x] unsigned_less [of y] by simp_all
  moreover have "be_value xs * 256 + unat x = be_value zs * 256 + unat y"
    using snoc.prems(2) by (simp only: ys be_value_snoc)
  ultimately have "be_value xs = be_value zs \<and> unat x = unat y" using base_digits by blast
  then have "xs = zs" "x = y" using snoc.IH snoc.prems(1) by (simp_all add: ys word_unat_eq_iff)
  then show ?case by (simp add: ys)
qed simp

lemma be_value_less: "be_value bs < 256 ^ length bs"
proof (induction bs rule: rev_induct)
  case (snoc b bs)
  have "unat b < 256" using unsigned_less [of b] by simp
  with snoc show ?case by (simp add: be_value_snoc)
qed (simp add: be_value_def)

lemma word_at_inj:
  assumes "offset + 4 \<le> length a" "offset + 4 \<le> length b" "word_at a offset = word_at b offset"
  shows "take 4 (drop offset a) = take 4 (drop offset b)"
proof (rule be_value_inj)
  have "be_value (take 4 (drop offset x)) < 2 ^ 32" if "offset + 4 \<le> length x" for x
    using be_value_less [of "take 4 (drop offset x)"] that by simp
  then show "be_value (take 4 (drop offset a)) = be_value (take 4 (drop offset b))"
    using assms by (simp add: word_at_def word_of_nat_eq_iff take_bit_nat_eq_self)
qed (use assms in simp)

text \<open>The four parts of a message: the lengths, their checksum, the headers with the payload, and the last
  checksum. A stretch of bytes lies within one of them.\<close>

definition within_part :: "nat \<Rightarrow> nat \<Rightarrow> nat \<Rightarrow> bool" where
  "within_part n i j \<longleftrightarrow> j \<le> 8 \<or> 8 \<le> i \<and> j \<le> 12 \<or> 12 \<le> i \<and> j \<le> n - 4 \<or> n - 4 \<le> i \<and> j \<le> n"

lemma word_at_agree:
  "take (k + 4) a = take (k + 4) b \<Longrightarrow> word_at a k = word_at b k"
  "drop k a = drop k b \<Longrightarrow> word_at a k = word_at b k"
proof -
  show "take (k + 4) a = take (k + 4) b \<Longrightarrow> word_at a k = word_at b k"
    using drop_take [of k "k + 4" a] drop_take [of k "k + 4" b] by (simp add: word_at_def)
qed (simp add: word_at_def)

lemma changed_word:
  assumes "length a = length b" "k + 4 \<le> length a" "take k a = take k b" "drop (k + 4) a = drop (k + 4) b" "a \<noteq> b"
  shows "word_at a k \<noteq> word_at b k"
proof
  assume "word_at a k = word_at b k"
  moreover have "k + 4 \<le> length b" using assms(1,2) by simp
  ultimately have mid: "take 4 (drop k a) = take 4 (drop k b)" using word_at_inj [OF assms(2)] by blast
  have parts: "c = take k c @ take 4 (drop k c) @ drop (k + 4) c" for c :: bytes
  proof -
    have "drop (k + 4) c = drop 4 (drop k c)" by (simp only: drop_drop add.commute [of 4])
    then show ?thesis by (simp only: append_take_drop_id)
  qed
  have "a = take k a @ take 4 (drop k a) @ drop (k + 4) a" by (rule parts)
  also have "\<dots> = take k b @ take 4 (drop k b) @ drop (k + 4) b" by (simp only: mid assms(3,4))
  also have "\<dots> = b" by (rule parts [symmetric])
  finally show False using assms(5) by simp
qed

lemma corrupted:
  assumes "read_message parse (u @ xs @ v) = MessageRead m n" "length ys = length xs" "length xs \<le> 4" "ys \<noteq> xs"
    and "within_part n (length u) (length u + length xs)"
  shows "read_message parse (u @ ys @ v) = Failed (if length u + length xs \<le> 12 then PreludeCrc else MessageCrc)"
proof -
  let ?a = "u @ xs @ v" and ?b = "u @ ys @ v" and ?j = "length u + length xs"
  note good = read_message_bounds [OF assms(1)]
  have len: "length ?a = length ?b" using assms(2) by simp
  have before: "take k ?a = take k ?b" if "k \<le> length u" for k using that by simp
  have behind: "drop k ?a = drop k ?b" if "?j \<le> k" for k using that assms(2) by simp
  have crc: "crc32 (take k ?a) \<noteq> crc32 (take k ?b)" if "?j \<le> k" for k
    using that crc32_burst [of xs ys u "take (k - ?j) v"] assms(2-4) by auto
  have "?a \<noteq> ?b" using assms(4) by simp
  have "0 < length xs" using assms(2,4) by auto
  have "12 \<le> length ?b" using good(1) len by simp
  consider "?j \<le> 8" | "8 \<le> length u" "?j \<le> 12" | "12 \<le> length u" "?j \<le> n - 4" | "12 \<le> length u" "n - 4 \<le> length u" "?j \<le> n"
    using assms(5) good(7) by (auto simp: within_part_def)
  then show ?thesis
  proof cases
    case 1
    with crc [of 8] word_at_agree(2) [OF behind, of 8] good(2) \<open>12 \<le> length ?b\<close> show ?thesis
      by (simp add: read_message_alt)
  next
    case 2
    then have "word_at ?a 8 \<noteq> word_at ?b 8"
      using len good(1) before behind \<open>?a \<noteq> ?b\<close> by (intro changed_word) auto
    with 2 before [of 8] good(2) \<open>12 \<le> length ?b\<close> show ?thesis
      by (auto simp: read_message_alt)
  next
    case 3
    then have w: "word_at ?b 0 = word_at ?a 0" "word_at ?b 4 = word_at ?a 4" "word_at ?b 8 = word_at ?a 8"
      using before by (auto intro!: word_at_agree(1))
    have "word_at ?b (n - 4) = word_at ?a (n - 4)" using behind [of "n - 4"] 3 by (intro word_at_agree(2)) simp
    moreover have "\<not> ?j \<le> 12" using 3 \<open>0 < length xs\<close> by linarith
    ultimately show ?thesis using crc [of "n - 4"] 3 good w before [of 8] len
      by (simp add: read_message_alt)
  next
    case 4
    then have w: "word_at ?b 0 = word_at ?a 0" "word_at ?b 4 = word_at ?a 4" "word_at ?b 8 = word_at ?a 8"
      using before by (auto intro!: word_at_agree(1))
    have "word_at ?a (n - 4) \<noteq> word_at ?b (n - 4)"
      using 4 len good(5,7) before [of "n - 4"] behind [of n] \<open>?a \<noteq> ?b\<close> by (intro changed_word) auto
    moreover have "\<not> ?j \<le> 12" using 4 \<open>0 < length xs\<close> by linarith
    ultimately show ?thesis using 4 good w before [of 8] before [of "n - 4"] len
      by (simp add: read_message_alt)
  qed
qed

text \<open>Evaluation on integers, for concrete bytes.\<close>

definition crc_bit_int :: "int \<Rightarrow> int" where
  "crc_bit_int i = drop_bit 1 (take_bit 32 i) XOR (if odd i then 0xEDB88320 else 0)"

definition crc_step_int :: "int \<Rightarrow> int \<Rightarrow> int" where
  "crc_step_int c b = crc_bit_int (crc_bit_int (crc_bit_int (crc_bit_int (crc_bit_int (crc_bit_int (crc_bit_int (crc_bit_int
     (c XOR take_bit 8 b))))))))"

lemma crc_bit_of_int: "crc_bit (of_int i) = of_int (crc_bit_int i)"
proof -
  have "drop_bit 1 (of_int i :: 32 word) = of_int (drop_bit 1 (take_bit 32 i))"
    by (rule bit_word_eqI) (auto simp: bit_drop_bit_eq bit_of_int_iff bit_take_bit_iff)
  moreover have "bit (of_int i :: 32 word) 0 = odd i"
    using bit_word_of_int_iff [of i 0, where ?'a = 32] by (simp only: bit_0 [of i]) simp
  ultimately show ?thesis by (simp only: crc_bit_alt crc_bit_int_def of_int_xor_eq) simp
qed

lemma crc_step_of_int: "crc_step (of_int c) (of_int b) = of_int (crc_step_int c b)"
proof -
  have "ucast (of_int b :: 8 word) = (of_int (take_bit 8 b) :: 32 word)"
    by (rule bit_word_eqI) (auto simp: bit_ucast_iff bit_of_int_iff bit_take_bit_iff)
  then show ?thesis
    by (simp add: crc_step_bits crc_step_int_def eval_nat_numeral crc_bit_of_int flip: of_int_xor_eq)
qed

lemma crc32_of_int: "crc32 (map of_int bs) = of_int (foldl crc_step_int 0xFFFFFFFF bs XOR 0xFFFFFFFF)"
proof -
  have step: "foldl crc_step (of_int c) (map of_int bs) = of_int (foldl crc_step_int c bs)" for c
    by (induction bs arbitrary: c) (simp_all add: crc_step_of_int)
  from step [of "0xFFFFFFFF"] show ?thesis by (simp add: crc32_def of_int_xor_eq)
qed

lemma crc_check_value:
  "crc32 (map of_int [0x31, 0x32, 0x33, 0x34, 0x35, 0x36, 0x37, 0x38, 0x39]) = 0xCBF43926"
proof -
  have "foldl crc_step_int 0xFFFFFFFF [0x31, 0x32, 0x33, 0x34, 0x35, 0x36, 0x37, 0x38, 0x39] XOR 0xFFFFFFFF
      = 0xCBF43926" by code_simp
  then show ?thesis by (simp only: crc32_of_int) simp
qed

section \<open>A writer\<close>

text \<open>The writer the unit tests of the module use; Kiro's own is not in the repository.\<close>

definition bytes_of :: "string \<Rightarrow> bytes" where
  "bytes_of s = map (\<lambda>c. of_nat (of_char c)) s"

definition be16 :: "nat \<Rightarrow> bytes" where
  "be16 n = [of_nat (n div 256), of_nat (n mod 256)]"

fun put_header_value :: "header_value \<Rightarrow> bytes" where
  "put_header_value (HText t) = 7 # be16 (if length t \<le> u16_max then length t else 0) @ bytes_of t"
| "put_header_value (HBool flag) = [if flag then 0 else 1]"
| "put_header_value (HInt i) = 4 # be_bytes (unat (of_int (if - (2 ^ 31) \<le> i \<and> i < 2 ^ 31 then i else 0) :: 32 word))"
| "put_header_value (HBytes b) = 6 # be16 (if length b \<le> u16_max then length b else 0) @ b"
| "put_header_value HSkipped = 8 # replicate 8 0"

definition put_header :: "string \<times> header_value \<Rightarrow> bytes" where
  "put_header h = of_nat (if length (fst h) < 256 then length (fst h) else 0) # bytes_of (fst h) @ put_header_value (snd h)"

definition build :: "(string \<times> header_value) list \<Rightarrow> bytes \<Rightarrow> bytes" where
  "build headers body =
     (let header_block = concat (map put_header headers);
          total_len = 16 + length header_block + length body;
          lengths = be_bytes (if total_len \<le> u32_max then total_len else 0)
                    @ be_bytes (if length header_block \<le> u32_max then length header_block else 0);
          message = lengths @ be_bytes (unat (crc32 lengths)) @ header_block @ body
      in message @ be_bytes (unat (crc32 message)))"

fun value_ok :: "header_value \<Rightarrow> bool" where
  "value_ok (HText t) \<longleftrightarrow> utf8 t \<and> length t \<le> u16_max"
| "value_ok (HInt i) \<longleftrightarrow> - (2 ^ 31) \<le> i \<and> i < 2 ^ 31"
| "value_ok (HBytes b) \<longleftrightarrow> length b \<le> u16_max"
| "value_ok _ \<longleftrightarrow> True"

definition header_ok :: "string \<times> header_value \<Rightarrow> bool" where
  "header_ok h \<longleftrightarrow> utf8 (fst h) \<and> length (fst h) < 256 \<and> value_ok (snd h)"

lemma text_bytes [simp]: "text_of (bytes_of s) = s"
  by (induction s) (simp_all add: text_of_def bytes_of_def unat_of_nat)

lemma length_bytes_of [simp]: "length (bytes_of s) = length s"
  by (simp add: bytes_of_def)

lemma be_value_be16: "n \<le> u16_max \<Longrightarrow> be_value (be16 n) = n"
  by (simp add: be_value_def be16_def unat_of_nat u16_max_def less_mult_imp_div_less)

lemma length_be16 [simp]: "length (be16 n) = 2"
  by (simp add: be16_def)

lemma length_be_bytes [simp]: "length (be_bytes n) = 4"
  by (simp add: be_bytes_def)

lemma split_front_exact: "length p = n \<Longrightarrow> split_front n (p @ r) = Some (p, r)"
  using split_front_facts(3) by blast

lemma be_value_word: "be_value (be_bytes (unat (w :: 32 word))) = unat w"
proof -
  have "unat w < 2 ^ 32" using unsigned_less [of w] by simp
  then show ?thesis by (intro be_value_bytes) (simp add: u32_max_def)
qed

lemma read_put_value:
  assumes "value_ok v"
  shows "\<exists>kind body. put_header_value v = kind # body \<and> read_header_value kind (body @ rest) name = Inr (v, rest)"
proof (cases v)
  case (HInt i)
  define w where "w = (of_int i :: 32 word)"
  have "be_value (be_bytes (unat w)) = unat w" by (rule be_value_word)
  moreover have "sint w = i"
    using assms HInt by (simp add: w_def signed_of_int signed_take_bit_int_eq_self)
  ultimately show ?thesis
    using assms HInt by (simp add: read_header_value_def split_front_exact flip: w_def)
qed (use assms in \<open>simp_all add: read_header_value_def split_front_exact be_value_be16 lossy_whole\<close>)

lemma parse_put_headers:
  assumes "list_all header_ok hs" "distinct (map fst (acc @ hs))"
  shows "parse_headers (concat (map put_header hs)) acc = Inr (acc @ hs)"
  using assms
proof (induction hs arbitrary: acc)
  case Nil
  then show ?case by (simp add: parse_headers.simps)
next
  case (Cons h hs)
  obtain name v where h: "h = (name, v)" by fastforce
  with Cons.prems have ok: "utf8 name" "length name < 256" "value_ok v" by (simp_all add: header_ok_def)
  obtain kind body where v: "put_header_value v = kind # body"
    "read_header_value kind (body @ concat (map put_header hs)) name = Inr (v, concat (map put_header hs))"
    using read_put_value [OF ok(3)] by blast
  have new: "\<not> list_ex (\<lambda>(existing, _). existing = name) acc"
    using Cons.prems(2) h by (force simp: list_ex_iff)
  have rest: "parse_headers (concat (map put_header hs)) (acc @ [(name, v)]) = Inr ((acc @ [(name, v)]) @ hs)"
    using Cons.prems h by (intro Cons.IH) auto
  have "unat (of_nat (length name) :: 8 word) = length name" using ok(2) by (simp add: unat_of_nat)
  then show ?case
    using ok rest new split_front_exact [of "bytes_of name" "length name"]
    by (subst parse_headers.simps) (simp add: h put_header_def v lossy_whole)
qed

lemma word_at_put: "length p = k \<Longrightarrow> n \<le> u32_max \<Longrightarrow> word_at (p @ be_bytes n @ r) k = of_nat n"
  by (simp add: word_at_def be_value_bytes)

lemma word_at_put_word: "length p = k \<Longrightarrow> word_at (p @ be_bytes (unat w) @ r) k = w"
  by (simp add: word_at_def be_value_word)

lemma read_built:
  assumes "list_all header_ok hs" "distinct (map fst hs)"
    and "length (concat (map put_header hs)) \<le> MAX_HEADERS"
    and "16 + length (concat (map put_header hs)) + length body \<le> MAX_MESSAGE"
  shows "read_message parse (build hs body @ rest) =
    (if list_all ascii_white body
     then MessageRead \<lparr>em_headers = hs, em_payload = None\<rparr> (length (build hs body))
     else case parse body of
            Inr v \<Rightarrow> MessageRead \<lparr>em_headers = hs, em_payload = Some v\<rparr> (length (build hs body))
          | Inl reason \<Rightarrow> Failed (PayloadError reason))"
proof -
  define hb where "hb = concat (map put_header hs)"
  define n where "n = 16 + length hb + length body"
  define ls where "ls = be_bytes n @ be_bytes (length hb)"
  define msg where "msg = ls @ be_bytes (unat (crc32 ls)) @ hb @ body"
  have small: "n \<le> u32_max" "length hb \<le> u32_max" using assms(4) by (simp_all add: n_def hb_def MAX_MESSAGE_def u32_max_def)
  then have built: "build hs body = msg @ be_bytes (unat (crc32 msg))"
    by (simp add: build_def Let_def msg_def ls_def n_def flip: hb_def)
  have len: "length ls = 8" "length msg = n - 4" "length (build hs body) = n" "16 \<le> n"
    by (simp_all add: ls_def msg_def n_def built)
  let ?b = "build hs body @ rest"
  have w0: "word_at ?b 0 = of_nat n"
    using word_at_put [of "[]" 0 n] small(1) by (simp add: built msg_def ls_def)
  have w4: "word_at ?b 4 = of_nat (length hb)"
    using word_at_put [of "be_bytes n" 4 "length hb"] small(2) by (simp add: built msg_def ls_def)
  have w8: "word_at ?b 8 = crc32 ls"
    using word_at_put_word [OF len(1)] by (simp add: built msg_def)
  have wn: "word_at ?b (n - 4) = crc32 msg"
    using word_at_put_word [OF len(2)] by (simp add: built)
  have u: "unat (of_nat n :: 32 word) = n" "unat (of_nat (length hb) :: 32 word) = length hb"
    using small by (simp_all add: unat_of_nat u32_max_def)
  have t8: "take 8 ?b = ls" using len(1) by (simp add: built msg_def)
  have tn: "take (n - 4) ?b = msg" using len(2) by (simp add: built)
  have ok: "lengths_ok n (length hb)"
    using assms(3,4) by (simp add: lengths_ok_def n_def hb_def MIN_FRAME_def)
  have long: "\<not> length ?b < 12" "\<not> length ?b < n" using len(3,4) by simp_all
  have whole: "take n ?b = build hs body" using len(3) by simp
  have "read_message parse ?b = read_body parse (build hs body) n (length hb)"
    using long ok by (simp only: read_message_alt w0 w4 w8 wn u t8 tn whole if_False simp_thms)
  moreover have "slice PRELUDE (PRELUDE + length hb) (build hs body) = Some hb"
    using len(1) by (simp add: slice_def PRELUDE_def built msg_def)
  moreover have "slice (PRELUDE + length hb) (n - 4) (build hs body) = Some body"
    using len(1) by (simp add: slice_def PRELUDE_def built msg_def n_def)
  moreover have "parse_headers hb [] = Inr hs" using parse_put_headers [of hs "[]"] assms(1,2) by (simp add: hb_def)
  ultimately show ?thesis unfolding len(3) by (simp add: read_body_def Let_def)
qed

section \<open>Properties\<close>

text \<open>The table-driven checksum computes what the serial circuit computes: for every byte string it is the
  CRC-32 register fed with the bits of the bytes, the low bit first. (Of the published test string
  \<open>123456789\<close> it is \<open>0xCBF43926\<close>, lemma \<open>crc_check_value\<close>.)\<close>

theorem table_computes_serial_crc: "crc32 bs = serial_crc (concat (map byte_bits bs))"
  by (simp add: crc32_def serial_crc_def crc_steps_serial)

text \<open>C35: A message damaged in up to four adjacent bytes is never taken for a good one. If a message that the reader accepts is changed in up
  to four adjacent bytes that lie within one of its parts (the lengths, their checksum, headers and payload,
  the last checksum), the reader refuses it with the error of the checksum concerned, so it never
  uses a damaged length or payload; and a message that has not arrived whole is reported as
  incomplete, never as damaged.\<close>

theorem damage_detected:
  assumes "read_message parse (u @ xs @ v) = MessageRead m n" "length ys = length xs" "length xs \<le> 4" "ys \<noteq> xs"
    and "within_part n (length u) (length u + length xs)"
  shows "read_message parse (u @ ys @ v) = Failed (if length u + length xs \<le> 12 then PreludeCrc else MessageCrc)
    \<and> (\<forall>k. k < n \<longrightarrow> read_message parse (take k (u @ xs @ v)) = Incomplete)"
  using corrupted [OF assms] read_message_prefix [OF assms(1)] by blast

text \<open>What a writer of the protocol sends is read back whole: headers of every type in order, the payload,
  and the number of bytes, whatever follows in the buffer.\<close>

theorem message_read_back:
  assumes "list_all header_ok hs" "distinct (map fst hs)"
    and "length (concat (map put_header hs)) \<le> MAX_HEADERS"
    and "16 + length (concat (map put_header hs)) + length body \<le> MAX_MESSAGE"
    and "\<not> list_all ascii_white body" "parse body = Inr v"
  shows "read_message parse (build hs body @ rest) = MessageRead \<lparr>em_headers = hs, em_payload = Some v\<rparr> (length (build hs body))"
  using read_built [OF assms(1-4), of parse rest] assms(5,6) by simp

lemma utf8_type: "utf8 '':event-type''" "utf8 ''messageStopEvent''"
  by (auto intro!: ascii_utf8 simp: byte_def)

theorem message_read_back_witness:
  "read_message (\<lambda>_. Inr JNull) (build [('':event-type'', HText ''messageStopEvent''), (''n'', HInt (-2))] [0x7B, 0x7D] @ [1, 2])
    = MessageRead \<lparr>em_headers = [('':event-type'', HText ''messageStopEvent''), (''n'', HInt (-2))], em_payload = Some JNull\<rparr>
        (length (build [('':event-type'', HText ''messageStopEvent''), (''n'', HInt (-2))] [0x7B, 0x7D]))"
proof (rule message_read_back)
  show "list_all header_ok [('':event-type'', HText ''messageStopEvent''), (''n'', HInt (-2))]"
    using utf8_type ascii_utf8 [of "''n''"] by (simp add: header_ok_def u16_max_def byte_def)
qed (simp_all add: put_header_def be16_def bytes_of_def MAX_HEADERS_def MAX_MESSAGE_def ascii_white_def u16_max_def)

theorem damage_detected_witness:
  "let b = build [(''x'', HBool True)] []
   in read_message (\<lambda>_. Inl []) (take 12 b @ [2] @ drop 13 b) = Failed MessageCrc"
proof -
  define b where "b = build [(''x'', HBool True)] []"
  have ok: "list_all header_ok [(''x'', HBool True)]" using ascii_utf8 [of "''x''"] by (simp add: header_ok_def byte_def)
  have len: "length b = 19" by (simp add: b_def build_def put_header_def Let_def)
  have "read_message (\<lambda>_. Inl []) b = MessageRead \<lparr>em_headers = [(''x'', HBool True)], em_payload = None\<rparr> 19"
    using read_built [OF ok, of "[]" "\<lambda>_. Inl []" "[]"] len
    by (simp add: b_def put_header_def bytes_of_def MAX_HEADERS_def MAX_MESSAGE_def)
  moreover have "b = take 12 b @ [b ! 12] @ drop 13 b" using len id_take_nth_drop [of 12 b] by simp
  ultimately have good: "read_message (\<lambda>_. Inl []) (take 12 b @ [b ! 12] @ drop 13 b)
      = MessageRead \<lparr>em_headers = [(''x'', HBool True)], em_payload = None\<rparr> 19" by metis
  have "b ! 12 = 1" by (simp add: b_def build_def put_header_def Let_def nth_append)
  with damage_detected [OF good, of "[2]"] len show ?thesis by (simp add: within_part_def flip: b_def)
qed

end
