(* ===== verification/Kiro_Stream.thy ===== *)
theory Kiro_Stream
  imports Eventstream Collapse
begin

text \<open>
  The answers of Kiro: what an event means and how events become OpenAI chunks
  (\<open>crates/execute/src/bespoke/kiro/response.rs\<close>), the reader of the pending bytes and the pumps that
  carry a binary body to a client or into one answer (the Kiro arm of \<open>BinaryDecoder\<close>,
  \<open>pipe_binary_stream\<close> and \<open>collapse_binary_body\<close> of \<open>crates/execute/src/stream.rs\<close>).
\<close>

section \<open>Events\<close>

definition CONTENT_EVENTS :: "string list" where
  "CONTENT_EVENTS = [''assistantResponseEvent'', ''reasoningContentEvent'', ''codeEvent'', ''toolUseEvent'']"

record tool_fragment =
  tf_id :: string
  tf_name :: string
  tf_input :: string
  tf_last :: bool

record kiro_decoded =
  kd_text :: "string option"
  kd_reasoning :: "string option"
  kd_tool :: "tool_fragment option"
  kd_stopped :: bool
  kd_exception :: "string option"

definition nothing_decoded :: kiro_decoded where
  "nothing_decoded = \<lparr>kd_text = None, kd_reasoning = None, kd_tool = None, kd_stopped = False, kd_exception = None\<rparr>"

definition full_string :: "json option \<Rightarrow> string option" where
  "full_string v = (case Option.bind v as_str of Some (c # cs) \<Rightarrow> Some (c # cs) | _ \<Rightarrow> None)"

definition decode_tool :: "(json \<Rightarrow> string) \<Rightarrow> json \<Rightarrow> tool_fragment" where
  "decode_tool render_json inner =
     \<lparr>tf_id = opt_default [] (get_str inner ''toolUseId''),
      tf_name = opt_default [] (get_str inner ''name''),
      tf_input = (case jget inner ''input'' of
                    Some (JStr text) \<Rightarrow> text | Some v \<Rightarrow> render_json v | None \<Rightarrow> []),
      tf_last = (jget inner ''stop'' = Some (JBool True))\<rparr>"

definition event_name :: "event_message \<Rightarrow> json \<Rightarrow> string" where
  "event_name m payload =
     (case event_type m of
        Some (c # cs) \<Rightarrow> c # cs
      | _ \<Rightarrow> opt_default [] (find (\<lambda>name. jget payload name \<noteq> None) (CONTENT_EVENTS @ [''messageStopEvent''])))"

definition decode_event :: "(json \<Rightarrow> string) \<Rightarrow> event_message \<Rightarrow> kiro_decoded" where
  "decode_event render_json m =
     (if message_type m = Some ''exception'' then
        (let detail = opt_default ''upstream exception'' (Option.bind (em_payload m) (\<lambda>p. get_str p ''message''));
             name = opt_default ''Exception'' (exception_type m)
         in nothing_decoded\<lparr>kd_exception := Some (name @ '': '' @ detail)\<rparr>)
      else case em_payload m of
        None \<Rightarrow> nothing_decoded\<lparr>kd_stopped := (event_type m = Some ''messageStopEvent'')\<rparr>
      | Some payload \<Rightarrow>
          (let event = event_name m payload;
               inner = opt_default payload (jget payload event)
           in if event = ''assistantResponseEvent'' \<or> event = ''codeEvent'' then
                nothing_decoded\<lparr>kd_text := full_string (jget inner ''content'')\<rparr>
              else if event = ''reasoningContentEvent'' then
                nothing_decoded\<lparr>kd_reasoning := full_string (opt_or (jget inner ''text'') (jget inner ''content''))\<rparr>
              else if event = ''toolUseEvent'' then nothing_decoded\<lparr>kd_tool := Some (decode_tool render_json inner)\<rparr>
              else if event = ''messageStopEvent'' then nothing_decoded\<lparr>kd_stopped := True\<rparr>
              else nothing_decoded))"

section \<open>Chunks\<close>

record kiro_stream =
  ks_meta :: chunk_meta
  ks_opened :: bool
  ks_tool_ids :: "string list"
  ks_used_tool :: bool
  ks_finished :: bool

definition kiro_new :: "chunk_meta \<Rightarrow> kiro_stream" where
  "kiro_new m = \<lparr>ks_meta = m, ks_opened = False, ks_tool_ids = [], ks_used_tool = False, ks_finished = False\<rparr>"

definition kiro_delta :: "(string \<times> json) list \<Rightarrow> kiro_stream \<Rightarrow> json \<times> kiro_stream" where
  "kiro_delta members s =
     (build_chunk (ks_meta s)
        (jobj (if ks_opened s then members else members @ [(''role'', JStr ''assistant'')])) None,
      s\<lparr>ks_opened := True\<rparr>)"

definition kiro_finish :: "kiro_stream \<Rightarrow> json list \<times> kiro_stream" where
  "kiro_finish s =
     (if ks_finished s then ([], s)
      else
        (let s1 = s\<lparr>ks_finished := True\<rparr>;
             (cs, s2) = (if ks_opened s1 then ([], s1)
                         else case kiro_delta [(''content'', JStr [])] s1 of (c, s') \<Rightarrow> ([c], s'));
             reason = (if ks_used_tool s2 then ''tool_calls'' else ''stop'')
         in (cs @ [build_chunk (ks_meta s2) (jobj []) (Some reason)], s2)))"

fun position :: "'a \<Rightarrow> 'a list \<Rightarrow> nat option" where
  "position x [] = None"
| "position x (y # ys) = (if y = x then Some 0 else map_option Suc (position x ys))"

definition tool_delta :: "nat \<Rightarrow> tool_fragment \<Rightarrow> (string \<times> json) list" where
  "tool_delta index f =
     [(''tool_calls'', JArr [jobj
        [(''index'', jnat index), (''id'', JStr (tf_id f)), (''type'', JStr ''function''),
         (''function'', jobj [(''name'', JStr (tf_name f)), (''arguments'', JStr (tf_input f))])]])]"

definition push_text :: "kiro_decoded \<Rightarrow> kiro_stream \<Rightarrow> json list \<times> kiro_stream" where
  "push_text d s =
     (case kd_text d of
        None \<Rightarrow> ([], s)
      | Some t \<Rightarrow> (case kiro_delta [(''content'', JStr t)] s of (c, s') \<Rightarrow> ([c], s')))"

definition push_reasoning :: "kiro_decoded \<Rightarrow> kiro_stream \<Rightarrow> json list \<times> kiro_stream" where
  "push_reasoning d s =
     (case kd_reasoning d of
        None \<Rightarrow> ([], s)
      | Some t \<Rightarrow> (case kiro_delta [(''reasoning_content'', JStr t)] s of (c, s') \<Rightarrow> ([c], s')))"

definition push_tool :: "kiro_decoded \<Rightarrow> kiro_stream \<Rightarrow> json list \<times> kiro_stream" where
  "push_tool d s =
     (case kd_tool d of
        None \<Rightarrow> ([], s)
      | Some f \<Rightarrow>
          (let s1 = s\<lparr>ks_used_tool := True\<rparr>;
               (index, s2) = (case position (tf_id f) (ks_tool_ids s1) of
                   Some index \<Rightarrow> (index, s1)
                 | None \<Rightarrow> (length (ks_tool_ids s1), s1\<lparr>ks_tool_ids := ks_tool_ids s1 @ [tf_id f]\<rparr>))
           in case kiro_delta (tool_delta index f) s2 of (c, s') \<Rightarrow> ([c], s')))"

definition kiro_push :: "kiro_decoded \<Rightarrow> kiro_stream \<Rightarrow> json list \<times> kiro_stream" where
  "kiro_push d s =
     (let (c1, s1) = push_text d s;
          (c2, s2) = push_reasoning d s1;
          (c3, s3) = push_tool d s2;
          (c4, s4) = (if kd_stopped d then kiro_finish s3 else ([], s3))
      in (c1 @ c2 @ c3 @ c4, s4))"

section \<open>The pending bytes\<close>

record binary_step =
  bs_chunks :: "json list"
  bs_fatal :: "string option"
  bs_stop_after :: bool

lemma message_consumes: "read_message parse b = MessageRead m n \<Longrightarrow> length b - n < length b"
  using read_message_bounds(5,7) [of parse b m n] by simp

function kiro_consume ::
    "(bytes \<Rightarrow> string + json) \<Rightarrow> (json \<Rightarrow> string) \<Rightarrow> kiro_stream \<Rightarrow> bytes \<Rightarrow> kiro_stream \<times> bytes \<times> binary_step" where
  "kiro_consume parse render_json s pending =
     (let ends = (\<lambda>message. if ks_opened s then None else Some message)
      in case read_message parse pending of
        Incomplete \<Rightarrow> (s, pending, \<lparr>bs_chunks = [], bs_fatal = None, bs_stop_after = False\<rparr>)
      | Failed e \<Rightarrow>
          (s, pending, \<lparr>bs_chunks = [], bs_fatal = ends (frame_error_text e), bs_stop_after = True\<rparr>)
      | MessageRead m consumed \<Rightarrow>
          (let rest = drop consumed pending; d = decode_event render_json m
           in case kd_exception d of
                Some exception \<Rightarrow> (s, rest, \<lparr>bs_chunks = [], bs_fatal = ends exception, bs_stop_after = True\<rparr>)
              | None \<Rightarrow>
                  if d = nothing_decoded then kiro_consume parse render_json s rest
                  else
                    (let (chunks, s1) = kiro_push d s;
                         (s2, left, step) = kiro_consume parse render_json s1 rest
                     in (s2, left, step\<lparr>bs_chunks := chunks @ bs_chunks step\<rparr>))))"
  by pat_completeness auto

termination
  by (relation "measure (\<lambda>(_, _, _, b). length b)") (auto dest: message_consumes)

declare kiro_consume.simps [simp del]

section \<open>The pumps\<close>

record 'd binary_decoder =
  bd_consume :: "'d \<Rightarrow> bytes \<Rightarrow> 'd \<times> bytes \<times> binary_step"
  bd_finish :: "'d \<Rightarrow> json list \<times> 'd"

definition kiro_decoder :: "(bytes \<Rightarrow> string + json) \<Rightarrow> (json \<Rightarrow> string) \<Rightarrow> kiro_stream binary_decoder" where
  "kiro_decoder parse render_json = \<lparr>bd_consume = kiro_consume parse render_json, bd_finish = kiro_finish\<rparr>"

text \<open>\<open>to_client\<close>: the chunks go through the client's translator one by one; all are translated before the
  first is sent.\<close>

fun to_client :: "(json \<Rightarrow> 's \<Rightarrow> json list \<times> 's) \<Rightarrow> json list \<Rightarrow> 's \<Rightarrow> json list \<times> 's" where
  "to_client f [] st = ([], st)"
| "to_client f (c # cs) st =
     (let (out, st1) = f c st; (out', st2) = to_client f cs st1 in (out @ out', st2))"

fun binary_chunks ::
    "(nat \<Rightarrow> bool) \<Rightarrow> (json \<Rightarrow> string) \<Rightarrow> 's translator \<Rightarrow> 'd binary_decoder \<Rightarrow> bytes option list \<Rightarrow> 'd \<Rightarrow> bytes
     \<Rightarrow> 's pump \<Rightarrow> 'd \<times> string option \<times> 's pump" where
  "binary_chunks sink to_frame tr dec [] d pending p = (d, None, p)"
| "binary_chunks sink to_frame tr dec (None # cs) d pending p = (d, None, p)"
| "binary_chunks sink to_frame tr dec (Some bytes # cs) d pending p =
     (case bd_consume dec d (pending @ bytes) of
        (d', left, step) \<Rightarrow>
          (case bs_fatal step of
             Some message \<Rightarrow> (d', Some message, p)
           | None \<Rightarrow>
               (let (chunks, st) = to_client (tr_chunk tr) (bs_chunks step) (pu_state p);
                    p' = relay sink to_frame True chunks (p\<lparr>pu_state := st\<rparr>)
                in if bs_stop_after step \<or> pu_gone p' then (d', None, p')
                   else binary_chunks sink to_frame tr dec cs d' left p')))"

definition pipe_binary_stream ::
    "(nat \<Rightarrow> bool) \<Rightarrow> (json \<Rightarrow> string) \<Rightarrow> 's translator \<Rightarrow> 'd binary_decoder \<Rightarrow> wire_format
     \<Rightarrow> bytes option list \<Rightarrow> 'd \<Rightarrow> 's \<Rightarrow> string option \<times> 's pump" where
  "pipe_binary_stream sink render_json tr dec source body d state =
     (let to_frame = (\<lambda>c. frame_for render_json c (framing_for source) source);
          start = \<lparr>pu_state = state, pu_sent = [], pu_summary = empty_summary, pu_gone = False\<rparr>
      in case binary_chunks sink to_frame tr dec body d [] start of
           (d', error, p) \<Rightarrow>
             (let p1 = relay_finish sink to_frame True
                         (to_client (tr_chunk tr) (fst (bd_finish dec d'))) p;
                  p2 = relay_finish sink to_frame False (tr_finish_client tr) p1
              in (error, if pu_gone p2 then p2 else send_frame sink done_frame p2)))"

text \<open>The chunks a binary body comes to when it is collapsed; an absent read ends it.\<close>

fun collapse_binary_body :: "'d binary_decoder \<Rightarrow> bytes option list \<Rightarrow> 'd \<Rightarrow> bytes \<Rightarrow> json list" where
  "collapse_binary_body dec [] d pending = fst (bd_finish dec d)"
| "collapse_binary_body dec (None # cs) d pending = fst (bd_finish dec d)"
| "collapse_binary_body dec (Some bytes # cs) d pending =
     (case bd_consume dec d (pending @ bytes) of
        (d', left, step) \<Rightarrow>
          bs_chunks step @ (if bs_stop_after step then fst (bd_finish dec d')
                            else collapse_binary_body dec cs d' left))"

section \<open>Cuts in the body\<close>

lemma consume_incomplete:
  "read_message parse a = Incomplete \<Longrightarrow>
     kiro_consume parse rj s a = (s, a, \<lparr>bs_chunks = [], bs_fatal = None, bs_stop_after = False\<rparr>)"
  by (simp add: kiro_consume.simps [of parse rj s a] Let_def)

lemma consume_failed:
  "read_message parse a = Failed e \<Longrightarrow>
     kiro_consume parse rj s a = (s, a, \<lparr>bs_chunks = [],
       bs_fatal = (if ks_opened s then None else Some (frame_error_text e)), bs_stop_after = True\<rparr>)"
  by (simp add: kiro_consume.simps [of parse rj s a] Let_def)

lemma consume_exception:
  "read_message parse a = MessageRead m n \<Longrightarrow> kd_exception (decode_event rj m) = Some x \<Longrightarrow>
     kiro_consume parse rj s a = (s, drop n a, \<lparr>bs_chunks = [],
       bs_fatal = (if ks_opened s then None else Some x), bs_stop_after = True\<rparr>)"
  by (simp add: kiro_consume.simps [of parse rj s a] Let_def)

lemma consume_skip:
  "read_message parse a = MessageRead m n \<Longrightarrow> decode_event rj m = nothing_decoded \<Longrightarrow>
     kiro_consume parse rj s a = kiro_consume parse rj s (drop n a)"
  by (simp add: kiro_consume.simps [of parse rj s a] Let_def nothing_decoded_def)

lemma consume_push:
  "read_message parse a = MessageRead m n \<Longrightarrow> kd_exception (decode_event rj m) = None \<Longrightarrow>
     decode_event rj m \<noteq> nothing_decoded \<Longrightarrow> kiro_push (decode_event rj m) s = (chunks, s1) \<Longrightarrow>
     kiro_consume parse rj s a =
       (case kiro_consume parse rj s1 (drop n a) of
          (s2, left, st) \<Rightarrow> (s2, left, st\<lparr>bs_chunks := chunks @ bs_chunks st\<rparr>))"
  by (simp add: kiro_consume.simps [of parse rj s a] Let_def)

lemma consume_induct [case_names incomplete failed exception skip push]:
  assumes "\<And>s a. read_message parse a = Incomplete \<Longrightarrow> P s a"
    and "\<And>s a e. read_message parse a = Failed e \<Longrightarrow> P s a"
    and "\<And>s a m n x. read_message parse a = MessageRead m n \<Longrightarrow> kd_exception (decode_event rj m) = Some x \<Longrightarrow> P s a"
    and "\<And>s a m n. read_message parse a = MessageRead m n \<Longrightarrow> decode_event rj m = nothing_decoded \<Longrightarrow>
           P s (drop n a) \<Longrightarrow> P s a"
    and "\<And>s a m n chunks s1. read_message parse a = MessageRead m n \<Longrightarrow> kd_exception (decode_event rj m) = None \<Longrightarrow>
           decode_event rj m \<noteq> nothing_decoded \<Longrightarrow> kiro_push (decode_event rj m) s = (chunks, s1) \<Longrightarrow>
           P s1 (drop n a) \<Longrightarrow> P s a"
  shows "P s a"
proof (induction a arbitrary: s rule: length_induct)
  case (1 a)
  show ?case
  proof (cases "read_message parse a")
    case (MessageRead m n)
    then have less: "P s' (drop n a)" for s' using 1 message_consumes [OF MessageRead] by simp
    obtain chunks s1 where push: "kiro_push (decode_event rj m) s = (chunks, s1)" by fastforce
    show ?thesis
    proof (cases "kd_exception (decode_event rj m)")
      case (Some x)
      then show ?thesis by (rule assms(3) [OF MessageRead])
    next
      case None
      then show ?thesis
        using assms(4) [OF MessageRead _ less] assms(5) [OF MessageRead None _ push less] by blast
    qed
  qed (rule assms(1), assumption, rule assms(2), assumption)
qed

text \<open>A message at the front of the buffer stays there when more bytes arrive.\<close>

lemma message_more:
  assumes "read_message parse a = MessageRead m n"
  shows "read_message parse (a @ b) = MessageRead m n" "drop n (a @ b) = drop n a @ b"
  using read_message_more [of parse a b] read_message_bounds(5) [OF assms] assms by simp_all

lemma consume_append:
  "kiro_consume parse rj s (a @ b) =
     (case kiro_consume parse rj s a of (s1, left, st) \<Rightarrow>
        if bs_stop_after st then (s1, left @ b, st)
        else case kiro_consume parse rj s1 (left @ b) of
               (s2, left', st') \<Rightarrow> (s2, left', st'\<lparr>bs_chunks := bs_chunks st @ bs_chunks st'\<rparr>))"
proof (induction s a rule: consume_induct [where parse = parse and rj = rj])
  case (incomplete s a)
  then show ?case by (simp add: consume_incomplete split: prod.splits)
next
  case (failed s a e)
  then have "read_message parse (a @ b) = Failed e" using read_message_more [of parse a b] by simp
  with failed show ?case by (simp add: consume_failed)
next
  case (exception s a m n x)
  with message_more [OF exception(1)] show ?case by (simp add: consume_exception)
next
  case (skip s a m n)
  with message_more [OF skip(1)] show ?case by (simp add: consume_skip)
next
  case (push s a m n chunks s1)
  obtain s2 left st where r: "kiro_consume parse rj s1 (drop n a) = (s2, left, st)" by (metis prod_cases3)
  note whole = consume_push [OF message_more(1) [OF push(1), of b] push(2-4), unfolded message_more(2) [OF push(1)]]
  show ?case
    unfolding whole consume_push [OF push(1-4)] push(5) r by (simp split: prod.splits)
qed

lemma consume_left:
  "kiro_consume parse rj s a = (s1, left, st) \<Longrightarrow> \<not> bs_stop_after st \<Longrightarrow>
     kiro_consume parse rj s1 left = (s1, left, \<lparr>bs_chunks = [], bs_fatal = None, bs_stop_after = False\<rparr>)"
proof (induction s a arbitrary: st rule: consume_induct [where parse = parse and rj = rj])
  case (push s a m n chunks s')
  then show ?case by (auto simp: consume_push [OF push(1-4)] split: prod.splits)
qed (auto simp: consume_incomplete consume_failed consume_exception consume_skip)

definition ks_ok :: "kiro_stream \<Rightarrow> bool" where
  "ks_ok s \<longleftrightarrow> (ks_finished s \<longrightarrow> ks_opened s)"

lemmas push_parts = push_text_def push_reasoning_def push_tool_def kiro_delta_def kiro_finish_def Let_def

lemma kiro_push_opens:
  assumes "kiro_push d s = (chunks, s')" "d \<noteq> nothing_decoded" "kd_exception d = None" "ks_ok s"
  shows "ks_opened s' \<and> ks_ok s'"
proof -
  have "kd_text d \<noteq> None \<or> kd_reasoning d \<noteq> None \<or> kd_tool d \<noteq> None \<or> kd_stopped d"
    using assms(2,3) by (cases d) (auto simp: nothing_decoded_def)
  with assms(1,4) show ?thesis
    by (auto simp: kiro_push_def push_parts ks_ok_def split: option.splits if_splits prod.splits)
qed

definition step_honest :: "kiro_stream \<Rightarrow> kiro_stream \<Rightarrow> binary_step \<Rightarrow> bool" where
  "step_honest s s' st \<longleftrightarrow> ks_ok s' \<and> (ks_opened s \<longrightarrow> ks_opened s' \<and> bs_fatal st = None)
     \<and> (bs_chunks st \<noteq> [] \<longrightarrow> ks_opened s' \<and> bs_fatal st = None) \<and> (bs_fatal st \<noteq> None \<longrightarrow> bs_stop_after st)"

lemma consume_honest:
  "kiro_consume parse rj s a = (s1, left, st) \<Longrightarrow> ks_ok s \<Longrightarrow> step_honest s s1 st"
proof (induction s a arbitrary: st rule: consume_induct [where parse = parse and rj = rj])
  case (push s a m n chunks s')
  obtain s2 left' st' where rest: "kiro_consume parse rj s' (drop n a) = (s2, left', st')" by (metis prod_cases3)
  with push(6) have eq: "s1 = s2" "left = left'" "st = st'\<lparr>bs_chunks := chunks @ bs_chunks st'\<rparr>"
    by (simp_all add: consume_push [OF push(1-4)])
  from kiro_push_opens [OF push(4,3,2,7)] have "ks_opened s'" "ks_ok s'" by simp_all
  with push(5) [of st'] rest eq show ?case by (simp add: step_honest_def)
qed (auto simp: consume_incomplete consume_failed consume_exception consume_skip step_honest_def)

text \<open>The pump sees the same, whatever the cuts: until the client is gone, everything; then what it was sent.\<close>

definition same_run :: "'d \<times> string option \<times> 's pump \<Rightarrow> 'd \<times> string option \<times> 's pump \<Rightarrow> bool" where
  "same_run r r' \<longleftrightarrow> (case (r, r') of ((d, e, p), (d', e', p')) \<Rightarrow>
     e = e' \<and> pu_gone p = pu_gone p' \<and> pu_sent p = pu_sent p' \<and> pu_summary p = pu_summary p'
     \<and> (\<not> pu_gone p \<longrightarrow> d = d' \<and> p = p'))"

lemma same_run_refl [simp]: "same_run r r"
  by (auto simp: same_run_def)

lemma same_run_trans: "same_run a b \<Longrightarrow> same_run b c \<Longrightarrow> same_run a c"
  by (auto simp: same_run_def)

lemma to_client_append:
  "to_client f (xs @ ys) st =
     (case to_client f xs st of (out, st1) \<Rightarrow> case to_client f ys st1 of (out', st2) \<Rightarrow> (out @ out', st2))"
  by (induction xs arbitrary: st) (simp_all add: Let_def split: prod.splits)

lemma send_state:
  "send_frame sink f (p\<lparr>pu_state := st\<rparr>) = (send_frame sink f p)\<lparr>pu_state := st\<rparr>"
  "send_frame sink f (p\<lparr>pu_state := st, pu_summary := x\<rparr>) = (send_frame sink f (p\<lparr>pu_summary := x\<rparr>))\<lparr>pu_state := st\<rparr>"
  by (simp_all add: send_frame_def)

lemma relay_state:
  "relay sink tf col cs (p\<lparr>pu_state := st\<rparr>) = (relay sink tf col cs p)\<lparr>pu_state := st\<rparr>"
proof (induction cs arbitrary: p)
  case (Cons c cs)
  then show ?case by (cases col) (simp_all add: Let_def send_state)
qed simp

lemma relay_append:
  "\<not> pu_gone p \<Longrightarrow> relay sink tf col (xs @ ys) p =
     (let p' = relay sink tf col xs p in if pu_gone p' then p' else relay sink tf col ys p')"
  by (induction xs arbitrary: p) (simp_all add: Let_def)

lemma binary_one:
  "binary_chunks sink tf tr dec [Some bytes] d pending p =
     (case bd_consume dec d (pending @ bytes) of (d', left, step) \<Rightarrow>
        (case bs_fatal step of
           Some message \<Rightarrow> (d', Some message, p)
         | None \<Rightarrow> (case to_client (tr_chunk tr) (bs_chunks step) (pu_state p) of
             (chunks, st) \<Rightarrow> (d', None, relay sink tf True chunks (p\<lparr>pu_state := st\<rparr>)))))"
  by (simp add: Let_def split: prod.splits option.splits)

lemma binary_two:
  assumes "ks_ok d" "\<not> pu_gone p"
  shows "same_run (binary_chunks sink tf tr (kiro_decoder parse rj) [Some a, Some b] d pending p)
     (binary_chunks sink tf tr (kiro_decoder parse rj) [Some (a @ b)] d pending p)"
proof -
  obtain d1 left st1 where c1: "kiro_consume parse rj d (pending @ a) = (d1, left, st1)" by (metis prod_cases3)
  obtain d2 left2 st2 where c2: "kiro_consume parse rj d1 (left @ b) = (d2, left2, st2)" by (metis prod_cases3)
  obtain out1 t1 where o1: "to_client (tr_chunk tr) (bs_chunks st1) (pu_state p) = (out1, t1)" by fastforce
  obtain out2 t2 where o2: "to_client (tr_chunk tr) (bs_chunks st2) t1 = (out2, t2)" by fastforce
  have honest: "step_honest d d1 st1" "step_honest d1 d2 st2"
    using consume_honest [OF c1 assms(1)] consume_honest [OF c2] by (auto simp: step_honest_def)
  have both: "kiro_consume parse rj d (pending @ a @ b) =
      (if bs_stop_after st1 then (d1, left @ b, st1) else (d2, left2, st2\<lparr>bs_chunks := bs_chunks st1 @ bs_chunks st2\<rparr>))"
    using consume_append [of parse rj d "pending @ a" b] by (simp add: c1 c2)
  show ?thesis
  proof (cases "bs_stop_after st1")
    case True
    then show ?thesis
      by (simp add: kiro_decoder_def c1 both split: option.splits prod.splits)
  next
    case False
    then have nf: "bs_fatal st1 = None" using honest by (auto simp: step_honest_def)
    define p1 where "p1 = relay sink tf True out1 (p\<lparr>pu_state := t1\<rparr>)"
    have joint: "to_client (tr_chunk tr) (bs_chunks st1 @ bs_chunks st2) (pu_state p) = (out1 @ out2, t2)"
      by (simp add: to_client_append o1 o2)
    have p2: "relay sink tf True (out1 @ out2) (p\<lparr>pu_state := t2\<rparr>) =
        (let q = relay sink tf True out1 (p\<lparr>pu_state := t2\<rparr>) in if pu_gone q then q else relay sink tf True out2 q)"
      using assms(2) by (intro relay_append) simp
    have q: "relay sink tf True out1 (p\<lparr>pu_state := t2\<rparr>) = p1\<lparr>pu_state := t2\<rparr>"
      by (simp add: p1_def relay_state)
    show ?thesis
    proof (cases "pu_gone p1")
      case True
      have "bs_chunks st1 \<noteq> []"
      proof
        assume "bs_chunks st1 = []"
        with o1 have "out1 = []" by simp
        with True assms(2) show False by (simp add: p1_def)
      qed
      then have "bs_fatal st2 = None" using honest by (auto simp: step_honest_def)
      with True False nf show ?thesis
        by (simp add: kiro_decoder_def c1 c2 both o1 joint p2 q same_run_def flip: p1_def)
    next
      case stays: False
      show ?thesis
      proof (cases "bs_fatal st2")
        case None
        with stays False nf show ?thesis
          by (simp add: kiro_decoder_def c1 c2 both o1 o2 joint same_run_def p1_def relay_state relay_append [OF assms(2)] Let_def)
      next
        case (Some e)
        then have "bs_chunks st1 = []" using honest by (auto simp: step_honest_def)
        with Some stays False nf o1 show ?thesis
          by (simp add: kiro_decoder_def c1 c2 both same_run_def p1_def)
      qed
    qed
  qed
qed

lemma binary_cuts:
  assumes "ks_ok d" "\<not> pu_gone p"
  shows "same_run (binary_chunks sink tf tr (kiro_decoder parse rj) (map Some (c # cs)) d pending p)
     (binary_chunks sink tf tr (kiro_decoder parse rj) [Some (concat (c # cs))] d pending p)"
  using assms
proof (induction cs arbitrary: c d pending p)
  case (Cons c' cs)
  let ?run = "binary_chunks sink tf tr (kiro_decoder parse rj)"
  obtain d1 left st1 where c1: "kiro_consume parse rj d (pending @ c) = (d1, left, st1)" by (metis prod_cases3)
  have ok: "ks_ok d1" using consume_honest [OF c1 Cons.prems(1)] by (simp add: step_honest_def)
  obtain out t where o: "to_client (tr_chunk tr) (bs_chunks st1) (pu_state p) = (out, t)" by fastforce
  define p1 where "p1 = relay sink tf True out (p\<lparr>pu_state := t\<rparr>)"
  have "same_run (?run (Some c # map Some (c' # cs)) d pending p) (?run (Some c # [Some (concat (c' # cs))]) d pending p)"
  proof (cases "bs_fatal st1 = None \<and> \<not> bs_stop_after st1 \<and> \<not> pu_gone p1")
    case True
    then have "?run (Some c # xs) d pending p = ?run xs d1 left p1" for xs
      by (simp add: kiro_decoder_def c1 o Let_def flip: p1_def)
    moreover have "same_run (?run (map Some (c' # cs)) d1 left p1) (?run [Some (concat (c' # cs))] d1 left p1)"
      using True ok by (intro Cons.IH) auto
    ultimately show ?thesis by simp
  next
    case False
    then have ends: "?run (Some c # xs) d pending p = ?run [Some c] d pending p" for xs
      by (cases "bs_fatal st1") (simp_all add: kiro_decoder_def c1 o Let_def flip: p1_def)
    from ends [of "map Some (c' # cs)"] ends [of "[Some (concat (c' # cs))]"] show ?thesis
      by (simp only: same_run_refl)
  qed
  moreover have "same_run (?run [Some c, Some (concat (c' # cs))] d pending p) (?run [Some (c @ concat (c' # cs))] d pending p)"
    using Cons.prems by (rule binary_two)
  ultimately show ?case by (auto intro: same_run_trans)
qed simp

lemma finish_same:
  assumes "same_run (d, e, p) (d', e', p')"
  shows "let close = (\<lambda>d p. let p1 = relay_finish sink tf True (to_client f (fst (fin d))) p;
                            p2 = relay_finish sink tf False g p1
                        in if pu_gone p2 then p2 else send_frame sink done_frame p2)
     in pu_sent (close d p) = pu_sent (close d' p') \<and> pu_gone (close d p) = pu_gone (close d' p')
        \<and> pu_summary (close d p) = pu_summary (close d' p')"
  using assms by (cases "pu_gone p") (auto simp: same_run_def relay_finish_def Let_def)

section \<open>The messages of a body\<close>

definition take_message :: "(bytes \<Rightarrow> string + json) \<Rightarrow> bytes \<Rightarrow> (event_message \<times> bytes) option" where
  "take_message parse b =
     (case read_message parse b of MessageRead m n \<Rightarrow> Some (m, drop n b) | _ \<Rightarrow> None)"

text \<open>Reference: all the messages that can be read off the front, and what is left.\<close>

function event_messages :: "(bytes \<Rightarrow> string + json) \<Rightarrow> bytes \<Rightarrow> event_message list \<times> bytes" where
  "event_messages parse b =
     (case take_message parse b of
        None \<Rightarrow> ([], b)
      | Some (m, rest) \<Rightarrow> (m # fst (event_messages parse rest), snd (event_messages parse rest)))"
  by pat_completeness auto

termination
  by (relation "measure (\<lambda>(_, b). length b)")
    (auto simp: take_message_def dest: message_consumes split: message_read.splits)

declare event_messages.simps [simp del]

interpretation events: item_stream "take_message parse" "event_messages parse" for parse
proof
  show "\<And>a x r. take_message parse a = Some (x, r) \<Longrightarrow> \<exists>p. a = p @ r \<and> p \<noteq> []"
  proof -
    fix a x r assume "take_message parse a = Some (x, r)"
    then obtain n where n: "read_message parse a = MessageRead x n" "r = drop n a"
      by (auto simp: take_message_def split: message_read.splits)
    then show "\<exists>p. a = p @ r \<and> p \<noteq> []"
      using read_message_bounds(5,7) [OF n(1)] by (intro exI [of _ "take n a"]) auto
  qed
  show "\<And>a x r b. take_message parse a = Some (x, r) \<Longrightarrow> take_message parse (a @ b) = Some (x, r @ b)"
    using message_more [of parse] by (auto simp: take_message_def split: message_read.splits)
  show "\<And>a. event_messages parse a = (case take_message parse a of None \<Rightarrow> ([], a)
      | Some (x, r) \<Rightarrow> (x # fst (event_messages parse r), snd (event_messages parse r)))"
    by (rule event_messages.simps)
qed

lemma event_messages_built:
  assumes "list_all header_ok hs" "distinct (map fst hs)" "length (concat (map put_header hs)) \<le> MAX_HEADERS"
    "16 + length (concat (map put_header hs)) + length body \<le> MAX_MESSAGE"
    and "list_all ascii_white body \<and> p = None \<or> \<not> list_all ascii_white body \<and> (\<exists>v. parse body = Inr v \<and> p = Some v)"
  shows "event_messages parse (build hs body @ rest) =
    (\<lparr>em_headers = hs, em_payload = p\<rparr> # fst (event_messages parse rest), snd (event_messages parse rest))"
  using read_built [OF assms(1-4), of parse rest] assms(5)
  by (subst event_messages.simps) (auto simp: take_message_def)

fun kiro_run :: "kiro_decoded list \<Rightarrow> kiro_stream \<Rightarrow> json list \<times> kiro_stream" where
  "kiro_run [] s = ([], s)"
| "kiro_run (d # ds) s =
     (let (chunks, s1) = kiro_push d s; (chunks', s2) = kiro_run ds s1 in (chunks @ chunks', s2))"

lemma push_nothing: "kiro_push nothing_decoded s = ([], s)"
  by (simp add: kiro_push_def push_parts nothing_decoded_def)

lemma consume_messages:
  assumes "event_messages parse b = (ms, left)" "\<forall>m \<in> set ms. kd_exception (decode_event rj m) = None"
    and "read_message parse left = Incomplete"
  shows "kiro_consume parse rj s b = (case kiro_run (map (decode_event rj) ms) s of
     (chunks, s') \<Rightarrow> (s', left, \<lparr>bs_chunks = chunks, bs_fatal = None, bs_stop_after = False\<rparr>))"
  using assms
proof (induction ms arbitrary: b s)
  case Nil
  then have "left = b"
    by (subst (asm) event_messages.simps) (auto split: option.splits)
  with Nil show ?case by (simp add: consume_incomplete)
next
  case (Cons m ms)
  from Cons.prems(1) obtain n where n: "read_message parse b = MessageRead m n"
    "event_messages parse (drop n b) = (ms, left)"
    by (subst (asm) event_messages.simps)
      (auto simp: take_message_def prod_eq_iff split: option.splits message_read.splits)
  have none: "kd_exception (decode_event rj m) = None" using Cons.prems(2) by simp
  note ih = Cons.IH [OF n(2) _ Cons.prems(3)]
  show ?case
  proof (cases "decode_event rj m = nothing_decoded")
    case True
    then show ?thesis using Cons.prems(2) by (simp add: consume_skip [OF n(1)] ih push_nothing)
  next
    case False
    obtain chunks s1 where push: "kiro_push (decode_event rj m) s = (chunks, s1)" by fastforce
    show ?thesis
      using Cons.prems(2) by (simp add: consume_push [OF n(1) none False push] ih push split: prod.splits)
  qed
qed

lemma collapse_cuts:
  "collapse_binary_body (kiro_decoder parse rj) (map Some (c # cs)) s pending =
     collapse_binary_body (kiro_decoder parse rj) [Some (concat (c # cs))] s pending"
proof (induction cs arbitrary: c s pending)
  case (Cons c' cs)
  obtain s1 left st where c1: "kiro_consume parse rj s (pending @ c) = (s1, left, st)" by (metis prod_cases3)
  obtain s2 left' st' where c2: "kiro_consume parse rj s1 (left @ concat (c' # cs)) = (s2, left', st')" by (metis prod_cases3)
  have whole: "kiro_consume parse rj s (pending @ concat (c # c' # cs)) =
      (if bs_stop_after st then (s1, left @ concat (c' # cs), st) else (s2, left', st'\<lparr>bs_chunks := bs_chunks st @ bs_chunks st'\<rparr>))"
    using consume_append [of parse rj s "pending @ c" "concat (c' # cs)"] c2 by (simp add: c1)
  show ?case
    using Cons.IH [of c' s1 left] c2 whole by (simp add: kiro_decoder_def c1)
qed simp

section \<open>A turn in one answer\<close>

text \<open>Reference: the calls of a turn are the ids in the order they were first seen, each with the first name
  given and all its input fragments.\<close>

definition first_seen :: "'a list \<Rightarrow> 'a list" where
  "first_seen xs = rev (remdups (rev xs))"

definition turn_name :: "string \<Rightarrow> tool_fragment list \<Rightarrow> string" where
  "turn_name i fs = opt_default [] (find (\<lambda>n. n \<noteq> []) (map tf_name (filter (\<lambda>f. tf_id f = i) fs)))"

definition turn_input :: "string \<Rightarrow> tool_fragment list \<Rightarrow> string" where
  "turn_input i fs = concat (map tf_input (filter (\<lambda>f. tf_id f = i) fs))"

definition turn_calls :: "tool_fragment list \<Rightarrow> (string \<times> string \<times> string) list" where
  "turn_calls fs = map (\<lambda>i. (i, turn_name i fs, turn_input i fs)) (first_seen (map tf_id fs))"

lemma first_seen_snoc: "first_seen (xs @ [x]) = (if x \<in> set xs then first_seen xs else first_seen xs @ [x])"
  by (simp add: first_seen_def)

lemma set_first_seen [simp]: "set (first_seen xs) = set xs"
  by (simp add: first_seen_def)

lemma distinct_first_seen [simp]: "distinct (first_seen xs)"
  by (simp add: first_seen_def)

lemma position_Some: "position x xs = Some j \<Longrightarrow> j < length xs \<and> xs ! j = x"
  by (induction xs arbitrary: j) (auto split: if_splits)

lemma position_None: "position x xs = None \<longleftrightarrow> x \<notin> set xs"
  by (induction xs) auto

lemma turn_name_snoc:
  "turn_name i (fs @ [f]) = (if tf_id f = i \<and> turn_name i fs = [] then tf_name f else turn_name i fs)"
proof -
  have *: "opt_default [] (find (\<lambda>n. n \<noteq> []) (xs @ [n])) =
      (if opt_default [] (find (\<lambda>n. n \<noteq> []) xs) = [] then n else opt_default [] (find (\<lambda>n. n \<noteq> []) xs))"
    for xs and n :: string
    by (induction xs) auto
  show ?thesis by (simp add: turn_name_def *)
qed

lemma turn_input_snoc: "turn_input i (fs @ [f]) = turn_input i fs @ (if tf_id f = i then tf_input f else [])"
  by (simp add: turn_input_def)

lemma turn_unseen: "i \<notin> tf_id ` set fs \<Longrightarrow> turn_name i fs = [] \<and> turn_input i fs = []"
proof -
  assume "i \<notin> tf_id ` set fs"
  then have "filter (\<lambda>f. tf_id f = i) fs = []" by (auto simp: filter_empty_conv)
  then show ?thesis by (simp add: turn_name_def turn_input_def)
qed

lemma merge_into_fragment:
  "merge_into (call_json k i n a) (call_json k i' name args) = call_json k i' (if name = [] then n else name) (args @ a)"
proof -
  have f: "pointer2 ''function'' ''arguments'' (call_json k i n a) = Some a" "pointer2 ''function'' ''name'' (call_json k i n a) = Some n"
    "pointer2 ''function'' ''arguments'' (call_json k i' name args) = Some args" for k i n a i' name args
    by (simp_all add: pointer2_def call_json_def jget_jobj get_str_def)
  have g: "update_function (bt_insert ''arguments'' (JStr x)) (call_json k i' name args) = call_json k i' name x" for x
    by (simp add: update_function_def call_json_def jobj_def)
  have h: "update_function (\<lambda>f. if opt_default [] (Option.bind (map_of f ''name'') as_str) = [] then bt_insert ''name'' (JStr n) f else f)
      (call_json k i' name x) = call_json k i' (if name = [] then n else name) x" for x
    by (simp add: update_function_def call_json_def jobj_def)
  show ?thesis by (cases "a = []") (simp_all only: merge_into_def f Let_def opt_default_simps g h option.case append_Nil2 if_True if_False simp_thms)
qed

lemma merge_fragment:
  "j < length cs \<Longrightarrow> cs ! j = (i, name, args) \<Longrightarrow>
     merge_at (k + j) (call_json (k + j) i n a) (calls_from k cs)
       = calls_from k (cs[j := (i, if name = [] then n else name, args @ a)])"
proof (induction k cs arbitrary: j rule: calls_from.induct)
  case (2 k i1 name1 args1 cs)
  then show ?case by (cases j) (auto simp: merge_into_fragment)
qed simp

lemma turn_calls_snoc:
  assumes "position (tf_id f) (first_seen (map tf_id fs)) = p"
  shows "merge_at (case p of Some j \<Rightarrow> j | None \<Rightarrow> length (first_seen (map tf_id fs)))
      (call_json (case p of Some j \<Rightarrow> j | None \<Rightarrow> length (first_seen (map tf_id fs))) (tf_id f) (tf_name f) (tf_input f))
      (calls_from 0 (turn_calls fs)) = calls_from 0 (turn_calls (fs @ [f]))"
proof (cases p)
  case None
  then have new: "tf_id f \<notin> tf_id ` set fs" using assms position_None [of "tf_id f"] by auto
  have "map (\<lambda>i. (i, turn_name i (fs @ [f]), turn_input i (fs @ [f]))) (first_seen (map tf_id fs)) = turn_calls fs"
    using new by (auto simp: turn_calls_def turn_name_snoc turn_input_snoc)
  with new turn_unseen [OF new] have "turn_calls (fs @ [f]) = turn_calls fs @ [(tf_id f, tf_name f, tf_input f)]"
    by (simp add: turn_calls_def first_seen_snoc turn_name_snoc turn_input_snoc)
  moreover have "length (first_seen (map tf_id fs)) = length (turn_calls fs)" by (simp add: turn_calls_def)
  ultimately show ?thesis using None merge_new [of 0 "turn_calls fs"] by (simp add: calls_from_snoc)
next
  case (Some j)
  then have j: "j < length (first_seen (map tf_id fs))" "first_seen (map tf_id fs) ! j = tf_id f"
    using position_Some [of "tf_id f" "first_seen (map tf_id fs)" j] assms by simp_all
  then have old: "tf_id f \<in> tf_id ` set fs" by (metis nth_mem set_first_seen set_map)
  have nth: "turn_calls fs ! j = (tf_id f, turn_name (tf_id f) fs, turn_input (tf_id f) fs)"
    using j by (simp add: turn_calls_def)
  have "turn_calls (fs @ [f]) = (turn_calls fs)[j := (tf_id f, if turn_name (tf_id f) fs = [] then tf_name f else turn_name (tf_id f) fs,
      turn_input (tf_id f) fs @ tf_input f)]"
  proof (rule nth_equalityI)
    fix i assume "i < length (turn_calls (fs @ [f]))"
    then have i: "i < length (first_seen (map tf_id fs))" using old by (simp add: turn_calls_def first_seen_snoc)
    define t where "t = first_seen (map tf_id fs) ! i"
    have same: "t = tf_id f \<longleftrightarrow> i = j"
      using nth_eq_iff_index_eq [OF distinct_first_seen i j(1)] by (simp only: j(2) t_def)
    have at_i: "turn_calls (fs @ [f]) ! i = (t, turn_name t (fs @ [f]), turn_input t (fs @ [f]))"
      "turn_calls fs ! i = (t, turn_name t fs, turn_input t fs)" "i < length (turn_calls fs)"
      using i old by (simp_all add: turn_calls_def first_seen_snoc t_def)
    show "turn_calls (fs @ [f]) ! i = (turn_calls fs)[j := (tf_id f, if turn_name (tf_id f) fs = [] then tf_name f
        else turn_name (tf_id f) fs, turn_input (tf_id f) fs @ tf_input f)] ! i"
      using same at_i by (cases "i = j") (simp_all add: turn_name_snoc turn_input_snoc)
  qed (use old in \<open>simp add: turn_calls_def first_seen_snoc\<close>)
  with merge_fragment [OF _ nth, of 0 "tf_name f" "tf_input f"] j Some show ?thesis by (simp add: turn_calls_def)
qed


section \<open>The collapsed turn\<close>

definition tools_of :: "kiro_decoded list \<Rightarrow> tool_fragment list" where
  "tools_of ds = List.map_filter kd_tool ds"

definition turn_reason :: "kiro_decoded list \<Rightarrow> string" where
  "turn_reason ds = (if tools_of ds = [] then ''stop'' else ''tool_calls'')"

lemma take_delta:
  "take_chunk (build_chunk m (jobj ms) f) c =
     c\<lparr>cl_text := cl_text c @ opt_default [] (Option.bind (map_of (rev ms) ''content'') as_str),
       cl_reasoning := cl_reasoning c @ opt_default [] (Option.bind (map_of (rev ms) ''reasoning_content'') as_str),
       cl_tool_calls := merge_tool_calls (cl_tool_calls c)
         (opt_default [] (Option.bind (map_of (rev ms) ''tool_calls'') as_array)),
       cl_finish_reason := opt_or f (cl_finish_reason c)\<rparr>"
proof -
  have "jget (build_chunk m (jobj ms) f) ''usage'' = None" by (simp add: build_chunk_def jget_jobj)
  then show ?thesis
    by (simp add: take_chunk_def chunk_text_def chunk_calls_def get_str_def jget_jobj)
qed

lemma merge_no_calls [simp]: "merge_tool_calls acc [] = acc"
  by (simp add: merge_tool_calls_def)

text \<open>The answer so far holds what the events so far brought.\<close>

definition brought :: "kiro_decoded list \<Rightarrow> kiro_stream \<Rightarrow> collapsed \<Rightarrow> bool" where
  "brought ds s c \<longleftrightarrow>
     cl_text c = concat (map (\<lambda>d. opt_default [] (kd_text d)) ds)
     \<and> cl_reasoning c = concat (map (\<lambda>d. opt_default [] (kd_reasoning d)) ds)
     \<and> cl_tool_calls c = calls_from 0 (turn_calls (tools_of ds))
     \<and> ks_tool_ids s = first_seen (map tf_id (tools_of ds)) \<and> (ks_used_tool s \<longleftrightarrow> tools_of ds \<noteq> [])
     \<and> cl_usage c = None"

lemma tools_snoc: "tools_of (ds @ [d]) = tools_of ds @ (case kd_tool d of None \<Rightarrow> [] | Some f \<Rightarrow> [f])"
  by (simp add: tools_of_def map_filter_def split: option.splits)

lemma call_json_num: "num (jobj [(''index'', jnat k), (''id'', JStr i), (''type'', JStr ''function''),
   (''function'', jobj [(''name'', JStr n), (''arguments'', JStr a)])]) ''index'' = k"
  using num_index(1) [of k i n a] by (simp add: call_json_def)

lemma text_brought:
  assumes "push_text d s = (cs, s')"
  shows "fold take_chunk cs c = c\<lparr>cl_text := cl_text c @ opt_default [] (kd_text d)\<rparr>
    \<and> ks_tool_ids s' = ks_tool_ids s \<and> ks_used_tool s' = ks_used_tool s \<and> ks_finished s' = ks_finished s"
  using assms by (auto simp: push_text_def kiro_delta_def take_delta split: option.splits)

lemma reasoning_brought:
  assumes "push_reasoning d s = (cs, s')"
  shows "fold take_chunk cs c = c\<lparr>cl_reasoning := cl_reasoning c @ opt_default [] (kd_reasoning d)\<rparr>
    \<and> ks_tool_ids s' = ks_tool_ids s \<and> ks_used_tool s' = ks_used_tool s \<and> ks_finished s' = ks_finished s"
  using assms by (auto simp: push_reasoning_def kiro_delta_def take_delta split: option.splits)

lemma tool_brought:
  assumes "push_tool d s = (cs, s')" "ks_tool_ids s = first_seen (map tf_id fs)" "ks_used_tool s \<longleftrightarrow> fs \<noteq> []"
    and "cl_tool_calls c = calls_from 0 (turn_calls fs)" "fs' = fs @ (case kd_tool d of None \<Rightarrow> [] | Some f \<Rightarrow> [f])"
  shows "fold take_chunk cs c = c\<lparr>cl_tool_calls := calls_from 0 (turn_calls fs')\<rparr>
    \<and> ks_tool_ids s' = first_seen (map tf_id fs') \<and> (ks_used_tool s' \<longleftrightarrow> fs' \<noteq> []) \<and> ks_finished s' = ks_finished s"
proof (cases "kd_tool d")
  case None
  with assms show ?thesis by (auto simp: push_tool_def)
next
  case (Some f)
  define p where "p = position (tf_id f) (first_seen (map tf_id fs))"
  define k where "k = (case p of Some j \<Rightarrow> j | None \<Rightarrow> length (first_seen (map tf_id fs)))"
  have merged: "merge_tool_calls (calls_from 0 (turn_calls fs)) [call_json k (tf_id f) (tf_name f) (tf_input f)]
      = calls_from 0 (turn_calls (fs @ [f]))"
    using turn_calls_snoc [OF p_def [symmetric]] by (simp add: merge_tool_calls_def merge_tool_call_def k_def)
  have "take_chunk (build_chunk m (jobj (tool_delta k f @ r)) None) c = c\<lparr>cl_tool_calls := calls_from 0 (turn_calls (fs @ [f]))\<rparr>"
    if "r = [] \<or> r = [(''role'', JStr ''assistant'')]" for m r
    using that merged assms(4) by (auto simp: take_delta tool_delta_def call_json_def)
  note step = this [of "[]"] this [of "[(''role'', JStr ''assistant'')]"]
  have fs': "fs' = fs @ [f]" using assms(5) Some by simp
  show ?thesis
  proof (cases p)
    case None
    then have "tf_id f \<notin> set (map tf_id fs)" using position_None [of "tf_id f" "first_seen (map tf_id fs)"] by (simp add: p_def)
    then show ?thesis
      using assms(1,2) None step fs'
      by (auto simp: push_tool_def Some kiro_delta_def Let_def k_def first_seen_snoc simp flip: p_def split: if_splits)
  next
    case j: (Some j)
    then have "tf_id f \<in> set (map tf_id fs)" using position_None [of "tf_id f" "first_seen (map tf_id fs)"] by (simp add: p_def)
    then show ?thesis
      using assms(1,2) j step fs'
      by (auto simp: push_tool_def Some kiro_delta_def Let_def k_def first_seen_snoc simp flip: p_def split: if_splits)
  qed
qed

lemma finish_brought:
  assumes "kiro_finish s = (cs, s')" "\<not> ks_finished s"
  shows "fold take_chunk cs c = c\<lparr>cl_finish_reason := Some (if ks_used_tool s then ''tool_calls'' else ''stop'')\<rparr>
    \<and> ks_finished s'"
  using assms by (auto simp: kiro_finish_def kiro_delta_def Let_def take_delta split: if_splits)

lemma run_brought:
  assumes "brought pre s c" "\<not> ks_finished s" "kiro_run ds s = (cs, s')" "\<forall>d \<in> set ds. \<not> kd_stopped d"
  shows "brought (pre @ ds) s' (fold take_chunk cs c) \<and> \<not> ks_finished s' \<and> cl_finish_reason (fold take_chunk cs c) = cl_finish_reason c"
  using assms
proof (induction ds arbitrary: pre s c cs)
  case (Cons d ds)
  obtain c1 s1 where p1: "push_text d s = (c1, s1)" by fastforce
  obtain c2 s2 where p2: "push_reasoning d s1 = (c2, s2)" by fastforce
  obtain c3 s3 where p3: "push_tool d s2 = (c3, s3)" by fastforce
  obtain cs4 s4 where run: "kiro_run ds s3 = (cs4, s4)" by fastforce
  have push: "kiro_push d s = (c1 @ c2 @ c3, s3)" using Cons.prems(4) by (simp add: kiro_push_def p1 p2 p3)
  with Cons.prems(3) run have eq: "cs = (c1 @ c2 @ c3) @ cs4" "s' = s4" by simp_all
  note b = Cons.prems(1)
  from text_brought [OF p1, of c] reasoning_brought [OF p2, of "fold take_chunk c1 c"]
  have "brought (pre @ [d]) s3 (fold take_chunk (c1 @ c2 @ c3) c) \<and> \<not> ks_finished s3
      \<and> cl_finish_reason (fold take_chunk (c1 @ c2 @ c3) c) = cl_finish_reason c"
    using tool_brought [OF p3, of "tools_of pre" "fold take_chunk c2 (fold take_chunk c1 c)" "tools_of (pre @ [d])"] b Cons.prems(2)
    by (simp add: brought_def tools_snoc)
  with Cons.IH [of "pre @ [d]" s3 "fold take_chunk (c1 @ c2 @ c3) c" cs4] run Cons.prems(4) eq show ?case by simp
qed simp


lemma collapse_whole:
  "collapse_binary_body (kiro_decoder parse rj) (map Some cs) s [] =
     collapse_binary_body (kiro_decoder parse rj) [Some (concat cs)] s []"
proof (cases cs)
  case Nil
  have "read_message parse [] = Incomplete" by (simp add: read_message_alt)
  then show ?thesis by (simp add: Nil kiro_decoder_def consume_incomplete)
next
  case (Cons c cs')
  then show ?thesis using collapse_cuts by blast
qed

lemma decode_stopped:
  "kd_stopped (decode_event rj m) \<Longrightarrow> decode_event rj m = nothing_decoded\<lparr>kd_stopped := True\<rparr>"
  by (auto simp: decode_event_def nothing_decoded_def Let_def split: if_splits option.splits)

lemma kiro_run_append:
  "kiro_run (ds @ ds') s = (case kiro_run ds s of (c1, s1) \<Rightarrow> case kiro_run ds' s1 of (c2, s2) \<Rightarrow> (c1 @ c2, s2))"
  by (induction ds arbitrary: s) (simp_all add: Let_def split: prod.splits)

lemma turn_ends:
  assumes "kiro_run ds (kiro_new meta) = (cs, s)" "ds = map (decode_event rj) ms" "\<forall>d \<in> set (butlast ds). \<not> kd_stopped d"
  shows "fold take_chunk (cs @ fst (kiro_finish s)) collapsed_new =
    \<lparr>cl_text = concat (map (\<lambda>d. opt_default [] (kd_text d)) ds),
     cl_reasoning = concat (map (\<lambda>d. opt_default [] (kd_reasoning d)) ds),
     cl_tool_calls = calls_from 0 (turn_calls (tools_of ds)),
     cl_finish_reason = Some (turn_reason ds), cl_usage = None\<rparr>"
proof -
  have start: "brought [] (kiro_new meta) collapsed_new" "\<not> ks_finished (kiro_new meta)"
    by (simp_all add: brought_def collapsed_new_def kiro_new_def tools_of_def turn_calls_def first_seen_def map_filter_def)
  have ended: "fold take_chunk (fst (kiro_finish s')) c =
      \<lparr>cl_text = concat (map (\<lambda>d. opt_default [] (kd_text d)) ds'),
       cl_reasoning = concat (map (\<lambda>d. opt_default [] (kd_reasoning d)) ds'),
       cl_tool_calls = calls_from 0 (turn_calls (tools_of ds')),
       cl_finish_reason = Some (turn_reason ds'), cl_usage = None\<rparr> \<and> ks_finished (snd (kiro_finish s'))"
    if "brought ds' s' c" "\<not> ks_finished s'" for ds' s' c
    using that finish_brought [of s' "fst (kiro_finish s')" "snd (kiro_finish s')" c]
    by (simp add: brought_def turn_reason_def)
  show ?thesis
  proof (cases "\<exists>d \<in> set ds. kd_stopped d")
    case False
    then show ?thesis using run_brought [OF start assms(1)] ended by auto
  next
    case True
    then obtain pre d where ds: "ds = pre @ [d]" by (cases ds rule: rev_cases) auto
    then have pre: "\<forall>d \<in> set pre. \<not> kd_stopped d" "kd_stopped d" using assms(3) True by auto
    obtain m where "d = decode_event rj m" using assms(2) ds by (cases ms rule: rev_cases) auto
    with pre(2) decode_stopped have d: "d = nothing_decoded\<lparr>kd_stopped := True\<rparr>" by blast
    obtain c1 s1 where run: "kiro_run pre (kiro_new meta) = (c1, s1)" by fastforce
    have push: "kiro_push d s1 = kiro_finish s1"
      by (simp add: kiro_push_def push_text_def push_reasoning_def push_tool_def d nothing_decoded_def)
    with run assms(1) have eq: "cs = c1 @ fst (kiro_finish s1)" "s = snd (kiro_finish s1)"
      by (simp_all add: ds kiro_run_append split: prod.splits)
    have same: "tools_of ds = tools_of pre" "map (\<lambda>d. opt_default [] (kd_text d)) ds = map (\<lambda>d. opt_default [] (kd_text d)) pre @ [[]]"
      "map (\<lambda>d. opt_default [] (kd_reasoning d)) ds = map (\<lambda>d. opt_default [] (kd_reasoning d)) pre @ [[]]"
      by (simp_all add: ds tools_snoc d nothing_decoded_def)
    from run_brought [OF start run pre(1)] have b: "brought pre s1 (fold take_chunk c1 collapsed_new)" "\<not> ks_finished s1" by simp_all
    from ended [OF this] have "ks_finished s" by (simp add: eq)
    then have "fst (kiro_finish s) = []" by (simp add: kiro_finish_def)
    with ended [OF b] show ?thesis by (simp add: eq same turn_reason_def)
  qed
qed

lemma bd_finish_kiro [simp]: "bd_finish (kiro_decoder parse rj) = kiro_finish"
  by (simp add: kiro_decoder_def)

section \<open>Properties\<close>

text \<open>C30: How the network cuts a Kiro answer does not matter: good, damaged or ending in an exception, in any
  client format, the frames a client is sent, the moment it is found gone and the error recorded are
  those of the body arriving in one piece.\<close>

theorem kiro_cuts_do_not_matter:
  "let cut = pipe_binary_stream sink render tr (kiro_decoder parse rj) source (map Some cs) (kiro_new meta) st;
       whole = pipe_binary_stream sink render tr (kiro_decoder parse rj) source [Some (concat cs)] (kiro_new meta) st
   in fst cut = fst whole \<and> pu_sent (snd cut) = pu_sent (snd whole) \<and> pu_gone (snd cut) = pu_gone (snd whole)
      \<and> pu_summary (snd cut) = pu_summary (snd whole)"
proof -
  define start where "start = \<lparr>pu_state = st, pu_sent = [], pu_summary = empty_summary, pu_gone = False\<rparr>"
  let ?tf = "\<lambda>c. frame_for render c (framing_for source) source"
  let ?run = "\<lambda>body. binary_chunks sink ?tf tr (kiro_decoder parse rj) body (kiro_new meta) [] start"
  have "same_run (?run (map Some cs)) (?run [Some (concat cs)])"
  proof (cases cs)
    case Nil
    have "read_message parse [] = Incomplete" by (simp add: read_message_alt)
    then show ?thesis by (simp add: Nil kiro_decoder_def consume_incomplete start_def)
  next
    case (Cons c cs')
    have "ks_ok (kiro_new meta)" "\<not> pu_gone start" by (simp_all add: ks_ok_def kiro_new_def start_def)
    then show ?thesis unfolding Cons by (rule binary_cuts)
  qed
  moreover obtain d e p where r: "?run (map Some cs) = (d, e, p)" by (metis prod_cases3)
  moreover obtain d' e' p' where r': "?run [Some (concat cs)] = (d', e', p')" by (metis prod_cases3)
  ultimately have s: "same_run (d, e, p) (d', e', p')" by (simp only:)
  then have "e = e'" by (simp add: same_run_def)
  show ?thesis
    using \<open>e = e'\<close> finish_same [OF s, of sink ?tf "tr_chunk tr" kiro_finish "tr_finish_client tr"]
    by (simp only: pipe_binary_stream_def Let_def start_def [symmetric] r r' prod.case bd_finish_kiro fst_conv snd_conv simp_thms)
qed

text \<open>A Kiro turn arrives whole in a collapsed answer: for a body of readable messages, cut anywhere and
  with an incomplete message at its end or not, the answer holds the texts and the reasoning of all
  events in order, one call per tool id in the order the ids appeared, each with its name and the
  concatenation of its input fragments however they interleave, and the finish reason that says
  whether a tool was used.\<close>

theorem kiro_turn_collapsed:
  assumes "event_messages parse (concat cs) = (ms, left)" "read_message parse left = Incomplete"
    and "ds = map (decode_event rj) ms" "\<forall>d \<in> set ds. kd_exception d = None" "\<forall>d \<in> set (butlast ds). \<not> kd_stopped d"
  shows "collapse_chunks (collapse_binary_body (kiro_decoder parse rj) (map Some cs) (kiro_new meta) []) =
    \<lparr>cl_text = concat (map (\<lambda>d. opt_default [] (kd_text d)) ds),
     cl_reasoning = concat (map (\<lambda>d. opt_default [] (kd_reasoning d)) ds),
     cl_tool_calls = calls_from 0 (turn_calls (tools_of ds)),
     cl_finish_reason = Some (turn_reason ds), cl_usage = None\<rparr>"
proof -
  obtain chunks s where run: "kiro_run ds (kiro_new meta) = (chunks, s)" by fastforce
  have "\<forall>m \<in> set ms. kd_exception (decode_event rj m) = None" using assms(3,4) by simp
  from consume_messages [OF assms(1) this assms(2)] run
  have "kiro_consume parse rj (kiro_new meta) (concat cs)
      = (s, left, \<lparr>bs_chunks = chunks, bs_fatal = None, bs_stop_after = False\<rparr>)" by (simp add: assms(3))
  then have "collapse_binary_body (kiro_decoder parse rj) (map Some cs) (kiro_new meta) [] = chunks @ fst (kiro_finish s)"
    unfolding collapse_whole by (simp add: kiro_decoder_def)
  with turn_ends [OF run assms(3,5)] show ?thesis by (simp add: collapse_chunks_def)
qed

text \<open>A rejection inside the stream is not told to the client. When Kiro's first message is an exception, the
  collapsed answer is the answer of an upstream that said nothing, an empty message that finished
  normally, and a streaming client is sent exactly the frames of an empty turn; the error goes to the
  summary only.\<close>

theorem kiro_rejection_hidden:
  assumes "read_message parse b = MessageRead m n" "kd_exception (decode_event rj m) = Some x"
  shows "collapse_binary_body (kiro_decoder parse rj) (Some b # others) (kiro_new meta) []
      = collapse_binary_body (kiro_decoder parse rj) [] (kiro_new meta) []
    \<and> cl_finish_reason (collapse_chunks (collapse_binary_body (kiro_decoder parse rj) (Some b # others) (kiro_new meta) [])) = Some ''stop''
    \<and> fst (pipe_binary_stream sink render tr (kiro_decoder parse rj) source (Some b # others) (kiro_new meta) st) = Some x
    \<and> snd (pipe_binary_stream sink render tr (kiro_decoder parse rj) source (Some b # others) (kiro_new meta) st)
      = snd (pipe_binary_stream sink render tr (kiro_decoder parse rj) source [] (kiro_new meta) st)"
proof -
  have c: "kiro_consume parse rj (kiro_new meta) b
      = (kiro_new meta, drop n b, \<lparr>bs_chunks = [], bs_fatal = Some x, bs_stop_after = True\<rparr>)"
    using consume_exception [OF assms] by (simp add: kiro_new_def)
  have "collapse_binary_body (kiro_decoder parse rj) (Some b # others) (kiro_new meta) [] = fst (kiro_finish (kiro_new meta))"
    by (simp add: kiro_decoder_def c)
  moreover have "cl_finish_reason (collapse_chunks (fst (kiro_finish (kiro_new meta)))) = Some ''stop''"
    using finish_brought [of "kiro_new meta" "fst (kiro_finish (kiro_new meta))" "snd (kiro_finish (kiro_new meta))" collapsed_new]
    by (simp add: collapse_chunks_def kiro_new_def)
  ultimately show ?thesis by (simp add: kiro_decoder_def c pipe_binary_stream_def Let_def)
qed

text \<open>A short turn in two pieces.\<close>

definition sample_headers :: "string \<Rightarrow> (string \<times> header_value) list" where
  "sample_headers name = [('':event-type'', HText name)]"

definition sample_parse :: "bytes \<Rightarrow> string + json" where
  "sample_parse bs = (if bs = bytes_of ''1'' then Inr (jobj [(''content'', JStr ''Hi'')])
     else if bs = bytes_of ''2'' then Inr (jobj [(''toolUseId'', JStr ''t''), (''name'', JStr ''Read''), (''input'', JStr ''{}'')])
     else Inl ''?'')"

definition sample_body :: bytes where
  "sample_body = build (sample_headers ''assistantResponseEvent'') (bytes_of ''1'')
     @ build (sample_headers ''toolUseEvent'') (bytes_of ''2'') @ build (sample_headers ''messageStopEvent'') []"

lemma sample_messages:
  "event_messages sample_parse sample_body =
     ([\<lparr>em_headers = sample_headers ''assistantResponseEvent'', em_payload = Some (jobj [(''content'', JStr ''Hi'')])\<rparr>,
       \<lparr>em_headers = sample_headers ''toolUseEvent'',
        em_payload = Some (jobj [(''toolUseId'', JStr ''t''), (''name'', JStr ''Read''), (''input'', JStr ''{}'')])\<rparr>,
       \<lparr>em_headers = sample_headers ''messageStopEvent'', em_payload = None\<rparr>], [])"
proof -
  have ok: "list_all header_ok (sample_headers name)" "distinct (map fst (sample_headers name))"
    "length (concat (map put_header (sample_headers name))) \<le> MAX_HEADERS"
    "16 + length (concat (map put_header (sample_headers name))) + length (bytes_of b) \<le> MAX_MESSAGE"
    if "\<forall>c \<in> set name. byte c < 128" "length name \<le> 100" "length b \<le> 1" for name b
    using that ascii_utf8 [of name] ascii_utf8 [of "'':event-type''"]
    by (simp_all add: sample_headers_def header_ok_def u16_max_def byte_def put_header_def MAX_HEADERS_def MAX_MESSAGE_def)
  have names: "\<forall>c \<in> set ''assistantResponseEvent''. byte c < 128" "\<forall>c \<in> set ''toolUseEvent''. byte c < 128"
    "\<forall>c \<in> set ''messageStopEvent''. byte c < 128" by (simp_all add: byte_def)
  have white: "\<not> list_all ascii_white (bytes_of ''1'')" "\<not> list_all ascii_white (bytes_of ''2'')" "bytes_of ''2'' \<noteq> bytes_of ''1''"
    by (simp_all add: bytes_of_def ascii_white_def)
  have one: "event_messages sample_parse (build (sample_headers name) (bytes_of b) @ rest)
      = (\<lparr>em_headers = sample_headers name, em_payload = p\<rparr> # fst (event_messages sample_parse rest), snd (event_messages sample_parse rest))"
    if "\<forall>c \<in> set name. byte c < 128" "length name \<le> 100" "length b \<le> 1"
      "list_all ascii_white (bytes_of b) \<and> p = None \<or> \<not> list_all ascii_white (bytes_of b) \<and> (\<exists>v. sample_parse (bytes_of b) = Inr v \<and> p = Some v)"
    for name b rest p
    by (rule event_messages_built) (rule ok [OF that(1-3)] that(4))+
  have empty: "bytes_of [] = []" by (simp add: bytes_of_def)
  show ?thesis
    unfolding sample_body_def
    using one [OF names(1), of "''1''"] one [OF names(2), of "''2''"] one [OF names(3), of "[]" None "[]"] white
    by (simp add: sample_parse_def empty)
qed

lemma sample_decoded:
  "map (decode_event rj) (fst (event_messages sample_parse sample_body)) =
     [nothing_decoded\<lparr>kd_text := Some ''Hi''\<rparr>,
      nothing_decoded\<lparr>kd_tool := Some \<lparr>tf_id = ''t'', tf_name = ''Read'', tf_input = ''{}'', tf_last = False\<rparr>\<rparr>,
      nothing_decoded\<lparr>kd_stopped := True\<rparr>]"
  unfolding sample_messages
  by (simp add: decode_event_def message_type_def event_type_def message_header_def sample_headers_def event_name_def
      Let_def jget_jobj full_string_def decode_tool_def get_str_def)

theorem kiro_turn_collapsed_witness:
  "let c = collapse_chunks (collapse_binary_body (kiro_decoder sample_parse (\<lambda>_. []))
             (map Some [take 40 sample_body, drop 40 sample_body]) (kiro_new \<lparr>cm_id = [], cm_created = 0, cm_model = []\<rparr>) [])
   in cl_text c = ''Hi'' \<and> cl_tool_calls c = [call_json 0 ''t'' ''Read'' ''{}''] \<and> cl_finish_reason c = Some ''tool_calls''"
proof -
  let ?ds = "map (decode_event (\<lambda>_. [])) (fst (event_messages sample_parse sample_body))"
  have m: "event_messages sample_parse (concat [take 40 sample_body, drop 40 sample_body])
      = (fst (event_messages sample_parse sample_body), [])" by (simp add: sample_messages)
  have l: "read_message sample_parse [] = Incomplete" by (simp add: read_message_alt)
  have ok: "\<forall>d \<in> set ?ds. kd_exception d = None" "\<forall>d \<in> set (butlast ?ds). \<not> kd_stopped d"
    unfolding sample_decoded by (simp_all add: nothing_decoded_def)
  have "turn_calls [\<lparr>tf_id = ''t'', tf_name = ''Read'', tf_input = ''{}'', tf_last = False\<rparr>] = [(''t'', ''Read'', ''{}'')]"
    by (simp add: turn_calls_def first_seen_def turn_name_def turn_input_def)
  then show ?thesis
    using kiro_turn_collapsed [OF m l refl ok] unfolding sample_decoded
    by (simp add: Let_def tools_of_def turn_reason_def nothing_decoded_def map_filter_def)
qed

theorem kiro_rejection_hidden_witness:
  "let b = build [('':message-type'', HText ''exception'')] []
   in collapse_binary_body (kiro_decoder (\<lambda>_. Inl []) (\<lambda>_. [])) [Some b] (kiro_new \<lparr>cm_id = [], cm_created = 0, cm_model = []\<rparr>) []
      = collapse_binary_body (kiro_decoder (\<lambda>_. Inl []) (\<lambda>_. [])) [] (kiro_new \<lparr>cm_id = [], cm_created = 0, cm_model = []\<rparr>) []"
proof -
  have ok: "list_all header_ok [('':message-type'', HText ''exception'')]"
    using ascii_utf8 [of "'':message-type''"] ascii_utf8 [of "''exception''"] by (simp add: header_ok_def byte_def u16_max_def)
  have m: "read_message (\<lambda>_. Inl []) (build [('':message-type'', HText ''exception'')] [])
      = MessageRead \<lparr>em_headers = [('':message-type'', HText ''exception'')], em_payload = None\<rparr>
          (length (build [('':message-type'', HText ''exception'')] []))"
    using read_built [OF ok, of "[]" "\<lambda>_. Inl []" "[]"] by (simp add: put_header_def MAX_HEADERS_def MAX_MESSAGE_def)
  have x: "kd_exception (decode_event (\<lambda>_. []) \<lparr>em_headers = [('':message-type'', HText ''exception'')], em_payload = None\<rparr>)
      = Some (''Exception'' @ '': '' @ ''upstream exception'')"
    by (simp add: decode_event_def message_type_def message_header_def exception_type_def nothing_decoded_def Let_def)
  show ?thesis unfolding Let_def by (rule conjunct1 [OF kiro_rejection_hidden [OF m x]])
qed

end
