(* ===== verification/Capabilities.thy ===== *)
theory Capabilities
  imports Model_Names Wire_Format
begin

text \<open>
  What a model can do (\<open>crates/providers/src/capabilities.rs\<close>) with the registry's models and the
  thinking suffix of a model id (\<open>registry.rs\<close>, \<open>model.rs\<close>). The capability table and the provider
  registry are data files: they are parameters (\<open>capability_table\<close>, \<open>model_registry\<close>), and the
  lookups over them are the code's.
\<close>

section \<open>Capabilities\<close>

datatype thinking_format =
    TfOpenAi | TfClaudeAdaptive | TfClaudeBudget | TfGeminiLevel | TfGeminiBudget | TfZai | TfQwen | TfKimi
  | TfDeepSeek | TfMiniMax | TfHunyuan | TfStep | TfTokenRouter | TfKiro | TfUnrecognized

definition thinking_format_names :: "(string \<times> thinking_format) list" where
  "thinking_format_names =
     [(''openai'', TfOpenAi), (''claude-adaptive'', TfClaudeAdaptive), (''claude-budget'', TfClaudeBudget),
      (''gemini-level'', TfGeminiLevel), (''gemini-budget'', TfGeminiBudget), (''zai'', TfZai), (''qwen'', TfQwen),
      (''kimi'', TfKimi), (''deepseek'', TfDeepSeek), (''minimax'', TfMiniMax), (''hunyuan'', TfHunyuan),
      (''step'', TfStep), (''tokenrouter'', TfTokenRouter), (''kiro'', TfKiro)]"

definition thinking_format_from_wire :: "string \<Rightarrow> thinking_format" where
  "thinking_format_from_wire raw = opt_default TfUnrecognized (map_of thinking_format_names raw)"

record thinking_range =
  tg_min :: "nat option"
  tg_max :: "nat option"

record capabilities =
  cp_vision :: bool
  cp_pdf :: bool
  cp_audio_input :: bool
  cp_video_input :: bool
  cp_image_output :: bool
  cp_audio_output :: bool
  cp_search :: bool
  cp_tools :: bool
  cp_reasoning :: bool
  cp_thinking_can_disable :: bool
  cp_thinking_format :: "thinking_format option"
  cp_thinking_range :: "thinking_range option"
  cp_context_window :: nat
  cp_max_output :: nat

definition DEFAULT_CAPABILITIES :: capabilities where
  "DEFAULT_CAPABILITIES = \<lparr>cp_vision = False, cp_pdf = False, cp_audio_input = False, cp_video_input = False,
     cp_image_output = False, cp_audio_output = False, cp_search = False, cp_tools = True, cp_reasoning = False,
     cp_thinking_can_disable = True, cp_thinking_format = None, cp_thinking_range = None,
     cp_context_window = 200000, cp_max_output = 64000\<rparr>"

record capabilities_delta =
  dl_vision :: "bool option"
  dl_pdf :: "bool option"
  dl_audio_input :: "bool option"
  dl_video_input :: "bool option"
  dl_image_output :: "bool option"
  dl_audio_output :: "bool option"
  dl_search :: "bool option"
  dl_tools :: "bool option"
  dl_reasoning :: "bool option"
  dl_thinking_can_disable :: "bool option"
  dl_context_window :: "nat option"
  dl_max_output :: "nat option"
  dl_thinking_format :: "thinking_format option"
  dl_thinking_range :: "thinking_range option"

definition apply_delta :: "capabilities_delta \<Rightarrow> capabilities \<Rightarrow> capabilities" where
  "apply_delta d base = \<lparr>
     cp_vision = opt_default (cp_vision base) (dl_vision d),
     cp_pdf = opt_default (cp_pdf base) (dl_pdf d),
     cp_audio_input = opt_default (cp_audio_input base) (dl_audio_input d),
     cp_video_input = opt_default (cp_video_input base) (dl_video_input d),
     cp_image_output = opt_default (cp_image_output base) (dl_image_output d),
     cp_audio_output = opt_default (cp_audio_output base) (dl_audio_output d),
     cp_search = opt_default (cp_search base) (dl_search d),
     cp_tools = opt_default (cp_tools base) (dl_tools d),
     cp_reasoning = opt_default (cp_reasoning base) (dl_reasoning d),
     cp_thinking_can_disable = opt_default (cp_thinking_can_disable base) (dl_thinking_can_disable d),
     cp_thinking_format = opt_or (dl_thinking_format d) (cp_thinking_format base),
     cp_thinking_range = opt_or (dl_thinking_range d) (cp_thinking_range base),
     cp_context_window = opt_default (cp_context_window base) (dl_context_window d),
     cp_max_output = opt_default (cp_max_output base) (dl_max_output d)\<rparr>"

text \<open>The rows are a \<open>BTreeMap\<close> from \<open>provider/model\<close>.\<close>

record capability_table =
  ct_default :: capabilities
  ct_rows :: "(string \<times> capabilities_delta) list"

definition OVERRIDE_PROVIDERS :: "string list" where
  "OVERRIDE_PROVIDERS = [''nvidia'', ''codex'', ''kiro'', ''codebuddy-cn'', ''poolside'']"

definition canonical_step ::
    "capability_table \<Rightarrow> string \<times> capabilities_delta \<Rightarrow> (string \<times> capabilities option) list
     \<Rightarrow> (string \<times> capabilities option) list" where
  "canonical_step t row candidates =
     (case split_once CHR ''/'' (fst row) of
        None \<Rightarrow> candidates
      | Some (provider, model) \<Rightarrow>
          if provider \<in> set OVERRIDE_PROVIDERS then candidates
          else
            (let resolved = apply_delta (snd row) (ct_default t)
             in case map_of candidates model of
                  None \<Rightarrow> bt_insert model (Some resolved) candidates
                | Some seen \<Rightarrow>
                    if seen \<noteq> None \<and> seen \<noteq> Some resolved then bt_insert model None candidates else candidates))"

definition canonical_by_model :: "capability_table \<Rightarrow> string \<Rightarrow> capabilities option" where
  "canonical_by_model t model = Option.bind (map_of (fold (canonical_step t) (ct_rows t) []) model) (\<lambda>c. c)"

section \<open>The registry's models\<close>

record reg_model =
  rm_id :: string
  rm_upstream_model_id :: "string option"
  rm_context_length :: "nat option"
  rm_max_output_tokens :: "nat option"

record model_registry =
  rg_models_key :: "string \<Rightarrow> string option"     \<comment> \<open>of a known provider\<close>
  rg_models :: "string \<Rightarrow> reg_model list"         \<comment> \<open>under a models key\<close>

definition DOT_VERSION_PROVIDERS :: "string list" where "DOT_VERSION_PROVIDERS = [''kr'', ''kiro'']"

text \<open>A dash between two digits becomes a dot; the first argument is the byte before.\<close>

fun dot_versions :: "char option \<Rightarrow> string \<Rightarrow> string" where
  "dot_versions before [] = []"
| "dot_versions before (c # cs) =
     (if c = CHR ''-'' \<and> (case before of Some b \<Rightarrow> is_digit b | None \<Rightarrow> False)
         \<and> (case cs of d # _ \<Rightarrow> is_digit d | [] \<Rightarrow> False)
      then CHR ''.'' else c) # dot_versions (Some c) cs"

definition normalize_model_id :: "string \<Rightarrow> string" where
  "normalize_model_id model_id = dot_versions None model_id"

definition find_model :: "model_registry \<Rightarrow> string \<Rightarrow> string \<Rightarrow> reg_model option" where
  "find_model rg alias_or_id model_id =
     (case find (\<lambda>m. rm_id m = model_id) (rg_models rg alias_or_id) of
        Some m \<Rightarrow> Some m
      | None \<Rightarrow>
          if alias_or_id \<notin> set DOT_VERSION_PROVIDERS \<or> normalize_model_id model_id = model_id then None
          else find (\<lambda>m. rm_id m = normalize_model_id model_id) (rg_models rg alias_or_id))"

definition models_key :: "model_registry \<Rightarrow> string \<Rightarrow> string" where
  "models_key rg provider = opt_default provider (rg_models_key rg provider)"

section \<open>The thinking suffix\<close>

text \<open>Base and suffix of \<open>model(level)\<close>: the last group in parentheses, not empty and not nested, with white space
  after it.\<close>

definition split_thinking_suffix :: "string \<Rightarrow> string \<times> string" where
  "split_thinking_suffix model_id =
     (let trimmed = trim_end model_id
      in case rev trimmed of
           c # back \<Rightarrow>
             if c \<noteq> CHR '')'' then (model_id, [])
             else (case split_once CHR ''('' back of
               None \<Rightarrow> (model_id, [])
             | Some (renni, rest) \<Rightarrow>
                 if renni = [] \<or> CHR '')'' \<in> set renni then (model_id, [])
                 else (trim_end (rev rest), CHR ''('' # rev renni @ [CHR '')'']))
         | [] \<Rightarrow> (model_id, []))"

definition upstream_model_id :: "model_registry \<Rightarrow> string \<Rightarrow> string \<Rightarrow> string" where
  "upstream_model_id rg provider_id model_id =
     (case split_thinking_suffix model_id of
        (base, suffix) \<Rightarrow>
          (case find_model rg (models_key rg provider_id) base of
             Some m \<Rightarrow> opt_default (rm_id m) (rm_upstream_model_id m) | None \<Rightarrow> base) @ suffix)"

section \<open>Lookups\<close>

definition last_segment :: "string \<Rightarrow> string" where
  "last_segment model = last (split_char CHR ''/'' model)"

definition has_any :: "string \<Rightarrow> string list \<Rightarrow> bool" where
  "has_any s needles \<longleftrightarrow> list_ex (str_contains s) needles"

definition table_capabilities :: "capability_table \<Rightarrow> string \<Rightarrow> string \<Rightarrow> string \<Rightarrow> capabilities" where
  "table_capabilities t provider model base_model =
     (case opt_or (map_of (ct_rows t) (provider @ ''/'' @ base_model)) (map_of (ct_rows t) (provider @ ''/'' @ model)) of
        Some delta \<Rightarrow> apply_delta delta (ct_default t)
      | None \<Rightarrow> opt_default (ct_default t) (opt_or (canonical_by_model t base_model) (canonical_by_model t model)))"

definition reasons_as :: "thinking_format \<Rightarrow> bool \<Rightarrow> nat \<Rightarrow> capabilities \<Rightarrow> capabilities" where
  "reasons_as f can_disable least c =
     c\<lparr>cp_reasoning := True, cp_thinking_format := Some f, cp_thinking_can_disable := can_disable,
       cp_max_output := max (cp_max_output c) least\<rparr>"

definition infer_reasoning :: "string \<Rightarrow> capabilities \<Rightarrow> capabilities" where
  "infer_reasoning lowered c =
     (if cp_reasoning c then c
      else if has_any lowered [''claude-5'', ''claude-4'', ''claude-fable'', ''claude-3-7'', ''claude-3.7'']
      then reasons_as TfClaudeBudget True 64000 c
      else if has_any lowered [''deepseek-r1'', ''deepseek-v4''] \<or> lowered = ''deepseek-reasoner''
      then reasons_as TfDeepSeek True 64000 c
      else if has_any lowered [''flash-thinking'']
        \<or> (has_any lowered [''gemini-2.0'', ''gemini-2.5'', ''gemini-3.''] \<and> has_any lowered [''thinking''])
        \<or> has_any lowered [''gemini-3.8-flash'', ''gemini-3.7-flash'']
      then reasons_as TfGeminiBudget False 65536 c
      else if has_any lowered [''glm-5'', ''glm-4.7''] then reasons_as TfOpenAi True 64000 c
      else if list_ex (starts_with lowered) [''o1'', ''o3'', ''o4'', ''gpt-5'', ''gpt-6'']
      then reasons_as TfOpenAi True 64000 c
      else c)"

definition infer_vision :: "string \<Rightarrow> capabilities \<Rightarrow> capabilities" where
  "infer_vision lowered c =
     (let not_vision = has_any lowered [''image'', ''img-'', ''stable-image'', ''dall'', ''sdxl'', ''diffusion'', ''flux'',
            ''t2v'', ''i2v'', ''embed'', ''rerank'', ''tts'', ''stt'', ''whisper'', ''voice'', ''speech'', ''audio''];
          is_vision = has_any lowered [''vision'', ''vl'', ''vlm'', ''multimodal'', ''omni'', ''visual'']
            \<or> ends_with lowered ''v'' \<or> (has_any lowered [''glm-''] \<and> has_any lowered [''v''])
      in if \<not> cp_vision c \<and> is_vision \<and> \<not> not_vision then c\<lparr>cp_vision := True\<rparr> else c)"

definition registry_limits :: "reg_model option \<Rightarrow> capabilities \<Rightarrow> capabilities" where
  "registry_limits m c =
     (case m of
        None \<Rightarrow> c
      | Some e \<Rightarrow> c\<lparr>cp_max_output := opt_default (cp_max_output c) (rm_max_output_tokens e),
                    cp_context_window := opt_default (cp_context_window c) (rm_context_length e)\<rparr>)"

definition for_model :: "capability_table \<Rightarrow> model_registry \<Rightarrow> string \<Rightarrow> string \<Rightarrow> capabilities" where
  "for_model t rg provider model =
     (if model = [] then ct_default t
      else
        (let base_model = last_segment model; lowered = ascii_lower base_model
         in registry_limits (find_model rg (models_key rg provider) base_model)
              (infer_vision lowered (infer_reasoning lowered (table_capabilities t provider model base_model)))))"

definition model_max_output :: "capability_table \<Rightarrow> model_registry \<Rightarrow> string \<Rightarrow> string \<Rightarrow> nat" where
  "model_max_output t rg provider model = cp_max_output (for_model t rg provider model)"

section \<open>Thinking levels\<close>

definition LEVELS_BASE :: "string list" where "LEVELS_BASE = [''none'', ''low'', ''medium'', ''high'']"

definition CODEX_GPT_5_6 :: "string list" where
  "CODEX_GPT_5_6 = [''none'', ''minimal'', ''low'', ''medium'', ''high'', ''xhigh'', ''max'']"

definition PATTERN_THINKING :: "(string option \<times> string \<times> string list) list" where
  "PATTERN_THINKING =
     [(Some ''codex'', ''*gpt-5.6-sol*'', CODEX_GPT_5_6 @ [''ultra'']),
      (Some ''codex'', ''*gpt-5.6-terra*'', CODEX_GPT_5_6 @ [''ultra'']),
      (Some ''codex'', ''*gpt-5.6-luna*'', CODEX_GPT_5_6),
      (None, ''*codex*'', [''low'', ''medium'', ''high'', ''xhigh''])]"

fun format_levels :: "thinking_format \<Rightarrow> string list" where
  "format_levels TfOpenAi = [''none'', ''minimal'', ''low'', ''medium'', ''high'', ''xhigh'']"
| "format_levels TfClaudeAdaptive = [''none'', ''low'', ''medium'', ''high'', ''max'']"
| "format_levels TfKimi = [''none'', ''low'', ''medium'', ''high'', ''max'']"
| "format_levels TfClaudeBudget = [''none'', ''low'', ''medium'', ''high'', ''xhigh'', ''max'']"
| "format_levels TfGeminiLevel = [''minimal'', ''low'', ''medium'', ''high'']"
| "format_levels TfZai = [''none'', ''thinking'']"
| "format_levels TfMiniMax = [''none'', ''thinking'']"
| "format_levels TfDeepSeek = [''none'', ''high'', ''max'']"
| "format_levels _ = LEVELS_BASE"

text \<open>The walk over the pieces between the wildcards: the inner pieces leftmost, the last one at the end.\<close>

fun match_pieces :: "string list \<Rightarrow> string \<Rightarrow> bool" where
  "match_pieces [] cursor \<longleftrightarrow> False"
| "match_pieces [final] cursor \<longleftrightarrow> ends_with cursor final"
| "match_pieces (piece # p # ps) cursor \<longleftrightarrow>
     (case after_first piece cursor of None \<Rightarrow> False | Some rest \<Rightarrow> match_pieces (p # ps) rest)"

definition glob_matches :: "string \<Rightarrow> string \<Rightarrow> bool" where
  "glob_matches pattern value \<longleftrightarrow>
     (case split_char CHR ''*'' (ascii_lower pattern) of
        [] \<Rightarrow> False
      | [only] \<Rightarrow> ascii_lower value = only
      | first # pieces \<Rightarrow>
          (case strip_prefix (ascii_lower value) first of None \<Rightarrow> False | Some cursor \<Rightarrow> match_pieces pieces cursor))"

definition thinking_levels :: "capability_table \<Rightarrow> model_registry \<Rightarrow> string \<Rightarrow> string \<Rightarrow> string list option" where
  "thinking_levels t rg provider model =
     (let caps = for_model t rg provider model
      in if \<not> cp_reasoning caps then None
         else
           (let matched = find (\<lambda>(owner, pattern, _). (owner = None \<or> owner = Some provider)
                                  \<and> glob_matches pattern (last_segment model)) PATTERN_THINKING;
                levels = (case matched of
                    Some (_, _, ls) \<Rightarrow> ls
                  | None \<Rightarrow> (case cp_thinking_format caps of Some f \<Rightarrow> format_levels f | None \<Rightarrow> LEVELS_BASE))
            in Some (if cp_thinking_can_disable caps then levels else filter (\<lambda>l. l \<noteq> ''none'') levels)))"

text \<open>The inference does not know the current names, which have the family between vendor and version.\<close>

lemma current_names_unknown:
  "\<not> has_any ''claude-opus-5'' [''claude-5'', ''claude-4'', ''claude-fable'', ''claude-3-7'', ''claude-3.7'']"
  "\<not> has_any ''claude-sonnet-4-6'' [''claude-5'', ''claude-4'', ''claude-fable'', ''claude-3-7'', ''claude-3.7'']"
  by (simp_all add: has_any_def starts_with_def)

section \<open>What a pattern means\<close>

text \<open>Reference: a star stands for any text, every other character for itself.\<close>

fun wildcard :: "string \<Rightarrow> string \<Rightarrow> bool" where
  "wildcard [] v \<longleftrightarrow> v = []"
| "wildcard (p # ps) [] \<longleftrightarrow> p = CHR ''*'' \<and> wildcard ps []"
| "wildcard (p # ps) (c # cs) \<longleftrightarrow>
     (if p = CHR ''*'' then wildcard ps (c # cs) \<or> wildcard (p # ps) cs else p = c \<and> wildcard ps cs)"

lemma wildcard_star: "wildcard (CHR ''*'' # ps) v \<longleftrightarrow> (\<exists>a b. v = a @ b \<and> wildcard ps b)"
proof (induction v)
  case (Cons c cs)
  show ?case
  proof
    assume "wildcard (CHR ''*'' # ps) (c # cs)"
    then consider "wildcard ps (c # cs)" | "wildcard (CHR ''*'' # ps) cs" by auto
    then show "\<exists>a b. c # cs = a @ b \<and> wildcard ps b"
    proof cases
      case 1
      then have "c # cs = [] @ c # cs \<and> wildcard ps (c # cs)" by simp
      then show ?thesis by blast
    next
      case 2
      with Cons.IH obtain a b where "cs = a @ b" "wildcard ps b" by blast
      then have "c # cs = (c # a) @ b \<and> wildcard ps b" by simp
      then show ?thesis by blast
    qed
  next
    assume "\<exists>a b. c # cs = a @ b \<and> wildcard ps b"
    then obtain a b where "c # cs = a @ b" "wildcard ps b" by blast
    with Cons.IH show "wildcard (CHR ''*'' # ps) (c # cs)" by (cases a) auto
  qed
qed simp

lemma wildcard_piece: "CHR ''*'' \<notin> set s \<Longrightarrow> wildcard (s @ ps) v \<longleftrightarrow> (\<exists>b. v = s @ b \<and> wildcard ps b)"
  by (induction s arbitrary: v) (auto simp: neq_Nil_conv elim: wildcard.elims)

lemma after_first_Some: "after_first n v = Some r \<Longrightarrow> \<exists>a. v = a @ n @ r"
proof (induction v)
  case (Cons c cs)
  then show ?case
  proof (cases "strip_prefix (c # cs) n")
    case None
    with Cons obtain a where "cs = a @ n @ r" by auto
    then have "c # cs = (c # a) @ n @ r" by simp
    then show ?thesis by blast
  qed (auto simp: strip_prefix_Some)
qed (auto split: if_splits)

text \<open>The first match leaves the longest rest: every other match leaves an end of it.\<close>

lemma after_first_longest: "v = a @ n @ b \<Longrightarrow> \<exists>r d. after_first n v = Some r \<and> r = d @ b"
proof (induction v arbitrary: a)
  case Nil
  then show ?case by auto
next
  case (Cons c cs)
  show ?case
  proof (cases "strip_prefix (c # cs) n")
    case None
    then have "a \<noteq> []" using Cons.prems by (auto simp: strip_prefix_None)
    then obtain a' where "a = c # a'" "cs = a' @ n @ b" using Cons.prems by (cases a) auto
    with Cons.IH [of a'] None show ?thesis by auto
  next
    case (Some r)
    then have "c # cs = n @ r" by (simp add: strip_prefix_Some)
    with Cons.prems have "n @ r = a @ n @ b" by simp
    then have "length r = length a + length b" by (metis add.left_commute add_left_cancel length_append)
    have "\<exists>d. r = d @ b"
    proof -
      have "drop (length (n @ r) - length b) (n @ r) = b" using \<open>n @ r = a @ n @ b\<close> by simp
      then have "drop (length r - length b) r = b" using \<open>length r = length a + length b\<close> by simp
      then show ?thesis by (metis append_take_drop_id)
    qed
    with Some show ?thesis by simp
  qed
qed

lemma wildcard_star_end: "wildcard (CHR ''*'' # ps) b \<Longrightarrow> wildcard (CHR ''*'' # ps) (a @ b)"
  unfolding wildcard_star by (metis append.assoc)

lemma match_pieces_wildcard:
  "pieces \<noteq> [] \<Longrightarrow> (\<And>p. p \<in> set pieces \<Longrightarrow> CHR ''*'' \<notin> set p) \<Longrightarrow>
   match_pieces pieces v \<longleftrightarrow> wildcard (CHR ''*'' # join_with [CHR ''*''] pieces) v"
proof (induction pieces v rule: match_pieces.induct)
  case (2 final cursor)
  have "wildcard final b \<longleftrightarrow> b = final" for b using wildcard_piece [of final "[]" b] 2 by simp
  then show ?case by (auto simp: wildcard_star ends_with_def starts_with_iff) (metis rev_append rev_rev_ident)+
next
  case (3 piece p ps cursor)
  let ?rest = "CHR ''*'' # join_with [CHR ''*''] (p # ps)"
  have piece: "wildcard (piece @ ?rest) b \<longleftrightarrow> (\<exists>r. b = piece @ r \<and> wildcard ?rest r)" for b
    using 3(3) [of piece] by (intro wildcard_piece) simp
  have meant: "wildcard (CHR ''*'' # join_with [CHR ''*''] (piece # p # ps)) cursor
      \<longleftrightarrow> (\<exists>a b. cursor = a @ piece @ b \<and> wildcard ?rest b)"
    unfolding wildcard_star [of "join_with [CHR ''*''] (piece # p # ps)"] using piece by auto
  show ?case
  proof (cases "after_first piece cursor")
    case None
    with meant after_first_longest show ?thesis by fastforce
  next
    case (Some rest)
    with 3(1) [OF Some] 3(3) have ih: "match_pieces (p # ps) rest = wildcard ?rest rest" by simp
    obtain a where a: "cursor = a @ piece @ rest" using after_first_Some [OF Some] by blast
    show ?thesis
    proof
      assume "match_pieces (piece # p # ps) cursor"
      with Some ih have "wildcard ?rest rest" by simp
      with a meant show "wildcard (CHR ''*'' # join_with [CHR ''*''] (piece # p # ps)) cursor" by blast
    next
      assume "wildcard (CHR ''*'' # join_with [CHR ''*''] (piece # p # ps)) cursor"
      then obtain a' b where "cursor = a' @ piece @ b" "wildcard ?rest b" using meant by blast
      with after_first_longest [of cursor a' piece b] Some have "wildcard ?rest rest"
        using wildcard_star_end by auto
      with Some ih show "match_pieces (piece # p # ps) cursor" by simp
    qed
  qed
qed simp

text \<open>The walk over the pieces decides what the pattern means: choosing the leftmost match for every inner piece
  never misses one.\<close>

theorem glob_is_wildcard: "glob_matches pattern value = wildcard (ascii_lower pattern) (ascii_lower value)"
proof -
  let ?v = "ascii_lower value" and ?pieces = "split_char CHR ''*'' (ascii_lower pattern)"
  have joined: "join_with [CHR ''*''] ?pieces = ascii_lower pattern" by (rule join_split_char)
  have plain: "p \<in> set ?pieces \<Longrightarrow> CHR ''*'' \<notin> set p" for p by (rule split_char_pieces)
  show ?thesis
  proof (cases ?pieces)
    case (Cons first rest)
    have first: "CHR ''*'' \<notin> set first" using plain Cons by simp
    show ?thesis
    proof (cases rest)
      case Nil
      with Cons joined wildcard_piece [OF first, of "[]" ?v] show ?thesis by (auto simp: glob_matches_def)
    next
      case (Cons q qs)
      have "match_pieces (q # qs) r = wildcard (CHR ''*'' # join_with [CHR ''*''] (q # qs)) r" for r
        using plain \<open>?pieces = first # rest\<close> Cons by (intro match_pieces_wildcard) auto
      moreover have "ascii_lower pattern = first @ CHR ''*'' # join_with [CHR ''*''] (q # qs)"
        using joined \<open>?pieces = first # rest\<close> Cons by simp
      ultimately show ?thesis
        using \<open>?pieces = first # rest\<close> Cons wildcard_piece [OF first, of "CHR ''*'' # join_with [CHR ''*''] (q # qs)" ?v]
        by (auto simp: glob_matches_def strip_prefix_Some split: option.split)
    qed
  qed (simp add: split_char_not_Nil)
qed

end
