(* ===== verification/Claude_Request.thy ===== *)
theory Claude_Request
  imports Stream_Concerns
begin

text \<open>
  Requests from the OpenAI to the Claude dialect
  (\<open>crates/translate/src/request/openai_to_claude.rs\<close>) with the shared arithmetic and readers of
  \<open>crates/translate/src/schema.rs\<close>. Reading and printing JSON text are serde_json's: the parameters
  \<open>parse_json\<close> and \<open>render_pretty\<close>.
\<close>

section \<open>Shared readers\<close>

definition DEFAULT_MAX_TOKENS :: nat where "DEFAULT_MAX_TOKENS = 64000"
definition DEFAULT_MIN_TOKENS :: nat where "DEFAULT_MIN_TOKENS = 32000"

definition CLAUDE_SYSTEM_PROMPT :: string where
  "CLAUDE_SYSTEM_PROMPT = ''You are Claude Code, Anthropic'' @ [CHR 0x27] @ ''s official CLI for Claude.''"

definition nonzero :: "nat option \<Rightarrow> nat option" where
  "nonzero v = (case v of Some n \<Rightarrow> if n \<noteq> 0 then Some n else None | None \<Rightarrow> None)"

definition thinking_budget :: "json \<Rightarrow> nat option" where
  "thinking_budget body =
     nonzero (Option.bind (Option.bind (jget body ''thinking'') (\<lambda>t. jget t ''budget_tokens'')) as_u64)"

definition adjust_max_tokens :: "json \<Rightarrow> nat \<Rightarrow> nat" where
  "adjust_max_tokens body ceiling =
     (let asked = opt_default DEFAULT_MAX_TOKENS (nonzero (Option.bind (jget body ''max_tokens'') as_u64));
          has_tools = (case Option.bind (jget body ''tools'') as_array of Some (t # ts) \<Rightarrow> True | _ \<Rightarrow> False);
          floored = (if has_tools \<and> asked < DEFAULT_MIN_TOKENS then DEFAULT_MIN_TOKENS else asked);
          above = (case thinking_budget body of
                     Some budget \<Rightarrow> if floored \<le> budget then sat_add64 budget 1024 else floored
                   | None \<Rightarrow> floored)
      in min above ceiling)"

definition encode_data_uri :: "string \<Rightarrow> string \<Rightarrow> string" where
  "encode_data_uri mime_type base64 = ''data:'' @ mime_type @ '';base64,'' @ base64"

definition parse_data_uri :: "string \<Rightarrow> (string \<times> string) option" where
  "parse_data_uri url =
     (case strip_prefix url ''data:'' of
        None \<Rightarrow> None
      | Some rest \<Rightarrow>
          (case split_once CHR '';'' rest of
             None \<Rightarrow> None
           | Some (mime_type, tail) \<Rightarrow>
               if mime_type = [] then None
               else (case strip_prefix (CHR '';'' # tail) '';base64,'' of
                       None \<Rightarrow> None
                     | Some base64 \<Rightarrow> if base64 = [] then None else Some (mime_type, base64))))"

definition collapse_text_parts :: "json list \<Rightarrow> json" where
  "collapse_text_parts parts =
     (case parts of
        [part] \<Rightarrow>
          if get_str part ''type'' = Some ''text''
          then (case jget part ''text'' of Some text \<Rightarrow> text | None \<Rightarrow> JArr parts)
          else JArr parts
      | _ \<Rightarrow> JArr parts)"

definition safe_parse_json :: "(string \<Rightarrow> json option) \<Rightarrow> string \<Rightarrow> json" where
  "safe_parse_json parse_json text = opt_default (JStr text) (parse_json text)"

section \<open>Content blocks\<close>

type_synonym name_map = "(string \<times> string) list"

definition field_or_null :: "json \<Rightarrow> string \<Rightarrow> json" where
  "field_or_null v k = opt_default JNull (jget v k)"

definition text_block :: "string \<Rightarrow> json" where
  "text_block t = jobj [(''type'', JStr ''text''), (''text'', JStr t)]"

definition base64_source :: "string \<Rightarrow> string \<times> string \<Rightarrow> json" where
  "base64_source kind parsed =
     jobj [(''type'', JStr kind),
           (''source'', jobj [(''type'', JStr ''base64''), (''media_type'', JStr (fst parsed)), (''data'', JStr (snd parsed))])]"

definition full_text :: "json \<Rightarrow> string option" where
  "full_text part = (case get_str part ''text'' of Some (c # cs) \<Rightarrow> Some (c # cs) | _ \<Rightarrow> None)"

definition opt_list :: "'a option \<Rightarrow> 'a list" where
  "opt_list v = (case v of None \<Rightarrow> [] | Some x \<Rightarrow> [x])"

definition image_block :: "json \<Rightarrow> json option" where
  "image_block part =
     (case Option.bind (jget part ''image_url'') (\<lambda>i. get_str i ''url'') of
        None \<Rightarrow> None
      | Some url \<Rightarrow>
          (case parse_data_uri url of
             Some parsed \<Rightarrow> Some (base64_source ''image'' parsed)
           | None \<Rightarrow>
               if starts_with url ''http://'' \<or> starts_with url ''https://''
               then Some (jobj [(''type'', JStr ''image''),
                                (''source'', jobj [(''type'', JStr ''url''), (''url'', JStr url)])])
               else None))"

definition document_block :: "json \<Rightarrow> json option" where
  "document_block part =
     (case Option.bind (jget part ''file'') (\<lambda>f. get_str f ''file_data'') of
        None \<Rightarrow> None
      | Some data \<Rightarrow>
          (case parse_data_uri data of
             Some parsed \<Rightarrow> if fst parsed = ''application/pdf'' then Some (base64_source ''document'' parsed) else None
           | None \<Rightarrow> None))"

definition result_block :: "json \<Rightarrow> json" where
  "result_block part =
     jobj ([(''type'', JStr ''tool_result''), (''tool_use_id'', field_or_null part ''tool_use_id''),
            (''content'', field_or_null part ''content'')]
           @ (if jget part ''is_error'' = Some (JBool True) then [(''is_error'', JBool True)] else []))"

definition push_user_part :: "json \<Rightarrow> json list" where
  "push_user_part part =
     (case get_str part ''type'' of
        None \<Rightarrow> []
      | Some kind \<Rightarrow>
          if kind = ''text'' then opt_list (map_option text_block (full_text part))
          else if kind = ''tool_result'' then [result_block part]
          else if kind = ''image_url'' then opt_list (image_block part)
          else if kind = ''image'' then
            opt_list (map_option (\<lambda>source. jobj [(''type'', JStr ''image''), (''source'', source)]) (jget part ''source''))
          else if kind = ''file'' then opt_list (document_block part)
          else [])"

definition without :: "string \<Rightarrow> json \<Rightarrow> json" where
  "without k v = (case v of JObj m \<Rightarrow> JObj (bt_remove k m) | _ \<Rightarrow> v)"

definition push_assistant_part :: "json \<Rightarrow> json list" where
  "push_assistant_part part =
     (case get_str part ''type'' of
        None \<Rightarrow> []
      | Some kind \<Rightarrow>
          if kind = ''text'' then opt_list (map_option text_block (full_text part))
          else if kind = ''tool_use'' then
            [jobj [(''type'', JStr ''tool_use''), (''id'', field_or_null part ''id''), (''name'', field_or_null part ''name''),
                   (''input'', opt_default (jobj []) (jget part ''input''))]]
          else if kind = ''thinking'' then [without ''cache_control'' part]
          else [])"

definition call_block :: "(string \<Rightarrow> json option) \<Rightarrow> json \<Rightarrow> json list \<times> name_map \<Rightarrow> json list \<times> name_map" where
  "call_block parse_json call acc =
     (if get_str call ''type'' \<noteq> Some ''function'' then acc
      else
        (let function = jget call ''function'';
             original = opt_default [] (Option.bind function (\<lambda>f. get_str f ''name''));
             arguments = opt_default [] (Option.bind function (\<lambda>f. get_str f ''arguments''))
         in (fst acc @ [jobj [(''type'', JStr ''tool_use''), (''id'', field_or_null call ''id''), (''name'', JStr original),
                              (''input'', safe_parse_json parse_json arguments)]],
             bt_insert original original (snd acc))))"

definition assistant_blocks :: "json option \<Rightarrow> json list" where
  "assistant_blocks content =
     (case content of
        None \<Rightarrow> []
      | Some (JArr parts) \<Rightarrow> concat (map push_assistant_part parts)
      | Some (JStr text) \<Rightarrow> if text \<noteq> [] then [text_block text] else []
      | Some JNull \<Rightarrow> []
      | Some other \<Rightarrow>
          (let text = extract_text_content (Some other) [nl] in if text \<noteq> [] then [text_block text] else []))"

definition content_blocks :: "(string \<Rightarrow> json option) \<Rightarrow> json \<Rightarrow> name_map \<Rightarrow> json list \<times> name_map" where
  "content_blocks parse_json message names =
     (let message_role = opt_default [] (get_str message ''role''); content = jget message ''content''
      in if message_role = ''tool'' then
           ([jobj [(''type'', JStr ''tool_result''), (''tool_use_id'', field_or_null message ''tool_call_id''),
                   (''content'', opt_default JNull content)]], names)
         else if message_role = ''user'' then
           ((case content of
               Some (JStr text) \<Rightarrow> if text \<noteq> [] then [text_block text] else []
             | Some (JArr parts) \<Rightarrow> concat (map push_user_part parts)
             | _ \<Rightarrow> []), names)
         else if message_role = ''assistant'' then
           fold (call_block parse_json)
             (opt_default [] (Option.bind (jget message ''tool_calls'') as_array)) (assistant_blocks content, names)
         else ([], names))"

section \<open>Messages\<close>

type_synonym claude_message = "string \<times> json list"

definition is_kind :: "string \<Rightarrow> json \<Rightarrow> bool" where
  "is_kind kind b \<longleftrightarrow> get_str b ''type'' = Some kind"

definition claude_role :: "json \<Rightarrow> string" where
  "claude_role message =
     (let r = opt_default [] (get_str message ''role'') in if r = ''user'' \<or> r = ''tool'' then ''user'' else ''assistant'')"

definition flush_parts :: "claude_message list \<Rightarrow> string option \<Rightarrow> json list \<Rightarrow> claude_message list" where
  "flush_parts messages current parts =
     (case current of Some r \<Rightarrow> if parts \<noteq> [] then messages @ [(r, parts)] else messages | None \<Rightarrow> messages)"

record merge_state =
  ms_messages :: "claude_message list"
  ms_role :: "string option"
  ms_parts :: "json list"
  ms_names :: name_map

definition merge_step :: "(string \<Rightarrow> json option) \<Rightarrow> json \<Rightarrow> merge_state \<Rightarrow> merge_state" where
  "merge_step parse_json message s =
     (let new_role = claude_role message;
          (blocks, names) = content_blocks parse_json message (ms_names s);
          has_tool_use = list_ex (is_kind ''tool_use'') blocks;
          has_tool_result = list_ex (is_kind ''tool_result'') blocks
      in if has_tool_result then
           (let results = filter (is_kind ''tool_result'') blocks;
                others = filter (\<lambda>b. \<not> is_kind ''tool_result'' b) blocks;
                flushed = flush_parts (ms_messages s) (ms_role s) (ms_parts s);
                pushed = (if results \<noteq> [] then flushed @ [(''user'', results)] else flushed)
            in \<lparr>ms_messages = pushed, ms_role = (if others \<noteq> [] then Some new_role else ms_role s),
                ms_parts = others, ms_names = names\<rparr>)
         else
           (let s1 = (if ms_role s \<noteq> Some new_role
                      then s\<lparr>ms_messages := flush_parts (ms_messages s) (ms_role s) (ms_parts s),
                             ms_role := Some new_role, ms_parts := []\<rparr>
                      else s);
                parts = ms_parts s1 @ blocks
            in if has_tool_use
               then s1\<lparr>ms_messages := flush_parts (ms_messages s1) (ms_role s1) parts, ms_parts := [], ms_names := names\<rparr>
               else s1\<lparr>ms_parts := parts, ms_names := names\<rparr>))"

definition merge_messages :: "(string \<Rightarrow> json option) \<Rightarrow> json list \<Rightarrow> name_map \<Rightarrow> claude_message list \<times> name_map" where
  "merge_messages parse_json source names =
     (let s = fold (merge_step parse_json) (filter (\<lambda>m. get_str m ''role'' \<noteq> Some ''system'') source)
                \<lparr>ms_messages = [], ms_role = None, ms_parts = [], ms_names = names\<rparr>
      in (flush_parts (ms_messages s) (ms_role s) (ms_parts s), ms_names s))"

section \<open>Cache marks, system text, tools\<close>

definition with_field :: "string \<Rightarrow> json \<Rightarrow> json \<Rightarrow> json" where
  "with_field k v b = (case b of JObj m \<Rightarrow> JObj (bt_insert k v m) | _ \<Rightarrow> b)"

definition cacheable :: "json \<Rightarrow> bool" where
  "cacheable b \<longleftrightarrow> (case get_str b ''type'' of
     Some kind \<Rightarrow> kind \<in> {''text'', ''tool_use'', ''tool_result'', ''image''} | None \<Rightarrow> False)"

definition mark_block :: "json \<Rightarrow> json" where
  "mark_block = with_field ''cache_control'' (jobj [(''type'', JStr ''ephemeral'')])"

definition mark_message :: "claude_message \<Rightarrow> claude_message" where
  "mark_message m = (fst m, rev (update_first cacheable mark_block (rev (snd m))))"

definition apply_cache_control :: "claude_message list \<Rightarrow> claude_message list" where
  "apply_cache_control messages = rev (update_first (\<lambda>m. fst m = ''assistant'') mark_message (rev messages))"

definition message_json :: "claude_message \<Rightarrow> json" where
  "message_json m = jobj [(''role'', JStr (fst m)), (''content'', JArr (snd m))]"

definition build_system :: "string list \<Rightarrow> json" where
  "build_system system_parts =
     (let joined = join_with [nl] system_parts
      in if system_parts = [] \<or> joined = [] then JArr [text_block CLAUDE_SYSTEM_PROMPT]
         else JArr [text_block CLAUDE_SYSTEM_PROMPT,
                    jobj [(''type'', JStr ''text''), (''text'', JStr joined),
                          (''cache_control'', jobj [(''type'', JStr ''ephemeral''), (''ttl'', JStr ''1h'')])]])"

definition json_mode_instruction :: "(json \<Rightarrow> string) \<Rightarrow> json \<Rightarrow> string option" where
  "json_mode_instruction render_pretty format =
     (if get_str format ''type'' = Some ''json_schema'' then
        map_option (\<lambda>schema.
            ''You must respond with valid JSON that strictly follows this JSON schema:'' @ [nl] @ ''```json'' @ [nl]
            @ render_pretty schema @ [nl] @ ''```'' @ [nl] @ ''Respond ONLY with the JSON object, no other text.'')
          (Option.bind (jget format ''json_schema'') (\<lambda>w. jget w ''schema''))
      else if get_str format ''type'' = Some ''json_object'' then
        Some ''You must respond with valid JSON. Respond ONLY with a JSON object, no other text.''
      else None)"

definition convert_tool :: "json \<Rightarrow> json list \<times> name_map \<Rightarrow> json list \<times> name_map" where
  "convert_tool tool acc =
     (let tool_type = get_str tool ''type''
      in if tool_type \<noteq> None \<and> tool_type \<noteq> Some ''function'' then (fst acc @ [tool], snd acc)
         else
           (let data = (if tool_type = Some ''function'' then opt_default tool (jget tool ''function'') else tool);
                name = opt_default [] (get_str data ''name'')
            in (fst acc @ [jobj
                  [(''name'', JStr name), (''description'', JStr (opt_default [] (get_str data ''description''))),
                   (''input_schema'', opt_default
                      (jobj [(''type'', JStr ''object''), (''properties'', jobj []), (''required'', JArr [])])
                      (opt_or (jget data ''parameters'') (jget data ''input_schema'')))]],
                bt_insert name name (snd acc))))"

definition mark_last_tool :: "json list \<Rightarrow> json list" where
  "mark_last_tool tools =
     (if tools = [] then []
      else butlast tools @ [with_field ''cache_control''
             (jobj [(''type'', JStr ''ephemeral''), (''ttl'', JStr ''1h'')]) (last tools)])"

definition convert_tools :: "json list \<Rightarrow> name_map \<Rightarrow> json list \<times> name_map" where
  "convert_tools tools names = (case fold convert_tool tools ([], names) of (converted, names') \<Rightarrow> (mark_last_tool converted, names'))"

definition convert_tool_choice :: "json \<Rightarrow> json" where
  "convert_tool_choice choice =
     (let auto = jobj [(''type'', JStr ''auto'')]
      in case choice of
           JStr text \<Rightarrow> if text = ''required'' then jobj [(''type'', JStr ''any'')] else auto
         | JObj _ \<Rightarrow>
             (case Option.bind (jget choice ''function'') (\<lambda>f. jget f ''name'') of
                Some name \<Rightarrow>
                  if name \<noteq> JNull then jobj [(''type'', JStr ''tool''), (''name'', name)]
                  else (case get_str choice ''type'' of
                          Some kind \<Rightarrow> if kind \<in> {''auto'', ''any'', ''tool'', ''none''} then choice else auto
                        | None \<Rightarrow> auto)
              | None \<Rightarrow>
                  (case get_str choice ''type'' of
                     Some kind \<Rightarrow> if kind \<in> {''auto'', ''any'', ''tool'', ''none''} then choice else auto
                   | None \<Rightarrow> auto))
         | _ \<Rightarrow> auto)"

definition system_texts :: "json list \<Rightarrow> string list" where
  "system_texts source =
     map (\<lambda>m. case jget m ''content'' of
            Some (JStr text) \<Rightarrow> text | other \<Rightarrow> extract_text_content other [nl])
       (filter (\<lambda>m. get_str m ''role'' = Some ''system'') source)"

definition openai_to_claude_request ::
    "(string \<Rightarrow> json option) \<Rightarrow> (json \<Rightarrow> string) \<Rightarrow> string \<Rightarrow> json \<Rightarrow> bool \<Rightarrow> nat \<Rightarrow> json \<times> name_map" where
  "openai_to_claude_request parse_json render_pretty model body stream model_ceiling =
     (let source = Option.bind (jget body ''messages'') as_array;
          system0 = opt_default [] (map_option system_texts source);
          (messages, names) = (case source of
              None \<Rightarrow> ([], [])
            | Some ms \<Rightarrow> (case merge_messages parse_json ms [] of (merged, n) \<Rightarrow> (apply_cache_control merged, n)));
          system_parts = system0 @ (case jget body ''response_format'' of
              None \<Rightarrow> [] | Some format \<Rightarrow> opt_list (json_mode_instruction render_pretty format));
          (tools, names') = (case Option.bind (jget body ''tools'') as_array of
              None \<Rightarrow> ([], names) | Some ts \<Rightarrow> convert_tools ts names)
      in (jobj ([(''model'', JStr model), (''max_tokens'', jnat (adjust_max_tokens body model_ceiling)), (''stream'', JBool stream)]
                @ (case jget body ''temperature'' of None \<Rightarrow> [] | Some t \<Rightarrow> [(''temperature'', t)])
                @ [(''messages'', JArr (map message_json messages)), (''system'', build_system system_parts)]
                @ (if tools = [] then [] else [(''tools'', JArr tools)])
                @ (case jget body ''tool_choice'' of None \<Rightarrow> [] | Some c \<Rightarrow> [(''tool_choice'', convert_tool_choice c)])),
          names'))"

section \<open>What a conversation says\<close>

text \<open>Reference: who says which block, in order. A message with tool results says them first, as the user.\<close>

definition said :: "claude_message list \<Rightarrow> (string \<times> json) list" where
  "said ms = concat (map (\<lambda>(r, bs). map (Pair r) bs) ms)"

definition says :: "(string \<Rightarrow> json option) \<Rightarrow> json \<Rightarrow> (string \<times> json) list" where
  "says parse_json m =
     (let bs = fst (content_blocks parse_json m [])
      in map (Pair ''user'') (filter (is_kind ''tool_result'') bs)
         @ map (Pair (claude_role m)) (filter (\<lambda>b. \<not> is_kind ''tool_result'' b) bs))"

definition message_ok :: "claude_message \<Rightarrow> bool" where
  "message_ok m \<longleftrightarrow> snd m \<noteq> [] \<and> fst m \<in> {''user'', ''assistant''}
     \<and> (list_all (is_kind ''tool_result'') (snd m) \<or> \<not> list_ex (is_kind ''tool_result'') (snd m))"

lemma said_append [simp]: "said (a @ b) = said a @ said b"
  by (simp add: said_def)

lemma said_one [simp]: "said [(r, bs)] = map (Pair r) bs" "said [] = []"
  by (simp_all add: said_def)

lemma call_blocks_names:
  "fst (fold (call_block pj) calls (bs, n)) = fst (fold (call_block pj) calls (bs, n'))"
  by (induction calls arbitrary: bs n n') (simp_all add: call_block_def Let_def)

lemma content_blocks_names: "fst (content_blocks pj m n) = fst (content_blocks pj m [])"
  unfolding content_blocks_def Let_def by (simp add: call_blocks_names [of _ _ _ n "[]"])

definition merging :: "merge_state \<Rightarrow> bool" where
  "merging s \<longleftrightarrow> list_all message_ok (ms_messages s) \<and> (ms_role s = None \<longrightarrow> ms_parts s = [])
     \<and> (\<forall>r. ms_role s = Some r \<longrightarrow> r \<in> {''user'', ''assistant''}) \<and> \<not> list_ex (is_kind ''tool_result'') (ms_parts s)"

definition all_said :: "merge_state \<Rightarrow> (string \<times> json) list" where
  "all_said s = said (flush_parts (ms_messages s) (ms_role s) (ms_parts s))"

lemma flush_ok: "merging s \<Longrightarrow> list_all message_ok (flush_parts (ms_messages s) (ms_role s) (ms_parts s))"
  by (auto simp: merging_def flush_parts_def message_ok_def split: option.splits)

lemma said_flush: "(role = None \<longrightarrow> parts = []) \<Longrightarrow>
   said (flush_parts ms role parts) = said ms @ map (Pair (opt_default [] role)) parts"
  by (auto simp: flush_parts_def split: option.splits)

lemma claude_role_cases: "claude_role m \<in> {''user'', ''assistant''}"
  by (simp add: claude_role_def Let_def)

lemma no_results_filter: "\<not> list_ex P bs \<Longrightarrow> filter P bs = [] \<and> filter (\<lambda>b. \<not> P b) bs = bs"
  by (auto simp: list_ex_iff filter_empty_conv)

lemma merge_step_says:
  assumes "merging s"
  shows "merging (merge_step pj m s) \<and> all_said (merge_step pj m s) = all_said s @ says pj m"
proof -
  obtain bs names where cb: "content_blocks pj m (ms_names s) = (bs, names)" by fastforce
  have bs: "fst (content_blocks pj m []) = bs" using content_blocks_names [of pj m "ms_names s"] cb by simp
  note ok = assms [unfolded merging_def] and flushed = flush_ok [OF assms]
  have all: "all_said s = said (ms_messages s) @ map (Pair (opt_default [] (ms_role s))) (ms_parts s)"
    using ok by (simp add: all_said_def said_flush)
  show ?thesis
  proof (cases "list_ex (is_kind ''tool_result'') bs")
    case True
    let ?results = "filter (is_kind ''tool_result'') bs" and ?others = "filter (\<lambda>b. \<not> is_kind ''tool_result'' b) bs"
    have some: "?results \<noteq> []" using True by (auto simp: list_ex_iff filter_empty_conv)
    have step: "merge_step pj m s =
        \<lparr>ms_messages = flush_parts (ms_messages s) (ms_role s) (ms_parts s) @ [(''user'', ?results)],
         ms_role = (if ?others \<noteq> [] then Some (claude_role m) else ms_role s), ms_parts = ?others, ms_names = names\<rparr>"
      using True some by (simp add: merge_step_def cb Let_def)
    have "message_ok (''user'', ?results)" using some by (simp add: message_ok_def list_all_iff)
    moreover have "\<not> list_ex (is_kind ''tool_result'') ?others" by (simp add: list_ex_iff)
    ultimately have "merging (merge_step pj m s)"
      using flushed ok claude_role_cases [of m] by (auto simp: merging_def step)
    moreover have "all_said (merge_step pj m s) = all_said s @ says pj m"
    proof (cases "?others = []")
      case True
      then have "all_said (merge_step pj m s) = all_said s @ map (Pair ''user'') ?results"
        by (simp add: all_said_def step flush_parts_def split: option.split)
      with True show ?thesis by (simp add: says_def bs)
    next
      case False
      then have "all_said (merge_step pj m s) = all_said s @ map (Pair ''user'') ?results @ map (Pair (claude_role m)) ?others"
        unfolding all_said_def step by (simp only: merge_state.simps if_True simp_thms) (simp add: said_flush)
      then show ?thesis by (simp add: says_def bs)
    qed
    ultimately show ?thesis ..
  next
    case False
    define s1 where "s1 = (if ms_role s \<noteq> Some (claude_role m)
        then s\<lparr>ms_messages := flush_parts (ms_messages s) (ms_role s) (ms_parts s), ms_role := Some (claude_role m), ms_parts := []\<rparr>
        else s)"
    have step: "merge_step pj m s =
        (if list_ex (is_kind ''tool_use'') bs
         then s1\<lparr>ms_messages := flush_parts (ms_messages s1) (ms_role s1) (ms_parts s1 @ bs), ms_parts := [], ms_names := names\<rparr>
         else s1\<lparr>ms_parts := ms_parts s1 @ bs, ms_names := names\<rparr>)"
      using False by (simp add: merge_step_def cb Let_def s1_def)
    have s1: "merging s1" "ms_role s1 = Some (claude_role m)" "all_said s1 = all_said s"
      using flushed ok claude_role_cases [of m] by (auto simp: merging_def s1_def all_said_def flush_parts_def)
    have "merging (s1\<lparr>ms_parts := ms_parts s1 @ bs\<rparr>)" using s1 False by (simp add: merging_def)
    from flush_ok [OF this] this have "merging (merge_step pj m s)"
      using s1 by (auto simp: step merging_def)
    moreover have "all_said (merge_step pj m s) = all_said s1 @ map (Pair (claude_role m)) bs"
      using s1(2) by (auto simp: step all_said_def said_flush)
    moreover have "says pj m = map (Pair (claude_role m)) bs"
      using no_results_filter [OF False] by (simp add: says_def bs)
    ultimately show ?thesis using s1(3) by simp
  qed
qed

lemma merge_messages_says:
  "list_all message_ok (fst (merge_messages pj source names))
   \<and> said (fst (merge_messages pj source names))
     = concat (map (says pj) (filter (\<lambda>m. get_str m ''role'' \<noteq> Some ''system'') source))"
proof -
  have "merging s \<Longrightarrow> merging (fold (merge_step pj) ms s)
      \<and> all_said (fold (merge_step pj) ms s) = all_said s @ concat (map (says pj) ms)" for ms s
    by (induction ms arbitrary: s) (use merge_step_says in \<open>simp_all\<close>)
  from this [of "\<lparr>ms_messages = [], ms_role = None, ms_parts = [], ms_names = names\<rparr>"]
  show ?thesis
    using flush_ok by (simp add: merge_messages_def merging_def all_said_def flush_parts_def Let_def)
qed

section \<open>The marks change nothing that is said\<close>

definition unmarked :: "string \<times> json \<Rightarrow> string \<times> json" where
  "unmarked rb = (fst rb, without ''cache_control'' (snd rb))"

lemma bt_remove_insert: "bt_remove k (bt_insert k v m) = bt_remove k m"
  by (induction k v m rule: bt_insert.induct) (auto simp: bt_remove_def)

lemma without_with [simp]: "without k (with_field k v b) = without k b"
  by (cases b) (simp_all add: without_def with_field_def bt_remove_insert)

lemma jget_with_field: "k' \<noteq> k \<Longrightarrow> jget (with_field k v b) k' = jget b k'"
  by (cases b) (simp_all add: with_field_def map_simps)

lemma get_str_with_field: "k' \<noteq> k \<Longrightarrow> get_str (with_field k v b) k' = get_str b k'"
  by (simp add: get_str_def jget_with_field)

lemma jget_mark [simp]: "k \<noteq> ''cache_control'' \<Longrightarrow> jget (mark_block b) k = jget b k"
  unfolding mark_block_def by (rule jget_with_field)

lemma get_str_mark [simp]: "k \<noteq> ''cache_control'' \<Longrightarrow> get_str (mark_block b) k = get_str b k"
  unfolding mark_block_def by (rule get_str_with_field)

lemma unmarked_mark: "without ''cache_control'' (mark_block b) = without ''cache_control'' b"
  by (simp add: mark_block_def)

lemma is_kind_mark [simp]: "is_kind kind (mark_block b) = is_kind kind b"
  by (simp add: is_kind_def)

lemma map_apply_cache_control:
  assumes "\<And>m. g (mark_message m) = g m"
  shows "map g (apply_cache_control ms) = map g ms"
  unfolding apply_cache_control_def rev_map [symmetric]
  by (simp add: update_first_ids [of _ g mark_message] assms rev_map [symmetric])

lemma map_mark_message:
  assumes "\<And>b. cacheable b \<Longrightarrow> g (mark_block b) = g b"
  shows "map g (snd (mark_message m)) = map g (snd m)"
  unfolding mark_message_def snd_conv rev_map [symmetric]
  by (simp add: update_first_ids [of cacheable g mark_block] assms rev_map [symmetric])

section \<open>What Claude accepts\<close>



lemma full_text_block [simp]: "full_text (text_block t) = (if t = [] then None else Some t)"
  by (cases t) (simp_all add: full_text_def text_block_def get_str_def jget_jobj)

lemma is_kind_jobj: "is_kind kind (jobj kvs) \<longleftrightarrow> Option.bind (map_of (rev kvs) ''type'') as_str = Some kind"
  by (simp add: is_kind_def get_str_def jget_jobj)

lemma text_block_kind [simp]: "is_kind kind (text_block t) \<longleftrightarrow> kind = ''text''"
  by (auto simp: text_block_def is_kind_jobj)



























lemma full_text_mark [simp]: "full_text (mark_block b) = full_text b"
  by (simp add: full_text_def)








lemma choice_object: "list_ex (\<lambda>kind. is_kind kind (jobj [(''type'', JStr k)])) ks \<longleftrightarrow> k \<in> set ks"
  by (auto simp: list_ex_iff is_kind_jobj)



lemma convert_tools_nonempty: "fst (convert_tools ts names) = [] \<longleftrightarrow> ts = []"
proof -
  have "length (fst (fold convert_tool ts acc)) = length (fst acc) + length ts" for acc
    by (induction ts arbitrary: acc) (simp_all add: convert_tool_def Let_def)
  from this [of "([], names)"] show ?thesis
    by (auto simp: convert_tools_def mark_last_tool_def split: prod.split)
qed

lemma request_messages:
  "jget (fst (openai_to_claude_request pj rp model body stream ceiling)) ''messages'' =
     Some (JArr (map message_json (case Option.bind (jget body ''messages'') as_array of
        None \<Rightarrow> [] | Some source \<Rightarrow> apply_cache_control (fst (merge_messages pj source [])))))"
  by (simp add: openai_to_claude_request_def Let_def jget_jobj split: option.split prod.split)



subsection \<open>Requests of well-formed clients\<close>










































text \<open>Nothing is lost on the way to Claude: the blocks of the request, in order and with the role that says
  them, are those of the messages that are not system messages; merging, flushing and the cache mark change neither
  the blocks nor their order. Tool results come first in their message and are always said by the user.\<close>

theorem conversation_kept:
  "\<exists>ms. jget (fst (openai_to_claude_request parse_json render_pretty model body stream ceiling)) ''messages''
        = Some (JArr (map message_json ms))
      \<and> map unmarked (said ms)
        = map unmarked (concat (map (says parse_json) (filter (\<lambda>m. get_str m ''role'' \<noteq> Some ''system'')
            (opt_default [] (Option.bind (jget body ''messages'') as_array)))))"
proof (cases "Option.bind (jget body ''messages'') as_array")
  case None
  then show ?thesis by (intro exI [of _ "[]"]) (simp add: request_messages)
next
  case (Some source)
  let ?ms = "fst (merge_messages parse_json source [])"
  have "map unmarked (map (Pair r) (snd (mark_message (r', bs)))) = map unmarked (map (Pair r) bs)" for r r' bs
    using map_mark_message [of "\<lambda>b. unmarked (r, b)" "(r', bs)"] by (simp add: unmarked_def unmarked_mark comp_def)
  then have "map unmarked (said [mark_message m]) = map unmarked (said [m])" for m
    by (cases m) (simp add: said_def mark_message_def)
  from map_apply_cache_control [of "\<lambda>m. map unmarked (said [m])", OF this]
  have "concat (map (\<lambda>m. map unmarked (said [m])) (apply_cache_control ?ms)) = concat (map (\<lambda>m. map unmarked (said [m])) ?ms)"
    by (rule arg_cong)
  then have "map unmarked (said (apply_cache_control ?ms)) = map unmarked (said ?ms)"
    by (simp add: said_def map_concat comp_def)
  then show ?thesis
    using merge_messages_says [of parse_json source "[]"]
    by (intro exI [of _ "apply_cache_control ?ms"]) (simp add: request_messages Some)
qed

text \<open>The token limit: never above the ceiling, never below what the client asked for unless the ceiling is,
  and above the budget for thinking exactly when the ceiling leaves room for that. The documented rule that
  \<open>max_tokens\<close> always exceeds the budget is broken by the last clamp.\<close>

theorem max_tokens_bounded:
  assumes "ceiling \<le> u64_max"
  shows "adjust_max_tokens body ceiling \<le> ceiling
    \<and> min (opt_default DEFAULT_MAX_TOKENS (nonzero (Option.bind (jget body ''max_tokens'') as_u64))) ceiling
        \<le> adjust_max_tokens body ceiling
    \<and> (case thinking_budget body of None \<Rightarrow> True
       | Some budget \<Rightarrow> (budget < adjust_max_tokens body ceiling \<longleftrightarrow> budget < ceiling))"
proof -
  have "budget < ceiling \<Longrightarrow> budget < sat_add64 budget 1024" for budget
    using assms by (simp add: sat_add64_def)
  then show ?thesis
    using assms by (auto simp: adjust_max_tokens_def Let_def sat_add64_def min.coboundedI2 split: option.split)
qed

theorem max_tokens_bounded_witness:
  "adjust_max_tokens (jobj [(''max_tokens'', jnat 50), (''thinking'', jobj [(''budget_tokens'', jnat 200)])]) 100 \<le> 100
   \<and> \<not> 200 < adjust_max_tokens (jobj [(''max_tokens'', jnat 50), (''thinking'', jobj [(''budget_tokens'', jnat 200)])]) 100"
proof -
  have "thinking_budget (jobj [(''max_tokens'', jnat 50), (''thinking'', jobj [(''budget_tokens'', jnat 200)])]) = Some 200"
    by (simp add: thinking_budget_def nonzero_def jget_jobj jnat_def)
  then show ?thesis
    using max_tokens_bounded [of 100 "jobj [(''max_tokens'', jnat 50), (''thinking'', jobj [(''budget_tokens'', jnat 200)])]"]
    by (simp add: u64_max_def)
qed

end
