(* ===== verification/Thinking.thy ===== *)
theory Thinking
  imports Capabilities Claude_Request
begin

text \<open>
  Reasoning requests (\<open>crates/translate/src/thinking.rs\<close>): what the client asked for, read from any
  dialect, and its spelling in the dialect of the target model. The capabilities and the accepted
  levels of a model are looked up by \<open>apply_thinking\<close> in the table and the registry it is given.
\<close>

section \<open>Intents, levels and budgets\<close>

datatype thinking_intent = Off | Auto | Level string | Budget nat

definition level_to_budget :: "string \<Rightarrow> nat option" where
  "level_to_budget level = map_of
     [(''none'', 0), (''minimal'', 512), (''low'', 1024), (''medium'', 8192), (''high'', 24576), (''xhigh'', 32768),
      (''max'', 128000)] level"

definition budget_to_level :: "nat \<Rightarrow> string option" where
  "budget_to_level budget =
     (if budget = 0 then None
      else Some (if budget \<le> 768 then ''minimal'' else if budget \<le> 4096 then ''low''
                 else if budget \<le> 16384 then ''medium'' else if budget \<le> 28672 then ''high'' else ''xhigh''))"

definition effort_to_thinking_level :: "string \<Rightarrow> string" where
  "effort_to_thinking_level effort =
     (if effort = ''none'' \<or> effort = ''off'' then ''minimal''
      else if effort = ''xhigh'' \<or> effort = ''max'' then ''high'' else effort)"

definition MAX_SAFE_INTEGER :: int where "MAX_SAFE_INTEGER = 9007199254740991"

definition i64_max :: nat where "i64_max = 2 ^ 63 - 1"

text \<open>A float is its mantissa times a power of two; \<open>trunc\<close> drops the fraction.\<close>

definition trunc_float :: "int \<Rightarrow> int \<Rightarrow> int" where
  "trunc_float mantissa e =
     (if 0 \<le> e then mantissa * 2 ^ nat e else sgn mantissa * (\<bar>mantissa\<bar> div 2 ^ nat (- e)))"

definition float_within :: "int \<Rightarrow> int \<Rightarrow> int \<Rightarrow> bool" where
  "float_within bound mantissa e \<longleftrightarrow>
     (if 0 \<le> e then \<bar>mantissa\<bar> * 2 ^ nat e \<le> bound else \<bar>mantissa\<bar> \<le> bound * 2 ^ nat (- e))"

text \<open>An unsigned number beyond \<open>i64\<close> is far beyond the safe range as a float.\<close>

definition budget_signal :: "json \<Rightarrow> int option" where
  "budget_signal v =
     (case as_i64 v of
        Some exact \<Rightarrow> Some exact
      | None \<Rightarrow>
          (case v of
             JNum (Flt mantissa e) \<Rightarrow>
               if float_within MAX_SAFE_INTEGER mantissa e then Some (trunc_float mantissa e) else None
           | _ \<Rightarrow> None))"

definition positive_budget :: "json option \<Rightarrow> nat option" where
  "positive_budget v =
     (case Option.bind v budget_signal of
        Some signal \<Rightarrow> if 0 < signal then Some (nat signal) else None
      | None \<Rightarrow> None)"

definition intent_from_effort :: "string \<Rightarrow> thinking_intent" where
  "intent_from_effort effort =
     (let lowered = ascii_lower effort
      in if lowered = ''none'' \<or> lowered = ''off'' then Off else if lowered = ''auto'' then Auto else Level lowered)"

section \<open>Reading\<close>

definition obj_get :: "jmap \<Rightarrow> string list \<Rightarrow> json option" where
  "obj_get m path = (case path of [] \<Rightarrow> None | k # ks \<Rightarrow> foldl (\<lambda>v k. Option.bind v (\<lambda>w. jget w k)) (map_of m k) ks)"

definition gemini_thinking_config :: "jmap \<Rightarrow> json option" where
  "gemini_thinking_config m =
     (case opt_or (opt_or (map_of m ''thinkingConfig'') (obj_get m [''generationConfig'', ''thinkingConfig'']))
                  (obj_get m [''request'', ''generationConfig'', ''thinkingConfig'']) of
        Some config \<Rightarrow> if is_object config then Some config else None
      | None \<Rightarrow> None)"

definition thinking_suffix_intent :: "string \<Rightarrow> thinking_intent option" where
  "thinking_suffix_intent raw =
     (if raw = ''none'' \<or> raw = ''off'' then Some Off
      else if raw = ''auto'' then Some Auto
      else if raw = ''ultra'' then Some (Level raw)
      else if raw \<noteq> [] \<and> list_all is_digit raw then map_option Budget (parse_u64 raw)
      else if level_to_budget raw \<noteq> None then Some (Level raw)
      else None)"

definition parse_suffix :: "string \<Rightarrow> string \<times> thinking_intent option" where
  "parse_suffix model =
     (case split_thinking_suffix model of
        (clean, suffix) \<Rightarrow>
          (clean, case Option.bind (strip_prefix suffix ''('') (\<lambda>rest. strip_suffix rest '')'') of
                    None \<Rightarrow> None
                  | Some inner \<Rightarrow> thinking_suffix_intent (ascii_lower (trim inner))))"

definition strip_thinking_suffix :: "string \<Rightarrow> string" where
  "strip_thinking_suffix model = fst (parse_suffix model)"

definition non_empty_str :: "json option \<Rightarrow> string option" where
  "non_empty_str v = (case Option.bind v as_str of Some (c # cs) \<Rightarrow> Some (c # cs) | _ \<Rightarrow> None)"

definition read_effort :: "jmap \<Rightarrow> string option" where
  "read_effort m =
     (case opt_or (Option.bind (map_of m ''reasoning_effort'') as_str)
                  (case map_of m ''reasoning'' of
                     Some r \<Rightarrow> if is_object r then get_str r ''effort'' else None | None \<Rightarrow> None) of
        Some (c # cs) \<Rightarrow> Some (c # cs) | _ \<Rightarrow> None)"

definition read_gemini :: "jmap \<Rightarrow> thinking_intent option" where
  "read_gemini m =
     (case gemini_thinking_config m of
        None \<Rightarrow> None
      | Some config \<Rightarrow>
          (case get_str config ''thinkingLevel'' of
             Some level \<Rightarrow> Some (Level (ascii_lower level))
           | None \<Rightarrow>
               map_option (\<lambda>budget. if budget = 0 then Off else if budget < 0 then Auto else Budget (nat budget))
                 (Option.bind (jget config ''thinkingBudget'') budget_signal)))"

definition read_qwen :: "jmap \<Rightarrow> thinking_intent option" where
  "read_qwen m =
     (case Option.bind (map_of m ''enable_thinking'') as_bool of
        Some False \<Rightarrow> Some Off
      | Some True \<Rightarrow> Some (case positive_budget (map_of m ''thinking_budget'') of None \<Rightarrow> Auto | Some b \<Rightarrow> Budget b)
      | None \<Rightarrow> None)"

definition read_claude :: "jmap \<Rightarrow> thinking_intent option" where
  "read_claude m =
     (case Option.bind (map_of m ''thinking'') as_object of
        None \<Rightarrow> None
      | Some t \<Rightarrow>
          (case Option.bind (map_of t ''type'') as_str of
             None \<Rightarrow> None
           | Some kind \<Rightarrow>
               if kind = ''disabled'' then Some Off
               else if kind = ''adaptive'' \<or> kind = ''enabled'' then
                 Some (case positive_budget (map_of t ''budget_tokens'') of None \<Rightarrow> Auto | Some b \<Rightarrow> Budget b)
               else None))"

definition extract_thinking_object :: "jmap \<Rightarrow> thinking_intent option" where
  "extract_thinking_object m =
     (case non_empty_str (obj_get m [''output_config'', ''effort'']) of
        Some effort \<Rightarrow> Some (intent_from_effort effort)
      | None \<Rightarrow>
          opt_or (read_claude m)
            (case read_effort m of
               Some effort \<Rightarrow> Some (intent_from_effort effort)
             | None \<Rightarrow> opt_or (read_gemini m) (read_qwen m)))"

definition extract_thinking :: "json \<Rightarrow> thinking_intent option" where
  "extract_thinking body = Option.bind (as_object body) extract_thinking_object"

section \<open>Stripping\<close>

definition THINKING_KEYS :: "string list" where
  "THINKING_KEYS = [''thinking'', ''reasoning_effort'', ''reasoning'', ''thinkingConfig'', ''enable_thinking'',
     ''thinking_budget'', ''output_config'']"

text \<open>\<open>get_mut\<close> on an object member: the member is changed in place, absent or of another type it is left alone.\<close>

definition in_member :: "string \<Rightarrow> (jmap \<Rightarrow> jmap) \<Rightarrow> jmap \<Rightarrow> jmap" where
  "in_member k f m = (case map_of m k of Some (JObj inner) \<Rightarrow> bt_insert k (JObj (f inner)) m | _ \<Rightarrow> m)"

definition strip_all :: "jmap \<Rightarrow> jmap" where
  "strip_all m =
     in_member ''request'' (in_member ''generationConfig'' (bt_remove ''thinkingConfig''))
       (in_member ''generationConfig'' (bt_remove ''thinkingConfig'') (fold bt_remove THINKING_KEYS m))"

section \<open>Writing\<close>

fun native_format :: "wire_format \<Rightarrow> thinking_format" where
  "native_format Claude = TfClaudeBudget"
| "native_format Gemini = TfGeminiBudget"
| "native_format GeminiCli = TfGeminiBudget"
| "native_format Vertex = TfGeminiBudget"
| "native_format Antigravity = TfGeminiBudget"
| "native_format Kiro = TfKiro"
| "native_format _ = TfOpenAi"

definition small :: "nat \<Rightarrow> int option" where
  "small n = (if n \<le> i64_max then Some (int n) else None)"

definition asked_budget :: "thinking_intent \<Rightarrow> int option" where
  "asked_budget intent =
     (case intent of Budget b \<Rightarrow> small b | Level l \<Rightarrow> Option.bind (level_to_budget l) small | _ \<Rightarrow> None)"

definition clamp_budget :: "thinking_range option \<Rightarrow> int \<Rightarrow> int" where
  "clamp_budget rng budget =
     (case rng of
        None \<Rightarrow> budget
      | Some r \<Rightarrow>
          (let raised = (case Option.bind (tg_min r) small of Some low \<Rightarrow> max budget low | None \<Rightarrow> budget)
           in case Option.bind (tg_max r) small of Some high \<Rightarrow> min raised high | None \<Rightarrow> raised))"

definition to_budget :: "thinking_intent \<Rightarrow> thinking_range option \<Rightarrow> int option" where
  "to_budget intent rng =
     (case intent of
        Auto \<Rightarrow> Some (- 1)
      | Off \<Rightarrow> None
      | _ \<Rightarrow> map_option (clamp_budget rng) (asked_budget intent))"

definition to_level :: "thinking_intent \<Rightarrow> string option" where
  "to_level intent =
     (case intent of
        Off \<Rightarrow> None
      | Auto \<Rightarrow> Some ''auto''
      | Level level \<Rightarrow> Some level
      | Budget budget \<Rightarrow> Some (opt_default ''medium'' (budget_to_level budget)))"

definition normalize_openai_level :: "string \<Rightarrow> string list option \<Rightarrow> string" where
  "normalize_openai_level level supported =
     (let lists = (\<lambda>l. case supported of Some levels \<Rightarrow> l \<in> set levels | None \<Rightarrow> False)
      in if level \<noteq> ''max'' \<and> level \<noteq> ''ultra'' then level
         else if lists level then level
         else if level = ''ultra'' \<and> lists ''max'' then ''max''
         else ''xhigh'')"

definition to_gemini_thinking_level :: "thinking_intent \<Rightarrow> string" where
  "to_gemini_thinking_level intent =
     effort_to_thinking_level (if intent = Auto then ''high'' else opt_default ''high'' (to_level intent))"

definition to_kimi_reasoning_effort :: "thinking_intent \<Rightarrow> string option" where
  "to_kimi_reasoning_effort intent =
     Option.bind (to_level intent) (map_of
       [(''auto'', ''high''), (''minimal'', ''low''), (''xhigh'', ''max''), (''low'', ''low''), (''medium'', ''medium''),
        (''high'', ''high''), (''max'', ''max'')])"

definition gemini_level_output_floor :: "string \<Rightarrow> nat" where
  "gemini_level_output_floor level =
     (if level = ''minimal'' then 4096 else if level = ''low'' then 8192 else if level = ''medium'' then 16384 else 65535)"

definition gemini_budget_output_floor :: "int \<Rightarrow> nat" where
  "gemini_budget_output_floor budget =
     (if budget < 0 then 32768 else if budget \<le> 1024 then 8192 else if budget \<le> 8192 then 16384
      else if budget \<le> 24576 then 32768 else 65535)"

text \<open>A change of the \<open>generationConfig\<close> a Gemini request is read from, made when it is missing.\<close>

definition in_config :: "(jmap \<Rightarrow> jmap) \<Rightarrow> jmap \<Rightarrow> jmap" where
  "in_config f m =
     (case map_of m ''generationConfig'' of
        Some (JObj config) \<Rightarrow> bt_insert ''generationConfig'' (JObj (f config)) m
      | _ \<Rightarrow> bt_insert ''generationConfig'' (JObj (f [])) m)"

definition in_generation_config :: "(jmap \<Rightarrow> jmap) \<Rightarrow> jmap \<Rightarrow> jmap" where
  "in_generation_config f m =
     (case map_of m ''request'' of
        Some (JObj request) \<Rightarrow> bt_insert ''request'' (JObj (in_config f request)) m
      | _ \<Rightarrow> in_config f m)"

definition set_gemini_thinking :: "json \<Rightarrow> jmap \<Rightarrow> jmap" where
  "set_gemini_thinking config = in_generation_config (bt_insert ''thinkingConfig'' config)"

definition ensure_gemini_output_floor :: "nat \<Rightarrow> nat \<Rightarrow> jmap \<Rightarrow> jmap" where
  "ensure_gemini_output_floor least max_output =
     in_generation_config (\<lambda>config.
       let target = min least max_output
       in case Option.bind (map_of config ''maxOutputTokens'') as_u64 of
            Some current \<Rightarrow> if current < target then bt_insert ''maxOutputTokens'' (jnat target) config else config
          | None \<Rightarrow> bt_insert ''maxOutputTokens'' (jnat target) config)"

definition disabled :: json where "disabled = jobj [(''type'', JStr ''disabled'')]"

definition enabled_budget :: "nat \<Rightarrow> json" where
  "enabled_budget b = jobj [(''type'', JStr ''enabled''), (''budget_tokens'', jnat b)]"

definition apply_claude_adaptive :: "thinking_intent \<Rightarrow> bool \<Rightarrow> jmap \<Rightarrow> jmap" where
  "apply_claude_adaptive intent disable m =
     (if disable then bt_insert ''thinking'' disabled m
      else
        (let m1 = bt_insert ''thinking'' (jobj [(''type'', JStr ''adaptive'')]) m
         in case to_level intent of
              None \<Rightarrow> m1
            | Some level \<Rightarrow> bt_insert ''output_config''
                (jobj [(''effort'', JStr (if level = ''xhigh'' then ''high'' else level))]) m1))"

text \<open>A stated limit that the budget would exhaust is raised.\<close>

definition raise_limit :: "nat \<Rightarrow> jmap \<Rightarrow> jmap" where
  "raise_limit budget m =
     (case Option.bind (map_of m ''max_tokens'') as_u64 of
        Some current \<Rightarrow> if current \<le> budget then bt_insert ''max_tokens'' (jnat (budget + 4096)) m else m
      | None \<Rightarrow> m)"

definition apply_budget_thinking :: "thinking_intent \<Rightarrow> thinking_range option \<Rightarrow> bool \<Rightarrow> jmap \<Rightarrow> jmap" where
  "apply_budget_thinking intent rng disable m =
     (if disable then bt_insert ''thinking'' disabled m
      else
        (case to_budget intent rng of
           Some budget \<Rightarrow>
             if budget = - 1 then
               bt_insert ''thinking'' (enabled_budget 8192)
                 (if opt_default 0 (Option.bind (map_of m ''max_tokens'') as_u64) \<le> 8192
                  then bt_insert ''max_tokens'' (jnat (8192 + 4096)) m else m)
             else if 0 < budget then
               bt_insert ''thinking'' (enabled_budget (nat budget)) (raise_limit (nat budget) m)
             else bt_insert ''thinking'' (enabled_budget 8192) (raise_limit 8192 m)
         | None \<Rightarrow> bt_insert ''thinking'' (enabled_budget 8192) (raise_limit 8192 m)))"

definition apply_gemini_level :: "thinking_intent \<Rightarrow> capabilities \<Rightarrow> bool \<Rightarrow> jmap \<Rightarrow> jmap" where
  "apply_gemini_level intent caps off m =
     (let level = (if off then ''minimal'' else to_gemini_thinking_level intent)
      in ensure_gemini_output_floor (gemini_level_output_floor level) (cp_max_output caps)
           (set_gemini_thinking (jobj [(''thinkingLevel'', JStr level), (''includeThoughts'', JBool (level \<noteq> ''minimal''))]) m))"

definition apply_gemini_budget :: "thinking_intent \<Rightarrow> capabilities \<Rightarrow> bool \<Rightarrow> jmap \<Rightarrow> jmap" where
  "apply_gemini_budget intent caps disable m =
     (if disable then
        set_gemini_thinking (jobj [(''thinkingBudget'', jnat 0), (''includeThoughts'', JBool False)]) m
      else
        (let budget = opt_default (- 1) (to_budget intent (cp_thinking_range caps))
         in ensure_gemini_output_floor (gemini_budget_output_floor budget) (cp_max_output caps)
              (set_gemini_thinking (jobj [(''thinkingBudget'', jint budget), (''includeThoughts'', JBool True)]) m)))"

definition apply_zai :: "bool \<Rightarrow> jmap \<Rightarrow> jmap" where
  "apply_zai disable m =
     (if disable then bt_remove ''thinking'' (bt_insert ''enable_thinking'' (JBool False) m)
      else bt_insert ''thinking'' (jobj [(''type'', JStr ''enabled'')]) m)"

definition apply_qwen :: "thinking_intent \<Rightarrow> thinking_range option \<Rightarrow> bool \<Rightarrow> jmap \<Rightarrow> jmap" where
  "apply_qwen intent rng disable m =
     (if disable then bt_insert ''enable_thinking'' (JBool False) m
      else
        (let m1 = bt_insert ''enable_thinking'' (JBool True) m
         in case to_budget intent rng of
              Some budget \<Rightarrow> if 0 < budget then bt_insert ''thinking_budget'' (jint budget) m1 else m1
            | None \<Rightarrow> m1))"

definition apply_deepseek :: "thinking_intent \<Rightarrow> bool \<Rightarrow> jmap \<Rightarrow> jmap" where
  "apply_deepseek intent disable m =
     (if disable then bt_insert ''thinking'' disabled m
      else bt_insert ''reasoning_effort''
             (JStr (if to_level intent \<in> {Some ''xhigh'', Some ''max''} then ''max'' else ''high''))
             (bt_insert ''thinking'' (jobj [(''type'', JStr ''enabled'')]) m))"

definition apply_kimi :: "thinking_intent \<Rightarrow> bool \<Rightarrow> jmap \<Rightarrow> jmap" where
  "apply_kimi intent disable m =
     (if disable then bt_insert ''thinking'' disabled m
      else case to_kimi_reasoning_effort intent of
        Some effort \<Rightarrow> bt_insert ''reasoning_effort'' (JStr effort) m | None \<Rightarrow> m)"

definition apply_step :: "thinking_intent \<Rightarrow> bool \<Rightarrow> jmap \<Rightarrow> jmap" where
  "apply_step intent disable m =
     (if disable then m
      else case to_level intent of
        Some level \<Rightarrow> bt_insert ''reasoning_effort'' (JStr (if level = ''xhigh'' \<or> level = ''max'' then ''high'' else level)) m
      | None \<Rightarrow> m)"

definition apply_tokenrouter :: "thinking_intent \<Rightarrow> bool \<Rightarrow> jmap \<Rightarrow> jmap" where
  "apply_tokenrouter intent off m =
     (if off \<or> intent = Auto then m
      else case to_level intent of Some level \<Rightarrow> bt_insert ''reasoning_effort'' (JStr level) m | None \<Rightarrow> m)"

definition apply_format ::
    "thinking_format \<Rightarrow> thinking_intent \<Rightarrow> capabilities \<Rightarrow> string list option \<Rightarrow> jmap \<Rightarrow> jmap" where
  "apply_format format intent caps supported m =
     (let off = (intent = Off);
          effective = (if off \<and> \<not> cp_thinking_can_disable caps then Level ''minimal'' else intent);
          disable = (off \<and> cp_thinking_can_disable caps)
      in case format of
           TfOpenAi \<Rightarrow>
             if disable then bt_insert ''reasoning_effort'' (JStr ''none'') m
             else (case to_level effective of
                     Some level \<Rightarrow> bt_insert ''reasoning_effort'' (JStr (normalize_openai_level level supported)) m
                   | None \<Rightarrow> m)
         | TfClaudeAdaptive \<Rightarrow> apply_claude_adaptive effective disable m
         | TfClaudeBudget \<Rightarrow> apply_budget_thinking effective (cp_thinking_range caps) disable m
         | TfHunyuan \<Rightarrow> apply_budget_thinking effective (cp_thinking_range caps) disable m
         | TfGeminiLevel \<Rightarrow> apply_gemini_level effective caps off m
         | TfGeminiBudget \<Rightarrow> apply_gemini_budget effective caps disable m
         | TfZai \<Rightarrow> apply_zai disable m
         | TfQwen \<Rightarrow> apply_qwen effective (cp_thinking_range caps) disable m
         | TfDeepSeek \<Rightarrow> apply_deepseek effective disable m
         | TfKimi \<Rightarrow> apply_kimi effective disable m
         | TfMiniMax \<Rightarrow> bt_insert ''thinking'' (jobj [(''type'', JStr (if disable then ''disabled'' else ''adaptive''))]) m
         | TfStep \<Rightarrow> apply_step effective disable m
         | TfTokenRouter \<Rightarrow> apply_tokenrouter effective off m
         | TfKiro \<Rightarrow> m
         | TfUnrecognized \<Rightarrow> m)"

definition apply_thinking ::
    "capability_table \<Rightarrow> model_registry \<Rightarrow> wire_format \<Rightarrow> string \<Rightarrow> string \<Rightarrow> json \<Rightarrow> thinking_intent option \<Rightarrow> json" where
  "apply_thinking t rg target provider model body intent =
     (case body of
        JObj m \<Rightarrow>
          (let (clean_model, suffix) = parse_suffix model; caps = for_model t rg provider clean_model
           in if \<not> cp_reasoning caps then JObj (strip_all m)
              else case opt_or (opt_or suffix intent) (extract_thinking_object m) of
                None \<Rightarrow> JObj m
              | Some resolved \<Rightarrow> JObj (apply_format (opt_default (native_format target) (cp_thinking_format caps))
                    resolved caps (thinking_levels t rg provider clean_model) (strip_all m)))
      | _ \<Rightarrow> body)"

section \<open>A stripped body\<close>

definition unspoken :: "jmap \<Rightarrow> bool" where
  "unspoken m \<longleftrightarrow> (\<forall>k \<in> set THINKING_KEYS. map_of m k = None)
     \<and> obj_get m [''generationConfig'', ''thinkingConfig''] = None
     \<and> obj_get m [''request'', ''generationConfig'', ''thinkingConfig''] = None"

lemma map_of_in_member:
  "map_of (in_member k f m) k' =
     (if k' = k then (case map_of m k of Some (JObj inner) \<Rightarrow> Some (JObj (f inner)) | v \<Rightarrow> v) else map_of m k')"
  by (auto simp: in_member_def map_simps split: option.split json.split)

lemma obj_get_step:
  "ks \<noteq> [] \<Longrightarrow> obj_get m (k # ks) = (case map_of m k of Some (JObj inner) \<Rightarrow> obj_get inner ks | _ \<Rightarrow> None)"
proof -
  have "foldl (\<lambda>v k. Option.bind v (\<lambda>w. jget w k)) None ks' = None" for ks' by (induction ks') auto
  then show "ks \<noteq> [] \<Longrightarrow> ?thesis"
    by (cases ks) (auto simp: obj_get_def split: option.split json.split)
qed

lemma obj_get_one [simp]: "obj_get m [k] = map_of m k"
  by (simp add: obj_get_def)

lemma obj_get_in_member:
  "ks \<noteq> [] \<Longrightarrow> obj_get (in_member k f m) (k' # ks) =
     (if k' = k then (case map_of m k of Some (JObj inner) \<Rightarrow> obj_get (f inner) ks | _ \<Rightarrow> None) else obj_get m (k' # ks))"
  by (simp add: obj_get_step map_of_in_member split: option.split json.split)

lemma strip_all_unspoken: "unspoken (strip_all m)"
proof -
  have "k \<noteq> ''request'' \<and> k \<noteq> ''generationConfig''" if "k \<in> set THINKING_KEYS" for k
    using that by (auto simp: THINKING_KEYS_def)
  then have "map_of (strip_all m) k = None" if "k \<in> set THINKING_KEYS" for k
    using that by (simp add: strip_all_def map_of_in_member map_of_fold_remove)
  moreover have "obj_get (strip_all m) [''generationConfig'', ''thinkingConfig''] = None"
    by (simp add: strip_all_def obj_get_in_member map_simps split: option.split json.split)
  moreover have "obj_get (strip_all m) [''request'', ''generationConfig'', ''thinkingConfig''] = None"
    by (simp add: strip_all_def obj_get_in_member map_simps split: option.split json.split)
  ultimately show ?thesis by (simp add: unspoken_def)
qed

lemma unspoken_keys:
  assumes "unspoken m"
  shows "map_of m ''thinking'' = None" "map_of m ''reasoning_effort'' = None" "map_of m ''reasoning'' = None"
    "map_of m ''thinkingConfig'' = None" "map_of m ''enable_thinking'' = None" "map_of m ''thinking_budget'' = None"
    "map_of m ''output_config'' = None"
  using assms by (simp_all add: unspoken_def THINKING_KEYS_def)

section \<open>What the target reads\<close>

text \<open>Specification: the intent a reader of the target dialect finds, for every dialect and intent. An empty effort
  says nothing.\<close>

definition effort_says :: "string \<Rightarrow> thinking_intent option" where
  "effort_says effort = (if effort = [] then None else Some (intent_from_effort effort))"

definition spent_budget :: "thinking_intent \<Rightarrow> thinking_range option \<Rightarrow> nat" where
  "spent_budget intent rng =
     (case to_budget intent rng of Some b \<Rightarrow> if 0 < b then nat b else 8192 | None \<Rightarrow> 8192)"

definition heard ::
    "thinking_format \<Rightarrow> thinking_intent \<Rightarrow> capabilities \<Rightarrow> string list option \<Rightarrow> thinking_intent option" where
  "heard format intent caps supported =
     (let off = (intent = Off); disable = (off \<and> cp_thinking_can_disable caps);
          eff = (if off \<and> \<not> cp_thinking_can_disable caps then Level ''minimal'' else intent);
          spoken = opt_default [] (to_level eff)
      in if format \<in> {TfKiro, TfUnrecognized} then None
         else if format = TfTokenRouter then (if off \<or> intent = Auto then None else effort_says spoken)
         else if format = TfGeminiLevel then Some (Level (ascii_lower (if off then ''minimal'' else to_gemini_thinking_level eff)))
         else if format = TfStep then (if disable then None
           else effort_says (if spoken = ''xhigh'' \<or> spoken = ''max'' then ''high'' else spoken))
         else if disable then Some Off
         else case format of
           TfOpenAi \<Rightarrow> effort_says (normalize_openai_level spoken supported)
         | TfClaudeAdaptive \<Rightarrow> opt_or (effort_says (if spoken = ''xhigh'' then ''high'' else spoken)) (Some Auto)
         | TfGeminiBudget \<Rightarrow>
             (let b = opt_default (- 1) (to_budget eff (cp_thinking_range caps))
              in Some (if b = 0 then Off else if b < 0 then Auto else Budget (nat b)))
         | TfQwen \<Rightarrow>
             (case to_budget eff (cp_thinking_range caps) of
                Some b \<Rightarrow> Some (if 0 < b then Budget (nat b) else Auto) | None \<Rightarrow> Some Auto)
         | TfKimi \<Rightarrow> map_option intent_from_effort (to_kimi_reasoning_effort eff)
         | TfClaudeBudget \<Rightarrow> Some (Budget (spent_budget eff (cp_thinking_range caps)))
         | TfHunyuan \<Rightarrow> Some (Budget (spent_budget eff (cp_thinking_range caps)))
         | _ \<Rightarrow> Some Auto)"

lemma small_le: "small n = Some i \<Longrightarrow> 0 \<le> i \<and> i \<le> int i64_max"
  by (auto simp: small_def split: if_splits)

lemma asked_small: "asked_budget intent = Some b \<Longrightarrow> 0 \<le> b \<and> b \<le> int i64_max"
  by (auto simp: asked_budget_def bind_eq_Some_conv dest!: small_le split: thinking_intent.splits)

lemma clamp_small: "0 \<le> b \<Longrightarrow> b \<le> int i64_max \<Longrightarrow> 0 \<le> clamp_budget rng b \<and> clamp_budget rng b \<le> int i64_max"
  by (auto simp: clamp_budget_def Let_def bind_eq_Some_conv dest!: small_le split: option.split)

lemma to_budget_small: "to_budget intent rng = Some b \<Longrightarrow> - 1 \<le> b \<and> b \<le> int i64_max"
  using asked_small [of intent] clamp_small [of _ rng]
  by (cases intent) (force simp: to_budget_def i64_max_def)+

lemma signal_jnat: "n \<le> i64_max \<Longrightarrow> budget_signal (jnat n) = Some (int n)"
  by (simp add: budget_signal_def jnat_def i64_max_def)

lemma signal_jint: "b \<le> int i64_max \<Longrightarrow> budget_signal (jint b) = Some b"
  by (auto simp: budget_signal_def jint_def i64_max_def)

lemma spent_budget_bounds: "0 < spent_budget intent rng \<and> spent_budget intent rng \<le> i64_max"
  using to_budget_small [of intent rng] by (auto simp: spent_budget_def i64_max_def split: option.split)

lemma apply_budget_alt:
  "apply_budget_thinking intent rng False m =
     bt_insert ''thinking'' (enabled_budget (spent_budget intent rng))
       (if to_budget intent rng = Some (- 1) \<and> Option.bind (map_of m ''max_tokens'') as_u64 = None
        then bt_insert ''max_tokens'' (jnat (8192 + 4096)) m else raise_limit (spent_budget intent rng) m)"
  by (auto simp: apply_budget_thinking_def spent_budget_def raise_limit_def split: option.split)

lemma gemini_config_cong:
  "map_of m' ''thinkingConfig'' = map_of m ''thinkingConfig'' \<Longrightarrow>
   map_of m' ''generationConfig'' = map_of m ''generationConfig'' \<Longrightarrow>
   map_of m' ''request'' = map_of m ''request'' \<Longrightarrow> gemini_thinking_config m' = gemini_thinking_config m"
  by (simp add: gemini_thinking_config_def obj_get_step)

lemma gemini_config_keys:
  "k \<notin> {''thinkingConfig'', ''generationConfig'', ''request''} \<Longrightarrow>
     gemini_thinking_config (bt_insert k v m) = gemini_thinking_config m"
  "k \<notin> {''thinkingConfig'', ''generationConfig'', ''request''} \<Longrightarrow>
     gemini_thinking_config (bt_remove k m) = gemini_thinking_config m"
  by (rule gemini_config_cong; auto simp: map_simps)+

lemma unspoken_gemini: "unspoken m \<Longrightarrow> gemini_thinking_config m = None"
  by (simp add: gemini_thinking_config_def unspoken_def THINKING_KEYS_def)

lemmas reading = extract_thinking_object_def obj_get_step unspoken_keys map_simps read_claude_def read_effort_def
  read_gemini_def read_qwen_def gemini_config_keys unspoken_gemini non_empty_str_def

lemma says_nothing: "unspoken m \<Longrightarrow> extract_thinking_object m = None"
  by (simp add: reading)

lemma says_effort: "unspoken m \<Longrightarrow> extract_thinking_object (bt_insert ''reasoning_effort'' (JStr e) m) = effort_says e"
  by (cases e) (simp_all add: reading effort_says_def)

lemma says_disabled: "unspoken m \<Longrightarrow> extract_thinking_object (bt_insert ''thinking'' disabled m) = Some Off"
  by (simp add: reading disabled_def jobj_def)

lemma says_kind: "unspoken m \<Longrightarrow> kind \<in> {''adaptive'', ''enabled''} \<Longrightarrow>
   extract_thinking_object (bt_insert ''thinking'' (jobj [(''type'', JStr kind)]) m) = Some Auto"
  by (auto simp: reading jobj_def positive_budget_def)

lemma says_adaptive: "unspoken m \<Longrightarrow>
   extract_thinking_object (bt_insert ''output_config'' (jobj [(''effort'', JStr e)])
     (bt_insert ''thinking'' (jobj [(''type'', JStr ''adaptive'')]) m)) = opt_or (effort_says e) (Some Auto)"
  by (cases e) (simp_all add: reading jobj_def effort_says_def positive_budget_def)

lemma says_budget: "unspoken m \<Longrightarrow> 0 < b \<Longrightarrow> b \<le> i64_max \<Longrightarrow>
   extract_thinking_object (bt_insert ''thinking'' (enabled_budget b) m) = Some (Budget b)"
  by (simp add: reading enabled_budget_def jobj_def positive_budget_def signal_jnat)

lemma unspoken_max_tokens: "unspoken m \<Longrightarrow> unspoken (bt_insert ''max_tokens'' v m)"
  by (simp add: unspoken_def THINKING_KEYS_def obj_get_step map_simps)

lemma unspoken_raise: "unspoken m \<Longrightarrow> unspoken (raise_limit b m)"
  by (simp add: raise_limit_def unspoken_max_tokens split: option.split)

lemma says_switch: "unspoken m \<Longrightarrow> extract_thinking_object (bt_insert ''enable_thinking'' (JBool b) m) = Some (if b then Auto else Off)"
  by (cases b) (simp_all add: reading positive_budget_def)

lemma says_switch_budget: "unspoken m \<Longrightarrow> 0 < b \<Longrightarrow> b \<le> int i64_max \<Longrightarrow>
   extract_thinking_object (bt_insert ''thinking_budget'' (jint b) (bt_insert ''enable_thinking'' (JBool True) m)) = Some (Budget (nat b))"
  by (simp add: reading positive_budget_def signal_jint)

lemma says_zai_off: "unspoken m \<Longrightarrow>
   extract_thinking_object (bt_remove ''thinking'' (bt_insert ''enable_thinking'' (JBool False) m)) = Some Off"
  by (simp add: reading positive_budget_def)

lemma in_generation_config_keys:
  "k \<noteq> ''generationConfig'' \<Longrightarrow> k \<noteq> ''request'' \<Longrightarrow> map_of (in_generation_config f m) k = map_of m k"
  by (simp add: in_generation_config_def in_config_def map_simps split: option.split json.split)

lemma opt_or_none [simp]: "opt_or x None = x"
  by (cases x) simp_all

lemma says_gemini: "unspoken m \<Longrightarrow>
   extract_thinking_object (in_generation_config f m) = read_gemini (in_generation_config f m)"
  by (simp add: extract_thinking_object_def obj_get_step in_generation_config_keys unspoken_keys read_claude_def
      read_effort_def read_qwen_def non_empty_str_def)

definition config_of :: "jmap \<Rightarrow> jmap" where
  "config_of m = (case map_of m ''generationConfig'' of Some (JObj config) \<Rightarrow> config | _ \<Rightarrow> [])"

lemma in_config_alt: "in_config f m = bt_insert ''generationConfig'' (JObj (f (config_of m))) m"
  by (simp add: in_config_def config_of_def split: option.split json.split)

lemma gemini_config_written:
  assumes "unspoken m" "\<And>config. map_of (f config) ''thinkingConfig'' = Some c" "is_object c"
  shows "gemini_thinking_config (in_generation_config f m) = Some c"
proof (cases "\<exists>r. map_of m ''request'' = Some (JObj r)")
  case True
  then obtain r where r: "map_of m ''request'' = Some (JObj r)" by blast
  have "map_of m ''thinkingConfig'' = None" "obj_get m [''generationConfig'', ''thinkingConfig''] = None"
    using assms(1) by (simp_all add: unspoken_def THINKING_KEYS_def)
  then show ?thesis using r assms(3)
    by (simp add: gemini_thinking_config_def in_generation_config_def in_config_alt obj_get_step map_simps assms(2))
next
  case False
  have "map_of m ''thinkingConfig'' = None" using assms(1) by (simp add: unspoken_keys)
  moreover have "in_generation_config f m = in_config f m"
    using False by (simp add: in_generation_config_def split: option.split json.split)
  ultimately show ?thesis using assms(3)
    by (simp add: gemini_thinking_config_def in_config_alt obj_get_step map_simps assms(2))
qed

lemma read_gemini_level:
  "gemini_thinking_config m = Some (jobj [(''thinkingLevel'', JStr level), (''includeThoughts'', b)]) \<Longrightarrow>
     read_gemini m = Some (Level (ascii_lower level))"
  by (simp add: read_gemini_def jobj_def map_simps get_str_def)

lemma read_gemini_budget:
  "gemini_thinking_config m = Some (jobj [(''thinkingBudget'', v), (''includeThoughts'', b)]) \<Longrightarrow>
     budget_signal v = Some i \<Longrightarrow> read_gemini m = Some (if i = 0 then Off else if i < 0 then Auto else Budget (nat i))"
  by (simp add: read_gemini_def jobj_def map_simps get_str_def)

lemma is_object_jobj [simp]: "is_object (jobj kvs)"
  by (simp add: jobj_def)

lemma config_of_insert [simp]: "config_of (bt_insert ''generationConfig'' (JObj c) m) = c"
  by (simp add: config_of_def map_simps)

lemma in_config_twice: "in_config g (in_config f m) = in_config (\<lambda>config. g (f config)) m"
  by (simp add: in_config_alt bt_insert_twice)

lemma in_generation_config_twice:
  "in_generation_config g (in_generation_config f m) = in_generation_config (\<lambda>config. g (f config)) m"
  by (simp add: in_generation_config_def in_config_twice in_config_alt map_simps bt_insert_twice split: option.split json.split)

lemma floor_written:
  "ensure_gemini_output_floor least limit (set_gemini_thinking config m) =
     in_generation_config (\<lambda>c.
       let c' = bt_insert ''thinkingConfig'' config c; target = min least limit
       in case Option.bind (map_of c' ''maxOutputTokens'') as_u64 of
            Some current \<Rightarrow> if current < target then bt_insert ''maxOutputTokens'' (jnat target) c' else c'
          | None \<Rightarrow> bt_insert ''maxOutputTokens'' (jnat target) c') m"
  by (simp add: ensure_gemini_output_floor_def set_gemini_thinking_def in_generation_config_twice Let_def)

lemma gemini_read_back:
  assumes "unspoken m" "is_object config"
  shows "gemini_thinking_config (set_gemini_thinking config m) = Some config"
    "gemini_thinking_config (ensure_gemini_output_floor least limit (set_gemini_thinking config m)) = Some config"
    "extract_thinking_object (set_gemini_thinking config m) = read_gemini (set_gemini_thinking config m)"
    "extract_thinking_object (ensure_gemini_output_floor least limit (set_gemini_thinking config m)) =
       read_gemini (ensure_gemini_output_floor least limit (set_gemini_thinking config m))"
  using assms
  by (simp_all add: says_gemini floor_written)
    (auto simp: set_gemini_thinking_def says_gemini map_simps Let_def intro!: gemini_config_written split: option.split)

text \<open>A budget of zero, as the suffix \<open>(0)\<close> gives it, is not the switch: it is written as the middle budget.\<close>

lemma zero_budget_spends:
  "thinking_suffix_intent ''0'' = Some (Budget 0)"
  "cp_thinking_range caps = None \<Longrightarrow> heard TfClaudeBudget (Budget 0) caps None = Some (Budget 8192)"
  by (simp_all add: thinking_suffix_intent_def is_digit_def parse_u64_def parse_unsigned_def digits_val_def digit_val_def u64_max_def heard_def Let_def spent_budget_def to_budget_def
      asked_budget_def small_def clamp_budget_def i64_max_def)

lemma effort_says_none: "effort_says ''none'' = Some Off"
  by code_simp

lemma effort_says_high: "effort_says ''high'' = Some (Level ''high'')" "effort_says ''max'' = Some (Level ''max'')"
  by code_simp+

lemma kimi_effort: "to_kimi_reasoning_effort intent = Some e \<Longrightarrow> effort_says e = Some (intent_from_effort e)"
  by (auto simp: to_kimi_reasoning_effort_def bind_eq_Some_conv effort_says_def split: if_splits)

lemma spend_read:
  assumes "unspoken m"
  shows "extract_thinking_object (apply_budget_thinking eff rng False m) = Some (Budget (spent_budget eff rng))"
  using assms spent_budget_bounds [of eff rng]
  by (simp add: apply_budget_alt says_budget unspoken_max_tokens unspoken_raise)

lemma gemini_budget_read:
  assumes "unspoken m"
  shows "extract_thinking_object (apply_gemini_budget eff caps False m) =
     (let b = opt_default (- 1) (to_budget eff (cp_thinking_range caps))
      in Some (if b = 0 then Off else if b < 0 then Auto else Budget (nat b)))"
proof -
  have "opt_default (- 1) (to_budget eff (cp_thinking_range caps)) \<le> int i64_max"
    using to_budget_small [of eff "cp_thinking_range caps"] by (cases "to_budget eff (cp_thinking_range caps)") (auto simp: i64_max_def)
  then show ?thesis
    by (simp add: apply_gemini_budget_def Let_def gemini_read_back [OF assms] read_gemini_budget signal_jint)
qed

lemma gemini_off_read:
  assumes "unspoken m"
  shows "extract_thinking_object (apply_gemini_budget eff caps True m) = Some Off"
  by (simp add: apply_gemini_budget_def gemini_read_back [OF assms] read_gemini_budget signal_jnat)

lemma gemini_level_read:
  assumes "unspoken m"
  shows "extract_thinking_object (apply_gemini_level eff caps off m) =
     Some (Level (ascii_lower (if off then ''minimal'' else to_gemini_thinking_level eff)))"
  by (simp add: apply_gemini_level_def Let_def gemini_read_back [OF assms] read_gemini_level)

lemma qwen_read:
  assumes "unspoken m"
  shows "extract_thinking_object (apply_qwen eff rng False m) =
     (case to_budget eff rng of Some b \<Rightarrow> Some (if 0 < b then Budget (nat b) else Auto) | None \<Rightarrow> Some Auto)"
  using to_budget_small [of eff rng]
  by (simp add: apply_qwen_def says_switch [OF assms] says_switch_budget [OF assms] split: option.split)

lemma deepseek_read:
  assumes "unspoken m"
  shows "extract_thinking_object (apply_deepseek eff False m) = Some Auto"
  by (simp add: apply_deepseek_def reading positive_budget_def jobj_def assms)

text \<open>Whatever intent is written, in whatever dialect, a reader of the written body finds exactly the intent the
  specification \<open>heard\<close> names: off where the dialect has a switch and the model can stop, the minimal level
  where it cannot, the clamped budget, the effort the dialect has a word for; nothing that stood in the body before
  is read.\<close>

lemma thinking_read_back:
  "extract_thinking_object (apply_format format intent caps supported (strip_all m)) = heard format intent caps supported"
proof -
  have u: "unspoken (strip_all m)" by (rule strip_all_unspoken)
  define off where "off = (intent = Off)"
  define disable where "disable = (off \<and> cp_thinking_can_disable caps)"
  define eff where "eff = (if off \<and> \<not> cp_thinking_can_disable caps then Level ''minimal'' else intent)"
  have eff: "\<not> disable \<Longrightarrow> eff \<noteq> Off" by (auto simp: disable_def eff_def off_def)
  have same: "\<not> off \<Longrightarrow> eff = intent" by (simp add: eff_def)
  from eff have spoken: "\<not> disable \<Longrightarrow> \<exists>l. to_level eff = Some l" by (cases eff) (auto simp: to_level_def)
  note said = says_nothing [OF u] says_effort [OF u] says_disabled [OF u] says_kind [OF u] says_adaptive [OF u]
    says_switch [OF u] says_zai_off [OF u] spend_read [OF u] gemini_budget_read [OF u] gemini_off_read [OF u]
    gemini_level_read [OF u] qwen_read [OF u] deepseek_read [OF u]
  note unfold = apply_claude_adaptive_def apply_step_def apply_tokenrouter_def apply_kimi_def apply_zai_def
  show ?thesis
    unfolding apply_format_def heard_def Let_def unfolding off_def [symmetric]
    unfolding disable_def [symmetric] eff_def [symmetric]
  proof (cases disable, goal_cases)
    case 1
    then have "off" by (simp add: disable_def)
    with 1 show ?case
      by (cases format) (simp_all add: said says_disabled [OF u, unfolded disabled_def] unfold effort_says_none apply_budget_thinking_def apply_qwen_def apply_deepseek_def)
  next
    case 2
    with spoken obtain l where "to_level eff = Some l" by blast
    with 2 same show ?case
      by (cases format) (auto simp: said unfold kimi_effort split: option.split)
  qed
qed

text \<open>C36: A budget written in Anthropic's shape is positive and, wherever the request states an output limit,
  strictly below it.\<close>

theorem thinking_fits:
  assumes "format = TfClaudeBudget \<or> format = TfHunyuan" "intent = Off \<Longrightarrow> \<not> cp_thinking_can_disable caps"
  shows "\<exists>b > 0. map_of (apply_format format intent caps supported m) ''thinking'' = Some (enabled_budget b) \<and>
     (\<forall>limit. Option.bind (map_of (apply_format format intent caps supported m) ''max_tokens'') as_u64 = Some limit \<longrightarrow> b < limit)"
proof -
  have "\<exists>eff. apply_format format intent caps supported m = apply_budget_thinking eff (cp_thinking_range caps) False m"
    using assms by (auto simp: apply_format_def Let_def)
  then obtain eff where written: "apply_format format intent caps supported m =
      apply_budget_thinking eff (cp_thinking_range caps) False m" by blast
  define b where "b = spent_budget eff (cp_thinking_range caps)"
  have "0 < b" using spent_budget_bounds b_def by simp
  moreover have "b < limit" if "Option.bind (map_of (apply_budget_thinking eff (cp_thinking_range caps) False m) ''max_tokens'') as_u64
      = Some limit" for limit
    using that unfolding apply_budget_alt b_def [symmetric]
    by (auto simp: raise_limit_def map_simps spent_budget_def b_def split: if_splits option.splits)
  ultimately show ?thesis
    unfolding written apply_budget_alt b_def [symmetric] by (auto simp: map_simps)
qed

theorem thinking_fits_witness:
  "\<exists>b > 0. map_of (apply_format TfClaudeBudget (Level ''high'') DEFAULT_CAPABILITIES None [(''max_tokens'', jnat 1000)])
       ''thinking'' = Some (enabled_budget b) \<and>
     (\<forall>limit. Option.bind (map_of (apply_format TfClaudeBudget (Level ''high'') DEFAULT_CAPABILITIES None
       [(''max_tokens'', jnat 1000)]) ''max_tokens'') as_u64 = Some limit \<longrightarrow> b < limit)"
  by (rule thinking_fits) simp_all

end
