(* ===== verification/Gemini_Schema.thy ===== *)
theory Gemini_Schema
  imports Claude_Request Line_Stream
begin

text \<open>
  Tool parameter schemas for Gemini (\<open>crates/translate/src/request/gemini_schema.rs\<close>): the nine
  rewritings of a schema, each applied at every level from the outside in, and the function names.
  Printing a JSON value as text is serde_json's: the parameter \<open>render_json\<close>.
\<close>

section \<open>One level of each rewriting\<close>

definition UNSUPPORTED_SCHEMA_CONSTRAINTS :: "string list" where
  "UNSUPPORTED_SCHEMA_CONSTRAINTS =
     [''minLength'', ''maxLength'', ''exclusiveMinimum'', ''exclusiveMaximum'', ''minItems'', ''maxItems'', ''format'',
      ''default'', ''examples'', ''$schema'', ''$defs'', ''definitions'', ''const'', ''$ref'', ''$comment'', ''deprecated'',
      ''readOnly'', ''writeOnly'', ''additionalProperties'', ''propertyNames'', ''patternProperties'', ''enumDescriptions'',
      ''anyOf'', ''oneOf'', ''allOf'', ''not'', ''dependencies'', ''dependentSchemas'', ''dependentRequired'', ''title'',
      ''optional'', ''if'', ''then'', ''else'', ''contentMediaType'', ''contentEncoding'', ''cornerRadius'', ''fillColor'',
      ''fontFamily'', ''fontSize'', ''fontWeight'', ''gap'', ''padding'', ''strokeColor'', ''strokeThickness'', ''textColor'']"

definition const_to_enum :: "jmap \<Rightarrow> jmap" where
  "const_to_enum m =
     (case (map_of m ''const'', map_of m ''enum'') of
        (Some constant, None) \<Rightarrow> bt_remove ''const'' (bt_insert ''enum'' (JArr [constant]) m)
      | _ \<Rightarrow> m)"

definition or_insert :: "string \<Rightarrow> json \<Rightarrow> jmap \<Rightarrow> jmap" where
  "or_insert k v m = (if map_of m k = None then bt_insert k v m else m)"

definition enum_to_strings :: "(json \<Rightarrow> string) \<Rightarrow> jmap \<Rightarrow> jmap" where
  "enum_to_strings render_json m =
     (case map_of m ''enum'' of
        Some (JArr values) \<Rightarrow>
          or_insert ''type'' (JStr ''string'')
            (bt_insert ''enum'' (JArr (map (\<lambda>v. JStr (opt_default (render_json v) (as_str v))) values)) m)
      | _ \<Rightarrow> m)"

definition merged_properties :: "json list \<Rightarrow> jmap" where
  "merged_properties items =
     fold (\<lambda>item acc. case Option.bind (jget item ''properties'') as_object of
              Some properties \<Rightarrow> fold (\<lambda>(k, v). bt_insert k v) properties acc | None \<Rightarrow> acc) items []"

definition merged_required :: "json list \<Rightarrow> json list" where
  "merged_required items =
     fold (\<lambda>item acc. case Option.bind (jget item ''required'') as_array of
              Some required \<Rightarrow> fold (\<lambda>field acc. if field \<in> set acc then acc else acc @ [field]) required acc
            | None \<Rightarrow> acc) items []"

definition member_object :: "jmap \<Rightarrow> string \<Rightarrow> jmap" where
  "member_object m k = opt_default [] (Option.bind (map_of m k) as_object)"

definition member_array :: "jmap \<Rightarrow> string \<Rightarrow> json list" where
  "member_array m k = opt_default [] (Option.bind (map_of m k) as_array)"

definition merge_all_of :: "jmap \<Rightarrow> jmap" where
  "merge_all_of m =
     (case map_of m ''allOf'' of
        Some (JArr items) \<Rightarrow>
          (let m1 = bt_remove ''allOf'' m;
               m2 = (if merged_properties items = [] then m1
                     else bt_insert ''properties''
                            (JObj (fold (\<lambda>(k, v). bt_insert k v) (merged_properties items) (member_object m1 ''properties''))) m1)
           in if merged_required items = [] then m2
              else bt_insert ''required'' (JArr (member_array m2 ''required'' @ merged_required items)) m2)
      | _ \<Rightarrow> m)"

definition schema_score :: "json \<Rightarrow> int" where
  "schema_score item =
     (let kind = get_str item ''type''
      in if kind = Some ''object'' \<or> jget item ''properties'' \<noteq> None then 3
         else if kind = Some ''array'' \<or> jget item ''items'' \<noteq> None then 2
         else if kind \<noteq> None \<and> kind \<noteq> Some ''null'' then 1 else 0)"

text \<open>The first item of the highest score.\<close>

definition select_best :: "json list \<Rightarrow> nat" where
  "select_best items =
     fst (foldl (\<lambda>(best, score) (i, item). if schema_score item > score then (i, schema_score item) else (best, score))
            (0, - 1) (enumerate 0 items))"

definition flatten_keyword :: "string \<Rightarrow> jmap \<Rightarrow> jmap" where
  "flatten_keyword keyword m =
     (case map_of m keyword of
        Some (JArr items) \<Rightarrow>
          (let non_null = filter (\<lambda>item. is_object item \<and> get_str item ''type'' \<noteq> Some ''null'') items
           in if non_null = [] then m
              else (case non_null ! select_best non_null of
                      JObj members \<Rightarrow> fold (\<lambda>(k, v). bt_insert k v) members (bt_remove keyword m)
                    | _ \<Rightarrow> bt_remove keyword m))
      | _ \<Rightarrow> m)"

definition flatten_any_of_one_of :: "jmap \<Rightarrow> jmap" where
  "flatten_any_of_one_of m = flatten_keyword ''oneOf'' (flatten_keyword ''anyOf'' m)"

definition flatten_type_arrays :: "jmap \<Rightarrow> jmap" where
  "flatten_type_arrays m =
     (case map_of m ''type'' of
        Some (JArr types) \<Rightarrow>
          bt_insert ''type'' (opt_default (JStr ''string'') (find (\<lambda>kind. as_str kind \<noteq> Some ''null'') types)) m
      | _ \<Rightarrow> m)"

definition ensure_object_type :: "jmap \<Rightarrow> jmap" where
  "ensure_object_type m =
     (if map_of m ''properties'' \<noteq> None \<and> map_of m ''type'' = None then bt_insert ''type'' (JStr ''object'') m else m)"

definition supported_key :: "string \<Rightarrow> bool" where
  "supported_key k \<longleftrightarrow> k \<notin> set UNSUPPORTED_SCHEMA_CONSTRAINTS \<and> \<not> starts_with k ''x-''"

definition remove_unsupported_keywords :: "jmap \<Rightarrow> jmap" where
  "remove_unsupported_keywords m = filter (\<lambda>e. supported_key (fst e)) m"

definition cleanup_required :: "jmap \<Rightarrow> jmap" where
  "cleanup_required m =
     (case (map_of m ''required'', map_of m ''properties'') of
        (Some (JArr required), Some (JObj properties)) \<Rightarrow>
          (let valid = filter (\<lambda>field. case as_str field of Some name \<Rightarrow> map_of properties name \<noteq> None | None \<Rightarrow> False) required
           in if valid = [] then bt_remove ''required'' m else bt_insert ''required'' (JArr valid) m)
      | _ \<Rightarrow> m)"

definition reason_property :: json where
  "reason_property = jobj [(''reason'', jobj [(''type'', JStr ''string''),
     (''description'', JStr ''Brief explanation of why you are calling this tool'')])]"

definition needs_placeholder :: "jmap \<Rightarrow> bool" where
  "needs_placeholder m \<longleftrightarrow> Option.bind (map_of m ''type'') as_str = Some ''object'' \<and> member_object m ''properties'' = []"

definition add_placeholders :: "jmap \<Rightarrow> jmap" where
  "add_placeholders m =
     (if needs_placeholder m
      then bt_insert ''required'' (JArr [JStr ''reason'']) (bt_insert ''properties'' reason_property m) else m)"

section \<open>Every level\<close>

datatype schema_phase =
    ConstToEnum | EnumToStrings | MergeAllOf | FlattenAnyOf | FlattenTypes | EnsureObject | RemoveUnsupported
  | CleanupRequired | AddPlaceholders

fun phase_step :: "(json \<Rightarrow> string) \<Rightarrow> schema_phase \<Rightarrow> jmap \<Rightarrow> jmap" where
  "phase_step render_json ConstToEnum = const_to_enum"
| "phase_step render_json EnumToStrings = enum_to_strings render_json"
| "phase_step render_json MergeAllOf = merge_all_of"
| "phase_step render_json FlattenAnyOf = flatten_any_of_one_of"
| "phase_step render_json FlattenTypes = flatten_type_arrays"
| "phase_step render_json EnsureObject = ensure_object_type"
| "phase_step render_json RemoveUnsupported = remove_unsupported_keywords"
| "phase_step render_json CleanupRequired = cleanup_required"
| "phase_step render_json AddPlaceholders = add_placeholders"

text \<open>A rewriting may lift the schemas below to the level it rewrites, so the recursion is not structural: what it
  decreases is the number of objects on a path. The placeholder adds two.\<close>

fun phase_depth :: "schema_phase \<Rightarrow> json \<Rightarrow> nat" where
  "phase_depth p (JObj m) =
     Suc (foldr max (map (\<lambda>(k, v). phase_depth p v) m) (if p = AddPlaceholders \<and> needs_placeholder m then 2 else 0))"
| "phase_depth p (JArr xs) = foldr max (map (phase_depth p) xs) 0"
| "phase_depth p _ = 0"

definition below :: "schema_phase \<Rightarrow> nat \<Rightarrow> jmap \<Rightarrow> bool" where
  "below p n m \<longleftrightarrow> (\<forall>e \<in> set m. phase_depth p (snd e) \<le> n)"

lemma foldr_max_le: "foldr max xs (a::nat) \<le> n \<longleftrightarrow> (\<forall>x \<in> set xs. x \<le> n) \<and> a \<le> n"
  by (induction xs) auto

lemma depth_JObj_le: "phase_depth p (JObj m) \<le> Suc n \<longleftrightarrow>
    below p n m \<and> (p = AddPlaceholders \<longrightarrow> needs_placeholder m \<longrightarrow> 2 \<le> n)"
  by (auto simp: foldr_max_le below_def)

lemma depth_JObj_pos: "phase_depth p (JObj m) \<le> n \<longleftrightarrow> 0 < n \<and> phase_depth p (JObj m) \<le> Suc (n - 1)"
  by (cases n) auto

lemma depth_JArr_le: "phase_depth p (JArr xs) \<le> n \<longleftrightarrow> (\<forall>x \<in> set xs. phase_depth p x \<le> n)"
  by (simp add: foldr_max_le)

lemma below_bt_insert: "below p n m \<Longrightarrow> phase_depth p v \<le> n \<Longrightarrow> below p n (bt_insert k v m)"
  using set_bt_insert [of k v m] by (force simp: below_def)

lemma below_bt_remove: "below p n m \<Longrightarrow> below p n (bt_remove k m)"
  by (auto simp: below_def bt_remove_def)

lemma below_fold_insert: "below p n kvs \<Longrightarrow> below p n m \<Longrightarrow> below p n (fold (\<lambda>(k, v). bt_insert k v) kvs m)"
  using set_fold_bt_insert [of kvs m] by (auto simp: below_def)

lemma below_lookup: "below p n m \<Longrightarrow> map_of m k = Some v \<Longrightarrow> phase_depth p v \<le> n"
  using map_of_SomeD [of m k v] by (force simp: below_def)

lemma depth_leaf [simp]: "phase_depth p (JStr t) \<le> n"
  by simp

lemma deeper_member: "e \<in> set m \<Longrightarrow> phase_depth p (snd e) < phase_depth p (JObj m)"
  using depth_JObj_le [of p m "foldr max (map (\<lambda>(k, v). phase_depth p v) m) (if p = AddPlaceholders \<and> needs_placeholder m then 2 else 0)"]
  by (simp add: below_def less_Suc_eq_le)

lemma deeper: "phase_depth p (JObj m) \<le> n \<Longrightarrow> map_of m k = Some v \<Longrightarrow> phase_depth p v < n"
  using map_of_SomeD [of m k v] by (cases n) (force simp: foldr_max_le)+

lemma inside: "phase_depth p (JArr xs) \<le> n \<Longrightarrow> x \<in> set xs \<Longrightarrow> phase_depth p x \<le> n"
  by (simp add: foldr_max_le)

lemma object_member: "Option.bind (jget v k) as_object = Some ps \<Longrightarrow> \<exists>m. v = JObj m \<and> map_of m k = Some (JObj ps)"
  by (cases v) (auto simp: bind_eq_Some_conv elim: as_object.elims)

lemma array_member: "Option.bind (jget v k) as_array = Some xs \<Longrightarrow> \<exists>m. v = JObj m \<and> map_of m k = Some (JArr xs)"
  by (cases v) (auto simp: bind_eq_Some_conv elim: as_array.elims)

lemma object_member_depth:
  assumes "Option.bind (jget v k) as_object = Some ps" "phase_depth p v \<le> n" "e \<in> set ps"
  shows "phase_depth p (snd e) + 2 \<le> n"
proof -
  from object_member [OF assms(1)] obtain m where m: "v = JObj m" "map_of m k = Some (JObj ps)" by blast
  with assms(2) have "phase_depth p (JObj ps) < n" using deeper by blast
  moreover have "phase_depth p (snd e) < phase_depth p (JObj ps)" using assms(3) by (rule deeper_member)
  ultimately show ?thesis by simp
qed

lemma array_member_depth:
  assumes "Option.bind (jget v k) as_array = Some xs" "phase_depth p v \<le> n" "x \<in> set xs"
  shows "phase_depth p x < n"
proof -
  from array_member [OF assms(1)] obtain m where m: "v = JObj m" "map_of m k = Some (JArr xs)" by blast
  with assms(2) have "phase_depth p (JArr xs) < n" using deeper by blast
  moreover have "phase_depth p x \<le> phase_depth p (JArr xs)" using inside [OF order_refl assms(3)] .
  ultimately show ?thesis by simp
qed

lemma merged_properties_depth:
  assumes "\<forall>item \<in> set items. phase_depth p item \<le> n"
  shows "\<forall>e \<in> set (merged_properties items). phase_depth p (snd e) + 2 \<le> n"
  unfolding merged_properties_def
proof (rule fold_keeps)
  fix item and acc :: jmap
  assume item: "item \<in> set items" and acc: "\<forall>e \<in> set acc. phase_depth p (snd e) + 2 \<le> n"
  show "\<forall>e \<in> set (case Option.bind (jget item ''properties'') as_object of
      Some properties \<Rightarrow> fold (\<lambda>(k, v). bt_insert k v) properties acc | None \<Rightarrow> acc). phase_depth p (snd e) + 2 \<le> n"
  proof (cases "Option.bind (jget item ''properties'') as_object")
    case (Some ps)
    have "\<forall>e \<in> set ps. phase_depth p (snd e) + 2 \<le> n" using object_member_depth [OF Some] item assms by blast
    then show ?thesis unfolding Some option.case using acc set_fold_bt_insert [of ps acc] by blast
  qed (use acc in simp)
qed simp

lemma set_add_fields: "set (fold (\<lambda>field acc. if field \<in> set acc then acc else acc @ [field]) fs acc) = set acc \<union> set fs"
  by (induction fs arbitrary: acc) auto

lemma merged_required_depth:
  assumes "\<forall>item \<in> set items. phase_depth p item \<le> n"
  shows "\<forall>f \<in> set (merged_required items). phase_depth p f \<le> n"
  unfolding merged_required_def
proof (rule fold_keeps)
  fix item and acc :: "json list"
  assume item: "item \<in> set items" and acc: "\<forall>f \<in> set acc. phase_depth p f \<le> n"
  show "\<forall>f \<in> set (case Option.bind (jget item ''required'') as_array of
      Some required \<Rightarrow> fold (\<lambda>field acc. if field \<in> set acc then acc else acc @ [field]) required acc
    | None \<Rightarrow> acc). phase_depth p f \<le> n"
  proof (cases "Option.bind (jget item ''required'') as_array")
    case (Some fs)
    have "\<forall>f \<in> set fs. phase_depth p f \<le> n" using array_member_depth [OF Some] item assms less_imp_le by blast
    then show ?thesis unfolding Some option.case using acc by (auto simp: set_add_fields)
  qed (use acc in simp)
qed simp

declare phase_depth.simps(1,2) [simp del]

lemma depth_JObj_below: "below p n m \<Longrightarrow> p \<noteq> AddPlaceholders \<Longrightarrow> phase_depth p (JObj m) \<le> Suc n"
  by (simp add: depth_JObj_le)

lemma in_member_object: "e \<in> set (member_object m k) \<Longrightarrow> \<exists>m'. map_of m k = Some (JObj m') \<and> e \<in> set m'"
  by (cases "map_of m k"; cases "the (map_of m k)") (auto simp: member_object_def)

lemma in_member_array: "v \<in> set (member_array m k) \<Longrightarrow> \<exists>xs. map_of m k = Some (JArr xs) \<and> v \<in> set xs"
  by (cases "map_of m k"; cases "the (map_of m k)") (auto simp: member_array_def)

lemma below_member_object: "below p n m \<Longrightarrow> e \<in> set (member_object m k) \<Longrightarrow> phase_depth p (snd e) < n"
  by (drule in_member_object) (meson below_lookup deeper_member less_le_trans)

lemma below_member_array: "below p n m \<Longrightarrow> v \<in> set (member_array m k) \<Longrightarrow> phase_depth p v \<le> n"
  by (drule in_member_array) (meson below_lookup inside)

lemma merge_below:
  assumes m: "below p n m" and p: "p \<noteq> AddPlaceholders"
  shows "below p n (merge_all_of m)"
proof (cases "\<exists>items. map_of m ''allOf'' = Some (JArr items)")
  case True
  then obtain items where items: "map_of m ''allOf'' = Some (JArr items)" by blast
  then have each: "\<forall>item \<in> set items. phase_depth p item \<le> n"
    using below_lookup [OF m items] inside by blast
  define m1 where "m1 = bt_remove ''allOf'' m"
  define props where "props = fold (\<lambda>(k, v). bt_insert k v) (merged_properties items) (member_object m1 ''properties'')"
  define m2 where "m2 = (if merged_properties items = [] then m1 else bt_insert ''properties'' (JObj props) m1)"
  have m1: "below p n m1" unfolding m1_def using m by (rule below_bt_remove)
  have m2: "below p n m2"
  proof (cases "merged_properties items")
    case (Cons e es)
    then have "phase_depth p (snd e) + 2 \<le> n" using merged_properties_depth [OF each] by auto
    then have "0 < n" by simp
    have "phase_depth p (snd e) < n" if "e \<in> set props" for e
      using that set_fold_bt_insert [of "merged_properties items" "member_object m1 ''properties''"]
        merged_properties_depth [OF each] below_member_object [OF m1] unfolding props_def by fastforce
    then have "below p (n - 1) props" using \<open>0 < n\<close> by (fastforce simp: below_def)
    then have "phase_depth p (JObj props) \<le> n" using depth_JObj_below [OF _ p, of "n - 1" props] \<open>0 < n\<close> by simp
    then show ?thesis unfolding m2_def using m1 by (simp add: below_bt_insert)
  qed (simp add: m2_def m1)
  have "phase_depth p (JArr (member_array m2 ''required'' @ merged_required items)) \<le> n"
    using below_member_array [OF m2] merged_required_depth [OF each] by (simp only: depth_JArr_le) auto
  then have "below p n (if merged_required items = [] then m2
      else bt_insert ''required'' (JArr (member_array m2 ''required'' @ merged_required items)) m2)"
    using m2 by (simp add: below_bt_insert)
  then show ?thesis
    unfolding m2_def props_def m1_def by (simp only: merge_all_of_def items option.case json.case Let_def)
qed (use m in \<open>auto simp: merge_all_of_def split: option.split json.split\<close>)

lemma select_best_in: "items \<noteq> [] \<Longrightarrow> select_best items < length items"
proof -
  have "fst (foldl (\<lambda>(best, score) (i, item). if schema_score item > score then (i, schema_score item) else (best, score))
      (b, s) (enumerate n xs)) \<in> insert b {n..<n + length xs}" for b s n xs
  proof (induction xs arbitrary: b s n)
    case (Cons x xs)
    then show ?case
      using Cons.IH [of n "schema_score x" "Suc n"] Cons.IH [of b s "Suc n"] by auto
  qed simp
  from this [of 0 "- 1" 0 items] show "items \<noteq> [] \<Longrightarrow> ?thesis" by (auto simp: select_best_def)
qed

lemma flatten_below:
  assumes m: "below p n m"
  shows "below p n (flatten_keyword keyword m)"
proof (cases "\<exists>items. map_of m keyword = Some (JArr items)")
  case True
  then obtain items where items: "map_of m keyword = Some (JArr items)" by blast
  define non_null where "non_null = filter (\<lambda>item. is_object item \<and> get_str item ''type'' \<noteq> Some ''null'') items"
  show ?thesis
  proof (cases "non_null = []")
    case False
    have "non_null ! select_best non_null \<in> set non_null" using select_best_in [OF False] by simp
    then have "non_null ! select_best non_null \<in> set items" by (auto simp: non_null_def)
    then have "phase_depth p (non_null ! select_best non_null) \<le> n"
      using below_lookup [OF m items] inside by blast
    then have "below p n members" if "non_null ! select_best non_null = JObj members" for members
      using that deeper_member [of _ members p] by (fastforce simp: below_def)
    then show ?thesis using m items False
      by (auto simp: flatten_keyword_def Let_def non_null_def [symmetric] below_fold_insert below_bt_remove split: json.split)
  qed (use m items in \<open>simp add: flatten_keyword_def non_null_def [symmetric]\<close>)
qed (use m in \<open>auto simp: flatten_keyword_def split: option.split json.split\<close>)

lemma type_arrays_below:
  assumes m: "below p n m"
  shows "below p n (flatten_type_arrays m)"
proof (cases "\<exists>types. map_of m ''type'' = Some (JArr types)")
  case True
  then obtain types where types: "map_of m ''type'' = Some (JArr types)" by blast
  have "phase_depth p (opt_default (JStr ''string'') (find (\<lambda>kind. as_str kind \<noteq> Some ''null'') types)) \<le> n"
  proof (cases "find (\<lambda>kind. as_str kind \<noteq> Some ''null'') types")
    case (Some t)
    then have "t \<in> set types" by (auto simp: find_Some_iff)
    then show ?thesis using below_lookup [OF m types] inside Some by simp
  qed simp
  then show ?thesis using m types by (simp add: flatten_type_arrays_def below_bt_insert)
qed (use m in \<open>auto simp: flatten_type_arrays_def split: option.split json.split\<close>)

lemma phase_depth_reason: "phase_depth p reason_property \<le> 2"
  by (simp add: reason_property_def jobj_def phase_depth.simps needs_placeholder_def member_object_def)

lemma phase_step_below:
  assumes m: "below p n m" and room: "p = AddPlaceholders \<Longrightarrow> needs_placeholder m \<Longrightarrow> 2 \<le> n"
  shows "below p n (phase_step render_json p m)"
proof (cases p)
  case ConstToEnum
  then show ?thesis using m below_lookup [OF m]
    by (auto simp: const_to_enum_def depth_JArr_le intro!: below_bt_remove below_bt_insert split: option.split)
next
  case EnumToStrings
  then show ?thesis using m
    by (auto simp: enum_to_strings_def or_insert_def depth_JArr_le intro!: below_bt_insert split: option.split json.split)
next
  case MergeAllOf
  then show ?thesis using merge_below [OF m] by simp
next
  case FlattenAnyOf
  then show ?thesis using flatten_below m by (simp add: flatten_any_of_one_of_def)
next
  case FlattenTypes
  then show ?thesis using type_arrays_below [OF m] by simp
next
  case EnsureObject
  then show ?thesis using m by (simp add: ensure_object_type_def below_bt_insert)
next
  case RemoveUnsupported
  then show ?thesis using m by (auto simp: remove_unsupported_keywords_def below_def)
next
  case CleanupRequired
  then show ?thesis using m below_lookup [OF m, of "''required''"] inside
    by (auto simp: cleanup_required_def Let_def depth_JArr_le intro!: below_bt_remove below_bt_insert
        split: option.split json.split)
next
  case AddPlaceholders
  then show ?thesis using m room phase_depth_reason [of p]
    by (auto simp: add_placeholders_def depth_JArr_le intro!: below_bt_insert)
qed

function (sequential) everywhere :: "(json \<Rightarrow> string) \<Rightarrow> schema_phase \<Rightarrow> json \<Rightarrow> json" where
  "everywhere render_json p (JObj m) = JObj (map (\<lambda>(k, v). (k, everywhere render_json p v)) (phase_step render_json p m))"
| "everywhere render_json p (JArr xs) = JArr (map (everywhere render_json p) xs)"
| "everywhere render_json p v = v"
  by pat_completeness auto
termination
proof (relation "measures [\<lambda>(_, p, v). phase_depth p v, \<lambda>(_, _, v). size v]", goal_cases)
  case (2 render_json p m e k v)
  define n where "n = phase_depth p (JObj m) - 1"
  have "phase_depth p (JObj m) = Suc n" by (simp add: n_def phase_depth.simps(1))
  moreover from this have "below p n m" "p = AddPlaceholders \<Longrightarrow> needs_placeholder m \<Longrightarrow> 2 \<le> n"
    using depth_JObj_le [of p m n] by simp_all
  from phase_step_below [OF this, where render_json = render_json] have "phase_depth p v \<le> n"
    using 2 by (auto simp: below_def)
  ultimately show ?case by simp
next
  case (3 render_json p xs x)
  have "size x \<le> size_list size xs" by (rule size_list_estimation' [OF 3 order_refl])
  then show ?case using inside [OF order_refl 3, of p] by (auto simp: le_less)
qed simp

definition SCHEMA_PHASES :: "schema_phase list" where
  "SCHEMA_PHASES = [ConstToEnum, EnumToStrings, MergeAllOf, FlattenAnyOf, FlattenTypes, EnsureObject, RemoveUnsupported,
     CleanupRequired, AddPlaceholders]"

definition clean_schema :: "(json \<Rightarrow> string) \<Rightarrow> json \<Rightarrow> json" where
  "clean_schema render_json schema =
     (case schema of
        JObj _ \<Rightarrow> fold (everywhere render_json) SCHEMA_PHASES schema
      | JArr _ \<Rightarrow> fold (everywhere render_json) SCHEMA_PHASES schema
      | _ \<Rightarrow> schema)"

section \<open>What Gemini accepts\<close>

text \<open>A property of every object of a value.\<close>

fun all_levels :: "(jmap \<Rightarrow> bool) \<Rightarrow> json \<Rightarrow> bool" where
  "all_levels P (JObj m) \<longleftrightarrow> P m \<and> (\<forall>e \<in> set m. all_levels P (snd e))"
| "all_levels P (JArr xs) \<longleftrightarrow> (\<forall>x \<in> set xs. all_levels P x)"
| "all_levels P _ \<longleftrightarrow> True"

definition keys_supported :: "jmap \<Rightarrow> bool" where
  "keys_supported m \<longleftrightarrow> list_all (\<lambda>e. supported_key (fst e)) m"

lemma all_levels_map_values:
  "(\<forall>e \<in> set (map (\<lambda>(k, v). (k, f v)) m). all_levels P (snd e)) \<longleftrightarrow> (\<forall>(k, v) \<in> set m. all_levels P (f v))"
  by force

lemma all_levels_member: "all_levels P (JObj m) \<Longrightarrow> map_of m k = Some v \<Longrightarrow> all_levels P v"
  using map_of_SomeD [of m k v] by force

text \<open>A phase establishes a property of the levels that its step gives, and keeps one that its step keeps.\<close>

lemma everywhere_gives:
  assumes "\<And>m. P (map (\<lambda>(k, v). (k, everywhere render_json p v)) (phase_step render_json p m))"
  shows "all_levels P (everywhere render_json p v)"
  using assms
proof (induction render_json p v rule: everywhere.induct)
  case (1 render_json p m)
  have "\<forall>(k, v) \<in> set (phase_step render_json p m). all_levels P (everywhere render_json p v)"
    using 1(1) [OF _ refl 1(2)] by blast
  then show ?case unfolding everywhere.simps(1) all_levels.simps(1) all_levels_map_values using 1(2) by blast
next
  case (2 render_json p xs)
  then show ?case by simp
qed simp_all

lemma everywhere_keeps:
  assumes "\<And>m. all_levels P (JObj m) \<Longrightarrow> \<forall>(k, v) \<in> set (phase_step render_json p m). all_levels P v"
    and "\<And>m. all_levels P (JObj m) \<Longrightarrow> P (map (\<lambda>(k, v). (k, everywhere render_json p v)) (phase_step render_json p m))"
    and "all_levels P v"
  shows "all_levels P (everywhere render_json p v)"
  using assms
proof (induction render_json p v rule: everywhere.induct)
  case (1 render_json p m)
  have "all_levels P (everywhere render_json p v)" if "(k, v) \<in> set (phase_step render_json p m)" for k v
  proof (rule 1(1) [OF that refl])
    show "all_levels P v" using 1(2) [OF 1(4)] that by blast
  qed (use 1(2,3) in auto)
  then show ?case unfolding everywhere.simps(1) all_levels.simps(1) all_levels_map_values using 1(3) [OF 1(4)] by blast
next
  case (2 render_json p xs)
  then show ?case by simp
qed simp_all

lemma keys_map_values: "keys_supported (map (\<lambda>(k, v). (k, f v)) m) \<longleftrightarrow> keys_supported m"
  by (auto simp: keys_supported_def list_all_iff)

lemma keys_bt_insert: "keys_supported m \<Longrightarrow> supported_key k \<Longrightarrow> keys_supported (bt_insert k v m)"
  using set_bt_insert [of k v m] by (auto simp: keys_supported_def list_all_iff)

lemma keys_bt_remove: "keys_supported m \<Longrightarrow> keys_supported (bt_remove k m)"
  by (simp add: keys_supported_def list_all_iff bt_remove_def)

lemma written_keys: "supported_key ''required''" "supported_key ''properties''" "supported_key ''reason''"
    "supported_key ''type''" "supported_key ''description''"
  by (simp_all add: supported_key_def UNSUPPORTED_SCHEMA_CONSTRAINTS_def starts_with_def)

lemma levels_bt_insert: "\<forall>(k, v) \<in> set m. all_levels P v \<Longrightarrow> all_levels P w \<Longrightarrow>
    \<forall>(k, v) \<in> set (bt_insert k' w m). all_levels P v"
  using set_bt_insert [of k' w m] by blast

lemma keys_removed: "all_levels keys_supported (everywhere render_json RemoveUnsupported v)"
  by (rule everywhere_gives) (simp add: keys_map_values, simp add: keys_supported_def remove_unsupported_keywords_def list_all_iff)

lemma keys_kept_by_cleanup:
  assumes "all_levels keys_supported v"
  shows "all_levels keys_supported (everywhere render_json CleanupRequired v)"
proof (rule everywhere_keeps [OF _ _ assms])
  fix m assume m: "all_levels keys_supported (JObj m)"
  have "\<forall>x \<in> set (filter Q xs). all_levels keys_supported x" if "map_of m ''required'' = Some (JArr xs)" for Q xs
    using all_levels_member [OF m that] by simp
  with m show "\<forall>(k, v) \<in> set (phase_step render_json CleanupRequired m). all_levels keys_supported v"
    by (auto simp: cleanup_required_def Let_def bt_remove_def split: option.splits json.splits
        dest!: set_bt_insert [THEN subsetD])
  show "keys_supported (map (\<lambda>(k, v). (k, everywhere render_json CleanupRequired v)) (phase_step render_json CleanupRequired m))"
    using m by (auto simp: keys_map_values cleanup_required_def Let_def intro!: keys_bt_insert keys_bt_remove written_keys
        split: option.split json.split)
qed

lemma reason_levels: "all_levels keys_supported reason_property"
  using written_keys by (simp add: reason_property_def jobj_def keys_supported_def)

lemma keys_kept_by_placeholders:
  assumes "all_levels keys_supported v"
  shows "all_levels keys_supported (everywhere render_json AddPlaceholders v)"
proof (rule everywhere_keeps [OF _ _ assms])
  fix m assume m: "all_levels keys_supported (JObj m)"
  then show "\<forall>(k, v) \<in> set (phase_step render_json AddPlaceholders m). all_levels keys_supported v"
    using reason_levels by (auto simp: add_placeholders_def dest!: set_bt_insert [THEN subsetD])
  show "keys_supported (map (\<lambda>(k, v). (k, everywhere render_json AddPlaceholders v)) (phase_step render_json AddPlaceholders m))"
    using m by (auto simp: keys_map_values add_placeholders_def intro!: keys_bt_insert written_keys)
qed

lemma map_of_values: "map_of (map (\<lambda>(k, v). (k, f v)) m) k = map_option f (map_of m k)"
  by (induction m) auto

lemma placeholders_nonempty: "m \<noteq> [] \<Longrightarrow> add_placeholders m \<noteq> []"
  by (simp add: add_placeholders_def)

lemma everywhere_str: "as_str (everywhere render_json p v) = as_str v"
  by (cases v) simp_all

lemma placeholders_added: "all_levels (\<lambda>m. \<not> needs_placeholder m) (everywhere render_json AddPlaceholders v)"
proof (rule everywhere_gives)
  fix m
  define m' where "m' = add_placeholders m"
  have full: "\<not> needs_placeholder m'"
    by (auto simp: m'_def add_placeholders_def needs_placeholder_def member_object_def map_simps reason_property_def jobj_def)
  have "member_object (map (\<lambda>(k, v). (k, everywhere render_json AddPlaceholders v)) m') ''properties'' = [] \<Longrightarrow>
      member_object m' ''properties'' = []"
    by (cases "map_of m' ''properties''"; cases "the (map_of m' ''properties'')")
      (auto simp: member_object_def map_of_values add_placeholders_def split: if_splits)
  with full show "\<not> needs_placeholder (map (\<lambda>(k, v). (k, everywhere render_json AddPlaceholders v))
      (phase_step render_json AddPlaceholders m))"
    by (auto simp: needs_placeholder_def m'_def [symmetric] map_of_values everywhere_str bind_eq_Some_conv)
qed

lemma all_levels_conj: "all_levels (\<lambda>m. P m \<and> Q m) v \<longleftrightarrow> all_levels P v \<and> all_levels Q v"
  by (induction P v rule: all_levels.induct) auto

text \<open>C22: At every level of a cleaned schema no keyword is left that Gemini rejects, and no object schema is left without
  a property. The members of \<open>properties\<close> are visited like any schema: a parameter that is named like one of
  the keywords (\<open>title\<close>, \<open>format\<close>, \<open>default\<close>) is removed with them.\<close>

theorem cleaned_schema_accepted:
  "all_levels (\<lambda>m. keys_supported m \<and> \<not> needs_placeholder m) (clean_schema render_json schema)"
proof -
  have "all_levels (\<lambda>m. keys_supported m \<and> \<not> needs_placeholder m) (fold (everywhere render_json) SCHEMA_PHASES schema)"
    unfolding all_levels_conj SCHEMA_PHASES_def
    by (simp add: keys_removed keys_kept_by_cleanup keys_kept_by_placeholders placeholders_added)
  then show ?thesis by (cases schema) (simp_all add: clean_schema_def)
qed

lemma unsupported_absent: "keys_supported m \<Longrightarrow> \<not> supported_key k \<Longrightarrow> map_of m k = None"
  by (auto simp: keys_supported_def list_all_iff map_of_eq_None_iff)

lemma keyword_parameter_lost:
  assumes "jget (clean_schema render_json schema) ''properties'' = Some (JObj ps)" "\<not> supported_key k"
  shows "map_of ps k = None"
proof -
  have "all_levels keys_supported (fold (everywhere render_json) SCHEMA_PHASES schema)"
    by (simp add: SCHEMA_PHASES_def keys_removed keys_kept_by_cleanup keys_kept_by_placeholders)
  then have levels: "all_levels keys_supported (clean_schema render_json schema)"
    by (cases schema) (simp_all add: clean_schema_def)
  obtain m where m: "clean_schema render_json schema = JObj m" "map_of m ''properties'' = Some (JObj ps)"
    using assms(1) by (auto dest: jget_Some_obj)
  with levels have "keys_supported ps" using all_levels_member [of keys_supported m "''properties''" "JObj ps"] by simp
  then show ?thesis using assms(2) by (rule unsupported_absent)
qed

section \<open>Schemas that need no change\<close>

definition native_level :: "jmap \<Rightarrow> bool" where
  "native_level m \<longleftrightarrow> bt_ok m \<and> keys_supported m \<and> \<not> needs_placeholder m
     \<and> (case map_of m ''type'' of Some (JArr _) \<Rightarrow> False | _ \<Rightarrow> True)
     \<and> (case map_of m ''enum'' of Some (JArr vs) \<Rightarrow> map_of m ''type'' \<noteq> None \<and> list_all (\<lambda>v. as_str v \<noteq> None) vs | _ \<Rightarrow> True)
     \<and> (map_of m ''properties'' \<noteq> None \<longrightarrow> map_of m ''type'' \<noteq> None)
     \<and> (case (map_of m ''required'', map_of m ''properties'') of
          (Some (JArr names), Some (JObj ps)) \<Rightarrow>
            names \<noteq> [] \<and> list_all (\<lambda>n. case as_str n of Some k \<Rightarrow> map_of ps k \<noteq> None | None \<Rightarrow> False) names
        | _ \<Rightarrow> True)"

lemma rejected_keys: "\<not> supported_key ''const''" "\<not> supported_key ''allOf''" "\<not> supported_key ''anyOf''" "\<not> supported_key ''oneOf''"
  by (simp_all add: supported_key_def UNSUPPORTED_SCHEMA_CONSTRAINTS_def)

lemma strings_kept: "list_all (\<lambda>v. as_str v \<noteq> None) vs \<Longrightarrow> map (\<lambda>v. JStr (opt_default (render_json v) (as_str v))) vs = vs"
  by (induction vs) (auto elim!: as_str.elims)

lemma native_step: "native_level m \<Longrightarrow> phase_step render_json p m = m"
proof -
  assume m: "native_level m"
  then have ok: "bt_ok m" "keys_supported m" "\<not> needs_placeholder m" by (simp_all add: native_level_def)
  have absent: "map_of m ''const'' = None" "map_of m ''allOf'' = None" "map_of m ''anyOf'' = None" "map_of m ''oneOf'' = None"
    using unsupported_absent [OF ok(2)] rejected_keys by simp_all
  show ?thesis
  proof (cases p)
    case EnumToStrings
    then show ?thesis using m ok(1)
      by (auto simp: enum_to_strings_def native_level_def or_insert_def strings_kept bt_insert_same map_simps split: option.splits json.splits)
  next
    case FlattenTypes
    then show ?thesis using m by (auto simp: flatten_type_arrays_def native_level_def split: option.splits json.splits)
  next
    case EnsureObject
    then show ?thesis using m by (auto simp: ensure_object_type_def native_level_def)
  next
    case RemoveUnsupported
    then show ?thesis using ok(2) by (simp add: remove_unsupported_keywords_def keys_supported_def list_all_iff)
  next
    case CleanupRequired
    have "cleanup_required m = m"
    proof (cases "\<exists>names ps. map_of m ''required'' = Some (JArr names) \<and> map_of m ''properties'' = Some (JObj ps)")
      case True
      then obtain names ps where r: "map_of m ''required'' = Some (JArr names)" "map_of m ''properties'' = Some (JObj ps)" by blast
      let ?Q = "\<lambda>n. case as_str n of Some k \<Rightarrow> map_of ps k \<noteq> None | None \<Rightarrow> False"
      have "names \<noteq> []" "filter ?Q names = names"
        using m r by (simp_all add: native_level_def list_all_iff)
      then show ?thesis using r bt_insert_same [OF ok(1) r(1)] by (simp add: cleanup_required_def)
    qed (auto simp: cleanup_required_def split: option.splits json.splits)
    with CleanupRequired show ?thesis by simp
  qed (use absent ok(3) in \<open>simp_all add: const_to_enum_def merge_all_of_def flatten_any_of_one_of_def flatten_keyword_def
        add_placeholders_def\<close>)
qed

lemma native_everywhere: "all_levels native_level v \<Longrightarrow> everywhere render_json p v = v"
proof (induction render_json p v rule: everywhere.induct)
  case (1 render_json p m)
  have step: "phase_step render_json p m = m" using 1(2) native_step by simp
  have "everywhere render_json p v = v" if "(k, v) \<in> set m" for k v
    using 1(1) [OF _ refl, of k v] 1(2) that step by force
  then have "map (\<lambda>(k, v). (k, everywhere render_json p v)) m = m" by (auto intro: map_idI)
  then show ?case by (simp add: step)
qed (auto intro: map_idI)

text \<open>A schema that is in the accepted subset at every level, with its enumerations of strings, its types
  stated and its required names declared, is passed on as it is.\<close>

theorem native_schema_kept:
  "all_levels native_level schema \<Longrightarrow> clean_schema render_json schema = schema"
proof -
  assume "all_levels native_level schema"
  then have "fold (everywhere render_json) ps schema = schema" for ps
    by (induction ps) (simp_all add: native_everywhere)
  then show ?thesis by (cases schema) (simp_all add: clean_schema_def)
qed

theorem native_schema_kept_witness:
  "clean_schema (\<lambda>_. []) (JObj [(''properties'', JObj [(''city'', JObj [(''type'', JStr ''string'')])]),
      (''required'', JArr [JStr ''city'']), (''type'', JStr ''object'')]) =
    JObj [(''properties'', JObj [(''city'', JObj [(''type'', JStr ''string'')])]),
      (''required'', JArr [JStr ''city'']), (''type'', JStr ''object'')]"
  by (rule native_schema_kept) (simp add: native_level_def bt_ok_def keys_supported_def supported_key_def
      UNSUPPORTED_SCHEMA_CONSTRAINTS_def starts_with_def needs_placeholder_def member_object_def)

section \<open>Function names\<close>

definition name_char :: "char \<Rightarrow> bool" where
  "name_char c \<longleftrightarrow> is_digit c \<or> (65 \<le> byte c \<and> byte c \<le> 90) \<or> (97 \<le> byte c \<and> byte c \<le> 122) \<or> c \<in> set ''_.:-''"

definition name_start :: "char \<Rightarrow> bool" where
  "name_start c \<longleftrightarrow> (65 \<le> byte c \<and> byte c \<le> 90) \<or> (97 \<le> byte c \<and> byte c \<le> 122) \<or> c = CHR ''_''"

text \<open>A character of several bytes becomes one underscore: its continuation bytes give nothing.\<close>

definition sanitize_function_name :: "string \<Rightarrow> string" where
  "sanitize_function_name name =
     (if name = [] then ''_unknown''
      else
        (let sanitized = map (\<lambda>c. if name_char c then c else CHR ''_'') (filter (\<lambda>c. \<not> is_continuation c) name)
         in take 64 (case sanitized of
              c # _ \<Rightarrow> if name_start c then sanitized else CHR ''_'' # sanitized
            | [] \<Rightarrow> ''_'')))"

definition gemini_name :: "string \<Rightarrow> bool" where
  "gemini_name s \<longleftrightarrow> length s \<le> 64 \<and> (\<exists>c cs. s = c # cs \<and> name_start c) \<and> list_all name_char s"

lemma underscore: "name_char (CHR ''_'')" "name_start (CHR ''_'')"
  by (simp_all add: name_char_def name_start_def)

text \<open>Every function name that reaches Gemini starts with a letter or an underscore, has at most 64 of the characters
  it allows, and is never empty.\<close>

theorem function_names_accepted: "gemini_name (sanitize_function_name name)"
proof (cases "name = []")
  case True
  then show ?thesis
    by (simp add: sanitize_function_name_def gemini_name_def underscore name_char_def byte_def)
next
  case False
  define s where "s = map (\<lambda>c. if name_char c then c else CHR ''_'') (filter (\<lambda>c. \<not> is_continuation c) name)"
  have chars: "list_all name_char s" by (auto simp: s_def list_all_iff underscore)
  define t where "t = (case s of c # _ \<Rightarrow> if name_start c then s else CHR ''_'' # s | [] \<Rightarrow> ''_'')"
  have t: "list_all name_char t" "\<exists>c cs. t = c # cs \<and> name_start c"
    using chars by (auto simp: t_def underscore split: list.split)
  then have "gemini_name (take 64 t)"
    by (auto simp: gemini_name_def list_all_iff dest: in_set_takeD)
  then show ?thesis using False by (simp add: sanitize_function_name_def s_def [symmetric] t_def [symmetric] Let_def)
qed

end
