(* ===== verification/Gemini_Request.thy ===== *)
theory Gemini_Request
  imports Gemini_Schema
begin

text \<open>
  Requests between the OpenAI and the Gemini dialects
  (\<open>crates/translate/src/request/openai_to_gemini.rs\<close>, \<open>gemini_to_openai.rs\<close>). Reading and printing
  JSON text are the parameters \<open>parse_json\<close> and \<open>render_json\<close>.
\<close>

section \<open>From OpenAI\<close>

definition default_safety_settings :: json where
  "default_safety_settings =
     JArr (map (\<lambda>c. jobj [(''category'', JStr (''HARM_CATEGORY_'' @ c)), (''threshold'', JStr ''OFF'')])
       [''HATE_SPEECH'', ''DANGEROUS_CONTENT'', ''SEXUALLY_EXPLICIT'', ''HARASSMENT'', ''CIVIC_INTEGRITY''])"

definition generation_config :: "json \<Rightarrow> jmap" where
  "generation_config body =
     fold (\<lambda>(source, target) config. case jget body source of Some v \<Rightarrow> bt_insert target v config | None \<Rightarrow> config)
       [(''temperature'', ''temperature''), (''top_p'', ''topP''), (''top_k'', ''topK''), (''max_tokens'', ''maxOutputTokens'')] []"

definition function_name :: "json \<Rightarrow> string option" where
  "function_name call = Option.bind (jget call ''function'') (\<lambda>f. get_str f ''name'')"

definition note_call :: "json \<Rightarrow> name_map \<Rightarrow> name_map" where
  "note_call call names =
     (case (get_str call ''id'', function_name call) of
        (Some cid, Some name) \<Rightarrow> bt_insert cid name names | _ \<Rightarrow> names)"

definition gemini_call_names :: "json list \<Rightarrow> name_map" where
  "gemini_call_names messages =
     fold (\<lambda>message names.
       if get_str message ''role'' = Some ''assistant''
       then fold note_call (filter (\<lambda>call. get_str call ''type'' = Some ''function'') (get_list message ''tool_calls'')) names
       else names) messages []"

definition tool_responses :: "json list \<Rightarrow> jmap" where
  "tool_responses messages =
     fold (\<lambda>message responses.
       case (get_str message ''role'' = Some ''tool'', get_str message ''tool_call_id'') of
         (True, Some cid) \<Rightarrow> bt_insert cid (field_or_null message ''content'') responses
       | _ \<Rightarrow> responses) messages []"

definition inline_data :: "string \<Rightarrow> string \<Rightarrow> json" where
  "inline_data mime data = jobj [(''inlineData'', jobj [(''mime_type'', JStr mime), (''data'', JStr data)])]"

definition image_part :: "json \<Rightarrow> json list" where
  "image_part item =
     (case Option.bind (jget item ''image_url'') (\<lambda>image. get_str image ''url'') of
        None \<Rightarrow> []
      | Some url \<Rightarrow>
          (case strip_prefix url ''data:'' of
             Some rest \<Rightarrow>
               (case split_once CHR '','' rest of
                  Some (header, data) \<Rightarrow> [inline_data (takeWhile (\<lambda>c. c \<noteq> CHR '';'') header) data]
                | None \<Rightarrow> [])
           | None \<Rightarrow>
               if starts_with url ''http://'' \<or> starts_with url ''https://''
               then [jobj [(''fileData'', jobj [(''fileUri'', JStr url), (''mimeType'', JStr ''image/*'')])]]
               else []))"

definition audio_part :: "json \<Rightarrow> json list" where
  "audio_part item =
     (let audio = jget item ''input_audio''
      in case Option.bind audio (\<lambda>a. get_str a ''data'') of
           None \<Rightarrow> []
         | Some data \<Rightarrow>
             (let format = opt_default ''wav'' (Option.bind audio (\<lambda>a. get_str a ''format''))
              in [inline_data (if format = ''mp3'' then ''audio/mpeg'' else ''audio/'' @ format) data]))"

definition content_part :: "json \<Rightarrow> json list" where
  "content_part item =
     (case get_str item ''type'' of
        None \<Rightarrow> []
      | Some kind \<Rightarrow>
          if kind = ''text'' then [jobj [(''text'', field_or_null item ''text'')]]
          else if kind = ''image_url'' then image_part item
          else if kind = ''input_audio'' then audio_part item
          else [])"

definition content_to_parts :: "json option \<Rightarrow> json list" where
  "content_to_parts content =
     (case content of
        Some (JStr text) \<Rightarrow> [jobj [(''text'', JStr text)]]
      | Some (JArr items) \<Rightarrow> concat (map content_part items)
      | _ \<Rightarrow> [])"

definition gemini_content :: "string \<Rightarrow> json list \<Rightarrow> json" where
  "gemini_content role parts = jobj [(''role'', JStr role), (''parts'', JArr parts)]"

definition turn_with :: "string \<Rightarrow> json list \<Rightarrow> json list" where
  "turn_with role parts = (if parts = [] then [] else [gemini_content role parts])"

definition spoken_parts :: "json \<Rightarrow> json list" where
  "spoken_parts message =
     (case get_str message ''reasoning_content'' of
        Some (c # cs) \<Rightarrow> [jobj [(''thought'', JBool True), (''text'', JStr (c # cs))]] | _ \<Rightarrow> [])
     @ (let text = extract_text_content (jget message ''content'') []
        in if text \<noteq> [] then [jobj [(''text'', JStr text)]] else [])"

definition function_calls :: "json list \<Rightarrow> json list" where
  "function_calls calls = filter (\<lambda>call. get_str call ''type'' = Some ''function'') calls"

definition function_call_id :: "json \<Rightarrow> string" where
  "function_call_id call = opt_default [] (get_str call ''id'')"

definition call_part :: "(string \<Rightarrow> json option) \<Rightarrow> json \<Rightarrow> json" where
  "call_part parse_json call =
     jobj [(''functionCall'', jobj
       [(''id'', JStr (function_call_id call)),
        (''name'', JStr (sanitize_function_name (opt_default [] (function_name call)))),
        (''args'', safe_parse_json parse_json
            (opt_default ''{}'' (Option.bind (jget call ''function'') (\<lambda>f. get_str f ''arguments''))))])]"

text \<open>The name in a generated id: all but its last two segments.\<close>

definition derive_name_from_id :: "string \<Rightarrow> string" where
  "derive_name_from_id cid =
     (let segments = split_char CHR ''-'' cid
      in if 2 < length segments then join_with ''-'' (take (length segments - 2) segments) else cid)"

definition response_value :: "(string \<Rightarrow> json option) \<Rightarrow> json \<Rightarrow> json" where
  "response_value parse_json response =
     (let wrap = (\<lambda>v. case v of JObj _ \<Rightarrow> v | JArr _ \<Rightarrow> v | _ \<Rightarrow> jobj [(''result'', v)])
      in case response of JStr text \<Rightarrow> wrap (safe_parse_json parse_json text) | _ \<Rightarrow> wrap response)"

definition response_part :: "(string \<Rightarrow> json option) \<Rightarrow> name_map \<Rightarrow> string \<Rightarrow> json \<Rightarrow> json" where
  "response_part parse_json names cid response =
     jobj [(''functionResponse'', jobj
       [(''id'', JStr cid),
        (''name'', JStr (sanitize_function_name (opt_default (derive_name_from_id cid) (map_of names cid)))),
        (''response'', jobj [(''result'', response_value parse_json response)])])]"

definition push_assistant_content ::
    "(string \<Rightarrow> json option) \<Rightarrow> name_map \<Rightarrow> jmap \<Rightarrow> json \<Rightarrow> json list" where
  "push_assistant_content parse_json names responses message =
     (case Option.bind (jget message ''tool_calls'') as_array of
        None \<Rightarrow> turn_with ''model'' (spoken_parts message)
      | Some calls \<Rightarrow>
          (let functions = function_calls calls
           in turn_with ''model'' (spoken_parts message @ map (call_part parse_json) functions)
              @ turn_with ''user''
                  (List.map_filter (\<lambda>cid. map_option (response_part parse_json names cid) (map_of responses cid))
                     (map function_call_id functions))))"

definition is_system :: "json \<Rightarrow> bool" where
  "is_system message \<longleftrightarrow> get_str message ''role'' = Some ''system''"

definition message_contents ::
    "(string \<Rightarrow> json option) \<Rightarrow> json list \<Rightarrow> json \<Rightarrow> json list" where
  "message_contents parse_json messages message =
     (if is_system message \<and> 1 < length messages then []
      else if get_str message ''role'' = Some ''user'' \<or> is_system message
      then turn_with ''user'' (content_to_parts (jget message ''content''))
      else if get_str message ''role'' = Some ''assistant''
      then push_assistant_content parse_json (gemini_call_names messages) (tool_responses messages) message
      else [])"

text \<open>The system instruction is overwritten by every system message.\<close>

definition system_instruction :: "json list \<Rightarrow> json option" where
  "system_instruction messages =
     fold (\<lambda>message previous.
       if is_system message \<and> 1 < length messages
       then Some (jobj [(''role'', JStr ''user''),
              (''parts'', JArr [jobj [(''text'', JStr (extract_text_content (jget message ''content'') []))]])])
       else previous) messages None"

definition parts_of :: "json \<Rightarrow> json list" where
  "parts_of content = get_list content ''parts''"

definition with_parts :: "json list \<Rightarrow> json \<Rightarrow> json" where
  "with_parts parts content = (case content of JObj m \<Rightarrow> JObj (bt_insert ''parts'' (JArr parts) m) | _ \<Rightarrow> content)"

definition add_content :: "json \<Rightarrow> json list \<Rightarrow> json list" where
  "add_content content out =
     (if get_str content ''role'' = None \<or> parts_of content = [] then out
      else if out \<noteq> [] \<and> jget (last out) ''role'' = jget content ''role''
      then butlast out @ [with_parts (parts_of (last out) @ parts_of content) (last out)]
      else out @ [content])"

definition normalize_contents :: "json list \<Rightarrow> json list" where
  "normalize_contents contents = fold add_content contents []"

definition empty_parameters :: json where
  "empty_parameters = jobj [(''type'', JStr ''object''), (''properties'', jobj [])]"

definition function_declaration :: "(json \<Rightarrow> string) \<Rightarrow> string \<Rightarrow> json \<Rightarrow> json \<Rightarrow> json" where
  "function_declaration render_json name owner schema =
     jobj [(''name'', JStr (sanitize_function_name name)),
           (''description'', JStr (opt_default [] (get_str owner ''description''))),
           (''parameters'', clean_schema render_json schema)]"

definition gemini_tool :: "(json \<Rightarrow> string) \<Rightarrow> json \<Rightarrow> json option" where
  "gemini_tool render_json tool =
     (case (get_str tool ''name'', jget tool ''input_schema'') of
        (Some name, Some schema) \<Rightarrow> Some (function_declaration render_json name tool schema)
      | _ \<Rightarrow>
          (case jget tool ''function'' of
             Some function \<Rightarrow>
               if get_str tool ''type'' = Some ''function''
               then Some (function_declaration render_json (opt_default [] (get_str function ''name'')) function
                            (opt_default empty_parameters (jget function ''parameters'')))
               else None
           | None \<Rightarrow> None))"

definition openai_to_gemini :: "(string \<Rightarrow> json option) \<Rightarrow> (json \<Rightarrow> string) \<Rightarrow> string \<Rightarrow> json \<Rightarrow> json" where
  "openai_to_gemini parse_json render_json model body =
     (let messages = get_list body ''messages'';
          declarations = List.map_filter (gemini_tool render_json) (get_list body ''tools'')
      in jobj ([(''model'', JStr model)]
           @ (case system_instruction messages of Some s \<Rightarrow> [(''systemInstruction'', s)] | None \<Rightarrow> [])
           @ [(''contents'', JArr (normalize_contents (concat (map (message_contents parse_json messages) messages)))),
              (''generationConfig'', JObj (generation_config body)),
              (''safetySettings'', default_safety_settings)]
           @ (if declarations = [] then []
              else [(''tools'', JArr [jobj [(''functionDeclarations'', JArr declarations)]])])))"

section \<open>To OpenAI\<close>

definition gemini_text_of :: "json \<Rightarrow> string" where
  "gemini_text_of content =
     (case content of
        JStr text \<Rightarrow> text
      | _ \<Rightarrow> concat (map (\<lambda>part. opt_default [] (get_str part ''text'')) (get_list content ''parts'')))"

definition openai_parts :: "json \<Rightarrow> json list" where
  "openai_parts part =
     (case jget part ''text'' of Some text \<Rightarrow> [jobj [(''type'', JStr ''text''), (''text'', text)]] | None \<Rightarrow> [])
     @ (case jget part ''inlineData'' of
          Some inline \<Rightarrow>
            [jobj [(''type'', JStr ''image_url''),
              (''image_url'', jobj [(''url'', JStr (encode_data_uri (opt_default [] (get_str inline ''mimeType''))
                 (opt_default [] (get_str inline ''data''))))])]]
        | None \<Rightarrow> [])"

definition gemini_id :: "json \<Rightarrow> string" where
  "gemini_id v = opt_default (''call_'' @ opt_default [] (get_str v ''name'')) (get_str v ''id'')"

definition function_call_json :: "(json \<Rightarrow> string) \<Rightarrow> json \<Rightarrow> json" where
  "function_call_json render_json call =
     jobj [(''id'', JStr (gemini_id call)), (''type'', JStr ''function''),
       (''function'', jobj [(''name'', JStr (opt_default [] (get_str call ''name''))),
          (''arguments'', JStr (render_json (opt_default (jobj []) (jget call ''args''))))])]"

definition tool_message :: "(json \<Rightarrow> string) \<Rightarrow> json \<Rightarrow> json" where
  "tool_message render_json response =
     jobj [(''role'', JStr ''tool''), (''tool_call_id'', JStr (gemini_id response)),
       (''content'', JStr (render_json
          (opt_default (jobj []) (opt_or (Option.bind (jget response ''response'') (\<lambda>v. jget v ''result''))
             (jget response ''response'')))))]"

text \<open>The walk over the parts of a content; a function response ends it with its tool message.\<close>

fun convert_parts ::
    "(json \<Rightarrow> string) \<Rightarrow> json list \<Rightarrow> json list \<Rightarrow> json list \<Rightarrow> json + json list \<times> json list" where
  "convert_parts render_json [] parts calls = Inr (parts, calls)"
| "convert_parts render_json (part # ps) parts calls =
     (case jget part ''functionResponse'' of
        Some response \<Rightarrow> Inl (tool_message render_json response)
      | None \<Rightarrow>
          convert_parts render_json ps (parts @ openai_parts part)
            (calls @ (case jget part ''functionCall'' of Some call \<Rightarrow> [function_call_json render_json call] | None \<Rightarrow> [])))"

definition convert_gemini_content :: "(json \<Rightarrow> string) \<Rightarrow> json \<Rightarrow> json option" where
  "convert_gemini_content render_json content =
     (case Option.bind (jget content ''parts'') as_array of
        None \<Rightarrow> None
      | Some source \<Rightarrow>
          (case convert_parts render_json source [] [] of
             Inl message \<Rightarrow> Some message
           | Inr (parts, calls) \<Rightarrow>
               if calls \<noteq> [] then
                 Some (jobj ([(''role'', JStr ''assistant'')]
                   @ (case parts of
                        [] \<Rightarrow> []
                      | [part] \<Rightarrow> [(''content'', field_or_null part ''text'')]
                      | _ \<Rightarrow> [(''content'', JArr parts)])
                   @ [(''tool_calls'', JArr calls)]))
               else if parts \<noteq> [] then
                 Some (jobj [(''role'', JStr (if get_str content ''role'' = Some ''user'' then ''user'' else ''assistant'')),
                             (''content'', collapse_text_parts parts)])
               else None))"

definition openai_declaration :: "json \<Rightarrow> json" where
  "openai_declaration function =
     jobj [(''type'', JStr ''function''),
       (''function'', jobj [(''name'', field_or_null function ''name''),
          (''description'', JStr (opt_default [] (get_str function ''description''))),
          (''parameters'', opt_default empty_parameters (jget function ''parameters''))])]"

definition gemini_sampling :: "json \<Rightarrow> (string \<times> json) list" where
  "gemini_sampling body =
     (case jget body ''generationConfig'' of
        None \<Rightarrow> []
      | Some config \<Rightarrow>
          (case nonzero (Option.bind (jget config ''maxOutputTokens'') as_u64) of
             Some limit \<Rightarrow> [(''max_tokens'', jnat (adjust_max_tokens
                 (jobj [(''max_tokens'', jnat limit), (''tools'', field_or_null body ''tools'')]) DEFAULT_MAX_TOKENS))]
           | None \<Rightarrow> [])
          @ (case jget config ''temperature'' of Some v \<Rightarrow> [(''temperature'', v)] | None \<Rightarrow> [])
          @ (case jget config ''topP'' of Some v \<Rightarrow> [(''top_p'', v)] | None \<Rightarrow> []))"

definition gemini_messages :: "(json \<Rightarrow> string) \<Rightarrow> json \<Rightarrow> json list" where
  "gemini_messages render_json body =
     (case jget body ''systemInstruction'' of
        Some instruction \<Rightarrow>
          (let text = gemini_text_of instruction
           in if text \<noteq> [] then [jobj [(''role'', JStr ''system''), (''content'', JStr text)]] else [])
      | None \<Rightarrow> [])
     @ List.map_filter (convert_gemini_content render_json) (get_list body ''contents'')"

definition gemini_to_openai :: "(json \<Rightarrow> string) \<Rightarrow> string \<Rightarrow> json \<Rightarrow> bool \<Rightarrow> json" where
  "gemini_to_openai render_json model body stream =
     jobj ([(''model'', JStr model)] @ gemini_sampling body
       @ [(''messages'', JArr (gemini_messages render_json body)), (''stream'', JBool stream)]
       @ (case Option.bind (jget body ''tools'') as_array of
            None \<Rightarrow> []
          | Some tools \<Rightarrow> [(''tools'', JArr (map openai_declaration
              (concat (map (\<lambda>tool. get_list tool ''functionDeclarations'') tools))))]))"

section \<open>The turns a Gemini model gets\<close>

definition gemini_turn :: "json \<Rightarrow> bool" where
  "gemini_turn c \<longleftrightarrow> (\<exists>role parts. c = gemini_content role parts \<and> role \<in> {''user'', ''model''} \<and> parts \<noteq> [])"

definition alternating :: "json list \<Rightarrow> bool" where
  "alternating cs \<longleftrightarrow> successively (\<lambda>a b. jget a ''role'' \<noteq> jget b ''role'') cs"

lemma gemini_content_members [simp]:
  "jget (gemini_content role parts) ''role'' = Some (JStr role)" "parts_of (gemini_content role parts) = parts"
  "get_str (gemini_content role parts) ''role'' = Some role"
  by (simp_all add: gemini_content_def jget_jobj parts_of_def get_list_def get_str_def)

lemma with_parts_content [simp]: "with_parts qs (gemini_content role parts) = gemini_content role qs"
  by (simp add: gemini_content_def with_parts_def jobj_def)

lemma turn_with_turns: "role \<in> {''user'', ''model''} \<Longrightarrow> \<forall>c \<in> set (turn_with role parts). gemini_turn c"
  by (auto simp: turn_with_def gemini_turn_def)

lemma message_contents_turns: "\<forall>c \<in> set (message_contents parse_json messages message). gemini_turn c"
  using turn_with_turns
  by (auto simp: message_contents_def push_assistant_content_def Let_def split: option.splits)

lemma add_content_turn:
  assumes c: "gemini_turn c" and out: "\<forall>d \<in> set out. gemini_turn d" "alternating out"
  shows "\<forall>d \<in> set (add_content c out). gemini_turn d" "alternating (add_content c out)"
    "concat (map parts_of (add_content c out)) = concat (map parts_of out) @ parts_of c"
proof -
  obtain role parts where p: "c = gemini_content role parts" "role \<in> {''user'', ''model''}" "parts \<noteq> []"
    using c by (auto simp: gemini_turn_def)
  have "(\<forall>d \<in> set (add_content c out). gemini_turn d) \<and> alternating (add_content c out)
      \<and> concat (map parts_of (add_content c out)) = concat (map parts_of out) @ parts_of c"
  proof (cases out rule: rev_cases)
    case Nil
    then show ?thesis using p c by (simp add: add_content_def alternating_def)
  next
    case (snoc ds d)
    obtain role' parts' where d: "d = gemini_content role' parts'" "role' \<in> {''user'', ''model''}" "parts' \<noteq> []"
      using out snoc by (auto simp: gemini_turn_def)
    show ?thesis
    proof (cases "role' = role")
      case True
      have new: "add_content c out = ds @ [gemini_content role (parts' @ parts)]"
        using True p d snoc by (simp add: add_content_def)
      have "gemini_turn (gemini_content role (parts' @ parts))" using p unfolding gemini_turn_def by blast
      then show ?thesis using out(1,2) unfolding new unfolding snoc d(1) p(1) True
        by (auto simp: alternating_def successively_append_iff)
    next
      case False
      have new: "add_content c out = out @ [c]" using False p d snoc by (simp add: add_content_def)
      show ?thesis using out c False p d snoc unfolding new
        by (auto simp: alternating_def successively_append_iff)
    qed
  qed
  then show "\<forall>d \<in> set (add_content c out). gemini_turn d" "alternating (add_content c out)"
    "concat (map parts_of (add_content c out)) = concat (map parts_of out) @ parts_of c" by blast+
qed

lemma normalize_turns:
  assumes "\<forall>c \<in> set contents. gemini_turn c"
  shows "(\<forall>c \<in> set (normalize_contents contents). gemini_turn c) \<and> alternating (normalize_contents contents)
    \<and> concat (map parts_of (normalize_contents contents)) = concat (map parts_of contents)"
proof -
  have "\<forall>c \<in> set contents. gemini_turn c \<Longrightarrow> \<forall>d \<in> set out. gemini_turn d \<Longrightarrow> alternating out \<Longrightarrow>
      (\<forall>c \<in> set (fold add_content contents out). gemini_turn c) \<and> alternating (fold add_content contents out)
      \<and> concat (map parts_of (fold add_content contents out)) = concat (map parts_of out) @ concat (map parts_of contents)"
    for out
  proof (induction contents arbitrary: out)
    case (Cons c contents)
    then have c: "gemini_turn c" by simp
    note added = add_content_turn [OF c Cons.prems(2,3)]
    show ?case using Cons.IH [OF _ added(1,2)] Cons.prems(1) added(3) by simp
  qed simp
  from this [OF assms, of "[]"] show ?thesis by (simp add: normalize_contents_def alternating_def)
qed

text \<open>C21: Whatever the conversation, Gemini gets turns of the user and the model with parts in them, never two of the same
  side in a row, and merging them loses and reorders no part.\<close>

theorem gemini_turns_alternate:
  "\<exists>turns. jget (openai_to_gemini parse_json render_json model body) ''contents'' = Some (JArr turns)
     \<and> list_all gemini_turn turns \<and> alternating turns
     \<and> concat (map parts_of turns) =
         concat (map parts_of (concat (map (message_contents parse_json (get_list body ''messages'')) (get_list body ''messages''))))"
proof -
  let ?raw = "concat (map (message_contents parse_json (get_list body ''messages'')) (get_list body ''messages''))"
  have "\<forall>c \<in> set ?raw. gemini_turn c" using message_contents_turns by auto
  moreover have "jget (openai_to_gemini parse_json render_json model body) ''contents'' = Some (JArr (normalize_contents ?raw))"
    unfolding openai_to_gemini_def Let_def by (rule jget_jobj_once) (auto split: option.splits if_splits)
  ultimately show ?thesis using normalize_turns unfolding list_all_iff by blast
qed

text \<open>Of several system messages only the last is passed on.\<close>

lemma only_last_system:
  assumes "is_system s" "ms @ rest \<noteq> []" "\<forall>m \<in> set rest. \<not> is_system m"
  shows "system_instruction (ms @ s # rest) =
    Some (jobj [(''role'', JStr ''user''),
      (''parts'', JArr [jobj [(''text'', JStr (extract_text_content (jget s ''content'') []))]])])"
proof -
  have len: "1 < length (ms @ s # rest)" using assms(2) by (cases ms; cases rest; simp)
  have keep: "fold (\<lambda>message previous. if is_system message then F message else previous) rest x = x" for F x
    using assms(3) by (induction rest) auto
  show ?thesis
    by (simp only: system_instruction_def fold_append comp_apply fold.simps len assms(1) keep simp_thms if_True)
qed

section \<open>What OpenAI gets\<close>

text \<open>C34: The first function response of a content ends it: its text, its images and every further response in it are
  dropped, so of several calls answered in one turn only the first is ever answered.\<close>

theorem later_responses_dropped:
  assumes "Option.bind (jget content ''parts'') as_array = Some (before @ part # rest)"
    and "\<forall>p \<in> set before. jget p ''functionResponse'' = None" and "jget part ''functionResponse'' = Some response"
  shows "convert_gemini_content render_json content = Some (tool_message render_json response)"
proof -
  have "convert_parts render_json (before @ part # rest) parts calls = Inl (tool_message render_json response)" for parts calls
    using assms(2,3) by (induction before arbitrary: parts calls) simp_all
  then show ?thesis using assms(1) by (simp add: convert_gemini_content_def)
qed

theorem later_responses_dropped_witness:
  "convert_gemini_content (\<lambda>_. ''{}'') (JObj [(''parts'', JArr
      [JObj [(''functionResponse'', JObj [(''name'', JStr ''a'')])], JObj [(''functionResponse'', JObj [(''name'', JStr ''b'')])]])]) =
    Some (tool_message (\<lambda>_. ''{}'') (JObj [(''name'', JStr ''a'')]))"
  by (rule later_responses_dropped [where before = "[]" and part = "JObj [(''functionResponse'', JObj [(''name'', JStr ''a'')])]"
        and rest = "[JObj [(''functionResponse'', JObj [(''name'', JStr ''b'')])]]"]) simp_all

end
