(* ===== verification/Request_Rules.thy ===== *)
theory Request_Rules
  imports Capabilities Gemini_Request
begin

text \<open>
  What a request loses before it is sent: parameters a provider rejects
  (\<open>crates/translate/src/param_rules.rs\<close>) and media a model cannot read
  (\<open>crates/translate/src/modality.rs\<close>).
\<close>

section \<open>Parameters\<close>

definition mentions :: "string list \<Rightarrow> string \<Rightarrow> bool" where
  "mentions needles model \<longleftrightarrow> has_any (ascii_lower model) needles"

definition is_claude :: "string \<Rightarrow> bool" where "is_claude model \<longleftrightarrow> mentions [''claude''] model"

definition is_github_claude_except_46 :: "string \<Rightarrow> bool" where
  "is_github_claude_except_46 model \<longleftrightarrow>
     mentions [''claude''] model \<and> \<not> (mentions [''opus'', ''sonnet''] model \<and> mentions [''4.6'', ''4-6''] model)"

definition is_gpt54 :: "string \<Rightarrow> bool" where "is_gpt54 model \<longleftrightarrow> mentions [''gpt-5.4'', ''gpt-5-4''] model"
definition is_glm5 :: "string \<Rightarrow> bool" where "is_glm5 model \<longleftrightarrow> mentions [''glm-5'', ''glm5''] model"
definition is_kimi :: "string \<Rightarrow> bool" where "is_kimi model \<longleftrightarrow> mentions [''kimi''] model"
definition is_mimo_preview :: "string \<Rightarrow> bool" where "is_mimo_preview model \<longleftrightarrow> mentions [''preview''] model"

record strip_rule =
  ru_provider :: "string option"
  ru_matches :: "(string \<Rightarrow> bool) option"
  ru_drop :: "string list"
  ru_flatten_content :: bool
  ru_clamp_to_model_max :: bool
  ru_max_output_cap :: "nat option"

definition drops :: "string option \<Rightarrow> (string \<Rightarrow> bool) \<Rightarrow> string list \<Rightarrow> strip_rule" where
  "drops provider model_test keys = \<lparr>ru_provider = provider, ru_matches = Some model_test, ru_drop = keys,
     ru_flatten_content = False, ru_clamp_to_model_max = False, ru_max_output_cap = None\<rparr>"

definition STRIP_RULES :: "strip_rule list" where
  "STRIP_RULES =
     [drops None is_claude [''temperature''],
      drops (Some ''github'') is_gpt54 [''temperature''],
      drops (Some ''github'') is_github_claude_except_46 [''thinking'', ''reasoning_effort''],
      \<lparr>ru_provider = Some ''cloudflare-ai'', ru_matches = None, ru_drop = [], ru_flatten_content = True,
       ru_clamp_to_model_max = False, ru_max_output_cap = None\<rparr>,
      \<lparr>ru_provider = Some ''xiaomi-mimo'', ru_matches = Some is_mimo_preview, ru_drop = [], ru_flatten_content = True,
       ru_clamp_to_model_max = False, ru_max_output_cap = None\<rparr>,
      \<lparr>ru_provider = Some ''volcengine-ark'', ru_matches = Some is_glm5, ru_drop = [], ru_flatten_content = False,
       ru_clamp_to_model_max = True, ru_max_output_cap = None\<rparr>,
      \<lparr>ru_provider = Some ''volcengine-ark'', ru_matches = Some is_kimi, ru_drop = [], ru_flatten_content = False,
       ru_clamp_to_model_max = True, ru_max_output_cap = Some 32768\<rparr>]"

definition flatten_parts :: "json list \<Rightarrow> string" where
  "flatten_parts parts =
     concat (List.map_filter (\<lambda>p. get_str p ''text'') (filter (\<lambda>p. get_str p ''type'' = Some ''text'') parts))"

definition flatten_message_content :: "json \<Rightarrow> json" where
  "flatten_message_content message =
     (case message of
        JObj m \<Rightarrow>
          (case map_of m ''content'' of
             Some (JArr parts) \<Rightarrow> JObj (bt_insert ''content'' (JStr (flatten_parts parts)) m) | _ \<Rightarrow> message)
      | _ \<Rightarrow> message)"

text \<open>A change of the members of an array member.\<close>

definition in_array :: "string \<Rightarrow> (json list \<Rightarrow> json list) \<Rightarrow> jmap \<Rightarrow> jmap" where
  "in_array k f m = (case map_of m k of Some (JArr xs) \<Rightarrow> bt_insert k (JArr (f xs)) m | _ \<Rightarrow> m)"

definition flatten_content_arrays :: "jmap \<Rightarrow> jmap" where
  "flatten_content_arrays = in_array ''messages'' (map flatten_message_content)"

definition clamp_number :: "nat \<Rightarrow> string \<Rightarrow> jmap \<Rightarrow> jmap" where
  "clamp_number ceiling k m =
     (case Option.bind (map_of m k) as_u64 of
        Some v \<Rightarrow> if v > ceiling then bt_insert k (jnat ceiling) m else m | None \<Rightarrow> m)"

definition rule_ceiling :: "strip_rule \<Rightarrow> nat \<Rightarrow> nat option" where
  "rule_ceiling r model_limit =
     (let candidates = (if ru_clamp_to_model_max r \<and> 0 < model_limit then [model_limit] else [])
            @ (case ru_max_output_cap r of Some cap \<Rightarrow> [cap] | None \<Rightarrow> [])
      in if candidates = [] then None else Some (foldr min (tl candidates) (hd candidates)))"

definition LIMIT_KEYS :: "string list" where
  "LIMIT_KEYS = [''max_tokens'', ''max_completion_tokens'', ''max_output_tokens'']"

definition rule_applies :: "strip_rule \<Rightarrow> string \<Rightarrow> string \<Rightarrow> bool" where
  "rule_applies r provider model \<longleftrightarrow>
     (case ru_provider r of Some p \<Rightarrow> p = provider | None \<Rightarrow> True) \<and> (case ru_matches r of Some f \<Rightarrow> f model | None \<Rightarrow> True)"

definition apply_rule :: "nat \<Rightarrow> strip_rule \<Rightarrow> jmap \<Rightarrow> jmap" where
  "apply_rule model_limit r m =
     (let m1 = fold bt_remove (ru_drop r) m;
          m2 = (if ru_flatten_content r then flatten_content_arrays m1 else m1)
      in case rule_ceiling r model_limit of
           Some ceiling \<Rightarrow> fold (clamp_number ceiling) LIMIT_KEYS m2 | None \<Rightarrow> m2)"

definition strip_with :: "strip_rule list \<Rightarrow> string \<Rightarrow> string \<Rightarrow> nat \<Rightarrow> jmap \<Rightarrow> jmap" where
  "strip_with rules provider model model_limit m =
     fold (apply_rule model_limit) (filter (\<lambda>r. rule_applies r provider model) rules) m"

definition strip_unsupported_params :: "string \<Rightarrow> string \<Rightarrow> json \<Rightarrow> nat \<Rightarrow> json" where
  "strip_unsupported_params provider model body model_limit =
     (case body of JObj m \<Rightarrow> JObj (strip_with STRIP_RULES provider model model_limit m) | _ \<Rightarrow> body)"

subsection \<open>Every rule that applies is obeyed\<close>

definition keys_dropped :: "strip_rule \<Rightarrow> jmap \<Rightarrow> bool" where
  "keys_dropped r m \<longleftrightarrow> (\<forall>k \<in> set (ru_drop r). map_of m k = None)"

definition contents_flat :: "jmap \<Rightarrow> bool" where
  "contents_flat m \<longleftrightarrow>
     (case map_of m ''messages'' of
        Some (JArr xs) \<Rightarrow> list_all (\<lambda>x. case jget x ''content'' of Some (JArr _) \<Rightarrow> False | _ \<Rightarrow> True) xs | _ \<Rightarrow> True)"

definition limits_below :: "nat \<Rightarrow> jmap \<Rightarrow> bool" where
  "limits_below c m \<longleftrightarrow> (\<forall>k \<in> set LIMIT_KEYS. \<forall>n. Option.bind (map_of m k) as_u64 = Some n \<longrightarrow> n \<le> c)"

definition obeyed :: "nat \<Rightarrow> strip_rule \<Rightarrow> jmap \<Rightarrow> bool" where
  "obeyed model_limit r m \<longleftrightarrow>
     keys_dropped r m \<and> (ru_flatten_content r \<longrightarrow> contents_flat m)
     \<and> (case rule_ceiling r model_limit of Some c \<Rightarrow> limits_below c m | None \<Rightarrow> True)"

lemma in_array_keys: "map_of (in_array k f m) k' =
    (if k' = k then (case map_of m k of Some (JArr xs) \<Rightarrow> Some (JArr (f xs)) | v \<Rightarrow> v) else map_of m k')"
  by (auto simp: in_array_def map_simps split: option.split json.split)

lemma clamp_keys: "map_of (clamp_number c k m) k' =
    (case Option.bind (map_of m k) as_u64 of Some v \<Rightarrow> if k' = k \<and> v > c then Some (jnat c) else map_of m k' | None \<Rightarrow> map_of m k')"
  by (auto simp: clamp_number_def map_simps split: option.split)

lemma clamp_None: "map_of (clamp_number c k m) k' = None \<longleftrightarrow> map_of m k' = None"
  by (cases "map_of m k") (auto simp: clamp_keys split: option.split)

lemma clamp_u64: "Option.bind (map_of (clamp_number c k m) k') as_u64 = Some n \<Longrightarrow>
    \<exists>n'. Option.bind (map_of m k') as_u64 = Some n' \<and> n \<le> n' \<and> (k' = k \<longrightarrow> n \<le> c)"
  by (auto simp: clamp_keys jnat_def split: option.splits if_splits)

lemma clamps_None: "map_of (fold (clamp_number c) ks m) k' = None \<longleftrightarrow> map_of m k' = None"
  by (induction ks arbitrary: m) (simp_all add: clamp_None)

lemma clamps_u64: "Option.bind (map_of (fold (clamp_number c) ks m) k') as_u64 = Some n \<Longrightarrow>
    \<exists>n'. Option.bind (map_of m k') as_u64 = Some n' \<and> n \<le> n' \<and> (k' \<in> set ks \<longrightarrow> n \<le> c)"
proof (induction ks arbitrary: m)
  case (Cons k ks)
  then obtain n' where n': "Option.bind (map_of (clamp_number c k m) k') as_u64 = Some n'" "n \<le> n'" "k' \<in> set ks \<longrightarrow> n \<le> c"
    by auto
  from clamp_u64 [OF n'(1)] n'(2,3) show ?case by (auto intro: order_trans)
qed simp

lemma clamps_other: "k' \<notin> set ks \<Longrightarrow> map_of (fold (clamp_number c) ks m) k' = map_of m k'"
  by (induction ks arbitrary: m) (auto simp: clamp_keys split: option.split)

lemma apply_rule_None: "map_of m k = None \<Longrightarrow> map_of (apply_rule mx r m) k = None"
  by (auto simp: apply_rule_def Let_def clamps_None flatten_content_arrays_def in_array_keys map_of_fold_remove split: option.split)

lemma apply_rule_u64: "k \<noteq> ''messages'' \<Longrightarrow> Option.bind (map_of (apply_rule mx r m) k) as_u64 = Some n \<Longrightarrow>
    \<exists>n'. Option.bind (map_of m k) as_u64 = Some n' \<and> n \<le> n'"
  by (auto simp: apply_rule_def Let_def flatten_content_arrays_def in_array_keys map_of_fold_remove
      split: option.splits if_splits dest!: clamps_u64)

lemma apply_rule_messages: "map_of (apply_rule mx r m) ''messages'' =
    map_of (if ru_flatten_content r then flatten_content_arrays (fold bt_remove (ru_drop r) m)
            else fold bt_remove (ru_drop r) m) ''messages''"
proof -
  have "''messages'' \<notin> set LIMIT_KEYS" by (simp add: LIMIT_KEYS_def)
  then show ?thesis by (simp add: apply_rule_def Let_def clamps_other split: option.split)
qed

lemma flat_message: "jget (flatten_message_content x) ''content'' \<noteq> Some (JArr ys)"
  by (auto simp: flatten_message_content_def map_simps split: json.split option.split)

lemma flat_arrays: "contents_flat (flatten_content_arrays m)"
  using flat_message by (auto simp: contents_flat_def flatten_content_arrays_def in_array_keys list_all_iff split: option.split json.split)

lemma obeyed_after: "obeyed mx r (apply_rule mx r m)"
proof -
  have "keys_dropped r (apply_rule mx r m)"
    by (auto simp: keys_dropped_def apply_rule_def Let_def clamps_None flatten_content_arrays_def in_array_keys map_of_fold_remove
        split: option.split)
  moreover have "contents_flat (apply_rule mx r m)" if "ru_flatten_content r"
    using flat_arrays [of "fold bt_remove (ru_drop r) m"] that by (simp add: contents_flat_def apply_rule_messages)
  moreover have "limits_below c (apply_rule mx r m)" if "rule_ceiling r mx = Some c" for c
    using that by (auto simp: limits_below_def apply_rule_def Let_def dest!: clamps_u64)
  ultimately show ?thesis by (simp add: obeyed_def split: option.split)
qed

lemma contents_flat_kept: "contents_flat m \<Longrightarrow> contents_flat (apply_rule mx r' m)"
proof (cases "ru_flatten_content r'")
  case True
  then show ?thesis using flat_arrays [of "fold bt_remove (ru_drop r') m"] by (simp add: contents_flat_def apply_rule_messages)
next
  case False
  then show "contents_flat m \<Longrightarrow> ?thesis" by (simp add: contents_flat_def apply_rule_messages map_of_fold_remove)
qed

lemma obeyed_kept:
  assumes "obeyed mx r m"
  shows "obeyed mx r (apply_rule mx r' m)"
proof -
  have "keys_dropped r (apply_rule mx r' m)"
    using assms apply_rule_None by (simp add: obeyed_def keys_dropped_def)
  moreover have "limits_below c (apply_rule mx r' m)" if "rule_ceiling r mx = Some c" for c
  proof -
    have "n \<le> c" if "k \<in> set LIMIT_KEYS" "Option.bind (map_of (apply_rule mx r' m) k) as_u64 = Some n" for k n
    proof -
      have "k \<noteq> ''messages''" using that(1) by (auto simp: LIMIT_KEYS_def)
      from apply_rule_u64 [OF this that(2)] show ?thesis
        using assms that(1) \<open>rule_ceiling r mx = Some c\<close> by (fastforce simp: obeyed_def limits_below_def)
    qed
    then show ?thesis by (simp add: limits_below_def)
  qed
  ultimately show ?thesis using assms contents_flat_kept by (simp add: obeyed_def split: option.split)
qed

lemma obeyed_fold: "obeyed mx r m \<or> r \<in> set rs \<Longrightarrow> obeyed mx r (fold (apply_rule mx) rs m)"
  by (induction rs arbitrary: m) (auto simp: obeyed_after obeyed_kept)

text \<open>Whatever the body, every rule of the table that applies to the provider and model is obeyed after the
  pass, in spite of the rules applied after it.\<close>

lemma rules_obeyed:
  assumes "body = JObj m" "r \<in> set STRIP_RULES" "rule_applies r provider model"
  shows "\<exists>sent. strip_unsupported_params provider model body model_limit = JObj sent \<and> obeyed model_limit r sent"
  using assms obeyed_fold [of model_limit r m "filter (\<lambda>r. rule_applies r provider model) STRIP_RULES"]
  by (simp add: strip_unsupported_params_def strip_with_def)

section \<open>Media\<close>

definition placeholder_current :: "string \<Rightarrow> string" where
  "placeholder_current cap =
     (if cap = ''vision'' then ''[image omitted: model has no vision support]''
      else if cap = ''audio'' then ''[audio omitted: model has no audio support]''
      else if cap = ''pdf'' then ''[file omitted: model has no document support]''
      else ''[media omitted]'')"

definition placeholder_prev :: "string \<Rightarrow> string" where
  "placeholder_prev cap =
     (if cap = ''vision'' then ''[Previous image omitted from context.]''
      else if cap = ''audio'' then ''[Previous audio omitted from context.]''
      else if cap = ''pdf'' then ''[Previous file omitted from context.]''
      else ''[Previous media omitted from context.]'')"

definition cap_for_mime :: "string \<Rightarrow> string option" where
  "cap_for_mime mime =
     (if starts_with mime ''image/'' then Some ''vision''
      else if starts_with mime ''audio/'' then Some ''audio''
      else if mime = ''application/pdf'' then Some ''pdf'' else None)"

definition cap_by_type :: "(string list \<times> string) list \<Rightarrow> json \<Rightarrow> string option" where
  "cap_by_type table block =
     (case get_str block ''type'' of
        None \<Rightarrow> None | Some kind \<Rightarrow> map_option snd (find (\<lambda>(kinds, cap). kind \<in> set kinds) table))"

definition cap_for_openai_block :: "json \<Rightarrow> string option" where
  "cap_for_openai_block =
     cap_by_type [([''image_url'', ''image''], ''vision''), ([''input_audio'', ''audio_url''], ''audio''), ([''file''], ''pdf'')]"

definition cap_for_claude_block :: "json \<Rightarrow> string option" where
  "cap_for_claude_block = cap_by_type [([''image''], ''vision''), ([''document''], ''pdf'')]"

definition cap_for_responses_block :: "json \<Rightarrow> string option" where
  "cap_for_responses_block = cap_by_type [([''input_image''], ''vision''), ([''input_file''], ''pdf'')]"

definition cap_for_gemini_part :: "json \<Rightarrow> string option" where
  "cap_for_gemini_part part =
     Option.bind
       (Option.bind (opt_or (Option.bind (jget part ''inlineData'') (\<lambda>d. jget d ''mimeType''))
                            (Option.bind (jget part ''fileData'') (\<lambda>d. jget d ''mimeType''))) as_str)
       cap_for_mime"

definition lacks :: "capabilities \<Rightarrow> string \<Rightarrow> bool" where
  "lacks caps cap \<longleftrightarrow>
     (if cap = ''vision'' then \<not> cp_vision caps
      else if cap = ''audio'' then \<not> cp_audio_input caps
      else if cap = ''pdf'' then \<not> cp_pdf caps else False)"

definition unreadable :: "(json \<Rightarrow> string option) \<Rightarrow> capabilities \<Rightarrow> json \<Rightarrow> bool" where
  "unreadable cap_of caps block \<longleftrightarrow> (case cap_of block of Some cap \<Rightarrow> lacks caps cap | None \<Rightarrow> False)"

text \<open>The blocks a model can read, then one placeholder for every block it cannot.\<close>

definition strip_content ::
    "(json \<Rightarrow> string option) \<Rightarrow> (string \<Rightarrow> json) \<Rightarrow> capabilities \<Rightarrow> bool \<Rightarrow> json list \<Rightarrow> json list" where
  "strip_content cap_of note caps is_last content =
     filter (\<lambda>b. \<not> unreadable cap_of caps b) content
     @ map (\<lambda>b. note ((if is_last then placeholder_current else placeholder_prev) (the (cap_of b))))
         (filter (unreadable cap_of caps) content)"

definition strip_member ::
    "string \<Rightarrow> (json \<Rightarrow> string option) \<Rightarrow> (string \<Rightarrow> json) \<Rightarrow> capabilities \<Rightarrow> bool \<Rightarrow> json \<Rightarrow> json" where
  "strip_member k cap_of note caps is_last entry =
     (case entry of JObj m \<Rightarrow> JObj (in_array k (strip_content cap_of note caps is_last) m) | _ \<Rightarrow> entry)"

definition strip_entries ::
    "string \<Rightarrow> (json \<Rightarrow> string option) \<Rightarrow> (string \<Rightarrow> json) \<Rightarrow> capabilities \<Rightarrow> json list \<Rightarrow> json list" where
  "strip_entries k cap_of note caps entries =
     map (\<lambda>(i, entry). strip_member k cap_of note caps (i = length entries - 1) entry) (enumerate 0 entries)"

definition responses_note :: "string \<Rightarrow> json" where
  "responses_note t = jobj [(''type'', JStr ''input_text''), (''text'', JStr t)]"

definition gemini_note :: "string \<Rightarrow> json" where "gemini_note t = jobj [(''text'', JStr t)]"

text \<open>Where a dialect keeps its media: the list of turns, the list in a turn, the reader and the placeholder.\<close>

definition media_place :: "wire_format \<Rightarrow> string \<times> string \<times> (json \<Rightarrow> string option) \<times> (string \<Rightarrow> json)" where
  "media_place format =
     (case format of
        Claude \<Rightarrow> (''messages'', ''content'', cap_for_claude_block, text_block)
      | OpenAiResponses \<Rightarrow> (''input'', ''content'', cap_for_responses_block, responses_note)
      | Gemini \<Rightarrow> (''contents'', ''parts'', cap_for_gemini_part, gemini_note)
      | GeminiCli \<Rightarrow> (''contents'', ''parts'', cap_for_gemini_part, gemini_note)
      | Vertex \<Rightarrow> (''contents'', ''parts'', cap_for_gemini_part, gemini_note)
      | _ \<Rightarrow> (''messages'', ''content'', cap_for_openai_block, text_block))"

definition strip_unsupported_modalities :: "json \<Rightarrow> wire_format \<Rightarrow> capabilities \<Rightarrow> json" where
  "strip_unsupported_modalities body format caps =
     (if cp_vision caps \<and> cp_audio_input caps \<and> cp_pdf caps then body
      else (case body of
        JObj m \<Rightarrow>
          (case media_place format of
             (turns, k, cap_of, note) \<Rightarrow> JObj (in_array turns (strip_entries k cap_of note caps) m))
      | _ \<Rightarrow> body))"

subsection \<open>No media the model cannot read\<close>

text \<open>
  What a medium is, as the dialects write it and not as the pass reads it: in Claude, OpenAI and Responses
  a block of one of the types below, in Gemini a part with a media type in \<open>inlineData\<close> or \<open>fileData\<close>, where the
  API takes the names in snake case as well. \<open>overlooked\<close> are the Gemini parts the pass does not recognise.
\<close>

datatype medium = Picture | Sound | Paper

definition can_read :: "capabilities \<Rightarrow> medium \<Rightarrow> bool" where
  "can_read caps kind = (case kind of Picture \<Rightarrow> cp_vision caps | Sound \<Rightarrow> cp_audio_input caps | Paper \<Rightarrow> cp_pdf caps)"

definition gemini_dialect :: "wire_format \<Rightarrow> bool" where
  "gemini_dialect format \<longleftrightarrow> format \<in> {Gemini, GeminiCli, Vertex}"

definition block_types :: "wire_format \<Rightarrow> medium \<Rightarrow> string list" where
  "block_types format kind =
     (if format = Claude then (case kind of Picture \<Rightarrow> [''image''] | Sound \<Rightarrow> [] | Paper \<Rightarrow> [''document''])
      else if format = OpenAiResponses
      then (case kind of Picture \<Rightarrow> [''input_image''] | Sound \<Rightarrow> [] | Paper \<Rightarrow> [''input_file''])
      else (case kind of Picture \<Rightarrow> [''image_url'', ''image''] | Sound \<Rightarrow> [''input_audio'', ''audio_url''] | Paper \<Rightarrow> [''file'']))"

definition mime_is :: "medium \<Rightarrow> string \<Rightarrow> bool" where
  "mime_is kind t = (case kind of Picture \<Rightarrow> take 6 t = ''image/'' | Sound \<Rightarrow> take 6 t = ''audio/'' | Paper \<Rightarrow> t = ''application/pdf'')"

definition mime_at :: "json \<Rightarrow> string \<Rightarrow> string \<Rightarrow> json option" where
  "mime_at part holder key = Option.bind (jget part holder) (\<lambda>data. jget data key)"

definition mime_stated :: "medium \<Rightarrow> json \<Rightarrow> string \<Rightarrow> string \<Rightarrow> bool" where
  "mime_stated kind part holder key = (case mime_at part holder key of Some (JStr t) \<Rightarrow> mime_is kind t | _ \<Rightarrow> False)"

definition carries :: "wire_format \<Rightarrow> medium \<Rightarrow> json \<Rightarrow> bool" where
  "carries format kind b =
     (if gemini_dialect format
      then list_ex (\<lambda>holder. list_ex (mime_stated kind b holder) [''mimeType'', ''mime_type''])
             [''inlineData'', ''fileData'', ''inline_data'', ''file_data'']
      else list_ex (\<lambda>t. get_str b ''type'' = Some t) (block_types format kind))"

definition overlooked :: "wire_format \<Rightarrow> medium \<Rightarrow> json \<Rightarrow> bool" where
  "overlooked format kind b \<longleftrightarrow>
     gemini_dialect format \<and> \<not> mime_stated kind b ''inlineData'' ''mimeType''
       \<and> \<not> (mime_at b ''inlineData'' ''mimeType'' = None \<and> mime_stated kind b ''fileData'' ''mimeType'')"

text \<open>The medium for which a block has to go, the text in its place, and the list a turn must hold.\<close>

definition unread_medium :: "wire_format \<Rightarrow> capabilities \<Rightarrow> json \<Rightarrow> medium option" where
  "unread_medium format caps b =
     find (\<lambda>kind. carries format kind b \<and> \<not> overlooked format kind b \<and> \<not> can_read caps kind) [Picture, Sound, Paper]"

definition omission_text :: "bool \<Rightarrow> medium \<Rightarrow> string" where
  "omission_text newest kind =
     (case kind of
        Picture \<Rightarrow> if newest then ''[image omitted: model has no vision support]'' else ''[Previous image omitted from context.]''
      | Sound \<Rightarrow> if newest then ''[audio omitted: model has no audio support]'' else ''[Previous audio omitted from context.]''
      | Paper \<Rightarrow> if newest then ''[file omitted: model has no document support]'' else ''[Previous file omitted from context.]'')"

definition omission :: "wire_format \<Rightarrow> string \<Rightarrow> json" where
  "omission format t =
     (if gemini_dialect format then jobj [(''text'', JStr t)]
      else jobj [(''type'', JStr (if format = OpenAiResponses then ''input_text'' else ''text'')), (''text'', JStr t)])"

definition readable_list :: "wire_format \<Rightarrow> capabilities \<Rightarrow> bool \<Rightarrow> json list \<Rightarrow> json list" where
  "readable_list format caps newest bs =
     filter (\<lambda>b. unread_medium format caps b = None) bs
     @ map (\<lambda>kind. omission format (omission_text newest kind)) (List.map_filter (unread_medium format caps) bs)"

definition media_turns :: "wire_format \<Rightarrow> string" where
  "media_turns format =
     (if gemini_dialect format then ''contents'' else if format = OpenAiResponses then ''input'' else ''messages'')"

definition media_member :: "wire_format \<Rightarrow> string" where
  "media_member format = (if gemini_dialect format then ''parts'' else ''content'')"

definition turn_lists :: "wire_format \<Rightarrow> json \<Rightarrow> json list list" where
  "turn_lists format body = map (\<lambda>entry. get_list entry (media_member format)) (get_list body (media_turns format))"

lemma mime_exclusive: "mime_is k t \<Longrightarrow> mime_is k' t \<Longrightarrow> k = k'"
  by (cases k; cases k') (auto simp: mime_is_def)

definition medium_cap :: "medium \<Rightarrow> string" where
  "medium_cap kind = (case kind of Picture \<Rightarrow> ''vision'' | Sound \<Rightarrow> ''audio'' | Paper \<Rightarrow> ''pdf'')"

lemma cap_for_mime_medium: "cap_for_mime t = map_option medium_cap (find (\<lambda>kind. mime_is kind t) [Picture, Sound, Paper])"
proof -
  have six: "Suc (Suc (Suc (Suc (Suc (Suc 0))))) = 6" by simp
  show ?thesis by (auto simp: cap_for_mime_def mime_is_def medium_cap_def starts_with_def six)
qed

lemma lacks_medium: "lacks caps (medium_cap kind) \<longleftrightarrow> \<not> can_read caps kind"
  by (cases kind) (simp_all add: lacks_def can_read_def medium_cap_def)

lemma placeholder_medium:
  "(if newest then placeholder_current else placeholder_prev) (medium_cap kind) = omission_text newest kind"
  by (cases kind) (simp_all add: placeholder_current_def placeholder_prev_def omission_text_def medium_cap_def)

text \<open>What the pass reads of a block is the medium it carries, unless it overlooks it.\<close>

definition seen_medium :: "wire_format \<Rightarrow> json \<Rightarrow> medium option" where
  "seen_medium format b = find (\<lambda>kind. carries format kind b \<and> \<not> overlooked format kind b) [Picture, Sound, Paper]"

lemma seen_gemini:
  assumes "gemini_dialect format"
  shows "carries format kind b \<and> \<not> overlooked format kind b \<longleftrightarrow>
    (case opt_or (mime_at b ''inlineData'' ''mimeType'') (mime_at b ''fileData'' ''mimeType'') of
       Some (JStr t) \<Rightarrow> mime_is kind t | _ \<Rightarrow> False)"
  using assms by (cases "mime_at b ''inlineData'' ''mimeType''")
    (auto simp: carries_def overlooked_def mime_stated_def opt_or_def)

lemma seen_unique:
  assumes "carries format k b \<and> \<not> overlooked format k b" "carries format k' b \<and> \<not> overlooked format k' b"
  shows "k = k'"
proof (cases "gemini_dialect format")
  case True
  show ?thesis using assms unfolding seen_gemini [OF True]
    by (auto split: option.splits json.splits intro: mime_exclusive)
next
  case False
  then show ?thesis using assms
    by (cases k; cases k') (auto simp: carries_def block_types_def split: if_splits)
qed

lemma find_filtered:
  assumes "\<And>x y. P x \<Longrightarrow> P y \<Longrightarrow> x = y"
  shows "find (\<lambda>x. P x \<and> Q x) xs = (case find P xs of Some x \<Rightarrow> if Q x then Some x else None | None \<Rightarrow> None)"
proof (induction xs)
  case (Cons x xs)
  show ?case
  proof (cases "P x \<and> \<not> Q x")
    case True
    then have "find (\<lambda>x. P x \<and> Q x) xs = None" using assms [of x] by (auto simp: find_None_iff)
    with True show ?thesis by simp
  next
    case False
    with Cons show ?thesis by auto
  qed
qed simp

lemma unread_seen:
  "unread_medium format caps b =
     (case seen_medium format b of Some kind \<Rightarrow> if \<not> can_read caps kind then Some kind else None | None \<Rightarrow> None)"
  unfolding unread_medium_def seen_medium_def conj_assoc [symmetric] by (rule find_filtered) (rule seen_unique)

lemma seen_plain:
  assumes "\<not> gemini_dialect format"
  shows "seen_medium format b = (case get_str b ''type'' of
    None \<Rightarrow> None | Some t \<Rightarrow> find (\<lambda>kind. t \<in> set (block_types format kind)) [Picture, Sound, Paper])"
  using assms by (simp add: seen_medium_def carries_def overlooked_def list_ex_iff split: option.split)

lemma caps_plain:
  "cap_for_openai_block b = (case get_str b ''type'' of None \<Rightarrow> None | Some t \<Rightarrow>
     if t = ''image_url'' \<or> t = ''image'' then Some ''vision''
     else if t = ''input_audio'' \<or> t = ''audio_url'' then Some ''audio'' else if t = ''file'' then Some ''pdf'' else None)"
  "cap_for_claude_block b = (case get_str b ''type'' of None \<Rightarrow> None | Some t \<Rightarrow>
     if t = ''image'' then Some ''vision'' else if t = ''document'' then Some ''pdf'' else None)"
  "cap_for_responses_block b = (case get_str b ''type'' of None \<Rightarrow> None | Some t \<Rightarrow>
     if t = ''input_image'' then Some ''vision'' else if t = ''input_file'' then Some ''pdf'' else None)"
  by (simp_all add: cap_for_openai_block_def cap_for_claude_block_def cap_for_responses_block_def cap_by_type_def
      split: option.split)

lemma cap_plain:
  assumes "\<not> gemini_dialect format"
  shows "(if format = Claude then cap_for_claude_block b else if format = OpenAiResponses then cap_for_responses_block b
      else cap_for_openai_block b) = map_option medium_cap (seen_medium format b)"
  unfolding seen_plain [OF assms] caps_plain
  by (simp add: block_types_def medium_cap_def split: option.split)

lemma place_spec:
  assumes "media_place format = (turns, k, cap_of, note)"
  shows "turns = media_turns format" "k = media_member format" "note t = omission format t"
    "cap_of b = map_option medium_cap (seen_medium format b)"
proof -
  show "turns = media_turns format" "k = media_member format" "note t = omission format t"
    using assms by (cases format; simp add: media_place_def media_turns_def media_member_def omission_def gemini_dialect_def
        text_block_def responses_note_def gemini_note_def)+
  show "cap_of b = map_option medium_cap (seen_medium format b)"
  proof (cases "gemini_dialect format")
    case True
    then have "cap_of = cap_for_gemini_part" using assms by (cases format) (simp_all add: media_place_def gemini_dialect_def)
    then show ?thesis unfolding seen_medium_def seen_gemini [OF True]
      by (auto simp: cap_for_gemini_part_def mime_at_def cap_for_mime_medium split: option.split json.split Option.bind_splits)
  next
    case False
    then have "cap_of b = (if format = Claude then cap_for_claude_block b
        else if format = OpenAiResponses then cap_for_responses_block b else cap_for_openai_block b)"
      using assms by (cases format) (simp_all add: media_place_def gemini_dialect_def)
    then show ?thesis using cap_plain [OF False] by simp
  qed
qed

lemma strip_content_spec:
  assumes "media_place format = (turns, k, cap_of, note)"
  shows "strip_content cap_of note caps newest bs = readable_list format caps newest bs"
proof -
  note spec = place_spec [OF assms]
  have gone: "unreadable cap_of caps b \<longleftrightarrow> unread_medium format caps b \<noteq> None" for b
    by (auto simp: unreadable_def spec(4) unread_seen lacks_medium split: option.split)
  have marked: "note ((if newest then placeholder_current else placeholder_prev) (the (cap_of b))) =
      omission format (omission_text newest (the (unread_medium format caps b)))"
    if "unread_medium format caps b \<noteq> None" for b
    using that unfolding spec(3,4) placeholder_medium [symmetric]
    by (auto simp: unread_seen split: option.splits if_splits)
  have "map (\<lambda>b. note ((if newest then placeholder_current else placeholder_prev) (the (cap_of b))))
        (filter (\<lambda>b. unread_medium format caps b \<noteq> None) bs) =
      map (\<lambda>kind. omission format (omission_text newest kind)) (List.map_filter (unread_medium format caps) bs)"
    using marked by (simp add: List.map_filter_def o_def)
  then show ?thesis unfolding strip_content_def readable_list_def gone by simp
qed

lemma get_list_in_array: "get_list (JObj (in_array k f m)) k = (case map_of m k of Some (JArr xs) \<Rightarrow> f xs | _ \<Rightarrow> [])"
  by (simp add: get_list_def in_array_keys split: option.split json.split)

lemma get_list_member: "get_list (JObj m) k = (case map_of m k of Some (JArr xs) \<Rightarrow> xs | _ \<Rightarrow> [])"
  by (simp add: get_list_def split: option.split json.split)

lemma strip_member_list:
  "get_list (strip_member k cap_of note caps is_last entry) k = strip_content cap_of note caps is_last (get_list entry k)"
proof (cases entry)
  case (JObj m)
  have "strip_content cap_of note caps is_last [] = []" by (simp add: strip_content_def)
  then show ?thesis
    unfolding JObj strip_member_def json.case get_list_in_array unfolding get_list_member
    by (auto split: option.split json.split)
qed (simp_all add: strip_member_def get_list_def strip_content_def)

lemma omission_readable: "unread_medium format caps (omission format t) = None"
  by (auto simp: unread_medium_def carries_def omission_def block_types_def mime_stated_def mime_at_def get_str_def jget_jobj
      split: medium.split)

lemma readable_list_clean: "list_all (\<lambda>b. unread_medium format caps b = None) (readable_list format caps newest bs)"
  by (auto simp: readable_list_def list_all_iff omission_readable)

text \<open>C24: After the pass the content list of every turn, in whichever dialect the body is, holds its readable
  blocks in order and then, for each block with a medium the model cannot read, the dialect's text block that
  names the medium, worded for the last turn or an earlier one; so no such block is left. What a medium is stands in tables
  of the dialects. The exceptions: a Gemini part the pass overlooks because its media type is not under
  \<open>inlineData.mimeType\<close> (or, without that, \<open>fileData.mimeType\<close>), the snake case spelling in particular,
  which the OpenAI translator itself writes; and media nested deeper than a turn's own list, in a tool result say, which the pass never looks at.\<close>

theorem unreadable_media_replaced:
  "turn_lists format (strip_unsupported_modalities body format caps) =
     map (\<lambda>(i, bs). readable_list format caps (i = length (turn_lists format body) - 1) bs)
       (enumerate 0 (turn_lists format body))
   \<and> list_all (list_all (\<lambda>b. unread_medium format caps b = None))
       (turn_lists format (strip_unsupported_modalities body format caps))"
proof -
  obtain turns k cap_of mark where place: "media_place format = (turns, k, cap_of, mark)" by (metis prod_cases4)
  note spec = place_spec [OF place] and content = strip_content_spec [OF place]
  have lists: "turn_lists format (strip_unsupported_modalities body format caps) =
     map (\<lambda>(i, bs). readable_list format caps (i = length (turn_lists format body) - 1) bs)
       (enumerate 0 (turn_lists format body))"
  proof (cases "cp_vision caps \<and> cp_audio_input caps \<and> cp_pdf caps")
    case True
    then have "unread_medium format caps b = None" for b
      by (auto simp: unread_medium_def can_read_def split: medium.split)
    then have "readable_list format caps l bs = bs" for l bs by (simp add: readable_list_def List.map_filter_def)
    moreover have "map (\<lambda>(i, bs). bs) (enumerate 0 xs) = xs" for xs :: "json list list"
      by (rule nth_equalityI) (simp_all add: nth_enumerate_eq)
    ultimately show ?thesis using True by (simp add: strip_unsupported_modalities_def)
  next
    case False
    show ?thesis
    proof (cases body)
      case (JObj m)
      have stripped: "strip_unsupported_modalities body format caps = JObj (in_array turns (strip_entries k cap_of mark caps) m)"
        by (simp only: strip_unsupported_modalities_def False if_False JObj json.case place prod.case)
      have "map (\<lambda>entry. get_list entry k) (strip_entries k cap_of mark caps xs) =
          map (\<lambda>(i, bs). readable_list format caps (i = length xs - 1) bs) (enumerate 0 (map (\<lambda>entry. get_list entry k) xs))" for xs
        by (rule nth_equalityI) (simp_all add: strip_entries_def nth_enumerate_eq strip_member_list content)
      then show ?thesis
        unfolding turn_lists_def spec(1,2) [symmetric] stripped get_list_in_array unfolding JObj get_list_member
        by (simp split: option.split json.split)
    qed (simp_all add: strip_unsupported_modalities_def False turn_lists_def get_list_def)
  qed
  moreover have "list_all (list_all (\<lambda>b. unread_medium format caps b = None))
      (map (\<lambda>(i, bs). readable_list format caps (i = n) bs) xs)" for n and xs :: "(nat \<times> json list) list"
    using readable_list_clean by (auto simp: list_all_iff [where P = "list_all _"])
  ultimately show ?thesis by simp
qed

text \<open>An image an OpenAI client sent inline is written for Gemini under another name than the pass reads: it stays.\<close>

lemma inline_image_unseen: "cap_for_gemini_part (inline_data mime data) = None"
  by (simp add: cap_for_gemini_part_def inline_data_def jget_jobj)

end
