(* ===== verification/Ollama_Request.thy ===== *)
theory Ollama_Request
  imports Gemini_Request
begin

text \<open>
  Requests from the OpenAI dialect to Ollama's
  (\<open>crates/translate/src/request/openai_to_ollama.rs\<close>): contents become strings, images raw base64, and
  a tool result is addressed by the name of its tool.
\<close>

section \<open>Messages\<close>

definition ollama_call_names :: "json list \<Rightarrow> name_map" where
  "ollama_call_names messages =
     fold (\<lambda>message names.
       if get_str message ''role'' = Some ''assistant'' then fold note_call (get_list message ''tool_calls'') names else names)
       messages []"

definition normalize_content :: "json option \<Rightarrow> string" where
  "normalize_content content =
     (case content of
        Some (JStr text) \<Rightarrow> text
      | Some (JArr blocks) \<Rightarrow>
          join_with [nl] (List.map_filter (\<lambda>b. get_str b ''text'') (filter (\<lambda>b. get_str b ''type'' = Some ''text'') blocks))
      | _ \<Rightarrow> [])"

definition base64_from_data_uri :: "string \<Rightarrow> string option" where
  "base64_from_data_uri url =
     (case Option.bind (strip_prefix url ''data:'') (after_first '';base64,'') of
        Some (c # cs) \<Rightarrow> Some (c # cs) | _ \<Rightarrow> None)"

definition image_url :: "json \<Rightarrow> string option" where
  "image_url block =
     (case jget block ''image_url'' of
        Some (JStr text) \<Rightarrow> Some text
      | Some other \<Rightarrow> get_str other ''url''
      | None \<Rightarrow> None)"

definition extract_images :: "json option \<Rightarrow> string list" where
  "extract_images content =
     (case content of
        Some (JArr blocks) \<Rightarrow>
          List.map_filter base64_from_data_uri
            (List.map_filter image_url (filter (\<lambda>b. get_str b ''type'' = Some ''image_url'') blocks))
      | _ \<Rightarrow> [])"

definition call_index_of :: "json \<Rightarrow> nat" where
  "call_index_of call = opt_default 0 (Option.bind (jget call ''index'') as_u64)"

definition ollama_arguments :: "(string \<Rightarrow> json option) \<Rightarrow> json option \<Rightarrow> json" where
  "ollama_arguments parse_json raw =
     (case raw of
        Some (JStr text) \<Rightarrow>
          (let parsed = safe_parse_json parse_json text in if is_object parsed then parsed else jobj [])
      | Some other \<Rightarrow> other
      | None \<Rightarrow> jobj [])"

definition ollama_tool_call :: "(string \<Rightarrow> json option) \<Rightarrow> json \<Rightarrow> json" where
  "ollama_tool_call parse_json call =
     jobj [(''type'', JStr ''function''),
       (''function'', jobj [(''index'', jnat (call_index_of call)),
          (''name'', JStr (opt_default [] (function_name call))),
          (''arguments'', ollama_arguments parse_json (Option.bind (jget call ''function'') (\<lambda>f. jget f ''arguments'')))])]"

definition tool_name_for :: "name_map \<Rightarrow> json \<Rightarrow> string" where
  "tool_name_for names message =
     opt_default ''unknown_tool''
       (opt_or (Option.bind (get_str message ''tool_call_id'') (map_of names)) (get_str message ''name''))"

definition ollama_message :: "(string \<Rightarrow> json option) \<Rightarrow> name_map \<Rightarrow> json \<Rightarrow> json list" where
  "ollama_message parse_json names message =
     (let role = opt_default [] (get_str message ''role'');
          content = normalize_content (jget message ''content'');
          images = extract_images (jget message ''content'')
      in if role = ''tool'' then
           (if content = [] then []
            else [jobj [(''role'', JStr ''tool''), (''tool_name'', JStr (tool_name_for names message)), (''content'', JStr content)]])
         else
           (case (role = ''assistant'', Option.bind (jget message ''tool_calls'') as_array) of
              (True, Some calls) \<Rightarrow>
                [jobj [(''role'', JStr ''assistant''), (''content'', JStr content),
                       (''tool_calls'', JArr (map (ollama_tool_call parse_json) calls))]]
            | _ \<Rightarrow>
                if content = [] \<and> images = [] \<and> role \<noteq> ''assistant'' then []
                else [jobj ([(''role'', JStr role), (''content'', JStr content)]
                        @ (if images = [] then [] else [(''images'', JArr (map JStr images))]))]))"

definition normalize_messages :: "(string \<Rightarrow> json option) \<Rightarrow> json \<Rightarrow> json" where
  "normalize_messages parse_json body =
     (case jget body ''messages'' of
        Some (JArr messages) \<Rightarrow> JArr (concat (map (ollama_message parse_json (ollama_call_names messages)) messages))
      | Some other \<Rightarrow> other
      | None \<Rightarrow> JNull)"

definition present_value :: "json \<Rightarrow> string \<Rightarrow> json option" where
  "present_value body k = (case jget body k of Some v \<Rightarrow> if v = JNull then None else Some v | None \<Rightarrow> None)"

definition ollama_options :: "json \<Rightarrow> jmap" where
  "ollama_options body =
     fold (\<lambda>(source, target) opts. case present_value body source of Some v \<Rightarrow> bt_insert target v opts | None \<Rightarrow> opts)
       [(''temperature'', ''temperature''), (''max_tokens'', ''num_predict''), (''top_p'', ''top_p'')] []"

definition openai_to_ollama :: "(string \<Rightarrow> json option) \<Rightarrow> string \<Rightarrow> json \<Rightarrow> bool \<Rightarrow> json" where
  "openai_to_ollama parse_json model body stream =
     jobj ([(''model'', JStr model), (''messages'', normalize_messages parse_json body), (''stream'', JBool stream)]
       @ (if ollama_options body = [] then [] else [(''options'', JObj (ollama_options body))])
       @ (case jget body ''tools'' of Some (JArr tools) \<Rightarrow> [(''tools'', JArr tools)] | _ \<Rightarrow> [])
       @ (case present_value body ''tool_choice'' of Some choice \<Rightarrow> [(''tool_choice'', choice)] | None \<Rightarrow> []))"

section \<open>What Ollama gets\<close>

fun plain_image :: "json \<Rightarrow> bool" where
  "plain_image (JStr t) \<longleftrightarrow> t \<noteq> []"
| "plain_image _ \<longleftrightarrow> False"

definition ollama_message_ok :: "json \<Rightarrow> bool" where
  "ollama_message_ok m \<longleftrightarrow>
     (case (get_str m ''role'', get_str m ''content'') of
        (Some role, Some content) \<Rightarrow>
          (case jget m ''images'' of
             None \<Rightarrow> content \<noteq> [] \<or> role = ''assistant''
           | Some (JArr images) \<Rightarrow> images \<noteq> [] \<and> list_all plain_image images
           | _ \<Rightarrow> False)
          \<and> (role = ''tool'' \<longrightarrow> get_str m ''tool_name'' \<noteq> None)
      | _ \<Rightarrow> False)"

lemma images_nonempty: "i \<in> set (extract_images content) \<Longrightarrow> i \<noteq> []"
  by (auto simp: extract_images_def base64_from_data_uri_def map_filter_def split: option.splits json.splits list.splits)

lemma ollama_message_typed: "\<forall>m \<in> set (ollama_message parse_json names message). ollama_message_ok m"
proof -
  have "list_all plain_image (map JStr (extract_images content))" for content
    using images_nonempty [of _ content] by (auto simp: list_all_iff)
  then show ?thesis
    by (auto simp: ollama_message_def Let_def ollama_message_ok_def get_str_def jget_jobj split: option.splits bool.splits if_splits)
qed

text \<open>Every message Ollama gets has a role and a content that is a string; its images are plain base64 texts; a turn
  without text and image is sent for the assistant only; a tool result names a tool.\<close>

theorem ollama_messages_typed:
  assumes "jget body ''messages'' = Some (JArr messages)"
  shows "\<exists>out. jget (openai_to_ollama parse_json model body stream) ''messages'' = Some (JArr out)
     \<and> (\<forall>m \<in> set out. ollama_message_ok m)"
proof -
  let ?out = "concat (map (ollama_message parse_json (ollama_call_names messages)) messages)"
  have "jget (openai_to_ollama parse_json model body stream) ''messages'' = Some (normalize_messages parse_json body)"
    unfolding openai_to_ollama_def by (rule jget_jobj_once) (auto split: option.splits if_splits json.splits)
  then have "jget (openai_to_ollama parse_json model body stream) ''messages'' = Some (JArr ?out)"
    using assms by (simp add: normalize_messages_def)
  moreover have "\<forall>m \<in> set ?out. ollama_message_ok m" using ollama_message_typed by auto
  ultimately show ?thesis by blast
qed

theorem ollama_messages_typed_witness:
  "\<exists>out. jget (openai_to_ollama (\<lambda>_. None) ''m'' (JObj [(''messages'', JArr [])]) True) ''messages'' = Some (JArr out)
     \<and> (\<forall>m \<in> set out. ollama_message_ok m)"
  by (rule ollama_messages_typed [where messages = "[]"]) simp

end
