(* ===== verification/Responses_Request.thy ===== *)
theory Responses_Request
  imports Gemini_Request
begin

text \<open>
  Requests from the Responses API to chat completions
  (\<open>crates/translate/src/request/responses_to_openai.rs\<close>): the flat list of typed items is regrouped
  into messages. Printing JSON text is the parameter \<open>render_json\<close>.
\<close>

section \<open>Items\<close>

definition MAX_CALL_ID_LEN :: nat where "MAX_CALL_ID_LEN = 64"

definition clamp_call_id :: "json option \<Rightarrow> json" where
  "clamp_call_id v =
     (case v of
        None \<Rightarrow> JNull
      | Some (JStr i) \<Rightarrow> JStr (if MAX_CALL_ID_LEN < length i then take_chars MAX_CALL_ID_LEN i else i)
      | Some other \<Rightarrow> other)"

definition user_item :: "string \<Rightarrow> json" where
  "user_item text =
     jobj [(''type'', JStr ''message''), (''role'', JStr ''user''),
           (''content'', JArr [jobj [(''type'', JStr ''input_text''), (''text'', JStr text)]])]"

definition normalize_input :: "json \<Rightarrow> json list option" where
  "normalize_input input =
     (case input of
        JStr text \<Rightarrow> Some [user_item (if trim text = [] then ''...'' else text)]
      | JArr items \<Rightarrow> Some (if items = [] then [user_item ''...''] else items)
      | _ \<Rightarrow> None)"

definition summary_text :: "json \<Rightarrow> string \<Rightarrow> string" where
  "summary_text entry key =
     join_with [nl] (filter (\<lambda>t. t \<noteq> []) (List.map_filter (\<lambda>part. get_str part ''text'') (get_list entry key)))"

definition reasoning_text :: "json \<Rightarrow> string" where
  "reasoning_text entry =
     (if summary_text entry ''summary'' \<noteq> [] then summary_text entry ''summary'' else summary_text entry ''content'')"

record pending_reasoning =
  pr_text :: string
  pr_encrypted :: string

definition no_reasoning :: pending_reasoning where "no_reasoning = \<lparr>pr_text = [], pr_encrypted = []\<rparr>"

definition attach :: "pending_reasoning \<Rightarrow> jmap \<Rightarrow> jmap" where
  "attach p message =
     (let m1 = (if pr_text p \<noteq> [] then bt_insert ''reasoning_content'' (JStr (pr_text p)) message else message)
      in if pr_encrypted p \<noteq> [] then bt_insert ''encrypted_content'' (JStr (pr_encrypted p)) m1 else m1)"

definition chat_part :: "json \<Rightarrow> json" where
  "chat_part part =
     (case get_str part ''type'' of
        None \<Rightarrow> part
      | Some kind \<Rightarrow>
          if kind = ''input_text'' \<or> kind = ''output_text'' then
            jobj [(''type'', JStr ''text''), (''text'', field_or_null part ''text'')]
          else if kind = ''input_image'' then
            jobj [(''type'', JStr ''image_url''),
              (''image_url'', jobj
                [(''url'', opt_default (JStr []) (opt_or (jget part ''image_url'') (jget part ''file_id''))),
                 (''detail'', opt_default (JStr ''auto'') (jget part ''detail''))])]
          else part)"

definition chat_content :: "json option \<Rightarrow> json" where
  "chat_content content =
     (case content of Some (JArr parts) \<Rightarrow> JArr (map chat_part parts) | Some other \<Rightarrow> other | None \<Rightarrow> JNull)"

definition as_text :: "(json \<Rightarrow> string) \<Rightarrow> json \<Rightarrow> string" where
  "as_text render_json v = opt_default (render_json v) (as_str v)"

definition item_kind :: "json \<Rightarrow> string" where
  "item_kind entry =
     opt_default [] (opt_or (get_str entry ''type'') (map_option (\<lambda>_. ''message'') (jget entry ''role'')))"

definition trimmed_name :: "json \<Rightarrow> string option" where
  "trimmed_name v =
     (case map_option trim (get_str v ''name'') of Some (c # cs) \<Rightarrow> Some (c # cs) | _ \<Rightarrow> None)"

definition call_arguments_text :: "(json \<Rightarrow> string) \<Rightarrow> json \<Rightarrow> string" where
  "call_arguments_text render_json entry =
     (if item_kind entry = ''custom_tool_call'' then
        render_json (jobj [(''input'', JStr (case jget entry ''input'' of None \<Rightarrow> [] | Some v \<Rightarrow> as_text render_json v))])
      else (case jget entry ''arguments'' of None \<Rightarrow> ''{}'' | Some v \<Rightarrow> as_text render_json v))"

definition chat_call :: "(json \<Rightarrow> string) \<Rightarrow> json \<Rightarrow> string \<Rightarrow> json" where
  "chat_call render_json entry name =
     jobj [(''id'', clamp_call_id (jget entry ''call_id'')), (''type'', JStr ''function''),
       (''function'', jobj [(''name'', JStr name), (''arguments'', JStr (call_arguments_text render_json entry))])]"

definition tool_reply :: "(json \<Rightarrow> string) \<Rightarrow> json \<Rightarrow> json" where
  "tool_reply render_json entry =
     jobj [(''role'', JStr ''tool''), (''tool_call_id'', clamp_call_id (jget entry ''call_id'')),
       (''content'', JStr (case jget entry ''output'' of None \<Rightarrow> [] | Some v \<Rightarrow> as_text render_json v))]"

section \<open>The regrouping\<close>

record regroup =
  rg_messages :: "json list"
  rg_assistant :: "jmap option"
  rg_pending :: pending_reasoning
  rg_tools :: "json list"

definition close_assistant :: "regroup \<Rightarrow> regroup" where
  "close_assistant s =
     (case rg_assistant s of
        None \<Rightarrow> s | Some m \<Rightarrow> s\<lparr>rg_messages := rg_messages s @ [JObj m], rg_assistant := None\<rparr>)"

definition push_message :: "json \<Rightarrow> regroup \<Rightarrow> regroup" where
  "push_message m s = s\<lparr>rg_messages := rg_messages s @ [m]\<rparr>"

definition assistant_turn :: jmap where
  "assistant_turn =
     bt_insert ''tool_calls'' (JArr []) (bt_insert ''content'' JNull (bt_insert ''role'' (JStr ''assistant'') []))"

definition push_call :: "json \<Rightarrow> jmap \<Rightarrow> jmap" where
  "push_call call m =
     (case map_of m ''tool_calls'' of Some (JArr calls) \<Rightarrow> bt_insert ''tool_calls'' (JArr (calls @ [call])) m | _ \<Rightarrow> m)"

definition message_step :: "json \<Rightarrow> regroup \<Rightarrow> regroup" where
  "message_step entry s =
     (let s1 = close_assistant s;
          message = bt_insert ''content'' (chat_content (jget entry ''content''))
                      (bt_insert ''role'' (opt_default (JStr ''user'') (jget entry ''role'')) []);
          spoken = (if get_str entry ''role'' = Some ''assistant'' then attach (rg_pending s) message else message)
      in (push_message (JObj spoken) s1)\<lparr>rg_pending := no_reasoning\<rparr>)"

definition call_step :: "(json \<Rightarrow> string) \<Rightarrow> json \<Rightarrow> regroup \<Rightarrow> regroup" where
  "call_step render_json entry s =
     (case trimmed_name entry of
        None \<Rightarrow> s
      | Some name \<Rightarrow>
          (let call = chat_call render_json entry name
           in case rg_assistant s of
                Some m \<Rightarrow> s\<lparr>rg_assistant := Some (push_call call m)\<rparr>
              | None \<Rightarrow> s\<lparr>rg_assistant := Some (push_call call (attach (rg_pending s) assistant_turn)),
                          rg_pending := no_reasoning\<rparr>))"

definition reasoning_step :: "json \<Rightarrow> regroup \<Rightarrow> regroup" where
  "reasoning_step entry s =
     (let p = rg_pending s; text = reasoning_text entry;
          spoken = (if text = [] then pr_text p else if pr_text p = [] then text else pr_text p @ [nl] @ text);
          encrypted = (case get_str entry ''encrypted_content'' of Some (c # cs) \<Rightarrow> c # cs | _ \<Rightarrow> pr_encrypted p)
      in s\<lparr>rg_pending := \<lparr>pr_text = spoken, pr_encrypted = encrypted\<rparr>\<rparr>)"

definition item_step :: "(json \<Rightarrow> string) \<Rightarrow> json \<Rightarrow> regroup \<Rightarrow> regroup" where
  "item_step render_json entry s =
     (let kind = item_kind entry
      in if kind = ''message'' then message_step entry s
         else if kind = ''function_call'' \<or> kind = ''custom_tool_call'' then call_step render_json entry s
         else if kind = ''function_call_output'' \<or> kind = ''custom_tool_call_output''
         then push_message (tool_reply render_json entry) (close_assistant s)
         else if kind = ''additional_tools'' then s\<lparr>rg_tools := rg_tools s @ get_list entry ''tools''\<rparr>
         else if kind = ''reasoning'' then reasoning_step entry s
         else s)"

definition instructions_message :: "json \<Rightarrow> json list" where
  "instructions_message body =
     (case get_str body ''instructions'' of
        Some (c # cs) \<Rightarrow> [jobj [(''role'', JStr ''system''), (''content'', JStr (c # cs))]] | _ \<Rightarrow> [])"

definition regrouped :: "(json \<Rightarrow> string) \<Rightarrow> json \<Rightarrow> json list \<Rightarrow> regroup" where
  "regrouped render_json body items =
     close_assistant (fold (item_step render_json) items
       \<lparr>rg_messages = instructions_message body, rg_assistant = None, rg_pending = no_reasoning, rg_tools = []\<rparr>)"

section \<open>Tools\<close>

definition normalize_tool_parameters :: "json option \<Rightarrow> json" where
  "normalize_tool_parameters params =
     (case params of
        None \<Rightarrow> empty_parameters
      | Some v \<Rightarrow>
          if v = JNull then empty_parameters
          else if get_str v ''type'' = Some ''object'' \<and> jget v ''properties'' = None
          then (case v of JObj m \<Rightarrow> JObj (bt_insert ''properties'' (jobj []) m) | _ \<Rightarrow> jobj [(''properties'', jobj [])])
          else v)"

definition format_hint :: "json \<Rightarrow> string" where
  "format_hint tool =
     join_with [nl] (List.map_filter (\<lambda>key. Option.bind (jget tool ''format'') (\<lambda>f. get_str f key)) [''syntax'', ''definition''])"

definition custom_description :: "json \<Rightarrow> string" where
  "custom_description tool =
     join_with [nl, nl] (filter (\<lambda>t. t \<noteq> []) [opt_default [] (get_str tool ''description''), format_hint tool])"

definition chat_tool :: "json \<Rightarrow> json option" where
  "chat_tool tool =
     (if jget tool ''function'' \<noteq> None then Some tool
      else (case trimmed_name tool of
        None \<Rightarrow> None
      | Some name \<Rightarrow>
          Some (jobj [(''type'', JStr ''function''), (''function'',
            if get_str tool ''type'' = Some ''custom'' then
              jobj [(''name'', JStr name), (''description'', JStr (custom_description tool)),
                (''parameters'', jobj
                  [(''type'', JStr ''object''),
                   (''properties'', jobj [(''input'', jobj [(''type'', JStr ''string''),
                      (''description'', JStr ''Raw freeform input for this custom tool'')])]),
                   (''required'', JArr [JStr ''input'']), (''additionalProperties'', JBool False)])]
            else
              jobj ([(''name'', JStr name), (''description'', JStr (opt_default [] (get_str tool ''description''))),
                 (''parameters'', normalize_tool_parameters (jget tool ''parameters''))]
                @ (case jget tool ''strict'' of Some strict \<Rightarrow> [(''strict'', strict)] | None \<Rightarrow> [])))])))"

definition RESPONSES_ONLY :: "string list" where
  "RESPONSES_ONLY = [''input'', ''instructions'', ''include'', ''prompt_cache_key'', ''store'', ''reasoning'', ''client_metadata'']"

definition put_tools :: "json list \<Rightarrow> jmap \<Rightarrow> jmap" where
  "put_tools tools m =
     (let converted = List.map_filter chat_tool tools
      in if converted = [] then bt_remove ''tools'' m else bt_insert ''tools'' (JArr converted) m)"

definition map_max_output :: "jmap \<Rightarrow> jmap" where
  "map_max_output m =
     (case map_of m ''max_output_tokens'' of
        None \<Rightarrow> m
      | Some limit \<Rightarrow> or_insert ''max_tokens'' limit (bt_remove ''max_output_tokens'' m))"

definition put_effort :: "json \<Rightarrow> jmap \<Rightarrow> jmap" where
  "put_effort body m =
     (case Option.bind (jget body ''reasoning'') (\<lambda>r. get_str r ''effort'') of
        Some effort \<Rightarrow> bt_insert ''reasoning_effort'' (JStr effort) m | None \<Rightarrow> m)"

definition responses_to_openai :: "(json \<Rightarrow> string) \<Rightarrow> string \<Rightarrow> json \<Rightarrow> bool \<Rightarrow> json" where
  "responses_to_openai render_json model body stream =
     (case (body, Option.bind (jget body ''input'') normalize_input) of
        (JObj source, Some items) \<Rightarrow>
          (let s = regrouped render_json body items;
               m = bt_insert ''stream'' (JBool stream) (bt_insert ''messages'' (JArr (rg_messages s))
                     (bt_insert ''model'' (JStr model) source))
           in JObj (fold bt_remove RESPONSES_ONLY
                (put_effort body (map_max_output (put_tools (get_list body ''tools'' @ rg_tools s) m)))))
      | _ \<Rightarrow> body)"

section \<open>What the messages say\<close>

text \<open>The events of a conversation: something said by a role, a call, and the output of a call.\<close>

datatype chat_event = Said json json | Called json | Answered json json

definition item_events :: "(json \<Rightarrow> string) \<Rightarrow> json \<Rightarrow> chat_event list" where
  "item_events render_json entry =
     (let kind = item_kind entry
      in if kind = ''message''
         then [Said (opt_default (JStr ''user'') (jget entry ''role'')) (chat_content (jget entry ''content''))]
         else if kind = ''function_call'' \<or> kind = ''custom_tool_call''
         then (case trimmed_name entry of None \<Rightarrow> [] | Some name \<Rightarrow> [Called (chat_call render_json entry name)])
         else if kind = ''function_call_output'' \<or> kind = ''custom_tool_call_output''
         then [Answered (clamp_call_id (jget entry ''call_id''))
                (JStr (case jget entry ''output'' of None \<Rightarrow> [] | Some v \<Rightarrow> as_text render_json v))]
         else [])"

definition message_events :: "json \<Rightarrow> chat_event list" where
  "message_events m =
     (case jget m ''tool_call_id'' of
        Some i \<Rightarrow> [Answered i (field_or_null m ''content'')]
      | None \<Rightarrow>
          (case jget m ''tool_calls'' of
             Some (JArr calls) \<Rightarrow> map Called calls
           | _ \<Rightarrow> [Said (field_or_null m ''role'') (field_or_null m ''content'')]))"

definition open_events :: "jmap option \<Rightarrow> chat_event list" where
  "open_events a = (case a of None \<Rightarrow> [] | Some m \<Rightarrow> message_events (JObj m))"

definition turn_open :: "jmap option \<Rightarrow> bool" where
  "turn_open a \<longleftrightarrow> (case a of None \<Rightarrow> True
     | Some m \<Rightarrow> map_of m ''tool_call_id'' = None \<and> (\<exists>calls. map_of m ''tool_calls'' = Some (JArr calls))
         \<and> map_of m ''role'' = Some (JStr ''assistant''))"

definition regroup_events :: "regroup \<Rightarrow> chat_event list" where
  "regroup_events s = concat (map message_events (rg_messages s)) @ open_events (rg_assistant s)"

definition thoughts_owned :: "json list \<Rightarrow> bool" where
  "thoughts_owned ms \<longleftrightarrow> (\<forall>m \<in> set ms.
     jget m ''reasoning_content'' \<noteq> None \<or> jget m ''encrypted_content'' \<noteq> None \<longrightarrow> get_str m ''role'' = Some ''assistant'')"

definition regroup_ok :: "regroup \<Rightarrow> bool" where
  "regroup_ok s \<longleftrightarrow> turn_open (rg_assistant s) \<and> thoughts_owned (rg_messages s)"

lemma attach_keys: "k \<noteq> ''reasoning_content'' \<Longrightarrow> k \<noteq> ''encrypted_content'' \<Longrightarrow> map_of (attach p m) k = map_of m k"
  by (simp add: attach_def Let_def map_simps)

lemma close_assistant_simps [simp]:
  "rg_assistant (close_assistant s) = None" "rg_pending (close_assistant s) = rg_pending s"
  "rg_tools (close_assistant s) = rg_tools s"
  by (simp_all add: close_assistant_def split: option.split)

lemma close_assistant_messages:
  "rg_messages (close_assistant s) = rg_messages s @ (case rg_assistant s of None \<Rightarrow> [] | Some m \<Rightarrow> [JObj m])"
  by (simp add: close_assistant_def split: option.split)

lemma close_assistant_ok: "regroup_ok s \<Longrightarrow> regroup_ok (close_assistant s)"
  by (auto simp: regroup_ok_def close_assistant_messages thoughts_owned_def turn_open_def get_str_def split: option.splits)

lemma close_assistant_events: "regroup_events (close_assistant s) = regroup_events s"
  by (simp add: regroup_events_def close_assistant_messages open_events_def split: option.split)

lemma push_call_open:
  assumes "turn_open (Some m)"
  shows "turn_open (Some (push_call call m))" "message_events (JObj (push_call call m)) = message_events (JObj m) @ [Called call]"
  using assms by (auto simp: turn_open_def push_call_def map_simps message_events_def)

lemma assistant_turn_open:
  "turn_open (Some (attach p assistant_turn))" "message_events (JObj (attach p assistant_turn)) = []"
  by (simp_all add: turn_open_def attach_keys assistant_turn_def map_simps message_events_def)

lemma message_step_ok:
  assumes "regroup_ok s"
  shows "regroup_ok (message_step entry s)"
    "regroup_events (message_step entry s) =
       regroup_events s @ [Said (opt_default (JStr ''user'') (jget entry ''role'')) (chat_content (jget entry ''content''))]"
proof -
  define message where "message = bt_insert ''content'' (chat_content (jget entry ''content''))
      (bt_insert ''role'' (opt_default (JStr ''user'') (jget entry ''role'')) [])"
  define spoken where "spoken = (if get_str entry ''role'' = Some ''assistant'' then attach (rg_pending s) message else message)"
  have step: "message_step entry s = (push_message (JObj spoken) (close_assistant s))\<lparr>rg_pending := no_reasoning\<rparr>"
    by (simp add: message_step_def Let_def spoken_def message_def)
  have keys: "map_of spoken ''role'' = Some (opt_default (JStr ''user'') (jget entry ''role''))"
    "map_of spoken ''content'' = Some (chat_content (jget entry ''content''))"
    "map_of spoken ''tool_call_id'' = None" "map_of spoken ''tool_calls'' = None"
    by (simp_all add: spoken_def attach_keys message_def map_simps)
  have thoughts: "map_of spoken ''reasoning_content'' \<noteq> None \<or> map_of spoken ''encrypted_content'' \<noteq> None \<longrightarrow>
      get_str (JObj spoken) ''role'' = Some ''assistant''"
    using keys(1) by (auto simp: spoken_def message_def map_simps get_str_def bind_eq_Some_conv)
  show "regroup_ok (message_step entry s)"
    using close_assistant_ok [OF assms] thoughts
    by (simp add: step push_message_def regroup_ok_def thoughts_owned_def turn_open_def)
  have "regroup_events (message_step entry s) = regroup_events (close_assistant s) @ message_events (JObj spoken)"
    by (simp add: step push_message_def regroup_events_def open_events_def)
  then show "regroup_events (message_step entry s) =
      regroup_events s @ [Said (opt_default (JStr ''user'') (jget entry ''role'')) (chat_content (jget entry ''content''))]"
    by (simp add: close_assistant_events message_events_def keys field_or_null_def)
qed

lemma call_step_ok:
  assumes "regroup_ok s"
  shows "regroup_ok (call_step render_json entry s)"
    "regroup_events (call_step render_json entry s) = regroup_events s
       @ (case trimmed_name entry of None \<Rightarrow> [] | Some name \<Rightarrow> [Called (chat_call render_json entry name)])"
proof -
  have "regroup_ok (call_step render_json entry s) \<and> regroup_events (call_step render_json entry s) = regroup_events s
       @ (case trimmed_name entry of None \<Rightarrow> [] | Some name \<Rightarrow> [Called (chat_call render_json entry name)])"
  proof (cases "trimmed_name entry")
    case (Some name)
    show ?thesis
    proof (cases "rg_assistant s")
      case None
      then show ?thesis using assms Some push_call_open [OF assistant_turn_open(1)] assistant_turn_open
        by (simp add: call_step_def Let_def regroup_ok_def regroup_events_def open_events_def)
    next
      case turn: (Some m)
      then have "turn_open (Some m)" using assms by (simp add: regroup_ok_def)
      from push_call_open [OF this] show ?thesis using assms Some turn
        by (simp add: call_step_def Let_def regroup_ok_def regroup_events_def open_events_def)
    qed
  qed (use assms in \<open>simp add: call_step_def\<close>)
  then show "regroup_ok (call_step render_json entry s)"
    "regroup_events (call_step render_json entry s) = regroup_events s
       @ (case trimmed_name entry of None \<Rightarrow> [] | Some name \<Rightarrow> [Called (chat_call render_json entry name)])" by blast+
qed

lemma reply_step_ok:
  assumes "regroup_ok s"
  shows "regroup_ok (push_message (tool_reply render_json entry) (close_assistant s))"
    "regroup_events (push_message (tool_reply render_json entry) (close_assistant s)) = regroup_events s
       @ [Answered (clamp_call_id (jget entry ''call_id''))
            (JStr (case jget entry ''output'' of None \<Rightarrow> [] | Some v \<Rightarrow> as_text render_json v))]"
proof -
  have reply: "message_events (tool_reply render_json entry) = [Answered (clamp_call_id (jget entry ''call_id''))
      (JStr (case jget entry ''output'' of None \<Rightarrow> [] | Some v \<Rightarrow> as_text render_json v))]"
    "jget (tool_reply render_json entry) ''reasoning_content'' = None"
    "jget (tool_reply render_json entry) ''encrypted_content'' = None"
    by (simp_all add: tool_reply_def message_events_def jget_jobj field_or_null_def)
  show "regroup_ok (push_message (tool_reply render_json entry) (close_assistant s))"
    using close_assistant_ok [OF assms] reply(2,3) by (auto simp: push_message_def regroup_ok_def thoughts_owned_def)
  have "regroup_events (push_message (tool_reply render_json entry) (close_assistant s)) =
      regroup_events (close_assistant s) @ message_events (tool_reply render_json entry)"
    by (simp add: push_message_def regroup_events_def open_events_def)
  then show "regroup_events (push_message (tool_reply render_json entry) (close_assistant s)) = regroup_events s
       @ [Answered (clamp_call_id (jget entry ''call_id''))
            (JStr (case jget entry ''output'' of None \<Rightarrow> [] | Some v \<Rightarrow> as_text render_json v))]"
    by (simp add: close_assistant_events reply(1))
qed

lemma item_step_ok:
  assumes "regroup_ok s"
  shows "regroup_ok (item_step render_json entry s) \<and>
    regroup_events (item_step render_json entry s) = regroup_events s @ item_events render_json entry"
  using message_step_ok [OF assms] call_step_ok [OF assms] reply_step_ok [OF assms] assms
  by (simp add: item_step_def item_events_def Let_def)
    (simp add: regroup_ok_def regroup_events_def reasoning_step_def Let_def)

lemma items_regrouped:
  "regroup_ok s \<Longrightarrow> regroup_ok (fold (item_step render_json) items s) \<and>
     regroup_events (fold (item_step render_json) items s) = regroup_events s @ concat (map (item_events render_json) items)"
  by (induction items arbitrary: s) (use item_step_ok in auto)

text \<open>C20: A Responses request of an object with an input becomes messages that say exactly what its items say, in their
  order: every message, every call with a name and every output once, the instructions first; reasoning is only
  ever attached to a turn of the assistant.\<close>

theorem responses_items_kept:
  assumes "body = JObj source" "Option.bind (jget body ''input'') normalize_input = Some items"
  shows "\<exists>messages. jget (responses_to_openai render_json model body stream) ''messages'' = Some (JArr messages)
     \<and> concat (map message_events messages) =
         concat (map message_events (instructions_message body)) @ concat (map (item_events render_json) items)
     \<and> thoughts_owned messages"
proof -
  define start where "start = \<lparr>rg_messages = instructions_message body, rg_assistant = None, rg_pending = no_reasoning, rg_tools = []\<rparr>"
  have "thoughts_owned (instructions_message body)"
    by (auto simp: instructions_message_def thoughts_owned_def jget_jobj split: option.splits list.splits)
  then have start: "regroup_ok start" by (simp add: start_def regroup_ok_def turn_open_def)
  define s where "s = regrouped render_json body items"
  have s: "s = close_assistant (fold (item_step render_json) items start)" by (simp add: s_def regrouped_def start_def)
  from items_regrouped [OF start] have ok: "regroup_ok s"
    and "regroup_events s = regroup_events start @ concat (map (item_events render_json) items)"
    unfolding s by (auto simp: close_assistant_ok close_assistant_events)
  then have events: "concat (map message_events (rg_messages s)) =
      concat (map message_events (instructions_message body)) @ concat (map (item_events render_json) items)"
    by (simp add: regroup_events_def start_def s open_events_def)
  have kept: "map_of (put_effort body (map_max_output (put_tools ts m))) ''messages'' = map_of m ''messages''" for ts m
    by (auto simp: put_effort_def map_max_output_def put_tools_def or_insert_def Let_def map_simps split: option.split)
  have "map_of (fold bt_remove RESPONSES_ONLY m) ''messages'' = map_of m ''messages''" for m :: jmap
    by (simp add: RESPONSES_ONLY_def map_simps)
  then have "jget (responses_to_openai render_json model body stream) ''messages'' = Some (JArr (rg_messages s))"
    using assms kept by (simp add: responses_to_openai_def Let_def s_def map_simps)
  moreover have "thoughts_owned (rg_messages s)" using ok by (simp add: regroup_ok_def)
  ultimately show ?thesis using events by blast
qed

theorem responses_items_kept_witness:
  "\<exists>messages. jget (responses_to_openai (\<lambda>_. []) ''m'' (JObj [(''input'', JStr ''hi'')]) True) ''messages'' = Some (JArr messages)
     \<and> concat (map message_events messages) =
         concat (map message_events (instructions_message (JObj [(''input'', JStr ''hi'')])))
         @ concat (map (item_events (\<lambda>_. [])) [user_item (if trim ''hi'' = [] then ''...'' else ''hi'')])
     \<and> thoughts_owned messages"
  by (rule responses_items_kept) (simp_all add: normalize_input_def)

text \<open>No field that only the Responses API knows is left in a translated request.\<close>

theorem responses_fields_removed:
  assumes "body = JObj source" "Option.bind (jget body ''input'') normalize_input = Some items"
    and "k \<in> set RESPONSES_ONLY \<or> k = ''max_output_tokens''"
  shows "jget (responses_to_openai render_json model body stream) k = None"
proof -
  have "map_of (put_effort body (map_max_output m)) ''max_output_tokens'' = None" for m
    by (auto simp: put_effort_def map_max_output_def or_insert_def map_simps split: option.split)
  then show ?thesis
    using assms by (auto simp: responses_to_openai_def Let_def map_of_fold_remove)
qed

theorem responses_fields_removed_witness:
  "jget (responses_to_openai (\<lambda>_. []) ''m'' (JObj [(''input'', JStr ''hi'')]) True) ''input'' = None"
  by (rule responses_fields_removed [where items = "[user_item (if trim ''hi'' = [] then ''...'' else ''hi'')]"])
    (simp_all add: normalize_input_def RESPONSES_ONLY_def)

end
