(* ===== verification/Openai_Request.thy ===== *)
theory Openai_Request
  imports Claude_Request "HOL-Library.Sublist"
begin

text \<open>
  Requests from the Claude to the OpenAI dialect
  (\<open>crates/translate/src/request/claude_to_openai.rs\<close>), with the repair of unanswered tool calls.
  \<open>render_json\<close> prints a JSON value.
\<close>

section \<open>Messages\<close>

definition MISSING_TOOL_RESPONSE :: string where
  "MISSING_TOOL_RESPONSE = ''[No response received]''"

definition BILLING_MARKER :: string where
  "BILLING_MARKER = ''x-anthropic-billing-header:''"

definition strip_billing_header :: "string \<Rightarrow> string" where
  "strip_billing_header text =
     (if ascii_lower (take (length BILLING_MARKER) text) \<noteq> BILLING_MARKER then text
      else case split_once nl text of None \<Rightarrow> [] | Some (_, rest) \<Rightarrow> rest)"

definition system_reminder_text :: "json option \<Rightarrow> string" where
  "system_reminder_text content =
     (let text = extract_text_content content [nl]
      in if trim text = [] then [] else ''<instructions>'' @ [nl] @ text @ [nl] @ ''</instructions>'')"

definition tool_result_content :: "(json \<Rightarrow> string) \<Rightarrow> json option \<Rightarrow> string" where
  "tool_result_content render_json content =
     (case content of
        Some (JStr text) \<Rightarrow> text
      | Some (JArr parts) \<Rightarrow>
          (let text = join_with [nl] (List.map_filter (\<lambda>p. get_str p ''text'')
                        (filter (\<lambda>p. get_str p ''type'' = Some ''text'') parts))
           in if text = [] then render_json (JArr parts) else text)
      | Some JNull \<Rightarrow> []
      | Some other \<Rightarrow> render_json other
      | None \<Rightarrow> [])"

record sorted_blocks =
  sb_parts :: "json list"
  sb_calls :: "json list"
  sb_results :: "json list"

definition sort_block :: "(json \<Rightarrow> string) \<Rightarrow> json \<Rightarrow> sorted_blocks \<Rightarrow> sorted_blocks" where
  "sort_block render_json b s =
     (case get_str b ''type'' of
        None \<Rightarrow> s
      | Some kind \<Rightarrow>
          if kind = ''text'' then
            (case jget b ''text'' of
               None \<Rightarrow> s
             | Some text \<Rightarrow> s\<lparr>sb_parts := sb_parts s @ [jobj [(''type'', JStr ''text''), (''text'', text)]]\<rparr>)
          else if kind = ''image'' then
            (let source = jget b ''source''; field = (\<lambda>k. Option.bind source (\<lambda>v. get_str v k))
             in if field ''type'' = Some ''base64'' then
                  s\<lparr>sb_parts := sb_parts s @ [jobj [(''type'', JStr ''image_url''), (''image_url'', jobj [(''url'', JStr
                       (encode_data_uri (opt_default [] (field ''media_type'')) (opt_default [] (field ''data''))))])]]\<rparr>
                else s)
          else if kind = ''tool_use'' then
            s\<lparr>sb_calls := sb_calls s @ [jobj [(''id'', field_or_null b ''id''), (''type'', JStr ''function''),
               (''function'', jobj [(''name'', field_or_null b ''name''),
                  (''arguments'', JStr (render_json (opt_default (jobj []) (jget b ''input''))))])]]\<rparr>
          else if kind = ''tool_result'' then
            s\<lparr>sb_results := sb_results s @ [jobj [(''role'', JStr ''tool''), (''tool_call_id'', field_or_null b ''tool_use_id''),
               (''content'', JStr (tool_result_content render_json (jget b ''content'')))]]\<rparr>
          else s)"

definition convert_content_blocks :: "(json \<Rightarrow> string) \<Rightarrow> string \<Rightarrow> json list \<Rightarrow> json list" where
  "convert_content_blocks render_json mapped_role blocks =
     (let s = fold (sort_block render_json) blocks \<lparr>sb_parts = [], sb_calls = [], sb_results = []\<rparr>
      in if sb_results s \<noteq> [] then
           sb_results s @ (if sb_parts s = [] then []
             else [jobj [(''role'', JStr ''user''), (''content'', collapse_text_parts (sb_parts s))]])
         else if sb_calls s \<noteq> [] then
           [jobj ([(''role'', JStr ''assistant'')]
              @ (if sb_parts s = [] then [] else [(''content'', collapse_text_parts (sb_parts s))])
              @ [(''tool_calls'', JArr (sb_calls s))])]
         else if sb_parts s \<noteq> [] then
           [jobj [(''role'', JStr mapped_role), (''content'', collapse_text_parts (sb_parts s))]]
         else if blocks = [] then [jobj [(''role'', JStr mapped_role), (''content'', JStr [])]]
         else [])"

definition convert_message :: "(json \<Rightarrow> string) \<Rightarrow> json \<Rightarrow> json list" where
  "convert_message render_json message =
     (let message_role = opt_default [] (get_str message ''role'')
      in if message_role = ''system'' then
           (let text = system_reminder_text (jget message ''content'')
            in if text = [] then [] else [jobj [(''role'', JStr ''user''), (''content'', JStr text)]])
         else
           (let mapped_role = claude_role message
            in case jget message ''content'' of
                 Some (JStr text) \<Rightarrow> [jobj [(''role'', JStr mapped_role), (''content'', JStr text)]]
               | Some (JArr blocks) \<Rightarrow> convert_content_blocks render_json mapped_role blocks
               | _ \<Rightarrow> []))"

section \<open>Unanswered calls\<close>

text \<open>The string ids of the calls of an assistant message with calls.\<close>

definition call_ids :: "json \<Rightarrow> string list option" where
  "call_ids m =
     (if get_str m ''role'' = Some ''assistant'' then
        (case Option.bind (jget m ''tool_calls'') as_array of
           Some (c # cs) \<Rightarrow> Some (List.map_filter (\<lambda>c. get_str c ''id'') (c # cs))
         | _ \<Rightarrow> None)
      else None)"

definition reply_id :: "json \<Rightarrow> string option" where
  "reply_id m = (if get_str m ''role'' = Some ''tool'' then get_str m ''tool_call_id'' else None)"

definition is_reply :: "json \<Rightarrow> bool" where
  "is_reply m \<longleftrightarrow> reply_id m \<noteq> None"

definition placeholder :: "string \<Rightarrow> json" where
  "placeholder i = jobj [(''role'', JStr ''tool''), (''tool_call_id'', JStr i), (''content'', JStr MISSING_TOOL_RESPONSE)]"

definition missing_ids :: "string list \<Rightarrow> json list \<Rightarrow> string list" where
  "missing_ids ids ms = filter (\<lambda>i. Some i \<notin> reply_id ` set (takeWhile is_reply ms)) ids"

text \<open>The loop works on one vector by index and never looks back, so what is before the index is done: here
  the recursion is on the rest.\<close>

function fix_missing_tool_responses :: "json list \<Rightarrow> json list" where
  "fix_missing_tool_responses [] = []"
| "fix_missing_tool_responses (m # ms) =
     (case call_ids m of
        None \<Rightarrow> m # fix_missing_tool_responses ms
      | Some ids \<Rightarrow>
          (let missing = missing_ids ids ms
           in if missing = [] then m # fix_missing_tool_responses ms
              else m # takeWhile is_reply ms @ map placeholder missing
                   @ fix_missing_tool_responses (dropWhile is_reply ms)))"
  by pat_completeness auto

termination
  by (relation "measure length") (auto simp: le_imp_less_Suc length_dropWhile_le)

section \<open>Requests\<close>

definition system_content :: "json \<Rightarrow> string" where
  "system_content system =
     (case system of
        JArr blocks \<Rightarrow> join_with [nl] (filter (\<lambda>t. t \<noteq> [])
            (map (\<lambda>b. strip_billing_header (opt_default [] (get_str b ''text''))) blocks))
      | JStr text \<Rightarrow> strip_billing_header text
      | _ \<Rightarrow> [])"

definition openai_tool_choice :: "json \<Rightarrow> json" where
  "openai_tool_choice choice =
     (case choice of
        JStr text \<Rightarrow> JStr text
      | _ \<Rightarrow>
          if get_str choice ''type'' = Some ''any'' then JStr ''required''
          else if get_str choice ''type'' = Some ''tool'' then
            jobj [(''type'', JStr ''function''), (''function'', jobj [(''name'', field_or_null choice ''name'')])]
          else JStr ''auto'')"

definition openai_tool :: "json \<Rightarrow> json" where
  "openai_tool tool = jobj
     [(''type'', JStr ''function''),
      (''function'', jobj
        [(''name'', field_or_null tool ''name''),
         (''description'', JStr (opt_default [] (get_str tool ''description''))),
         (''parameters'', opt_default (jobj [(''type'', JStr ''object''), (''properties'', jobj [])]) (jget tool ''input_schema''))])]"

definition openai_messages :: "(json \<Rightarrow> string) \<Rightarrow> json \<Rightarrow> json list" where
  "openai_messages render_json body =
     fix_missing_tool_responses
       ((case jget body ''system'' of
           None \<Rightarrow> []
         | Some system \<Rightarrow>
             (let content = system_content system
              in if content = [] then [] else [jobj [(''role'', JStr ''system''), (''content'', JStr content)]]))
        @ (case Option.bind (jget body ''messages'') as_array of
             None \<Rightarrow> [] | Some source \<Rightarrow> concat (map (convert_message render_json) source)))"

definition claude_to_openai_request :: "(json \<Rightarrow> string) \<Rightarrow> string \<Rightarrow> json \<Rightarrow> bool \<Rightarrow> json" where
  "claude_to_openai_request render_json model body stream =
     (let copy = (\<lambda>k. case jget body k of None \<Rightarrow> [] | Some v \<Rightarrow> [(k, v)]);
          effort = opt_or (jget body ''reasoning_effort'')
                     (Option.bind (jget body ''reasoning'') (\<lambda>r. jget r ''effort''))
      in jobj ([(''model'', JStr model), (''messages'', JArr (openai_messages render_json body)), (''stream'', JBool stream)]
           @ (if nonzero (Option.bind (jget body ''max_tokens'') as_u64) \<noteq> None
              then [(''max_tokens'', jnat (adjust_max_tokens body DEFAULT_MAX_TOKENS))] else [])
           @ copy ''temperature''
           @ (case Option.bind (jget body ''tools'') as_array of
                None \<Rightarrow> [] | Some tools \<Rightarrow> [(''tools'', JArr (map openai_tool tools))])
           @ (case jget body ''tool_choice'' of None \<Rightarrow> [] | Some c \<Rightarrow> [(''tool_choice'', openai_tool_choice c)])
           @ (case effort of None \<Rightarrow> [] | Some e \<Rightarrow> [(''reasoning_effort'', e)])
           @ copy ''reasoning''))"

section \<open>Answered calls\<close>

text \<open>Every call of an assistant message is answered in the run of tool messages right after it.\<close>

fun calls_answered :: "json list \<Rightarrow> bool" where
  "calls_answered [] \<longleftrightarrow> True"
| "calls_answered (m # ms) \<longleftrightarrow>
     (case call_ids m of None \<Rightarrow> True | Some ids \<Rightarrow> missing_ids ids ms = []) \<and> calls_answered ms"

lemma reply_no_calls: "is_reply m \<Longrightarrow> call_ids m = None"
  by (auto simp: is_reply_def reply_id_def call_ids_def split: if_splits)

lemma placeholder_reply: "reply_id (placeholder i) = Some i"
  by (simp add: reply_id_def placeholder_def get_str_def jget_jobj)

lemma placeholder_is_reply [simp]: "is_reply (placeholder i)"
  by (simp add: is_reply_def placeholder_reply)

lemma missing_ids_mono:
  "set (takeWhile is_reply ms) \<subseteq> set (takeWhile is_reply ms') \<Longrightarrow> missing_ids ids ms = [] \<Longrightarrow> missing_ids ids ms' = []"
  by (fastforce simp: missing_ids_def filter_empty_conv)

lemma calls_answered_replies: "list_all is_reply rs \<Longrightarrow> calls_answered (rs @ ms) = calls_answered ms"
  by (induction rs) (simp_all add: reply_no_calls)

lemma run_is_reply: "list_all is_reply (takeWhile is_reply ms @ map placeholder ids)"
  by (auto simp: list_all_iff dest: set_takeWhileD)

lemma fix_keeps_replies:
  "set (takeWhile is_reply ms) \<subseteq> set (takeWhile is_reply (fix_missing_tool_responses ms))"
  by (induction ms) (auto simp: reply_no_calls Let_def)

lemma missing_filled:
  "missing_ids ids (takeWhile is_reply ms @ map placeholder (missing_ids ids ms) @ rest) = []"
proof -
  let ?run = "takeWhile is_reply ms @ map placeholder (missing_ids ids ms)"
  have "list_all is_reply ?run" by (rule run_is_reply)
  then have run: "takeWhile is_reply (?run @ rest) = ?run @ takeWhile is_reply rest"
    by (intro takeWhile_append2) (auto simp: list_all_iff)
  have "Some i \<in> reply_id ` set ?run" if "i \<in> set ids" for i
  proof (cases "Some i \<in> reply_id ` set (takeWhile is_reply ms)")
    case False
    with that have "placeholder i \<in> set ?run" by (auto simp: missing_ids_def)
    then show ?thesis by (metis image_eqI placeholder_reply)
  qed auto
  then have "\<forall>i \<in> set ids. Some i \<in> reply_id ` set (takeWhile is_reply (?run @ rest))"
    unfolding run set_append [of ?run] image_Un by blast
  then show ?thesis by (auto simp: missing_ids_def [of ids "takeWhile is_reply ms @ _"] filter_empty_conv)
qed

lemma fix_answers: "calls_answered (fix_missing_tool_responses ms)"
proof (induction ms rule: fix_missing_tool_responses.induct)
  case (2 m ms)
  show ?case
  proof (cases "call_ids m")
    case None
    with 2 show ?thesis by simp
  next
    case (Some ids)
    show ?thesis
    proof (cases "missing_ids ids ms = []")
      case True
      with Some 2(2) [OF Some refl True] show ?thesis
        by (simp add: missing_ids_mono [OF fix_keeps_replies])
    next
      case False
      from calls_answered_replies [OF run_is_reply] show ?thesis
        using Some 2(3) [OF Some refl False] False by (simp add: missing_filled)
    qed
  qed
qed simp

lemma fix_answered: "calls_answered ms \<Longrightarrow> fix_missing_tool_responses ms = ms"
  by (induction ms) (auto split: option.splits)

lemma fix_adds_placeholders:
  "subseq ms (fix_missing_tool_responses ms)
   \<and> set (fix_missing_tool_responses ms) \<subseteq> set ms \<union> range placeholder"
proof (induction ms rule: fix_missing_tool_responses.induct)
  case (2 m ms)
  show ?case
  proof (cases "call_ids m")
    case None
    with 2(1) show ?thesis by auto
  next
    case (Some ids)
    show ?thesis
    proof (cases "missing_ids ids ms = []")
      case True
      with Some 2(2) [OF Some refl True] show ?thesis by auto
    next
      case False
      note ih = 2(3) [OF Some refl False]
      have "subseq (takeWhile is_reply ms @ dropWhile is_reply ms)
          (takeWhile is_reply ms @ map placeholder (missing_ids ids ms) @ fix_missing_tool_responses (dropWhile is_reply ms))"
        using ih by (intro list_emb_append_mono list_emb_append2) auto
      moreover have "set (takeWhile is_reply ms) \<union> set (dropWhile is_reply ms) = set ms"
        by (metis set_append takeWhile_dropWhile_id)
      ultimately show ?thesis using Some False ih by auto
    qed
  qed
qed simp

subsection \<open>Answered calls, read off the messages\<close>

text \<open>
  The same without the readers of the repair: the calls of an assistant message are the elements of its
  \<open>tool_calls\<close>, the ones with a text as id count, and their replies are the tool messages with a text as
  \<open>tool_call_id\<close> that follow without a gap.
\<close>

definition answers_call :: "json \<Rightarrow> bool" where
  "answers_call r \<longleftrightarrow> jget r ''role'' = Some (JStr ''tool'') \<and> (\<exists>i. jget r ''tool_call_id'' = Some (JStr i))"

definition call_has_reply :: "json list \<Rightarrow> json \<Rightarrow> bool" where
  "call_has_reply rest call \<longleftrightarrow>
     (\<forall>i. jget call ''id'' = Some (JStr i) \<longrightarrow>
        (\<exists>r \<in> set (takeWhile answers_call rest). jget r ''tool_call_id'' = Some (JStr i)))"

fun every_call_replied :: "json list \<Rightarrow> bool" where
  "every_call_replied [] \<longleftrightarrow> True"
| "every_call_replied (m # ms) \<longleftrightarrow>
     (jget m ''role'' = Some (JStr ''assistant'') \<longrightarrow>
        (case jget m ''tool_calls'' of Some (JArr calls) \<Rightarrow> list_all (call_has_reply ms) calls | _ \<Rightarrow> True))
     \<and> every_call_replied ms"

lemma get_str_iff: "get_str v k = Some t \<longleftrightarrow> jget v k = Some (JStr t)"
  by (cases "jget v k") (auto simp: get_str_def elim: as_str.elims)

lemma answers_call_iff: "answers_call r \<longleftrightarrow> is_reply r"
  by (simp add: answers_call_def is_reply_def reply_id_def get_str_iff [symmetric])

lemma reply_answers: "is_reply r \<Longrightarrow> reply_id r = Some i \<longleftrightarrow> jget r ''tool_call_id'' = Some (JStr i)"
  by (auto simp: is_reply_def reply_id_def get_str_iff split: if_splits)

lemma call_has_reply_iff:
  "call_has_reply ms c \<longleftrightarrow> (\<forall>i. get_str c ''id'' = Some i \<longrightarrow> Some i \<in> reply_id ` set (takeWhile is_reply ms))"
proof -
  have "jget r ''tool_call_id'' = Some (JStr i) \<longleftrightarrow> Some i = reply_id r" if "r \<in> set (takeWhile is_reply ms)" for r i
    using reply_answers [of r i] set_takeWhileD [OF that] by auto
  then have "(\<exists>r \<in> set (takeWhile is_reply ms). jget r ''tool_call_id'' = Some (JStr i)) \<longleftrightarrow>
      (\<exists>r \<in> set (takeWhile is_reply ms). Some i = reply_id r)" for i by (rule bex_cong [OF refl])
  moreover have "answers_call = is_reply" using answers_call_iff by blast
  ultimately show ?thesis by (simp add: call_has_reply_def get_str_iff image_iff)
qed

lemma missing_none:
  "missing_ids (List.map_filter (\<lambda>c. get_str c ''id'') cs) ms = [] \<longleftrightarrow> list_all (call_has_reply ms) cs"
proof -
  have "i \<in> set (List.map_filter f xs) \<longleftrightarrow> (\<exists>x \<in> set xs. f x = Some i)" for i and f :: "json \<Rightarrow> string option" and xs
    by (induction xs) (auto split: option.splits)
  then show ?thesis by (auto simp: missing_ids_def filter_empty_conv list_all_iff call_has_reply_iff)
qed

lemma call_ids_replied:
  "(case call_ids m of None \<Rightarrow> True | Some ids \<Rightarrow> missing_ids ids ms = []) \<longleftrightarrow>
     (jget m ''role'' = Some (JStr ''assistant'') \<longrightarrow>
        (case jget m ''tool_calls'' of Some (JArr calls) \<Rightarrow> list_all (call_has_reply ms) calls | _ \<Rightarrow> True))"
proof (cases "jget m ''role'' = Some (JStr ''assistant'')")
  case True
  show ?thesis
  proof (cases "Option.bind (jget m ''tool_calls'') as_array")
    case None
    then show ?thesis by (auto simp: call_ids_def split: option.split json.split)
  next
    case (Some calls)
    then have calls: "jget m ''tool_calls'' = Some (JArr calls)" by (auto split: Option.bind_splits elim: as_array.elims)
    have "call_ids m = (if calls = [] then None else Some (List.map_filter (\<lambda>c. get_str c ''id'') calls))"
      using True by (cases calls) (simp_all add: call_ids_def calls get_str_iff)
    then show ?thesis using True by (simp add: calls missing_none)
  qed
qed (simp add: call_ids_def get_str_iff)

lemma every_call_replied_iff: "every_call_replied ms \<longleftrightarrow> calls_answered ms"
  by (induction ms) (simp_all only: every_call_replied.simps calls_answered.simps call_ids_replied)

text \<open>The messages of the request before the repair.\<close>

definition converted_messages :: "(json \<Rightarrow> string) \<Rightarrow> json \<Rightarrow> json list" where
  "converted_messages render_json body =
     (case jget body ''system'' of
        None \<Rightarrow> []
      | Some system \<Rightarrow>
          (if system_content system = [] then []
           else [jobj [(''role'', JStr ''system''), (''content'', JStr (system_content system))]]))
     @ concat (map (convert_message render_json) (get_list body ''messages''))"

lemma repaired_messages: "openai_messages render_json body = fix_missing_tool_responses (converted_messages render_json body)"
  by (simp add: openai_messages_def converted_messages_def get_list_def Let_def split: option.split)

text \<open>C32: In the request a Claude client's conversation becomes for an OpenAI provider, every tool call that has a text
  as its id is answered: for each element of the \<open>tool_calls\<close> of an assistant message there is a message with that id in
  the run of tool messages right after it. The repair keeps every converted message in its order, adds
  nothing but placeholder replies, and changes nothing exactly when all such calls were answered already.
  A call without a text as id, which is sent with a null id, stays unanswered; and only this translation
  repairs: requests of OpenAI, Gemini and Responses clients are passed on with the calls unanswered.\<close>

theorem every_call_answered:
  fixes render_json :: "json \<Rightarrow> string" and body :: json
  defines "converted \<equiv> converted_messages render_json body"
  shows "\<exists>ms. jget (claude_to_openai_request render_json model body stream) ''messages'' = Some (JArr ms)
      \<and> every_call_replied ms \<and> subseq converted ms \<and> set ms \<subseteq> set converted \<union> range placeholder
      \<and> (ms = converted \<longleftrightarrow> every_call_replied converted)"
proof -
  let ?fixed = "fix_missing_tool_responses converted"
  have messages: "jget (claude_to_openai_request render_json model body stream) ''messages'' = Some (JArr ?fixed)"
    unfolding claude_to_openai_request_def Let_def repaired_messages converted_def
    by (rule jget_jobj_once) (auto split: option.splits if_splits)
  have "?fixed = converted \<longleftrightarrow> calls_answered converted"
    using fix_answers [of converted] fix_answered [of converted] by auto
  with messages fix_answers [of converted] fix_adds_placeholders [of converted] show ?thesis
    unfolding every_call_replied_iff by blast
qed

theorem every_call_answered_witness:
  "let body = jobj [(''messages'', JArr [jobj [(''role'', JStr ''assistant''), (''content'', JArr [jobj
        [(''type'', JStr ''tool_use''), (''id'', JStr ''c1''), (''name'', JStr ''f''), (''input'', JObj [])]])]])]
   in \<not> every_call_replied (converted_messages (\<lambda>_. ''{}'') body)
     \<and> (\<exists>ms. jget (claude_to_openai_request (\<lambda>_. ''{}'') ''m'' body True) ''messages'' = Some (JArr ms)
          \<and> every_call_replied ms)"
proof -
  define body where "body = jobj [(''messages'', JArr [jobj [(''role'', JStr ''assistant''), (''content'', JArr [jobj
        [(''type'', JStr ''tool_use''), (''id'', JStr ''c1''), (''name'', JStr ''f''), (''input'', JObj [])]])]])]"
  have "\<not> calls_answered (converted_messages (\<lambda>_. ''{}'') body)" unfolding body_def by code_simp
  then show ?thesis
    using every_call_answered [of "\<lambda>_. ''{}''" "''m''" body True] unfolding body_def every_call_replied_iff Let_def by blast
qed

section \<open>A conversation there and back\<close>

text \<open>The turns of a conversation that both dialects can say, and the OpenAI message of each.\<close>

datatype turn =
    UserSays string
  | AssistantSays string
  | AssistantCalls "string option" "(string \<times> string \<times> string) list"
  | ToolReplies string string

definition call_json :: "string \<times> string \<times> string \<Rightarrow> json" where
  "call_json c = (case c of (i, name, arguments) \<Rightarrow>
     jobj [(''id'', JStr i), (''type'', JStr ''function''),
           (''function'', jobj [(''name'', JStr name), (''arguments'', JStr arguments)])])"

fun openai_turn :: "turn \<Rightarrow> json" where
  "openai_turn (UserSays t) = jobj [(''role'', JStr ''user''), (''content'', JStr t)]"
| "openai_turn (AssistantSays t) = jobj [(''role'', JStr ''assistant''), (''content'', JStr t)]"
| "openai_turn (AssistantCalls t cs) =
     jobj ([(''role'', JStr ''assistant'')] @ (case t of None \<Rightarrow> [] | Some s \<Rightarrow> [(''content'', JStr s)])
           @ [(''tool_calls'', JArr (map call_json cs))])"
| "openai_turn (ToolReplies i t) = jobj [(''role'', JStr ''tool''), (''tool_call_id'', JStr i), (''content'', JStr t)]"

fun turn_ok :: "(json \<Rightarrow> string) \<Rightarrow> (string \<Rightarrow> json option) \<Rightarrow> turn \<Rightarrow> bool" where
  "turn_ok rj pj (UserSays t) \<longleftrightarrow> t \<noteq> []"
| "turn_ok rj pj (AssistantSays t) \<longleftrightarrow> t \<noteq> []"
| "turn_ok rj pj (AssistantCalls t cs) \<longleftrightarrow> t \<noteq> Some [] \<and> cs \<noteq> []
     \<and> list_all (\<lambda>(i, name, arguments). rj (safe_parse_json pj arguments) = arguments) cs"
| "turn_ok rj pj (ToolReplies i t) \<longleftrightarrow> True"

text \<open>Claude's dialect merges two texts of one speaker in a row, and a text into the calls after it.\<close>

fun leaves_open :: "turn \<Rightarrow> string option" where
  "leaves_open (UserSays _) = Some ''user''"
| "leaves_open (AssistantSays _) = Some ''assistant''"
| "leaves_open _ = None"

fun continues :: "turn \<Rightarrow> string option" where
  "continues (UserSays _) = Some ''user''"
| "continues (ToolReplies _ _) = None"
| "continues _ = Some ''assistant''"

fun separated :: "turn list \<Rightarrow> bool" where
  "separated (a # b # ts) \<longleftrightarrow> (leaves_open a = None \<or> leaves_open a \<noteq> continues b) \<and> separated (b # ts)"
| "separated _ \<longleftrightarrow> True"

definition call_use :: "(string \<Rightarrow> json option) \<Rightarrow> string \<times> string \<times> string \<Rightarrow> json" where
  "call_use pj c = (case c of (i, name, arguments) \<Rightarrow>
     jobj [(''type'', JStr ''tool_use''), (''id'', JStr i), (''name'', JStr name), (''input'', safe_parse_json pj arguments)])"

fun claude_turn :: "(string \<Rightarrow> json option) \<Rightarrow> turn \<Rightarrow> claude_message" where
  "claude_turn pj (UserSays t) = (''user'', [text_block t])"
| "claude_turn pj (AssistantSays t) = (''assistant'', [text_block t])"
| "claude_turn pj (AssistantCalls t cs) = (''assistant'', map text_block (opt_list t) @ map (call_use pj) cs)"
| "claude_turn pj (ToolReplies i t) =
     (''user'', [jobj [(''type'', JStr ''tool_result''), (''tool_use_id'', JStr i), (''content'', JStr t)]])"

lemma call_blocks_turn:
  "fst (fold (call_block pj) (map call_json cs) acc) = fst acc @ map (call_use pj) cs"
  by (induction cs arbitrary: acc)
    (auto simp: call_block_def call_json_def call_use_def Let_def jget_jobj get_str_def field_or_null_def)

lemma openai_turn_role:
  "get_str (openai_turn t) ''role'' = Some (case t of UserSays _ \<Rightarrow> ''user'' | ToolReplies _ _ \<Rightarrow> ''tool'' | _ \<Rightarrow> ''assistant'')"
  by (cases t) (auto simp: get_str_def jget_jobj split: option.split)

lemma assistant_text: "t \<noteq> Some [] \<Longrightarrow> assistant_blocks (map_option JStr t) = map text_block (opt_list t)"
  by (cases t) (auto simp: assistant_blocks_def opt_list_def)

lemma content_turn:
  assumes "turn_ok rj pj t"
  shows "fst (content_blocks pj (openai_turn t) names) = snd (claude_turn pj t)"
proof (cases t)
  case (AssistantCalls s cs)
  have "jget (openai_turn t) ''content'' = map_option JStr s" "jget (openai_turn t) ''tool_calls'' = Some (JArr (map call_json cs))"
    by (simp_all add: AssistantCalls jget_jobj split: option.split)
  with AssistantCalls assms openai_turn_role [of t] show ?thesis
    by (simp add: content_blocks_def assistant_text call_blocks_turn)
qed (use assms openai_turn_role [of t] in
  \<open>simp_all add: content_blocks_def jget_jobj assistant_blocks_def field_or_null_def\<close>)

lemma claude_role_turn: "claude_role (openai_turn t) = fst (claude_turn pj t)"
  using openai_turn_role [of t] by (cases t) (simp_all add: claude_role_def del: openai_turn.simps)

lemma call_use_kind [simp]: "is_kind kind (call_use pj c) \<longleftrightarrow> kind = ''tool_use''"
  by (cases c) (auto simp: call_use_def is_kind_jobj)

lemma blocks_kinds:
  "list_ex (is_kind kind) (map text_block ts) \<longleftrightarrow> kind = ''text'' \<and> ts \<noteq> []"
  "list_ex (is_kind kind) (map (call_use pj) cs) \<longleftrightarrow> kind = ''tool_use'' \<and> cs \<noteq> []"
  by (induction ts, simp_all) (induction cs, auto)

fun is_calls :: "turn \<Rightarrow> bool" where
  "is_calls (AssistantCalls _ cs) \<longleftrightarrow> cs \<noteq> []"
| "is_calls _ \<longleftrightarrow> False"

lemma turn_kinds:
  "list_ex (is_kind ''tool_result'') (snd (claude_turn pj t)) \<longleftrightarrow> continues t = None"
  "list_ex (is_kind ''tool_use'') (snd (claude_turn pj t)) \<longleftrightarrow> is_calls t"
  by (cases t; simp add: blocks_kinds is_kind_jobj)+

text \<open>One turn read: the turn is written behind what was there, and only a text is left open.\<close>

lemma merge_turn:
  assumes s: "merging s" and ok: "turn_ok rj pj t"
    and apart: "ms_parts s = [] \<or> continues t = None \<or> ms_role s \<noteq> continues t"
  defines "s' \<equiv> merge_step pj (openai_turn t) s"
  shows "flush_parts (ms_messages s') (ms_role s') (ms_parts s')
           = flush_parts (ms_messages s) (ms_role s) (ms_parts s) @ [claude_turn pj t]
         \<and> (ms_parts s' = [] \<or> ms_role s' = leaves_open t)"
proof -
  let ?bs = "snd (claude_turn pj t)"
  obtain names where cb: "content_blocks pj (openai_turn t) (ms_names s) = (?bs, names)"
    using content_turn [OF ok, of "ms_names s"] by (metis prod.collapse)
  note step = s'_def merge_step_def Let_def claude_role_turn [of _ pj] turn_kinds flush_parts_def
  show ?thesis
  proof (cases t)
    case (ToolReplies i c)
    with cb show ?thesis by (simp add: step is_kind_jobj del: openai_turn.simps split: option.split)
  next
    case (AssistantCalls c cs)
    with cb turn_kinds [of pj t] ok apart show ?thesis
      by (auto simp: step simp del: openai_turn.simps split: option.split)
  qed (use cb turn_kinds [of pj t] ok apart in \<open>auto simp: step simp del: openai_turn.simps split: option.split\<close>)
qed

lemma merge_turns:
  assumes "merging s" "list_all (turn_ok rj pj) ts" "separated ts"
    and "ts = [] \<or> ms_parts s = [] \<or> continues (hd ts) = None \<or> ms_role s \<noteq> continues (hd ts)"
  defines "s' \<equiv> fold (merge_step pj) (map openai_turn ts) s"
  shows "flush_parts (ms_messages s') (ms_role s') (ms_parts s')
           = flush_parts (ms_messages s) (ms_role s) (ms_parts s) @ map (claude_turn pj) ts"
  using assms(1-4) unfolding s'_def
proof (induction ts arbitrary: s)
  case (Cons t ts)
  note one = merge_turn [of s rj pj t]
  have apart: "ms_parts s = [] \<or> continues t = None \<or> ms_role s \<noteq> continues t" "turn_ok rj pj t"
    using Cons.prems by auto
  let ?s = "merge_step pj (openai_turn t) s"
  have "ts = [] \<or> ms_parts ?s = [] \<or> continues (hd ts) = None \<or> ms_role ?s \<noteq> continues (hd ts)"
    using one [OF Cons.prems(1) apart(2,1)] Cons.prems(3) by (cases ts) auto
  moreover have "merging ?s" using merge_step_says [OF Cons.prems(1)] by blast
  moreover have "separated ts" using Cons.prems(3) by (cases ts) auto
  ultimately have "flush_parts (ms_messages (fold (merge_step pj) (map openai_turn ts) ?s)) (ms_role (fold (merge_step pj) (map openai_turn ts) ?s))
      (ms_parts (fold (merge_step pj) (map openai_turn ts) ?s))
      = flush_parts (ms_messages ?s) (ms_role ?s) (ms_parts ?s) @ map (claude_turn pj) ts"
    using Cons.IH [of ?s] Cons.prems(2) by simp
  then show ?case using one [OF Cons.prems(1) apart(2,1)] by simp
qed simp

lemma sort_block_mark: "sort_block rj (mark_block b) = sort_block rj b"
  by (rule ext) (simp add: sort_block_def field_or_null_def split: option.split)

lemma texts_of_each: "texts_of ps = concat (map (\<lambda>p. texts_of [p]) ps)"
  by (induction ps) (auto simp: texts_of_def List.map_filter_def)

lemma texts_of_marked: "texts_of (snd (mark_message m)) = texts_of (snd m)"
proof -
  have "texts_of [mark_block b] = texts_of [b]" for b by (simp add: texts_of_def List.map_filter_def)
  then have "map (\<lambda>p. texts_of [p]) (snd (mark_message m)) = map (\<lambda>p. texts_of [p]) (snd m)"
    by (rule map_mark_message)
  then show ?thesis by (simp only: texts_of_each [of "snd (mark_message m)"] texts_of_each [of "snd m"])
qed

lemma convert_marked:
  "convert_message rj (message_json (mark_message m)) = convert_message rj (message_json m)"
proof -
  have "fold (sort_block rj) bs s = fold (\<lambda>g. g) (map (sort_block rj) bs) s" for bs s
    by (simp add: fold_map comp_def)
  then have "fold (sort_block rj) (snd (mark_message m)) s = fold (sort_block rj) (snd m) s" for s
    using map_mark_message [of "sort_block rj" m] sort_block_mark by metis
  moreover have "snd (mark_message m) = [] \<longleftrightarrow> snd m = []" "fst (mark_message m) = fst m"
    by (simp_all add: mark_message_def flip: length_0_conv)
  ultimately show ?thesis
    by (simp add: convert_message_def message_json_def convert_content_blocks_def get_str_def jget_jobj
        claude_role_def Let_def system_reminder_text_def extract_text_content_def texts_of_marked)
qed

lemma sort_text [simp]:
  "sort_block rj (text_block t) s = s\<lparr>sb_parts := sb_parts s @ [text_block t]\<rparr>"
  by (simp add: sort_block_def text_block_def get_str_def jget_jobj)

lemma collapse_one_text [simp]: "collapse_text_parts [text_block t] = JStr t"
  by (simp add: collapse_text_parts_def text_block_def get_str_def jget_jobj)

lemma sort_uses:
  "list_all (\<lambda>(i, name, arguments). rj (safe_parse_json pj arguments) = arguments) cs \<Longrightarrow>
   fold (sort_block rj) (map (call_use pj) cs) s = s\<lparr>sb_calls := sb_calls s @ map call_json cs\<rparr>"
  by (induction cs arbitrary: s)
    (auto simp: sort_block_def call_use_def call_json_def get_str_def jget_jobj field_or_null_def)

lemma claude_turn_back:
  assumes "turn_ok rj pj t"
  shows "convert_message rj (message_json (claude_turn pj t)) = [openai_turn t]"
proof -
  note fields = convert_message_def message_json_def convert_content_blocks_def get_str_def jget_jobj
    claude_role_def Let_def
  show ?thesis
  proof (cases t)
    case (AssistantCalls c cs)
    with assms show ?thesis
      by (cases c) (auto simp: fields sort_uses opt_list_def)
  qed (use assms in \<open>auto simp: fields sort_block_def [of _ "jobj _"] field_or_null_def tool_result_content_def\<close>)
qed

lemma prompt_has_no_header: "strip_billing_header CLAUDE_SYSTEM_PROMPT = CLAUDE_SYSTEM_PROMPT"
  by code_simp

lemma no_system_turn:
  "filter (\<lambda>m. get_str m ''role'' \<noteq> Some ''system'') (map openai_turn ts) = map openai_turn ts"
  "filter (\<lambda>m. get_str m ''role'' = Some ''system'') (map openai_turn ts) = []"
  by (auto simp: openai_turn_role filter_id_conv filter_empty_conv simp del: openai_turn.simps split: turn.split)

text \<open>C31: A conversation survives the way to Claude and back: the turns of an OpenAI client, each with its role,
  text, calls and replies, come back as they were, behind the system prompt Claude is always given. The hypotheses
  are that no text is empty, that no \<open>response_format\<close> is asked for, that no two texts of one speaker follow each other (Claude's dialect merges them), that every call is answered
  (else placeholders are added), and that printing the parsed arguments of a call gives the arguments.\<close>

theorem conversation_round_trip:
  assumes "list_all (turn_ok render_json parse_json) ts" and "separated ts" and "calls_answered (map openai_turn ts)"
    and "jget body ''messages'' = Some (JArr (map openai_turn ts))" and "jget body ''response_format'' = None"
  shows "openai_messages render_json (fst (openai_to_claude_request parse_json render_pretty model body stream ceiling))
    = jobj [(''role'', JStr ''system''), (''content'', JStr CLAUDE_SYSTEM_PROMPT)] # map openai_turn ts"
proof -
  let ?r = "fst (openai_to_claude_request parse_json render_pretty model body stream ceiling)"
  have merged: "fst (merge_messages parse_json (map openai_turn ts) []) = map (claude_turn parse_json) ts"
    using merge_turns [OF _ assms(1,2), of "\<lparr>ms_messages = [], ms_role = None, ms_parts = [], ms_names = []\<rparr>"]
    by (simp add: merge_messages_def no_system_turn Let_def merging_def flush_parts_def [of "[]" None])
  have "map (\<lambda>m. convert_message render_json (message_json m)) (apply_cache_control (map (claude_turn parse_json) ts))
      = map (\<lambda>t. [openai_turn t]) ts"
    unfolding map_apply_cache_control [of "\<lambda>m. convert_message render_json (message_json m)", OF convert_marked]
    using assms(1) by (simp add: claude_turn_back list_all_iff)
  from arg_cong [OF this, of concat]
  have "concat (map (\<lambda>m. convert_message render_json (message_json m)) (apply_cache_control (map (claude_turn parse_json) ts)))
      = map openai_turn ts"
    by (simp only: concat_map_singleton)
  then have messages: "concat (map (convert_message render_json) (opt_default [] (Option.bind (jget ?r ''messages'') as_array)))
      = map openai_turn ts"
    by (simp add: request_messages assms(4) merged comp_def)
  have "jget ?r ''system'' = Some (build_system [])"
    by (auto simp: openai_to_claude_request_def Let_def jget_jobj assms(4,5) system_texts_def no_system_turn
        split: option.split prod.split)
  then have "(case jget ?r ''system'' of None \<Rightarrow> [] | Some system \<Rightarrow> (let content = system_content system
      in if content = [] then [] else [jobj [(''role'', JStr ''system''), (''content'', JStr content)]]))
     = [jobj [(''role'', JStr ''system''), (''content'', JStr CLAUDE_SYSTEM_PROMPT)]]"
    by (simp add: build_system_def system_content_def text_block_def get_str_def jget_jobj prompt_has_no_header)
      (simp add: CLAUDE_SYSTEM_PROMPT_def)
  with messages show ?thesis
    using assms(3) by (simp add: openai_messages_def fix_answered request_messages call_ids_def get_str_def jget_jobj)
qed

definition sample_turns :: "turn list" where
  "sample_turns = [UserSays ''hi'', AssistantCalls (Some ''ok'') [(''c1'', ''Read'', ''{}'')], ToolReplies ''c1'' ''x'', UserSays ''go'']"

theorem conversation_round_trip_witness:
  "openai_messages (\<lambda>_. ''{}'') (fst (openai_to_claude_request (\<lambda>_. Some (jobj [])) (\<lambda>_. []) ''m''
       (jobj [(''messages'', JArr (map openai_turn sample_turns))]) True 100))
     = jobj [(''role'', JStr ''system''), (''content'', JStr CLAUDE_SYSTEM_PROMPT)] # map openai_turn sample_turns"
proof (rule conversation_round_trip)
  show "list_all (turn_ok (\<lambda>_. ''{}'') (\<lambda>_. Some (jobj []))) sample_turns" "separated sample_turns"
    by (simp_all add: sample_turns_def)
  show "calls_answered (map openai_turn sample_turns)" by code_simp
qed (simp_all add: jget_jobj)

end
