(* ===== verification/Request_Route.thy ===== *)
theory Request_Route
  imports Thinking Request_Rules Ollama_Request Responses_Request Openai_Request
begin

text \<open>
  The way of a request from the client's dialect to the provider's
  (\<open>crates/translate/src/lib.rs\<close>): to OpenAI and on to the target, the reasoning intent captured
  before and written again after, and the two passes that remove what the provider or the model does not take.
  The readers and printers of JSON text and the data files are collected in \<open>translation_env\<close>.
\<close>

section \<open>The route\<close>

record translation_env =
  te_parse_json :: "string \<Rightarrow> json option"
  te_render_json :: "json \<Rightarrow> string"
  te_render_pretty :: "json \<Rightarrow> string"
  te_table :: capability_table
  te_registry :: model_registry

record request_route =
  rt_source :: wire_format
  rt_target :: wire_format
  rt_provider :: string
  rt_model :: string

record translated_request =
  td_body :: json
  td_tool_name_map :: name_map

definition plain :: "json \<Rightarrow> translated_request" where
  "plain body = \<lparr>td_body = body, td_tool_name_map = []\<rparr>"

definition same_format :: "wire_format \<Rightarrow> wire_format \<Rightarrow> bool" where
  "same_format source target \<longleftrightarrow> source = target \<and> source \<in> {OpenAi, Claude, Gemini, OpenAiResponses}"

definition set_members :: "(string \<times> json) list \<Rightarrow> json \<Rightarrow> json" where
  "set_members kvs body = (case body of JObj m \<Rightarrow> JObj (fold (\<lambda>(k, v). bt_insert k v) kvs m) | _ \<Rightarrow> body)"

fun to_intermediate :: "translation_env \<Rightarrow> wire_format \<Rightarrow> string \<Rightarrow> json \<Rightarrow> bool \<Rightarrow> json" where
  "to_intermediate e Claude model body stream = claude_to_openai_request (te_render_json e) model body stream"
| "to_intermediate e Gemini model body stream = gemini_to_openai (te_render_json e) model body stream"
| "to_intermediate e GeminiCli model body stream = gemini_to_openai (te_render_json e) model body stream"
| "to_intermediate e Vertex model body stream = gemini_to_openai (te_render_json e) model body stream"
| "to_intermediate e OpenAiResponses model body stream = responses_to_openai (te_render_json e) model body stream"
| "to_intermediate e _ model body stream = body"

fun from_intermediate :: "translation_env \<Rightarrow> wire_format \<Rightarrow> string \<Rightarrow> json \<Rightarrow> bool \<Rightarrow> nat \<Rightarrow> translated_request" where
  "from_intermediate e Claude model body stream ceiling =
     (case openai_to_claude_request (te_parse_json e) (te_render_pretty e) model body stream ceiling of
        (translated, names) \<Rightarrow> \<lparr>td_body = translated, td_tool_name_map = names\<rparr>)"
| "from_intermediate e Gemini model body stream ceiling = plain (openai_to_gemini (te_parse_json e) (te_render_json e) model body)"
| "from_intermediate e GeminiCli model body stream ceiling = plain (openai_to_gemini (te_parse_json e) (te_render_json e) model body)"
| "from_intermediate e Vertex model body stream ceiling = plain (openai_to_gemini (te_parse_json e) (te_render_json e) model body)"
| "from_intermediate e Ollama model body stream ceiling = plain (openai_to_ollama (te_parse_json e) model body stream)"
| "from_intermediate e CommandCode model body stream ceiling =
     plain (set_members [(''model'', JStr model), (''stream'', JBool stream)] body)"
| "from_intermediate e OpenAi model body stream ceiling =
     plain (set_members [(''model'', JStr model), (''stream'', JBool stream)] body)"
| "from_intermediate e OpenAiResponses model body stream ceiling =
     plain (set_members [(''model'', JStr model), (''stream'', JBool stream)] body)"
| "from_intermediate e _ model body stream ceiling = plain body"

definition translate_request :: "translation_env \<Rightarrow> request_route \<Rightarrow> json \<Rightarrow> bool \<Rightarrow> nat \<Rightarrow> translated_request" where
  "translate_request e route body stream ceiling =
     (let provider = rt_provider route; model = rt_model route;
          intent = extract_thinking body;
          upstream_model = strip_thinking_suffix model;
          think = (\<lambda>b. apply_thinking (te_table e) (te_registry e) (rt_target route) provider model b intent)
      in if same_format (rt_source route) (rt_target route)
         then plain (think (set_members [(''model'', JStr upstream_model)] body))
         else
           (let translated = from_intermediate e (rt_target route) upstream_model
                  (to_intermediate e (rt_source route) upstream_model body stream) stream ceiling;
                caps = for_model (te_table e) (te_registry e) provider model
            in translated\<lparr>td_body := strip_unsupported_params provider upstream_model
                 (strip_unsupported_modalities (think (td_body translated)) (rt_target route) caps) ceiling\<rparr>))"

section \<open>Which members a pass touches\<close>

definition THINKING_TOUCHES :: "string list" where
  "THINKING_TOUCHES = THINKING_KEYS @ [''max_tokens'', ''generationConfig'', ''request'']"

lemma strip_all_keys: "k \<notin> set THINKING_TOUCHES \<Longrightarrow> map_of (strip_all m) k = map_of m k"
  by (simp add: strip_all_def map_of_in_member map_of_fold_remove THINKING_TOUCHES_def)

lemma ensure_floor_keys: "k \<notin> set THINKING_TOUCHES \<Longrightarrow> map_of (ensure_gemini_output_floor least limit m) k = map_of m k"
  by (simp add: ensure_gemini_output_floor_def in_generation_config_keys THINKING_TOUCHES_def)

lemma set_thinking_keys: "k \<notin> set THINKING_TOUCHES \<Longrightarrow> map_of (set_gemini_thinking c m) k = map_of m k"
  by (simp add: set_gemini_thinking_def in_generation_config_keys THINKING_TOUCHES_def)

text \<open>A writer leaves every other member alone.\<close>

lemma leaves_insert: "k \<noteq> k' \<Longrightarrow> map_of (bt_insert k' v m) k = map_of m k"
  by (simp add: map_simps)

lemma leaves_option: "k \<noteq> k' \<Longrightarrow> map_of (case x of None \<Rightarrow> m | Some y \<Rightarrow> bt_insert k' (g y) m) k = map_of m k"
  by (simp add: map_simps split: option.split)

lemma raise_limit_keys: "k \<noteq> ''max_tokens'' \<Longrightarrow> map_of (raise_limit b m) k = map_of m k"
  by (simp add: raise_limit_def map_simps split: option.split)

lemma budget_keys:
  "k \<noteq> ''thinking'' \<Longrightarrow> k \<noteq> ''max_tokens'' \<Longrightarrow> map_of (apply_budget_thinking intent rng disable m) k = map_of m k"
  by (cases disable) (simp_all add: apply_budget_alt raise_limit_keys leaves_insert, simp add: apply_budget_thinking_def leaves_insert)

lemma gemini_keys:
  assumes "k \<notin> set THINKING_TOUCHES"
  shows "map_of (apply_gemini_level intent caps off m) k = map_of m k"
    "map_of (apply_gemini_budget intent caps disable m) k = map_of m k"
  using ensure_floor_keys [OF assms] set_thinking_keys [OF assms]
  by (simp_all add: apply_gemini_level_def apply_gemini_budget_def Let_def)

lemma qwen_keys:
  "k \<noteq> ''enable_thinking'' \<Longrightarrow> k \<noteq> ''thinking_budget'' \<Longrightarrow> map_of (apply_qwen intent rng disable m) k = map_of m k"
  by (simp add: apply_qwen_def Let_def map_simps split: option.split)

lemma effort_keys:
  assumes "k \<noteq> ''reasoning_effort''" "k \<noteq> ''thinking''" "k \<noteq> ''enable_thinking''" "k \<noteq> ''output_config''"
  shows "map_of (apply_zai disable m) k = map_of m k" "map_of (apply_deepseek intent disable m) k = map_of m k"
    "map_of (apply_kimi intent disable m) k = map_of m k" "map_of (apply_step intent disable m) k = map_of m k"
    "map_of (apply_tokenrouter intent off m) k = map_of m k" "map_of (apply_claude_adaptive intent disable m) k = map_of m k"
  using assms
  by (simp_all add: apply_zai_def apply_deepseek_def apply_kimi_def apply_step_def apply_tokenrouter_def
      apply_claude_adaptive_def Let_def map_simps split: option.split)

lemma apply_format_keys:
  assumes "k \<notin> set THINKING_TOUCHES"
  shows "map_of (apply_format f intent caps supported m) k = map_of m k"
proof -
  have other: "k \<noteq> ''thinking''" "k \<noteq> ''reasoning_effort''" "k \<noteq> ''enable_thinking''" "k \<noteq> ''thinking_budget''"
    "k \<noteq> ''output_config''" "k \<noteq> ''max_tokens''"
    using assms by (simp_all add: THINKING_TOUCHES_def THINKING_KEYS_def)
  show ?thesis
    unfolding apply_format_def Let_def
    by (cases f)
      (simp_all add: leaves_insert leaves_option budget_keys qwen_keys effort_keys other gemini_keys [OF assms])
qed

lemma apply_thinking_keys:
  assumes "k \<notin> set THINKING_TOUCHES"
  shows "jget (apply_thinking t rg target provider model body intent) k = jget body k"
  using assms by (cases body)
    (simp_all add: apply_thinking_def Let_def split_beta strip_all_keys apply_format_keys split: option.split)

lemma apply_thinking_object: "\<exists>m'. apply_thinking t rg target provider model (JObj m) intent = JObj m'"
  by (simp add: apply_thinking_def Let_def split_beta split: option.split)

lemma modalities_keys:
  "k \<notin> {''messages'', ''input'', ''contents''} \<Longrightarrow> jget (strip_unsupported_modalities body format caps) k = jget body k"
  by (cases body; cases format)
    (simp_all add: strip_unsupported_modalities_def media_place_def in_array_keys)

definition RULE_KEYS :: "string list" where
  "RULE_KEYS = [''messages'', ''max_tokens'', ''max_completion_tokens'', ''max_output_tokens'']"

lemma apply_rule_keys:
  assumes "k \<notin> set (ru_drop r)" "k \<notin> set RULE_KEYS"
  shows "map_of (apply_rule mx r m) k = map_of m k"
proof -
  have "k \<notin> set LIMIT_KEYS" "k \<noteq> ''messages''" using assms(2) by (simp_all add: RULE_KEYS_def LIMIT_KEYS_def)
  then show ?thesis using assms(1)
    by (simp add: apply_rule_def Let_def clamps_other flatten_content_arrays_def in_array_keys map_of_fold_remove split: option.split)
qed

lemma params_keys:
  assumes "\<And>r. r \<in> set STRIP_RULES \<Longrightarrow> rule_applies r provider model \<Longrightarrow> k \<notin> set (ru_drop r)" "k \<notin> set RULE_KEYS"
  shows "jget (strip_unsupported_params provider model body mx) k = jget body k"
proof -
  have kept: "\<forall>r \<in> set rs. k \<notin> set (ru_drop r) \<Longrightarrow> map_of (fold (apply_rule mx) rs m) k = map_of m k" for rs m
    using assms(2) by (induction rs arbitrary: m) (simp_all add: apply_rule_keys)
  have "\<forall>r \<in> set (filter (\<lambda>r. rule_applies r provider model) STRIP_RULES). k \<notin> set (ru_drop r)" using assms(1) by simp
  from kept [OF this] show ?thesis by (cases body) (simp_all add: strip_unsupported_params_def strip_with_def)
qed

section \<open>The same dialect on both sides\<close>

lemma set_members_other: "k \<notin> fst ` set kvs \<Longrightarrow> jget (set_members kvs body) k = jget body k"
proof (cases body)
  case (JObj m)
  assume "k \<notin> fst ` set kvs"
  then have "map_of (rev kvs) k = None" by (simp add: map_of_eq_None_iff)
  then show ?thesis by (simp add: set_members_def JObj map_simps)
qed (simp_all add: set_members_def)

text \<open>Between clients and providers of one dialect the request is not translated: nothing is changed but the model and
  what concerns reasoning. So the rules for parameters and media are not applied either.\<close>

theorem passthrough_untouched:
  assumes "same_format (rt_source route) (rt_target route)" "k \<notin> set THINKING_TOUCHES" "k \<noteq> ''model''"
  shows "jget (td_body (translate_request e route body stream ceiling)) k = jget body k"
  using assms by (simp add: translate_request_def Let_def plain_def apply_thinking_keys set_members_other)

definition sample_translation :: translation_env where
  "sample_translation = \<lparr>te_parse_json = (\<lambda>_. None), te_render_json = (\<lambda>_. []), te_render_pretty = (\<lambda>_. []),
     te_table = \<lparr>ct_default = DEFAULT_CAPABILITIES\<lparr>cp_reasoning := True\<rparr>, ct_rows = []\<rparr>,
     te_registry = \<lparr>rg_models_key = (\<lambda>_. None), rg_models = (\<lambda>_. [])\<rparr>\<rparr>"

definition sample_route :: request_route where
  "sample_route = \<lparr>rt_source = OpenAi, rt_target = Claude, rt_provider = ''anthropic'', rt_model = []\<rparr>"

theorem passthrough_untouched_witness:
  "jget (td_body (translate_request sample_translation (sample_route\<lparr>rt_target := OpenAi\<rparr>) (JObj [(''temperature'', JNull)]) True 9)) ''temperature''
     = Some JNull"
  using passthrough_untouched [where route = "sample_route\<lparr>rt_target := OpenAi\<rparr>" and k = "''temperature''" and e = sample_translation
      and body = "JObj [(''temperature'', JNull)]" and stream = True and ceiling = 9]
  by (simp add: sample_route_def same_format_def THINKING_TOUCHES_def THINKING_KEYS_def)

section \<open>The model's name\<close>

lemma jget_first: "k \<notin> fst ` set kvs \<Longrightarrow> jget (jobj ((k, v) # kvs)) k = Some v"
  by (rule jget_jobj_once) (force)+

lemma from_intermediate_model:
  assumes "target \<in> {Claude, Gemini, GeminiCli, Vertex, Ollama, CommandCode, OpenAi, OpenAiResponses}"
  shows "jget (td_body (from_intermediate e target model (JObj m) stream ceiling)) ''model'' = Some (JStr model)"
proof -
  have set: "jget (set_members [(''model'', JStr model), (''stream'', JBool stream)] (JObj m)) ''model'' = Some (JStr model)"
    by (simp add: set_members_def map_simps)
  have claude: "jget (fst (openai_to_claude_request pj rp model b stream ceiling)) ''model'' = Some (JStr model)" for pj rp b
    unfolding openai_to_claude_request_def Let_def split_beta fst_conv
    by (rule jget_jobj_once) (auto split: option.splits if_splits)
  have gemini: "jget (openai_to_gemini pj rj model b) ''model'' = Some (JStr model)" for pj rj b
    unfolding openai_to_gemini_def Let_def by (rule jget_jobj_once) (auto split: option.splits if_splits)
  have ollama: "jget (openai_to_ollama pj model b stream) ''model'' = Some (JStr model)" for pj b
    unfolding openai_to_ollama_def by (rule jget_jobj_once) (auto split: option.splits if_splits json.splits)
  show ?thesis using assms set claude gemini ollama by (auto simp: plain_def split_beta)
qed

lemma to_intermediate_object: "\<exists>m'. to_intermediate e source model (JObj m) stream = JObj m'"
  by (cases source) (auto simp: claude_to_openai_request_def gemini_to_openai_def responses_to_openai_def Let_def jobj_def
      split: option.splits)

lemma from_intermediate_object: "\<exists>m'. td_body (from_intermediate e target model (JObj m) stream ceiling) = JObj m'"
  by (cases target) (auto simp: openai_to_claude_request_def openai_to_gemini_def openai_to_ollama_def Let_def jobj_def
      set_members_def plain_def split_beta)

lemma set_members_object: "\<exists>m'. set_members kvs (JObj m) = JObj m'"
  by (simp add: set_members_def)

lemma rules_keep: "k \<notin> {''temperature'', ''thinking'', ''reasoning_effort''} \<Longrightarrow> r \<in> set STRIP_RULES \<Longrightarrow> k \<notin> set (ru_drop r)"
  by (auto simp: STRIP_RULES_def drops_def)

text \<open>Towards every dialect with a translator the body names the model without its thinking suffix.\<close>

theorem suffix_never_sent:
  assumes "rt_target route \<in> {Claude, Gemini, GeminiCli, Vertex, Ollama, CommandCode, OpenAi, OpenAiResponses}"
  shows "jget (td_body (translate_request e route (JObj m) stream ceiling)) ''model'' =
    Some (JStr (strip_thinking_suffix (rt_model route)))"
proof -
  have untouched: "''model'' \<notin> set THINKING_TOUCHES" "''model'' \<notin> set RULE_KEYS"
    by (simp_all add: THINKING_TOUCHES_def THINKING_KEYS_def RULE_KEYS_def)
  have rules: "jget (strip_unsupported_params provider model b mx) ''model'' = jget b ''model''" for provider model b mx
    by (rule params_keys) (use rules_keep untouched in auto)
  show ?thesis
  proof (cases "same_format (rt_source route) (rt_target route)")
    case True
    then show ?thesis
      by (simp add: translate_request_def Let_def plain_def apply_thinking_keys untouched set_members_def map_simps)
  next
    case False
    obtain m' where "to_intermediate e (rt_source route) (strip_thinking_suffix (rt_model route)) (JObj m) stream = JObj m'"
      using to_intermediate_object by blast
    with False from_intermediate_model [OF assms] show ?thesis
      by (simp add: translate_request_def Let_def rules modalities_keys apply_thinking_keys untouched)
  qed
qed

theorem suffix_never_sent_witness:
  "jget (td_body (translate_request sample_translation sample_route (JObj []) True 9)) ''model'' =
    Some (JStr (strip_thinking_suffix (rt_model sample_route)))"
  by (rule suffix_never_sent) (simp add: sample_route_def)

lemma modalities_object: "\<exists>m'. strip_unsupported_modalities (JObj m) format caps = JObj m'"
  by (cases "media_place format") (simp add: strip_unsupported_modalities_def)

section \<open>The rules end to end\<close>



section \<open>The intent end to end\<close>

definition READ_KEYS :: "string list" where
  "READ_KEYS = THINKING_KEYS @ [''generationConfig'', ''request'']"

lemma extract_cong:
  assumes "\<And>k. k \<in> set READ_KEYS \<Longrightarrow> map_of m' k = map_of m k"
  shows "extract_thinking_object m' = extract_thinking_object m"
proof -
  have same: "map_of m' ''output_config'' = map_of m ''output_config''" "map_of m' ''thinking'' = map_of m ''thinking''"
    "map_of m' ''reasoning_effort'' = map_of m ''reasoning_effort''" "map_of m' ''reasoning'' = map_of m ''reasoning''"
    "map_of m' ''thinkingConfig'' = map_of m ''thinkingConfig''" "map_of m' ''generationConfig'' = map_of m ''generationConfig''"
    "map_of m' ''request'' = map_of m ''request''" "map_of m' ''enable_thinking'' = map_of m ''enable_thinking''"
    "map_of m' ''thinking_budget'' = map_of m ''thinking_budget''"
    by (rule assms; simp add: READ_KEYS_def THINKING_KEYS_def)+
  have "gemini_thinking_config m' = gemini_thinking_config m" by (rule gemini_config_cong) (fact same)+
  then show ?thesis
    by (simp only: extract_thinking_object_def obj_get_step list.simps not_False_eq_True simp_thms same read_claude_def
        read_effort_def read_gemini_def read_qwen_def)
qed

lemma extract_same:
  assumes "body = JObj m" "body' = JObj m'" "\<And>k. k \<in> set READ_KEYS \<Longrightarrow> jget body' k = jget body k"
  shows "extract_thinking body' = extract_thinking body"
  using extract_cong [of m' m] assms by (simp add: extract_thinking_def)

lemma apply_thinking_read:
  assumes "opt_or (snd (parse_suffix model)) intent = Some asked"
  shows "extract_thinking (apply_thinking t rg target provider model (JObj m) intent) =
    (let caps = for_model t rg provider (strip_thinking_suffix model)
     in if cp_reasoning caps
        then heard (opt_default (native_format target) (cp_thinking_format caps)) asked caps
               (thinking_levels t rg provider (strip_thinking_suffix model))
        else None)"
  using assms says_nothing [OF strip_all_unspoken]
  by (auto simp: apply_thinking_def Let_def split_beta strip_thinking_suffix_def thinking_read_back extract_thinking_def)

text \<open>C8: Whatever dialect the client asks for reasoning in, and whatever dialect the provider speaks, the body that is sent
  asks for it in the provider's words: a reader of those finds the intent \<open>heard\<close> names for the model, an intent
  in the model's name before one in the body; for a model that does not reason it finds none. The exception: on GitHub
  a Claude model other than Opus and Sonnet 4.6 takes no such parameters, and the rule for it removes them again from a translated
  request. A suffix \<open>(0)\<close> is heard as a budget of zero and not as off, against the comment on the intent type,
  which says a budget is positive and zero reads as off.\<close>

theorem reasoning_intent_delivered:
  assumes asked: "opt_or (snd (parse_suffix (rt_model route))) (extract_thinking (JObj m)) = Some asked"
    and clean: "clean = strip_thinking_suffix (rt_model route)"
    and provider: "same_format (rt_source route) (rt_target route)
      \<or> \<not> (rt_provider route = ''github'' \<and> is_github_claude_except_46 clean)"
    and caps: "caps = for_model (te_table e) (te_registry e) (rt_provider route) clean"
  shows "extract_thinking (td_body (translate_request e route (JObj m) stream ceiling)) =
    (if cp_reasoning caps
     then heard (opt_default (native_format (rt_target route)) (cp_thinking_format caps)) asked caps
            (thinking_levels (te_table e) (te_registry e) (rt_provider route) clean)
     else None)"
proof -
  define think where "think = (\<lambda>b. apply_thinking (te_table e) (te_registry e) (rt_target route) (rt_provider route)
      (rt_model route) b (extract_thinking (JObj m)))"
  have heard: "extract_thinking (think (JObj m')) =
    (if cp_reasoning caps
     then heard (opt_default (native_format (rt_target route)) (cp_thinking_format caps)) asked caps
            (thinking_levels (te_table e) (te_registry e) (rt_provider route) clean)
     else None)" for m'
    unfolding think_def using apply_thinking_read [OF asked] by (simp add: Let_def caps clean)
  show ?thesis
  proof (cases "same_format (rt_source route) (rt_target route)")
    case True
    obtain m' where "set_members [(''model'', JStr (strip_thinking_suffix (rt_model route)))] (JObj m) = JObj m'"
      using set_members_object by blast
    then show ?thesis using True heard by (simp add: translate_request_def Let_def plain_def think_def)
  next
    case False
    obtain m1 where m1: "to_intermediate e (rt_source route) clean (JObj m) stream = JObj m1" using to_intermediate_object by blast
    obtain m2 where m2: "td_body (from_intermediate e (rt_target route) clean (JObj m1) stream ceiling) = JObj m2"
      using from_intermediate_object by blast
    obtain m3 where m3: "think (JObj m2) = JObj m3" using apply_thinking_object think_def by blast
    define media where "media = strip_unsupported_modalities (JObj m3) (rt_target route)
        (for_model (te_table e) (te_registry e) (rt_provider route) (rt_model route))"
    define sent where "sent = strip_unsupported_params (rt_provider route) clean media ceiling"
    have body: "td_body (translate_request e route (JObj m) stream ceiling) = sent"
      using False m1 m2 m3 by (simp add: translate_request_def Let_def clean think_def sent_def media_def)
    obtain m4 where m4: "media = JObj m4"
      using modalities_object media_def by metis
    obtain m5 where m5: "sent = JObj m5" by (simp add: sent_def strip_unsupported_params_def m4)
    have "jget sent k = jget (JObj m3) k" if k: "k \<in> set READ_KEYS" for k
    proof -
      have away: "k \<notin> set RULE_KEYS" "k \<notin> {''messages'', ''input'', ''contents''}" "k \<noteq> ''temperature''"
        using k by (auto simp: READ_KEYS_def THINKING_KEYS_def RULE_KEYS_def)
      have "k \<notin> set (ru_drop r)" if "r \<in> set STRIP_RULES" "rule_applies r (rt_provider route) clean" for r
        using that provider False away(3) by (auto simp: STRIP_RULES_def drops_def rule_applies_def)
      then have "jget sent k = jget media k" unfolding sent_def using away(1) by (intro params_keys)
      also have "\<dots> = jget (JObj m3) k" unfolding media_def using away(2) by (rule modalities_keys)
      finally show ?thesis .
    qed
    then have "extract_thinking sent = extract_thinking (JObj m3)" by (rule extract_same [OF refl m5])
    then show ?thesis using heard [of m2] unfolding body m3 by simp
  qed
qed

theorem reasoning_intent_delivered_witness:
  "extract_thinking (td_body (translate_request sample_translation sample_route (JObj [(''reasoning_effort'', JStr ''high'')]) True 9)) =
     heard TfClaudeBudget (Level ''high'') (DEFAULT_CAPABILITIES\<lparr>cp_reasoning := True\<rparr>)
       (thinking_levels (te_table sample_translation) (te_registry sample_translation) ''anthropic'' [])"
proof -
  have empty: "parse_suffix [] = ([], None)" "for_model (te_table sample_translation) (te_registry sample_translation) ''anthropic'' []
      = DEFAULT_CAPABILITIES\<lparr>cp_reasoning := True\<rparr>"
    by (simp_all add: parse_suffix_def split_thinking_suffix_def trim_end_def strip_prefix_def starts_with_def for_model_def sample_translation_def)
  show ?thesis
    using reasoning_intent_delivered [where route = sample_route and e = sample_translation and stream = True and ceiling = 9
        and m = "[(''reasoning_effort'', JStr ''high'')]" and asked = "Level ''high''", OF _ refl _ refl]
    by (simp add: sample_route_def strip_thinking_suffix_def empty extract_thinking_def extract_thinking_object_def
        obj_get_step read_claude_def read_effort_def non_empty_str_def intent_from_effort_def ascii_lower_def
        ascii_lower_char_def DEFAULT_CAPABILITIES_def)
qed

end
