(* ===== verification/Oidc.thy ===== *)
theory Oidc
  imports Sign_In
begin

text \<open>
  Sign-in through an OpenID Connect provider (\<open>services/auth-actix/src/oidc.rs\<close>): the settings,
  the verification of an ID token, and the three calls to the provider. Base64url, JSON and the
  RS256 signature check come from libraries and are parameters (\<open>oidc_library\<close>); what the provider
  answers is a parameter of the calls.
\<close>

section \<open>Errors and configuration\<close>

datatype oidc_error =
    NotConfigured | InvalidState | MissingCode | Discovery string | TokenExchange string
  | MissingIdToken | IdToken string | StateUnavailable

fun oidc_code :: "oidc_error \<Rightarrow> string" where
  "oidc_code NotConfigured = ''oidc_not_configured''"
| "oidc_code InvalidState = ''oidc_invalid_state''"
| "oidc_code MissingCode = ''oidc_missing_code''"
| "oidc_code (Discovery _) = ''oidc_discovery_failed''"
| "oidc_code (TokenExchange _) = ''oidc_token_exchange_failed''"
| "oidc_code MissingIdToken = ''oidc_missing_id_token''"
| "oidc_code (IdToken _) = ''oidc_id_token_invalid''"
| "oidc_code StateUnavailable = ''oidc_state_unavailable''"

record auth_settings =
  st_oidc_issuer_url :: string
  st_oidc_client_id :: string
  st_oidc_client_secret :: string
  st_oidc_scopes :: string
  st_oidc_login_label :: string
  st_saml_entry_point :: string
  st_saml_issuer :: string
  st_saml_cert :: string
  st_saml_attribute_email :: string
  st_saml_attribute_name :: string

record oidc_config =
  oc_issuer_url :: string
  oc_client_id :: string
  oc_client_secret :: string
  oc_scopes :: string
  oc_login_label :: string

definition trim_trailing_slashes :: "string \<Rightarrow> string" where
  "trim_trailing_slashes value = rev (dropWhile (\<lambda>c. c = CHR ''/'') (rev (trim value)))"

definition normalize_scopes :: "string \<Rightarrow> string" where
  "normalize_scopes value = (if trim value = [] then ''openid profile email'' else trim value)"

definition normalize_login_label :: "string \<Rightarrow> string" where
  "normalize_login_label value = (if trim value = [] then ''Sign in with OIDC'' else trim value)"

definition oidc_from_settings :: "auth_settings \<Rightarrow> oidc_config option" where
  "oidc_from_settings st =
     (let issuer_url = trim_trailing_slashes (st_oidc_issuer_url st);
          client_id = trim (st_oidc_client_id st);
          client_secret = trim (st_oidc_client_secret st)
      in if issuer_url = [] \<or> client_id = [] \<or> client_secret = [] then None
         else Some \<lparr>oc_issuer_url = issuer_url, oc_client_id = client_id, oc_client_secret = client_secret,
                    oc_scopes = normalize_scopes (st_oidc_scopes st),
                    oc_login_label = normalize_login_label (st_oidc_login_label st)\<rparr>)"

record discovery_doc =
  dd_issuer :: string
  dd_authorization_endpoint :: string
  dd_token_endpoint :: string
  dd_jwks_uri :: string

definition discovery_url :: "string \<Rightarrow> string" where
  "discovery_url issuer_url = trim_trailing_slashes issuer_url @ ''/.well-known/openid-configuration''"

section \<open>ID tokens\<close>

record oidc_tokens =
  tk_id_token :: "string option"
  tk_access_token :: "string option"
  tk_error :: "string option"
  tk_error_description :: "string option"

datatype audience = One string | Many "string list"

fun audience_contains :: "audience \<Rightarrow> string \<Rightarrow> bool" where
  "audience_contains (One value) expected \<longleftrightarrow> value = expected"
| "audience_contains (Many values) expected \<longleftrightarrow> list_ex (\<lambda>v. v = expected) values"

record id_claims =
  ic_sub :: "string option"
  ic_email :: "string option"
  ic_name :: "string option"
  ic_preferred_username :: "string option"
  ic_given_name :: "string option"
  ic_nonce :: "string option"
  ic_iss :: "string option"
  ic_aud :: "audience option"
  ic_exp :: "nat option"
  ic_iat :: "nat option"

definition pick_display_name :: "id_claims \<Rightarrow> string" where
  "pick_display_name c =
     opt_default ''OIDC user'' (find (\<lambda>v. v \<noteq> []) (List.map_filter (map_option trim)
       [ic_preferred_username c, ic_email c, ic_name c, ic_given_name c, ic_sub c]))"

definition pick_email :: "id_claims \<Rightarrow> string" where
  "pick_email c = opt_default [] (ic_email c)"

record jwk =
  jk_kty :: string
  jk_kid :: "string option"
  jk_alg :: "string option"
  jk_n :: "string option"
  jk_e :: "string option"

record oidc_library =
  ol_decode :: "string \<Rightarrow> string option"                                        \<comment> \<open>base64url without padding\<close>
  ol_header :: "string \<Rightarrow> (string \<times> string option) option"                      \<comment> \<open>alg, kid\<close>
  ol_claims :: "string \<Rightarrow> id_claims option"
  ol_discovery :: "string \<Rightarrow> discovery_doc option"
  ol_jwks :: "string \<Rightarrow> jwk list option"
  ol_tokens :: "string \<Rightarrow> oidc_tokens option"
  ol_verifies :: "string \<times> string \<Rightarrow> string \<Rightarrow> string \<Rightarrow> bool"      \<comment> \<open>modulus and exponent, message, signature\<close>

definition CLOCK_SKEW_SECONDS :: nat where "CLOCK_SKEW_SECONDS = 60"

record expectations =
  ex_issuer :: string
  ex_audience :: string
  ex_nonce :: string
  ex_now_seconds :: nat

text \<open>The key of a JWK, where it has one.\<close>

definition rsa_public_key :: "oidc_library \<Rightarrow> jwk \<Rightarrow> (string \<times> string) option" where
  "rsa_public_key lib key =
     (case (Option.bind (jk_n key) (ol_decode lib), Option.bind (jk_e key) (ol_decode lib)) of
        (Some modulus, Some exponent) \<Rightarrow> Some (modulus, exponent) | _ \<Rightarrow> None)"

definition check_claims :: "id_claims \<Rightarrow> expectations \<Rightarrow> oidc_error option" where
  "check_claims c ex =
     (if map_option trim_trailing_slashes (ic_iss c) \<noteq> Some (trim_trailing_slashes (ex_issuer ex))
      then Some (IdToken ''id_token issuer mismatch'')
      else if \<not> (case ic_aud c of Some aud \<Rightarrow> audience_contains aud (ex_audience ex) | None \<Rightarrow> False)
      then Some (IdToken ''id_token audience does not include this client'')
      else if ic_nonce c \<noteq> Some (ex_nonce ex) then Some (IdToken ''id_token nonce mismatch'')
      else case ic_exp c of
        None \<Rightarrow> Some (IdToken ''id_token has no exp'')
      | Some expiry \<Rightarrow>
          if sat_add64 expiry CLOCK_SKEW_SECONDS \<le> ex_now_seconds ex then Some (IdToken ''id_token has expired'')
          else if (case ic_iat c of Some iat \<Rightarrow> sat_add64 (ex_now_seconds ex) CLOCK_SKEW_SECONDS < iat | None \<Rightarrow> False)
          then Some (IdToken ''id_token was issued in the future'')
          else None)"

definition candidate :: "string option \<Rightarrow> jwk \<Rightarrow> bool" where
  "candidate kid key \<longleftrightarrow>
     jk_kty key = ''RSA'' \<and> (jk_alg key = None \<or> jk_alg key = Some ''RS256'')
     \<and> (case (kid, jk_kid key) of (Some wanted, Some available) \<Rightarrow> wanted = available | _ \<Rightarrow> True)"

definition verify_id_token :: "oidc_library \<Rightarrow> string \<Rightarrow> jwk list \<Rightarrow> expectations \<Rightarrow> oidc_error + id_claims" where
  "verify_id_token lib token jwks ex =
     (case split_char (CHR ''.'') token of
        [header_b64, claims_b64, signature_b64] \<Rightarrow>
          (case Option.bind (ol_decode lib header_b64) (ol_header lib) of
             None \<Rightarrow> Inl (IdToken ''id_token header is not JSON'')
           | Some (alg, kid) \<Rightarrow>
               if alg \<noteq> ''RS256'' then
                 Inl (IdToken (''id_token is signed with '' @ (if alg = [] then ''no algorithm'' else alg)
                               @ '', but only RS256 can be verified here''))
               else case ol_decode lib signature_b64 of
                 None \<Rightarrow> Inl (IdToken ''id_token signature is not base64url'')
               | Some signature \<Rightarrow>
                   (let input = header_b64 @ ''.'' @ claims_b64; candidates = filter (candidate kid) jwks
                    in if candidates = [] then
                         Inl (IdToken (''no usable RSA signing key in the provider'' @ [CHR 0x27] @ ''s JWKS''))
                       else if \<not> list_ex (\<lambda>key. case rsa_public_key lib key of
                            Some k \<Rightarrow> ol_verifies lib k input signature | None \<Rightarrow> False) candidates
                       then Inl (IdToken (''id_token signature does not match the provider'' @ [CHR 0x27] @ ''s JWKS''))
                       else case Option.bind (ol_decode lib claims_b64) (ol_claims lib) of
                         None \<Rightarrow> Inl (IdToken ''id_token claims are not JSON'')
                       | Some claims \<Rightarrow>
                           (case check_claims claims ex of Some e \<Rightarrow> Inl e | None \<Rightarrow> Inr claims)))
      | _ \<Rightarrow> Inl (IdToken ''id_token is not a three-part JWS''))"

section \<open>Calls to the provider\<close>

datatype body_read = ReadError string | Body string

datatype http_reply =
    NoReply string                              \<comment> \<open>what went wrong\<close>
  | Reply nat "nat option" body_read             \<comment> \<open>status, declared length, body\<close>

definition MAX_METADATA_BYTES :: nat where "MAX_METADATA_BYTES = 256 * 1024"

definition is_success :: "nat \<Rightarrow> bool" where
  "is_success status \<longleftrightarrow> 200 \<le> status \<and> status < 300"

definition bounded_body :: "nat option \<Rightarrow> body_read \<Rightarrow> oidc_error + string" where
  "bounded_body declared b =
     (if (case declared of Some n \<Rightarrow> MAX_METADATA_BYTES < n | None \<Rightarrow> False)
      then Inl (Discovery ''response is too large'')
      else case b of
        ReadError e \<Rightarrow> Inl (Discovery (''response could not be read: '' @ e))
      | Body bytes \<Rightarrow>
          if MAX_METADATA_BYTES < length bytes then Inl (Discovery ''response is too large'') else Inr bytes)"

definition fetch_discovery :: "oidc_library \<Rightarrow> (string \<Rightarrow> http_reply) \<Rightarrow> string \<Rightarrow> oidc_error + discovery_doc" where
  "fetch_discovery lib get issuer_url =
     (let url = discovery_url issuer_url
      in case get url of
           NoReply e \<Rightarrow> Inl (Discovery (url @ '' could not be reached: '' @ e))
         | Reply status declared b \<Rightarrow>
             if \<not> is_success status then Inl (Discovery (url @ '' responded with '' @ show_nat status))
             else case bounded_body declared b of
               Inl e \<Rightarrow> Inl e
             | Inr bytes \<Rightarrow>
                 (case ol_discovery lib bytes of
                    None \<Rightarrow> Inl (Discovery (url @ '' did not return a JSON document''))
                  | Some d \<Rightarrow>
                      if dd_token_endpoint d = [] then Inl (Discovery (url @ '' does not advertise a token_endpoint''))
                      else Inr d))"

definition fetch_jwks :: "oidc_library \<Rightarrow> (string \<Rightarrow> http_reply) \<Rightarrow> string \<Rightarrow> oidc_error + jwk list" where
  "fetch_jwks lib get jwks_uri =
     (if jwks_uri = [] then
        Inl (IdToken (''the provider'' @ [CHR 0x27] @ ''s discovery document has no jwks_uri, so no signature can be verified''))
      else case get jwks_uri of
        NoReply e \<Rightarrow> Inl (IdToken (jwks_uri @ '' could not be reached: '' @ e))
      | Reply status declared b \<Rightarrow>
          if \<not> is_success status then Inl (IdToken (jwks_uri @ '' responded with '' @ show_nat status))
          else case bounded_body declared b of
            Inl _ \<Rightarrow> Inl (IdToken (jwks_uri @ '' returned an oversized body''))
          | Inr bytes \<Rightarrow>
              (case ol_jwks lib bytes of
                 None \<Rightarrow> Inl (IdToken (jwks_uri @ '' did not return a JWKS'')) | Some keys \<Rightarrow> Inr keys))"

record token_exchange =
  te_token_endpoint :: string
  te_client_id :: string
  te_client_secret :: string
  te_code :: string
  te_redirect_uri :: string
  te_code_verifier :: string

definition exchange_form :: "token_exchange \<Rightarrow> (string \<times> string) list" where
  "exchange_form rq =
     [(''client_id'', te_client_id rq)]
     @ (if te_client_secret rq \<noteq> [] then [(''client_secret'', te_client_secret rq)] else [])
     @ [(''code'', te_code rq), (''code_verifier'', te_code_verifier rq),
        (''grant_type'', ''authorization_code''), (''redirect_uri'', te_redirect_uri rq)]"

definition empty_tokens :: oidc_tokens where
  "empty_tokens = \<lparr>tk_id_token = None, tk_access_token = None, tk_error = None, tk_error_description = None\<rparr>"

definition exchange_code ::
    "oidc_library \<Rightarrow> (string \<Rightarrow> (string \<times> string) list \<Rightarrow> http_reply) \<Rightarrow> token_exchange \<Rightarrow> oidc_error + oidc_tokens" where
  "exchange_code lib post rq =
     (case post (te_token_endpoint rq) (exchange_form rq) of
        NoReply e \<Rightarrow> Inl (TokenExchange (te_token_endpoint rq @ '' could not be reached: '' @ e))
      | Reply status declared b \<Rightarrow>
          (case bounded_body declared b of
             Inl _ \<Rightarrow> Inl (TokenExchange ''the token endpoint returned an oversized body'')
           | Inr bytes \<Rightarrow>
               (let parsed = opt_default empty_tokens (ol_tokens lib bytes)
                in if \<not> is_success status then
                     Inl (TokenExchange (opt_default (''token endpoint responded with '' @ show_nat status)
                            (opt_or (tk_error_description parsed) (tk_error parsed))))
                   else Inr parsed)))"

end
