(* ===== verification/Saml.thy ===== *)
theory Saml
  imports Oidc Civil_Time
begin

text \<open>
  The SAML side of sign-in (\<open>services/auth-actix/src/saml.rs\<close>): configuration, metadata, the request a
  browser carries to the provider, and the judgement of what comes back, which always refuses. Standard
  base64, DEFLATE, URL parsing and the lossy UTF-8 reading come from libraries and are parameters
  (\<open>saml_library\<close>).
\<close>

section \<open>Configuration\<close>

datatype saml_error =
    SamlNotConfigured | MissingResponse | NotBase64 | TooLarge | RequestIdMismatch string string
  | VerificationUnavailable | SamlStateUnavailable

fun saml_code :: "saml_error \<Rightarrow> string" where
  "saml_code SamlNotConfigured = ''saml_not_configured''"
| "saml_code MissingResponse = ''saml_missing_response''"
| "saml_code NotBase64 = ''saml_malformed_response''"
| "saml_code TooLarge = ''saml_response_too_large''"
| "saml_code (RequestIdMismatch _ _) = ''saml_request_id_mismatch''"
| "saml_code VerificationUnavailable = ''saml_verification_unavailable''"
| "saml_code SamlStateUnavailable = ''saml_state_unavailable''"

record saml_library =
  sl_encode :: "string \<Rightarrow> string"
  sl_decode :: "string \<Rightarrow> string option"
  sl_deflate :: "string \<Rightarrow> string option"
  sl_lossy :: "string \<Rightarrow> string"
  sl_append_query :: "string \<Rightarrow> (string \<times> string) list \<Rightarrow> string option"   \<comment> \<open>none for a text that is not a URL\<close>

record saml_config =
  sg_entry_point :: string
  sg_issuer :: string
  sg_certificate :: string
  sg_attribute_email :: string
  sg_attribute_name :: string

definition normalize_issuer :: "string \<Rightarrow> string" where
  "normalize_issuer value = (if trim value = [] then ''urn:nullrouter:sp'' else trim value)"

definition is_alnum :: "char \<Rightarrow> bool" where
  "is_alnum c \<longleftrightarrow> (CHR ''0'' \<le> c \<and> c \<le> CHR ''9'') \<or> (CHR ''A'' \<le> c \<and> c \<le> CHR ''Z'') \<or> (CHR ''a'' \<le> c \<and> c \<le> CHR ''z'')"

definition normalize_base64 :: "saml_library \<Rightarrow> string \<Rightarrow> string" where
  "normalize_base64 lib value =
     (let cleaned = filter (\<lambda>c. is_alnum c \<or> c \<in> set ''+/='') value
      in case sl_decode lib cleaned of None \<Rightarrow> [] | Some bytes \<Rightarrow> sl_encode lib bytes)"

function wrap_base64 :: "string \<Rightarrow> string list" where
  "wrap_base64 value = (if value = [] then [] else take 64 value # wrap_base64 (drop 64 value))"
  by auto

termination
  by (relation "measure length") auto

declare wrap_base64.simps [simp del]

definition BEGIN_CERTIFICATE :: string where "BEGIN_CERTIFICATE = ''-----BEGIN CERTIFICATE-----''"
definition END_CERTIFICATE :: string where "END_CERTIFICATE = ''-----END CERTIFICATE-----''"

definition format_x509_certificate :: "saml_library \<Rightarrow> string \<Rightarrow> string" where
  "format_x509_certificate lib value =
     (let normalized = normalize_base64 lib (str_replace END_CERTIFICATE [] (str_replace BEGIN_CERTIFICATE [] value))
      in if normalized = [] then []
         else BEGIN_CERTIFICATE @ [nl] @ join_with [nl] (wrap_base64 normalized) @ [nl] @ END_CERTIFICATE)"

definition saml_from_settings :: "saml_library \<Rightarrow> auth_settings \<Rightarrow> saml_config option" where
  "saml_from_settings lib st =
     (let entry_point = trim (st_saml_entry_point st); certificate = format_x509_certificate lib (st_saml_cert st)
      in if entry_point = [] \<or> certificate = [] then None
         else Some \<lparr>sg_entry_point = entry_point, sg_issuer = normalize_issuer (st_saml_issuer st),
                    sg_certificate = certificate, sg_attribute_email = trim (st_saml_attribute_email st),
                    sg_attribute_name = trim (st_saml_attribute_name st)\<rparr>)"

definition certificate_body :: "string \<Rightarrow> string" where
  "certificate_body certificate = concat (filter (\<lambda>l. \<not> starts_with l ''-----'') (str_lines certificate))"

section \<open>Documents\<close>

definition escape_char :: "char \<Rightarrow> string" where
  "escape_char c =
     (if c = CHR ''&'' then ''&amp;'' else if c = CHR ''<'' then ''&lt;'' else if c = CHR ''>'' then ''&gt;''
      else if c = CHR 0x22 then ''&quot;'' else if c = CHR 0x27 then ''&apos;'' else [c])"

definition escape_xml :: "string \<Rightarrow> string" where
  "escape_xml value = concat (map escape_char value)"

definition acs_url :: "string \<Rightarrow> string" where
  "acs_url origin = trim_trailing_slashes origin @ ''/api/auth/saml/acs''"

definition attr :: "string \<Rightarrow> string \<Rightarrow> string" where
  "attr name value = name @ ''='' @ [CHR 0x22] @ value @ [CHR 0x22]"

definition key_descriptor :: "string \<Rightarrow> string" where
  "key_descriptor certificate =
     (if certificate = [] then []
      else [nl] @ ''    <KeyDescriptor '' @ attr ''use'' ''signing'' @ ''>''
         @ [nl] @ ''      <ds:KeyInfo '' @ attr ''xmlns:ds'' ''http://www.w3.org/2000/09/xmldsig#'' @ ''>''
         @ [nl] @ ''        <ds:X509Data>''
         @ [nl] @ ''          <ds:X509Certificate>'' @ certificate @ ''</ds:X509Certificate>''
         @ [nl] @ ''        </ds:X509Data>''
         @ [nl] @ ''      </ds:KeyInfo>''
         @ [nl] @ ''    </KeyDescriptor>'')"

definition metadata_xml :: "string \<Rightarrow> saml_config \<Rightarrow> string" where
  "metadata_xml origin config =
     ''<?xml '' @ attr ''version'' ''1.0'' @ '' '' @ attr ''encoding'' ''UTF-8'' @ ''?>'' @ [nl]
     @ ''<EntityDescriptor '' @ attr ''xmlns'' ''urn:oasis:names:tc:SAML:2.0:metadata'' @ '' ''
     @ attr ''entityID'' (escape_xml (sg_issuer config)) @ ''>'' @ [nl] @ ''  ''
     @ ''<SPSSODescriptor '' @ attr ''AuthnRequestsSigned'' ''false'' @ '' '' @ attr ''WantAssertionsSigned'' ''true'' @ '' ''
     @ attr ''protocolSupportEnumeration'' ''urn:oasis:names:tc:SAML:2.0:protocol'' @ ''>''
     @ key_descriptor (certificate_body (sg_certificate config)) @ [nl] @ ''    ''
     @ ''<NameIDFormat>urn:oasis:names:tc:SAML:1.1:nameid-format:emailAddress</NameIDFormat>'' @ [nl] @ ''    ''
     @ ''<AssertionConsumerService '' @ attr ''index'' ''1'' @ '' '' @ attr ''isDefault'' ''true'' @ '' ''
     @ attr ''Binding'' ''urn:oasis:names:tc:SAML:2.0:bindings:HTTP-POST'' @ '' ''
     @ attr ''Location'' (escape_xml (acs_url origin)) @ ''/>'' @ [nl] @ ''  ''
     @ ''</SPSSODescriptor>'' @ [nl] @ ''</EntityDescriptor>'' @ [nl]"

definition hex_pair :: "nat \<Rightarrow> string" where
  "hex_pair b = [hex_char (b div 16), hex_char (b mod 16)]"

text \<open>The bytes are the random ones.\<close>

definition create_request_id :: "8 word list \<Rightarrow> string" where
  "create_request_id bytes = ''_'' @ concat (map (\<lambda>b. hex_pair (unat b)) bytes)"

definition authn_request_xml :: "string \<Rightarrow> saml_config \<Rightarrow> string \<Rightarrow> string \<Rightarrow> string" where
  "authn_request_xml origin config issue_instant request_id =
     ''<samlp:AuthnRequest '' @ attr ''xmlns:samlp'' ''urn:oasis:names:tc:SAML:2.0:protocol'' @ '' ''
     @ attr ''xmlns:saml'' ''urn:oasis:names:tc:SAML:2.0:assertion'' @ '' '' @ attr ''ID'' (escape_xml request_id) @ '' ''
     @ attr ''Version'' ''2.0'' @ '' '' @ attr ''IssueInstant'' (escape_xml issue_instant) @ '' ''
     @ attr ''ProtocolBinding'' ''urn:oasis:names:tc:SAML:2.0:bindings:HTTP-POST'' @ '' ''
     @ attr ''AssertionConsumerServiceURL'' (escape_xml (acs_url origin)) @ '' ''
     @ attr ''Destination'' (escape_xml (sg_entry_point config)) @ ''>''
     @ ''<saml:Issuer>'' @ escape_xml (sg_issuer config) @ ''</saml:Issuer>'' @ ''</samlp:AuthnRequest>''"

text \<open>The redirect and the request id to remember.\<close>

definition authn_request ::
    "saml_library \<Rightarrow> 8 word list \<Rightarrow> string \<Rightarrow> saml_config \<Rightarrow> string \<Rightarrow> (string \<times> string) option" where
  "authn_request lib bytes origin config issue_instant =
     (let request_id = create_request_id bytes
      in case sl_deflate lib (authn_request_xml origin config issue_instant request_id) of
           None \<Rightarrow> None
         | Some deflated \<Rightarrow>
             map_option (\<lambda>url. (url, request_id))
               (sl_append_query lib (sg_entry_point config) [(''SAMLRequest'', sl_encode lib deflated)]))"

section \<open>What comes back\<close>

definition MAX_RESPONSE_BYTES :: nat where "MAX_RESPONSE_BYTES = 512 * 1024"

definition in_response_to :: "string \<Rightarrow> string option" where
  "in_response_to xml =
     (case after_first ''InResponseTo'' xml of
        None \<Rightarrow> None
      | Some rest \<Rightarrow>
          (case map_option trim_start (strip_prefix (trim_start rest) ''='') of
             Some (q # value) \<Rightarrow>
               if q = CHR 0x22 \<or> q = CHR 0x27 then map_option fst (split_once q value) else None
           | _ \<Rightarrow> None))"

text \<open>The success type of the code is empty, so the result is the error.\<close>

definition consume_response :: "saml_library \<Rightarrow> string option \<Rightarrow> string \<Rightarrow> saml_config option \<Rightarrow> saml_error" where
  "consume_response lib saml_response expected_request_id config =
     (case saml_response of
        None \<Rightarrow> MissingResponse
      | Some raw \<Rightarrow>
          if raw = [] then MissingResponse
          else if config = None then SamlNotConfigured
          else if MAX_RESPONSE_BYTES < length raw then TooLarge
          else case sl_decode lib raw of
            None \<Rightarrow> NotBase64
          | Some decoded \<Rightarrow>
              if MAX_RESPONSE_BYTES < length decoded then TooLarge
              else
                (let received = opt_default [] (in_response_to (sl_lossy lib decoded))
                 in if expected_request_id \<noteq> [] \<and> received \<noteq> expected_request_id
                    then RequestIdMismatch expected_request_id (if received = [] then ''none'' else received)
                    else VerificationUnavailable))"

section \<open>Time\<close>

text \<open>The calendar once more, on unsigned numbers.\<close>

definition saml_civil_from_days :: "nat \<Rightarrow> nat \<times> nat \<times> nat" where
  "saml_civil_from_days days =
     (let z = days + 719468;
          era = z div 146097;
          day_of_era = z mod 146097;
          year_of_era = (day_of_era - day_of_era div 1460 + day_of_era div 36524 - day_of_era div 146096) div 365;
          year = year_of_era + era * 400;
          day_of_year = day_of_era - (365 * year_of_era + year_of_era div 4 - year_of_era div 100);
          shifted_month = (5 * day_of_year + 2) div 153;
          day = day_of_year - (153 * shifted_month + 2) div 5 + 1;
          month = (if shifted_month < 10 then shifted_month + 3 else shifted_month - 9)
      in (if month \<le> 2 then year + 1 else year, month, day))"

definition saml_rfc3339 :: "nat \<Rightarrow> string" where
  "saml_rfc3339 epoch_seconds =
     (let seconds_of_day = epoch_seconds mod 86400; (year, month, day) = saml_civil_from_days (epoch_seconds div 86400)
      in pad_zero 4 year @ ''-'' @ pad_zero 2 month @ ''-'' @ pad_zero 2 day
         @ ''T'' @ pad_zero 2 (seconds_of_day div 3600) @ '':'' @ pad_zero 2 ((seconds_of_day mod 3600) div 60) @ '':''
         @ pad_zero 2 (seconds_of_day mod 60) @ ''Z'')"

section \<open>Escaped text\<close>

text \<open>Reference: the reading of the five predefined entities of XML.\<close>

definition xml_entities :: "(string \<times> char) list" where
  "xml_entities = [(''&amp;'', CHR ''&''), (''&lt;'', CHR ''<''), (''&gt;'', CHR ''>''),
     (''&quot;'', CHR 0x22), (''&apos;'', CHR 0x27)]"

function unescape_xml :: "string \<Rightarrow> string" where
  "unescape_xml s =
     (case find_map (\<lambda>(e, c). map_option (Pair c) (strip_prefix s e)) xml_entities of
        Some (c, rest) \<Rightarrow> if length rest < length s then c # unescape_xml rest else []
      | None \<Rightarrow> (case s of [] \<Rightarrow> [] | c # cs \<Rightarrow> c # unescape_xml cs))"
  by auto

termination
  by (relation "measure length") auto

declare unescape_xml.simps [simp del]

abbreviation read_entity :: "string \<Rightarrow> (char \<times> string) option" where
  "read_entity s \<equiv> find_map (\<lambda>(e, c). map_option (Pair c) (strip_prefix s e)) xml_entities"

lemma unescape_step: "read_entity s = Some (c, rest) \<Longrightarrow> length rest < length s \<Longrightarrow> unescape_xml s = c # unescape_xml rest"
  by (simp add: unescape_xml.simps [of s])

lemma unescape_entity: "(e, c) \<in> set xml_entities \<Longrightarrow> unescape_xml (e @ s) = c # unescape_xml s"
  by (rule unescape_step) (auto simp: xml_entities_def strip_prefix_def starts_with_def)

lemma unescape_plain: "c \<noteq> CHR ''&'' \<Longrightarrow> unescape_xml (c # s) = c # unescape_xml s"
proof -
  assume "c \<noteq> CHR ''&''"
  then have "read_entity (c # s) = None" by (simp add: xml_entities_def strip_prefix_def starts_with_def)
  then show ?thesis by (simp add: unescape_xml.simps [of "c # s"])
qed

lemma unescape_escape: "unescape_xml (escape_xml s) = s"
proof (induction s)
  case Nil
  then show ?case by (simp add: escape_xml_def unescape_xml.simps xml_entities_def strip_prefix_def starts_with_def)
next
  case (Cons c s)
  have "unescape_xml (escape_char c @ escape_xml s) = c # unescape_xml (escape_xml s)"
    using unescape_entity [of "escape_char c" c "escape_xml s"] unescape_plain [of c "escape_xml s"]
    by (auto simp: escape_char_def xml_entities_def split: if_splits)
  with Cons show ?case by (simp add: escape_xml_def)
qed

text \<open>Whatever an operator configures stays inside its attribute or element: the escaped text holds no character
  that ends one, and reading it gives the text back.\<close>

theorem xml_text_contained:
  "unescape_xml (escape_xml s) = s
   \<and> set (escape_xml s) \<inter> {CHR ''<'', CHR ''>'', CHR 0x22, CHR 0x27} = {}"
proof -
  have "set (escape_char c) \<inter> {CHR ''<'', CHR ''>'', CHR 0x22, CHR 0x27} = {}" for c
    by (auto simp: escape_char_def split: if_splits)
  then have "set (escape_xml s) \<inter> {CHR ''<'', CHR ''>'', CHR 0x22, CHR 0x27} = {}" by (auto simp: escape_xml_def)
  with unescape_escape show ?thesis ..
qed

section \<open>One calendar\<close>

lemma saml_civil: "map_prod int (map_prod int int) (saml_civil_from_days days) = civil_from_days (int days)"
proof -
  define doe where "doe = (days + 719468) mod 146097"
  define year where "year = (doe - doe div 1460 + doe div 36524 - doe div 146096) div 365"
  have small: "doe < 146097" by (simp add: doe_def)
  have doe: "int doe = int days + 719468 - (int days + 719468) div 146097 * 146097"
    using minus_mult_div_eq_mod [of "int days + 719468" 146097] by (simp add: doe_def zmod_int mult.commute)
  have "doe div 146096 \<le> doe div 36524" by (rule div_le_mono2) simp_all
  then have "int (doe - doe div 1460 + doe div 36524 - doe div 146096)
      = int doe - int doe div 1460 + int doe div 36524 - int doe div 146096"
    by (simp add: of_nat_diff zdiv_int)
  then have year: "int year = yoe (int doe)" by (simp add: year_def yoe_def zdiv_int)
  define doy where "doy = doe - (365 * year + year div 4 - year div 100)"
  have le: "year div 100 \<le> year div 4" by (rule div_le_mono2) simp_all
  have "ystart (yoe (int doe)) \<le> int doe" "int doe - ystart (yoe (int doe)) \<le> 365"
    using yoe_year [of "int doe"] small by auto
  moreover have start: "int (365 * year + year div 4 - year div 100) = ystart (yoe (int doe))"
    using le by (simp add: ystart_def year [symmetric] of_nat_diff zdiv_int)
  ultimately have doy: "int doy = int doe - ystart (yoe (int doe))" "doy \<le> 365"
    unfolding doy_def by linarith+
  define mp where "mp = (5 * doy + 2) div 153"
  have mp: "int mp = (5 * int doy + 2) div 153" by (simp add: mp_def zdiv_int)
  have bounds: "mp \<le> 11" "(153 * mp + 2) div 5 \<le> doy"
    using month_day [of "int doy" "int mp"] doy(2) mp by (simp_all add: zdiv_int [symmetric] flip: of_nat_mult of_nat_add)
  have day: "int (doy - (153 * mp + 2) div 5 + 1) = int doy - (153 * int mp + 2) div 5 + 1"
    using bounds(2) by (simp add: of_nat_diff zdiv_int)
  define day where "day = doy - (153 * mp + 2) div 5 + 1"
  have "civil_from_days (int days) =
      (let year' = int year + (int days + 719468) div 146097 * 400; month = (if int mp < 10 then int mp + 3 else int mp - 9)
       in (if month \<le> 2 then year' + 1 else year', month, int doy - (153 * int mp + 2) div 5 + 1))"
    unfolding civil_from_days_def Let_def doe [symmetric] mp doy(1) ystart_def yoe_def [symmetric] year by simp
  moreover have "saml_civil_from_days days =
      (let year' = year + (days + 719468) div 146097 * 400; month = (if mp < 10 then mp + 3 else mp - 9)
       in (if month \<le> 2 then year' + 1 else year', month, day))"
    unfolding saml_civil_from_days_def Let_def doe_def [symmetric] year_def [symmetric] doy_def [symmetric] mp_def [symmetric] day_def by simp
  moreover have "mp < 10 \<or> mp = 10 \<or> mp = 11" using bounds(1) by auto
  ultimately show ?thesis
    using day [folded day_def] by (auto simp: Let_def zdiv_int)
qed

text \<open>The timestamps of SAML requests are those the store writes: two implementations of one calendar.\<close>

theorem saml_rfc3339_agrees: "saml_rfc3339 seconds = format_rfc3339_millis (1000 * seconds)"
proof -
  obtain y m d where c: "saml_civil_from_days (seconds div 86400) = (y, m, d)" by (metis prod_cases3)
  with saml_civil [of "seconds div 86400"] have "civil_from_days (int (seconds div 86400)) = (int y, int m, int d)" by simp
  then show ?thesis by (simp add: saml_rfc3339_def format_rfc3339_millis_def c)
qed

end
