(* ===== verification/Single_Sign_On.thy ===== *)
theory Single_Sign_On
  imports Oidc Saml Stream_Concerns
begin

text \<open>
  The routes under \<open>/api/auth/oidc\<close> and \<open>/api/auth/saml\<close> (\<open>services/auth-actix/src/sso_routes.rs\<close>) as
  functions of the request, the settings, the clock, the random values and the provider's answers. Each
  gives the response with its cookies and the events of the handler in order: the calls it made and the
  audit records it wrote.
\<close>

section \<open>Texts of errors\<close>

fun oidc_text :: "oidc_error \<Rightarrow> string" where
  "oidc_text NotConfigured = ''OIDC is not configured''"
| "oidc_text InvalidState = ''the OIDC state parameter did not match the stored state''"
| "oidc_text MissingCode = ''the callback did not carry a code and state''"
| "oidc_text (Discovery d) = ''the OIDC discovery document could not be loaded: '' @ d"
| "oidc_text (TokenExchange d) = ''the OIDC token exchange failed: '' @ d"
| "oidc_text MissingIdToken = ''the OIDC provider did not return an id_token''"
| "oidc_text (IdToken d) = ''the id_token could not be verified: '' @ d"
| "oidc_text StateUnavailable = ''the router'' @ [CHR 0x27] @ ''s own state service is unavailable''"

fun saml_text :: "saml_error \<Rightarrow> string" where
  "saml_text SamlNotConfigured = ''SAML is not configured''"
| "saml_text MissingResponse = ''the assertion POST carried no SAMLResponse''"
| "saml_text NotBase64 = ''the SAMLResponse is not valid base64''"
| "saml_text TooLarge = ''the SAMLResponse is too large''"
| "saml_text (RequestIdMismatch expected received) =
     ''InResponseTo mismatch: expected '' @ expected @ '', received '' @ received"
| "saml_text VerificationUnavailable = ''SAML assertion verification is not available in this build: verifying an assertion requires XML signature verification (XML-DSig with exclusive canonicalisation), which this service cannot perform. The assertion was NOT accepted.''"
| "saml_text SamlStateUnavailable = ''the router'' @ [CHR 0x27] @ ''s own state service is unavailable''"

section \<open>Requests, responses and events\<close>

record callback_query =
  cq_code :: "string option"
  cq_state :: "string option"
  cq_error :: "string option"

record oidc_test_request =
  tr_issuer_url :: "string option"
  tr_client_id :: "string option"
  tr_client_secret :: "string option"
  tr_scopes :: "string option"

record sso_request =
  sr_forwarded_host :: "string option"
  sr_host :: "string option"
  sr_forwarded_proto :: "string option"
  sr_scheme :: string
  sr_accept :: "string option"
  sr_cookies :: "(string \<times> string) list"
  sr_query :: "callback_query option"
  sr_body :: string

record redirect =
  rd_location :: string
  rd_cleared :: "string list"
  rd_flow :: "(string \<times> string) list"      \<comment> \<open>flow cookies: ten minutes, http-only, SameSite=Lax\<close>
  rd_session :: "string option"             \<comment> \<open>the session cookie\<close>

datatype sso_response = Redirect redirect | JsonAnswer nat json | XmlAnswer nat string

datatype sso_event =
    ReadSettings
  | GetDiscovery string
  | PostCode string "(string \<times> string) list"
  | GetJwks string
  | SsoSucceeded "string option" string string     \<comment> \<open>subject, display name, email\<close>
  | SsoFailed string string                        \<comment> \<open>method, reason\<close>

record sso_env =
  se_public_origin :: "string option"
  se_settings :: "auth_settings option"            \<comment> \<open>none when the state service does not answer\<close>
  se_http :: bool
  se_get :: "string \<Rightarrow> http_reply"
  se_post :: "string \<Rightarrow> (string \<times> string) list \<Rightarrow> http_reply"
  se_oidc :: oidc_library
  se_saml :: saml_library
  se_tokens :: token_library
  se_codec :: session_codec
  se_now :: nat                                    \<comment> \<open>the clock, in seconds, when a token is checked\<close>
  se_mint :: nat                                   \<comment> \<open>and when a session is made\<close>
  se_verifier :: string
  se_challenge :: "string \<Rightarrow> string"                \<comment> \<open>base64url of SHA-256\<close>
  se_state :: string
  se_nonce :: string
  se_request_bytes :: "8 word list"
  se_test_body :: "string \<Rightarrow> oidc_test_request option"
  se_form :: "string \<Rightarrow> (string \<times> string) list"

definition STATE_COOKIE :: string where "STATE_COOKIE = ''oidc_state''"
definition NONCE_COOKIE :: string where "NONCE_COOKIE = ''oidc_nonce''"
definition VERIFIER_COOKIE :: string where "VERIFIER_COOKIE = ''oidc_code_verifier''"
definition SAML_STATE_COOKIE :: string where "SAML_STATE_COOKIE = ''saml_state''"

section \<open>Origins and redirects\<close>

definition trimmed_header :: "string option \<Rightarrow> string option" where
  "trimmed_header v = (case map_option trim v of Some (c # cs) \<Rightarrow> Some (c # cs) | _ \<Rightarrow> None)"

definition request_origin :: "sso_request \<Rightarrow> string option" where
  "request_origin rq =
     map_option (\<lambda>host. opt_default (sr_scheme rq) (trimmed_header (sr_forwarded_proto rq)) @ ''://'' @ host)
       (opt_or (trimmed_header (sr_forwarded_host rq)) (trimmed_header (sr_host rq)))"

definition DEFAULT_PUBLIC_ORIGIN :: string where "DEFAULT_PUBLIC_ORIGIN = ''http://localhost:20128''"

definition public_origin_or :: "string option \<Rightarrow> string option \<Rightarrow> string" where
  "public_origin_or configured from_request =
     opt_default DEFAULT_PUBLIC_ORIGIN (opt_or configured
       (case map_option trim_trailing_slashes from_request of Some (c # cs) \<Rightarrow> Some (c # cs) | _ \<Rightarrow> None))"

definition origin_for :: "sso_env \<Rightarrow> sso_request \<Rightarrow> string" where
  "origin_for env rq = public_origin_or (se_public_origin env) (request_origin rq)"

text \<open>The characters of a text, as their code points.\<close>

fun code_points :: "string \<Rightarrow> nat list" where
  "code_points [] = []"
| "code_points (a # s) =
     (let n = of_char a
      in if n < 0x80 then n # code_points s
         else case s of
           [] \<Rightarrow> [n]
         | b # s1 \<Rightarrow>
             if n < 0xE0 then (n mod 0x20 * 0x40 + of_char b mod 0x40) # code_points s1
             else (case s1 of
               [] \<Rightarrow> [n]
             | c # s2 \<Rightarrow>
                 if n < 0xF0 then ((n mod 0x10 * 0x40 + of_char b mod 0x40) * 0x40 + of_char c mod 0x40) # code_points s2
                 else (case s2 of
                   [] \<Rightarrow> [n]
                 | d # s3 \<Rightarrow>
                     (((n mod 8 * 0x40 + of_char b mod 0x40) * 0x40 + of_char c mod 0x40) * 0x40 + of_char d mod 0x40)
                       # code_points s3)))"

definition unreserved :: "char \<Rightarrow> bool" where
  "unreserved c \<longleftrightarrow> is_alnum c \<or> c \<in> set ''-_.~''"

definition hex_upper :: "nat \<Rightarrow> char" where
  "hex_upper d = (if d < 10 then char_of (48 + d) else char_of (55 + d))"

definition escape_point :: "nat \<Rightarrow> string" where
  "escape_point p =
     (if p < 0x80 \<and> unreserved (char_of p) then [char_of p]
      else [CHR ''%'', hex_upper (p mod 256 div 16), hex_upper (p mod 16)])"

definition login_error_path :: "string \<Rightarrow> string" where
  "login_error_path code = ''/login?error='' @ concat (map escape_point (code_points code))"

definition redirect_clearing_oidc :: "string \<Rightarrow> string \<Rightarrow> sso_response" where
  "redirect_clearing_oidc origin path = Redirect
     \<lparr>rd_location = origin @ path, rd_cleared = [STATE_COOKIE, NONCE_COOKIE, VERIFIER_COOKIE], rd_flow = [], rd_session = None\<rparr>"

definition oidc_refused :: "string \<Rightarrow> oidc_error \<Rightarrow> sso_response" where
  "oidc_refused origin e = redirect_clearing_oidc origin (login_error_path (oidc_code e))"

definition saml_login_redirect :: "string \<Rightarrow> string \<Rightarrow> sso_response" where
  "saml_login_redirect origin code = Redirect
     \<lparr>rd_location = origin @ login_error_path code, rd_cleared = [SAML_STATE_COOKIE], rd_flow = [], rd_session = None\<rparr>"

section \<open>The flow\<close>

definition load_oidc_config :: "sso_env \<Rightarrow> oidc_error + oidc_config" where
  "load_oidc_config env =
     (case se_settings env of
        None \<Rightarrow> Inl StateUnavailable
      | Some st \<Rightarrow> (case oidc_from_settings st of None \<Rightarrow> Inl NotConfigured | Some c \<Rightarrow> Inr c))"

definition load_saml_config :: "sso_env \<Rightarrow> saml_error + saml_config" where
  "load_saml_config env =
     (case se_settings env of
        None \<Rightarrow> Inl SamlStateUnavailable
      | Some st \<Rightarrow> (case saml_from_settings (se_saml env) st of None \<Rightarrow> Inl SamlNotConfigured | Some c \<Rightarrow> Inr c))"

definition authorization_url :: "sso_env \<Rightarrow> oidc_config \<Rightarrow> discovery_doc \<Rightarrow> string \<Rightarrow> string option" where
  "authorization_url env config d redirect_uri =
     sl_append_query (se_saml env) (dd_authorization_endpoint d)
       [(''response_type'', ''code''), (''client_id'', oc_client_id config), (''redirect_uri'', redirect_uri),
        (''scope'', normalize_scopes (oc_scopes config)), (''state'', se_state env), (''nonce'', se_nonce env),
        (''code_challenge'', se_challenge env (se_verifier env)), (''code_challenge_method'', ''S256'')]"

definition callback_uri :: "string \<Rightarrow> string" where
  "callback_uri origin = origin @ ''/api/auth/oidc/callback''"

definition oidc_start :: "sso_env \<Rightarrow> sso_request \<Rightarrow> sso_event list \<times> sso_response" where
  "oidc_start env rq =
     (let origin = origin_for env rq
      in case load_oidc_config env of
           Inl e \<Rightarrow> ([ReadSettings], oidc_refused origin e)
         | Inr config \<Rightarrow>
             if \<not> se_http env then ([ReadSettings], oidc_refused origin StateUnavailable)
             else (let es = [ReadSettings, GetDiscovery (discovery_url (oc_issuer_url config))]
                   in case fetch_discovery (se_oidc env) (se_get env) (oc_issuer_url config) of
                        Inl e \<Rightarrow> (es, oidc_refused origin e)
                      | Inr d \<Rightarrow>
                          (case authorization_url env config d (callback_uri origin) of
                             None \<Rightarrow> (es, oidc_refused origin (Discovery ''authorization_endpoint is not a URL''))
                           | Some url \<Rightarrow>
                               (es, Redirect \<lparr>rd_location = url, rd_cleared = [],
                                  rd_flow = [(STATE_COOKIE, se_state env), (NONCE_COOKIE, se_nonce env),
                                             (VERIFIER_COOKIE, se_verifier env)], rd_session = None\<rparr>))))"

text \<open>A step of the callback and what follows when it succeeds.\<close>

type_synonym 'a flow = "sso_event list \<times> (oidc_error + 'a)"

definition and_then :: "'a flow \<Rightarrow> ('a \<Rightarrow> 'b flow) \<Rightarrow> 'b flow" where
  "and_then m f =
     (case m of (es, Inl e) \<Rightarrow> (es, Inl e) | (es, Inr a) \<Rightarrow> (case f a of (es', r) \<Rightarrow> (es @ es', r)))"

record flow_cookies =
  fc_state :: "string option"
  fc_nonce :: "string option"
  fc_verifier :: "string option"

definition non_empty_text :: "string option \<Rightarrow> string option" where
  "non_empty_text v = (case v of Some (c # cs) \<Rightarrow> Some (c # cs) | _ \<Rightarrow> None)"

definition exchange_for :: "oidc_config \<Rightarrow> discovery_doc \<Rightarrow> string \<Rightarrow> string \<Rightarrow> string \<Rightarrow> token_exchange" where
  "exchange_for config d origin code verifier =
     \<lparr>te_token_endpoint = dd_token_endpoint d, te_client_id = oc_client_id config,
      te_client_secret = oc_client_secret config, te_code = code, te_redirect_uri = callback_uri origin,
      te_code_verifier = verifier\<rparr>"

definition expected_issuer :: "oidc_config \<Rightarrow> discovery_doc \<Rightarrow> string" where
  "expected_issuer config d = (if dd_issuer d = [] then oc_issuer_url config else dd_issuer d)"

definition redeem :: "sso_env \<Rightarrow> string \<Rightarrow> string \<Rightarrow> string \<Rightarrow> string \<Rightarrow> string flow" where
  "redeem env origin code nonce verifier =
     and_then ([ReadSettings], load_oidc_config env) (\<lambda>config.
     and_then ([], if se_http env then Inr () else Inl StateUnavailable) (\<lambda>_.
     and_then ([GetDiscovery (discovery_url (oc_issuer_url config))],
               fetch_discovery (se_oidc env) (se_get env) (oc_issuer_url config)) (\<lambda>d.
     let exchange = exchange_for config d origin code verifier in
     and_then ([PostCode (te_token_endpoint exchange) (exchange_form exchange)],
               exchange_code (se_oidc env) (se_post env) exchange) (\<lambda>tokens.
     and_then ([], case non_empty_text (tk_id_token tokens) of Some t \<Rightarrow> Inr t | None \<Rightarrow> Inl MissingIdToken) (\<lambda>id_token.
     and_then (if dd_jwks_uri d = [] then [] else [GetJwks (dd_jwks_uri d)],
               fetch_jwks (se_oidc env) (se_get env) (dd_jwks_uri d)) (\<lambda>jwks.
     and_then ([], verify_id_token (se_oidc env) id_token jwks
                 \<lparr>ex_issuer = expected_issuer config d, ex_audience = oc_client_id config,
                  ex_nonce = nonce, ex_now_seconds = se_now env\<rparr>) (\<lambda>claims.
       ([SsoSucceeded (ic_sub claims) (pick_display_name claims) (pick_email claims)],
        case create_token_for (se_tokens env) (se_codec env) (se_mint env) shared_session of
          None \<Rightarrow> Inl StateUnavailable | Some token \<Rightarrow> Inr token))))))))"

definition oidc_callback_inner :: "sso_env \<Rightarrow> string \<Rightarrow> callback_query \<Rightarrow> flow_cookies \<Rightarrow> string flow" where
  "oidc_callback_inner env origin q cookies =
     (case (non_empty_text (cq_code q), non_empty_text (cq_state q)) of
        (Some code, Some state) \<Rightarrow>
          (case (non_empty_text (fc_state cookies), non_empty_text (fc_nonce cookies), non_empty_text (fc_verifier cookies)) of
             (Some stored_state, Some stored_nonce, Some verifier) \<Rightarrow>
               if stored_state \<noteq> state then ([], Inl InvalidState)
               else redeem env origin code stored_nonce verifier
           | _ \<Rightarrow> ([], Inl InvalidState))
      | _ \<Rightarrow> ([], Inl MissingCode))"

definition cookie :: "sso_request \<Rightarrow> string \<Rightarrow> string option" where
  "cookie rq name = map_of (sr_cookies rq) name"

definition oidc_callback :: "sso_env \<Rightarrow> sso_request \<Rightarrow> sso_event list \<times> sso_response" where
  "oidc_callback env rq =
     (let origin = origin_for env rq;
          q = opt_default \<lparr>cq_code = None, cq_state = None, cq_error = None\<rparr> (sr_query rq)
      in case non_empty_text (cq_error q) of
           Some declined \<Rightarrow> ([SsoFailed ''oidc'' ''provider_declined''], redirect_clearing_oidc origin (login_error_path declined))
         | None \<Rightarrow>
             (case oidc_callback_inner env origin q
                     \<lparr>fc_state = cookie rq STATE_COOKIE, fc_nonce = cookie rq NONCE_COOKIE, fc_verifier = cookie rq VERIFIER_COOKIE\<rparr> of
                (es, Inr token) \<Rightarrow>
                  (es, Redirect \<lparr>rd_location = origin @ ''/dashboard'',
                     rd_cleared = [STATE_COOKIE, NONCE_COOKIE, VERIFIER_COOKIE], rd_flow = [], rd_session = Some token\<rparr>)
              | (es, Inl e) \<Rightarrow> (es @ [SsoFailed ''oidc'' (oidc_code e)], oidc_refused origin e)))"

section \<open>The other routes\<close>

definition is_authenticated :: "sso_env \<Rightarrow> sso_request \<Rightarrow> bool" where
  "is_authenticated env rq =
     (case cookie rq ''auth_token'' of None \<Rightarrow> False
      | Some t \<Rightarrow> identity (se_tokens env) (se_codec env) t (se_now env) \<noteq> None)"

definition error_answer :: "nat \<Rightarrow> string \<Rightarrow> sso_response" where
  "error_answer status message = JsonAnswer status (jobj [(''error'', JStr message)])"

definition oidc_test_json ::
    "bool \<Rightarrow> bool \<Rightarrow> string \<Rightarrow> string \<Rightarrow> string \<Rightarrow> string \<Rightarrow> discovery_doc \<Rightarrow> (string \<times> json) \<Rightarrow> json" where
  "oidc_test_json ready loaded issuer_url client_id scopes redirect_uri d remark = jobj
     [(''ok'', JBool ready), (''discoveryOk'', JBool loaded), (''issuerUrl'', JStr issuer_url),
      (''clientId'', JStr client_id), (''scopes'', JStr scopes), (''redirectUri'', JStr redirect_uri),
      (''authorizationEndpoint'', JStr (dd_authorization_endpoint d)), (''tokenEndpoint'', JStr (dd_token_endpoint d)),
      (''jwksUri'', JStr (dd_jwks_uri d)), (''readyForLogin'', JBool ready), remark]"

definition oidc_test_message :: "bool \<Rightarrow> string \<Rightarrow> string" where
  "oidc_test_message ready client_secret =
     (if ready then
        (if client_secret = [] then
           ''Discovery loaded. No client secret is configured, so the token exchange will be attempted without one.''
         else ''Discovery loaded and advertises the authorization, token, and JWKS endpoints. The client secret was not tested: it can only be checked by a real sign-in.'')
      else ''Discovery loaded but does not advertise every endpoint the login flow needs.'')"

definition oidc_test :: "sso_env \<Rightarrow> sso_request \<Rightarrow> sso_event list \<times> sso_response" where
  "oidc_test env rq =
     (if \<not> is_authenticated env rq then ([], error_answer 401 ''Unauthorized'')
      else case (if sr_body rq = []
                 then Some \<lparr>tr_issuer_url = None, tr_client_id = None, tr_client_secret = None, tr_scopes = None\<rparr>
                 else se_test_body env (sr_body rq)) of
        None \<Rightarrow> ([], error_answer 400 ''Invalid JSON body'')
      | Some overrides \<Rightarrow>
          (case se_settings env of
             None \<Rightarrow> ([ReadSettings], error_answer 503 ''Router state is unavailable, so OIDC settings could not be read'')
           | Some st \<Rightarrow>
               (let pick = (\<lambda>v s. trim (opt_default s v));
                    issuer_url = trim_trailing_slashes (pick (tr_issuer_url overrides) (st_oidc_issuer_url st));
                    client_id = pick (tr_client_id overrides) (st_oidc_client_id st);
                    scopes = normalize_scopes (pick (tr_scopes overrides) (st_oidc_scopes st));
                    client_secret = pick (tr_client_secret overrides) (st_oidc_client_secret st);
                    redirect_uri = callback_uri (origin_for env rq);
                    answer = (\<lambda>ready loaded d remark. JsonAnswer 200
                                (oidc_test_json ready loaded issuer_url client_id scopes redirect_uri d remark))
                in if issuer_url = [] then ([ReadSettings], error_answer 400 ''Issuer URL is required'')
                   else if client_id = [] then ([ReadSettings], error_answer 400 ''Client ID is required'')
                   else if \<not> se_http env
                   then ([ReadSettings], error_answer 500 ''The outbound HTTP client could not be created'')
                   else ([ReadSettings, GetDiscovery (discovery_url issuer_url)],
                     case fetch_discovery (se_oidc env) (se_get env) issuer_url of
                       Inr d \<Rightarrow>
                         (let ready = (dd_authorization_endpoint d \<noteq> [] \<and> dd_token_endpoint d \<noteq> [] \<and> dd_jwks_uri d \<noteq> [])
                          in answer ready True d (''message'', JStr (oidc_test_message ready client_secret)))
                     | Inl e \<Rightarrow> answer False False
                         \<lparr>dd_issuer = [], dd_authorization_endpoint = [], dd_token_endpoint = [], dd_jwks_uri = []\<rparr>
                         (''error'', JStr (oidc_text e))))))"

definition saml_start :: "sso_env \<Rightarrow> sso_request \<Rightarrow> sso_event list \<times> sso_response" where
  "saml_start env rq =
     (let origin = origin_for env rq
      in ([ReadSettings],
          case load_saml_config env of
            Inl e \<Rightarrow> saml_login_redirect origin (saml_code e)
          | Inr config \<Rightarrow>
              (case authn_request (se_saml env) (se_request_bytes env) origin config (saml_rfc3339 (se_now env)) of
                 None \<Rightarrow> saml_login_redirect origin ''saml_request_build_failed''
               | Some (url, request_id) \<Rightarrow> Redirect
                   \<lparr>rd_location = url, rd_cleared = [], rd_flow = [(SAML_STATE_COOKIE, request_id)], rd_session = None\<rparr>)))"

definition wants_json :: "sso_request \<Rightarrow> bool" where
  "wants_json rq = (case sr_accept rq of None \<Rightarrow> False | Some accept \<Rightarrow> str_contains accept ''application/json'')"

definition saml_acs :: "sso_env \<Rightarrow> sso_request \<Rightarrow> sso_event list \<times> sso_response" where
  "saml_acs env rq =
     (let e = consume_response (se_saml env) (map_of (rev (se_form env (sr_body rq))) ''SAMLResponse'')
                (opt_default [] (cookie rq SAML_STATE_COOKIE))
                (case load_saml_config env of Inr c \<Rightarrow> Some c | Inl _ \<Rightarrow> None)
      in ([ReadSettings, SsoFailed ''saml'' (saml_code e)],
          if wants_json rq then JsonAnswer 501 (jobj
            [(''ok'', JBool False), (''error'', JStr (saml_code e)), (''message'', JStr (saml_text e)), (''accepted'', JBool False)])
          else saml_login_redirect (origin_for env rq) (saml_code e)))"

definition saml_metadata :: "sso_env \<Rightarrow> sso_request \<Rightarrow> sso_event list \<times> sso_response" where
  "saml_metadata env rq =
     ([ReadSettings],
      case load_saml_config env of
        Inr config \<Rightarrow> XmlAnswer 200 (metadata_xml (origin_for env rq) config)
      | Inl e \<Rightarrow> XmlAnswer 503
          (''<?xml '' @ attr ''version'' ''1.0'' @ ''?><Error>'' @ escape_xml (saml_text e) @ ''</Error>''))"

definition saml_test :: "sso_env \<Rightarrow> sso_request \<Rightarrow> sso_event list \<times> sso_response" where
  "saml_test env rq =
     (if \<not> is_authenticated env rq then ([], error_answer 401 ''Unauthorized'')
      else ([ReadSettings],
        case se_settings env of
          None \<Rightarrow> error_answer 503 ''Router state is unavailable, so SAML settings could not be read''
        | Some st \<Rightarrow>
            (let origin = origin_for env rq; configured = saml_from_settings (se_saml env) st \<noteq> None
             in JsonAnswer 200 (jobj
                  [(''ok'', JBool False), (''configured'', JBool configured),
                   (''entryPoint'', JStr (trim (st_saml_entry_point st))),
                   (''issuer'', JStr (normalize_issuer (st_saml_issuer st))),
                   (''certificatePresent'', JBool (format_x509_certificate (se_saml env) (st_saml_cert st) \<noteq> [])),
                   (''acsUrl'', JStr (acs_url origin)), (''metadataUrl'', JStr (origin @ ''/api/auth/saml/metadata'')),
                   (''assertionVerificationAvailable'', JBool False),
                   (''message'', JStr (if configured then saml_text VerificationUnavailable
                      else ''SAML needs both an IdP sign-on URL and an IdP signing certificate. Note that even once configured, this build cannot verify an assertion, so sign-in will not complete.''))]))))"

datatype sso_route = OidcStart | OidcCallback | OidcTest | SamlStart | SamlAcs | SamlMetadata | SamlTest

fun sso_handle :: "sso_route \<Rightarrow> sso_env \<Rightarrow> sso_request \<Rightarrow> sso_event list \<times> sso_response" where
  "sso_handle OidcStart = oidc_start"
| "sso_handle OidcCallback = oidc_callback"
| "sso_handle OidcTest = oidc_test"
| "sso_handle SamlStart = saml_start"
| "sso_handle SamlAcs = saml_acs"
| "sso_handle SamlMetadata = saml_metadata"
| "sso_handle SamlTest = saml_test"

fun session_set :: "sso_response \<Rightarrow> string option" where
  "session_set (Redirect r) = rd_session r"
| "session_set _ = None"

section \<open>What a provider vouches for\<close>

text \<open>Specification: an ID token signed for this client, this browser and this time by a published key.\<close>

definition vouched_token ::
    "oidc_library \<Rightarrow> jwk list \<Rightarrow> expectations \<Rightarrow> string \<Rightarrow> id_claims \<Rightarrow> bool" where
  "vouched_token lib jwks ex token claims \<longleftrightarrow>
     (\<exists>h c s kid signature key k aud expiry.
        token = h @ ''.'' @ c @ ''.'' @ s \<and> CHR ''.'' \<notin> set (h @ c @ s)
        \<and> Option.bind (ol_decode lib h) (ol_header lib) = Some (''RS256'', kid)
        \<and> ol_decode lib s = Some signature
        \<and> key \<in> set jwks \<and> candidate kid key \<and> rsa_public_key lib key = Some k
        \<and> ol_verifies lib k (h @ ''.'' @ c) signature
        \<and> Option.bind (ol_decode lib c) (ol_claims lib) = Some claims
        \<and> map_option trim_trailing_slashes (ic_iss claims) = Some (trim_trailing_slashes (ex_issuer ex))
        \<and> ic_aud claims = Some aud \<and> audience_contains aud (ex_audience ex)
        \<and> ic_nonce claims = Some (ex_nonce ex)
        \<and> ic_exp claims = Some expiry \<and> ex_now_seconds ex < sat_add64 expiry CLOCK_SKEW_SECONDS
        \<and> (\<forall>iat. ic_iat claims = Some iat \<longrightarrow> iat \<le> sat_add64 (ex_now_seconds ex) CLOCK_SKEW_SECONDS))"

lemma check_claims_None:
  "check_claims c ex = None \<longleftrightarrow>
     map_option trim_trailing_slashes (ic_iss c) = Some (trim_trailing_slashes (ex_issuer ex))
     \<and> (\<exists>aud. ic_aud c = Some aud \<and> audience_contains aud (ex_audience ex))
     \<and> ic_nonce c = Some (ex_nonce ex)
     \<and> (\<exists>expiry. ic_exp c = Some expiry \<and> ex_now_seconds ex < sat_add64 expiry CLOCK_SKEW_SECONDS)
     \<and> (\<forall>iat. ic_iat c = Some iat \<longrightarrow> iat \<le> sat_add64 (ex_now_seconds ex) CLOCK_SKEW_SECONDS)"
  by (auto simp: check_claims_def not_le not_less split: option.split)

lemma split_three_iff:
  "split_char (CHR ''.'') token = [h, c, s] \<longleftrightarrow> token = h @ ''.'' @ c @ ''.'' @ s \<and> CHR ''.'' \<notin> set (h @ c @ s)"
proof
  assume parts: "split_char (CHR ''.'') token = [h, c, s]"
  then have "token = h @ ''.'' @ c @ ''.'' @ s" using join_split_char [of "CHR ''.''" token] by simp
  moreover have "CHR ''.'' \<notin> set p" if "p \<in> {h, c, s}" for p
    using split_char_pieces [of p "CHR ''.''" token] that parts by auto
  ultimately show "token = h @ ''.'' @ c @ ''.'' @ s \<and> CHR ''.'' \<notin> set (h @ c @ s)" by auto
next
  assume "token = h @ ''.'' @ c @ ''.'' @ s \<and> CHR ''.'' \<notin> set (h @ c @ s)"
  then show "split_char (CHR ''.'') token = [h, c, s]" using split_three [of h c s] by simp
qed

lemma verify_id_token_iff: "verify_id_token lib token jwks ex = Inr claims \<longleftrightarrow> vouched_token lib jwks ex token claims"
proof
  assume v: "verify_id_token lib token jwks ex = Inr claims"
  then obtain h c s where parts: "split_char (CHR ''.'') token = [h, c, s]"
    by (auto simp: verify_id_token_def split: list.splits)
  from v obtain kid signature where f: "Option.bind (ol_decode lib h) (ol_header lib) = Some (''RS256'', kid)"
      "ol_decode lib s = Some signature"
      "list_ex (\<lambda>key. case rsa_public_key lib key of Some k \<Rightarrow> ol_verifies lib k (h @ ''.'' @ c) signature | None \<Rightarrow> False)
         (filter (candidate kid) jwks)"
      "Option.bind (ol_decode lib c) (ol_claims lib) = Some claims" "check_claims claims ex = None"
    by (auto simp: verify_id_token_def parts Let_def split: option.splits if_splits)
  from f(3) obtain key k where "key \<in> set jwks" "candidate kid key" "rsa_public_key lib key = Some k"
      "ol_verifies lib k (h @ ''.'' @ c) signature"
    by (auto simp: list_ex_iff split: option.splits)
  with f(1,2,4) f(5) [unfolded check_claims_None] parts [unfolded split_three_iff]
  show "vouched_token lib jwks ex token claims" unfolding vouched_token_def by blast
next
  assume "vouched_token lib jwks ex token claims"
  then obtain h c s kid signature key k where
    parts: "token = h @ ''.'' @ c @ ''.'' @ s \<and> CHR ''.'' \<notin> set (h @ c @ s)"
    and f: "Option.bind (ol_decode lib h) (ol_header lib) = Some (''RS256'', kid)" "ol_decode lib s = Some signature"
      "key \<in> set jwks" "candidate kid key" "rsa_public_key lib key = Some k"
      "ol_verifies lib k (h @ ''.'' @ c) signature" "Option.bind (ol_decode lib c) (ol_claims lib) = Some claims"
    and checked: "check_claims claims ex = None"
    unfolding vouched_token_def check_claims_None by blast
  have split: "split_char (CHR ''.'') token = [h, c, s]" using parts by (rule split_three_iff [THEN iffD2])
  have key: "key \<in> set (filter (candidate kid) jwks)" using f(3,4) by simp
  then have "list_ex (\<lambda>key. case rsa_public_key lib key of Some k \<Rightarrow> ol_verifies lib k (h @ ''.'' @ c) signature | None \<Rightarrow> False)
      (filter (candidate kid) jwks)"
    unfolding list_ex_iff using f(5,6) by (intro bexI [of _ key]) simp_all
  moreover have "filter (candidate kid) jwks \<noteq> []" using key by (metis empty_iff empty_set)
  ultimately show "verify_id_token lib token jwks ex = Inr claims"
    using f(1,2,7) checked
    by (simp only: verify_id_token_def split list.case option.case prod.case Let_def if_True if_False simp_thms)
qed

section \<open>Who gets a session\<close>

text \<open>Specification: the provider of the stored settings redeems the code, with the verifier of this browser, for a
  token it vouches for.\<close>

definition provider_vouches ::
    "sso_env \<Rightarrow> string \<Rightarrow> string \<Rightarrow> string \<Rightarrow> string \<Rightarrow> id_claims \<Rightarrow> bool" where
  "provider_vouches env origin code nonce verifier claims \<longleftrightarrow>
     (\<exists>st config d tokens id_token jwks.
        se_settings env = Some st \<and> oidc_from_settings st = Some config \<and> se_http env
        \<and> fetch_discovery (se_oidc env) (se_get env) (oc_issuer_url config) = Inr d
        \<and> exchange_code (se_oidc env) (se_post env) (exchange_for config d origin code verifier) = Inr tokens
        \<and> tk_id_token tokens = Some id_token \<and> id_token \<noteq> []
        \<and> fetch_jwks (se_oidc env) (se_get env) (dd_jwks_uri d) = Inr jwks
        \<and> vouched_token (se_oidc env) jwks
            \<lparr>ex_issuer = expected_issuer config d, ex_audience = oc_client_id config, ex_nonce = nonce,
             ex_now_seconds = se_now env\<rparr> id_token claims)"

lemma and_then_Inr:
  "snd (and_then m f) = Inr b \<longleftrightarrow> (\<exists>a. snd m = Inr a \<and> snd (f a) = Inr b)"
  by (auto simp: and_then_def split: prod.splits sum.splits)

lemma non_empty_text_Some: "non_empty_text v = Some t \<longleftrightarrow> v = Some t \<and> t \<noteq> []"
  by (auto simp: non_empty_text_def split: option.splits list.splits)

lemma load_oidc_config_Inr:
  "load_oidc_config env = Inr config \<longleftrightarrow> (\<exists>st. se_settings env = Some st \<and> oidc_from_settings st = Some config)"
  by (auto simp: load_oidc_config_def split: option.splits)

lemma redeem_Inr:
  "snd (redeem env origin code nonce verifier) = Inr token \<longleftrightarrow>
     (\<exists>claims. provider_vouches env origin code nonce verifier claims)
     \<and> create_token_for (se_tokens env) (se_codec env) (se_mint env) shared_session = Some token"
proof -
  have id: "(case non_empty_text v of Some t \<Rightarrow> Inr t | None \<Rightarrow> Inl MissingIdToken) = Inr t \<longleftrightarrow> v = Some t \<and> t \<noteq> []" for v t
    by (cases v) (auto simp: non_empty_text_def split: list.split)
  have http: "(if se_http env then Inr () else Inl StateUnavailable) = Inr u \<longleftrightarrow> se_http env" for u :: unit by simp
  have mint: "(case v of None \<Rightarrow> Inl StateUnavailable | Some t \<Rightarrow> Inr t) = Inr token \<longleftrightarrow> v = Some token" for v
    by (auto split: option.split)
  show ?thesis
    unfolding redeem_def Let_def and_then_Inr snd_conv id http mint verify_id_token_iff load_oidc_config_Inr
      provider_vouches_def exchange_for_def token_exchange.simps
    by blast
qed

lemma callback_inner_Inr:
  "snd (oidc_callback_inner env origin q fc) = Inr token \<longleftrightarrow>
     (\<exists>code state nonce verifier. non_empty_text (cq_code q) = Some code \<and> non_empty_text (cq_state q) = Some state
        \<and> non_empty_text (fc_state fc) = Some state \<and> non_empty_text (fc_nonce fc) = Some nonce
        \<and> non_empty_text (fc_verifier fc) = Some verifier
        \<and> snd (redeem env origin code nonce verifier) = Inr token)"
  by (auto simp: oidc_callback_inner_def split: option.splits)

text \<open>C6: Of the single sign-on routes only the callback of the OIDC flow sets a session cookie (the password login, modelled
  elsewhere, sets it as well), and it does so exactly when the
  browser comes back with the state of its own cookie and the configured provider redeems the code, with the verifier
  of that browser, for an ID token that one of the provider's published RSA keys signed, issued by it to this client,
  with the nonce of that browser, and not expired. The session is the token this service signs.\<close>

theorem sso_session_iff_vouched:
  "session_set (snd (sso_handle route env rq)) = Some token \<longleftrightarrow>
     route = OidcCallback
     \<and> create_token_for (se_tokens env) (se_codec env) (se_mint env) shared_session = Some token
     \<and> (\<exists>q code state nonce verifier claims.
          sr_query rq = Some q \<and> cq_error q \<in> {None, Some []}
          \<and> cq_code q = Some code \<and> code \<noteq> [] \<and> cq_state q = Some state \<and> state \<noteq> []
          \<and> cookie rq STATE_COOKIE = Some state
          \<and> cookie rq NONCE_COOKIE = Some nonce \<and> nonce \<noteq> [] \<and> cookie rq VERIFIER_COOKIE = Some verifier \<and> verifier \<noteq> []
          \<and> provider_vouches env (origin_for env rq) code nonce verifier claims)"
proof (cases "route = OidcCallback")
  case False
  then have "session_set (snd (sso_handle route env rq)) = None"
    by (cases route) (auto simp: oidc_start_def oidc_refused_def redirect_clearing_oidc_def oidc_test_def error_answer_def
        saml_start_def saml_login_redirect_def saml_acs_def saml_metadata_def saml_test_def Let_def
        split: sum.split option.split prod.split)
  with False show ?thesis by simp
next
  case True
  let ?q = "opt_default \<lparr>cq_code = None, cq_state = None, cq_error = None\<rparr> (sr_query rq)"
  let ?fc = "\<lparr>fc_state = cookie rq STATE_COOKIE, fc_nonce = cookie rq NONCE_COOKIE, fc_verifier = cookie rq VERIFIER_COOKIE\<rparr>"
  have declined: "non_empty_text e = None \<longleftrightarrow> e \<in> {None, Some []}" for e
    by (auto simp: non_empty_text_def split: option.splits list.splits)
  have "session_set (snd (sso_handle route env rq)) = Some token \<longleftrightarrow>
      non_empty_text (cq_error ?q) = None \<and> snd (oidc_callback_inner env (origin_for env rq) ?q ?fc) = Inr token"
    by (auto simp: True oidc_callback_def Let_def oidc_refused_def redirect_clearing_oidc_def
        split: option.split sum.split prod.split)
  also have "snd (oidc_callback_inner env (origin_for env rq) ?q ?fc) = Inr token \<longleftrightarrow>
      (\<exists>code state nonce verifier. cq_code ?q = Some code \<and> code \<noteq> [] \<and> cq_state ?q = Some state \<and> state \<noteq> []
        \<and> cookie rq STATE_COOKIE = Some state \<and> cookie rq NONCE_COOKIE = Some nonce \<and> nonce \<noteq> []
        \<and> cookie rq VERIFIER_COOKIE = Some verifier \<and> verifier \<noteq> []
        \<and> snd (redeem env (origin_for env rq) code nonce verifier) = Inr token)"
    by (auto simp: callback_inner_Inr non_empty_text_Some)
  finally show ?thesis
    unfolding declined redeem_Inr using True by (cases "sr_query rq") auto
qed

section \<open>Who does not\<close>

lemma hex_upper_alnum: "d < 16 \<Longrightarrow> is_alnum (hex_upper d)"
proof -
  assume "d < 16"
  then have "d \<in> set [0..<16]" by simp
  moreover have "list_all (\<lambda>d. is_alnum (hex_upper d)) [0..<16]" by code_simp
  ultimately show ?thesis by (simp only: list_all_iff)
qed

lemma escape_point_safe: "list_all (\<lambda>c. unreserved c \<or> c = CHR ''%'') (escape_point p)"
  using hex_upper_alnum [of "p mod 256 div 16"] hex_upper_alnum [of "p mod 16"]
  by (auto simp: escape_point_def unreserved_def)

text \<open>Every callback that sets no session is contained. The browser goes to the login page of this service with an
  error text that cannot leave its query parameter, all cookies of the flow are cleared and none is set, the refusal is
  on the audit trail, and unless the state of the query is the state of the browser's cookie nothing was read and the
  provider was not asked: a forged callback cannot spend a code.\<close>

theorem sso_failures_contained:
  "(\<exists>token. session_set (snd (oidc_callback env rq)) = Some token)
   \<or> (\<exists>es reason e. oidc_callback env rq = (es @ [SsoFailed ''oidc'' reason],
          Redirect \<lparr>rd_location = origin_for env rq @ ''/login?error='' @ e,
            rd_cleared = [STATE_COOKIE, NONCE_COOKIE, VERIFIER_COOKIE], rd_flow = [], rd_session = None\<rparr>)
        \<and> list_all (\<lambda>c. unreserved c \<or> c = CHR ''%'') e
        \<and> (es = [] \<or> (\<exists>state. cookie rq STATE_COOKIE = Some state \<and> Option.bind (sr_query rq) cq_state = Some state)))"
proof -
  have safe: "list_all (\<lambda>c. unreserved c \<or> c = CHR ''%'') (concat (map escape_point ps))" for ps
    using escape_point_safe by (auto simp: list_all_iff)
  let ?q = "opt_default \<lparr>cq_code = None, cq_state = None, cq_error = None\<rparr> (sr_query rq)"
  let ?fc = "\<lparr>fc_state = cookie rq STATE_COOKIE, fc_nonce = cookie rq NONCE_COOKIE, fc_verifier = cookie rq VERIFIER_COOKIE\<rparr>"
  let ?inner = "oidc_callback_inner env (origin_for env rq) ?q ?fc"
  have untouched: "fst ?inner = [] \<or> (\<exists>state. cookie rq STATE_COOKIE = Some state \<and> Option.bind (sr_query rq) cq_state = Some state)"
    by (cases "sr_query rq") (auto simp: oidc_callback_inner_def non_empty_text_Some split: option.split)
  note answer = oidc_callback_def Let_def oidc_refused_def redirect_clearing_oidc_def login_error_path_def
  show ?thesis
  proof (cases "non_empty_text (cq_error ?q)")
    case (Some declined)
    then have "oidc_callback env rq = ([] @ [SsoFailed ''oidc'' ''provider_declined''],
          Redirect \<lparr>rd_location = origin_for env rq @ ''/login?error='' @ concat (map escape_point (code_points declined)),
            rd_cleared = [STATE_COOKIE, NONCE_COOKIE, VERIFIER_COOKIE], rd_flow = [], rd_session = None\<rparr>)"
      by (simp add: answer)
    with safe show ?thesis by blast
  next
    case None
    show ?thesis
    proof (cases "snd ?inner")
      case (Inr token)
      then have "session_set (snd (oidc_callback env rq)) = Some token"
        using None by (cases ?inner) (simp add: answer)
      then show ?thesis by blast
    next
      case (Inl e)
      then have "oidc_callback env rq = (fst ?inner @ [SsoFailed ''oidc'' (oidc_code e)],
          Redirect \<lparr>rd_location = origin_for env rq @ ''/login?error='' @ concat (map escape_point (code_points (oidc_code e))),
            rd_cleared = [STATE_COOKIE, NONCE_COOKIE, VERIFIER_COOKIE], rd_flow = [], rd_session = None\<rparr>)"
        using None by (cases ?inner) (simp add: answer)
      with safe untouched show ?thesis by blast
    qed
  qed
qed

end
