(* ===== verification/Responses_Stream.thy ===== *)
theory Responses_Stream
  imports Stream_Concerns "HOL-Library.AList"
begin

text \<open>
  An OpenAI chunk stream rewritten for a client of the Responses API
  (\<open>crates/translate/src/response/openai_to_responses.rs\<close>): the part of the stream state it uses, one
  definition per function, and the client's reading of the events, against which it is verified. An
  event is a constructor here and travels with its sequence number; \<open>response_event_json\<close> is the value
  that is pushed for it. \<open>now\<close> is the clock in milliseconds for the whole of a chunk. Reading JSON
  text is the parameter \<open>parse_json\<close>.
\<close>

section \<open>Events\<close>

datatype output_kind = ReasoningItem | MessageItem | CallItem

datatype new_item = NewReasoning | NewMessage | NewCall string string

datatype finished_item =
    FinishedReasoning string
  | FinishedMessage string
  | FinishedCall string string string
  | FinishedCustom string string string

datatype response_event =
    ResponseCreated string nat
  | ResponseInProgress string nat
  | ItemAdded nat string new_item
  | PartAdded nat string output_kind
  | ItemDelta nat string output_kind string
  | TextDone nat string output_kind string
  | PartDone nat string output_kind string
  | ItemDone nat string finished_item
  | ResponseCompleted string nat

definition response_body :: "string \<Rightarrow> nat \<Rightarrow> string \<Rightarrow> (string \<times> json) list" where
  "response_body rid created status =
     [(''id'', JStr rid), (''object'', JStr ''response''), (''created_at'', jnat created), (''status'', JStr status)]"

definition summary_part :: "string \<Rightarrow> json" where
  "summary_part t = jobj [(''type'', JStr ''summary_text''), (''text'', JStr t)]"

definition output_part :: "string \<Rightarrow> json" where
  "output_part t = jobj [(''type'', JStr ''output_text''), (''annotations'', JArr []), (''logprobs'', JArr []),
     (''text'', JStr t)]"

fun new_item_json :: "string \<Rightarrow> new_item \<Rightarrow> json" where
  "new_item_json i NewReasoning = jobj [(''id'', JStr i), (''type'', JStr ''reasoning''), (''summary'', JArr [])]"
| "new_item_json i NewMessage = jobj [(''id'', JStr i), (''type'', JStr ''message''), (''content'', JArr []),
     (''role'', JStr ''assistant'')]"
| "new_item_json i (NewCall c n) = jobj [(''id'', JStr i), (''type'', JStr ''function_call''), (''call_id'', JStr c),
     (''name'', JStr n), (''arguments'', JStr [])]"

fun finished_item_json :: "string \<Rightarrow> finished_item \<Rightarrow> json" where
  "finished_item_json i (FinishedReasoning t) = jobj [(''id'', JStr i), (''type'', JStr ''reasoning''),
     (''summary'', JArr [summary_part t])]"
| "finished_item_json i (FinishedMessage t) = jobj [(''id'', JStr i), (''type'', JStr ''message''),
     (''content'', JArr [output_part t]), (''role'', JStr ''assistant'')]"
| "finished_item_json i (FinishedCall a c n) = jobj [(''id'', JStr i), (''type'', JStr ''function_call''),
     (''arguments'', JStr a), (''call_id'', JStr c), (''name'', JStr n)]"
| "finished_item_json i (FinishedCustom x c n) = jobj [(''id'', JStr i), (''type'', JStr ''custom_tool_call''),
     (''input'', JStr x), (''call_id'', JStr c), (''name'', JStr n)]"

fun response_event_type :: "response_event \<Rightarrow> string" where
  "response_event_type (ResponseCreated _ _) = ''response.created''"
| "response_event_type (ResponseInProgress _ _) = ''response.in_progress''"
| "response_event_type (ItemAdded _ _ _) = ''response.output_item.added''"
| "response_event_type (PartAdded _ _ k) =
     (if k = ReasoningItem then ''response.reasoning_summary_part.added'' else ''response.content_part.added'')"
| "response_event_type (ItemDelta _ _ k _) =
     (case k of ReasoningItem \<Rightarrow> ''response.reasoning_summary_text.delta'' | MessageItem \<Rightarrow> ''response.output_text.delta''
      | CallItem \<Rightarrow> ''response.function_call_arguments.delta'')"
| "response_event_type (TextDone _ _ k _) =
     (case k of ReasoningItem \<Rightarrow> ''response.reasoning_summary_text.done'' | MessageItem \<Rightarrow> ''response.output_text.done''
      | CallItem \<Rightarrow> ''response.function_call_arguments.done'')"
| "response_event_type (PartDone _ _ k _) =
     (if k = ReasoningItem then ''response.reasoning_summary_part.done'' else ''response.content_part.done'')"
| "response_event_type (ItemDone _ _ _) = ''response.output_item.done''"
| "response_event_type (ResponseCompleted _ _) = ''response.completed''"

fun response_event_data :: "response_event \<Rightarrow> (string \<times> json) list" where
  "response_event_data (ResponseCreated rid created) = [(''response'', jobj (response_body rid created ''in_progress''
     @ [(''background'', JBool False), (''error'', JNull), (''output'', JArr [])]))]"
| "response_event_data (ResponseInProgress rid created) = [(''response'', jobj (response_body rid created ''in_progress''))]"
| "response_event_data (ItemAdded n i x) = [(''output_index'', jnat n), (''item'', new_item_json i x)]"
| "response_event_data (PartAdded n i k) = [(''item_id'', JStr i), (''output_index'', jnat n)]
     @ (if k = ReasoningItem then [(''summary_index'', jnat 0), (''part'', summary_part [])]
        else [(''content_index'', jnat 0), (''part'', output_part [])])"
| "response_event_data (ItemDelta n i k t) = [(''item_id'', JStr i), (''output_index'', jnat n)]
     @ (case k of ReasoningItem \<Rightarrow> [(''summary_index'', jnat 0)]
        | MessageItem \<Rightarrow> [(''content_index'', jnat 0), (''logprobs'', JArr [])] | CallItem \<Rightarrow> [])
     @ [(''delta'', JStr t)]"
| "response_event_data (TextDone n i k t) = [(''item_id'', JStr i), (''output_index'', jnat n)]
     @ (case k of ReasoningItem \<Rightarrow> [(''summary_index'', jnat 0), (''text'', JStr t)]
        | MessageItem \<Rightarrow> [(''content_index'', jnat 0), (''text'', JStr t), (''logprobs'', JArr [])]
        | CallItem \<Rightarrow> [(''arguments'', JStr t)])"
| "response_event_data (PartDone n i k t) = [(''item_id'', JStr i), (''output_index'', jnat n)]
     @ (if k = ReasoningItem then [(''summary_index'', jnat 0), (''part'', summary_part t)]
        else [(''content_index'', jnat 0), (''part'', output_part t)])"
| "response_event_data (ItemDone n i x) = [(''output_index'', jnat n), (''item'', finished_item_json i x)]"
| "response_event_data (ResponseCompleted rid created) = [(''response'', jobj (response_body rid created ''completed''
     @ [(''background'', JBool False), (''error'', JNull)]))]"

definition response_event_json :: "nat \<times> response_event \<Rightarrow> json" where
  "response_event_json e = jobj (response_event_data (snd e)
     @ [(''type'', JStr (response_event_type (snd e))), (''sequence_number'', jnat (fst e))])"

section \<open>State\<close>

record responses_out =
  ro_seq :: nat
  ro_response_id :: "string option"
  ro_created :: "nat option"
  ro_started :: bool
  ro_completed :: bool
  ro_messages_added :: "nat list"
  ro_messages_done :: "nat list"
  ro_message_text :: "(nat \<times> string) list"
  ro_reasoning_added :: bool
  ro_reasoning_done :: bool
  ro_reasoning_buffer :: string
  ro_calls_added :: "nat list"
  ro_calls_done :: "nat list"
  ro_call_arguments :: "(nat \<times> string) list"
  ro_call_names :: "(nat \<times> string) list"
  ro_call_ids :: "(nat \<times> string) list"
  ro_custom_tools :: "string list"

definition responses_out_new :: responses_out where
  "responses_out_new = \<lparr>ro_seq = 0, ro_response_id = None, ro_created = None, ro_started = False,
     ro_completed = False, ro_messages_added = [], ro_messages_done = [], ro_message_text = [],
     ro_reasoning_added = False, ro_reasoning_done = False, ro_reasoning_buffer = [], ro_calls_added = [],
     ro_calls_done = [], ro_call_arguments = [], ro_call_names = [], ro_call_ids = [], ro_custom_tools = []\<rparr>"

type_synonym responses_step = "responses_out \<Rightarrow> responses_out \<times> (nat \<times> response_event) list"

definition emit_response :: "response_event \<Rightarrow> responses_step" where
  "emit_response e s = (let n = wadd64 (ro_seq s) 1 in (s\<lparr>ro_seq := n\<rparr>, [(n, e)]))"

section \<open>Items\<close>

definition reasoning_item_id :: "string \<Rightarrow> string" where
  "reasoning_item_id rid = ''rs_'' @ rid"

definition message_item_id :: "string \<Rightarrow> nat \<Rightarrow> string" where
  "message_item_id rid index = ''msg_'' @ rid @ ''_'' @ show_nat index"

definition call_item_id :: "string \<Rightarrow> nat \<Rightarrow> string" where
  "call_item_id rid index = ''fc_'' @ rid @ ''_'' @ show_nat index"

definition start_reasoning :: "string \<Rightarrow> nat \<Rightarrow> responses_step" where
  "start_reasoning rid index s =
     (if ro_reasoning_added s then (s, [])
      else after_step (emit_response (ItemAdded index (reasoning_item_id rid) NewReasoning))
             (emit_response (PartAdded index (reasoning_item_id rid) ReasoningItem))
             (s\<lparr>ro_reasoning_added := True\<rparr>))"

definition close_reasoning :: "string \<Rightarrow> nat \<Rightarrow> responses_step" where
  "close_reasoning rid index s =
     (if \<not> ro_reasoning_added s \<or> ro_reasoning_done s then (s, [])
      else after_step (emit_response (TextDone index (reasoning_item_id rid) ReasoningItem (ro_reasoning_buffer s)))
             (after_step (emit_response (PartDone index (reasoning_item_id rid) ReasoningItem (ro_reasoning_buffer s)))
               (emit_response (ItemDone index (reasoning_item_id rid) (FinishedReasoning (ro_reasoning_buffer s)))))
             (s\<lparr>ro_reasoning_done := True\<rparr>))"

definition emit_reasoning_text :: "string \<Rightarrow> nat \<Rightarrow> string \<Rightarrow> responses_step" where
  "emit_reasoning_text rid index t s =
     (if t = [] then (s, [])
      else after_step (start_reasoning rid index)
             (after_step (emit_response (ItemDelta index (reasoning_item_id rid) ReasoningItem t))
               (quietly (\<lambda>s. s\<lparr>ro_reasoning_buffer := ro_reasoning_buffer s @ t\<rparr>))) s)"

definition emit_text :: "string \<Rightarrow> nat \<Rightarrow> string \<Rightarrow> responses_step" where
  "emit_text rid index content s =
     after_step
       (\<lambda>s. if index \<in> set (ro_messages_added s) then (s, [])
            else after_step (emit_response (ItemAdded index (message_item_id rid index) NewMessage))
                   (emit_response (PartAdded index (message_item_id rid index) MessageItem))
                   (s\<lparr>ro_messages_added := insort_insert index (ro_messages_added s)\<rparr>))
       (after_step (emit_response (ItemDelta index (message_item_id rid index) MessageItem content))
         (quietly (\<lambda>s. s\<lparr>ro_message_text := bt_insert index
            (opt_default [] (map_of (ro_message_text s) index) @ content) (ro_message_text s)\<rparr>))) s"

definition close_message :: "string \<Rightarrow> nat \<Rightarrow> responses_step" where
  "close_message rid index s =
     (if index \<notin> set (ro_messages_added s) \<or> index \<in> set (ro_messages_done s) then (s, [])
      else let t = opt_default [] (map_of (ro_message_text s) index); i = message_item_id rid index
           in after_step (emit_response (TextDone index i MessageItem t))
                (after_step (emit_response (PartDone index i MessageItem t))
                  (emit_response (ItemDone index i (FinishedMessage t))))
                (s\<lparr>ro_messages_done := insort_insert index (ro_messages_done s)\<rparr>))"

definition delta_index :: "json \<Rightarrow> nat" where
  "delta_index call = opt_default 0 (Option.bind (jget call ''index'') as_u64)"

definition delta_name :: "json \<Rightarrow> string" where
  "delta_name call = opt_default [] (Option.bind (jget call ''function'') (\<lambda>f. get_str f ''name''))"

definition delta_call_id :: "json \<Rightarrow> string" where
  "delta_call_id call = opt_default (''call_'' @ show_nat (delta_index call)) (get_str call ''id'')"

definition delta_arguments :: "json \<Rightarrow> string" where
  "delta_arguments call = opt_default [] (Option.bind (jget call ''function'') (\<lambda>f. get_str f ''arguments''))"

definition open_call :: "string \<Rightarrow> json \<Rightarrow> responses_step" where
  "open_call rid call s =
     (let index = delta_index call; name = delta_name call
      in if index \<notin> set (ro_calls_added s) then
           after_step (close_message rid 0)
             (emit_response (ItemAdded index (call_item_id rid index) (NewCall (delta_call_id call) name)))
             (s\<lparr>ro_calls_added := insort_insert index (ro_calls_added s),
                ro_call_ids := bt_insert index (delta_call_id call) (ro_call_ids s),
                ro_call_names := (if name \<noteq> [] then bt_insert index name (ro_call_names s) else ro_call_names s)\<rparr>)
         else if name \<noteq> [] \<and> map_of (ro_call_names s) index = None then
           (s\<lparr>ro_call_names := bt_insert index name (ro_call_names s)\<rparr>, [])
         else (s, []))"

definition emit_arguments :: "string \<Rightarrow> json \<Rightarrow> responses_step" where
  "emit_arguments rid call s =
     (let index = delta_index call; arguments = delta_arguments call
      in if arguments = [] then (s, [])
         else emit_response (ItemDelta index (call_item_id rid index) CallItem arguments)
                (s\<lparr>ro_call_arguments := bt_insert index
                     (opt_default [] (map_of (ro_call_arguments s) index) @ arguments) (ro_call_arguments s)\<rparr>))"

definition emit_tool_calls :: "string \<Rightarrow> json list \<Rightarrow> responses_step" where
  "emit_tool_calls rid = for_each (\<lambda>call. after_step (open_call rid call) (emit_arguments rid call))"

definition custom_tool_input :: "(string \<Rightarrow> json option) \<Rightarrow> string \<Rightarrow> string" where
  "custom_tool_input parse_json arguments =
     opt_default arguments (Option.bind (parse_json arguments) (\<lambda>v. get_str v ''input''))"

definition close_tool_call :: "(string \<Rightarrow> json option) \<Rightarrow> string \<Rightarrow> nat \<Rightarrow> responses_step" where
  "close_tool_call parse_json rid index s =
     (if index \<in> set (ro_calls_done s) then (s, [])
      else let arguments = opt_default [] (map_of (ro_call_arguments s) index);
               name = opt_default [] (map_of (ro_call_names s) index);
               cid = opt_default (''call_'' @ show_nat index) (map_of (ro_call_ids s) index);
               i = call_item_id rid index
           in after_step (emit_response (TextDone index i CallItem arguments))
                (emit_response (ItemDone index i
                  (if name \<in> set (ro_custom_tools s)
                   then FinishedCustom (custom_tool_input parse_json arguments) cid name
                   else FinishedCall arguments cid name)))
                (s\<lparr>ro_calls_done := insort_insert index (ro_calls_done s)\<rparr>))"

section \<open>A chunk and the end\<close>

definition response_id_of :: "nat \<Rightarrow> responses_out \<Rightarrow> string" where
  "response_id_of now s = opt_default (''resp_'' @ show_nat now) (ro_response_id s)"

definition created_of :: "nat \<Rightarrow> responses_out \<Rightarrow> nat" where
  "created_of now s = opt_default (now div 1000) (ro_created s)"

definition responses_flush :: "(string \<Rightarrow> json option) \<Rightarrow> nat \<Rightarrow> responses_step" where
  "responses_flush parse_json now s =
     (if ro_completed s \<or> \<not> ro_started s then (s, [])
      else let rid = response_id_of now s
           in after_step (for_each (close_message rid) (ro_messages_added s))
                (after_step (close_reasoning rid 0)
                  (after_step (\<lambda>s. for_each (close_tool_call parse_json rid) (ro_calls_added s) s)
                    (after_step (quietly (\<lambda>s. s\<lparr>ro_completed := True\<rparr>))
                      (emit_response (ResponseCompleted rid (created_of now s)))))) s)"

definition chunk_index :: "json \<Rightarrow> nat" where
  "chunk_index chunk = opt_default 0 (Option.bind (first_choice chunk) (\<lambda>c. Option.bind (jget c ''index'') as_u64))"

text \<open>The identity of the response, fixed by its first chunk with a choice.\<close>

definition identify :: "nat \<Rightarrow> json \<Rightarrow> responses_out \<Rightarrow> responses_out" where
  "identify now chunk s =
     (let s1 = (case get_str chunk ''id'' of
                  Some i \<Rightarrow> if ro_started s then s else s\<lparr>ro_response_id := Some (''resp_'' @ i)\<rparr>
                | None \<Rightarrow> s)
      in s1\<lparr>ro_response_id := Some (response_id_of now s1), ro_created := Some (created_of now s1)\<rparr>)"

definition start_response :: "string \<Rightarrow> nat \<Rightarrow> responses_step" where
  "start_response rid created s =
     (if ro_started s then (s, [])
      else after_step (emit_response (ResponseCreated rid created))
             (emit_response (ResponseInProgress rid created)) (s\<lparr>ro_started := True\<rparr>))"

definition responses_events :: "(string \<Rightarrow> json option) \<Rightarrow> nat \<Rightarrow> json \<Rightarrow> responses_step" where
  "responses_events parse_json now chunk s =
     (if first_choice chunk = None then (s, [])
      else let s0 = identify now chunk s; rid = response_id_of now s0; index = chunk_index chunk
           in after_step (start_response rid (created_of now s0))
                (after_step (emit_reasoning_text rid index (chunk_reasoning chunk))
                  (after_step
                    (\<lambda>s. if chunk_text chunk = [] then (s, [])
                         else after_step (close_reasoning rid index) (emit_text rid index (chunk_text chunk)) s)
                    (after_step (emit_tool_calls rid (chunk_calls chunk))
                      (\<lambda>s. if opt_default [] (chunk_finish chunk) = [] then (s, [])
                           else responses_flush parse_json now s)))) s0)"

definition openai_to_responses ::
    "(string \<Rightarrow> json option) \<Rightarrow> nat \<Rightarrow> json option \<Rightarrow> responses_out \<Rightarrow> json list \<times> responses_out" where
  "openai_to_responses parse_json now chunk s =
     (case (case chunk of None \<Rightarrow> responses_flush parse_json now s
            | Some c \<Rightarrow> responses_events parse_json now c s) of
        (s', es) \<Rightarrow> (map response_event_json es, s'))"

section \<open>The client\<close>

text \<open>
  A client of the protocol refuses a number out of order, an item that is already there, a delta or an
  end for an item that is not open or of another kind, a final text that is not what the deltas said,
  an end with an item still open, and anything after the end.
\<close>

datatype item_stage = Writing | Written | Closed

record output_item =
  oi_kind :: output_kind
  oi_text :: string
  oi_stage :: item_stage

datatype response_phase = AwaitCreated | AwaitProgress | Streaming | Completed

record responses_view =
  rv_phase :: response_phase
  rv_seq :: nat
  rv_items :: "(string \<times> output_item) list"

definition responses_view_new :: responses_view where
  "responses_view_new = \<lparr>rv_phase = AwaitCreated, rv_seq = 0, rv_items = []\<rparr>"

fun new_item_kind :: "new_item \<Rightarrow> output_kind" where
  "new_item_kind NewReasoning = ReasoningItem"
| "new_item_kind NewMessage = MessageItem"
| "new_item_kind (NewCall _ _) = CallItem"

text \<open>What a finished item says of its kind and text; the input of a custom tool is not its arguments.\<close>

fun item_matches :: "finished_item \<Rightarrow> output_item \<Rightarrow> bool" where
  "item_matches (FinishedReasoning t) x \<longleftrightarrow> oi_kind x = ReasoningItem \<and> oi_text x = t"
| "item_matches (FinishedMessage t) x \<longleftrightarrow> oi_kind x = MessageItem \<and> oi_text x = t"
| "item_matches (FinishedCall a _ _) x \<longleftrightarrow> oi_kind x = CallItem \<and> oi_text x = a"
| "item_matches (FinishedCustom _ _ _) x \<longleftrightarrow> oi_kind x = CallItem"

definition put_item :: "string \<Rightarrow> output_item \<Rightarrow> responses_view \<Rightarrow> responses_view" where
  "put_item i x v = v\<lparr>rv_items := AList.update i x (rv_items v)\<rparr>"

definition item_at :: "string \<Rightarrow> output_kind \<Rightarrow> item_stage \<Rightarrow> responses_view \<Rightarrow> output_item option" where
  "item_at i k g v =
     (if rv_phase v = Streaming then
        (case map_of (rv_items v) i of
           Some x \<Rightarrow> if oi_kind x = k \<and> oi_stage x = g then Some x else None
         | None \<Rightarrow> None)
      else None)"

definition all_closed :: "responses_view \<Rightarrow> bool" where
  "all_closed v \<longleftrightarrow> list_all (\<lambda>e. map_option oi_stage (map_of (rv_items v) (fst e)) = Some Closed) (rv_items v)"

fun finished_kind :: "finished_item \<Rightarrow> output_kind" where
  "finished_kind (FinishedReasoning _) = ReasoningItem"
| "finished_kind (FinishedMessage _) = MessageItem"
| "finished_kind (FinishedCall _ _ _) = CallItem"
| "finished_kind (FinishedCustom _ _ _) = CallItem"

fun read_event :: "response_event \<Rightarrow> responses_view \<Rightarrow> responses_view option" where
  "read_event (ResponseCreated _ _) v = (if rv_phase v = AwaitCreated then Some (v\<lparr>rv_phase := AwaitProgress\<rparr>) else None)"
| "read_event (ResponseInProgress _ _) v = (if rv_phase v = AwaitProgress then Some (v\<lparr>rv_phase := Streaming\<rparr>) else None)"
| "read_event (ItemAdded _ i x) v =
     (if rv_phase v = Streaming \<and> map_of (rv_items v) i = None
      then Some (put_item i \<lparr>oi_kind = new_item_kind x, oi_text = [], oi_stage = Writing\<rparr> v) else None)"
| "read_event (PartAdded _ i k) v =
     (case item_at i k Writing v of Some x \<Rightarrow> if oi_text x = [] then Some v else None | None \<Rightarrow> None)"
| "read_event (ItemDelta _ i k t) v =
     (case item_at i k Writing v of Some x \<Rightarrow> Some (put_item i (x\<lparr>oi_text := oi_text x @ t\<rparr>) v) | None \<Rightarrow> None)"
| "read_event (TextDone _ i k t) v =
     (case item_at i k Writing v of
        Some x \<Rightarrow> if oi_text x = t then Some (put_item i (x\<lparr>oi_stage := Written\<rparr>) v) else None
      | None \<Rightarrow> None)"
| "read_event (PartDone _ i k t) v =
     (case item_at i k Written v of Some x \<Rightarrow> if oi_text x = t then Some v else None | None \<Rightarrow> None)"
| "read_event (ItemDone _ i f) v =
     (case item_at i (finished_kind f) Written v of
        Some x \<Rightarrow> if item_matches f x then Some (put_item i (x\<lparr>oi_stage := Closed\<rparr>) v) else None
      | None \<Rightarrow> None)"
| "read_event (ResponseCompleted _ _) v =
     (if rv_phase v = Streaming \<and> all_closed v then Some (v\<lparr>rv_phase := Completed\<rparr>) else None)"

fun read_events :: "(nat \<times> response_event) list \<Rightarrow> responses_view \<Rightarrow> responses_view option" where
  "read_events [] v = Some v"
| "read_events ((n, e) # es) v =
     (if n = wadd64 (rv_seq v) 1 then Option.bind (read_event e (v\<lparr>rv_seq := n\<rparr>)) (read_events es) else None)"

lemma read_events_append: "read_events (es @ es') v = Option.bind (read_events es v) (read_events es')"
  by (induction es v rule: read_events.induct) (auto split: bind_splits)

section \<open>The translator's items and the client's\<close>

datatype item_key = ReasoningKey | MessageKey nat | CallKey nat

fun key_id :: "string \<Rightarrow> item_key \<Rightarrow> string" where
  "key_id rid ReasoningKey = reasoning_item_id rid"
| "key_id rid (MessageKey x) = message_item_id rid x"
| "key_id rid (CallKey x) = call_item_id rid x"

lemma key_id_inj: "key_id rid k = key_id rid k' \<Longrightarrow> k = k'"
  by (cases k; cases k')
    (auto simp: reasoning_item_id_def message_item_id_def call_item_id_def dest!: arg_cong [of _ _ digits_val] simp: digits_val_show_nat)

definition message_text :: "responses_out \<Rightarrow> nat \<Rightarrow> string" where
  "message_text s x = opt_default [] (map_of (ro_message_text s) x)"

definition arguments_text :: "responses_out \<Rightarrow> nat \<Rightarrow> string" where
  "arguments_text s x = opt_default [] (map_of (ro_call_arguments s) x)"

definition stage :: "bool \<Rightarrow> item_stage" where
  "stage b = (if b then Closed else Writing)"

fun held :: "responses_out \<Rightarrow> item_key \<Rightarrow> output_item option" where
  "held s ReasoningKey =
     (if ro_reasoning_added s
      then Some \<lparr>oi_kind = ReasoningItem, oi_text = ro_reasoning_buffer s, oi_stage = stage (ro_reasoning_done s)\<rparr> else None)"
| "held s (MessageKey x) =
     (if x \<in> set (ro_messages_added s)
      then Some \<lparr>oi_kind = MessageItem, oi_text = message_text s x, oi_stage = stage (x \<in> set (ro_messages_done s))\<rparr>
      else None)"
| "held s (CallKey x) =
     (if x \<in> set (ro_calls_added s)
      then Some \<lparr>oi_kind = CallItem, oi_text = arguments_text s x, oi_stage = stage (x \<in> set (ro_calls_done s))\<rparr> else None)"

definition items_of :: "string \<Rightarrow> responses_view \<Rightarrow> item_key \<Rightarrow> output_item option" where
  "items_of rid v k = map_of (rv_items v) (key_id rid k)"

definition proper :: "string \<Rightarrow> responses_view \<Rightarrow> bool" where
  "proper rid v \<longleftrightarrow> fst ` set (rv_items v) \<subseteq> range (key_id rid)"

definition place :: "string \<Rightarrow> item_key \<Rightarrow> output_item \<Rightarrow> nat \<Rightarrow> responses_view \<Rightarrow> responses_view" where
  "place rid k x n v = put_item (key_id rid k) x (v\<lparr>rv_seq := n\<rparr>)"

lemma place_simps [simp]:
  "rv_phase (place rid k x n v) = rv_phase v" "rv_seq (place rid k x n v) = n"
  "items_of rid (place rid k x n v) = (items_of rid v)(k \<mapsto> x)" "proper rid v \<Longrightarrow> proper rid (place rid k x n v)"
  "items_of rid (v\<lparr>rv_seq := n\<rparr>) = items_of rid v" "proper rid (v\<lparr>rv_seq := n\<rparr>) = proper rid v"
  "items_of rid (v\<lparr>rv_phase := p\<rparr>) = items_of rid v" "proper rid (v\<lparr>rv_phase := p\<rparr>) = proper rid v"
  by (auto simp: place_def put_item_def items_of_def proper_def update_conv' dom_update fun_eq_iff dest: key_id_inj)

text \<open>One event, in terms of the items.\<close>

abbreviation next_seq :: "responses_view \<Rightarrow> nat" where "next_seq v \<equiv> wadd64 (rv_seq v) 1"

definition open_item :: "string \<Rightarrow> item_key \<Rightarrow> output_kind \<Rightarrow> item_stage \<Rightarrow> string \<Rightarrow> responses_view \<Rightarrow> bool" where
  "open_item rid k t g x v \<longleftrightarrow> rv_phase v = Streaming \<and> items_of rid v k = Some \<lparr>oi_kind = t, oi_text = x, oi_stage = g\<rparr>"

lemma item_at_open: "item_at (key_id rid k) t g v =
    (if rv_phase v = Streaming then case items_of rid v k of Some x \<Rightarrow> if oi_kind x = t \<and> oi_stage x = g then Some x else None | None \<Rightarrow> None else None)"
  by (simp add: item_at_def items_of_def)

lemma read_added: "read_events ((n, ItemAdded i (key_id rid k) x) # es) v =
    (if n = next_seq v \<and> rv_phase v = Streaming \<and> items_of rid v k = None
     then read_events es (place rid k \<lparr>oi_kind = new_item_kind x, oi_text = [], oi_stage = Writing\<rparr> n v) else None)"
  by (simp add: place_def items_of_def)

lemma read_part: "read_events ((n, PartAdded i (key_id rid k) t) # es) v =
    (if n = next_seq v \<and> open_item rid k t Writing [] v then read_events es (v\<lparr>rv_seq := n\<rparr>) else None)"
  by (auto simp: item_at_open open_item_def split: option.split)

lemma read_delta:
  assumes "items_of rid v k = Some x"
  shows "read_events ((n, ItemDelta i (key_id rid k) t d) # es) v =
    (if n = next_seq v \<and> rv_phase v = Streaming \<and> oi_kind x = t \<and> oi_stage x = Writing
     then read_events es (place rid k (x\<lparr>oi_text := oi_text x @ d\<rparr>) n v) else None)"
  using assms by (auto simp: item_at_open place_def)

lemma read_done:
  assumes "items_of rid v k = Some x"
  shows "read_events ((n, TextDone i (key_id rid k) t d) # es) v =
    (if n = next_seq v \<and> rv_phase v = Streaming \<and> oi_kind x = t \<and> oi_stage x = Writing \<and> oi_text x = d
     then read_events es (place rid k (x\<lparr>oi_stage := Written\<rparr>) n v) else None)"
  using assms by (auto simp: item_at_open place_def)

lemma read_part_done: "read_events ((n, PartDone i (key_id rid k) t d) # es) v =
    (if n = next_seq v \<and> open_item rid k t Written d v then read_events es (v\<lparr>rv_seq := n\<rparr>) else None)"
  by (auto simp: item_at_open open_item_def split: option.split)

lemma read_item_done:
  assumes "items_of rid v k = Some x"
  shows "read_events ((n, ItemDone i (key_id rid k) f) # es) v =
    (if n = next_seq v \<and> rv_phase v = Streaming \<and> oi_kind x = finished_kind f \<and> oi_stage x = Written \<and> item_matches f x
     then read_events es (place rid k (x\<lparr>oi_stage := Closed\<rparr>) n v) else None)"
  using assms by (auto simp: item_at_open place_def)

lemmas event_reading = read_added read_part read_delta read_done read_part_done read_item_done

lemma closed_items:
  assumes "proper rid v"
  shows "all_closed v \<longleftrightarrow> (\<forall>k x. items_of rid v k = Some x \<longrightarrow> oi_stage x = Closed)"
proof
  assume a: "all_closed v"
  show "\<forall>k x. items_of rid v k = Some x \<longrightarrow> oi_stage x = Closed"
  proof (intro allI impI)
    fix k x assume "items_of rid v k = Some x"
    then have m: "map_of (rv_items v) (key_id rid k) = Some x" by (simp add: items_of_def)
    then have "(key_id rid k, x) \<in> set (rv_items v)" by (rule map_of_SomeD)
    then have "map_option oi_stage (map_of (rv_items v) (key_id rid k)) = Some Closed"
      using a by (auto simp: all_closed_def list_all_iff)
    then show "oi_stage x = Closed" using m by simp
  qed
next
  assume a: "\<forall>k x. items_of rid v k = Some x \<longrightarrow> oi_stage x = Closed"
  show "all_closed v" unfolding all_closed_def list_all_iff
  proof
    fix e assume e: "e \<in> set (rv_items v)"
    then have "fst e \<in> fst ` set (rv_items v)" by simp
    then have "fst e \<in> range (key_id rid)" using assms unfolding proper_def by blast
    then obtain k where k: "fst e = key_id rid k" by blast
    have "map_of (rv_items v) (fst e) \<noteq> None" using e by (simp add: map_of_eq_None_iff)
    then obtain x where x: "map_of (rv_items v) (fst e) = Some x" by blast
    then have "items_of rid v k = Some x" using k by (simp add: items_of_def)
    then show "map_option oi_stage (map_of (rv_items v) (fst e)) = Some Closed" using a x by simp
  qed
qed

section \<open>What the state keeps\<close>

text \<open>Nothing is written before it is added, nothing ends before it is added, and what is completed is closed.\<close>

definition well_kept :: "responses_out \<Rightarrow> bool" where
  "well_kept s \<longleftrightarrow> (ro_reasoning_added s \<or> \<not> ro_reasoning_done s \<and> ro_reasoning_buffer s = [])
     \<and> (\<forall>x. x \<in> set (ro_messages_added s) \<or> message_text s x = [] \<and> x \<notin> set (ro_messages_done s))
     \<and> (\<forall>x. x \<in> set (ro_calls_added s) \<or> arguments_text s x = [] \<and> x \<notin> set (ro_calls_done s))"

definition all_done :: "responses_out \<Rightarrow> bool" where
  "all_done s \<longleftrightarrow> ro_reasoning_done s = ro_reasoning_added s \<and> set (ro_messages_added s) \<subseteq> set (ro_messages_done s)
     \<and> set (ro_calls_added s) \<subseteq> set (ro_calls_done s)"

definition mirrors :: "string \<Rightarrow> responses_out \<Rightarrow> responses_view \<Rightarrow> bool" where
  "mirrors rid s v \<longleftrightarrow> rv_seq v = ro_seq s \<and> rv_phase v = (if ro_completed s then Completed else Streaming)
     \<and> items_of rid v = held s \<and> proper rid v \<and> well_kept s"

text \<open>The client reads what the step emits exactly where \<open>P\<close> holds, and stays in step.\<close>

definition reads :: "string \<Rightarrow> responses_step \<Rightarrow> (responses_out \<Rightarrow> bool) \<Rightarrow> bool" where
  "reads rid f P \<longleftrightarrow> (\<forall>s v. mirrors rid s v \<longrightarrow>
     (if P s then \<exists>v'. read_events (snd (f s)) v = Some v' \<and> mirrors rid (fst (f s)) v'
      else read_events (snd (f s)) v = None))"

lemma reads_after:
  assumes "reads rid f P" "reads rid g Q"
  shows "reads rid (after_step f g) (\<lambda>s. P s \<and> Q (fst (f s)))"
  unfolding reads_def
proof (intro allI impI)
  fix s v assume t: "mirrors rid s v"
  obtain s1 e1 where f: "f s = (s1, e1)" by fastforce
  obtain s2 e2 where g: "g s1 = (s2, e2)" by fastforce
  show "if P s \<and> Q (fst (f s))
        then \<exists>v'. read_events (snd (after_step f g s)) v = Some v' \<and> mirrors rid (fst (after_step f g s)) v'
        else read_events (snd (after_step f g s)) v = None"
  proof (cases "P s")
    case True
    then obtain v1 where v1: "read_events e1 v = Some v1" "mirrors rid s1 v1"
      using assms(1) t f unfolding reads_def by fastforce
    then show ?thesis using assms(2) True f g unfolding reads_def
      by (auto simp: after_step_def read_events_append split: if_splits dest: spec2 [of _ s1 v1])
  next
    case False
    then have "read_events e1 v = None" using assms(1) t f unfolding reads_def by fastforce
    then show ?thesis using False f g by (simp add: after_step_def read_events_append)
  qed
qed

lemma readsD:
  "reads rid f P \<Longrightarrow> mirrors rid s v \<Longrightarrow> P s \<Longrightarrow> \<exists>v'. read_events (snd (f s)) v = Some v' \<and> mirrors rid (fst (f s)) v'"
  "reads rid f P \<Longrightarrow> mirrors rid s v \<Longrightarrow> \<not> P s \<Longrightarrow> read_events (snd (f s)) v = None"
  unfolding reads_def by auto

lemma reads_nothing: "reads rid (\<lambda>s. (s, [])) (\<lambda>s. True)"
  by (simp add: reads_def)

text \<open>What a step has to be shown for: the emitted events, from a state the client mirrors.\<close>

lemma readsI:
  assumes "\<And>s v. mirrors rid s v \<Longrightarrow> rv_seq v = ro_seq s \<Longrightarrow> rv_phase v = (if ro_completed s then Completed else Streaming) \<Longrightarrow>
      items_of rid v = held s \<Longrightarrow> proper rid v \<Longrightarrow> P s \<Longrightarrow> \<exists>v'. read_events (snd (f s)) v = Some v' \<and> mirrors rid (fst (f s)) v'"
    and "\<And>s v. rv_seq v = ro_seq s \<Longrightarrow> rv_phase v = (if ro_completed s then Completed else Streaming) \<Longrightarrow>
      items_of rid v = held s \<Longrightarrow> well_kept s \<Longrightarrow> \<not> P s \<Longrightarrow> read_events (snd (f s)) v = None"
  shows "reads rid f P"
  using assms unfolding reads_def by (simp add: mirrors_def)

section \<open>Each step keeps them in step\<close>

lemmas step_simps = after_step_def emit_response_def Let_def quietly_def key_id.simps [symmetric]

declare key_id.simps [simp del] read_events.simps(2) [simp del] held.simps [simp del]

lemma held_upd: "held s' k = Some x \<Longrightarrow> (\<And>j. j \<noteq> k \<Longrightarrow> held s' j = held s j) \<Longrightarrow> held s' = (held s)(k \<mapsto> x)"
  by auto

lemma held_cong:
  assumes "ro_reasoning_added s' = ro_reasoning_added s" "ro_reasoning_buffer s' = ro_reasoning_buffer s"
    "ro_reasoning_done s' = ro_reasoning_done s" "ro_messages_added s' = ro_messages_added s"
    "ro_message_text s' = ro_message_text s" "ro_messages_done s' = ro_messages_done s"
    "ro_calls_added s' = ro_calls_added s" "ro_call_arguments s' = ro_call_arguments s" "ro_calls_done s' = ro_calls_done s"
  shows "held s' = held s"
proof
  show "held s' k = held s k" for k using assms by (cases k) (simp_all add: held.simps message_text_def arguments_text_def)
qed

text \<open>The one item a step is about is the one that changes.\<close>

lemma held_reasoning:
  assumes "ro_reasoning_added s'" "ro_messages_added s' = ro_messages_added s"
    "ro_message_text s' = ro_message_text s" "ro_messages_done s' = ro_messages_done s"
    "ro_calls_added s' = ro_calls_added s" "ro_call_arguments s' = ro_call_arguments s" "ro_calls_done s' = ro_calls_done s"
  shows "held s' = (held s)(ReasoningKey \<mapsto>
    \<lparr>oi_kind = ReasoningItem, oi_text = ro_reasoning_buffer s', oi_stage = stage (ro_reasoning_done s')\<rparr>)"
proof (rule held_upd)
  show "held s' j = held s j" if "j \<noteq> ReasoningKey" for j
    using that assms by (cases j) (simp_all add: held.simps message_text_def arguments_text_def)
qed (use assms in \<open>simp add: held.simps\<close>)

lemma held_message:
  assumes "x \<in> set (ro_messages_added s')" "\<And>y. y \<noteq> x \<Longrightarrow> y \<in> set (ro_messages_added s') \<longleftrightarrow> y \<in> set (ro_messages_added s)"
    "\<And>y. y \<noteq> x \<Longrightarrow> message_text s' y = message_text s y" "\<And>y. y \<noteq> x \<Longrightarrow> y \<in> set (ro_messages_done s') \<longleftrightarrow> y \<in> set (ro_messages_done s)"
    "ro_reasoning_added s' = ro_reasoning_added s" "ro_reasoning_buffer s' = ro_reasoning_buffer s"
    "ro_reasoning_done s' = ro_reasoning_done s"
    "ro_calls_added s' = ro_calls_added s" "ro_call_arguments s' = ro_call_arguments s" "ro_calls_done s' = ro_calls_done s"
  shows "held s' = (held s)(MessageKey x \<mapsto>
    \<lparr>oi_kind = MessageItem, oi_text = message_text s' x, oi_stage = stage (x \<in> set (ro_messages_done s'))\<rparr>)"
proof (rule held_upd)
  show "held s' j = held s j" if "j \<noteq> MessageKey x" for j
    using that assms by (cases j) (simp_all add: held.simps arguments_text_def)
qed (use assms in \<open>simp add: held.simps\<close>)

lemma held_call:
  assumes "x \<in> set (ro_calls_added s')" "\<And>y. y \<noteq> x \<Longrightarrow> y \<in> set (ro_calls_added s') \<longleftrightarrow> y \<in> set (ro_calls_added s)"
    "\<And>y. y \<noteq> x \<Longrightarrow> arguments_text s' y = arguments_text s y" "\<And>y. y \<noteq> x \<Longrightarrow> y \<in> set (ro_calls_done s') \<longleftrightarrow> y \<in> set (ro_calls_done s)"
    "ro_reasoning_added s' = ro_reasoning_added s" "ro_reasoning_buffer s' = ro_reasoning_buffer s"
    "ro_reasoning_done s' = ro_reasoning_done s"
    "ro_messages_added s' = ro_messages_added s" "ro_message_text s' = ro_message_text s" "ro_messages_done s' = ro_messages_done s"
  shows "held s' = (held s)(CallKey x \<mapsto>
    \<lparr>oi_kind = CallItem, oi_text = arguments_text s' x, oi_stage = stage (x \<in> set (ro_calls_done s'))\<rparr>)"
proof (rule held_upd)
  show "held s' j = held s j" if "j \<noteq> CallKey x" for j
    using that assms by (cases j) (simp_all add: held.simps message_text_def)
qed (use assms in \<open>simp add: held.simps\<close>)

text \<open>A step about one item is shown by what it does to the item, on either side.\<close>

definition does :: "string \<Rightarrow> responses_step \<Rightarrow> responses_out \<Rightarrow> item_key \<Rightarrow> output_item \<Rightarrow> bool" where
  "does rid f s k x \<longleftrightarrow> (\<forall>v. rv_seq v = ro_seq s \<longrightarrow> rv_phase v = Streaming \<longrightarrow> items_of rid v = held s \<longrightarrow> proper rid v \<longrightarrow>
     (\<exists>v'. read_events (snd (f s)) v = Some v' \<and> rv_seq v' = ro_seq (fst (f s)) \<and> rv_phase v' = Streaming
        \<and> items_of rid v' = (held s)(k \<mapsto> x) \<and> proper rid v'))"

lemma mirrors_does:
  assumes "mirrors rid s v" "does rid f s k x" "held (fst (f s)) = (held s)(k \<mapsto> x)" "well_kept (fst (f s))"
    "\<not> ro_completed s" "\<not> ro_completed (fst (f s))"
  shows "\<exists>v'. read_events (snd (f s)) v = Some v' \<and> mirrors rid (fst (f s)) v'"
proof -
  have "rv_seq v = ro_seq s" "rv_phase v = Streaming" "items_of rid v = held s" "proper rid v"
    using assms(1,5) by (simp_all add: mirrors_def)
  then obtain v' where "read_events (snd (f s)) v = Some v'" "rv_seq v' = ro_seq (fst (f s))" "rv_phase v' = Streaming"
      "items_of rid v' = (held s)(k \<mapsto> x)" "proper rid v'"
    using assms(2) unfolding does_def by blast
  then show ?thesis using assms(3,4,6) by (simp add: mirrors_def)
qed

lemma reads_one:
  assumes "\<And>s. well_kept s \<Longrightarrow> P s \<Longrightarrow> f s \<noteq> (s, []) \<Longrightarrow> \<not> ro_completed s \<and> does rid f s (k s) (x s)
      \<and> held (fst (f s)) = (held s)(k s \<mapsto> x s) \<and> well_kept (fst (f s)) \<and> \<not> ro_completed (fst (f s))"
    and "\<And>s v. rv_phase v = (if ro_completed s then Completed else Streaming) \<Longrightarrow>
      items_of rid v = held s \<Longrightarrow> well_kept s \<Longrightarrow> \<not> P s \<Longrightarrow> read_events (snd (f s)) v = None"
  shows "reads rid f P"
  unfolding reads_def
proof (intro allI impI)
  fix s v assume t: "mirrors rid s v"
  then have w: "well_kept s" by (simp add: mirrors_def)
  show "if P s then \<exists>v'. read_events (snd (f s)) v = Some v' \<and> mirrors rid (fst (f s)) v' else read_events (snd (f s)) v = None"
  proof (cases "P s")
    case False
    then show ?thesis using assms(2) [of v s] t by (simp add: mirrors_def)
  next
    case True
    show ?thesis
    proof (cases "f s = (s, [])")
      case True
      then show ?thesis using t \<open>P s\<close> by simp
    next
      case False
      then have c: "\<not> ro_completed s \<and> does rid f s (k s) (x s) \<and> held (fst (f s)) = (held s)(k s \<mapsto> x s)
          \<and> well_kept (fst (f s)) \<and> \<not> ro_completed (fst (f s))"
        using assms(1) [OF w \<open>P s\<close>] by blast
      then have "\<exists>v'. read_events (snd (f s)) v = Some v' \<and> mirrors rid (fst (f s)) v'"
        using mirrors_does [OF t, of f "k s" "x s"] by simp
      then show ?thesis using \<open>P s\<close> by simp
    qed
  qed
qed

lemma held_reasoning_key: "held s ReasoningKey = (if ro_reasoning_added s
    then Some \<lparr>oi_kind = ReasoningItem, oi_text = ro_reasoning_buffer s, oi_stage = stage (ro_reasoning_done s)\<rparr> else None)"
  by (simp add: held.simps)

lemma reads_emit_reasoning_text:
  "reads rid (emit_reasoning_text rid index t) (\<lambda>s. t = [] \<or> \<not> ro_completed s \<and> \<not> ro_reasoning_done s)"
proof (rule reads_one)
  fix s v assume v: "rv_phase v = (if ro_completed s then Completed else Streaming)" "items_of rid v = held s"
    and w: "well_kept s" and r: "\<not> (t = [] \<or> \<not> ro_completed s \<and> \<not> ro_reasoning_done s)"
  show "read_events (snd (emit_reasoning_text rid index t s)) v = None"
    using v w r by (cases "ro_reasoning_added s")
      (auto simp: emit_reasoning_text_def start_reasoning_def step_simps read_added read_delta stage_def well_kept_def held_reasoning_key)
next
  fix s assume w: "well_kept s" and "t = [] \<or> \<not> ro_completed s \<and> \<not> ro_reasoning_done s" "emit_reasoning_text rid index t s \<noteq> (s, [])"
  then have r: "t \<noteq> []" "\<not> ro_completed s" "\<not> ro_reasoning_done s" by (auto simp: emit_reasoning_text_def)
  let ?f = "emit_reasoning_text rid index t"
  let ?x = "\<lparr>oi_kind = ReasoningItem, oi_text = ro_reasoning_buffer s @ t, oi_stage = Writing\<rparr>"
  have st: "ro_reasoning_added (fst (?f s))" "ro_reasoning_buffer (fst (?f s)) = ro_reasoning_buffer s @ t"
    "\<not> ro_reasoning_done (fst (?f s))" "\<not> ro_completed (fst (?f s))"
    using r by (simp_all add: emit_reasoning_text_def start_reasoning_def step_simps)
  have "does rid ?f s ReasoningKey ?x"
    using r w by (cases "ro_reasoning_added s")
      (simp_all add: does_def emit_reasoning_text_def start_reasoning_def step_simps event_reading open_item_def stage_def
        held_reasoning_key well_kept_def)
  moreover have "held (fst (?f s)) = (held s)(ReasoningKey \<mapsto> ?x)"
    by (subst held_reasoning [of _ s]) (simp_all add: st stage_def, auto simp: emit_reasoning_text_def start_reasoning_def step_simps)
  moreover have "well_kept (fst (?f s))"
    using w st(1) by (auto simp: well_kept_def emit_reasoning_text_def start_reasoning_def step_simps message_text_def arguments_text_def)
  ultimately show "\<not> ro_completed s \<and> does rid ?f s ReasoningKey ?x
      \<and> held (fst (?f s)) = (held s)(ReasoningKey \<mapsto> ?x) \<and> well_kept (fst (?f s)) \<and> \<not> ro_completed (fst (?f s))"
    using r st by simp
qed

lemma held_message_key: "held s (MessageKey x) = (if x \<in> set (ro_messages_added s)
    then Some \<lparr>oi_kind = MessageItem, oi_text = message_text s x, oi_stage = stage (x \<in> set (ro_messages_done s))\<rparr> else None)"
  by (simp add: held.simps)

lemma held_call_key: "held s (CallKey x) = (if x \<in> set (ro_calls_added s)
    then Some \<lparr>oi_kind = CallItem, oi_text = arguments_text s x, oi_stage = stage (x \<in> set (ro_calls_done s))\<rparr> else None)"
  by (simp add: held.simps)

lemmas held_keys = held_reasoning_key held_message_key held_call_key

lemma reads_close_reasoning:
  "reads rid (close_reasoning rid index) (\<lambda>s. \<not> ro_reasoning_added s \<or> ro_reasoning_done s \<or> \<not> ro_completed s)"
proof (rule reads_one)
  fix s v assume v: "rv_phase v = (if ro_completed s then Completed else Streaming)" "items_of rid v = held s"
    and w: "well_kept s" and r: "\<not> (\<not> ro_reasoning_added s \<or> ro_reasoning_done s \<or> \<not> ro_completed s)"
  show "read_events (snd (close_reasoning rid index s)) v = None"
    using v w r by (simp add: close_reasoning_def step_simps read_done held_keys)
next
  fix s assume w: "well_kept s" and "\<not> ro_reasoning_added s \<or> ro_reasoning_done s \<or> \<not> ro_completed s"
    "close_reasoning rid index s \<noteq> (s, [])"
  then have r: "ro_reasoning_added s" "\<not> ro_completed s" "\<not> ro_reasoning_done s" by (auto simp: close_reasoning_def split: if_splits)
  let ?f = "close_reasoning rid index"
  let ?x = "\<lparr>oi_kind = ReasoningItem, oi_text = ro_reasoning_buffer s, oi_stage = Closed\<rparr>"
  have st: "fst (?f s) = s\<lparr>ro_reasoning_done := True, ro_seq := ro_seq (fst (?f s))\<rparr>"
    using r by (simp add: close_reasoning_def step_simps)
  have "does rid ?f s ReasoningKey ?x"
    using r by (simp add: does_def close_reasoning_def step_simps event_reading open_item_def stage_def held_keys)
  moreover have "held (fst (?f s)) = (held s)(ReasoningKey \<mapsto> ?x)"
    by (subst st, subst held_reasoning [of _ s]) (simp_all add: r stage_def)
  moreover have "well_kept (fst (?f s))"
    using w r by (subst st) (simp add: well_kept_def message_text_def arguments_text_def)
  moreover have "\<not> ro_completed (fst (?f s))" using r by (subst st) simp
  ultimately show "\<not> ro_completed s \<and> does rid ?f s ReasoningKey ?x
      \<and> held (fst (?f s)) = (held s)(ReasoningKey \<mapsto> ?x) \<and> well_kept (fst (?f s)) \<and> \<not> ro_completed (fst (?f s))"
    using r by simp
qed

lemma reads_emit_text:
  "reads rid (emit_text rid index t) (\<lambda>s. \<not> ro_completed s \<and> index \<notin> set (ro_messages_done s))"
proof (rule reads_one)
  fix s v assume v: "rv_phase v = (if ro_completed s then Completed else Streaming)" "items_of rid v = held s"
    and w: "well_kept s" and r: "\<not> (\<not> ro_completed s \<and> index \<notin> set (ro_messages_done s))"
  show "read_events (snd (emit_text rid index t s)) v = None"
    using v w r by (cases "index \<in> set (ro_messages_added s)")
      (auto simp: emit_text_def step_simps read_added read_delta stage_def well_kept_def held_keys)
next
  fix s assume w: "well_kept s" and r: "\<not> ro_completed s \<and> index \<notin> set (ro_messages_done s)"
  let ?f = "emit_text rid index t"
  let ?x = "\<lparr>oi_kind = MessageItem, oi_text = message_text s index @ t, oi_stage = Writing\<rparr>"
  have st: "fst (?f s) = s\<lparr>ro_messages_added := insort_insert index (ro_messages_added s),
      ro_message_text := bt_insert index (message_text s index @ t) (ro_message_text s), ro_seq := ro_seq (fst (?f s))\<rparr>"
    by (simp add: emit_text_def step_simps message_text_def insort_insert_key_def)
  have "index \<in> set (ro_messages_added s) \<or> message_text s index = []" using w by (auto simp: well_kept_def)
  then have "does rid ?f s (MessageKey index) ?x"
    using r by (cases "index \<in> set (ro_messages_added s)")
      (simp_all add: does_def emit_text_def step_simps event_reading open_item_def stage_def held_keys)
  moreover have "held (fst (?f s)) = (held s)(MessageKey index \<mapsto> ?x)"
    by (subst st, subst held_message [of index _ s])
      (simp_all add: r stage_def message_text_def set_insort_insert map_simps)
  moreover have "well_kept (fst (?f s))"
    using w r by (subst st) (auto simp: well_kept_def message_text_def arguments_text_def set_insort_insert map_simps)
  moreover have "\<not> ro_completed (fst (?f s))" using r by (subst st) simp
  ultimately show "\<not> ro_completed s \<and> does rid ?f s (MessageKey index) ?x
      \<and> held (fst (?f s)) = (held s)(MessageKey index \<mapsto> ?x) \<and> well_kept (fst (?f s)) \<and> \<not> ro_completed (fst (?f s))"
    using r by simp
qed

lemma reads_close_message:
  "reads rid (close_message rid index)
     (\<lambda>s. index \<notin> set (ro_messages_added s) \<or> index \<in> set (ro_messages_done s) \<or> \<not> ro_completed s)"
proof (rule reads_one)
  fix s v assume v: "rv_phase v = (if ro_completed s then Completed else Streaming)" "items_of rid v = held s"
    and w: "well_kept s" and r: "\<not> (index \<notin> set (ro_messages_added s) \<or> index \<in> set (ro_messages_done s) \<or> \<not> ro_completed s)"
  show "read_events (snd (close_message rid index s)) v = None"
    using v w r by (simp add: close_message_def step_simps read_done held_keys)
next
  fix s assume w: "well_kept s" and "index \<notin> set (ro_messages_added s) \<or> index \<in> set (ro_messages_done s) \<or> \<not> ro_completed s"
    "close_message rid index s \<noteq> (s, [])"
  then have r: "index \<in> set (ro_messages_added s)" "\<not> ro_completed s" "index \<notin> set (ro_messages_done s)"
    by (auto simp: close_message_def split: if_splits)
  let ?f = "close_message rid index"
  let ?x = "\<lparr>oi_kind = MessageItem, oi_text = message_text s index, oi_stage = Closed\<rparr>"
  have st: "fst (?f s) = s\<lparr>ro_messages_done := insort_insert index (ro_messages_done s), ro_seq := ro_seq (fst (?f s))\<rparr>"
    using r by (simp add: close_message_def step_simps)
  have "does rid ?f s (MessageKey index) ?x"
    using r by (simp add: does_def close_message_def step_simps event_reading open_item_def stage_def held_keys flip: message_text_def)
  moreover have "held (fst (?f s)) = (held s)(MessageKey index \<mapsto> ?x)"
    by (subst st, subst held_message [of index _ s]) (simp_all add: r stage_def message_text_def set_insort_insert map_simps)
  moreover have "well_kept (fst (?f s))"
    using w r by (subst st) (auto simp: well_kept_def message_text_def arguments_text_def set_insort_insert map_simps)
  moreover have "\<not> ro_completed (fst (?f s))" using r by (subst st) simp
  ultimately show "\<not> ro_completed s \<and> does rid ?f s (MessageKey index) ?x
      \<and> held (fst (?f s)) = (held s)(MessageKey index \<mapsto> ?x) \<and> well_kept (fst (?f s)) \<and> \<not> ro_completed (fst (?f s))"
    using r by simp
qed

text \<open>Opening a call: the first message is closed, the call is added; the two do not touch each other.\<close>

definition add_call :: "string \<Rightarrow> json \<Rightarrow> responses_step" where
  "add_call rid call s =
     (let index = delta_index call; name = delta_name call
      in if index \<notin> set (ro_calls_added s) then
           emit_response (ItemAdded index (call_item_id rid index) (NewCall (delta_call_id call) name))
             (s\<lparr>ro_calls_added := insort_insert index (ro_calls_added s),
                ro_call_ids := bt_insert index (delta_call_id call) (ro_call_ids s),
                ro_call_names := (if name \<noteq> [] then bt_insert index name (ro_call_names s) else ro_call_names s)\<rparr>)
         else (s\<lparr>ro_call_names := (if name \<noteq> [] \<and> map_of (ro_call_names s) index = None
                   then bt_insert index name (ro_call_names s) else ro_call_names s)\<rparr>, []))"

lemma open_call_split:
  "open_call rid call s =
     after_step (\<lambda>s. if delta_index call \<in> set (ro_calls_added s) then (s, []) else close_message rid 0 s) (add_call rid call) s"
  by (simp add: open_call_def add_call_def close_message_def after_step_def emit_response_def Let_def)

lemma reads_add_call:
  "reads rid (add_call rid call) (\<lambda>s. delta_index call \<in> set (ro_calls_added s) \<or> \<not> ro_completed s)"
proof -
  have "reads rid (\<lambda>s. if delta_index call \<in> set (ro_calls_added s) then (s, []) else add_call rid call s)
      (\<lambda>s. delta_index call \<in> set (ro_calls_added s) \<or> \<not> ro_completed s)"
    (is "reads rid ?f ?P")
  proof (rule reads_one)
    fix s and v :: responses_view
    assume "rv_phase v = (if ro_completed s then Completed else Streaming)" "\<not> ?P s"
    then show "read_events (snd (?f s)) v = None" by (simp add: add_call_def step_simps read_added)
  next
    fix s assume w: "well_kept s" and "?P s" "?f s \<noteq> (s, [])"
    then have r: "delta_index call \<notin> set (ro_calls_added s)" "\<not> ro_completed s" by (auto split: if_splits)
    let ?i = "delta_index call"
    let ?x = "\<lparr>oi_kind = CallItem, oi_text = [], oi_stage = Writing\<rparr>"
    have st: "fst (?f s) = s\<lparr>ro_calls_added := insort_insert ?i (ro_calls_added s), ro_seq := ro_seq (fst (?f s)),
        ro_call_ids := ro_call_ids (fst (?f s)), ro_call_names := ro_call_names (fst (?f s))\<rparr>"
      using r by (simp add: add_call_def step_simps)
    have none: "arguments_text s ?i = []" "?i \<notin> set (ro_calls_done s)" using w r by (auto simp: well_kept_def)
    have "does rid ?f s (CallKey ?i) ?x"
      using r by (simp add: does_def add_call_def step_simps event_reading held_keys)
    moreover have "held (fst (?f s)) = (held s)(CallKey ?i \<mapsto> ?x)"
      using none by (subst st, subst held_call [of ?i _ s]) (simp_all add: stage_def arguments_text_def set_insort_insert map_simps)
    moreover have "well_kept (fst (?f s))"
      using w by (subst st) (auto simp: well_kept_def message_text_def arguments_text_def set_insort_insert map_simps)
    moreover have "\<not> ro_completed (fst (?f s))" using r by (subst st) simp
    ultimately show "\<not> ro_completed s \<and> does rid ?f s (CallKey ?i) ?x
        \<and> held (fst (?f s)) = (held s)(CallKey ?i \<mapsto> ?x) \<and> well_kept (fst (?f s)) \<and> \<not> ro_completed (fst (?f s))"
      using r by simp
  qed
  moreover have "mirrors rid s v \<Longrightarrow> delta_index call \<in> set (ro_calls_added s) \<Longrightarrow>
      snd (add_call rid call s) = [] \<and> mirrors rid (fst (add_call rid call s)) v" for s v
  proof -
    assume t: "mirrors rid s v" and i: "delta_index call \<in> set (ro_calls_added s)"
    have st: "add_call rid call s = (s\<lparr>ro_call_names := ro_call_names (fst (add_call rid call s))\<rparr>, [])"
      using i by (simp add: add_call_def Let_def)
    have "held (s\<lparr>ro_call_names := n\<rparr>) = held s" for n by (rule held_cong) simp_all
    then show ?thesis using t by (subst (1 2) st) (simp add: mirrors_def well_kept_def message_text_def arguments_text_def)
  qed
  ultimately have a: "reads rid ?f ?P"
    and b: "mirrors rid s v \<Longrightarrow> delta_index call \<in> set (ro_calls_added s) \<Longrightarrow>
      snd (add_call rid call s) = [] \<and> mirrors rid (fst (add_call rid call s)) v" for s v by blast+
  show ?thesis unfolding reads_def
  proof (intro allI impI)
    fix s v assume t: "mirrors rid s v"
    show "if ?P s then \<exists>v'. read_events (snd (add_call rid call s)) v = Some v' \<and> mirrors rid (fst (add_call rid call s)) v'
        else read_events (snd (add_call rid call s)) v = None"
    proof (cases "delta_index call \<in> set (ro_calls_added s)")
      case True
      then show ?thesis using b [OF t] by simp
    next
      case False
      then show ?thesis using a [unfolded reads_def, rule_format, OF t] by (cases "ro_completed s") simp_all
    qed
  qed
qed

lemma reads_emit_arguments:
  "reads rid (emit_arguments rid call) (\<lambda>s. delta_arguments call = []
     \<or> \<not> ro_completed s \<and> delta_index call \<in> set (ro_calls_added s) \<and> delta_index call \<notin> set (ro_calls_done s))"
proof (rule reads_one)
  fix s v assume v: "rv_phase v = (if ro_completed s then Completed else Streaming)" "items_of rid v = held s"
    and r: "\<not> (delta_arguments call = []
     \<or> \<not> ro_completed s \<and> delta_index call \<in> set (ro_calls_added s) \<and> delta_index call \<notin> set (ro_calls_done s))"
  show "read_events (snd (emit_arguments rid call s)) v = None"
  proof (cases "delta_index call \<in> set (ro_calls_added s)")
    case True
    then show ?thesis using v r by (auto simp: emit_arguments_def step_simps read_delta held_keys stage_def)
  next
    case False
    then have "items_of rid v (CallKey (delta_index call)) = None" using v by (simp add: held_keys)
    then show ?thesis using r by (simp add: emit_arguments_def step_simps read_events.simps(2) item_at_open)
  qed
next
  fix s assume w: "well_kept s" and "delta_arguments call = []
     \<or> \<not> ro_completed s \<and> delta_index call \<in> set (ro_calls_added s) \<and> delta_index call \<notin> set (ro_calls_done s)"
    "emit_arguments rid call s \<noteq> (s, [])"
  then have r: "delta_arguments call \<noteq> []" "\<not> ro_completed s" "delta_index call \<in> set (ro_calls_added s)"
    "delta_index call \<notin> set (ro_calls_done s)" by (auto simp: emit_arguments_def)
  let ?f = "emit_arguments rid call" and ?i = "delta_index call"
  let ?x = "\<lparr>oi_kind = CallItem, oi_text = arguments_text s ?i @ delta_arguments call, oi_stage = Writing\<rparr>"
  have st: "fst (?f s) = s\<lparr>ro_call_arguments := bt_insert ?i (arguments_text s ?i @ delta_arguments call) (ro_call_arguments s),
      ro_seq := ro_seq (fst (?f s))\<rparr>"
    using r by (simp add: emit_arguments_def step_simps arguments_text_def)
  have "does rid ?f s (CallKey ?i) ?x"
    using r by (simp add: does_def emit_arguments_def step_simps event_reading stage_def held_keys)
  moreover have "held (fst (?f s)) = (held s)(CallKey ?i \<mapsto> ?x)"
    by (subst st, subst held_call [of ?i _ s]) (simp_all add: r stage_def arguments_text_def map_simps)
  moreover have "well_kept (fst (?f s))"
    using w r by (subst st) (auto simp: well_kept_def message_text_def arguments_text_def map_simps)
  moreover have "\<not> ro_completed (fst (?f s))" using r by (subst st) simp
  ultimately show "\<not> ro_completed s \<and> does rid ?f s (CallKey ?i) ?x
      \<and> held (fst (?f s)) = (held s)(CallKey ?i \<mapsto> ?x) \<and> well_kept (fst (?f s)) \<and> \<not> ro_completed (fst (?f s))"
    using r by simp
qed

lemma reads_close_tool_call:
  "reads rid (close_tool_call parse_json rid index)
     (\<lambda>s. index \<in> set (ro_calls_done s) \<or> \<not> ro_completed s \<and> index \<in> set (ro_calls_added s))"
proof (rule reads_one)
  fix s v assume v: "rv_phase v = (if ro_completed s then Completed else Streaming)" "items_of rid v = held s"
    and r: "\<not> (index \<in> set (ro_calls_done s) \<or> \<not> ro_completed s \<and> index \<in> set (ro_calls_added s))"
  show "read_events (snd (close_tool_call parse_json rid index s)) v = None"
  proof (cases "index \<in> set (ro_calls_added s)")
    case True
    then show ?thesis using v r by (simp add: close_tool_call_def step_simps read_done held_keys)
  next
    case False
    then have "items_of rid v (CallKey index) = None" using v by (simp add: held_keys)
    then show ?thesis using r by (auto simp: close_tool_call_def step_simps read_events.simps(2) item_at_open)
  qed
next
  fix s assume w: "well_kept s" and "index \<in> set (ro_calls_done s) \<or> \<not> ro_completed s \<and> index \<in> set (ro_calls_added s)"
    "close_tool_call parse_json rid index s \<noteq> (s, [])"
  then have r: "index \<in> set (ro_calls_added s)" "\<not> ro_completed s" "index \<notin> set (ro_calls_done s)"
    by (auto simp: close_tool_call_def split: if_splits)
  let ?f = "close_tool_call parse_json rid index"
  let ?x = "\<lparr>oi_kind = CallItem, oi_text = arguments_text s index, oi_stage = Closed\<rparr>"
  have st: "fst (?f s) = s\<lparr>ro_calls_done := insort_insert index (ro_calls_done s), ro_seq := ro_seq (fst (?f s))\<rparr>"
    using r by (simp add: close_tool_call_def step_simps)
  have "does rid ?f s (CallKey index) ?x"
    using r by (simp add: does_def close_tool_call_def step_simps event_reading stage_def held_keys flip: arguments_text_def)
  moreover have "held (fst (?f s)) = (held s)(CallKey index \<mapsto> ?x)"
    by (subst st, subst held_call [of index _ s]) (simp_all add: r stage_def arguments_text_def set_insort_insert map_simps)
  moreover have "well_kept (fst (?f s))"
    using w r by (subst st) (auto simp: well_kept_def message_text_def arguments_text_def set_insort_insert map_simps)
  moreover have "\<not> ro_completed (fst (?f s))" using r by (subst st) simp
  ultimately show "\<not> ro_completed s \<and> does rid ?f s (CallKey index) ?x
      \<and> held (fst (?f s)) = (held s)(CallKey index \<mapsto> ?x) \<and> well_kept (fst (?f s)) \<and> \<not> ro_completed (fst (?f s))"
    using r by simp
qed

section \<open>What a step does to the items\<close>

fun added :: "responses_out \<Rightarrow> item_key \<Rightarrow> bool" where
  "added s ReasoningKey = ro_reasoning_added s"
| "added s (MessageKey x) = (x \<in> set (ro_messages_added s))"
| "added s (CallKey x) = (x \<in> set (ro_calls_added s))"

fun ended :: "responses_out \<Rightarrow> item_key \<Rightarrow> bool" where
  "ended s ReasoningKey = ro_reasoning_done s"
| "ended s (MessageKey x) = (x \<in> set (ro_messages_done s))"
| "ended s (CallKey x) = (x \<in> set (ro_calls_done s))"

fun written :: "responses_out \<Rightarrow> item_key \<Rightarrow> string" where
  "written s ReasoningKey = ro_reasoning_buffer s"
| "written s (MessageKey x) = message_text s x"
| "written s (CallKey x) = arguments_text s x"

fun kind_of_key :: "item_key \<Rightarrow> output_kind" where
  "kind_of_key ReasoningKey = ReasoningItem"
| "kind_of_key (MessageKey x) = MessageItem"
| "kind_of_key (CallKey x) = CallItem"

lemma held_alt: "held s k = (if added s k
    then Some \<lparr>oi_kind = kind_of_key k, oi_text = written s k, oi_stage = stage (ended s k)\<rparr> else None)"
  by (cases k) (simp_all add: held.simps)

definition settled :: "responses_out \<Rightarrow> responses_out \<Rightarrow> bool" where
  "settled s s' \<longleftrightarrow> ro_completed s' = ro_completed s \<and> ro_response_id s' = ro_response_id s \<and> ro_started s' = ro_started s
     \<and> ro_created s' = ro_created s"

lemma settled_refl [simp]: "settled s s"
  by (simp add: settled_def)

lemma settled_trans: "settled s s1 \<Longrightarrow> settled s1 s2 \<Longrightarrow> settled s s2"
  by (simp add: settled_def)

lemma fst_after_step: "fst (after_step f g s) = fst (g (fst (f s)))"
  by (simp add: after_step_def split_beta)

lemmas effect_simps = fun_eq_iff settled_def after_step_def emit_response_def quietly_def Let_def set_insort_insert map_simps

lemma key_ext:
  "f ReasoningKey = g ReasoningKey \<Longrightarrow> (\<And>x. f (MessageKey x) = g (MessageKey x)) \<Longrightarrow> (\<And>x. f (CallKey x) = g (CallKey x)) \<Longrightarrow> f = g"
proof
  fix k assume "f ReasoningKey = g ReasoningKey" "\<And>x. f (MessageKey x) = g (MessageKey x)" "\<And>x. f (CallKey x) = g (CallKey x)"
  then show "f k = g k" by (cases k) simp_all
qed

definition effect ::
    "responses_step \<Rightarrow> responses_out \<Rightarrow> (item_key \<Rightarrow> bool) \<Rightarrow> (item_key \<Rightarrow> bool) \<Rightarrow> (item_key \<Rightarrow> string) \<Rightarrow> bool" where
  "effect f s A E W \<longleftrightarrow> settled s (fst (f s)) \<and> added (fst (f s)) = A \<and> ended (fst (f s)) = E \<and> written (fst (f s)) = W"

lemma effectI:
  assumes "settled s (fst (f s))" "\<And>k. added (fst (f s)) k = A k" "\<And>k. ended (fst (f s)) k = E k" "\<And>k. written (fst (f s)) k = W k"
  shows "effect f s A E W"
  using assms by (simp add: effect_def fun_eq_iff)

lemma effect_emit_reasoning_text:
  assumes "t \<noteq> []"
  shows "effect (emit_reasoning_text rid index t) s ((added s)(ReasoningKey := True)) (ended s)
    ((written s)(ReasoningKey := written s ReasoningKey @ t))"
  unfolding effect_def using assms
  by (intro conjI key_ext) (simp_all add: emit_reasoning_text_def start_reasoning_def effect_simps message_text_def arguments_text_def)

lemma effect_close_reasoning:
  "effect (close_reasoning rid index) s (added s)
     (if added s ReasoningKey then (ended s)(ReasoningKey := True) else ended s) (written s)"
  unfolding effect_def
  by (intro conjI key_ext) (simp_all add: close_reasoning_def effect_simps message_text_def arguments_text_def)

lemma effect_emit_text:
  "effect (emit_text rid index t) s ((added s)(MessageKey index := True)) (ended s)
    ((written s)(MessageKey index := written s (MessageKey index) @ t))"
  unfolding effect_def
  by (intro conjI key_ext) (simp_all add: emit_text_def effect_simps message_text_def arguments_text_def)

lemma effect_close_message:
  "effect (close_message rid index) s (added s)
     (if added s (MessageKey index) then (ended s)(MessageKey index := True) else ended s) (written s)"
  unfolding effect_def
  by (intro conjI key_ext) (simp_all add: close_message_def effect_simps message_text_def arguments_text_def)

lemma effect_add_call:
  "effect (add_call rid call) s ((added s)(CallKey (delta_index call) := True)) (ended s) (written s)"
  unfolding effect_def
  by (intro conjI key_ext) (simp_all add: add_call_def effect_simps message_text_def arguments_text_def)

lemma effect_emit_arguments:
  "effect (emit_arguments rid call) s (added s) (ended s)
    ((written s)(CallKey (delta_index call) := written s (CallKey (delta_index call)) @ delta_arguments call))"
  unfolding effect_def
  by (intro conjI key_ext) (simp_all add: emit_arguments_def effect_simps message_text_def arguments_text_def)

lemma effect_close_tool_call:
  "effect (close_tool_call parse_json rid index) s (added s) ((ended s)(CallKey index := True)) (written s)"
  unfolding effect_def
  by (intro conjI key_ext) (simp_all add: close_tool_call_def effect_simps message_text_def arguments_text_def)

lemma after_effect:
  assumes "effect f s A E W" "effect g (fst (f s)) A' E' W'"
  shows "effect (after_step f g) s A' E' W'"
  using assms by (auto simp: effect_def fst_after_step intro: settled_trans)

lemma effect_nothing: "effect (\<lambda>s. (s, [])) s (added s) (ended s) (written s)"
  by (simp add: effect_def)

lemma for_each_effect:
  assumes "\<And>x s. effect (f x) s (added s) (\<lambda>k. ended s k \<or> C x (added s) k) (written s)"
  shows "effect (for_each f xs) s (added s) (\<lambda>k. ended s k \<or> (\<exists>x \<in> set xs. C x (added s) k)) (written s)"
proof (induction xs arbitrary: s)
  case Nil
  then show ?case using effect_nothing by (simp add: effect_def)
next
  case (Cons x xs)
  have "effect (after_step (f x) (for_each f xs)) s (added s)
      (\<lambda>k. (ended s k \<or> C x (added s) k) \<or> (\<exists>y \<in> set xs. C y (added s) k)) (written s)"
    using after_effect [OF assms Cons.IH] assms [of x s] by (simp add: effect_def)
  then show ?case by (simp add: effect_def disj_ac)
qed

lemma for_each_reads:
  assumes "\<And>x. x \<in> set xs \<Longrightarrow> reads rid (f x) (P x)" "\<And>x s. x \<in> set xs \<Longrightarrow> I s \<Longrightarrow> P x s \<and> I (fst (f x s))"
    and "mirrors rid s v" "I s"
  shows "\<exists>v'. read_events (snd (for_each f xs s)) v = Some v' \<and> mirrors rid (fst (for_each f xs s)) v'"
  using assms
proof (induction xs arbitrary: s v)
  case (Cons x xs)
  have x: "P x s \<and> I (fst (f x s))" using Cons.prems(2) [of x] Cons.prems(4) by simp
  moreover have "reads rid (f x) (P x)" using Cons.prems(1) by simp
  ultimately obtain v1 where v1: "read_events (snd (f x s)) v = Some v1" "mirrors rid (fst (f x s)) v1"
    using Cons.prems(3) unfolding reads_def by (metis (full_types))
  have "\<exists>v'. read_events (snd (for_each f xs (fst (f x s)))) v1 = Some v' \<and> mirrors rid (fst (for_each f xs (fst (f x s)))) v'"
    by (rule Cons.IH [OF Cons.prems(1) Cons.prems(2) v1(2)]) (use x in auto)
  then show ?case using v1 by (auto simp: after_step_def split_beta read_events_append)
qed simp

text \<open>The end of the response: every item is closed, whatever was open.\<close>

lemma flush_reads:
  fixes parse_json :: "string \<Rightarrow> json option" and now :: nat
  assumes t: "mirrors rid s v" and rid: "ro_response_id s = Some rid" and go: "ro_started s" "\<not> ro_completed s"
  defines "f \<equiv> responses_flush parse_json now"
  shows "\<exists>v'. read_events (snd (f s)) v = Some v' \<and> mirrors rid (fst (f s)) v'"
    "ro_completed (fst (f s))" "added (fst (f s)) = added s" "written (fst (f s)) = written s"
    "\<And>k. added s k \<Longrightarrow> ended (fst (f s)) k" "ro_response_id (fst (f s)) = Some rid" "ro_started (fst (f s))"
proof -
  let ?m = "for_each (close_message rid) (ro_messages_added s)" and ?r = "close_reasoning rid 0"
  define s1 where "s1 = fst (?m s)"
  define s2 where "s2 = fst (?r s1)"
  let ?c = "for_each (close_tool_call parse_json rid) (ro_calls_added s2)"
  define s3 where "s3 = fst (?c s2)"
  let ?final = "after_step (quietly (\<lambda>s. s\<lparr>ro_completed := True\<rparr>)) (emit_response (ResponseCompleted rid (created_of now s)))"
  have f: "f s = after_step ?m (after_step ?r (after_step (\<lambda>s. for_each (close_tool_call parse_json rid) (ro_calls_added s) s) ?final)) s"
    using go rid by (simp add: f_def responses_flush_def response_id_of_def)
  have "effect (close_message rid x) s (added s) (\<lambda>k. ended s k \<or> (k = MessageKey x \<and> added s k)) (written s)" for x s
    using effect_close_message [of rid x s] by (auto simp: effect_def fun_eq_iff)
  from for_each_effect [where C = "\<lambda>x a k. k = MessageKey x \<and> a k", OF this]
  have e1: "effect ?m s (added s) (\<lambda>k. ended s k \<or> (\<exists>x \<in> set (ro_messages_added s). k = MessageKey x \<and> added s k)) (written s)" .
  have e2: "effect ?r s1 (added s1) (if added s1 ReasoningKey then (ended s1)(ReasoningKey := True) else ended s1) (written s1)"
    by (rule effect_close_reasoning)
  have "effect (close_tool_call parse_json rid x) s (added s) (\<lambda>k. ended s k \<or> k = CallKey x) (written s)" for x s
    using effect_close_tool_call [of parse_json rid x s] by (auto simp: effect_def fun_eq_iff)
  from for_each_effect [where C = "\<lambda>x a k. k = CallKey x", OF this]
  have e3: "effect ?c s2 (added s2) (\<lambda>k. ended s2 k \<or> (\<exists>x \<in> set (ro_calls_added s2). k = CallKey x)) (written s2)" .
  have ad: "added s3 = added s" "written s3 = written s" and set: "settled s s1" "settled s1 s2" "settled s2 s3"
    using e1 e2 e3 by (simp_all add: effect_def s1_def s2_def s3_def)
  have d: "added s2 = added s" "ended s1 k = (ended s k \<or> (\<exists>x \<in> set (ro_messages_added s). k = MessageKey x \<and> added s k))"
    "ended s2 k = (ended s1 k \<or> added s1 ReasoningKey \<and> k = ReasoningKey)"
    "ended s3 k = (ended s2 k \<or> (\<exists>x \<in> set (ro_calls_added s2). k = CallKey x))" "added s1 = added s" for k
    using e1 e2 e3 by (simp_all add: effect_def s1_def s2_def s3_def)
  have calls: "x \<in> set (ro_calls_added s2) \<longleftrightarrow> added s (CallKey x)" for x
    using d(1) by (metis added.simps(3))
  have en: "ended s3 k" if "added s k" for k
    using that by (cases k) (auto simp: d calls simp del: ended.simps)
  have c: "\<not> ro_completed s1" "\<not> ro_completed s2" "\<not> ro_completed s3" using go(2) set by (simp_all add: settled_def)
  obtain v1 where v1: "read_events (snd (?m s)) v = Some v1" "mirrors rid s1 v1"
  proof -
    have "\<exists>v1. read_events (snd (?m s)) v = Some v1 \<and> mirrors rid (fst (?m s)) v1"
    proof (rule for_each_reads [where I = "\<lambda>s. \<not> ro_completed s", OF reads_close_message _ t go(2)])
      show "(x \<notin> set (ro_messages_added s') \<or> x \<in> set (ro_messages_done s') \<or> \<not> ro_completed s')
          \<and> \<not> ro_completed (fst (close_message rid x s'))" if "\<not> ro_completed s'" for x s'
        using that effect_close_message [of rid x s'] by (simp add: effect_def settled_def)
    qed
    then show ?thesis using that unfolding s1_def by blast
  qed
  obtain v2 where v2: "read_events (snd (?r s1)) v1 = Some v2" "mirrors rid s2 v2"
    using readsD(1) [OF reads_close_reasoning v1(2), of 0] c(1) unfolding s2_def by blast
  have "\<exists>v3. read_events (snd (?c s2)) v2 = Some v3 \<and> mirrors rid (fst (?c s2)) v3"
  proof (rule for_each_reads [where I = "\<lambda>s. \<not> ro_completed s \<and> added s = added s2", OF reads_close_tool_call _ v2(2)])
    fix x s' assume x: "x \<in> set (ro_calls_added s2)" and i: "\<not> ro_completed s' \<and> added s' = added s2"
    then have "x \<in> set (ro_calls_added s')" using x by (metis added.simps(3))
    then show "(x \<in> set (ro_calls_done s') \<or> \<not> ro_completed s' \<and> x \<in> set (ro_calls_added s'))
      \<and> \<not> ro_completed (fst (close_tool_call parse_json rid x s')) \<and> added (fst (close_tool_call parse_json rid x s')) = added s2"
      using i effect_close_tool_call [of parse_json rid x s'] by (simp add: effect_def settled_def)
  qed (use c in simp)
  then obtain v3 where v3: "read_events (snd (?c s2)) v2 = Some v3" "mirrors rid s3 v3" unfolding s3_def by blast
  let ?s4 = "fst (?final s3)" and ?v4 = "v3\<lparr>rv_seq := next_seq v3, rv_phase := Completed\<rparr>"
  have s4: "?s4 = s3\<lparr>ro_completed := True, ro_seq := wadd64 (ro_seq s3) 1\<rparr>"
    and e4: "snd (?final s3) = [(wadd64 (ro_seq s3) 1, ResponseCompleted rid (created_of now s))]"
    by (simp_all add: step_simps)
  have it: "items_of rid v3 = held s3" "proper rid v3" "rv_seq v3 = ro_seq s3" "rv_phase v3 = Streaming"
    using v3(2) c(3) by (simp_all add: mirrors_def)
  have "all_closed (v3\<lparr>rv_seq := n\<rparr>)" for n
    using closed_items [of rid "v3\<lparr>rv_seq := n\<rparr>"] it(1,2) en ad(1) by (simp add: held_alt stage_def split: if_splits)
  then have "read_events (snd (?final s3)) v3 = Some ?v4"
    using it(3,4) by (simp add: e4 read_events.simps(2))
  moreover have "held ?s4 = held s3" unfolding s4 by (rule held_cong) simp_all
  then have "mirrors rid ?s4 ?v4"
    using v3(2) it unfolding mirrors_def by (simp add: s4 well_kept_def message_text_def arguments_text_def)
  moreover have fs: "fst (f s) = ?s4" "snd (f s) = snd (?m s) @ snd (?r s1) @ snd (?c s2) @ snd (?final s3)"
    unfolding f by (simp_all add: after_step_def split_beta s1_def s2_def s3_def)
  ultimately show "\<exists>v'. read_events (snd (f s)) v = Some v' \<and> mirrors rid (fst (f s)) v'"
    using v1(1) v2(1) v3(1) by (simp add: read_events_append)
  have "added ?s4 = added s3" "written ?s4 = written s3" "ended ?s4 = ended s3"
    unfolding s4 by (intro key_ext; simp add: message_text_def arguments_text_def)+
  then show "added (fst (f s)) = added s" "written (fst (f s)) = written s" "\<And>k. added s k \<Longrightarrow> ended (fst (f s)) k"
    using ad en by (simp_all add: fs)
  show "ro_completed (fst (f s))" "ro_response_id (fst (f s)) = Some rid" "ro_started (fst (f s))"
    using set rid go unfolding fs s4 by (simp_all add: settled_def)
qed

section \<open>Streams a client understands\<close>

text \<open>
  What matters of the chunks read so far: whether there was reasoning and text ended it, whether the
  first message was begun and a tool call ended it, the calls begun, and whether the stream is over.
\<close>

record stream_progress =
  sp_reasoning :: bool
  sp_reasoned :: bool
  sp_spoken :: bool
  sp_spoken_over :: bool
  sp_calls :: "nat list"
  sp_finished :: bool

definition progress_new :: stream_progress where
  "progress_new = \<lparr>sp_reasoning = False, sp_reasoned = False, sp_spoken = False, sp_spoken_over = False,
     sp_calls = [], sp_finished = False\<rparr>"

definition chunk_orderly :: "stream_progress \<Rightarrow> json \<Rightarrow> bool" where
  "chunk_orderly p c \<longleftrightarrow>
     (chunk_reasoning c = [] \<or> \<not> sp_finished p \<and> \<not> sp_reasoned p)
   \<and> (chunk_text c = [] \<or> \<not> sp_finished p \<and> (chunk_index c \<noteq> 0 \<or> \<not> sp_spoken_over p))
   \<and> (\<not> sp_finished p \<or> list_all (\<lambda>d. delta_index d \<in> set (sp_calls p) \<and> delta_arguments d = []) (chunk_calls c))"

definition advance :: "stream_progress \<Rightarrow> json \<Rightarrow> stream_progress" where
  "advance p c =
     (let reasoning = sp_reasoning p \<or> chunk_reasoning c \<noteq> [];
          spoken = sp_spoken p \<or> chunk_text c \<noteq> [] \<and> chunk_index c = 0;
          indices = map delta_index (chunk_calls c)
      in p\<lparr>sp_reasoning := reasoning,
           sp_reasoned := sp_reasoned p \<or> reasoning \<and> chunk_text c \<noteq> [],
           sp_spoken := spoken,
           sp_spoken_over := sp_spoken_over p \<or> spoken \<and> \<not> set indices \<subseteq> set (sp_calls p),
           sp_calls := sp_calls p @ indices,
           sp_finished := sp_finished p \<or> opt_default [] (chunk_finish c) \<noteq> []\<rparr>)"

fun orderly :: "stream_progress \<Rightarrow> json list \<Rightarrow> bool" where
  "orderly p [] = True"
| "orderly p (c # cs) = (chunk_orderly p c \<and> orderly (advance p c) cs)"

text \<open>What the chunks say for an item, piece by piece.\<close>

fun chunk_says :: "json \<Rightarrow> item_key \<Rightarrow> string list" where
  "chunk_says c ReasoningKey = (if chunk_reasoning c = [] then [] else [chunk_reasoning c])"
| "chunk_says c (MessageKey x) = (if chunk_text c = [] \<or> chunk_index c \<noteq> x then [] else [chunk_text c])"
| "chunk_says c (CallKey x) = map delta_arguments (filter (\<lambda>d. delta_index d = x) (chunk_calls c))"

definition spoken_for :: "json list \<Rightarrow> item_key \<Rightarrow> string list" where
  "spoken_for cs k = concat (map (\<lambda>c. chunk_says c k) cs)"

text \<open>The items grow by what is said.\<close>

definition grown :: "responses_out \<Rightarrow> responses_out \<Rightarrow> (item_key \<Rightarrow> string list) \<Rightarrow> bool" where
  "grown s s' L \<longleftrightarrow> (\<forall>k. (added s' k \<longleftrightarrow> added s k \<or> L k \<noteq> []) \<and> written s' k = written s k @ concat (L k))"

lemma grown_nothing: "added s' = added s \<Longrightarrow> written s' = written s \<Longrightarrow> grown s s' (\<lambda>k. [])"
  by (simp add: grown_def)

lemma grown_trans: "grown s s1 L \<Longrightarrow> grown s1 s2 L' \<Longrightarrow> grown s s2 (\<lambda>k. L k @ L' k)"
  by (auto simp: grown_def)

text \<open>The progress and the state say the same.\<close>

definition matched :: "stream_progress \<Rightarrow> responses_out \<Rightarrow> bool" where
  "matched p s \<longleftrightarrow> sp_finished p = ro_completed s \<and> (\<forall>x. x \<in> set (sp_calls p) \<longleftrightarrow> added s (CallKey x))
     \<and> (if ro_completed s then \<forall>k. added s k \<longrightarrow> ended s k
        else sp_reasoning p = added s ReasoningKey \<and> sp_reasoned p = ended s ReasoningKey
           \<and> sp_spoken p = added s (MessageKey 0) \<and> sp_spoken_over p = ended s (MessageKey 0)
           \<and> (\<forall>x. x \<noteq> 0 \<longrightarrow> \<not> ended s (MessageKey x)) \<and> (\<forall>x. \<not> ended s (CallKey x)))"

section \<open>Tool calls of a chunk\<close>

lemmas by_key = added.simps [symmetric] ended.simps [symmetric]

declare added.simps [simp del] ended.simps [simp del] written.simps [simp del]

text \<open>The first call of an index ends the first message.\<close>

definition end_message :: "string \<Rightarrow> json \<Rightarrow> responses_step" where
  "end_message rid call s = (if added s (CallKey (delta_index call)) then (s, []) else close_message rid 0 s)"

definition take_call :: "string \<Rightarrow> json \<Rightarrow> responses_step" where
  "take_call rid call = after_step (open_call rid call) (emit_arguments rid call)"

lemma open_call_parts: "open_call rid call = after_step (end_message rid call) (add_call rid call)"
  by (rule ext) (simp add: open_call_split end_message_def [abs_def] added.simps)

lemma effect_end_message:
  "effect (end_message rid call) s (added s)
     (\<lambda>k. ended s k \<or> k = MessageKey 0 \<and> added s (MessageKey 0) \<and> \<not> added s (CallKey (delta_index call))) (written s)"
  using effect_close_message [of rid 0 s] by (auto simp: effect_def fun_eq_iff end_message_def)

lemma effect_open_call:
  "effect (open_call rid call) s ((added s)(CallKey (delta_index call) := True))
     (\<lambda>k. ended s k \<or> k = MessageKey 0 \<and> added s (MessageKey 0) \<and> \<not> added s (CallKey (delta_index call))) (written s)"
  unfolding open_call_parts
  by (rule after_effect [OF effect_end_message])
    (use effect_add_call [of rid call "fst (end_message rid call s)"] effect_end_message [of rid call s] in \<open>simp add: effect_def\<close>)

lemma effect_take_call:
  "effect (take_call rid call) s ((added s)(CallKey (delta_index call) := True))
     (\<lambda>k. ended s k \<or> k = MessageKey 0 \<and> added s (MessageKey 0) \<and> \<not> added s (CallKey (delta_index call)))
     ((written s)(CallKey (delta_index call) := written s (CallKey (delta_index call)) @ delta_arguments call))"
  unfolding take_call_def
  by (rule after_effect [OF effect_open_call])
    (use effect_emit_arguments [of rid call "fst (open_call rid call s)"] effect_open_call [of rid call s] in \<open>simp add: effect_def\<close>)

lemma reads_end_message:
  "reads rid (end_message rid call) (\<lambda>s. added s (CallKey (delta_index call)) \<or> \<not> added s (MessageKey 0)
     \<or> ended s (MessageKey 0) \<or> \<not> ro_completed s)"
  unfolding reads_def
proof (intro allI impI)
  fix s v assume t: "mirrors rid s v"
  show "if added s (CallKey (delta_index call)) \<or> \<not> added s (MessageKey 0) \<or> ended s (MessageKey 0) \<or> \<not> ro_completed s
      then \<exists>v'. read_events (snd (end_message rid call s)) v = Some v' \<and> mirrors rid (fst (end_message rid call s)) v'
      else read_events (snd (end_message rid call s)) v = None"
    using t readsD [OF reads_close_message [of rid 0] t]
    by (cases "added s (CallKey (delta_index call))") (simp_all add: end_message_def by_key)
qed

lemma reads_take_call:
  assumes t: "mirrors rid s v" and c: "ro_completed s \<Longrightarrow> \<forall>k. added s k \<longrightarrow> ended s k"
    and o: "\<not> ro_completed s \<Longrightarrow> \<forall>x. \<not> ended s (CallKey x)"
  shows "if ro_completed s \<longrightarrow> added s (CallKey (delta_index call)) \<and> delta_arguments call = []
    then \<exists>v'. read_events (snd (take_call rid call s)) v = Some v' \<and> mirrors rid (fst (take_call rid call s)) v'
    else read_events (snd (take_call rid call s)) v = None"
proof -
  let ?i = "delta_index call"
  have "reads rid (open_call rid call) (\<lambda>s. (added s (CallKey ?i) \<or> \<not> added s (MessageKey 0) \<or> ended s (MessageKey 0) \<or> \<not> ro_completed s)
      \<and> (?i \<in> set (ro_calls_added (fst (end_message rid call s))) \<or> \<not> ro_completed (fst (end_message rid call s))))"
    unfolding open_call_parts by (rule reads_after [OF reads_end_message reads_add_call])
  then have r: "reads rid (take_call rid call) (\<lambda>s. ((added s (CallKey ?i) \<or> \<not> added s (MessageKey 0) \<or> ended s (MessageKey 0) \<or> \<not> ro_completed s)
      \<and> (?i \<in> set (ro_calls_added (fst (end_message rid call s))) \<or> \<not> ro_completed (fst (end_message rid call s))))
      \<and> (delta_arguments call = [] \<or> \<not> ro_completed (fst (open_call rid call s))
         \<and> ?i \<in> set (ro_calls_added (fst (open_call rid call s))) \<and> ?i \<notin> set (ro_calls_done (fst (open_call rid call s)))))"
    unfolding take_call_def by (rule reads_after [OF _ reads_emit_arguments])
  have e: "added (fst (end_message rid call s)) = added s" "ro_completed (fst (end_message rid call s)) = ro_completed s"
    "added (fst (open_call rid call s)) (CallKey ?i)" "ended (fst (open_call rid call s)) (CallKey ?i) = ended s (CallKey ?i)"
    "ro_completed (fst (open_call rid call s)) = ro_completed s"
    using effect_end_message [of rid call s] effect_open_call [of rid call s] by (simp_all add: effect_def settled_def)
  show ?thesis using readsD [OF r t] c o e by (cases "ro_completed s") (auto simp: by_key)
qed

lemma emit_tool_calls_alt: "emit_tool_calls rid cs = for_each (take_call rid) cs"
  by (simp add: emit_tool_calls_def take_call_def [abs_def])

lemma effect_emit_tool_calls:
  "effect (emit_tool_calls rid cs) s (\<lambda>k. added s k \<or> (\<exists>d \<in> set cs. k = CallKey (delta_index d)))
     (\<lambda>k. ended s k \<or> k = MessageKey 0 \<and> added s (MessageKey 0) \<and> (\<exists>d \<in> set cs. \<not> added s (CallKey (delta_index d))))
     (\<lambda>k. written s k @ (case k of CallKey x \<Rightarrow> concat (map delta_arguments (filter (\<lambda>d. delta_index d = x) cs)) | _ \<Rightarrow> []))"
  unfolding emit_tool_calls_alt
proof (induction cs arbitrary: s)
  case Nil
  show ?case by (auto simp: effect_def fun_eq_iff split: item_key.split)
next
  case (Cons d cs)
  have f: "for_each (take_call rid) (d # cs) = after_step (take_call rid d) (for_each (take_call rid) cs)"
    by (rule ext) simp
  let ?s = "fst (take_call rid d s)"
  let ?s' = "fst (for_each (take_call rid) cs ?s)"
  have e: "added ?s = (added s)(CallKey (delta_index d) := True)"
    "ended ?s = (\<lambda>k. ended s k \<or> k = MessageKey 0 \<and> added s (MessageKey 0) \<and> \<not> added s (CallKey (delta_index d)))"
    "written ?s = (written s)(CallKey (delta_index d) := written s (CallKey (delta_index d)) @ delta_arguments d)"
    using effect_take_call [of rid d s] by (simp_all add: effect_def)
  have ih: "settled ?s ?s'" "added ?s' k = (added ?s k \<or> (\<exists>d \<in> set cs. k = CallKey (delta_index d)))"
    "ended ?s' k = (ended ?s k \<or> k = MessageKey 0 \<and> added ?s (MessageKey 0) \<and> (\<exists>d \<in> set cs. \<not> added ?s (CallKey (delta_index d))))"
    "written ?s' k = written ?s k @ (case k of CallKey x \<Rightarrow> concat (map delta_arguments (filter (\<lambda>d. delta_index d = x) cs)) | _ \<Rightarrow> [])"
    for k using Cons.IH [of ?s] by (simp_all add: effect_def)
  have new: "(\<exists>x \<in> set cs. \<not> added ?s (CallKey (delta_index x))) \<or> \<not> added s (CallKey (delta_index d))
      \<longleftrightarrow> (\<exists>x \<in> set (d # cs). \<not> added s (CallKey (delta_index x)))"
    unfolding e by (auto split: if_splits) metis
  show ?case unfolding f
  proof (rule after_effect [OF effect_take_call], rule effectI)
    show "settled ?s ?s'" by (rule ih)
    show "added ?s' k = (added s k \<or> (\<exists>x \<in> set (d # cs). k = CallKey (delta_index x)))" for k
      unfolding ih(2) by (auto simp: e)
    show "ended ?s' k = (ended s k \<or> k = MessageKey 0 \<and> added s (MessageKey 0) \<and> (\<exists>x \<in> set (d # cs). \<not> added s (CallKey (delta_index x))))" for k
      unfolding ih(3) using new by (auto simp: e(2) e(1) simp del: fun_upd_apply) (auto simp: e)
    show "written ?s' k = written s k @ (case k of CallKey x \<Rightarrow> concat (map delta_arguments (filter (\<lambda>d. delta_index d = x) (d # cs))) | _ \<Rightarrow> [])" for k
      unfolding ih(4) by (auto simp: e split: item_key.split)
  qed
qed

lemma emit_tool_calls_read:
  assumes "mirrors rid s v" "ro_completed s \<Longrightarrow> \<forall>k. added s k \<longrightarrow> ended s k" "\<not> ro_completed s \<Longrightarrow> \<forall>x. \<not> ended s (CallKey x)"
  shows "if ro_completed s \<longrightarrow> list_all (\<lambda>d. added s (CallKey (delta_index d)) \<and> delta_arguments d = []) cs
    then \<exists>v'. read_events (snd (emit_tool_calls rid cs s)) v = Some v' \<and> mirrors rid (fst (emit_tool_calls rid cs s)) v'
    else read_events (snd (emit_tool_calls rid cs s)) v = None"
  unfolding emit_tool_calls_alt using assms
proof (induction cs arbitrary: s v)
  case (Cons d cs)
  let ?s = "fst (take_call rid d s)"
  have e: "settled s ?s" "added ?s = (added s)(CallKey (delta_index d) := True)"
    "ended ?s = (\<lambda>k. ended s k \<or> k = MessageKey 0 \<and> added s (MessageKey 0) \<and> \<not> added s (CallKey (delta_index d)))"
    using effect_take_call [of rid d s] by (simp_all add: effect_def)
  have comp: "ro_completed ?s = ro_completed s" using e(1) by (simp add: settled_def)
  have t: "snd (for_each (take_call rid) (d # cs) s) = snd (take_call rid d s) @ snd (for_each (take_call rid) cs ?s)"
    "fst (for_each (take_call rid) (d # cs) s) = fst (for_each (take_call rid) cs ?s)"
    by (simp_all add: after_step_def split_beta)
  have first: "if ro_completed s \<longrightarrow> added s (CallKey (delta_index d)) \<and> delta_arguments d = []
    then \<exists>v'. read_events (snd (take_call rid d s)) v = Some v' \<and> mirrors rid ?s v'
    else read_events (snd (take_call rid d s)) v = None"
    by (rule reads_take_call [OF Cons.prems])
  show ?case
  proof (cases "ro_completed s \<longrightarrow> added s (CallKey (delta_index d)) \<and> delta_arguments d = []")
    case False
    then have "read_events (snd (take_call rid d s)) v = None" using first by argo
    then show ?thesis unfolding t using False by (auto simp: read_events_append)
  next
    case True
    then obtain v1 where v1: "read_events (snd (take_call rid d s)) v = Some v1" "mirrors rid ?s v1" using first by auto
    have same: "ro_completed s \<Longrightarrow> added ?s = added s" using True e(2) by (simp add: fun_upd_idem)
    have rest: "if ro_completed ?s \<longrightarrow> list_all (\<lambda>d. added ?s (CallKey (delta_index d)) \<and> delta_arguments d = []) cs
      then \<exists>v'. read_events (snd (for_each (take_call rid) cs ?s)) v1 = Some v' \<and> mirrors rid (fst (for_each (take_call rid) cs ?s)) v'
      else read_events (snd (for_each (take_call rid) cs ?s)) v1 = None"
      by (rule Cons.IH [OF v1(2)]) (use Cons.prems(2,3) comp same e(3) in auto)
    show ?thesis unfolding t using rest True v1 same
      by (cases "ro_completed s") (simp_all add: read_events_append comp)
  qed
qed simp

section \<open>A chunk\<close>

definition text_step :: "string \<Rightarrow> nat \<Rightarrow> string \<Rightarrow> responses_step" where
  "text_step rid index t s =
     (if t = [] then (s, []) else after_step (close_reasoning rid index) (emit_text rid index t) s)"

lemma effect_text_step:
  "effect (text_step rid index t) s (\<lambda>k. added s k \<or> t \<noteq> [] \<and> k = MessageKey index)
     (\<lambda>k. ended s k \<or> t \<noteq> [] \<and> k = ReasoningKey \<and> added s ReasoningKey)
     (\<lambda>k. written s k @ (if k = MessageKey index then t else []))"
proof (cases "t = []")
  case True
  then show ?thesis by (simp add: text_step_def effect_def cong: if_cong)
next
  case False
  let ?s = "fst (close_reasoning rid index s)"
  have c: "effect (close_reasoning rid index) s (added s)
      (if added s ReasoningKey then (ended s)(ReasoningKey := True) else ended s) (written s)" by (rule effect_close_reasoning)
  have f: "text_step rid index t = after_step (close_reasoning rid index) (emit_text rid index t)"
    using False by (simp add: text_step_def fun_eq_iff)
  show ?thesis unfolding f
  proof (rule after_effect [OF c], rule effectI)
    have e: "effect (emit_text rid index t) ?s ((added ?s)(MessageKey index := True)) (ended ?s)
      ((written ?s)(MessageKey index := written ?s (MessageKey index) @ t))" by (rule effect_emit_text)
    show "settled ?s (fst (emit_text rid index t ?s))" using e by (simp add: effect_def)
    show "added (fst (emit_text rid index t ?s)) k = (added s k \<or> t \<noteq> [] \<and> k = MessageKey index)" for k
      using e c False by (auto simp: effect_def)
    show "ended (fst (emit_text rid index t ?s)) k = (ended s k \<or> t \<noteq> [] \<and> k = ReasoningKey \<and> added s ReasoningKey)" for k
      using e c False by (auto simp: effect_def)
    show "written (fst (emit_text rid index t ?s)) k = written s k @ (if k = MessageKey index then t else [])" for k
      using e c False by (auto simp: effect_def)
  qed
qed

lemma text_step_read:
  assumes "mirrors rid s v" "ro_completed s \<Longrightarrow> \<forall>k. added s k \<longrightarrow> ended s k"
  shows "if t = [] \<or> \<not> ro_completed s \<and> \<not> ended s (MessageKey index)
    then \<exists>v'. read_events (snd (text_step rid index t s)) v = Some v' \<and> mirrors rid (fst (text_step rid index t s)) v'
    else read_events (snd (text_step rid index t s)) v = None"
proof (cases "t = []")
  case True
  then show ?thesis using assms(1) by (simp add: text_step_def)
next
  case False
  have f: "text_step rid index t = after_step (close_reasoning rid index) (emit_text rid index t)"
    using False by (simp add: text_step_def fun_eq_iff)
  have r: "reads rid (text_step rid index t) (\<lambda>s. (\<not> ro_reasoning_added s \<or> ro_reasoning_done s \<or> \<not> ro_completed s)
      \<and> (\<not> ro_completed (fst (close_reasoning rid index s)) \<and> index \<notin> set (ro_messages_done (fst (close_reasoning rid index s)))))"
    unfolding f by (rule reads_after [OF reads_close_reasoning reads_emit_text])
  have "ro_completed (fst (close_reasoning rid index s)) = ro_completed s"
    "ended (fst (close_reasoning rid index s)) (MessageKey index) = ended s (MessageKey index)"
    using effect_close_reasoning [of rid index s] by (auto simp: effect_def settled_def)
  then show ?thesis using readsD [OF r assms(1)] assms(2) False by (cases "ro_completed s") (auto simp: by_key)
qed

lemma effect_reasoning:
  "effect (emit_reasoning_text rid index t) s (\<lambda>k. added s k \<or> t \<noteq> [] \<and> k = ReasoningKey) (ended s)
     (\<lambda>k. written s k @ (if k = ReasoningKey then t else []))"
proof (cases "t = []")
  case True
  then show ?thesis by (simp add: emit_reasoning_text_def effect_def cong: if_cong)
next
  case False
  then show ?thesis using effect_emit_reasoning_text [of t rid index s] by (auto simp: effect_def fun_eq_iff)
qed

definition finish_step :: "(string \<Rightarrow> json option) \<Rightarrow> nat \<Rightarrow> json \<Rightarrow> responses_step" where
  "finish_step parse_json now c s =
     (if opt_default [] (chunk_finish c) = [] then (s, []) else responses_flush parse_json now s)"

definition chunk_step :: "(string \<Rightarrow> json option) \<Rightarrow> nat \<Rightarrow> string \<Rightarrow> json \<Rightarrow> responses_step" where
  "chunk_step parse_json now rid c =
     after_step (emit_reasoning_text rid (chunk_index c) (chunk_reasoning c))
       (after_step (text_step rid (chunk_index c) (chunk_text c))
         (after_step (emit_tool_calls rid (chunk_calls c)) (finish_step parse_json now c)))"

lemma responses_events_alt:
  "responses_events parse_json now c s =
     (if first_choice c = None then (s, [])
      else let s0 = identify now c s; rid = response_id_of now s0
           in after_step (start_response rid (created_of now s0)) (chunk_step parse_json now rid c) s0)"
  by (simp add: responses_events_def chunk_step_def finish_step_def [abs_def] text_step_def [abs_def] Let_def)

text \<open>What a chunk does before the end of the stream is looked at.\<close>

definition said_step :: "string \<Rightarrow> json \<Rightarrow> responses_step" where
  "said_step rid c = after_step (emit_reasoning_text rid (chunk_index c) (chunk_reasoning c))
     (after_step (text_step rid (chunk_index c) (chunk_text c)) (emit_tool_calls rid (chunk_calls c)))"

lemma steps_assoc: "after_step (after_step f g) h = after_step f (after_step g h)"
  by (simp add: after_step_def fun_eq_iff split_beta)

lemma chunk_step_alt: "chunk_step parse_json now rid c = after_step (said_step rid c) (finish_step parse_json now c)"
  by (simp add: chunk_step_def said_step_def steps_assoc)

lemma effect_said_step:
  fixes c :: json and s :: responses_out
  defines "text \<equiv> chunk_text c" and "index \<equiv> chunk_index c" and "reasoning \<equiv> chunk_reasoning c"
    and "calls \<equiv> chunk_calls c"
  defines "spoken \<equiv> added s (MessageKey 0) \<or> text \<noteq> [] \<and> index = 0"
  shows "effect (said_step rid c) s
     (\<lambda>k. added s k \<or> chunk_says c k \<noteq> [])
     (\<lambda>k. ended s k \<or> k = ReasoningKey \<and> text \<noteq> [] \<and> (added s ReasoningKey \<or> reasoning \<noteq> [])
        \<or> k = MessageKey 0 \<and> spoken \<and> (\<exists>d \<in> set calls. \<not> added s (CallKey (delta_index d))))
     (\<lambda>k. written s k @ concat (chunk_says c k))"
proof -
  let ?r = "emit_reasoning_text rid index reasoning" and ?t = "text_step rid index text" and ?c = "emit_tool_calls rid calls"
  define s1 where "s1 = fst (?r s)"
  define s2 where "s2 = fst (?t s1)"
  have e1: "effect ?r s (\<lambda>k. added s k \<or> reasoning \<noteq> [] \<and> k = ReasoningKey) (ended s)
      (\<lambda>k. written s k @ (if k = ReasoningKey then reasoning else []))" by (rule effect_reasoning)
  have e2: "effect ?t s1 (\<lambda>k. added s1 k \<or> text \<noteq> [] \<and> k = MessageKey index)
     (\<lambda>k. ended s1 k \<or> text \<noteq> [] \<and> k = ReasoningKey \<and> added s1 ReasoningKey)
     (\<lambda>k. written s1 k @ (if k = MessageKey index then text else []))" by (rule effect_text_step)
  have e3: "effect ?c s2 (\<lambda>k. added s2 k \<or> (\<exists>d \<in> set calls. k = CallKey (delta_index d)))
     (\<lambda>k. ended s2 k \<or> k = MessageKey 0 \<and> added s2 (MessageKey 0) \<and> (\<exists>d \<in> set calls. \<not> added s2 (CallKey (delta_index d))))
     (\<lambda>k. written s2 k @ (case k of CallKey x \<Rightarrow> concat (map delta_arguments (filter (\<lambda>d. delta_index d = x) calls)) | _ \<Rightarrow> []))"
    by (rule effect_emit_tool_calls)
  have s1: "added s1 k = (added s k \<or> reasoning \<noteq> [] \<and> k = ReasoningKey)" "ended s1 k = ended s k"
    "written s1 k = written s k @ (if k = ReasoningKey then reasoning else [])" for k
    using e1 by (simp_all add: effect_def s1_def)
  have s2: "added s2 k = (added s1 k \<or> text \<noteq> [] \<and> k = MessageKey index)"
    "ended s2 k = (ended s1 k \<or> text \<noteq> [] \<and> k = ReasoningKey \<and> added s1 ReasoningKey)"
    "written s2 k = written s1 k @ (if k = MessageKey index then text else [])" for k
    using e2 by (simp_all add: effect_def s2_def)
  have says: "chunk_says c ReasoningKey = (if reasoning = [] then [] else [reasoning])"
    "chunk_says c (MessageKey x) = (if text = [] \<or> index \<noteq> x then [] else [text])"
    "chunk_says c (CallKey x) = map delta_arguments (filter (\<lambda>d. delta_index d = x) calls)" for x
    by (simp_all add: reasoning_def text_def index_def calls_def)
  have set: "settled s s1" "settled s1 s2" "settled s2 (fst (?c s2))"
    using e1 e2 e3 by (simp_all add: effect_def s1_def s2_def)
  have fst: "fst (said_step rid c s) = fst (?c s2)"
    by (simp add: said_step_def fst_after_step s1_def s2_def index_def reasoning_def text_def calls_def)
  have ad: "added (fst (?c s2)) k = (added s k \<or> chunk_says c k \<noteq> [])" for k
    using e3 by (cases k) (auto simp: effect_def s1 s2 says filter_empty_conv simp del: chunk_says.simps)
  have wr: "written (fst (?c s2)) k = written s k @ concat (chunk_says c k)" for k
    using e3 by (cases k) (auto simp: effect_def s1 s2 says simp del: chunk_says.simps)
  have en: "ended (fst (?c s2)) k = (ended s k \<or> k = ReasoningKey \<and> text \<noteq> [] \<and> (added s ReasoningKey \<or> reasoning \<noteq> [])
        \<or> k = MessageKey 0 \<and> spoken \<and> (\<exists>d \<in> set calls. \<not> added s (CallKey (delta_index d))))" for k
    using e3 by (cases k) (auto simp: effect_def s1 s2 spoken_def)
  show ?thesis
  proof (rule effectI)
    show "settled s (fst (said_step rid c s))" unfolding fst using set settled_trans by blast
  qed (simp_all add: fst ad wr en)
qed

lemma said_step_read:
  assumes t: "mirrors rid s v" and m: "matched p s"
  shows "if chunk_orderly p c
    then \<exists>v'. read_events (snd (said_step rid c s)) v = Some v' \<and> mirrors rid (fst (said_step rid c s)) v'
    else read_events (snd (said_step rid c s)) v = None"
proof -
  let ?r = "emit_reasoning_text rid (chunk_index c) (chunk_reasoning c)" and ?t = "text_step rid (chunk_index c) (chunk_text c)"
    and ?c = "emit_tool_calls rid (chunk_calls c)"
  let ?s1 = "fst (?r s)"
  let ?s2 = "fst (?t ?s1)"
  have e1: "effect ?r s (\<lambda>k. added s k \<or> chunk_reasoning c \<noteq> [] \<and> k = ReasoningKey) (ended s)
      (\<lambda>k. written s k @ (if k = ReasoningKey then chunk_reasoning c else []))" by (rule effect_reasoning)
  have e2: "effect ?t ?s1 (\<lambda>k. added ?s1 k \<or> chunk_text c \<noteq> [] \<and> k = MessageKey (chunk_index c))
     (\<lambda>k. ended ?s1 k \<or> chunk_text c \<noteq> [] \<and> k = ReasoningKey \<and> added ?s1 ReasoningKey)
     (\<lambda>k. written ?s1 k @ (if k = MessageKey (chunk_index c) then chunk_text c else []))" by (rule effect_text_step)
  have s1: "ro_completed ?s1 = ro_completed s" "added ?s1 k = (added s k \<or> chunk_reasoning c \<noteq> [] \<and> k = ReasoningKey)"
    "ended ?s1 = ended s" for k using e1 by (simp_all add: effect_def settled_def)
  have s2: "ro_completed ?s2 = ro_completed s" "added ?s2 k = (added ?s1 k \<or> chunk_text c \<noteq> [] \<and> k = MessageKey (chunk_index c))"
    "ended ?s2 (CallKey x) = ended s (CallKey x)" "ended s k \<Longrightarrow> ended ?s2 k" for k x
    using e2 s1 by (simp_all add: effect_def settled_def)
  have out: "snd (said_step rid c s) = snd (?r s) @ snd (?t ?s1) @ snd (?c ?s2)" "fst (said_step rid c s) = fst (?c ?s2)"
    by (simp_all add: said_step_def after_step_def split_beta)
  have r: "if chunk_reasoning c = [] \<or> \<not> ro_completed s \<and> \<not> ended s ReasoningKey
      then \<exists>v'. read_events (snd (?r s)) v = Some v' \<and> mirrors rid ?s1 v' else read_events (snd (?r s)) v = None"
    using readsD [OF reads_emit_reasoning_text t] by (simp add: by_key)
  have fin: "sp_finished p = ro_completed s" "x \<in> set (sp_calls p) \<longleftrightarrow> added s (CallKey x)"
    "\<not> ro_completed s \<Longrightarrow> sp_reasoned p = ended s ReasoningKey"
    "\<not> ro_completed s \<Longrightarrow> ended s (MessageKey x) \<longleftrightarrow> x = 0 \<and> sp_spoken_over p" for x
    using m by (cases "x = 0"; simp add: matched_def)+
  show ?thesis
  proof (cases "chunk_reasoning c = [] \<or> \<not> ro_completed s \<and> \<not> ended s ReasoningKey")
    case False
    then have "\<not> chunk_orderly p c" using fin by (auto simp: chunk_orderly_def)
    moreover have "read_events (snd (?r s)) v = None" using r False by argo
    ultimately show ?thesis by (simp add: out read_events_append)
  next
    case R: True
    then obtain v1 where v1: "read_events (snd (?r s)) v = Some v1" "mirrors rid ?s1 v1" using r by auto
    have done1: "\<forall>k. added ?s1 k \<longrightarrow> ended ?s1 k" if "ro_completed ?s1"
    proof -
      have c: "ro_completed s" using that s1(1) by simp
      then have "added ?s1 k = added s k" for k using R unfolding s1(2) by simp
      moreover have "\<forall>k. added s k \<longrightarrow> ended s k" using m c by (simp add: matched_def)
      ultimately show ?thesis by (simp add: s1(3))
    qed
    have t2: "if chunk_text c = [] \<or> \<not> ro_completed ?s1 \<and> \<not> ended ?s1 (MessageKey (chunk_index c))
      then \<exists>v'. read_events (snd (?t ?s1)) v1 = Some v' \<and> mirrors rid ?s2 v' else read_events (snd (?t ?s1)) v1 = None"
      by (rule text_step_read [OF v1(2) done1])
    show ?thesis
    proof (cases "chunk_text c = [] \<or> \<not> ro_completed s \<and> \<not> ended s (MessageKey (chunk_index c))")
      case False
      then have "\<not> chunk_orderly p c" using fin by (auto simp: chunk_orderly_def)
      moreover have "read_events (snd (?t ?s1)) v1 = None" using t2 False s1 by argo
      ultimately show ?thesis using v1 by (simp add: out read_events_append)
    next
      case T: True
      then obtain v2 where v2: "read_events (snd (?t ?s1)) v1 = Some v2" "mirrors rid ?s2 v2" using t2 s1 by auto
      have done2: "\<forall>k. added ?s2 k \<longrightarrow> ended ?s2 k" if "ro_completed ?s2"
      proof -
        have c: "ro_completed s" using that s2(1) by simp
        then have "added ?s2 k = added ?s1 k" for k using T unfolding s2(2) by simp
        then show ?thesis using done1 c s1(1,3) s2(4) by metis
      qed
      have open2: "\<not> ro_completed ?s2 \<Longrightarrow> \<forall>x. \<not> ended ?s2 (CallKey x)" using m by (auto simp: s2 matched_def)
      have c: "if ro_completed ?s2 \<longrightarrow> list_all (\<lambda>d. added ?s2 (CallKey (delta_index d)) \<and> delta_arguments d = []) (chunk_calls c)
        then \<exists>v'. read_events (snd (?c ?s2)) v2 = Some v' \<and> mirrors rid (fst (?c ?s2)) v' else read_events (snd (?c ?s2)) v2 = None"
        by (rule emit_tool_calls_read [OF v2(2) done2 open2])
      have "chunk_orderly p c \<longleftrightarrow> (ro_completed ?s2 \<longrightarrow>
          list_all (\<lambda>d. added ?s2 (CallKey (delta_index d)) \<and> delta_arguments d = []) (chunk_calls c))"
        using R T fin s1 s2 unfolding chunk_orderly_def by (cases "ro_completed s") auto
      then show ?thesis using c v1 v2 by (simp add: out read_events_append)
    qed
  qed
qed

lemma said_step_matched:
  assumes "matched p s" "chunk_orderly p c"
  shows "matched (advance p c\<lparr>sp_finished := sp_finished p\<rparr>) (fst (said_step rid c s))"
proof -
  let ?s = "fst (said_step rid c s)"
  have e: "ro_completed ?s = ro_completed s" "added ?s k = (added s k \<or> chunk_says c k \<noteq> [])"
    "ended ?s k = (ended s k \<or> k = ReasoningKey \<and> chunk_text c \<noteq> [] \<and> (added s ReasoningKey \<or> chunk_reasoning c \<noteq> [])
        \<or> k = MessageKey 0 \<and> (added s (MessageKey 0) \<or> chunk_text c \<noteq> [] \<and> chunk_index c = 0)
          \<and> (\<exists>d \<in> set (chunk_calls c). \<not> added s (CallKey (delta_index d))))" for k
    using effect_said_step [of rid c s] by (simp_all add: effect_def settled_def)
  have calls: "(\<exists>d \<in> set (chunk_calls c). \<not> added s (CallKey (delta_index d)))
      \<longleftrightarrow> \<not> set (map delta_index (chunk_calls c)) \<subseteq> set (sp_calls p)"
    using assms(1) by (auto simp: matched_def)
  have known: "x \<in> set (sp_calls (advance p c)) \<longleftrightarrow> added ?s (CallKey x)" for x
    using assms(1) by (auto simp: e advance_def Let_def matched_def filter_empty_conv)
  show ?thesis
  proof (cases "ro_completed s")
    case True
    then have "added ?s k \<Longrightarrow> ended ?s k" for k
      using assms by (cases k) (auto simp: e matched_def chunk_orderly_def list_all_iff filter_empty_conv)
    then show ?thesis using True assms(1) known by (simp add: matched_def e(1))
  next
    case False
    have "sp_spoken_over (advance p c) = ended ?s (MessageKey 0)"
      using assms(1) False unfolding e(3) calls by (auto simp: matched_def advance_def Let_def)
    moreover have "sp_reasoned (advance p c) = ended ?s ReasoningKey" "sp_reasoning (advance p c) = added ?s ReasoningKey"
      "sp_spoken (advance p c) = added ?s (MessageKey 0)"
      using assms(1) False unfolding e by (auto simp: matched_def advance_def Let_def)
    moreover have "\<forall>x. x \<noteq> 0 \<longrightarrow> \<not> ended ?s (MessageKey x)" "\<forall>x. \<not> ended ?s (CallKey x)"
      using assms(1) False unfolding e by (simp_all add: matched_def)
    ultimately show ?thesis using False assms(1) known by (simp add: matched_def e(1))
  qed
qed

lemma chunk_step_read:
  fixes parse_json :: "string \<Rightarrow> json option" and now :: nat and c :: json
  assumes t: "mirrors rid s v" and m: "matched p s" and rid: "ro_response_id s = Some rid" and go: "ro_started s"
  defines "s' \<equiv> fst (chunk_step parse_json now rid c s)"
  shows "if chunk_orderly p c
    then (\<exists>v'. read_events (snd (chunk_step parse_json now rid c s)) v = Some v' \<and> mirrors rid s' v')
      \<and> matched (advance p c) s' \<and> grown s s' (chunk_says c) \<and> ro_response_id s' = Some rid \<and> ro_started s'
    else read_events (snd (chunk_step parse_json now rid c s)) v = None"
proof (cases "chunk_orderly p c")
  case False
  then show ?thesis using said_step_read [OF t m, of c]
    by (simp add: chunk_step_alt after_step_def split_beta read_events_append)
next
  case True
  let ?s1 = "fst (said_step rid c s)"
  have out: "snd (chunk_step parse_json now rid c s) = snd (said_step rid c s) @ snd (finish_step parse_json now c ?s1)"
    "s' = fst (finish_step parse_json now c ?s1)"
    by (simp_all add: s'_def chunk_step_alt after_step_def split_beta)
  obtain v1 where v1: "read_events (snd (said_step rid c s)) v = Some v1" "mirrors rid ?s1 v1"
    using said_step_read [OF t m, of c] True by auto
  have e: "settled s ?s1" "grown s ?s1 (chunk_says c)"
    using effect_said_step [of rid c s] by (simp_all add: effect_def grown_def)
  then have keep: "ro_response_id ?s1 = Some rid" "ro_started ?s1" using rid go by (simp_all add: settled_def)
  have m1: "matched (advance p c\<lparr>sp_finished := sp_finished p\<rparr>) ?s1" by (rule said_step_matched [OF m True])
  have fin: "sp_finished p = ro_completed ?s1" using m e(1) by (simp add: matched_def settled_def)
  show ?thesis
  proof (cases "opt_default [] (chunk_finish c) = [] \<or> ro_completed ?s1")
    case over: True
    then have f: "finish_step parse_json now c ?s1 = (?s1, [])" by (auto simp: finish_step_def responses_flush_def)
    have "advance p c\<lparr>sp_finished := sp_finished p\<rparr> = advance p c" using over fin by (auto simp: advance_def Let_def)
    then show ?thesis using True v1 e m1 keep by (simp add: out f)
  next
    case False
    then have f: "finish_step parse_json now c ?s1 = responses_flush parse_json now ?s1" by (simp add: finish_step_def)
    have go1: "\<not> ro_completed ?s1" using False by simp
    have a: "\<exists>v'. read_events (snd (responses_flush parse_json now ?s1)) v1 = Some v' \<and> mirrors rid (fst (responses_flush parse_json now ?s1)) v'"
      "ro_completed s'" "added s' = added ?s1" "written s' = written ?s1" "\<And>k. added ?s1 k \<Longrightarrow> ended s' k"
      "ro_response_id s' = Some rid" "ro_started s'"
      using flush_reads [OF v1(2) keep go1, where parse_json = parse_json and now = now] unfolding out(2) f by simp_all
    have "sp_finished (advance p c)" using False by (simp add: advance_def Let_def)
    then have "matched (advance p c) s'" using m1 a by (simp add: matched_def)
    moreover have "grown s s' (chunk_says c)" using e(2) a(3,4) by (simp add: grown_def)
    ultimately show ?thesis using True v1 a by (simp add: out(1) f read_events_append) (simp add: out(2) f)
  qed
qed

section \<open>A stream\<close>

definition responses_stream ::
    "(string \<Rightarrow> json option) \<Rightarrow> (nat \<times> json) list \<Rightarrow> nat \<Rightarrow> responses_step" where
  "responses_stream parse_json chunks now =
     after_step (for_each (\<lambda>(t, c). responses_events parse_json t c) chunks) (responses_flush parse_json now)"

definition untouched :: "responses_out \<Rightarrow> bool" where
  "untouched s \<longleftrightarrow> s = responses_out_new\<lparr>ro_custom_tools := ro_custom_tools s\<rparr>"

definition listens :: "stream_progress \<Rightarrow> responses_out \<Rightarrow> responses_view \<Rightarrow> bool" where
  "listens p s v \<longleftrightarrow> untouched s \<and> v = responses_view_new \<and> p = progress_new
     \<or> (\<exists>rid. mirrors rid s v \<and> matched p s \<and> ro_response_id s = Some rid \<and> ro_started s)"

lemma mirrors_identity:
  assumes "s' = s\<lparr>ro_response_id := i, ro_created := n\<rparr>"
  shows "mirrors rid s' v = mirrors rid s v" "matched p s' = matched p s" "grown s' s'' L = grown s s'' L"
proof -
  have k: "added s' = added s" "ended s' = ended s" "written s' = written s"
    unfolding assms by (intro key_ext; simp add: added.simps ended.simps written.simps message_text_def arguments_text_def)+
  have h: "held s' = held s" unfolding assms by (rule held_cong) simp_all
  show "mirrors rid s' v = mirrors rid s v"
    unfolding mirrors_def h by (simp add: assms well_kept_def message_text_def arguments_text_def)
  show "matched p s' = matched p s" unfolding matched_def k by (simp add: assms)
  show "grown s' s'' L = grown s s'' L" unfolding grown_def k by simp
qed

lemma begin_response:
  fixes rid :: string and created :: nat
  assumes "untouched s"
  defines "s0 \<equiv> s\<lparr>ro_response_id := Some rid, ro_created := Some created\<rparr>"
  defines "s1 \<equiv> fst (start_response rid created s0)"
  shows "\<exists>v1. read_events (snd (start_response rid created s0)) responses_view_new = Some v1 \<and> mirrors rid s1 v1"
    "matched progress_new s1" "grown s s1 (\<lambda>k. [])" "ro_response_id s1 = Some rid" "ro_started s1"
proof -
  have s: "s = responses_out_new\<lparr>ro_custom_tools := ro_custom_tools s\<rparr>" using assms(1) by (simp add: untouched_def)
  have new: "\<not> ro_started s" by (subst s) (simp add: responses_out_new_def)
  define v1 where "v1 = responses_view_new\<lparr>rv_phase := Streaming, rv_seq := 2\<rparr>"
  have f: "ro_seq s = 0" "ro_completed s = False" "ro_reasoning_added s = False" "ro_reasoning_buffer s = []"
    "ro_reasoning_done s = False" "ro_messages_added s = []" "ro_messages_done s = []" "ro_message_text s = []"
    "ro_calls_added s = []" "ro_calls_done s = []" "ro_call_arguments s = []"
    by (subst s, simp add: responses_out_new_def)+
  have s1: "s1 = s0\<lparr>ro_started := True, ro_seq := 2\<rparr>"
    using new by (simp add: s1_def s0_def start_response_def step_simps f wadd64_def)
  have k: "added s1 k = False" "ended s1 k = False" "written s1 k = []" "added s k = False" "written s k = []" for k
    by (cases k; simp add: s1 s0_def f added.simps ended.simps written.simps message_text_def arguments_text_def)+
  have "read_events (snd (start_response rid created s0)) responses_view_new = Some v1"
    using new by (simp add: s0_def start_response_def step_simps read_events.simps(2) f responses_view_new_def v1_def wadd64_def)
  moreover have "mirrors rid s1 v1"
    by (simp add: mirrors_def v1_def responses_view_new_def s1 s0_def f fun_eq_iff items_of_def held_alt proper_def well_kept_def
        message_text_def arguments_text_def) (simp add: k [unfolded s1 s0_def])
  ultimately show "\<exists>v1. read_events (snd (start_response rid created s0)) responses_view_new = Some v1 \<and> mirrors rid s1 v1" by blast
  show "matched progress_new s1" by (simp add: matched_def progress_new_def k) (simp add: s1 s0_def f)
  show "grown s s1 (\<lambda>k. [])" by (simp add: grown_def k)
  show "ro_response_id s1 = Some rid" "ro_started s1" by (simp_all add: s1 s0_def)
qed

lemma advance_nothing: "first_choice c = None \<Longrightarrow> advance p c = p \<and> chunk_orderly p c \<and> chunk_says c k = []"
  by (cases k) (auto simp: advance_def chunk_orderly_def chunk_text_def chunk_reasoning_def chunk_calls_def chunk_finish_def
      choice_delta_def extract_reasoning_text_def Let_def)

lemma grown_says_nothing: "first_choice c = None \<Longrightarrow> grown s s (chunk_says c)"
  by (simp add: grown_def advance_nothing)

lemma responses_events_read:
  fixes parse_json :: "string \<Rightarrow> json option" and now :: nat and c :: json
  assumes l: "listens p s v"
  defines "s' \<equiv> fst (responses_events parse_json now c s)" and "es \<equiv> snd (responses_events parse_json now c s)"
  shows "if chunk_orderly p c
    then \<exists>v'. read_events es v = Some v' \<and> listens (advance p c) s' v' \<and> grown s s' (chunk_says c)
        \<and> (ro_started s' \<longleftrightarrow> ro_started s \<or> first_choice c \<noteq> None)
    else read_events es v = None"
proof (cases "first_choice c = None")
  case True
  then show ?thesis using l by (simp add: s'_def es_def responses_events_alt advance_nothing grown_says_nothing)
next
  case some: False
  define s0 where "s0 = identify now c s"
  define rid where "rid = response_id_of now s0"
  let ?start = "start_response rid (created_of now s0)" and ?chunk = "chunk_step parse_json now rid c"
  have out: "s' = fst (?chunk (fst (?start s0)))" "es = snd (?start s0) @ snd (?chunk (fst (?start s0)))"
    using some by (auto simp: s'_def es_def responses_events_alt Let_def s0_def rid_def after_step_def split_beta)
  have s0: "s0 = s\<lparr>ro_response_id := Some rid, ro_created := Some (created_of now s0)\<rparr>"
    by (simp add: s0_def rid_def identify_def Let_def response_id_of_def created_of_def split: option.split)
  have "\<exists>v1. read_events (snd (?start s0)) v = Some v1 \<and> mirrors rid (fst (?start s0)) v1 \<and> matched p (fst (?start s0))
      \<and> grown s (fst (?start s0)) (\<lambda>k. []) \<and> ro_response_id (fst (?start s0)) = Some rid \<and> ro_started (fst (?start s0))"
  proof (cases "ro_started s")
    case True
    obtain rid' where t: "mirrors rid' s v" "matched p s" "ro_response_id s = Some rid'"
      using l True by (auto simp: listens_def untouched_def responses_out_new_def dest: arg_cong [of _ _ ro_started])
    have "rid' = rid" using t(3) True
      by (simp add: rid_def s0_def identify_def Let_def response_id_of_def split: option.split)
    moreover have "?start s0 = (s0, [])" using True by (subst s0) (simp add: start_response_def, subst (2) s0, simp)
    moreover have "grown s s0 (\<lambda>k. [])" by (simp flip: mirrors_identity(3) [OF s0]) (simp add: grown_def)
    moreover have "ro_response_id s0 = Some rid" "ro_started s0" using True by (subst s0, simp)+
    ultimately show ?thesis using t mirrors_identity(1,2) [OF s0] by simp
  next
    case False
    then have "untouched s" "v = responses_view_new" "p = progress_new" using l by (auto simp: listens_def)
    then show ?thesis using begin_response [of s rid "created_of now s0", folded s0] by simp
  qed
  then obtain v1 where v1: "read_events (snd (?start s0)) v = Some v1" "mirrors rid (fst (?start s0)) v1" "matched p (fst (?start s0))"
      "grown s (fst (?start s0)) (\<lambda>k. [])" "ro_response_id (fst (?start s0)) = Some rid" "ro_started (fst (?start s0))"
    by blast
  note step = chunk_step_read [OF v1(2,3,5,6), where parse_json = parse_json and now = now and c = c]
  show ?thesis
  proof (cases "chunk_orderly p c")
    case True
    then obtain v' where v': "read_events (snd (?chunk (fst (?start s0)))) v1 = Some v'" "mirrors rid s' v'"
      "matched (advance p c) s'" "grown (fst (?start s0)) s' (chunk_says c)" "ro_response_id s' = Some rid" "ro_started s'"
      using step by (auto simp: out)
    then have "listens (advance p c) s' v'" by (auto simp: listens_def)
    moreover have "grown s s' (chunk_says c)" using grown_trans [OF v1(4) v'(4)] by simp
    ultimately show ?thesis using True v1(1) v' some by (simp add: out(2) read_events_append)
  next
    case False
    then show ?thesis using step v1(1) by (simp add: out(2) read_events_append)
  qed
qed

lemma responses_chunks_read:
  fixes parse_json :: "string \<Rightarrow> json option"
  assumes "listens p s v"
  defines "run \<equiv> for_each (\<lambda>(t, c). responses_events parse_json t c)"
  shows "if orderly p (map snd chunks)
    then \<exists>v' p'. read_events (snd (run chunks s)) v = Some v' \<and> listens p' (fst (run chunks s)) v'
        \<and> grown s (fst (run chunks s)) (spoken_for (map snd chunks))
        \<and> (ro_started (fst (run chunks s)) \<longleftrightarrow> ro_started s \<or> list_ex (\<lambda>c. first_choice c \<noteq> None) (map snd chunks))
    else read_events (snd (run chunks s)) v = None"
  using assms(1)
proof (induction chunks arbitrary: p s v)
  case Nil
  then show ?case by (auto simp: run_def grown_def spoken_for_def)
next
  case (Cons x chunks)
  obtain t c where x: "x = (t, c)" by fastforce
  let ?f = "responses_events parse_json t c"
  have out: "snd (run (x # chunks) s) = snd (?f s) @ snd (run chunks (fst (?f s)))"
    "fst (run (x # chunks) s) = fst (run chunks (fst (?f s)))"
    by (simp_all add: run_def x after_step_def split_beta)
  note first = responses_events_read [OF Cons.prems, where parse_json = parse_json and now = t and c = c]
  show ?case
  proof (cases "chunk_orderly p c")
    case False
    then show ?thesis using first by (simp add: x) (simp add: out [unfolded x] read_events_append)
  next
    case True
    then obtain v1 where v1: "read_events (snd (?f s)) v = Some v1" "listens (advance p c) (fst (?f s)) v1"
      "grown s (fst (?f s)) (chunk_says c)" "ro_started (fst (?f s)) \<longleftrightarrow> ro_started s \<or> first_choice c \<noteq> None"
      using first by auto
    note rest = Cons.IH [OF v1(2)]
    show ?thesis
    proof (cases "orderly (advance p c) (map snd chunks)")
      case False
      then show ?thesis using rest v1(1) True by (simp add: x) (simp add: out [unfolded x] read_events_append)
    next
      case o: True
      then obtain v' p' where v': "read_events (snd (run chunks (fst (?f s)))) v1 = Some v'" "listens p' (fst (run chunks (fst (?f s)))) v'"
        "grown (fst (?f s)) (fst (run chunks (fst (?f s)))) (spoken_for (map snd chunks))"
        "ro_started (fst (run chunks (fst (?f s)))) \<longleftrightarrow> ro_started (fst (?f s)) \<or> list_ex (\<lambda>c. first_choice c \<noteq> None) (map snd chunks)"
        using rest by auto
      have "grown s (fst (run (x # chunks) s)) (spoken_for (map snd (x # chunks)))"
        using grown_trans [OF v1(3) v'(3)] unfolding out(2) unfolding x by (simp add: spoken_for_def [abs_def])
      moreover have "orderly p (map snd (x # chunks))" using True o by (simp add: x)
      moreover have "read_events (snd (run (x # chunks) s)) v = Some v'"
        using v1(1) v'(1) unfolding out(1) by (simp add: read_events_append)
      moreover have "listens p' (fst (run (x # chunks) s)) v'" using v'(2) unfolding out(2) .
      moreover have "ro_started (fst (run (x # chunks) s)) \<longleftrightarrow>
          ro_started s \<or> list_ex (\<lambda>c. first_choice c \<noteq> None) (map snd (x # chunks))"
        using v1(4) v'(4) unfolding out(2) by (simp add: x)
      ultimately show ?thesis by auto
    qed
  qed
qed

lemma untouched_items:
  assumes "untouched s"
  shows "added s k = False" "written s k = []" "ro_started s = False"
proof -
  obtain custom where "s = responses_out_new\<lparr>ro_custom_tools := custom\<rparr>" using assms by (auto simp: untouched_def)
  then show "added s k = False" "written s k = []" "ro_started s = False"
    by (cases k; simp add: responses_out_new_def added.simps written.simps message_text_def arguments_text_def)+
qed

text \<open>The end of a stream the client has followed.\<close>

lemma responses_end_read:
  fixes parse_json :: "string \<Rightarrow> json option" and now :: nat
  assumes "listens p s v"
  shows "\<exists>rid v'. read_events (snd (responses_flush parse_json now s)) v = Some v'
    \<and> rv_phase v' = (if ro_started s then Completed else AwaitCreated) \<and> proper rid v'
    \<and> items_of rid v' = (\<lambda>k. if added s k
        then Some \<lparr>oi_kind = kind_of_key k, oi_text = written s k, oi_stage = Closed\<rparr> else None)"
proof (cases "ro_started s")
  case False
  then have v: "v = responses_view_new" and u: "untouched s" using assms by (auto simp: listens_def)
  show ?thesis using False untouched_items(1) [OF u]
    by (simp add: responses_flush_def v responses_view_new_def proper_def items_of_def fun_eq_iff)
next
  case started: True
  then obtain rid where t: "mirrors rid s v" "matched p s" "ro_response_id s = Some rid"
    using assms untouched_items(3) by (auto simp: listens_def)
  have "\<exists>v' s2. read_events (snd (responses_flush parse_json now s)) v = Some v' \<and> mirrors rid s2 v' \<and> ro_completed s2
    \<and> added s2 = added s \<and> written s2 = written s \<and> (\<forall>k. added s2 k \<longrightarrow> ended s2 k)"
  proof (cases "ro_completed s")
    case True
    then have "responses_flush parse_json now s = (s, [])" by (simp add: responses_flush_def)
    then show ?thesis using t(1,2) True by (auto simp: matched_def)
  next
    case False
    show ?thesis using flush_reads [OF t(1,3) started False, where parse_json = parse_json and now = now] by metis
  qed
  then obtain v' s2 where v': "read_events (snd (responses_flush parse_json now s)) v = Some v'" "mirrors rid s2 v'"
    "ro_completed s2" "added s2 = added s" "written s2 = written s" "\<forall>k. added s2 k \<longrightarrow> ended s2 k" by blast
  have "items_of rid v' = (\<lambda>k. if added s k
      then Some \<lparr>oi_kind = kind_of_key k, oi_text = written s k, oi_stage = Closed\<rparr> else None)"
    using v'(2,6) by (auto simp: mirrors_def held_alt fun_eq_iff v'(4,5) stage_def)
  then show ?thesis using v'(1-3) started by (auto simp: mirrors_def)
qed

text \<open>C17: A Responses client understands a stream exactly when it is orderly: no reasoning after text has ended
  it, no text of the first choice after a tool call has ended it, and nothing after the finish reason.
  Then the events are numbered without a gap, every item is opened once, written and closed once, and
  says what the chunks said for it; the response is completed when any chunk had a choice. A stream
  that is not orderly is refused: it gets deltas for an item already closed.\<close>

theorem responses_stream_faithful:
  fixes parse_json :: "string \<Rightarrow> json option"
  defines "out \<equiv> \<lambda>chunks now custom.
    snd (responses_stream parse_json chunks now (responses_out_new\<lparr>ro_custom_tools := custom\<rparr>))"
  shows "if orderly progress_new (map snd chunks)
    then \<exists>rid v. read_events (out chunks now custom) responses_view_new = Some v
      \<and> rv_phase v = (if list_ex (\<lambda>c. first_choice c \<noteq> None) (map snd chunks) then Completed else AwaitCreated)
      \<and> proper rid v
      \<and> items_of rid v = (\<lambda>k. if spoken_for (map snd chunks) k \<noteq> []
          then Some \<lparr>oi_kind = kind_of_key k, oi_text = concat (spoken_for (map snd chunks) k), oi_stage = Closed\<rparr> else None)
    else read_events (out chunks now custom) responses_view_new = None"
proof -
  let ?s = "responses_out_new\<lparr>ro_custom_tools := custom\<rparr>" and ?cs = "map snd chunks"
  let ?run = "for_each (\<lambda>(t, c). responses_events parse_json t c) chunks"
  have u: "untouched ?s" by (simp add: untouched_def responses_out_new_def)
  then have l: "listens progress_new ?s responses_view_new" by (simp add: listens_def)
  have o: "out chunks now custom = snd (?run ?s) @ snd (responses_flush parse_json now (fst (?run ?s)))"
    by (simp add: out_def responses_stream_def after_step_def split_beta)
  note run = responses_chunks_read [OF l, of chunks parse_json]
  show ?thesis
  proof (cases "orderly progress_new ?cs")
    case False
    then show ?thesis using run by (simp add: o read_events_append)
  next
    case True
    let ?s1 = "fst (?run ?s)"
    obtain v1 p where v1: "read_events (snd (?run ?s)) responses_view_new = Some v1" "listens p ?s1 v1"
      "grown ?s ?s1 (spoken_for ?cs)" "ro_started ?s1 \<longleftrightarrow> list_ex (\<lambda>c. first_choice c \<noteq> None) ?cs"
      using run True by (auto simp: responses_out_new_def)
    have items: "added ?s1 = (\<lambda>k. spoken_for ?cs k \<noteq> [])" "written ?s1 = (\<lambda>k. concat (spoken_for ?cs k))"
      using v1(3) by (simp_all add: grown_def untouched_items [OF u] fun_eq_iff)
    obtain rid v where v: "read_events (snd (responses_flush parse_json now ?s1)) v1 = Some v"
      "rv_phase v = (if ro_started ?s1 then Completed else AwaitCreated)" "proper rid v"
      "items_of rid v = (\<lambda>k. if added ?s1 k
        then Some \<lparr>oi_kind = kind_of_key k, oi_text = written ?s1 k, oi_stage = Closed\<rparr> else None)"
      using responses_end_read [OF v1(2), of parse_json now] by blast
    have "read_events (out chunks now custom) responses_view_new = Some v"
      using v1(1) v(1) by (simp add: o read_events_append)
    then show ?thesis unfolding if_P [OF True] using v(2-4) unfolding items v1(4) by blast
  qed
qed

text \<open>Text, a tool call, and text again: the second text is a delta for a closed message.\<close>

definition sample_piece :: "json \<Rightarrow> nat \<times> json" where
  "sample_piece d = (0, build_chunk \<lparr>cm_id = ''c'', cm_created = 0, cm_model = ''m''\<rparr> d None)"

definition sample_call_between :: "(nat \<times> json) list" where
  "sample_call_between = map sample_piece
     [jobj [(''content'', JStr ''a'')],
      jobj [(''tool_calls'', JArr [jobj [(''index'', jnat 0), (''id'', JStr ''x''),
        (''function'', jobj [(''name'', JStr ''f''), (''arguments'', JStr ''{}'')])]])],
      jobj [(''content'', JStr ''b'')]]"

theorem responses_stream_faithful_witness:
  "read_events (snd (responses_stream (\<lambda>_. None) sample_call_between 0 (responses_out_new\<lparr>ro_custom_tools := []\<rparr>)))
     responses_view_new = None"
proof -
  have "\<not> orderly progress_new (map snd sample_call_between)" by code_simp
  then show ?thesis
    using responses_stream_faithful [of sample_call_between "\<lambda>_. None" 0 "[]"] by (simp only: if_False)
qed

end
