(* ===== verification/Gemini_Stream.thy ===== *)
theory Gemini_Stream
  imports Claude_Upstream Claude_Request Claude_Stream
begin

text \<open>
  Gemini's answers rewritten as OpenAI chunks
  (\<open>crates/translate/src/response/gemini_to_openai.rs\<close>), also for the formats that share its shape.
  \<open>now\<close> is the clock in milliseconds and \<open>render_json\<close> is serde_json's printer.
\<close>

section \<open>The translator\<close>

record gemini_in =
  gi_message_id :: "string option"
  gi_model :: "string option"
  gi_finish_reason :: "string option"
  gi_usage :: "token_usage option"
  gi_tool_name_map :: "(string \<times> string) list"
  gi_function_index :: nat
  gi_tool_call_count :: nat

definition gemini_in_new :: "(string \<times> string) list \<Rightarrow> gemini_in" where
  "gemini_in_new names = \<lparr>gi_message_id = None, gi_model = None, gi_finish_reason = None, gi_usage = None,
     gi_tool_name_map = names, gi_function_index = 0, gi_tool_call_count = 0\<rparr>"

definition gemini_chunk :: "nat \<Rightarrow> gemini_in \<Rightarrow> json \<Rightarrow> string option \<Rightarrow> json" where
  "gemini_chunk now s delta finish = build_chunk
     \<lparr>cm_id = ''chatcmpl-'' @ opt_default [] (gi_message_id s), cm_created = now div 1000,
      cm_model = opt_default [] (gi_model s)\<rparr> delta finish"

definition gemini_text_delta :: "string \<Rightarrow> bool \<Rightarrow> json" where
  "gemini_text_delta t is_thought = (if is_thought then reasoning_delta t False else jobj [(''content'', JStr t)])"

definition emit_function_call :: "(json \<Rightarrow> string) \<Rightarrow> nat \<Rightarrow> json \<Rightarrow> gemini_in \<Rightarrow> gemini_in \<times> json list" where
  "emit_function_call render_json now call s =
     (let raw_name = opt_default [] (get_str call ''name'');
          name = opt_default raw_name (map_of (gi_tool_name_map s) raw_name);
          args = opt_default (JObj []) (jget call ''args'');
          index = gi_function_index s;
          s1 = s\<lparr>gi_function_index := index + 1, gi_tool_call_count := gi_tool_call_count s + 1\<rparr>
      in (s1, [gemini_chunk now s1 (jobj [(''tool_calls'', JArr [jobj
            [(''id'', JStr (name @ ''-'' @ show_nat now @ ''-'' @ show_nat index)), (''index'', jnat index),
             (''type'', JStr ''function''),
             (''function'', jobj [(''name'', JStr name), (''arguments'', JStr (render_json args))])]])]) None]))"

definition is_thought :: "json \<Rightarrow> bool" where
  "is_thought part \<longleftrightarrow> Option.bind (jget part ''thought'') as_bool = Some True"

definition part_text :: "json \<Rightarrow> string" where
  "part_text part = opt_default [] (get_str part ''text'')"

definition emit_part_text :: "nat \<Rightarrow> json \<Rightarrow> gemini_in \<Rightarrow> gemini_in \<times> json list" where
  "emit_part_text now part s =
     (s, if part_text part = [] then []
         else [gemini_chunk now s (gemini_text_delta (part_text part) (is_thought part)) None])"

definition emit_part_call :: "(json \<Rightarrow> string) \<Rightarrow> nat \<Rightarrow> json \<Rightarrow> gemini_in \<Rightarrow> gemini_in \<times> json list" where
  "emit_part_call render_json now part s =
     (case jget part ''functionCall'' of Some call \<Rightarrow> emit_function_call render_json now call s | None \<Rightarrow> (s, []))"

definition emit_part_image :: "nat \<Rightarrow> json \<Rightarrow> gemini_in \<Rightarrow> gemini_in \<times> json list" where
  "emit_part_image now part s =
     (let inline = opt_or (jget part ''inlineData'') (jget part ''inline_data'')
      in case Option.bind inline (\<lambda>i. get_str i ''data'') of
           None \<Rightarrow> (s, [])
         | Some data \<Rightarrow>
             (let mime = opt_default ''image/png'' (Option.bind inline (\<lambda>i.
                    Option.bind (opt_or (jget i ''mimeType'') (jget i ''mime_type'')) as_str))
              in (s, [gemini_chunk now s (jobj [(''images'', JArr [jobj [(''type'', JStr ''image_url''),
                    (''image_url'', jobj [(''url'', JStr (encode_data_uri mime data))])]])]) None])))"

definition has_signature :: "json \<Rightarrow> bool" where
  "has_signature part \<longleftrightarrow> jget part ''thoughtSignature'' \<noteq> None \<or> jget part ''thought_signature'' \<noteq> None"

definition gemini_part :: "(json \<Rightarrow> string) \<Rightarrow> nat \<Rightarrow> json \<Rightarrow> gemini_in \<Rightarrow> gemini_in \<times> json list" where
  "gemini_part render_json now part =
     after_step (emit_part_text now part) (after_step (emit_part_call render_json now part)
       (if has_signature part then (\<lambda>s. (s, [])) else emit_part_image now part))"

definition gemini_body :: "json \<Rightarrow> json" where
  "gemini_body raw = opt_default raw (jget raw ''response'')"

definition gemini_candidate :: "json \<Rightarrow> json option" where
  "gemini_candidate raw =
     (case Option.bind (jget (gemini_body raw) ''candidates'') as_array of Some (c # cs) \<Rightarrow> Some c | _ \<Rightarrow> None)"

definition gemini_parts :: "json \<Rightarrow> json list" where
  "gemini_parts raw = opt_default [] (Option.bind (Option.bind (Option.bind (gemini_candidate raw)
     (\<lambda>c. jget c ''content'')) (\<lambda>c. jget c ''parts'')) as_array)"

definition gemini_begin :: "nat \<Rightarrow> json \<Rightarrow> gemini_in \<Rightarrow> gemini_in \<times> json list" where
  "gemini_begin now raw s =
     (if gi_message_id s \<noteq> None then (s, [])
      else let s1 = s\<lparr>gi_message_id := Some (opt_default (''msg_'' @ show_nat now) (get_str (gemini_body raw) ''responseId'')),
                      gi_model := Some (opt_default ''gemini'' (get_str (gemini_body raw) ''modelVersion'')),
                      gi_function_index := 0, gi_tool_call_count := 0\<rparr>
           in (s1, [gemini_chunk now s1 (jobj [(''role'', JStr ''assistant'')]) None]))"

definition gemini_usage :: "json \<Rightarrow> gemini_in \<Rightarrow> gemini_in" where
  "gemini_usage raw s =
     (case Option.bind (opt_or (jget (gemini_body raw) ''usageMetadata'') (jget raw ''usageMetadata''))
             (\<lambda>m. to_openai_usage m UsageGemini) of
        Some u \<Rightarrow> s\<lparr>gi_usage := Some u\<rparr>
      | None \<Rightarrow> s)"

definition gemini_finish :: "nat \<Rightarrow> json \<Rightarrow> gemini_in \<Rightarrow> gemini_in \<times> json list" where
  "gemini_finish now raw s =
     (case Option.bind (gemini_candidate raw) (\<lambda>c. get_str c ''finishReason'') of
        Some (c # cs) \<Rightarrow>
          (let mapped = to_openai_finish (c # cs) ''gemini'';
               finish = (if mapped = ''stop'' \<and> gi_tool_call_count s > 0 then ''tool_calls'' else mapped);
               final = gemini_chunk now s (JObj []) (Some finish);
               final' = (case gi_usage s of Some u \<Rightarrow> with_member ''usage'' (usage_to_value u) final | None \<Rightarrow> final)
           in (s\<lparr>gi_finish_reason := Some finish\<rparr>, [final']))
      | _ \<Rightarrow> (s, []))"

definition gemini_to_chunks :: "(json \<Rightarrow> string) \<Rightarrow> nat \<Rightarrow> json \<Rightarrow> gemini_in \<Rightarrow> gemini_in \<times> json list" where
  "gemini_to_chunks render_json now raw s =
     (if gemini_candidate raw = None then (s, [])
      else after_step (gemini_begin now raw)
             (after_step (for_each (gemini_part render_json now) (gemini_parts raw))
               (after_step (quietly (gemini_usage raw)) (gemini_finish now raw))) s)"

section \<open>What the client assembles\<close>

text \<open>The answer, the reasoning and the calls of the parts, as Gemini sent them.\<close>

definition part_answer :: "json \<Rightarrow> string" where
  "part_answer part = (if is_thought part then [] else part_text part)"

definition part_reasoning :: "json \<Rightarrow> string" where
  "part_reasoning part = (if is_thought part then part_text part else [])"

definition part_calls :: "json \<Rightarrow> json list" where
  "part_calls part = (case jget part ''functionCall'' of Some c \<Rightarrow> [c] | None \<Rightarrow> [])"

definition gemini_run :: "(json \<Rightarrow> string) \<Rightarrow> (nat \<times> json) list \<Rightarrow> gemini_in \<Rightarrow> gemini_in \<times> json list" where
  "gemini_run render_json = for_each (\<lambda>(now, raw). gemini_to_chunks render_json now raw)"

definition gemini_call_name :: "(string \<times> string) list \<Rightarrow> json \<Rightarrow> string" where
  "gemini_call_name names call = (let n = opt_default [] (get_str call ''name'') in opt_default n (map_of names n))"

definition gemini_call_args :: "json \<Rightarrow> json" where
  "gemini_call_args call = opt_default (JObj []) (jget call ''args'')"

definition all_calls :: "json list \<Rightarrow> json list" where
  "all_calls chunks = concat (map chunk_calls chunks)"

text \<open>A chunk of the response with this identifier and model.\<close>

definition part_of_response :: "string option \<Rightarrow> string option \<Rightarrow> json \<Rightarrow> bool" where
  "part_of_response mid model c \<longleftrightarrow> get_str c ''id'' = Some (''chatcmpl-'' @ opt_default [] mid)
     \<and> get_str c ''model'' = Some (opt_default [] model)"

text \<open>What a step says for the client, and that it keeps the response's identity.\<close>

definition tells ::
    "(json \<Rightarrow> string) \<Rightarrow> (gemini_in \<Rightarrow> gemini_in \<times> json list) \<Rightarrow> gemini_in \<Rightarrow> string \<Rightarrow> string \<Rightarrow> json list \<Rightarrow> bool" where
  "tells rj f s answer reasoning calls \<longleftrightarrow> (case f s of (s', out) \<Rightarrow>
       concat (map chunk_text out) = answer \<and> concat (map chunk_reasoning out) = reasoning
     \<and> map call_index (all_calls out) = [gi_function_index s ..< gi_function_index s + length calls]
     \<and> map call_name (all_calls out) = map (gemini_call_name (gi_tool_name_map s)) calls
     \<and> map call_arguments (all_calls out) = map (rj \<circ> gemini_call_args) calls
     \<and> list_all (part_of_response (gi_message_id s') (gi_model s')) out
     \<and> gi_function_index s' = gi_function_index s + length calls \<and> gi_tool_name_map s' = gi_tool_name_map s
     \<and> gi_message_id s' = gi_message_id s \<and> gi_model s' = gi_model s)"

lemma tells_nothing: "tells rj (\<lambda>s. (s, [])) s [] [] []"
  by (simp add: tells_def all_calls_def)

lemma tells_quietly:
  assumes "gi_function_index (f s) = gi_function_index s" "gi_tool_name_map (f s) = gi_tool_name_map s"
    "gi_message_id (f s) = gi_message_id s" "gi_model (f s) = gi_model s"
  shows "tells rj (quietly f) s [] [] []"
  using assms by (simp add: tells_def all_calls_def quietly_def)

lemma tells_after:
  assumes "tells rj f s a r c" "tells rj g (fst (f s)) a' r' c'"
  shows "tells rj (after_step f g) s (a @ a') (r @ r') (c @ c')"
proof -
  obtain s1 o1 where f: "f s = (s1, o1)" by fastforce
  obtain s2 o2 where g: "g s1 = (s2, o2)" by fastforce
  have "[gi_function_index s ..< gi_function_index s + length (c @ c')] =
      [gi_function_index s ..< gi_function_index s + length c] @ [gi_function_index s + length c ..< gi_function_index s + length c + length c']"
    using upt_add_eq_append [of "gi_function_index s" "gi_function_index s + length c" "length c'"] by (simp add: add.assoc)
  moreover have "gi_message_id s1 = gi_message_id s" "gi_model s1 = gi_model s" "gi_message_id s2 = gi_message_id s" "gi_model s2 = gi_model s"
    using assms f g by (simp_all add: tells_def)
  ultimately show ?thesis using assms f g by (simp add: tells_def after_step_def all_calls_def add.assoc)
qed

lemma gemini_chunk_parts [simp]:
  "chunk_text (gemini_chunk now s d f) = opt_default [] (get_str d ''content'')"
  "chunk_reasoning (gemini_chunk now s d f) = extract_reasoning_text (Some d)"
  "chunk_calls (gemini_chunk now s d f) = opt_default [] (Option.bind (jget d ''tool_calls'') as_array)"
  "gi_message_id s = i \<Longrightarrow> gi_model s = m \<Longrightarrow> part_of_response i m (gemini_chunk now s d f)"
  by (simp_all add: gemini_chunk_def chunk_text_def chunk_reasoning_def chunk_calls_def)
    (simp_all add: part_of_response_def build_chunk_def get_str_def jget_jobj)

lemma get_str_jobj: "get_str (jobj m) k = Option.bind (jget (jobj m) k) as_str"
  by (simp add: get_str_def)

lemma jobj_is_object [simp]: "as_object (jobj m) \<noteq> None"
  by (simp add: jobj_def)

lemma tells_part_text: "tells rj (emit_part_text now part) s (part_answer part) (part_reasoning part) []"
  by (simp add: tells_def emit_part_text_def all_calls_def part_answer_def part_reasoning_def gemini_text_delta_def
      reasoning_delta_def get_str_jobj jget_jobj extract_reasoning_text_def)

lemma tells_part_call: "tells rj (emit_part_call rj now part) s [] [] (part_calls part)"
  by (simp add: tells_def emit_part_call_def emit_function_call_def all_calls_def part_calls_def Let_def get_str_jobj jget_jobj
      extract_reasoning_text_def call_index_def call_name_def call_arguments_def call_field_def gemini_call_name_def
      gemini_call_args_def split: option.split)

lemma tells_part_image: "tells rj (emit_part_image now part) s [] [] []"
  by (simp add: tells_def emit_part_image_def all_calls_def Let_def get_str_jobj jget_jobj extract_reasoning_text_def split: option.split)

lemma tells_part: "tells rj (gemini_part rj now part) s (part_answer part) (part_reasoning part) (part_calls part)"
proof -
  have "tells rj (if has_signature part then (\<lambda>s. (s, [])) else emit_part_image now part) s [] [] []" for s
    by (simp add: tells_nothing tells_part_image)
  from tells_after [OF tells_part_text tells_after [OF tells_part_call this]]
  show ?thesis by (simp add: gemini_part_def)
qed

lemma tells_parts: "tells rj (for_each (gemini_part rj now) parts) s
    (concat (map part_answer parts)) (concat (map part_reasoning parts)) (concat (map part_calls parts))"
proof (induction parts arbitrary: s)
  case (Cons p parts)
  have "for_each (gemini_part rj now) (p # parts) = after_step (gemini_part rj now p) (for_each (gemini_part rj now) parts)"
    by (rule ext) simp
  then show ?case using tells_after [OF tells_part Cons.IH] by simp
next
  case Nil
  then show ?case using tells_nothing by (simp add: tells_def)
qed

lemma tells_usage: "tells rj (quietly (gemini_usage raw)) s [] [] []"
  by (rule tells_quietly) (simp_all add: gemini_usage_def split: option.split)

lemma tells_finish: "tells rj (gemini_finish now raw) s [] [] []"
proof -
  have m: "chunk_text (with_member ''usage'' u c) = chunk_text c" "chunk_reasoning (with_member ''usage'' u c) = chunk_reasoning c"
    "chunk_calls (with_member ''usage'' u c) = chunk_calls c"
    "part_of_response mid model (with_member ''usage'' u c) = part_of_response mid model c" for u c mid model
    by (cases c; simp add: with_member_def chunk_text_def chunk_reasoning_def chunk_calls_def choice_delta_def first_choice_def
        part_of_response_def get_str_def map_simps)+
  show ?thesis
    by (simp add: tells_def gemini_finish_def all_calls_def Let_def m get_str_def extract_reasoning_text_def split: option.split list.split)
qed

definition gemini_rest :: "(json \<Rightarrow> string) \<Rightarrow> nat \<Rightarrow> json \<Rightarrow> gemini_in \<Rightarrow> gemini_in \<times> json list" where
  "gemini_rest rj now raw = after_step (for_each (gemini_part rj now) (gemini_parts raw))
     (after_step (quietly (gemini_usage raw)) (gemini_finish now raw))"

abbreviation tells_raw ::
    "(json \<Rightarrow> string) \<Rightarrow> (gemini_in \<Rightarrow> gemini_in \<times> json list) \<Rightarrow> gemini_in \<Rightarrow> json list \<Rightarrow> bool" where
  "tells_raw rj f s parts \<equiv> tells rj f s (concat (map part_answer parts)) (concat (map part_reasoning parts)) (concat (map part_calls parts))"

lemma tells_rest: "tells_raw rj (gemini_rest rj now raw) s (gemini_parts raw)"
  using tells_after [OF tells_parts tells_after [OF tells_usage tells_finish]] by (simp add: gemini_rest_def)

lemma tells_raw_nothing: "tells_raw rj (\<lambda>s. (s, [])) s []"
  by (simp add: tells_nothing)

lemma no_candidate: "gemini_candidate raw = None \<Longrightarrow> gemini_parts raw = []"
  by (simp add: gemini_parts_def)

lemma gemini_to_chunks_alt: "gemini_to_chunks rj now raw s =
    (if gemini_candidate raw = None then (s, []) else after_step (gemini_begin now raw) (gemini_rest rj now raw) s)"
  by (simp add: gemini_to_chunks_def gemini_rest_def)

lemma tells_begun:
  assumes "gi_message_id s \<noteq> None"
  shows "tells_raw rj (gemini_run rj raws) s (concat (map (\<lambda>e. gemini_parts (snd e)) raws))"
  using assms
proof (induction raws arbitrary: s)
  case Nil
  then show ?case using tells_raw_nothing by (simp add: gemini_run_def tells_def)
next
  case (Cons e raws)
  obtain now raw where e: "e = (now, raw)" by fastforce
  have run: "gemini_run rj (e # raws) = after_step (gemini_to_chunks rj now raw) (gemini_run rj raws)"
    by (rule ext) (simp add: gemini_run_def e)
  have one: "tells_raw rj (gemini_to_chunks rj now raw) s (gemini_parts raw)"
  proof (cases "gemini_candidate raw = None")
    case True
    then show ?thesis using tells_raw_nothing [of rj s] by (simp add: tells_def gemini_to_chunks_alt no_candidate)
  next
    case False
    then have "gemini_to_chunks rj now raw s = gemini_rest rj now raw s"
      using Cons.prems by (auto simp: gemini_to_chunks_alt gemini_begin_def after_step_def split_beta)
    then show ?thesis using tells_rest [of rj now raw s] by (simp add: tells_def)
  qed
  then have "gi_message_id (fst (gemini_to_chunks rj now raw s)) \<noteq> None"
    using Cons.prems by (simp add: tells_def split_beta)
  from tells_after [OF one Cons.IH [OF this]] show ?case unfolding run by (simp add: e)
qed

text \<open>What a client reads from the chunks.\<close>

definition client_reads :: "(json \<Rightarrow> string) \<Rightarrow> (string \<times> string) list \<Rightarrow> json list \<Rightarrow> json list \<Rightarrow> bool" where
  "client_reads rj names parts out \<longleftrightarrow>
     concat (map chunk_text out) = concat (map part_answer parts)
   \<and> concat (map chunk_reasoning out) = concat (map part_reasoning parts)
   \<and> map call_index (all_calls out) = [0 ..< length (concat (map part_calls parts))]
   \<and> map call_name (all_calls out) = map (gemini_call_name names) (concat (map part_calls parts))
   \<and> map call_arguments (all_calls out) = map (rj \<circ> gemini_call_args) (concat (map part_calls parts))
   \<and> (\<exists>mid model. list_all (part_of_response mid model) out)"

text \<open>C18: What Gemini streams reaches an OpenAI client whole and in order: the text of the parts as
  content, the text of the thoughts as reasoning, and every function call under an index of its own,
  counted from zero, with the name the client declared and its arguments as JSON text. Every chunk
  carries the same response identifier and model.\<close>

theorem gemini_stream_faithful:
  "client_reads rj names (concat (map (\<lambda>e. gemini_parts (snd e)) raws)) (snd (gemini_run rj raws (gemini_in_new names)))"
proof (induction raws)
  case Nil
  show ?case by (simp add: client_reads_def gemini_run_def all_calls_def)
next
  case (Cons e raws)
  obtain now raw where e: "e = (now, raw)" by fastforce
  let ?s = "gemini_in_new names"
  have run: "gemini_run rj (e # raws) = after_step (gemini_to_chunks rj now raw) (gemini_run rj raws)"
    by (rule ext) (simp add: gemini_run_def e)
  show ?case
  proof (cases "gemini_candidate raw = None")
    case True
    then have "snd (gemini_run rj (e # raws) ?s) = snd (gemini_run rj raws ?s)"
      unfolding run by (simp add: after_step_def gemini_to_chunks_alt split_beta)
    then show ?thesis using Cons.IH True by (simp add: e no_candidate)
  next
    case False
    obtain s1 where b: "gemini_begin now raw ?s = (s1, [gemini_chunk now s1 (jobj [(''role'', JStr ''assistant'')]) None])"
      "gi_message_id s1 \<noteq> None" "gi_function_index s1 = 0" "gi_tool_name_map s1 = names"
      by (simp add: gemini_begin_def gemini_in_new_def Let_def)
    let ?rest = "after_step (gemini_rest rj now raw) (gemini_run rj raws)"
    have keep: "gi_message_id (fst (gemini_rest rj now raw s1)) \<noteq> None"
      using tells_rest [of rj now raw s1] b(2) by (simp add: tells_def split_beta)
    have rest: "tells_raw rj ?rest s1 (concat (map (\<lambda>e. gemini_parts (snd e)) (e # raws)))"
      using tells_after [OF tells_rest tells_begun [OF keep]] by (simp add: e)
    have "snd (gemini_run rj (e # raws) ?s) = gemini_chunk now s1 (jobj [(''role'', JStr ''assistant'')]) None # snd (?rest s1)"
      unfolding run using False b(1) by (auto simp: gemini_to_chunks_alt after_step_def split_beta)
    moreover obtain s2 o2 where o2: "?rest s1 = (s2, o2)" by fastforce
    ultimately have out: "snd (gemini_run rj (e # raws) ?s) = gemini_chunk now s1 (jobj [(''role'', JStr ''assistant'')]) None # o2"
      by simp
    have all: "list_all (part_of_response (gi_message_id s1) (gi_model s1)) (gemini_chunk now s1 (jobj [(''role'', JStr ''assistant'')]) None # o2)"
    proof -
      have "list_all (part_of_response (gi_message_id s2) (gi_model s2)) o2" "gi_message_id s2 = gi_message_id s1" "gi_model s2 = gi_model s1"
        using rest unfolding tells_def o2 prod.case by blast+
      then show ?thesis by simp
    qed
    show ?thesis unfolding client_reads_def out
    proof (intro conjI)
      show "\<exists>mid model. list_all (part_of_response mid model) (gemini_chunk now s1 (jobj [(''role'', JStr ''assistant'')]) None # o2)"
        using all by blast
    qed (use rest o2 b(3,4) in \<open>simp_all add: tells_def all_calls_def get_str_jobj jget_jobj extract_reasoning_text_def\<close>)
  qed
qed

end
