(* ===== verification/Spec2Isabelle.thy ===== *)
theory Spec2Isabelle
  imports Account_Failover Store_Invariant Persistence State_Wire Token_Refresh Fusion Gateway Sign_In Lockout Protobuf
    Supervisor Child_Output Line_Stream Claude_Stream Collapse Kiro_Stream Request_Route Single_Sign_On
    Responses_Stream Gemini_Stream
begin

text \<open>
  nullrouter is a router for language-model requests. A client speaks one dialect (OpenAI chat
  completions, the Responses API, Claude messages, Gemini, Ollama) to one address; the router chooses
  an account of some provider, rewrites the request into that provider's dialect, and rewrites the
  answer back while it streams. This development models the parts of the Rust workspace that decide
  something, as HOL functions and step relations, and proves what makes them correct.

  \<^bold>\<open>The parts and how they meet.\<close> A supervisor process keeps the children running. The gateway
  (\<open>services/gateway-pingora\<close>) takes every request, finds the service its path belongs to, asks the
  auth service (\<open>services/auth-actix\<close>) about the credential where the policy wants one, and rewrites
  the identity headers. A model request reaches the runtime (\<open>services/runtime-actix\<close>): admission, the
  routing context, the targets of a model or combo, and for each target the walk over its accounts.
  Accounts live in the state service (\<open>services/state-actix\<close>), which selects one, is told of failures
  and stores refreshed tokens. An attempt translates the request (\<open>crates/translate\<close>), sends it
  (\<open>crates/execute\<close>), and classifies the failure or carries the body back through the stream
  translators. \<open>crates/providers\<close> knows dialects, transports, models and capabilities.

  \<^bold>\<open>Theories.\<close> Every definition is named after the function, type or constant it models.

  \<^item> Vocabulary. \<open>Router_Prelude\<close>: strings as UTF-8 bytes, \<open>BTreeMap\<close> as ordered association lists,
    saturating arithmetic, the iterator and \<open>str\<close> methods the code calls. \<open>Json_Value\<close>:
    \<open>serde_json::Value\<close>, its order, getters and printing of integers. \<open>Net_Address\<close>: \<open>IpAddr\<close>.
    \<open>Civil_Time\<close>: the hand-written RFC 3339 conversions of \<open>execute/src/refresh.rs\<close>.
  \<^item> State service. \<open>Connection_Store\<close>: the snapshot of \<open>state-actix/src/store.rs\<close> and its operations
    (\<open>select_connection\<close>, \<open>mark_unavailable\<close>, \<open>clear_account_error\<close>, connections, combos, pools,
    catalogue, aliases), each the closure passed to \<open>write_snapshot\<close>. \<open>Store_Properties\<close> and
    \<open>Store_Invariant\<close>: what selection promises, the step relation of all mutations and its invariant.
    \<open>Persistence\<close>: the durable save, the deferred save and the flush as interleaving threads over two
    locks. \<open>State_Wire\<close>: the internal HTTP protocol from both of its ends.
  \<^item> Runtime. \<open>Upstream_Errors\<close> (\<open>execute/src/errors.rs\<close>), \<open>Model_Names\<close> (\<open>providers/src/model.rs\<close> and
    the resolution in \<open>pipeline.rs\<close>), \<open>Combo\<close>, \<open>Fusion\<close> (\<open>combo.rs\<close>, \<open>fusion.rs\<close>, \<open>collect_panel\<close>),
    \<open>Token_Refresh\<close>, \<open>Pipeline\<close> (admission, attempt, account walk, target walk, error replies) and
    \<open>Account_Failover\<close>, where the walk is proved against the contract of the store.
  \<^item> Gateway and sign-in. \<open>Gateway\<close> (\<open>routing.rs\<close>, \<open>policy.rs\<close>, \<open>config.rs\<close>, \<open>proxy.rs\<close>), \<open>Lockout\<close>,
    \<open>Sign_In\<close> (\<open>session.rs\<close>, \<open>routes.rs\<close>, \<open>users_client.rs\<close>), \<open>Oidc\<close>, \<open>Saml\<close>, \<open>Single_Sign_On\<close>
    (\<open>sso_routes.rs\<close>) of \<open>services/auth-actix\<close>.
  \<^item> Requests. \<open>Wire_Format\<close> and \<open>Capabilities\<close> (\<open>crates/providers\<close>), \<open>Claude_Request\<close>,
    \<open>Openai_Request\<close>, \<open>Gemini_Schema\<close>, \<open>Gemini_Request\<close>, \<open>Ollama_Request\<close>, \<open>Responses_Request\<close> (one per
    translator of \<open>translate/src/request\<close>), \<open>Thinking\<close>, \<open>Request_Rules\<close> (\<open>param_rules.rs\<close>,
    \<open>modality.rs\<close>) and \<open>Request_Route\<close>, which composes them as \<open>translate_request\<close> does.
  \<^item> Answers. \<open>Stream_Concerns\<close>, \<open>Claude_Stream\<close> (OpenAI to Claude), \<open>Responses_Stream\<close> (OpenAI to the
    Responses API), \<open>Claude_Upstream\<close> and \<open>Gemini_Stream\<close> (to OpenAI), \<open>Line_Stream\<close> (\<open>sse.rs\<close> and the pump of \<open>stream.rs\<close>), \<open>Collapse\<close> (a stream made one
    answer), \<open>Protobuf\<close> (Cursor), \<open>Eventstream\<close> and \<open>Kiro_Stream\<close> (Kiro).
  \<^item> Processes. \<open>Supervisor\<close> and \<open>Child_Output\<close> (\<open>crates/procctl\<close>).

  \<^bold>\<open>State and steps.\<close> A function of the code that changes state takes the state and returns it
  updated: the snapshot of the store, the rotation cursors of the combos, the table of the lockout, the
  state of a stream translator, the pending bytes of a reader. Three parts run concurrently or are
  driven from outside and are step relations with reachable states: the store's mutations
  (\<open>Store_Invariant\<close>), the persistence threads (\<open>Persistence\<close>) and the supervisor's loop, whose
  commands, exits and deadlines arrive in any order (\<open>Supervisor\<close>); an event is one step there, while
  the code writes the shared view in several locked steps within it. Errors are values: a sum or
  option where the code has \<open>Result\<close> or \<open>Option\<close>, a constructor where it has an enum of outcomes.

  \<^bold>\<open>Interfaces.\<close> Five contracts are locales, interpreted on the code's model.
  \<open>account_service\<close> (\<open>Account_Failover\<close>): what selecting, attempting and marking promise the walk;
  discharged by the store behind its protocol. \<open>attempt_limiter\<close> (\<open>Lockout\<close>): what a check and a
  recorded failure promise the login; discharged by the bounded table. \<open>session_authority\<close>
  (\<open>Sign_In\<close>): what a granted authorization promises the gateway; discharged by the auth service's
  handler. \<open>item_stream\<close> and its extension \<open>item_codec\<close> (\<open>Protobuf\<close>): reading items off the front of
  a buffer, whose concatenation, resumption and round-trip lemmas serve protobuf messages, Connect
  frames and Kiro's events.

  \<^bold>\<open>What is shown.\<close>
  \<^item> Routing: selection computes its specification, enforces cooldowns (except that an expired lock of the
    model hides a running account-wide one), rotates fairly; failover tries
    every usable account, never one twice, and ends; admission fails closed.
  \<^item> Durability: the disk only moves forward, nothing acknowledged is forgotten while saves succeed, the
    locks cannot deadlock; every reachable snapshot is well formed and no read shows a secret.
  \<^item> Access: only allowed requests are forwarded, only signed, unexpired sessions of the right role pass,
    guessing is bounded, a single sign-on session needs the provider's word, and SAML is refused.
  \<^item> Requests: each translator yields what its target accepts, to Claude from a well-formed client, and keeps what it must (types, turns, tool
    replies, schemas, levels of reasoning), the conversation round trip, and the rules the final body
    obeys in spite of the passes after them. Requests within one dialect pass untranslated and without the rules.
  \<^item> Answers: a Claude client understands every translated stream and gets every tool call whole; a
    Responses client exactly the orderly ones; what Gemini streams reaches the client whole; the way
    the network cuts a body does not matter; a client that leaves has seen a prefix without gaps; damaged
    frames are detected; the wire codec round trips.
  \<^item> Processes: restarts are bounded (for the whole run, because the allowance the documentation promises after a
    healthy uptime is never given back), each command is answered once, and between two events the published snapshot is true.
  \<^item> Shared helpers stand in the theory of the component, those of several in \<open>Router_Prelude\<close> and
    \<open>Json_Value\<close>. The samples named in witnesses are concrete inputs on which the hypotheses hold.

  \<^bold>\<open>Parameters.\<close> Code and data from outside the sources are arguments: reading and printing JSON text,
  base64, keyed hashes, RS256, DEFLATE, decompression and URL building; the provider registry and the
  capability table (data files); the clock, random values and the operating system's answers; what a
  provider sends. A theorem that needs one of them to behave names that as a hypothesis.

  \<^bold>\<open>Numbers and bounds.\<close> Bytes, checksums and varints are machine words. Counters that only meet
  saturating or checked operations are naturals with the bound written out, and token counts wrap at
  \<open>2 ^ 64\<close>. Nothing runs on fuel: recursion that is not structural (readers of a buffer, the walk over a
  schema, the repair of a conversation) has its measure, the length of what is left or the size of the
  value, so every function is total as written.

  \<^bold>\<open>Not modelled.\<close>
  \<^item> Requests and sockets themselves: the HTTP handlers of the runtime and of \<open>services/api-actix\<close>, the
    executor that sends a translated request (\<open>execute/src/executor.rs\<close>), the event streams of
    \<open>services/events-actix\<close>, log shipping, process creation. They move data between the parts above; what
    comes back from them is an argument here.
  \<^item> User interface, static data and privileged edits: the dashboards, \<open>services/catalog-actix\<close>,
    \<open>crates/mitm-helper\<close>, the imports and command-line tools of \<open>services/api-actix\<close>.
  \<^item> Parts with logic of their own that are left out: the streams of Ollama, CommandCode, grok.com and
    perplexity.ai and the choice between the stream translators in \<open>translate/src/lib.rs\<close>, the Cursor arm
    of the binary decoder, the settings and usage records of the store, the token bucket of the gateway
    (floating point, a parameter of the request filter), the prompt compression of \<open>crates/rtk\<close>,
    \<open>crates/caveman\<close> and \<open>crates/pxpipe\<close>, and \<open>tool_dedup.rs\<close>, which nothing calls.
\<close>

end
